(* ===== verification/BG_Prelude.thy ===== *)
theory BG_Prelude
  imports Main "HOL-Library.Word"
begin

text \<open>
  Shared vocabulary of the development: the machine integer types of the C and C++ sources,
  the model of \<^verbatim>\<open>std::set\<close> with a user comparator as a strictly sorted list
  (find, insert that ignores an equivalent element, erase, insertion while an iterator is
  live), and the lemma collections the component theories extend.
\<close>

unbundle bit_operations_syntax

section \<open>Machine integers\<close>

type_synonym u8 = "8 word"
type_synonym u16 = "16 word"
type_synonym u32 = "32 word"
type_synonym u64 = "64 word"
type_synonym bytes = "8 word list"

text \<open>Successor and predecessor do not wrap next to a strict inequality.\<close>

lemma unat_plus_one_less:
  assumes "x < (y :: 'a::len word)"
  shows "unat (x + 1) = unat x + 1"
proof -
  have "unat y < 2 ^ LENGTH('a)" by (rule unsigned_less)
  moreover have "unat x < unat y" using assms by (simp only: word_less_nat_alt)
  ultimately have "unat x + 1 < 2 ^ LENGTH('a)" by linarith
  then show ?thesis by (simp add: unat_word_ariths)
qed

lemma unat_minus_one_less: "x < (y :: 'a::len word) \<Longrightarrow> unat (y - 1) = unat y - 1"
  by (rule unat_minus_one) auto

lemma unat_add_small:
  "unat x + unat y < 2 ^ LENGTH('a) \<Longrightarrow> unat (x + y :: 'a::len word) = unat x + unat y"
  by (simp add: unat_word_ariths)

lemma word_less_plus_one: "x \<noteq> - 1 \<Longrightarrow> (x :: u64) < x + 1"
  using inc_less_eq_triv_imp not_le by metis

named_theorems oset_simps \<open>rules for ordered sets kept as sorted lists\<close>

section \<open>Ordered sets with a comparator\<close>

text \<open>
  A \<^verbatim>\<open>std::set<T, Comparator>\<close> is the list of its elements in comparator order. Two
  elements are equivalent when neither is less than the other; \<^verbatim>\<open>find\<close> looks for an
  equivalent element, \<^verbatim>\<open>insert\<close> does nothing when there is one.
\<close>

definition equivalent :: "('a \<Rightarrow> 'a \<Rightarrow> bool) \<Rightarrow> 'a \<Rightarrow> 'a \<Rightarrow> bool" where
  "equivalent lt x y \<longleftrightarrow> \<not> lt x y \<and> \<not> lt y x"

definition oset_mem :: "('a \<Rightarrow> 'a \<Rightarrow> bool) \<Rightarrow> 'a \<Rightarrow> 'a list \<Rightarrow> bool" where
  "oset_mem lt x xs \<longleftrightarrow> list_ex (equivalent lt x) xs"

fun oset_insert :: "('a \<Rightarrow> 'a \<Rightarrow> bool) \<Rightarrow> 'a \<Rightarrow> 'a list \<Rightarrow> 'a list" where
  "oset_insert lt x [] = [x]"
| "oset_insert lt x (y # ys) =
     (if lt x y then x # y # ys
      else if lt y x then y # oset_insert lt x ys
      else y # ys)"

definition oset_erase :: "('a \<Rightarrow> 'a \<Rightarrow> bool) \<Rightarrow> 'a \<Rightarrow> 'a list \<Rightarrow> 'a list" where
  "oset_erase lt x xs = filter (\<lambda>y. \<not> equivalent lt x y) xs"

text \<open>
  Insertion while an iterator points at the head of \<^term>\<open>rest\<close> (the elements before it are
  \<^term>\<open>before\<close>): the iterator stays valid and keeps pointing at the same element, so the new
  element lands before it or after it according to the comparator.
\<close>

definition oset_insert_at ::
    "('a \<Rightarrow> 'a \<Rightarrow> bool) \<Rightarrow> 'a \<Rightarrow> 'a list \<Rightarrow> 'a list \<Rightarrow> 'a list \<times> 'a list" where
  "oset_insert_at lt x before rest =
     (case rest of
        [] \<Rightarrow> (oset_insert lt x before, [])
      | y # ys \<Rightarrow> if lt x y then (oset_insert lt x before, rest)
                 else (before, oset_insert lt x rest))"

text \<open>The contract \<^verbatim>\<open>std::set\<close> demands of its comparator: a strict weak order.\<close>

locale set_comparator =
  fixes lt :: "'a \<Rightarrow> 'a \<Rightarrow> bool"
  assumes lt_irrefl: "\<not> lt x x"
    and lt_trans: "lt x y \<Longrightarrow> lt y z \<Longrightarrow> lt x z"
    and lt_split: "lt x z \<Longrightarrow> lt x y \<or> lt y z"
begin

lemma lt_asym: "lt x y \<Longrightarrow> \<not> lt y x"
  using lt_irrefl lt_trans by blast

lemma equivalent_refl: "equivalent lt x x"
  by (simp add: equivalent_def lt_irrefl)

lemma equivalent_sym: "equivalent lt x y \<Longrightarrow> equivalent lt y x"
  by (simp add: equivalent_def)

lemma equivalent_trans: "equivalent lt x y \<Longrightarrow> equivalent lt y z \<Longrightarrow> equivalent lt x z"
  unfolding equivalent_def using lt_split by blast

lemma lt_equivalent: "lt x y \<Longrightarrow> equivalent lt y z \<Longrightarrow> lt x z"
  unfolding equivalent_def using lt_split by blast

lemma set_oset_insert_subset: "set (oset_insert lt x xs) \<subseteq> insert x (set xs)"
  by (induction xs) auto

lemma set_subset_oset_insert: "set xs \<subseteq> set (oset_insert lt x xs)"
  by (induction xs) auto

lemma sorted_oset_insert:
  "sorted_wrt lt xs \<Longrightarrow> sorted_wrt lt (oset_insert lt x xs)"
proof (induction xs)
  case Nil
  then show ?case by simp
next
  case (Cons y ys)
  then show ?case
    using set_oset_insert_subset [of x ys] by (auto intro: lt_trans)
qed

lemma oset_mem_insert: "oset_mem lt x (oset_insert lt x xs)"
  by (induction xs) (auto simp: oset_mem_def equivalent_def lt_irrefl)

lemma set_oset_insert_fresh:
  assumes "sorted_wrt lt xs" and "\<not> oset_mem lt x xs"
  shows "set (oset_insert lt x xs) = insert x (set xs)"
  using assms by (induction xs) (auto simp: oset_mem_def equivalent_def)

lemma oset_insert_present:
  assumes "sorted_wrt lt xs" and "oset_mem lt x xs"
  shows "oset_insert lt x xs = xs"
  using assms
proof (induction xs)
  case Nil
  then show ?case by (simp add: oset_mem_def)
next
  case (Cons y ys)
  show ?case
  proof (cases "equivalent lt x y")
    case True
    then show ?thesis by (simp add: equivalent_def)
  next
    case False
    with Cons.prems obtain z where z: "z \<in> set ys" "equivalent lt x z"
      by (auto simp: oset_mem_def list_ex_iff)
    with Cons.prems have "lt y z" by simp
    then have yx: "lt y x"
      using z(2) equivalent_sym by (blast intro: lt_equivalent)
    have "oset_insert lt x ys = ys"
      using Cons z by (auto simp: oset_mem_def list_ex_iff)
    with yx lt_asym [OF yx] show ?thesis by simp
  qed
qed

lemma sorted_oset_erase: "sorted_wrt lt xs \<Longrightarrow> sorted_wrt lt (oset_erase lt x xs)"
  by (simp add: oset_erase_def sorted_wrt_filter)

lemma oset_mem_erase: "\<not> oset_mem lt x (oset_erase lt x xs)"
  by (auto simp: oset_mem_def oset_erase_def list_ex_iff)

lemma oset_erase_absent: "\<not> oset_mem lt x xs \<Longrightarrow> oset_erase lt x xs = xs"
  by (auto simp: oset_mem_def oset_erase_def list_ex_iff filter_id_conv)

lemma oset_insert_at_append:
  assumes "sorted_wrt lt (before @ rest)"
  shows "fst (oset_insert_at lt x before rest) @ snd (oset_insert_at lt x before rest)
         = oset_insert lt x (before @ rest)"
  using assms
proof (induction before)
  case Nil
  then show ?case by (auto simp: oset_insert_at_def split: list.splits)
next
  case (Cons b bs)
  show ?case
  proof (cases rest)
    case Nil
    then show ?thesis by (simp add: oset_insert_at_def)
  next
    case rest: (Cons y ys)
    with Cons.prems have bef: "lt b y" by simp
    have IH: "fst (oset_insert_at lt x bs rest) @ snd (oset_insert_at lt x bs rest)
              = oset_insert lt x (bs @ rest)"
      using Cons by simp
    show ?thesis
    proof (cases "lt x y")
      case True
      with IH rest show ?thesis by (simp add: oset_insert_at_def)
    next
      case False
      with lt_split [OF bef, of x] have "lt b x" by simp
      then show ?thesis
        using IH rest False lt_asym [of b x] by (simp add: oset_insert_at_def)
    qed
  qed
qed

end

section \<open>Erasing while iterating\<close>

text \<open>
  The cancel operations of the sources walk a container and erase every element that matches,
  noting whether one did; the loop over a waiter queue also drops the waiter's ID from the set
  of enqueued IDs.
\<close>

fun erase_matching :: "('a \<Rightarrow> bool) \<Rightarrow> 'a list \<Rightarrow> 'a list \<times> bool" where
  "erase_matching P [] = ([], False)"
| "erase_matching P (x # xs) =
     (let (ys, found) = erase_matching P xs
      in if P x then (ys, True) else (x # ys, found))"

fun erase_waiters ::
    "('a \<Rightarrow> 'k) \<Rightarrow> ('a \<Rightarrow> bool) \<Rightarrow> 'a list \<Rightarrow> 'k set \<Rightarrow> 'a list \<times> 'k set \<times> bool" where
  "erase_waiters key P [] ids = ([], ids, False)"
| "erase_waiters key P (x # xs) ids =
     (if P x then (let (ys, ids', found) = erase_waiters key P xs (ids - {key x}) in (ys, ids', True))
      else (let (ys, ids', found) = erase_waiters key P xs ids in (x # ys, ids', found)))"

lemma erase_matching_eq [simp]:
  "erase_matching P xs = (filter (\<lambda>x. \<not> P x) xs, list_ex P xs)"
  by (induction xs) auto

lemma erase_waiters_eq [simp]:
  "erase_waiters key P xs ids =
     (filter (\<lambda>x. \<not> P x) xs, ids - key ` set (filter P xs), list_ex P xs)"
  by (induction xs arbitrary: ids) auto

text \<open>Removing the waiters that match keeps the ID set exact when the IDs are distinct.\<close>

lemma ids_after_erase:
  assumes "distinct (map key (xs @ ys))" and "ids = key ` set (xs @ ys)"
  shows "ids - key ` set (filter P xs) - key ` set (filter P ys) =
         key ` set (filter (\<lambda>x. \<not> P x) xs @ filter (\<lambda>x. \<not> P x) ys)"
proof -
  let ?A = "set (xs @ ys)"
  have inj: "inj_on key ?A"
    using assms(1) by (simp only: distinct_map)
  have "key ` (?A - {x \<in> ?A. P x}) = key ` ?A - key ` {x \<in> ?A. P x}"
    using inj by (rule inj_on_image_set_diff) auto
  moreover have "?A - {x \<in> ?A. P x} = set (filter (\<lambda>x. \<not> P x) xs @ filter (\<lambda>x. \<not> P x) ys)"
    by auto
  moreover have "key ` {x \<in> ?A. P x} = key ` set (filter P xs) \<union> key ` set (filter P ys)"
    by auto
  ultimately show ?thesis
    using assms(2) by (simp add: Diff_eq Int_assoc)
qed

lemma distinct_map_filter2:
  "distinct (map key (xs @ ys)) \<Longrightarrow> distinct (map key (filter P xs @ filter P ys))"
  using distinct_map_filter [of key "xs @ ys" P] by (simp only: filter_append)

end
