(* ===== verification/Locking_Details.thy ===== *)
theory Locking_Details
  imports BG_Prelude
begin

text \<open>
  The lock descriptions of the metadata server (\<^verbatim>\<open>meta/source/storage/Locking.h\<close>):
  \<^verbatim>\<open>EntryLockDetails\<close> (flock and append locks, owned by a file descriptor) and
  \<^verbatim>\<open>RangeLockDetails\<close> (POSIX byte-range locks, owned by a process), with their flag
  tests, handle comparison, the interval operations of range locks at 64 bit width, and the
  comparators that order them in a \<^verbatim>\<open>std::set\<close>.
\<close>

section \<open>Lock type flags\<close>

definition ENTRYLOCKTYPE_UNLOCK :: u32 where "ENTRYLOCKTYPE_UNLOCK = 1"
definition ENTRYLOCKTYPE_EXCLUSIVE :: u32 where "ENTRYLOCKTYPE_EXCLUSIVE = 2"
definition ENTRYLOCKTYPE_SHARED :: u32 where "ENTRYLOCKTYPE_SHARED = 4"
definition ENTRYLOCKTYPE_NOWAIT :: u32 where "ENTRYLOCKTYPE_NOWAIT = 8"
definition ENTRYLOCKTYPE_CANCEL :: u32 where "ENTRYLOCKTYPE_CANCEL = 16"

lemmas locktype_defs = ENTRYLOCKTYPE_UNLOCK_def ENTRYLOCKTYPE_EXCLUSIVE_def
  ENTRYLOCKTYPE_SHARED_def ENTRYLOCKTYPE_NOWAIT_def ENTRYLOCKTYPE_CANCEL_def

text \<open>The bit tests every lock description makes on its \<^verbatim>\<open>lockTypeFlags\<close>.\<close>

definition flags_allowWaiting :: "u32 \<Rightarrow> bool" where
  "flags_allowWaiting f \<longleftrightarrow> \<not> (f AND ENTRYLOCKTYPE_NOWAIT \<noteq> 0)"

definition flags_setUnlock :: "u32 \<Rightarrow> u32" where
  "flags_setUnlock f =
     (f OR ENTRYLOCKTYPE_UNLOCK) AND
       NOT (ENTRYLOCKTYPE_EXCLUSIVE OR ENTRYLOCKTYPE_SHARED OR ENTRYLOCKTYPE_CANCEL)"

lemma flags_setUnlock_tests:
  "flags_setUnlock f AND ENTRYLOCKTYPE_UNLOCK \<noteq> 0"
  "flags_setUnlock f AND ENTRYLOCKTYPE_EXCLUSIVE = 0"
  "flags_setUnlock f AND ENTRYLOCKTYPE_SHARED = 0"
  "flags_setUnlock f AND ENTRYLOCKTYPE_CANCEL = 0"
proof -
  have *: "(x AND NOT (2 OR 4 OR 16)) AND 2 = (0::u32)"
    "(x AND NOT (2 OR 4 OR 16)) AND 4 = (0::u32)"
    "(x AND NOT (2 OR 4 OR 16)) AND 16 = (0::u32)" for x
    by (simp_all add: and.assoc)
  show "flags_setUnlock f AND ENTRYLOCKTYPE_EXCLUSIVE = 0"
    "flags_setUnlock f AND ENTRYLOCKTYPE_SHARED = 0"
    "flags_setUnlock f AND ENTRYLOCKTYPE_CANCEL = 0"
    using * by (simp_all add: flags_setUnlock_def locktype_defs)
  have "bit (flags_setUnlock f AND 1) 0"
    by (simp add: flags_setUnlock_def locktype_defs bit_simps)
  then show "flags_setUnlock f AND ENTRYLOCKTYPE_UNLOCK \<noteq> 0"
    by (auto simp: locktype_defs)
qed

section \<open>Entry locks\<close>

text \<open>
  Owned by a file descriptor of a client. The default constructor leaves every field but the
  client ID (which is 0) and the string without a value; an unset lock is only ever compared by
  handle with requests of a client whose ID is not 0, so the zeros chosen here are never
  observed.
\<close>

record EntryLockDetails =
  el_clientNumID :: u32
  el_clientFD :: u64
  el_ownerPID :: u32
  el_lockAckID :: string
  el_lockTypeFlags :: u32

definition EntryLockDetails_unset :: EntryLockDetails where
  "EntryLockDetails_unset =
     \<lparr>el_clientNumID = 0, el_clientFD = 0, el_ownerPID = 0, el_lockAckID = [],
      el_lockTypeFlags = 0\<rparr>"

definition el_isSet :: "EntryLockDetails \<Rightarrow> bool" where
  "el_isSet l \<longleftrightarrow> el_clientNumID l \<noteq> 0"

definition el_allowsWaiting :: "EntryLockDetails \<Rightarrow> bool" where
  "el_allowsWaiting l \<longleftrightarrow> flags_allowWaiting (el_lockTypeFlags l)"

definition el_isUnlock :: "EntryLockDetails \<Rightarrow> bool" where
  "el_isUnlock l \<longleftrightarrow> el_lockTypeFlags l AND ENTRYLOCKTYPE_UNLOCK \<noteq> 0"

definition el_setUnlock :: "EntryLockDetails \<Rightarrow> EntryLockDetails" where
  "el_setUnlock l = l\<lparr>el_lockTypeFlags := flags_setUnlock (el_lockTypeFlags l)\<rparr>"

definition el_isExclusive :: "EntryLockDetails \<Rightarrow> bool" where
  "el_isExclusive l \<longleftrightarrow> el_lockTypeFlags l AND ENTRYLOCKTYPE_EXCLUSIVE \<noteq> 0"

definition el_isShared :: "EntryLockDetails \<Rightarrow> bool" where
  "el_isShared l \<longleftrightarrow> el_lockTypeFlags l AND ENTRYLOCKTYPE_SHARED \<noteq> 0"

definition el_isCancel :: "EntryLockDetails \<Rightarrow> bool" where
  "el_isCancel l \<longleftrightarrow> el_lockTypeFlags l AND ENTRYLOCKTYPE_CANCEL \<noteq> 0"

definition el_equalsHandle :: "EntryLockDetails \<Rightarrow> EntryLockDetails \<Rightarrow> bool" where
  "el_equalsHandle l other \<longleftrightarrow>
     el_clientFD l = el_clientFD other \<and> el_clientNumID l = el_clientNumID other"

definition el_lt :: "EntryLockDetails \<Rightarrow> EntryLockDetails \<Rightarrow> bool" where
  "el_lt a b \<longleftrightarrow>
     el_clientFD a <s el_clientFD b \<or>
     (el_clientFD a = el_clientFD b \<and> el_clientNumID a < el_clientNumID b)"

lemmas el_flag_defs = el_allowsWaiting_def el_isUnlock_def el_isExclusive_def el_isShared_def
  el_isCancel_def flags_allowWaiting_def locktype_defs

lemma el_equalsHandle_sym: "el_equalsHandle a b \<longleftrightarrow> el_equalsHandle b a"
  by (auto simp: el_equalsHandle_def)

lemma el_equalsHandle_refl [simp]: "el_equalsHandle a a"
  by (simp add: el_equalsHandle_def)

lemma el_equalsHandle_trans:
  "el_equalsHandle a b \<Longrightarrow> el_equalsHandle b c \<Longrightarrow> el_equalsHandle a c"
  by (simp add: el_equalsHandle_def)

lemma el_unset_not_isSet [simp]: "\<not> el_isSet EntryLockDetails_unset"
  by (simp add: el_isSet_def EntryLockDetails_unset_def)

lemma el_unset_handle:
  "el_isSet d \<Longrightarrow> \<not> el_equalsHandle EntryLockDetails_unset d"
  by (simp add: el_isSet_def el_equalsHandle_def EntryLockDetails_unset_def)

interpretation entry_order: set_comparator el_lt
  by unfold_locales (auto simp: el_lt_def)

text \<open>Equivalence in the set of shared entry locks is having the same handle.\<close>

lemma equivalent_el_lt [simp]: "equivalent el_lt a b \<longleftrightarrow> el_equalsHandle a b"
  by (auto simp: equivalent_def el_lt_def el_equalsHandle_def
      dest: signed.not_less_iff_gr_or_eq [THEN iffD1])

section \<open>Range locks\<close>

record RangeLockDetails =
  rl_clientNumID :: u32
  rl_ownerPID :: u32
  rl_lockAckID :: string
  rl_lockTypeFlags :: u32
  rl_start :: u64
  rl_end :: u64

datatype RangeOverlapType =
    RangeOverlapType_NONE
  | RangeOverlapType_EQUALS
  | RangeOverlapType_CONTAINS
  | RangeOverlapType_ISCONTAINED
  | RangeOverlapType_STARTOVERLAP
  | RangeOverlapType_ENDOVERLAP

definition rl_allowsWaiting :: "RangeLockDetails \<Rightarrow> bool" where
  "rl_allowsWaiting l \<longleftrightarrow> flags_allowWaiting (rl_lockTypeFlags l)"

definition rl_isUnlock :: "RangeLockDetails \<Rightarrow> bool" where
  "rl_isUnlock l \<longleftrightarrow> rl_lockTypeFlags l AND ENTRYLOCKTYPE_UNLOCK \<noteq> 0"

definition rl_setUnlock :: "RangeLockDetails \<Rightarrow> RangeLockDetails" where
  "rl_setUnlock l = l\<lparr>rl_lockTypeFlags := flags_setUnlock (rl_lockTypeFlags l)\<rparr>"

definition rl_isExclusive :: "RangeLockDetails \<Rightarrow> bool" where
  "rl_isExclusive l \<longleftrightarrow> rl_lockTypeFlags l AND ENTRYLOCKTYPE_EXCLUSIVE \<noteq> 0"

definition rl_isShared :: "RangeLockDetails \<Rightarrow> bool" where
  "rl_isShared l \<longleftrightarrow> rl_lockTypeFlags l AND ENTRYLOCKTYPE_SHARED \<noteq> 0"

definition rl_isCancel :: "RangeLockDetails \<Rightarrow> bool" where
  "rl_isCancel l \<longleftrightarrow> rl_lockTypeFlags l AND ENTRYLOCKTYPE_CANCEL \<noteq> 0"

definition rl_equalsHandle :: "RangeLockDetails \<Rightarrow> RangeLockDetails \<Rightarrow> bool" where
  "rl_equalsHandle l other \<longleftrightarrow>
     rl_ownerPID l = rl_ownerPID other \<and> rl_clientNumID l = rl_clientNumID other"

definition rl_isMergeable :: "RangeLockDetails \<Rightarrow> RangeLockDetails \<Rightarrow> bool" where
  "rl_isMergeable l other \<longleftrightarrow>
     (if rl_end other + 1 < rl_start l \<or> rl_start other > rl_end l + 1 then False else True)"

definition rl_overlaps :: "RangeLockDetails \<Rightarrow> RangeLockDetails \<Rightarrow> bool" where
  "rl_overlaps l other \<longleftrightarrow>
     (if rl_end other < rl_start l \<or> rl_start other > rl_end l then False else True)"

definition rl_overlapsEx :: "RangeLockDetails \<Rightarrow> RangeLockDetails \<Rightarrow> RangeOverlapType" where
  "rl_overlapsEx l other =
     (if rl_end other < rl_start l \<or> rl_start other > rl_end l then RangeOverlapType_NONE
      else if rl_start other = rl_start l \<and> rl_end other = rl_end l then RangeOverlapType_EQUALS
      else if rl_start l \<le> rl_start other \<and> rl_end l \<ge> rl_end other
        then RangeOverlapType_CONTAINS
      else if rl_start l \<ge> rl_start other \<and> rl_end l \<le> rl_end other
        then RangeOverlapType_ISCONTAINED
      else if rl_start l < rl_start other then RangeOverlapType_STARTOVERLAP
      else RangeOverlapType_ENDOVERLAP)"

definition rl_trim :: "RangeLockDetails \<Rightarrow> RangeLockDetails \<Rightarrow> RangeLockDetails" where
  "rl_trim l trimmer =
     (if rl_end trimmer < rl_end l then l\<lparr>rl_start := rl_end trimmer + 1\<rparr>
      else l\<lparr>rl_end := rl_start trimmer - 1\<rparr>)"

text \<open>\<^verbatim>\<open>split\<close> returns the remaining left side (the new value of the object) and the
  \<^verbatim>\<open>outEndRegion\<close>.\<close>

definition rl_split :: "RangeLockDetails \<Rightarrow> RangeLockDetails \<Rightarrow> RangeLockDetails \<times> RangeLockDetails"
where
  "rl_split l splitter =
     (l\<lparr>rl_end := rl_start splitter - 1\<rparr>, l\<lparr>rl_start := rl_end splitter + 1\<rparr>)"

definition rl_merge :: "RangeLockDetails \<Rightarrow> RangeLockDetails \<Rightarrow> RangeLockDetails" where
  "rl_merge l other =
     l\<lparr>rl_start := min (rl_start l) (rl_start other), rl_end := max (rl_end l) (rl_end other)\<rparr>"

definition rl_lt_shared :: "RangeLockDetails \<Rightarrow> RangeLockDetails \<Rightarrow> bool" where
  "rl_lt_shared a b \<longleftrightarrow>
     (if rl_ownerPID a <s rl_ownerPID b then True
      else if rl_ownerPID b <s rl_ownerPID a then False
      else if rl_clientNumID a < rl_clientNumID b then True
      else if rl_clientNumID a > rl_clientNumID b then False
      else if rl_start a < rl_start b then True
      else False)"

definition rl_lt_excl :: "RangeLockDetails \<Rightarrow> RangeLockDetails \<Rightarrow> bool" where
  "rl_lt_excl a b \<longleftrightarrow> rl_start a < rl_start b"

lemmas rl_flag_defs = rl_allowsWaiting_def rl_isUnlock_def rl_isExclusive_def rl_isShared_def
  rl_isCancel_def flags_allowWaiting_def locktype_defs

lemma rl_equalsHandle_sym: "rl_equalsHandle a b \<longleftrightarrow> rl_equalsHandle b a"
  by (auto simp: rl_equalsHandle_def)

lemma rl_equalsHandle_refl [simp]: "rl_equalsHandle a a"
  by (simp add: rl_equalsHandle_def)

lemma rl_equalsHandle_trans:
  "rl_equalsHandle a b \<Longrightarrow> rl_equalsHandle b c \<Longrightarrow> rl_equalsHandle a c"
  by (simp add: rl_equalsHandle_def)

interpretation shared_order: set_comparator rl_lt_shared
proof unfold_locales
  fix x z y assume "rl_lt_shared x z"
  then show "rl_lt_shared x y \<or> rl_lt_shared y z"
    by (auto simp: rl_lt_shared_def split: if_splits)
next
  fix x y z assume "rl_lt_shared x y" "rl_lt_shared y z"
  then show "rl_lt_shared x z"
    by (auto simp: rl_lt_shared_def split: if_splits)
qed (auto simp: rl_lt_shared_def)

interpretation excl_order: set_comparator rl_lt_excl
  by unfold_locales (auto simp: rl_lt_excl_def)

end
