(* ===== verification/Entry_Locks.thy ===== *)
theory Entry_Locks
  imports Locking_Details
begin

text \<open>
  Entry locks of the metadata server: flock locks and append locks of a file
  (\<^verbatim>\<open>meta/source/storage/FileInode.cpp\<close>, functions \<^verbatim>\<open>flockEntry*\<close> and
  \<^verbatim>\<open>flockAppend*\<close>). A file has one exclusive lock, an ordered set of shared locks, two
  waiter queues and the set of waiting request IDs. The operations run under the inode's
  write lock, so each is one atomic step of the state. The theory proves the invariant of
  the queues over every sequence of operations, that no wakeup is lost, that a granted
  exclusive lock is only lost through its owner, that retried requests change nothing, and
  that cancelling removes everything of a handle or a client.
\<close>

section \<open>State and operations\<close>

datatype LockEntryNotifyType = LockEntryNotifyType_APPEND | LockEntryNotifyType_FLOCK

record EntryLockQueues =
  exclLock :: EntryLockDetails
  sharedLocks :: "EntryLockDetails list"
  waitersExclLock :: "EntryLockDetails list"
  waitersSharedLock :: "EntryLockDetails list"
  waitersLockIDs :: "string set"
  lockType :: LockEntryNotifyType

definition flockEntryShared :: "EntryLockDetails \<Rightarrow> EntryLockQueues \<Rightarrow> EntryLockQueues" where
  "flockEntryShared d q = q\<lparr>sharedLocks := oset_insert el_lt d (sharedLocks q)\<rparr>"

definition flockEntryExclusive :: "EntryLockDetails \<Rightarrow> EntryLockQueues \<Rightarrow> EntryLockQueues" where
  "flockEntryExclusive d q = q\<lparr>exclLock := d\<rparr>"

definition flockEntryUnlock :: "EntryLockDetails \<Rightarrow> EntryLockQueues \<Rightarrow> bool \<times> EntryLockQueues"
where
  "flockEntryUnlock d q =
     (if el_equalsHandle (exclLock q) d then (True, q\<lparr>exclLock := EntryLockDetails_unset\<rparr>)
      else if oset_mem el_lt d (sharedLocks q)
        then (True, q\<lparr>sharedLocks := oset_erase el_lt d (sharedLocks q)\<rparr>)
      else (False, q))"

definition flockEntryIsGranted :: "EntryLockDetails \<Rightarrow> EntryLockQueues \<Rightarrow> bool" where
  "flockEntryIsGranted d q =
     (if el_isExclusive d then el_equalsHandle (exclLock q) d
      else if el_isShared d then oset_mem el_lt d (sharedLocks q)
      else False)"

text \<open>Returns the first conflicting lock (\<^verbatim>\<open>outConflictor\<close>), if there is one.\<close>

definition flockEntryCheckConflicts ::
    "EntryLockDetails \<Rightarrow> EntryLockQueues \<Rightarrow> EntryLockDetails option" where
  "flockEntryCheckConflicts d q =
     (if el_isSet (exclLock q) \<and> \<not> el_equalsHandle (exclLock q) d then Some (exclLock q)
      else if el_isExclusive d then find (\<lambda>l. \<not> el_equalsHandle l d) (sharedLocks q)
      else case waitersExclLock q of [] \<Rightarrow> None | w # _ \<Rightarrow> Some w)"

fun grantSharedWaiters ::
    "EntryLockDetails list \<Rightarrow> EntryLockQueues \<Rightarrow> EntryLockDetails list
       \<Rightarrow> EntryLockDetails list \<times> EntryLockQueues" where
  "grantSharedWaiters [] q notifyList = (notifyList, q\<lparr>waitersSharedLock := []\<rparr>)"
| "grantSharedWaiters (w # ws) q notifyList =
     (let q1 = flockEntryShared w q in
      let q2 = q1\<lparr>waitersLockIDs := waitersLockIDs q1 - {el_lockAckID w}\<rparr> in
      grantSharedWaiters ws (q2\<lparr>waitersSharedLock := ws\<rparr>) (notifyList @ [w]))"

definition flockEntryTryNextWaiters ::
    "EntryLockQueues \<Rightarrow> EntryLockDetails list \<times> EntryLockQueues" where
  "flockEntryTryNextWaiters q =
     (if el_isSet (exclLock q) then ([], q)
      else if waitersSharedLock q \<noteq> [] \<and> waitersExclLock q = []
        then grantSharedWaiters (waitersSharedLock q) q []
      else case waitersExclLock q of
          [] \<Rightarrow> ([], q)
        | w # ws \<Rightarrow>
            (let q1 = flockEntryExclusive w q in
             ([w], q1\<lparr>waitersLockIDs := waitersLockIDs q1 - {el_lockAckID w},
                      waitersExclLock := ws\<rparr>)))"

text \<open>
  The two cancel operations differ only in what they match (a handle, a client); the loops
  over the shared locks and the two waiter queues are the same.
\<close>

definition cancelMatching ::
    "(EntryLockDetails \<Rightarrow> bool) \<Rightarrow> EntryLockQueues \<Rightarrow> bool \<times> EntryLockQueues" where
  "cancelMatching P q =
     (let found0 = (el_isSet (exclLock q) \<and> P (exclLock q));
          excl' = (if found0 then EntryLockDetails_unset else exclLock q);
          (shared', found1) = erase_matching P (sharedLocks q);
          (wExcl', ids1, found2) = erase_waiters el_lockAckID P (waitersExclLock q) (waitersLockIDs q);
          (wShared', ids2, found3) = erase_waiters el_lockAckID P (waitersSharedLock q) ids1
      in (found0 \<or> found1 \<or> found2 \<or> found3,
          q\<lparr>exclLock := excl', sharedLocks := shared', waitersExclLock := wExcl',
            waitersSharedLock := wShared', waitersLockIDs := ids2\<rparr>))"

definition flockEntryCancelByHandle ::
    "EntryLockDetails \<Rightarrow> EntryLockQueues \<Rightarrow> bool \<times> EntryLockQueues" where
  "flockEntryCancelByHandle d q = cancelMatching (el_equalsHandle d) q"

definition flockEntryGenericCancelByClientID ::
    "u32 \<Rightarrow> EntryLockQueues \<Rightarrow> EntryLockDetails list \<times> EntryLockQueues" where
  "flockEntryGenericCancelByClientID clientNumID q =
     (let (tryNextWaiters, q') = cancelMatching (\<lambda>l. el_clientNumID l = clientNumID) q
      in if tryNextWaiters then flockEntryTryNextWaiters q' else ([], q'))"

definition flockEntryGenericCancelAllWaiters :: "EntryLockQueues \<Rightarrow> EntryLockQueues" where
  "flockEntryGenericCancelAllWaiters q =
     q\<lparr>waitersLockIDs := {}, waitersExclLock := [], waitersSharedLock := []\<rparr>"

text \<open>
  The general entry point: cancel, unlock or lock request. It returns whether the request was
  granted at once, the locks of waiters that were granted by it, and the new state. A lock
  request that is neither waiting nor granted already is handled by
  \<^verbatim>\<open>flockEntryNewRequest\<close>; it returns \<^verbatim>\<open>tryNextWaiters\<close> and
  \<^verbatim>\<open>immediatelyGranted\<close>, which the end of the function evaluates
  (\<^verbatim>\<open>flockEntryFinish\<close>).
\<close>

definition flockEntryNewRequest ::
    "EntryLockDetails \<Rightarrow> EntryLockQueues \<Rightarrow> bool \<times> bool \<times> EntryLockQueues" where
  "flockEntryNewRequest d q =
     (let hasConflicts = (flockEntryCheckConflicts d q \<noteq> None);
          (tryNextWaiters, q1) =
            (if \<not> hasConflicts \<or> el_allowsWaiting d then flockEntryUnlock d q else (False, q))
      in
      if el_isShared d then
        (if \<not> hasConflicts then (tryNextWaiters, True, flockEntryShared d q1)
         else if el_allowsWaiting d then
           (tryNextWaiters, False,
            q1\<lparr>waitersSharedLock := waitersSharedLock q1 @ [d],
               waitersLockIDs := insert (el_lockAckID d) (waitersLockIDs q1)\<rparr>)
         else (tryNextWaiters, False, q1))
      else
        (if \<not> hasConflicts then (tryNextWaiters, True, flockEntryExclusive d q1)
         else if el_allowsWaiting d then
           (tryNextWaiters, False,
            q1\<lparr>waitersExclLock := waitersExclLock q1 @ [d],
               waitersLockIDs := insert (el_lockAckID d) (waitersLockIDs q1)\<rparr>)
         else (tryNextWaiters, False, q1)))"

definition flockEntryFinish ::
    "bool \<Rightarrow> bool \<Rightarrow> EntryLockQueues \<Rightarrow> bool \<times> EntryLockDetails list \<times> EntryLockQueues" where
  "flockEntryFinish tryNextWaiters immediatelyGranted q =
     (if tryNextWaiters
      then (let (ns, q') = flockEntryTryNextWaiters q in (immediatelyGranted, ns, q'))
      else (immediatelyGranted, [], q))"

definition flockEntryUnlocked ::
    "EntryLockDetails \<Rightarrow> EntryLockQueues \<Rightarrow> bool \<times> EntryLockDetails list \<times> EntryLockQueues" where
  "flockEntryUnlocked d q =
     (if el_isCancel d then
        (let (tryNextWaiters, q') = flockEntryCancelByHandle d q
         in flockEntryFinish tryNextWaiters True q')
      else if el_isUnlock d then
        (let (tryNextWaiters, q') = flockEntryUnlock d q
         in flockEntryFinish tryNextWaiters True q')
      else if el_lockAckID d \<in> waitersLockIDs q then (False, [], q)
      else if flockEntryIsGranted d q then (True, [], q)
      else
        (let (tryNextWaiters, immediatelyGranted, q') = flockEntryNewRequest d q
         in flockEntryFinish tryNextWaiters immediatelyGranted q'))"

text \<open>
  The flock entry points of the inode: they take the write lock and call the generic
  operations on the container of the inode's flock queues.
\<close>

definition flockEntry ::
    "EntryLockDetails \<Rightarrow> EntryLockQueues \<Rightarrow> bool \<times> EntryLockDetails list \<times> EntryLockQueues" where
  "flockEntry d q = flockEntryUnlocked d q"

definition flockEntryCancelByClientID ::
    "u32 \<Rightarrow> EntryLockQueues \<Rightarrow> EntryLockDetails list \<times> EntryLockQueues" where
  "flockEntryCancelByClientID clientNumID q = flockEntryGenericCancelByClientID clientNumID q"

definition flockEntryCancelAllWaiters :: "EntryLockQueues \<Rightarrow> EntryLockQueues" where
  "flockEntryCancelAllWaiters q = flockEntryGenericCancelAllWaiters q"

declare flockEntry_def [simp] flockEntryCancelByClientID_def [simp]
  flockEntryCancelAllWaiters_def [simp]

text \<open>
  A file's append lock state has no shared queues: every append call builds a container with
  empty ones, which are dropped after it.
\<close>

record AppendLockState =
  exclAppendLock :: EntryLockDetails
  waitersExclAppendLock :: "EntryLockDetails list"
  waitersLockIDsAppendLock :: "string set"

definition AppendLockQueuesContainer :: "AppendLockState \<Rightarrow> EntryLockQueues" where
  "AppendLockQueuesContainer a =
     \<lparr>exclLock = exclAppendLock a, sharedLocks = [], waitersExclLock = waitersExclAppendLock a,
      waitersSharedLock = [], waitersLockIDs = waitersLockIDsAppendLock a,
      lockType = LockEntryNotifyType_APPEND\<rparr>"

definition append_state :: "EntryLockQueues \<Rightarrow> AppendLockState" where
  "append_state q =
     \<lparr>exclAppendLock = exclLock q, waitersExclAppendLock = waitersExclLock q,
      waitersLockIDsAppendLock = waitersLockIDs q\<rparr>"

definition flockAppend ::
    "EntryLockDetails \<Rightarrow> AppendLockState \<Rightarrow> bool \<times> EntryLockDetails list \<times> AppendLockState" where
  "flockAppend d a =
     (let (granted, ns, q') = flockEntryUnlocked d (AppendLockQueuesContainer a)
      in (granted, ns, append_state q'))"

definition flockAppendCancelByClientID ::
    "u32 \<Rightarrow> AppendLockState \<Rightarrow> EntryLockDetails list \<times> AppendLockState" where
  "flockAppendCancelByClientID c a =
     (let (ns, q') = flockEntryGenericCancelByClientID c (AppendLockQueuesContainer a)
      in (ns, append_state q'))"

definition flockAppendCancelAllWaiters :: "AppendLockState \<Rightarrow> AppendLockState" where
  "flockAppendCancelAllWaiters a =
     append_state (flockEntryGenericCancelAllWaiters (AppendLockQueuesContainer a))"


section \<open>Invariants\<close>

text \<open>
  The shared locks form a set ordered by handle, every lock and waiter belongs to a client, and
  the set of waiting request IDs is exact: it holds the IDs of the queued waiters, each once.
\<close>

definition waiters :: "EntryLockQueues \<Rightarrow> EntryLockDetails list" where
  "waiters q = waitersExclLock q @ waitersSharedLock q"

definition entry_wf :: "EntryLockQueues \<Rightarrow> bool" where
  "entry_wf q \<longleftrightarrow>
     sorted_wrt el_lt (sharedLocks q) \<and>
     list_all el_isSet (sharedLocks q @ waiters q) \<and>
     distinct (map el_lockAckID (waiters q)) \<and>
     waitersLockIDs q = el_lockAckID ` set (waiters q)"

text \<open>
  No lost wakeup: a waiting writer waits for a held lock, a waiting reader for a held exclusive
  lock or for a waiting writer.
\<close>

definition entry_live :: "EntryLockQueues \<Rightarrow> bool" where
  "entry_live q \<longleftrightarrow>
     (waitersExclLock q \<noteq> [] \<longrightarrow> el_isSet (exclLock q) \<or> sharedLocks q \<noteq> []) \<and>
     (waitersSharedLock q \<noteq> [] \<longrightarrow> el_isSet (exclLock q) \<or> waitersExclLock q \<noteq> [])"

lemmas entry_op_defs = flockEntryShared_def flockEntryExclusive_def flockEntryUnlock_def
  flockEntryGenericCancelAllWaiters_def

lemma oset_mem_el_lt: "oset_mem el_lt d xs \<longleftrightarrow> (\<exists>l \<in> set xs. el_equalsHandle d l)"
  by (simp add: oset_mem_def list_ex_iff)

lemma set_oset_erase_el: "set (oset_erase el_lt d xs) = {l \<in> set xs. \<not> el_equalsHandle d l}"
  by (auto simp: oset_erase_def)

lemma entry_wf_shared:
  "entry_wf q \<Longrightarrow> el_isSet d \<Longrightarrow> entry_wf (flockEntryShared d q)"
  using entry_order.set_oset_insert_subset [of d "sharedLocks q"]
  by (auto simp: entry_wf_def waiters_def flockEntryShared_def list_all_iff
      entry_order.sorted_oset_insert)

lemma entry_wf_exclusive: "entry_wf q \<Longrightarrow> entry_wf (flockEntryExclusive d q)"
  by (simp add: entry_wf_def waiters_def flockEntryExclusive_def)

lemma entry_wf_unlock: "entry_wf q \<Longrightarrow> entry_wf (snd (flockEntryUnlock d q))"
  by (auto simp: entry_wf_def waiters_def flockEntryUnlock_def list_all_iff set_oset_erase_el
      entry_order.sorted_oset_erase)

text \<open>Granting the shared waiters moves all of them into the set and drops their IDs.\<close>

lemma grantSharedWaiters_eq:
  "grantSharedWaiters ws q ns =
     (ns @ ws,
      q\<lparr>sharedLocks := fold (oset_insert el_lt) ws (sharedLocks q),
        waitersLockIDs := waitersLockIDs q - el_lockAckID ` set ws,
        waitersSharedLock := []\<rparr>)"
  by (induction ws arbitrary: q ns) (auto simp: flockEntryShared_def Let_def Diff_insert2 [symmetric])

lemma fold_oset_insert:
  "sorted_wrt el_lt xs \<Longrightarrow>
     sorted_wrt el_lt (fold (oset_insert el_lt) ws xs) \<and>
     set (fold (oset_insert el_lt) ws xs) \<subseteq> set ws \<union> set xs"
proof (induction ws arbitrary: xs)
  case (Cons w ws)
  then show ?case
    using entry_order.set_oset_insert_subset [of w xs] entry_order.sorted_oset_insert [of xs w]
    by fastforce
qed simp

lemma flockEntryTryNextWaiters_cases:
  obtains
    (held) "el_isSet (exclLock q)" "flockEntryTryNextWaiters q = ([], q)"
  | (readers) "\<not> el_isSet (exclLock q)" "waitersSharedLock q \<noteq> []" "waitersExclLock q = []"
      "flockEntryTryNextWaiters q =
         (waitersSharedLock q,
          q\<lparr>sharedLocks := fold (oset_insert el_lt) (waitersSharedLock q) (sharedLocks q),
            waitersLockIDs := waitersLockIDs q - el_lockAckID ` set (waitersSharedLock q),
            waitersSharedLock := []\<rparr>)"
  | (writer) w ws where "\<not> el_isSet (exclLock q)" "waitersExclLock q = w # ws"
      "flockEntryTryNextWaiters q =
         ([w], q\<lparr>exclLock := w, waitersLockIDs := waitersLockIDs q - {el_lockAckID w},
                 waitersExclLock := ws\<rparr>)"
  | (idle) "\<not> el_isSet (exclLock q)" "waitersExclLock q = []" "waitersSharedLock q = []"
      "flockEntryTryNextWaiters q = ([], q)"
  by (cases "waitersExclLock q")
     (auto simp: flockEntryTryNextWaiters_def grantSharedWaiters_eq flockEntryExclusive_def Let_def)

lemma entry_wf_tryNext:
  assumes "entry_wf q"
  shows "entry_wf (snd (flockEntryTryNextWaiters q))"
proof (cases q rule: flockEntryTryNextWaiters_cases)
  case readers
  then show ?thesis
    using assms fold_oset_insert [of "sharedLocks q" "waitersSharedLock q"]
    by (auto simp: entry_wf_def waiters_def list_all_iff)
next
  case (writer w ws)
  then show ?thesis
    using assms by (fastforce simp: entry_wf_def waiters_def image_iff)
qed (use assms in auto)

text \<open>After the waiters were tried, none is left or an exclusive lock is held.\<close>

lemma tryNext_settles:
  assumes "entry_wf q" and "snd (flockEntryTryNextWaiters q) = q'"
  shows "el_isSet (exclLock q') \<or> (waitersExclLock q' = [] \<and> waitersSharedLock q' = [])"
  using assms
  by (cases q rule: flockEntryTryNextWaiters_cases) (auto simp: entry_wf_def waiters_def)

lemma cancelMatching_eq:
  "cancelMatching P q =
     ((el_isSet (exclLock q) \<and> P (exclLock q)) \<or> list_ex P (sharedLocks q) \<or> list_ex P (waiters q),
      q\<lparr>exclLock := (if el_isSet (exclLock q) \<and> P (exclLock q) then EntryLockDetails_unset
                     else exclLock q),
        sharedLocks := filter (\<lambda>l. \<not> P l) (sharedLocks q),
        waitersExclLock := filter (\<lambda>l. \<not> P l) (waitersExclLock q),
        waitersSharedLock := filter (\<lambda>l. \<not> P l) (waitersSharedLock q),
        waitersLockIDs := waitersLockIDs q - el_lockAckID ` set (filter P (waitersExclLock q))
                            - el_lockAckID ` set (filter P (waitersSharedLock q))\<rparr>)"
  by (auto simp: cancelMatching_def waiters_def Let_def)

lemma entry_wf_cancelMatching:
  assumes "entry_wf q"
  shows "entry_wf (snd (cancelMatching P q))"
proof -
  have "waitersLockIDs q - el_lockAckID ` set (filter P (waitersExclLock q))
          - el_lockAckID ` set (filter P (waitersSharedLock q)) =
        el_lockAckID ` set (filter (\<lambda>l. \<not> P l) (waitersExclLock q)
                              @ filter (\<lambda>l. \<not> P l) (waitersSharedLock q))"
    using assms by (intro ids_after_erase) (auto simp: entry_wf_def waiters_def)
  moreover have "distinct (map el_lockAckID (filter (\<lambda>l. \<not> P l) (waitersExclLock q)
                   @ filter (\<lambda>l. \<not> P l) (waitersSharedLock q)))"
    using assms by (intro distinct_map_filter2) (simp add: entry_wf_def waiters_def)
  ultimately show ?thesis
    using assms
    by (simp add: cancelMatching_eq entry_wf_def waiters_def list_all_iff sorted_wrt_filter)
      auto
qed

text \<open>What a new request does: granted, enqueued or refused.\<close>

lemma newRequest_free:
  "flockEntryCheckConflicts d q = None \<Longrightarrow>
     flockEntryNewRequest d q =
       (fst (flockEntryUnlock d q), True,
        (if el_isShared d then flockEntryShared d else flockEntryExclusive d)
          (snd (flockEntryUnlock d q)))"
  by (simp add: flockEntryNewRequest_def split_beta Let_def)

lemma newRequest_wait:
  "flockEntryCheckConflicts d q = Some c \<Longrightarrow> el_allowsWaiting d \<Longrightarrow>
     flockEntryNewRequest d q =
       (fst (flockEntryUnlock d q), False,
        (let q1 = snd (flockEntryUnlock d q);
             q2 = q1\<lparr>waitersLockIDs := insert (el_lockAckID d) (waitersLockIDs q1)\<rparr>
         in if el_isShared d then q2\<lparr>waitersSharedLock := waitersSharedLock q1 @ [d]\<rparr>
            else q2\<lparr>waitersExclLock := waitersExclLock q1 @ [d]\<rparr>))"
  by (simp add: flockEntryNewRequest_def split_beta Let_def)

lemma newRequest_refused:
  "flockEntryCheckConflicts d q = Some c \<Longrightarrow> \<not> el_allowsWaiting d \<Longrightarrow>
     flockEntryNewRequest d q = (False, False, q)"
  by (simp add: flockEntryNewRequest_def Let_def)

lemma newRequest_cases:
  obtains (free) "flockEntryCheckConflicts d q = None"
  | (wait) c where "flockEntryCheckConflicts d q = Some c" "el_allowsWaiting d"
  | (refused) c where "flockEntryCheckConflicts d q = Some c" "\<not> el_allowsWaiting d"
  by (cases "flockEntryCheckConflicts d q") blast+

lemma entry_wf_enqueue:
  assumes "entry_wf q" and "el_isSet d" and "el_lockAckID d \<notin> waitersLockIDs q"
  shows "entry_wf (q\<lparr>waitersLockIDs := insert (el_lockAckID d) (waitersLockIDs q),
                    waitersSharedLock := waitersSharedLock q @ [d]\<rparr>)"
    and "entry_wf (q\<lparr>waitersLockIDs := insert (el_lockAckID d) (waitersLockIDs q),
                    waitersExclLock := waitersExclLock q @ [d]\<rparr>)"
  using assms by (auto simp: entry_wf_def waiters_def image_Un)

lemma unlock_waiters:
  assumes "flockEntryUnlock d q = (t, q1)"
  shows "waitersLockIDs q1 = waitersLockIDs q" "waitersExclLock q1 = waitersExclLock q"
    "waitersSharedLock q1 = waitersSharedLock q"
  using assms by (auto simp: flockEntryUnlock_def split: if_splits)

lemma entry_wf_newRequest:
  assumes wf: "entry_wf q" and set: "el_isSet d" and new: "el_lockAckID d \<notin> waitersLockIDs q"
    and res: "flockEntryNewRequest d q = (t, g, q')"
  shows "entry_wf q'"
proof -
  obtain tu q1 where u: "flockEntryUnlock d q = (tu, q1)" by force
  have wf1: "entry_wf q1" using entry_wf_unlock [OF wf, of d] u by simp
  have new1: "el_lockAckID d \<notin> waitersLockIDs q1" using new unlock_waiters [OF u] by simp
  show ?thesis
  proof (cases d q rule: newRequest_cases)
    case free
    then show ?thesis
      using res u entry_wf_shared [OF wf1 set] entry_wf_exclusive [OF wf1]
      by (auto simp: newRequest_free split: if_splits)
  next
    case wait
    then show ?thesis
      using res u entry_wf_enqueue [OF wf1 set new1]
      by (simp add: newRequest_wait Let_def split: if_splits)
  next
    case refused
    with res wf show ?thesis by (simp add: newRequest_refused)
  qed
qed

lemma entry_wf_finish:
  "entry_wf q \<Longrightarrow> flockEntryFinish t g q = (r, ns, q') \<Longrightarrow> entry_wf q'"
  using entry_wf_tryNext [of q] by (auto simp: flockEntryFinish_def split: if_splits prod.splits)

text \<open>The branches of the entry point.\<close>

lemma flockEntryUnlocked_cases:
  assumes "flockEntryUnlocked d q = (g, ns, q')"
  obtains (cancel) t q1 where "el_isCancel d" "flockEntryCancelByHandle d q = (t, q1)"
        "flockEntryFinish t True q1 = (g, ns, q')"
    | (unlock) t q1 where "\<not> el_isCancel d" "el_isUnlock d" "flockEntryUnlock d q = (t, q1)"
        "flockEntryFinish t True q1 = (g, ns, q')"
    | (waiting) "\<not> el_isCancel d" "\<not> el_isUnlock d" "el_lockAckID d \<in> waitersLockIDs q"
        "\<not> g" "ns = []" "q' = q"
    | (granted) "\<not> el_isCancel d" "\<not> el_isUnlock d" "el_lockAckID d \<notin> waitersLockIDs q"
        "flockEntryIsGranted d q" "g" "ns = []" "q' = q"
    | (lock) t g1 q1 where "\<not> el_isCancel d" "\<not> el_isUnlock d"
        "el_lockAckID d \<notin> waitersLockIDs q" "\<not> flockEntryIsGranted d q"
        "flockEntryNewRequest d q = (t, g1, q1)" "flockEntryFinish t g1 q1 = (g, ns, q')"
proof -
  obtain tc qc where c: "flockEntryCancelByHandle d q = (tc, qc)" by force
  obtain tu qu where u: "flockEntryUnlock d q = (tu, qu)" by force
  obtain tn gn qn where n: "flockEntryNewRequest d q = (tn, gn, qn)" using prod_cases3 by blast
  show thesis
  proof (cases "el_isCancel d")
    case True
    with assms c show thesis by (intro cancel) (simp_all add: flockEntryUnlocked_def)
  next
    case nc: False
    show thesis
    proof (cases "el_isUnlock d")
      case True
      with nc assms u show thesis by (intro unlock) (simp_all add: flockEntryUnlocked_def)
    next
      case False
      with nc assms n waiting granted lock show thesis
        by (auto simp: flockEntryUnlocked_def split: if_splits)
    qed
  qed
qed

lemma entry_wf_flockEntryUnlocked:
  assumes "entry_wf q" and "el_isSet d" and "flockEntryUnlocked d q = (g, ns, q')"
  shows "entry_wf q'"
  using assms(3)
proof (cases rule: flockEntryUnlocked_cases)
  case cancel
  then show ?thesis
    using entry_wf_cancelMatching [OF assms(1), of "el_equalsHandle d"] entry_wf_finish
    by (fastforce simp: flockEntryCancelByHandle_def)
next
  case unlock
  then show ?thesis using entry_wf_unlock [OF assms(1), of d] entry_wf_finish by fastforce
next
  case lock
  then show ?thesis using entry_wf_newRequest [OF assms(1,2)] entry_wf_finish by blast
qed (use assms in simp_all)

lemma entry_live_finish:
  assumes "entry_wf q" and "\<not> t \<Longrightarrow> entry_live q" and "flockEntryFinish t g q = (r, ns, q')"
  shows "entry_live q'"
  using assms tryNext_settles [of q q']
  by (auto simp: flockEntryFinish_def entry_live_def split: if_splits prod.splits)

lemma cancelMatching_nothing:
  assumes "cancelMatching P q = (False, q')"
  shows "q' = q"
proof -
  have "\<not> list_ex P (sharedLocks q)" "\<not> list_ex P (waitersExclLock q)"
    "\<not> list_ex P (waitersSharedLock q)" "\<not> (el_isSet (exclLock q) \<and> P (exclLock q))"
    using assms by (simp_all add: cancelMatching_eq waiters_def)
  then have "filter P (waitersExclLock q) = []" "filter P (waitersSharedLock q) = []"
    "filter (\<lambda>l. \<not> P l) (sharedLocks q) = sharedLocks q"
    "filter (\<lambda>l. \<not> P l) (waitersExclLock q) = waitersExclLock q"
    "filter (\<lambda>l. \<not> P l) (waitersSharedLock q) = waitersSharedLock q"
    by (auto simp: list_ex_iff filter_empty_conv filter_id_conv)
  with assms show ?thesis by (auto simp: cancelMatching_eq)
qed

lemma unlock_nothing: "flockEntryUnlock d q = (False, q') \<Longrightarrow> q' = q"
  by (auto simp: flockEntryUnlock_def split: if_splits)

lemma unlock_nothing_handles:
  "flockEntryUnlock d q = (False, q') \<Longrightarrow>
     \<not> el_equalsHandle (exclLock q) d \<and> (\<forall>l \<in> set (sharedLocks q). \<not> el_equalsHandle d l)"
  by (auto simp: flockEntryUnlock_def oset_mem_el_lt split: if_splits)

text \<open>A well-formed request names a client and asks for exactly one kind of operation.\<close>

definition el_valid :: "EntryLockDetails \<Rightarrow> bool" where
  "el_valid d \<longleftrightarrow>
     el_isSet d \<and> (el_isCancel d \<or> el_isUnlock d \<or> el_isShared d \<noteq> el_isExclusive d)"

lemma flockEntryCheckConflicts_None:
  "flockEntryCheckConflicts d q = None \<longleftrightarrow>
     (el_isSet (exclLock q) \<longrightarrow> el_equalsHandle (exclLock q) d) \<and>
     (if el_isExclusive d then \<forall>l \<in> set (sharedLocks q). el_equalsHandle l d
      else waitersExclLock q = [])"
  by (auto simp: flockEntryCheckConflicts_def find_None_iff split: list.splits)

lemma oset_insert_not_Nil [simp]: "oset_insert lt x xs \<noteq> []"
  by (cases xs) auto

lemma entry_live_newRequest:
  assumes live: "entry_live q" and set: "el_isSet d"
    and one: "el_isShared d \<noteq> el_isExclusive d"
    and res: "flockEntryNewRequest d q = (False, g, q')"
  shows "entry_live q'"
proof -
  obtain tu q1 where u: "flockEntryUnlock d q = (tu, q1)" by force
  have same: "q1 = q" if "\<not> tu"
    using unlock_nothing [of d q q1] u that by simp
  show ?thesis
  proof (cases d q rule: newRequest_cases)
    case free
    with res u same have q': "q' = (if el_isShared d then flockEntryShared d else flockEntryExclusive d) q"
      by (simp add: newRequest_free)
    show ?thesis
      using free live set one
      by (auto simp: q' entry_live_def flockEntryShared_def flockEntryExclusive_def
          flockEntryCheckConflicts_None)
  next
    case (wait c)
    then have "el_isSet (exclLock q) \<or>
        (if el_isExclusive d then sharedLocks q \<noteq> [] else waitersExclLock q \<noteq> [])"
      by (auto simp: flockEntryCheckConflicts_def split: if_splits list.splits)
    moreover have "exclLock q' = exclLock q" "sharedLocks q' = sharedLocks q"
      "waitersExclLock q' = waitersExclLock q @ (if el_isShared d then [] else [d])"
      "waitersSharedLock q' = waitersSharedLock q @ (if el_isShared d then [d] else [])"
      using wait res u same by (auto simp: newRequest_wait Let_def)
    ultimately show ?thesis
      using live one by (auto simp: entry_live_def)
  next
    case refused
    with res live show ?thesis by (simp add: newRequest_refused)
  qed
qed

lemma entry_live_flockEntryUnlocked:
  assumes live: "entry_live q" and wf: "entry_wf q" and d: "el_valid d"
    and res: "flockEntryUnlocked d q = (g, ns, q')"
  shows "entry_live q'"
  using res
proof (cases rule: flockEntryUnlocked_cases)
  case (cancel t q1)
  have "entry_wf q1" "\<not> t \<Longrightarrow> entry_live q1"
    using cancel(2) live entry_wf_cancelMatching [OF wf, of "el_equalsHandle d"]
      cancelMatching_nothing [of "el_equalsHandle d" q]
    by (auto simp: flockEntryCancelByHandle_def)
  then show ?thesis using cancel(3) by (rule entry_live_finish)
next
  case (unlock t q1)
  have "entry_wf q1" "\<not> t \<Longrightarrow> entry_live q1"
    using unlock(3) live entry_wf_unlock [OF wf, of d] unlock_nothing [of d q] by auto
  then show ?thesis using unlock(4) by (rule entry_live_finish)
next
  case (lock t g1 q1)
  have set: "el_isSet d" and one: "el_isShared d \<noteq> el_isExclusive d"
    using d lock(1,2) by (auto simp: el_valid_def)
  have "entry_wf q1" "\<not> t \<Longrightarrow> entry_live q1"
    using entry_wf_newRequest [OF wf set lock(3,5)] entry_live_newRequest [OF live set one]
      lock(5) by auto
  then show ?thesis using lock(6) by (rule entry_live_finish)
qed (use live in simp_all)

section \<open>Reachable states\<close>

datatype entry_op =
    Flock EntryLockDetails
  | CancelAllWaiters
  | CancelByClientID u32

definition entry_exec :: "entry_op \<Rightarrow> EntryLockQueues \<Rightarrow> EntryLockQueues" where
  "entry_exec op q =
     (case op of
        Flock d \<Rightarrow> snd (snd (flockEntry d q))
      | CancelAllWaiters \<Rightarrow> flockEntryCancelAllWaiters q
      | CancelByClientID c \<Rightarrow> snd (flockEntryCancelByClientID c q))"

fun entry_op_valid :: "entry_op \<Rightarrow> bool" where
  "entry_op_valid (Flock d) = el_valid d"
| "entry_op_valid CancelAllWaiters = True"
| "entry_op_valid (CancelByClientID c) = True"

definition entry_init :: "LockEntryNotifyType \<Rightarrow> EntryLockQueues" where
  "entry_init ty =
     \<lparr>exclLock = EntryLockDetails_unset, sharedLocks = [], waitersExclLock = [],
      waitersSharedLock = [], waitersLockIDs = {}, lockType = ty\<rparr>"

inductive entry_reachable :: "EntryLockQueues \<Rightarrow> bool" where
  init: "entry_reachable (entry_init ty)"
| step: "entry_reachable q \<Longrightarrow> entry_op_valid op \<Longrightarrow> entry_reachable (entry_exec op q)"

lemma entry_inv_cancelByClient:
  assumes "entry_wf q" and "entry_live q"
  shows "entry_wf (snd (flockEntryGenericCancelByClientID c q)) \<and>
         entry_live (snd (flockEntryGenericCancelByClientID c q))"
proof -
  let ?P = "\<lambda>l. el_clientNumID l = c"
  obtain t q1 where c: "cancelMatching ?P q = (t, q1)" by (cases "cancelMatching ?P q")
  have wf1: "entry_wf q1" using entry_wf_cancelMatching [OF assms(1), of ?P] c by simp
  show ?thesis
  proof (cases t)
    case True
    with c wf1 show ?thesis
      using tryNext_settles [OF wf1 refl] entry_wf_tryNext [OF wf1]
      by (auto simp: flockEntryGenericCancelByClientID_def entry_live_def)
  next
    case False
    with c show ?thesis
      using assms cancelMatching_nothing [of ?P q q1]
      by (simp add: flockEntryGenericCancelByClientID_def)
  qed
qed

lemma entry_inv_step:
  assumes "entry_wf q" and "entry_live q" and "entry_op_valid op"
  shows "entry_wf (entry_exec op q) \<and> entry_live (entry_exec op q)"
proof (cases op)
  case (Flock d)
  obtain g ns q' where r: "flockEntryUnlocked d q = (g, ns, q')"
    by (cases "flockEntryUnlocked d q")
  with Flock assms show ?thesis
    using entry_wf_flockEntryUnlocked [OF _ _ r] entry_live_flockEntryUnlocked [OF _ _ _ r]
    by (simp add: entry_exec_def el_valid_def)
next
  case CancelAllWaiters
  with assms show ?thesis
    by (simp add: entry_exec_def flockEntryGenericCancelAllWaiters_def entry_wf_def entry_live_def
        waiters_def)
next
  case (CancelByClientID c)
  with assms show ?thesis
    using entry_inv_cancelByClient [of q c] by (simp add: entry_exec_def)
qed


section \<open>Lemmas on single operations\<close>

text \<open>The locks a file holds.\<close>

definition entry_locks :: "EntryLockQueues \<Rightarrow> EntryLockDetails set" where
  "entry_locks q =
     (if el_isSet (exclLock q) then {exclLock q} else {}) \<union> set (sharedLocks q)"

lemma set_subset_fold_insert: "set xs \<subseteq> set (fold (oset_insert el_lt) ws xs)"
proof (induction ws arbitrary: xs)
  case (Cons w ws)
  then show ?case
    using entry_order.set_subset_oset_insert [of xs w] by fastforce
qed simp

lemma tryNext_members:
  assumes "entry_wf q" and "flockEntryTryNextWaiters q = (ns, q')"
  shows "entry_locks q' \<union> set (waiters q') \<subseteq> entry_locks q \<union> set (waiters q)"
    and "entry_locks q \<subseteq> entry_locks q'"
    and "set (sharedLocks q) \<subseteq> set (sharedLocks q')"
proof -
  show "entry_locks q' \<union> set (waiters q') \<subseteq> entry_locks q \<union> set (waiters q)"
    using assms fold_oset_insert [of "sharedLocks q" "waitersSharedLock q"]
    by (cases q rule: flockEntryTryNextWaiters_cases)
       (auto simp: entry_locks_def waiters_def entry_wf_def split: if_splits)
  show "entry_locks q \<subseteq> entry_locks q'"
    using assms set_subset_fold_insert [of "sharedLocks q" "waitersSharedLock q"]
    by (cases q rule: flockEntryTryNextWaiters_cases) (auto simp: entry_locks_def split: if_splits)
  show "set (sharedLocks q) \<subseteq> set (sharedLocks q')"
    using assms set_subset_fold_insert [of "sharedLocks q" "waitersSharedLock q"]
    by (cases q rule: flockEntryTryNextWaiters_cases) auto
qed

lemma cancelMatching_removes:
  assumes "cancelMatching P q = (t, q')"
  shows "entry_locks q' = {l \<in> entry_locks q. \<not> P l}"
    and "waiters q' = filter (\<lambda>l. \<not> P l) (waiters q)"
proof -
  have q': "q' = snd (cancelMatching P q)" using assms by simp
  show "entry_locks q' = {l \<in> entry_locks q. \<not> P l}"
    unfolding q' by (auto simp: cancelMatching_eq entry_locks_def)
  show "waiters q' = filter (\<lambda>l. \<not> P l) (waiters q)"
    unfolding q' by (simp add: cancelMatching_eq waiters_def)
qed

lemma cancel_then_tryNext:
  assumes "entry_wf q" and "cancelMatching P q = (t, q1)" and "flockEntryFinish t g q1 = (r, ns, q')"
  shows "\<forall>l \<in> entry_locks q' \<union> set (waiters q'). \<not> P l"
    and "{l \<in> entry_locks q. \<not> P l} \<subseteq> entry_locks q'"
proof -
  have wf1: "entry_wf q1" using entry_wf_cancelMatching [OF assms(1), of P] assms(2) by simp
  have sub: "entry_locks q' \<union> set (waiters q') \<subseteq> entry_locks q1 \<union> set (waiters q1)"
    "entry_locks q1 \<subseteq> entry_locks q'"
    using assms(3) tryNext_members [OF wf1]
    by (auto simp: flockEntryFinish_def split: if_splits prod.splits)
  show "\<forall>l \<in> entry_locks q' \<union> set (waiters q'). \<not> P l"
    using sub(1) cancelMatching_removes [OF assms(2)] by auto
  show "{l \<in> entry_locks q. \<not> P l} \<subseteq> entry_locks q'"
    using sub(2) cancelMatching_removes [OF assms(2)] by auto
qed

lemma finish_held:
  "el_isSet (exclLock q) \<Longrightarrow> flockEntryFinish t g q = (g, [], q)"
  by (simp add: flockEntryFinish_def flockEntryTryNextWaiters_def)

text \<open>The states a granted new request leads to, before the waiters are tried.\<close>

lemma granted_exclusive:
  assumes "flockEntryCheckConflicts d q = None" and "el_isExclusive d" and "\<not> el_isShared d"
    and "flockEntryNewRequest d q = (t, g, q1)"
  shows "exclLock q1 = d \<and> (\<not> el_equalsHandle (exclLock q) d \<longrightarrow> sharedLocks q1 = [])"
  using assms
  by (auto simp: newRequest_free flockEntryExclusive_def flockEntryUnlock_def oset_erase_def
      flockEntryCheckConflicts_None oset_mem_el_lt el_equalsHandle_sym filter_empty_conv
      split: if_splits)

lemma granted_shared:
  assumes "flockEntryCheckConflicts d q = None" and "\<not> el_isExclusive d" and "el_isShared d"
    and "el_isSet d" and "flockEntryNewRequest d q = (t, g, q1)"
  shows "\<not> el_isSet (exclLock q1) \<and> waitersExclLock q1 = [] \<and> oset_mem el_lt d (sharedLocks q1)"
  using assms entry_order.oset_mem_insert
  by (auto simp: newRequest_free flockEntryShared_def flockEntryUnlock_def
      flockEntryCheckConflicts_None split: if_splits)

lemma finish_readers:
  assumes "flockEntryFinish t g q = (r, ns, q')" and "\<not> el_isSet (exclLock q)"
    and "waitersExclLock q = []"
  shows "r = g" "exclLock q' = exclLock q" "set (sharedLocks q) \<subseteq> set (sharedLocks q')"
    "waitersExclLock q' = []"
    "waitersLockIDs q' \<subseteq> waitersLockIDs q"
proof -
  have "r = g \<and> exclLock q' = exclLock q \<and> set (sharedLocks q) \<subseteq> set (sharedLocks q') \<and>
      waitersExclLock q' = [] \<and> waitersLockIDs q' \<subseteq> waitersLockIDs q"
    using assms set_subset_fold_insert [of "sharedLocks q" "waitersSharedLock q"]
    by (cases q rule: flockEntryTryNextWaiters_cases)
       (auto simp: flockEntryFinish_def split: if_splits)
  then show "r = g" "exclLock q' = exclLock q" "set (sharedLocks q) \<subseteq> set (sharedLocks q')"
    "waitersExclLock q' = []" "waitersLockIDs q' \<subseteq> waitersLockIDs q"
    by auto
qed

section \<open>A sample run\<close>

text \<open>A concrete run: two readers hold a lock, a writer waits, the first reader unlocks.\<close>

definition sample_lock :: "u32 \<Rightarrow> u64 \<Rightarrow> string \<Rightarrow> u32 \<Rightarrow> EntryLockDetails" where
  "sample_lock c fd ack flags =
     \<lparr>el_clientNumID = c, el_clientFD = fd, el_ownerPID = 1, el_lockAckID = ack,
      el_lockTypeFlags = flags\<rparr>"

definition two_readers_one_writer :: "entry_op list" where
  "two_readers_one_writer =
     [Flock (sample_lock 1 10 ''a'' 4), Flock (sample_lock 2 20 ''b'' 4),
      Flock (sample_lock 3 30 ''c'' 2), Flock (sample_lock 1 10 ''d'' 1)]"

lemma entry_reachable_fold:
  "entry_reachable q \<Longrightarrow> list_all entry_op_valid ops \<Longrightarrow> entry_reachable (fold entry_exec ops q)"
  by (induction ops arbitrary: q) (auto intro: entry_reachable.step)

lemma two_readers_one_writer_result:
  "fold entry_exec two_readers_one_writer (entry_init LockEntryNotifyType_FLOCK) =
     \<lparr>exclLock = sample_lock 3 30 ''c'' 2, sharedLocks = [sample_lock 2 20 ''b'' 4],
      waitersExclLock = [], waitersSharedLock = [], waitersLockIDs = {},
      lockType = LockEntryNotifyType_FLOCK\<rparr>"
  by code_simp

lemma two_readers_one_writer_reachable:
  "entry_reachable (fold entry_exec two_readers_one_writer (entry_init LockEntryNotifyType_FLOCK))"
  by (intro entry_reachable_fold entry_reachable.init) code_simp

definition sample_queues :: EntryLockQueues where
  "sample_queues =
     \<lparr>exclLock = sample_lock 3 30 ''c'' 2, sharedLocks = [],
      waitersExclLock = [sample_lock 4 40 ''e'' 2], waitersSharedLock = [sample_lock 5 50 ''f'' 4],
      waitersLockIDs = {''e'', ''f''}, lockType = LockEntryNotifyType_FLOCK\<rparr>"

lemma sample_queues_wf: "entry_wf sample_queues"
  by (simp add: entry_wf_def waiters_def sample_queues_def sample_lock_def el_isSet_def)

section \<open>Properties\<close>

text \<open>
  C40. In every state that lock requests, unlocks, cancellations and client removals can
  reach, the shared locks form an ordered set of locks with distinct handles, the set of
  waiting IDs is exactly the IDs of the queued waiters, each queued once, and no wakeup is
  lost: a waiting writer waits for a held lock, a waiting reader for an exclusive lock or a
  waiting writer.
\<close>

theorem entry_reachable_invariant:
  assumes "entry_reachable q"
  shows "entry_wf q \<and> entry_live q"
  using assms
proof (induction rule: entry_reachable.induct)
  case (init ty)
  show ?case by (simp add: entry_init_def entry_wf_def entry_live_def waiters_def)
next
  case (step q op)
  then show ?case by (simp add: entry_inv_step)
qed

theorem entry_reachable_invariant_witness:
  "entry_wf (fold entry_exec two_readers_one_writer (entry_init LockEntryNotifyType_FLOCK)) \<and>
   entry_live (fold entry_exec two_readers_one_writer (entry_init LockEntryNotifyType_FLOCK))"
  by (rule entry_reachable_invariant [OF two_readers_one_writer_reachable])

text \<open>
  While an exclusive entry lock is held, a request of any other handle (lock, unlock or
  cancel) neither changes nor adds a holder: the exclusive lock stays, no waiter is granted,
  no shared lock appears, and the answer is positive only for an unlock, a cancel or a lock
  the handle already had.
\<close>

theorem entry_exclusive_kept:
  assumes held: "el_isSet (exclLock q)" and other: "\<not> el_equalsHandle (exclLock q) d"
    and res: "flockEntryUnlocked d q = (g, ns, q')"
  shows "exclLock q' = exclLock q \<and> ns = [] \<and> set (sharedLocks q') \<subseteq> set (sharedLocks q) \<and>
         (g \<longrightarrow> el_isCancel d \<or> el_isUnlock d \<or> flockEntryIsGranted d q)"
proof -
  have unl: "exclLock q1 = exclLock q \<and> set (sharedLocks q1) \<subseteq> set (sharedLocks q)"
    if "flockEntryUnlock d q = (t, q1)" for t q1
    using other that by (auto simp: flockEntryUnlock_def set_oset_erase_el split: if_splits)
  from res show ?thesis
  proof (cases rule: flockEntryUnlocked_cases)
    case (cancel t q1)
    then have "exclLock q1 = exclLock q \<and> set (sharedLocks q1) \<subseteq> set (sharedLocks q)"
      using other
      by (auto simp: flockEntryCancelByHandle_def cancelMatching_eq el_equalsHandle_sym)
    with cancel held show ?thesis by (simp add: finish_held)
  next
    case (unlock t q1)
    with unl [OF unlock(3)] held show ?thesis by (simp add: finish_held)
  next
    case (lock t g1 q1)
    have c: "flockEntryCheckConflicts d q = Some (exclLock q)"
      using held other by (simp add: flockEntryCheckConflicts_def)
    obtain tu qu where u: "flockEntryUnlock d q = (tu, qu)" by force
    have "\<not> g1 \<and> exclLock q1 = exclLock q \<and> set (sharedLocks q1) \<subseteq> set (sharedLocks q)"
      using lock(5) u unl [OF u] newRequest_wait [OF c] newRequest_refused [OF c]
      by (cases "el_allowsWaiting d") (auto simp: Let_def split: if_splits)
    with lock(6) held show ?thesis by (simp add: finish_held)
  qed simp_all
qed

theorem entry_exclusive_kept_witness:
  "exclLock (snd (snd (flockEntryUnlocked (sample_lock 6 60 ''g'' 4) sample_queues))) =
   sample_lock 3 30 ''c'' 2"
proof -
  obtain g ns q' where r: "flockEntryUnlocked (sample_lock 6 60 ''g'' 4) sample_queues = (g, ns, q')"
    using prod_cases3 by blast
  have "exclLock q' = exclLock sample_queues"
    using entry_exclusive_kept [OF _ _ r]
    by (simp add: sample_queues_def sample_lock_def el_isSet_def el_equalsHandle_def)
  with r show ?thesis by (simp add: sample_queues_def)
qed

text \<open>
  A new lock request that is granted at once excludes the other mode: an exclusive grant
  leaves it as the only lock of the file, a shared grant leaves no exclusive lock and puts the
  request's handle among the shared locks.
\<close>

theorem entry_grant_excludes:
  assumes set: "el_isSet d" and kind: "\<not> el_isCancel d" "\<not> el_isUnlock d"
      "el_isShared d \<noteq> el_isExclusive d"
    and new: "\<not> flockEntryIsGranted d q"
    and res: "flockEntryUnlocked d q = (True, ns, q')"
  shows "if el_isExclusive d then exclLock q' = d \<and> sharedLocks q' = []
         else \<not> el_isSet (exclLock q') \<and> oset_mem el_lt d (sharedLocks q')"
proof -
  from res kind new obtain t g1 q1 where lock: "flockEntryNewRequest d q = (t, g1, q1)"
      "flockEntryFinish t g1 q1 = (True, ns, q')"
    by (cases rule: flockEntryUnlocked_cases) auto
  then have g1: "g1" by (auto simp: flockEntryFinish_def split: if_splits prod.splits)
  have free: "flockEntryCheckConflicts d q = None"
    using lock(1) g1
    by (cases d q rule: newRequest_cases) (auto simp: newRequest_wait newRequest_refused)
  show ?thesis
  proof (cases "el_isExclusive d")
    case True
    with new have "\<not> el_equalsHandle (exclLock q) d" by (simp add: flockEntryIsGranted_def)
    with True kind granted_exclusive [OF free _ _ lock(1)]
    have "exclLock q1 = d" "sharedLocks q1 = []" by auto
    with lock(2) set True show ?thesis by (simp add: finish_held)
  next
    case False
    with kind granted_shared [OF free _ _ set lock(1)]
    have q1: "\<not> el_isSet (exclLock q1)" "waitersExclLock q1 = []" "oset_mem el_lt d (sharedLocks q1)"
      by auto
    with finish_readers [OF lock(2) q1(1,2)] False show ?thesis
      by (auto simp: oset_mem_el_lt)
  qed
qed

theorem entry_grant_excludes_witness:
  "oset_mem el_lt (sample_lock 1 10 ''a'' 4)
     (sharedLocks (entry_exec (Flock (sample_lock 1 10 ''a'' 4))
        (entry_init LockEntryNotifyType_FLOCK)))"
proof -
  let ?d = "sample_lock 1 10 ''a'' 4"
  let ?q = "entry_init LockEntryNotifyType_FLOCK"
  obtain g ns q' where r: "flockEntryUnlocked ?d ?q = (g, ns, q')"
    using prod_cases3 by blast
  have g: "fst (flockEntryUnlocked ?d ?q)" by code_simp
  have kind: "el_isSet ?d" "\<not> el_isCancel ?d" "\<not> el_isUnlock ?d"
    "el_isShared ?d \<noteq> el_isExclusive ?d" "\<not> flockEntryIsGranted ?d ?q" "\<not> el_isExclusive ?d"
    by code_simp+
  from r g have "flockEntryUnlocked ?d ?q = (True, ns, q')" by simp
  from entry_grant_excludes [OF kind(1-5) this] kind(6) r show ?thesis
    by (simp add: entry_exec_def)
qed

text \<open>
  A cancel request always succeeds and removes every lock and every waiter of its handle,
  while every lock of another handle stays.
\<close>

theorem entry_cancel_handle_complete:
  assumes "entry_wf q" and "el_isCancel d" and "flockEntryUnlocked d q = (g, ns, q')"
  shows "g \<and> (\<forall>l \<in> entry_locks q' \<union> set (waiters q'). \<not> el_equalsHandle d l) \<and>
         {l \<in> entry_locks q. \<not> el_equalsHandle d l} \<subseteq> entry_locks q'"
proof -
  obtain t q1 where c: "cancelMatching (el_equalsHandle d) q = (t, q1)" by force
  then have f: "flockEntryFinish t True q1 = (g, ns, q')"
    using assms(2,3) by (simp add: flockEntryUnlocked_def flockEntryCancelByHandle_def)
  moreover from f have g by (auto simp: flockEntryFinish_def split: if_splits prod.splits)
  ultimately show ?thesis using cancel_then_tryNext [OF assms(1) c f] by blast
qed

theorem entry_cancel_handle_complete_witness:
  "fst (flockEntryUnlocked (sample_lock 4 40 ''h'' 16) sample_queues) \<and>
   sample_lock 3 30 ''c'' 2 \<in>
     entry_locks (entry_exec (Flock (sample_lock 4 40 ''h'' 16)) sample_queues)"
proof -
  let ?d = "sample_lock 4 40 ''h'' 16"
  obtain g ns q' where r: "flockEntryUnlocked ?d sample_queues = (g, ns, q')"
    using prod_cases3 by blast
  have "el_isCancel ?d" by code_simp
  from entry_cancel_handle_complete [OF sample_queues_wf this r] r show ?thesis
    by (auto simp: entry_exec_def sample_queues_def sample_lock_def entry_locks_def el_isSet_def
        el_equalsHandle_def)
qed

text \<open>
  Removing a client removes every entry lock and every waiter of that client, while the
  locks of the other clients stay.
\<close>

theorem entry_cancel_client_complete:
  assumes "entry_wf q" and "flockEntryGenericCancelByClientID c q = (ns, q')"
  shows "(\<forall>l \<in> entry_locks q' \<union> set (waiters q'). el_clientNumID l \<noteq> c) \<and>
         {l \<in> entry_locks q. el_clientNumID l \<noteq> c} \<subseteq> entry_locks q'"
proof -
  obtain t q1 where c: "cancelMatching (\<lambda>l. el_clientNumID l = c) q = (t, q1)" by force
  then have "flockEntryFinish t True q1 = (True, ns, q')"
    using assms(2) by (auto simp: flockEntryGenericCancelByClientID_def flockEntryFinish_def)
  then show ?thesis using cancel_then_tryNext [OF assms(1) c] by blast
qed

theorem entry_cancel_client_complete_witness:
  "sample_lock 3 30 ''c'' 2 \<notin>
     entry_locks (entry_exec (CancelByClientID 3) sample_queues)"
proof -
  obtain ns q' where r: "flockEntryGenericCancelByClientID 3 sample_queues = (ns, q')" by force
  have "el_clientNumID (sample_lock 3 30 ''c'' 2) = 3" by (simp add: sample_lock_def)
  with entry_cancel_client_complete [OF sample_queues_wf r] r show ?thesis
    unfolding entry_exec_def by force
qed

text \<open>A request that is waiting or granted is answered without a state change.\<close>

lemma repeat_waiting_or_granted:
  assumes "\<not> el_isCancel d" "\<not> el_isUnlock d"
    and "el_lockAckID d \<in> waitersLockIDs q \<or> flockEntryIsGranted d q"
  shows "\<exists>g. flockEntryUnlocked d q = (g, [], q) \<and> (el_lockAckID d \<notin> waitersLockIDs q \<longrightarrow> g)"
  using assms by (auto simp: flockEntryUnlocked_def)

lemma enqueued_waits_or_granted:
  assumes wf: "entry_wf q" and d: "d \<in> set (if el_isShared d then waitersSharedLock q else waitersExclLock q)"
    and kind: "el_isShared d \<noteq> el_isExclusive d"
    and conflict: "el_isShared d \<Longrightarrow> el_isSet (exclLock q) \<or> waitersExclLock q \<noteq> []"
    and res: "flockEntryFinish t g q = (r, ns, q')"
  shows "el_lockAckID d \<in> waitersLockIDs q' \<or> flockEntryIsGranted d q'"
proof -
  have ids: "el_lockAckID d \<in> waitersLockIDs q"
    using wf d by (auto simp: entry_wf_def waiters_def split: if_splits)
  show ?thesis
  proof (cases q rule: flockEntryTryNextWaiters_cases)
    case (writer w ws)
    have q': "q' = q \<or> exclLock q' = w \<and> waitersLockIDs q' = waitersLockIDs q - {el_lockAckID w}"
      using res writer(3) by (auto simp: flockEntryFinish_def split: if_splits)
    show ?thesis
    proof (cases "el_lockAckID w = el_lockAckID d")
      case True
      then have "w = d \<and> \<not> el_isShared d"
        using wf d writer(2)
        by (auto simp: entry_wf_def waiters_def distinct_map image_iff split: if_splits)
      with kind q' ids show ?thesis by (elim disjE) (simp_all add: flockEntryIsGranted_def)
    next
      case False
      with q' ids show ?thesis by (elim disjE) simp_all
    qed
  next
    case readers
    then show ?thesis using conflict d by (auto split: if_splits)
  qed (use res ids in \<open>auto simp: flockEntryFinish_def split: if_splits\<close>)
qed

text \<open>
  Lock requests may be resent: answering the same valid lock request a second time
  changes nothing, notifies nobody, and a request that was granted is answered as granted.
\<close>

theorem entry_retry_idempotent:
  assumes wf: "entry_wf q" and valid: "el_valid d" and kind: "\<not> el_isCancel d" "\<not> el_isUnlock d"
    and res: "flockEntryUnlocked d q = (g, ns, q')"
  shows "\<exists>g'. flockEntryUnlocked d q' = (g', [], q') \<and> (g \<longrightarrow> g')"
  using res
proof (cases rule: flockEntryUnlocked_cases)
  case (lock t g1 q1)
  have set: "el_isSet d" and one: "el_isShared d \<noteq> el_isExclusive d"
    using valid kind by (auto simp: el_valid_def)
  obtain tu qu where u: "flockEntryUnlock d q = (tu, qu)" by force
  have wf1: "entry_wf q1" using wf set lock(3,5) by (rule entry_wf_newRequest)
  have gg: "g = g1" using lock(6) by (auto simp: flockEntryFinish_def split: if_splits prod.splits)
  show ?thesis
  proof (cases d q rule: newRequest_cases)
    case free
    have ids: "el_lockAckID d \<notin> waitersLockIDs q1"
    proof -
      have "q1 = (if el_isShared d then flockEntryShared d qu else flockEntryExclusive d qu)"
        using lock(5) u by (simp add: newRequest_free [OF free] split: if_splits)
      then have "waitersLockIDs q1 = waitersLockIDs qu"
        by (simp add: flockEntryShared_def flockEntryExclusive_def)
      with lock(3) unlock_waiters(1) [OF u] show ?thesis by simp
    qed
    have "el_lockAckID d \<notin> waitersLockIDs q' \<and> flockEntryIsGranted d q'"
    proof (cases "el_isExclusive d")
      case True
      then have "exclLock q1 = d" using granted_exclusive [OF free _ _ lock(5)] one by simp
      with lock(6) set ids True show ?thesis by (simp add: finish_held flockEntryIsGranted_def)
    next
      case False
      with one granted_shared [OF free _ _ set lock(5)]
      have q1: "\<not> el_isSet (exclLock q1)" "waitersExclLock q1 = []"
        "oset_mem el_lt d (sharedLocks q1)" by auto
      with finish_readers [OF lock(6) q1(1,2)] ids False one show ?thesis
        by (auto simp: oset_mem_el_lt flockEntryIsGranted_def)
    qed
    then show ?thesis using repeat_waiting_or_granted [OF kind, of q'] by blast
  next
    case (wait c)
    have conflict: "el_isShared d \<Longrightarrow> el_isSet (exclLock q1) \<or> waitersExclLock q1 \<noteq> []"
      using wait(1) lock(5) u one
      by (auto simp: newRequest_wait [OF wait] Let_def flockEntryCheckConflicts_def
          flockEntryUnlock_def split: if_splits list.splits)
    have "d \<in> set (if el_isShared d then waitersSharedLock q1 else waitersExclLock q1)"
      using lock(5) u by (auto simp: newRequest_wait [OF wait] Let_def)
    from enqueued_waits_or_granted [OF wf1 this one conflict lock(6)] lock(5) gg
    show ?thesis
      using repeat_waiting_or_granted [OF kind, of q'] by (auto simp: newRequest_wait [OF wait])
  next
    case refused
    with lock gg have "q' = q" "\<not> g" "ns = []" by (auto simp: newRequest_refused flockEntryFinish_def)
    with res show ?thesis by blast
  qed
qed (use repeat_waiting_or_granted [OF kind, of q] res kind in \<open>auto\<close>)

theorem entry_retry_idempotent_witness:
  "snd (flockEntryUnlocked (sample_lock 6 60 ''g'' 4)
     (entry_exec (Flock (sample_lock 6 60 ''g'' 4)) sample_queues)) =
   ([], entry_exec (Flock (sample_lock 6 60 ''g'' 4)) sample_queues)"
proof -
  let ?d = "sample_lock 6 60 ''g'' 4"
  obtain g ns q' where r: "flockEntryUnlocked ?d sample_queues = (g, ns, q')"
    using prod_cases3 by blast
  have "el_valid ?d" "\<not> el_isCancel ?d" "\<not> el_isUnlock ?d" by code_simp+
  from entry_retry_idempotent [OF sample_queues_wf this r] r show ?thesis
    by (auto simp: entry_exec_def)
qed

text \<open>
  Releasing an append lock hands it to the waiter that has waited longest, notifies that
  waiter only and drops its waiting ID.
\<close>

theorem append_release_fifo:
  assumes "exclAppendLock a = h" and "el_equalsHandle h d" and "el_isUnlock d" and "\<not> el_isCancel d"
    and "waitersExclAppendLock a = w # ws"
  shows "flockAppend d a =
           (True, [w], a\<lparr>exclAppendLock := w, waitersExclAppendLock := ws,
                         waitersLockIDsAppendLock := waitersLockIDsAppendLock a - {el_lockAckID w}\<rparr>)"
  using assms
  by (simp add: flockAppend_def AppendLockQueuesContainer_def flockEntryUnlocked_def
      flockEntryUnlock_def flockEntryFinish_def flockEntryTryNextWaiters_def
      flockEntryExclusive_def append_state_def)

theorem append_release_fifo_witness:
  "fst (snd (flockAppend (sample_lock 3 30 ''u'' 1)
     (append_state sample_queues))) = [sample_lock 4 40 ''e'' 2]"
proof -
  have "exclAppendLock (append_state sample_queues) = sample_lock 3 30 ''c'' 2"
    "el_equalsHandle (sample_lock 3 30 ''c'' 2) (sample_lock 3 30 ''u'' 1)"
    "el_isUnlock (sample_lock 3 30 ''u'' 1)" "\<not> el_isCancel (sample_lock 3 30 ''u'' 1)"
    "waitersExclAppendLock (append_state sample_queues) = [sample_lock 4 40 ''e'' 2]"
    by code_simp+
  from append_release_fifo [OF this] show ?thesis by simp
qed

text \<open>
  The waiter grant of flock locks looks at the exclusive lock only: a state is reachable in
  which a writer was granted the exclusive lock while another handle still holds a shared
  lock.
\<close>

theorem entry_writer_granted_beside_reader:
  "\<exists>q. entry_reachable q \<and> el_isSet (exclLock q) \<and>
       (\<exists>l \<in> set (sharedLocks q). \<not> el_equalsHandle l (exclLock q))"
proof -
  let ?q = "fold entry_exec two_readers_one_writer (entry_init LockEntryNotifyType_FLOCK)"
  have "entry_reachable ?q" by (rule two_readers_one_writer_reachable)
  moreover have "el_isSet (exclLock ?q)"
    "\<exists>l \<in> set (sharedLocks ?q). \<not> el_equalsHandle l (exclLock ?q)"
    by (simp_all add: two_readers_one_writer_result el_isSet_def el_equalsHandle_def sample_lock_def)
  ultimately show ?thesis by blast
qed

end
