(* ===== verification/Range_Locks.thy ===== *)
theory Range_Locks
  imports Locking_Details
begin

text \<open>
  Range (POSIX) locks of a file on the metadata server
  (\<^verbatim>\<open>meta/source/storage/FileInode.cpp\<close>, functions \<^verbatim>\<open>flockRange*\<close>): an ordered
  set of exclusive ranges, an ordered set of shared ranges, two waiter queues and the set of
  waiting request IDs. This theory holds the operations as the code has them; the loops that
  erase and re-insert elements of the set they walk keep the elements before and after the
  iterator apart. \<^verbatim>\<open>Range_Coverage\<close> relates the two sets to sets of locked bytes,
  \<^verbatim>\<open>Range_Lock_Effects\<close> describes each operation on them,
  \<^verbatim>\<open>Range_Lock_Requests\<close> proves the invariants of the whole component.
\<close>

section \<open>State\<close>

record RangeLockState =
  exclRangeFLocks :: "RangeLockDetails list"
  sharedRangeFLocks :: "RangeLockDetails list"
  waitersExclRangeFLock :: "RangeLockDetails list"
  waitersSharedRangeFLock :: "RangeLockDetails list"
  waitersLockIDsRangeFLock :: "string set"

section \<open>Conflicts\<close>

definition conflictsWith :: "RangeLockDetails \<Rightarrow> RangeLockDetails \<Rightarrow> bool" where
  "conflictsWith d l \<longleftrightarrow> rl_overlaps d l \<and> \<not> rl_equalsHandle d l"

text \<open>
  The loop over the waiting writers checks at most \<^term>\<open>n\<close> of them; a negative number never
  counts down to zero and means the whole queue.
\<close>

fun checkExclWaiters ::
    "RangeLockDetails \<Rightarrow> int \<Rightarrow> RangeLockDetails list \<Rightarrow> RangeLockDetails option" where
  "checkExclWaiters d n [] = None"
| "checkExclWaiters d n (w # ws) =
     (if n = 0 then None
      else if conflictsWith d w then Some w
      else checkExclWaiters d (n - 1) ws)"

definition flockRangeCheckConflictsEx ::
    "RangeLockDetails \<Rightarrow> int \<Rightarrow> RangeLockState \<Rightarrow> RangeLockDetails option" where
  "flockRangeCheckConflictsEx d maxExclWaitersCheckNum q =
     (case find (conflictsWith d) (takeWhile (\<lambda>l. rl_start l \<le> rl_end d) (exclRangeFLocks q)) of
        Some c \<Rightarrow> Some c
      | None \<Rightarrow>
          (case (if rl_isExclusive d then find (conflictsWith d) (sharedRangeFLocks q) else None) of
             Some c \<Rightarrow> Some c
           | None \<Rightarrow> checkExclWaiters d maxExclWaitersCheckNum (waitersExclRangeFLock q)))"

definition flockRangeCheckConflicts ::
    "RangeLockDetails \<Rightarrow> RangeLockState \<Rightarrow> RangeLockDetails option" where
  "flockRangeCheckConflicts d q = flockRangeCheckConflictsEx d (- 1) q"

definition flockRangeGetConflictor ::
    "RangeLockDetails \<Rightarrow> RangeLockState \<Rightarrow> RangeLockDetails option" where
  "flockRangeGetConflictor d q = flockRangeCheckConflicts d q"

section \<open>Placing a lock\<close>

text \<open>
  Both lock operations first merge the own locks that overlap or directly extend the new range
  into the request (which they change in place) and erase them, then insert the request. The
  loop over the exclusive locks stops at the first one that starts behind the request as it is
  at that moment.
\<close>

fun mergeLoop ::
    "(RangeLockDetails \<Rightarrow> RangeLockDetails \<Rightarrow> bool) \<Rightarrow> RangeLockDetails \<Rightarrow> RangeLockDetails list
       \<Rightarrow> RangeLockDetails \<times> RangeLockDetails list" where
  "mergeLoop go d [] = (d, [])"
| "mergeLoop go d (l # ls) =
     (if go d l then
        (if rl_equalsHandle d l \<and> rl_isMergeable d l then mergeLoop go (rl_merge d l) ls
         else (let (d', ls') = mergeLoop go d ls in (d', l # ls')))
      else (d, l # ls))"

definition excl_merge_go :: "RangeLockDetails \<Rightarrow> RangeLockDetails \<Rightarrow> bool" where
  "excl_merge_go d l \<longleftrightarrow> rl_start l \<le> rl_end d + 1"

definition flockRangeShared ::
    "RangeLockDetails \<Rightarrow> RangeLockState \<Rightarrow> RangeLockDetails \<times> RangeLockState" where
  "flockRangeShared d q =
     (let (d', ls) = mergeLoop (\<lambda>_ _. True) d (sharedRangeFLocks q)
      in (d', q\<lparr>sharedRangeFLocks := oset_insert rl_lt_shared d' ls\<rparr>))"

definition flockRangeExclusive ::
    "RangeLockDetails \<Rightarrow> RangeLockState \<Rightarrow> RangeLockDetails \<times> RangeLockState" where
  "flockRangeExclusive d q =
     (let (d', ls) = mergeLoop excl_merge_go d (exclRangeFLocks q)
      in (d', q\<lparr>exclRangeFLocks := oset_insert rl_lt_excl d' ls\<rparr>))"

section \<open>Looking for a granted lock\<close>

fun isGrantedLoop ::
    "(RangeLockDetails \<Rightarrow> RangeLockDetails \<Rightarrow> bool) \<Rightarrow> RangeLockDetails \<Rightarrow> RangeLockDetails list
       \<Rightarrow> bool" where
  "isGrantedLoop go d [] = False"
| "isGrantedLoop go d (l # ls) =
     (if go d l then
        (if \<not> rl_equalsHandle d l then isGrantedLoop go d ls
         else case rl_overlapsEx d l of
             RangeOverlapType_EQUALS \<Rightarrow> True
           | RangeOverlapType_ISCONTAINED \<Rightarrow> True
           | RangeOverlapType_CONTAINS \<Rightarrow> False
           | RangeOverlapType_STARTOVERLAP \<Rightarrow> False
           | RangeOverlapType_ENDOVERLAP \<Rightarrow> False
           | RangeOverlapType_NONE \<Rightarrow> isGrantedLoop go d ls)
      else False)"

definition excl_go :: "RangeLockDetails \<Rightarrow> RangeLockDetails \<Rightarrow> bool" where
  "excl_go d l \<longleftrightarrow> rl_start l \<le> rl_end d"

definition flockRangeIsGranted :: "RangeLockDetails \<Rightarrow> RangeLockState \<Rightarrow> bool" where
  "flockRangeIsGranted d q =
     (if rl_isExclusive d then isGrantedLoop excl_go d (exclRangeFLocks q)
      else if rl_isShared d then isGrantedLoop (\<lambda>_ _. True) d (sharedRangeFLocks q)
      else False)"

section \<open>Unlocking a range\<close>

text \<open>
  The loop walks one of the sets with an iterator at the head of \<^term>\<open>rest\<close>. It returns the
  set, whether a lock was removed or trimmed, and whether the function returned from within
  the loop.
\<close>

lemma rl_trim_overlap:
  assumes "rl_overlapsEx d l = RangeOverlapType_STARTOVERLAP \<or>
           rl_overlapsEx d l = RangeOverlapType_ENDOVERLAP"
  shows "rl_overlapsEx d (rl_trim l d) = RangeOverlapType_NONE"
proof (cases "rl_end d < rl_end l")
  case True
  then have "rl_end d < rl_end d + 1"
    using unat_plus_one_less [OF True] by (simp add: word_less_nat_alt)
  then show ?thesis using True by (simp add: rl_trim_def rl_overlapsEx_def)
next
  case False
  with assms have less: "rl_start l < rl_start d"
    by (auto simp: rl_overlapsEx_def split: if_splits)
  then have "rl_start d - 1 < rl_start d"
    using unat_minus_one_less [OF less] by (simp add: word_less_nat_alt)
  then show ?thesis using False by (simp add: rl_trim_def rl_overlapsEx_def)
qed

lemma oset_insert_filter_length:
  "\<not> P x \<Longrightarrow> length (filter P (oset_insert lt x ys)) = length (filter P ys)"
  by (induction ys) auto

lemma oset_insert_length: "length (oset_insert lt x ys) \<le> Suc (length ys)"
  by (induction ys) auto

lemma oset_insert_at_rest:
  "snd (oset_insert_at lt x before rest) = rest \<or>
   snd (oset_insert_at lt x before rest) = oset_insert lt x rest"
  by (simp add: oset_insert_at_def split: list.splits)

function (sequential) unlockLoop ::
    "(RangeLockDetails \<Rightarrow> RangeLockDetails \<Rightarrow> bool) \<Rightarrow> (RangeLockDetails \<Rightarrow> RangeLockDetails \<Rightarrow> bool)
       \<Rightarrow> RangeLockDetails \<Rightarrow> RangeLockDetails list \<Rightarrow> RangeLockDetails list \<Rightarrow> bool
       \<Rightarrow> RangeLockDetails list \<times> bool \<times> bool" where
  "unlockLoop lt go d before [] lockRemoved = (before, lockRemoved, False)"
| "unlockLoop lt go d before (l # rest) lockRemoved =
     (if go d l then
        (if \<not> rl_equalsHandle d l then unlockLoop lt go d (before @ [l]) rest lockRemoved
         else case rl_overlapsEx d l of
             RangeOverlapType_EQUALS \<Rightarrow> (before @ rest, True, True)
           | RangeOverlapType_ISCONTAINED \<Rightarrow>
               (if rl_start d = rl_start l \<or> rl_end d = rl_end l
                then (oset_insert lt (rl_trim l d) (before @ rest), True, True)
                else (let (oldLock, newLock) = rl_split l d
                      in (oset_insert lt newLock (oset_insert lt oldLock (before @ rest)),
                          True, True)))
           | RangeOverlapType_CONTAINS \<Rightarrow> unlockLoop lt go d before rest True
           | RangeOverlapType_STARTOVERLAP \<Rightarrow>
               (case oset_insert_at lt (rl_trim l d) before rest of (before', rest') \<Rightarrow>
                  unlockLoop lt go d before' rest' True)
           | RangeOverlapType_ENDOVERLAP \<Rightarrow>
               (case oset_insert_at lt (rl_trim l d) before rest of (before', rest') \<Rightarrow>
                  unlockLoop lt go d before' rest' True)
           | RangeOverlapType_NONE \<Rightarrow> unlockLoop lt go d (before @ [l]) rest lockRemoved)
      else (before @ l # rest, lockRemoved, False))"
  by pat_completeness auto

text \<open>
  A trimmed lock may be inserted behind the iterator and met again, but it no longer overlaps
  the range: the locks in \<^term>\<open>rest\<close> and those among them that overlap become fewer together.
\<close>

definition unlock_measure :: "RangeLockDetails \<Rightarrow> RangeLockDetails list \<Rightarrow> nat" where
  "unlock_measure d rest =
     length rest + length (filter (\<lambda>l. rl_overlapsEx d l \<noteq> RangeOverlapType_NONE) rest)"

lemma unlock_measure_trim:
  assumes "rl_overlapsEx d l = RangeOverlapType_STARTOVERLAP \<or>
           rl_overlapsEx d l = RangeOverlapType_ENDOVERLAP"
    and "(before', rest') = oset_insert_at lt (rl_trim l d) before rest"
  shows "unlock_measure d rest' < unlock_measure d (l # rest)"
proof -
  have "rl_overlapsEx d l \<noteq> RangeOverlapType_NONE" using assms(1) by auto
  moreover have "rest' = rest \<or> rest' = oset_insert lt (rl_trim l d) rest"
    using oset_insert_at_rest [of lt "rl_trim l d" before rest] assms(2) by (metis snd_conv)
  ultimately show ?thesis
    using rl_trim_overlap [OF assms(1)] oset_insert_length [of lt "rl_trim l d" rest]
      oset_insert_filter_length [of "\<lambda>l. rl_overlapsEx d l \<noteq> RangeOverlapType_NONE" "rl_trim l d" lt rest]
    by (auto simp: unlock_measure_def)
qed

termination unlockLoop
  by (relation "measure (\<lambda>(lt, go, d, before, rest, lockRemoved). unlock_measure d rest)")
     (simp_all add: unlock_measure_trim, simp_all add: unlock_measure_def)

definition flockRangeUnlock :: "RangeLockDetails \<Rightarrow> RangeLockState \<Rightarrow> bool \<times> RangeLockState" where
  "flockRangeUnlock d q =
     (let (excl, lockRemoved, returned) =
            unlockLoop rl_lt_excl excl_go d [] (exclRangeFLocks q) False;
          q1 = q\<lparr>exclRangeFLocks := excl\<rparr>
      in if returned then (True, q1)
         else
           (let (shared, lockRemoved', returned') =
                  unlockLoop rl_lt_shared (\<lambda>_ _. True) d [] (sharedRangeFLocks q) lockRemoved
            in (lockRemoved', q1\<lparr>sharedRangeFLocks := shared\<rparr>)))"

section \<open>Granting waiters\<close>

text \<open>
  Both loops walk a waiter queue with an iterator at index \<^term>\<open>i\<close>, which is also the
  number of exclusive waiters before the checked one (\<^verbatim>\<open>numWaitersBefore\<close>); the first
  argument holds the waiters from the iterator on. A granted waiter is merged in place before
  it is put on the notify list.
\<close>

definition erase_nth :: "nat \<Rightarrow> 'a list \<Rightarrow> 'a list" where
  "erase_nth i xs = take i xs @ drop (Suc i) xs"

fun grantExclWaiters ::
    "RangeLockDetails list \<Rightarrow> nat \<Rightarrow> RangeLockState \<Rightarrow> RangeLockDetails list
       \<Rightarrow> RangeLockDetails list \<times> RangeLockState" where
  "grantExclWaiters [] i q notifyList = (notifyList, q)"
| "grantExclWaiters (w # ws) i q notifyList =
     (if flockRangeCheckConflictsEx w (int i) q \<noteq> None
      then grantExclWaiters ws (Suc i) q notifyList
      else
        (let (w', q1) = flockRangeExclusive w q;
             q2 = q1\<lparr>waitersLockIDsRangeFLock := waitersLockIDsRangeFLock q1 - {rl_lockAckID w'},
                     waitersExclRangeFLock := erase_nth i (waitersExclRangeFLock q1)\<rparr>
         in grantExclWaiters ws i q2 (notifyList @ [w'])))"

fun grantSharedRangeWaiters ::
    "RangeLockDetails list \<Rightarrow> nat \<Rightarrow> RangeLockState \<Rightarrow> RangeLockDetails list
       \<Rightarrow> RangeLockDetails list \<times> RangeLockState" where
  "grantSharedRangeWaiters [] i q notifyList = (notifyList, q)"
| "grantSharedRangeWaiters (w # ws) i q notifyList =
     (if flockRangeCheckConflicts w q \<noteq> None
      then grantSharedRangeWaiters ws (Suc i) q notifyList
      else
        (let (w', q1) = flockRangeShared w q;
             q2 = q1\<lparr>waitersLockIDsRangeFLock := waitersLockIDsRangeFLock q1 - {rl_lockAckID w'},
                     waitersSharedRangeFLock := erase_nth i (waitersSharedRangeFLock q1)\<rparr>
         in grantSharedRangeWaiters ws i q2 (notifyList @ [w'])))"

definition flockRangeTryNextWaiters ::
    "RangeLockState \<Rightarrow> RangeLockDetails list \<times> RangeLockState" where
  "flockRangeTryNextWaiters q =
     (let (notifyList, q1) = grantExclWaiters (waitersExclRangeFLock q) 0 q []
      in grantSharedRangeWaiters (waitersSharedRangeFLock q1) 0 q1 notifyList)"

section \<open>Cancelling\<close>

text \<open>The four loops of the two cancel operations differ only in what they match.\<close>

definition cancelMatchingRange ::
    "(RangeLockDetails \<Rightarrow> bool) \<Rightarrow> RangeLockState \<Rightarrow> bool \<times> RangeLockState" where
  "cancelMatchingRange P q =
     (let (excl', found0) = erase_matching P (exclRangeFLocks q);
          (shared', found1) = erase_matching P (sharedRangeFLocks q);
          (wExcl', ids1, found2) =
            erase_waiters rl_lockAckID P (waitersExclRangeFLock q) (waitersLockIDsRangeFLock q);
          (wShared', ids2, found3) =
            erase_waiters rl_lockAckID P (waitersSharedRangeFLock q) ids1
      in (found0 \<or> found1 \<or> found2 \<or> found3,
          q\<lparr>exclRangeFLocks := excl', sharedRangeFLocks := shared',
            waitersExclRangeFLock := wExcl', waitersSharedRangeFLock := wShared',
            waitersLockIDsRangeFLock := ids2\<rparr>))"

definition flockRangeCancelByHandle ::
    "RangeLockDetails \<Rightarrow> RangeLockState \<Rightarrow> bool \<times> RangeLockState" where
  "flockRangeCancelByHandle d q = cancelMatchingRange (rl_equalsHandle d) q"

definition flockRangeCancelByClientID ::
    "u32 \<Rightarrow> RangeLockState \<Rightarrow> RangeLockDetails list \<times> RangeLockState" where
  "flockRangeCancelByClientID clientNumID q =
     (let (tryNextWaiters, q') = cancelMatchingRange (\<lambda>l. rl_clientNumID l = clientNumID) q
      in if tryNextWaiters then flockRangeTryNextWaiters q' else ([], q'))"

definition flockRangeCancelAllWaiters :: "RangeLockState \<Rightarrow> RangeLockState" where
  "flockRangeCancelAllWaiters q =
     q\<lparr>waitersLockIDsRangeFLock := {}, waitersExclRangeFLock := [], waitersSharedRangeFLock := []\<rparr>"

section \<open>The entry point\<close>

text \<open>
  Like the entry lock code: a request that is neither waiting nor granted already is handled by
  \<^verbatim>\<open>flockRangeNewRequest\<close> (the new value of \<^verbatim>\<open>tryNextWaiters\<close>,
  \<^verbatim>\<open>immediatelyGranted\<close> and the state); the end of the function
  (\<^verbatim>\<open>flockRangeFinish\<close>) tries the waiters.
\<close>

definition flockRangeNewRequest ::
    "RangeLockDetails \<Rightarrow> RangeLockState \<Rightarrow> bool \<times> bool \<times> RangeLockState" where
  "flockRangeNewRequest d q =
     (let hasConflicts = (flockRangeCheckConflicts d q \<noteq> None);
          (tryNextWaiters, q1) =
            (if \<not> hasConflicts \<or> rl_allowsWaiting d then flockRangeUnlock d q else (False, q))
      in
      if rl_isShared d then
        (if \<not> hasConflicts then (tryNextWaiters, True, snd (flockRangeShared d q1))
         else if rl_allowsWaiting d then
           (tryNextWaiters, False,
            q1\<lparr>waitersSharedRangeFLock := waitersSharedRangeFLock q1 @ [d],
               waitersLockIDsRangeFLock := insert (rl_lockAckID d) (waitersLockIDsRangeFLock q1)\<rparr>)
         else (tryNextWaiters, False, q1))
      else
        (if \<not> hasConflicts then (tryNextWaiters, True, snd (flockRangeExclusive d q1))
         else if rl_allowsWaiting d then
           (tryNextWaiters, False,
            q1\<lparr>waitersExclRangeFLock := waitersExclRangeFLock q1 @ [d],
               waitersLockIDsRangeFLock := insert (rl_lockAckID d) (waitersLockIDsRangeFLock q1)\<rparr>)
         else (tryNextWaiters, False, q1)))"

definition flockRangeFinish ::
    "bool \<Rightarrow> bool \<Rightarrow> RangeLockState \<Rightarrow> bool \<times> RangeLockDetails list \<times> RangeLockState" where
  "flockRangeFinish tryNextWaiters immediatelyGranted q =
     (if tryNextWaiters
      then (let (ns, q') = flockRangeTryNextWaiters q in (immediatelyGranted, ns, q'))
      else (immediatelyGranted, [], q))"

definition flockRangeUnlocked ::
    "RangeLockDetails \<Rightarrow> RangeLockState \<Rightarrow> bool \<times> RangeLockDetails list \<times> RangeLockState" where
  "flockRangeUnlocked d q =
     (if rl_isCancel d then
        (let (tryNextWaiters, q') = flockRangeCancelByHandle d q
         in flockRangeFinish tryNextWaiters True q')
      else if rl_isUnlock d then
        (let (tryNextWaiters, q') = flockRangeUnlock d q
         in flockRangeFinish tryNextWaiters True q')
      else if rl_lockAckID d \<in> waitersLockIDsRangeFLock q then (False, [], q)
      else if flockRangeIsGranted d q then (True, [], q)
      else
        (let (tryNextWaiters, immediatelyGranted, q') = flockRangeNewRequest d q
         in flockRangeFinish tryNextWaiters immediatelyGranted q'))"

definition flockRange ::
    "RangeLockDetails \<Rightarrow> RangeLockState \<Rightarrow> bool \<times> RangeLockDetails list \<times> RangeLockState" where
  "flockRange d q = flockRangeUnlocked d q"

declare flockRange_def [simp]

end
