(* ===== verification/Range_Coverage.thy ===== *)
theory Range_Coverage
  imports Range_Locks
begin

text \<open>
  The byte view of the range locks: a list of locks covers, for every handle, a set of bytes.
  A locale states what the exclusive and the shared set have in common (the order, the way
  their locks are kept apart, the point where a loop over them may stop) and proves once that
  unlocking subtracts a range, that placing a lock adds one, and that looking for a granted
  lock decides coverage. Both sets of the code interpret it.
\<close>

section \<open>Ranges as sets of bytes\<close>

abbreviation lo :: "RangeLockDetails \<Rightarrow> nat" where "lo l \<equiv> unat (rl_start l)"
abbreviation hi :: "RangeLockDetails \<Rightarrow> nat" where "hi l \<equiv> unat (rl_end l)"

text \<open>The owner of a range lock: a process of a client.\<close>

datatype range_handle = RangeHandle u32 u32

definition rl_handle :: "RangeLockDetails \<Rightarrow> range_handle" where
  "rl_handle l = RangeHandle (rl_clientNumID l) (rl_ownerPID l)"

definition rl_range :: "RangeLockDetails \<Rightarrow> nat set" where
  "rl_range l = {lo l..hi l}"

text \<open>
  A range is proper when it is not empty and does not end at the largest 64-bit offset, so that
  the code's \<^verbatim>\<open>end+1\<close> does not wrap. (File offsets are signed 64-bit numbers.)
\<close>

definition rl_ok :: "RangeLockDetails \<Rightarrow> bool" where
  "rl_ok l \<longleftrightarrow> rl_start l \<le> rl_end l \<and> rl_end l < - 1"

definition cov :: "range_handle \<Rightarrow> RangeLockDetails list \<Rightarrow> nat set" where
  "cov h ls = (\<Union>l \<in> {l \<in> set ls. rl_handle l = h}. rl_range l)"

lemma equalsHandle_handle: "rl_equalsHandle a b \<longleftrightarrow> rl_handle a = rl_handle b"
  by (auto simp: rl_equalsHandle_def rl_handle_def)

lemma rl_ok_nat: "rl_ok l \<Longrightarrow> lo l \<le> hi l" "rl_ok l \<Longrightarrow> unat (rl_end l + 1) = hi l + 1"
  using unat_plus_one_less [of "rl_end l" "- 1"] by (auto simp: rl_ok_def word_le_nat_alt)

lemma overlaps_nat: "rl_overlaps a b \<longleftrightarrow> \<not> (hi b < lo a \<or> lo b > hi a)"
  by (simp add: rl_overlaps_def word_less_nat_alt)

lemma overlaps_range:
  "rl_ok a \<Longrightarrow> rl_ok b \<Longrightarrow> rl_overlaps a b \<longleftrightarrow> rl_range a \<inter> rl_range b \<noteq> {}"
  by (auto simp: overlaps_nat rl_range_def dest!: rl_ok_nat(1))

lemma isMergeable_nat:
  "rl_ok a \<Longrightarrow> rl_ok b \<Longrightarrow> rl_isMergeable a b \<longleftrightarrow> \<not> (hi b + 1 < lo a \<or> lo b > hi a + 1)"
  by (simp add: rl_isMergeable_def word_less_nat_alt rl_ok_nat)

lemma overlapsEx_NONE: "rl_overlapsEx a b = RangeOverlapType_NONE \<longleftrightarrow> \<not> rl_overlaps a b"
  by (auto simp: rl_overlapsEx_def rl_overlaps_def)

lemma overlapsEx_contained:
  "rl_overlapsEx a b \<in> {RangeOverlapType_EQUALS, RangeOverlapType_ISCONTAINED} \<longleftrightarrow>
     rl_overlaps a b \<and> lo b \<le> lo a \<and> hi a \<le> hi b"
  by (auto simp: rl_overlapsEx_def rl_overlaps_def simp flip: word_le_nat_alt)

lemma merge_simps [simp]:
  "rl_handle (rl_merge a b) = rl_handle a" "rl_lockAckID (rl_merge a b) = rl_lockAckID a"
  "rl_lockTypeFlags (rl_merge a b) = rl_lockTypeFlags a"
  "lo (rl_merge a b) = min (lo a) (lo b)" "hi (rl_merge a b) = max (hi a) (hi b)"
  by (simp_all add: rl_merge_def rl_handle_def min_def max_def word_le_nat_alt)

lemma rl_ok_merge: "rl_ok a \<Longrightarrow> rl_ok b \<Longrightarrow> rl_ok (rl_merge a b)"
  by (auto simp: rl_ok_def rl_merge_def min_def max_def)

lemma merge_range:
  "rl_ok a \<Longrightarrow> rl_ok b \<Longrightarrow> rl_isMergeable a b \<Longrightarrow>
     rl_range (rl_merge a b) = rl_range a \<union> rl_range b"
  by (auto simp: rl_range_def isMergeable_nat dest!: rl_ok_nat(1))

lemma cov_Nil [simp]: "cov h [] = {}"
  by (simp add: cov_def)

lemma cov_Cons: "cov h (l # ls) = (if rl_handle l = h then rl_range l else {}) \<union> cov h ls"
  by (auto simp: cov_def)

lemma cov_append [simp]: "cov h (xs @ ys) = cov h xs \<union> cov h ys"
  by (auto simp: cov_def)

lemma cov_mono: "set xs \<subseteq> set ys \<Longrightarrow> cov h xs \<subseteq> cov h ys"
  by (auto simp: cov_def)

lemma cov_insert: "set ys = insert l (set xs) \<Longrightarrow> cov h ys = cov h (l # xs)"
  by (auto simp: cov_def)

section \<open>The reference semantics of unlocking\<close>

text \<open>What is left of a lock when a range of its owner is unlocked: at most two pieces.\<close>

definition rl_cut :: "RangeLockDetails \<Rightarrow> RangeLockDetails \<Rightarrow> RangeLockDetails list" where
  "rl_cut d l =
     (if rl_equalsHandle d l \<and> rl_overlaps d l
      then (if lo l < lo d then [l\<lparr>rl_end := rl_start d - 1\<rparr>] else [])
           @ (if hi d < hi l then [l\<lparr>rl_start := rl_end d + 1\<rparr>] else [])
      else [l])"

definition range_cut :: "RangeLockDetails \<Rightarrow> RangeLockDetails list \<Rightarrow> RangeLockDetails list" where
  "range_cut d ls = concat (map (rl_cut d) ls)"

definition shrinks :: "RangeLockDetails \<Rightarrow> RangeLockDetails \<Rightarrow> bool" where
  "shrinks p l \<longleftrightarrow> rl_handle p = rl_handle l \<and> lo l \<le> lo p \<and> hi p \<le> hi l"

lemma cut_left_nat:
  "lo l < lo d \<Longrightarrow> hi (l\<lparr>rl_end := rl_start d - 1\<rparr>) = lo d - 1"
  by (simp add: unat_minus_one_less word_less_nat_alt)

lemma cut_right_nat:
  "hi d < hi l \<Longrightarrow> lo (l\<lparr>rl_start := rl_end d + 1\<rparr>) = hi d + 1"
  by (simp add: unat_plus_one_less word_less_nat_alt)

lemma handle_update [simp]:
  "rl_handle (l\<lparr>rl_end := x\<rparr>) = rl_handle l" "rl_handle (l\<lparr>rl_start := x\<rparr>) = rl_handle l"
  by (simp_all add: rl_handle_def)

lemma shrinks_refl [simp]: "shrinks l l"
  by (simp add: shrinks_def)

lemma cut_shrinks: "rl_ok d \<Longrightarrow> p \<in> set (rl_cut d l) \<Longrightarrow> shrinks p l"
  using cut_left_nat [of l d] cut_right_nat [of d l]
  by (auto simp: rl_cut_def shrinks_def overlaps_nat split: if_splits dest!: rl_ok_nat(1))

lemma cut_ok:
  assumes "rl_ok d" "rl_ok l" "p \<in> set (rl_cut d l)"
  shows "rl_ok p"
proof -
  have "lo p \<le> hi p \<and> hi p \<le> hi l"
    using assms cut_left_nat [of l d] cut_right_nat [of d l]
    by (auto simp: rl_cut_def overlaps_nat split: if_splits dest!: rl_ok_nat(1))
  then show ?thesis using assms(2) by (auto simp: rl_ok_def word_le_nat_alt word_less_nat_alt)
qed

lemma cut_cov:
  assumes "rl_ok d" "rl_ok l"
  shows "cov h (rl_cut d l) = cov h [l] - (if h = rl_handle d then rl_range d else {})"
  using cut_left_nat [of l d] cut_right_nat [of d l] assms
  by (auto simp: rl_cut_def cov_Cons rl_range_def overlaps_nat equalsHandle_handle dest!: rl_ok_nat(1))

lemma range_cut_cov:
  assumes "rl_ok d" "list_all rl_ok ls"
  shows "cov h (range_cut d ls) = cov h ls - (if h = rl_handle d then rl_range d else {})"
  using assms(2)
proof (induction ls)
  case (Cons l ls)
  then show ?case
    using cut_cov [OF assms(1), of l h] cov_append [of h "[l]" ls]
    by (simp add: range_cut_def Un_Diff)
qed (simp add: range_cut_def)

lemma range_cut_none: "\<forall>l \<in> set ls. \<not> (rl_equalsHandle d l \<and> rl_overlaps d l) \<Longrightarrow> range_cut d ls = ls"
  by (induction ls) (auto simp: range_cut_def rl_cut_def)

text \<open>The branches of the unlock loop compute the pieces.\<close>

lemma overlapsEx_nat:
  "rl_overlapsEx a b =
     (if hi b < lo a \<or> lo b > hi a then RangeOverlapType_NONE
      else if lo b = lo a \<and> hi b = hi a then RangeOverlapType_EQUALS
      else if lo a \<le> lo b \<and> hi b \<le> hi a then RangeOverlapType_CONTAINS
      else if lo b \<le> lo a \<and> hi a \<le> hi b then RangeOverlapType_ISCONTAINED
      else if lo a < lo b then RangeOverlapType_STARTOVERLAP
      else RangeOverlapType_ENDOVERLAP)"
  by (simp add: rl_overlapsEx_def word_less_nat_alt word_le_nat_alt word_unat_eq_iff)

lemma overlap_bounds:
  assumes "rl_overlapsEx d l = t"
  shows "t = RangeOverlapType_EQUALS \<Longrightarrow> rl_overlaps d l \<and> lo l = lo d \<and> hi l = hi d"
    and "t = RangeOverlapType_CONTAINS \<Longrightarrow> rl_overlaps d l \<and> lo d \<le> lo l \<and> hi l \<le> hi d \<and>
           \<not> (lo l \<le> lo d \<and> hi d \<le> hi l)"
    and "t = RangeOverlapType_ISCONTAINED \<Longrightarrow> rl_overlaps d l \<and> lo l \<le> lo d \<and> hi d \<le> hi l \<and>
           \<not> (lo d \<le> lo l \<and> hi l \<le> hi d)"
    and "t = RangeOverlapType_STARTOVERLAP \<Longrightarrow> rl_overlaps d l \<and> lo d < lo l \<and> hi d < hi l"
    and "t = RangeOverlapType_ENDOVERLAP \<Longrightarrow> rl_overlaps d l \<and> lo l < lo d \<and> hi l < hi d"
  using assms by (auto simp: overlapsEx_nat overlaps_nat split: if_splits)

lemma trim_nat:
  "rl_trim l d = (if hi d < hi l then l\<lparr>rl_start := rl_end d + 1\<rparr> else l\<lparr>rl_end := rl_start d - 1\<rparr>)"
  by (simp add: rl_trim_def word_less_nat_alt)

lemma cut_all:
  assumes "rl_equalsHandle d l" "rl_overlaps d l" "lo d \<le> lo l" "hi l \<le> hi d"
  shows "rl_cut d l = []"
  using assms by (simp add: rl_cut_def)

lemma cut_trim:
  assumes "rl_equalsHandle d l" "rl_overlaps d l" "lo l < lo d \<longleftrightarrow> \<not> hi d < hi l"
  shows "rl_cut d l = [rl_trim l d]"
  using assms by (simp add: rl_cut_def trim_nat)

lemma cut_split:
  assumes "rl_equalsHandle d l" "rl_overlaps d l" "lo l < lo d" "hi d < hi l"
  shows "rl_cut d l = [fst (rl_split l d), snd (rl_split l d)]"
  using assms by (simp add: rl_cut_def rl_split_def)

lemma cut_keep: "\<not> (rl_equalsHandle d l \<and> rl_overlaps d l) \<Longrightarrow> rl_cut d l = [l]"
  unfolding rl_cut_def by (rule if_not_P)

section \<open>Sets of ranges kept apart\<close>

definition apart ::
    "(RangeLockDetails \<Rightarrow> RangeLockDetails \<Rightarrow> bool) \<Rightarrow> RangeLockDetails list \<Rightarrow> bool" where
  "apart sep ls \<longleftrightarrow> list_all rl_ok ls \<and> sorted_wrt sep ls"

definition touches_own :: "RangeLockDetails \<Rightarrow> RangeLockDetails list \<Rightarrow> bool" where
  "touches_own d ls \<longleftrightarrow> list_ex (\<lambda>l. rl_equalsHandle d l \<and> rl_overlaps d l) ls"

definition within_own :: "RangeLockDetails \<Rightarrow> RangeLockDetails list \<Rightarrow> bool" where
  "within_own d ls \<longleftrightarrow> list_ex (\<lambda>l. rl_equalsHandle d l \<and> lo l \<le> lo d \<and> hi d \<le> hi l) ls"

lemma touches_own_Cons:
  "touches_own d (l # ls) \<longleftrightarrow> rl_equalsHandle d l \<and> rl_overlaps d l \<or> touches_own d ls"
  by (simp add: touches_own_def)

lemma within_own_Cons:
  "within_own d (l # ls) \<longleftrightarrow> rl_equalsHandle d l \<and> lo l \<le> lo d \<and> hi d \<le> hi l \<or> within_own d ls"
  by (simp add: within_own_def)

lemma within_touches: "rl_ok d \<Longrightarrow> within_own d ls \<Longrightarrow> touches_own d ls"
  by (auto simp: within_own_def touches_own_def list_ex_iff overlaps_nat dest!: rl_ok_nat(1))

locale range_lock_set = set_comparator lt
  for lt :: "RangeLockDetails \<Rightarrow> RangeLockDetails \<Rightarrow> bool" +
  fixes sep :: "RangeLockDetails \<Rightarrow> RangeLockDetails \<Rightarrow> bool"
    and go :: "RangeLockDetails \<Rightarrow> RangeLockDetails \<Rightarrow> bool"
    and merge_go :: "RangeLockDetails \<Rightarrow> RangeLockDetails \<Rightarrow> bool"
  assumes sep_lt: "rl_ok a \<Longrightarrow> rl_ok b \<Longrightarrow> sep a b \<Longrightarrow> lt a b"
    and sep_own: "sep a b \<Longrightarrow> rl_handle a = rl_handle b \<Longrightarrow> hi a + 1 < lo b"
    and own_sep: "rl_handle a = rl_handle b \<Longrightarrow> hi a + 1 < lo b \<Longrightarrow> sep a b"
    and sep_shrinks: "sep a b \<Longrightarrow> shrinks a' a \<Longrightarrow> shrinks b' b \<Longrightarrow> sep a' b'"
    and go_stops: "\<not> go d l \<Longrightarrow> rl_ok l \<Longrightarrow> y = l \<or> sep l y \<Longrightarrow> rl_handle y = rl_handle d \<Longrightarrow> hi d < lo y"
    and merge_go_stops: "\<not> merge_go d l \<Longrightarrow> rl_ok d \<Longrightarrow> rl_ok l \<Longrightarrow> y = l \<or> sep l y \<Longrightarrow>
          rl_handle y = rl_handle d \<Longrightarrow> hi d + 1 < lo y"
begin

lemma apart_Cons: "apart sep (l # ls) \<longleftrightarrow> rl_ok l \<and> (\<forall>y \<in> set ls. sep l y) \<and> apart sep ls"
  by (auto simp: apart_def list_all_iff)

lemma apart_Nil [simp]: "apart sep []"
  by (simp add: apart_def)

lemma apart_append:
  "apart sep (xs @ ys) \<longleftrightarrow> apart sep xs \<and> apart sep ys \<and> (\<forall>x \<in> set xs. \<forall>y \<in> set ys. sep x y)"
  by (auto simp: apart_def sorted_wrt_append list_all_iff)

lemma apart_ok: "apart sep ls \<Longrightarrow> l \<in> set ls \<Longrightarrow> rl_ok l"
  by (auto simp: apart_def list_all_iff)

text \<open>An element that is apart from all others is inserted at its place.\<close>

lemma insert_between:
  assumes "apart sep xs" "apart sep ys" "rl_ok x" "\<forall>a \<in> set xs. sep a x" "\<forall>b \<in> set ys. sep x b"
  shows "oset_insert lt x (xs @ ys) = xs @ x # ys"
  using assms(1,4)
proof (induction xs)
  case Nil
  then show ?case
    using assms(2,3,5) by (cases ys) (auto simp: apart_Cons sep_lt)
next
  case (Cons a xs)
  then have "lt a x" using assms(3) by (simp add: apart_Cons sep_lt)
  then show ?case using Cons lt_asym by (auto simp: apart_Cons)
qed

lemma insert_at_between:
  assumes "apart sep xs" "apart sep ys" "rl_ok x" "\<forall>a \<in> set xs. sep a x" "\<forall>b \<in> set ys. sep x b"
  shows "oset_insert_at lt x xs ys = (xs @ [x], ys)"
  using insert_between [OF assms(1) _ assms(3,4), of "[]"] assms
  by (cases ys) (auto simp: oset_insert_at_def apart_Cons sep_lt)

lemma cut_pieces_apart:
  assumes "rl_ok d" "rl_ok l"
  shows "apart sep (rl_cut d l)"
proof -
  have "list_all rl_ok (rl_cut d l)" using cut_ok [OF assms] by (auto simp: list_all_iff)
  moreover have "sorted_wrt sep (rl_cut d l)"
    using cut_left_nat [of l d] cut_right_nat [of d l] rl_ok_nat(1) [OF assms(1)]
    by (auto simp: rl_cut_def intro!: own_sep)
  ultimately show ?thesis by (simp add: apart_def)
qed

lemma range_cut_apart:
  assumes "rl_ok d" "apart sep ls"
  shows "apart sep (range_cut d ls)"
  using assms(2)
proof (induction ls)
  case (Cons l ls)
  have "sep p p'" if "p \<in> set (rl_cut d l)" "y \<in> set ls" "p' \<in> set (rl_cut d y)" for p p' y
    using that Cons.prems cut_shrinks [OF assms(1)] by (auto simp: apart_Cons intro: sep_shrinks)
  then show ?case
    using Cons cut_pieces_apart [OF assms(1), of l]
    by (auto simp: range_cut_def apart_append apart_Cons)
qed (simp add: range_cut_def)

text \<open>The only own lock that meets a range contained in one of them.\<close>

lemma contained_alone:
  assumes "apart sep (xs @ l # ys)" "rl_handle l = rl_handle d" "lo l \<le> lo d" "hi d \<le> hi l"
    and "y \<in> set xs \<union> set ys"
  shows "\<not> (rl_equalsHandle d y \<and> rl_overlaps d y)"
proof
  assume y: "rl_equalsHandle d y \<and> rl_overlaps d y"
  have "sep y l \<or> sep l y" using assms(1,5) by (auto simp: apart_append apart_Cons)
  then show False
    using y sep_own [of y l] sep_own [of l y] assms(2-4)
    by (auto simp: equalsHandle_handle overlaps_nat)
qed

text \<open>The loop computes the reference cut, and reports whether anything was cut.\<close>

lemma go_stops_all:
  assumes "apart sep (l # ls)" "\<not> go d l"
  shows "\<forall>y \<in> set (l # ls). \<not> (rl_equalsHandle d y \<and> rl_overlaps d y)"
  using assms go_stops [OF assms(2)]
  by (fastforce simp: apart_Cons equalsHandle_handle overlaps_nat)

lemma replace_piece:
  assumes "apart sep (before @ l # rest)" "shrinks p l" "rl_ok p"
  shows "\<forall>a \<in> set before. sep a p" "\<forall>b \<in> set rest. sep p b"
    and "apart sep ((before @ [p]) @ rest)" "apart sep before" "apart sep rest"
proof -
  have parts: "apart sep before" "apart sep rest" "\<forall>a \<in> set before. sep a l" "\<forall>b \<in> set rest. sep l b"
    "\<forall>a \<in> set before. \<forall>b \<in> set rest. sep a b"
    using assms(1) by (auto simp: apart_append apart_Cons)
  show 1: "\<forall>a \<in> set before. sep a p"
    using parts(3) sep_shrinks [OF _ shrinks_refl assms(2)] by blast
  show 2: "\<forall>b \<in> set rest. sep p b"
    using parts(4) sep_shrinks [OF _ assms(2) shrinks_refl] by blast
  show "apart sep ((before @ [p]) @ rest)"
    using parts 1 2 assms(3) by (simp add: apart_append apart_Cons)
qed (use assms(1) in \<open>simp_all add: apart_append apart_Cons\<close>)

lemma apart_skip: "apart sep (before @ l # rest) \<Longrightarrow> apart sep (before @ rest)"
  by (simp add: apart_append apart_Cons)

lemma contained_rest:
  assumes "apart sep (before @ l # rest)" "rl_equalsHandle d l" "lo l \<le> lo d" "hi d \<le> hi l"
  shows "range_cut d rest = rest" "\<not> touches_own d rest"
proof -
  have none: "\<forall>y \<in> set rest. \<not> (rl_equalsHandle d y \<and> rl_overlaps d y)"
    using contained_alone [OF assms(1) _ assms(3,4)] assms(2) by (simp add: equalsHandle_handle)
  then show "range_cut d rest = rest" by (rule range_cut_none)
  from none show "\<not> touches_own d rest" by (auto simp: touches_own_def list_ex_iff)
qed

text \<open>One iteration: either the loop returns with the pieces, or it goes on behind them.\<close>

lemma unlockLoop_returns:
  assumes d: "rl_ok d" and apart: "apart sep (before @ l # rest)" and go: "go d l"
    and own: "rl_equalsHandle d l" and within: "lo l \<le> lo d" "hi d \<le> hi l"
  shows "unlockLoop lt go d before (l # rest) r = (before @ rl_cut d l @ rest, True, True)"
proof (cases "lo l = lo d \<and> hi d = hi l")
  case True
  then have "rl_overlapsEx d l = RangeOverlapType_EQUALS" and "rl_cut d l = []"
    using rl_ok_nat(1) [OF d] own by (simp_all add: overlapsEx_nat rl_cut_def overlaps_nat)
  with go own show ?thesis by simp
next
  case False
  have ov: "rl_overlaps d l" and t: "rl_overlapsEx d l = RangeOverlapType_ISCONTAINED"
    using False within rl_ok_nat(1) [OF d] by (auto simp: overlaps_nat overlapsEx_nat)
  have ok: "rl_ok l" using apart by (simp add: apart_append apart_Cons)
  have p: "shrinks p l" "rl_ok p" if "p \<in> set (rl_cut d l)" for p
    using that cut_shrinks [OF d] cut_ok [OF d ok] by blast+
  show ?thesis
  proof (cases "rl_start d = rl_start l \<or> rl_end d = rl_end l")
    case True
    with False within have c: "rl_cut d l = [rl_trim l d]"
      by (intro cut_trim [OF own ov]) auto
    note r = replace_piece [OF apart p, of "rl_trim l d"]
    show ?thesis
      using True go own t c insert_between [OF r(4,5) p(2) r(1,2)] by simp
  next
    case two: False
    with within have "lo l < lo d" "hi d < hi l" by (auto simp: order_less_le word_unat_eq_iff)
    from cut_split [OF own ov this] obtain p1 p2
      where c: "rl_cut d l = [p1, p2]" "rl_split l d = (p1, p2)" by (metis prod.collapse)
    note r1 = replace_piece [OF apart p, of p1] and r2 = replace_piece [OF apart p, of p2]
    have p12: "sep p1 p2" using cut_pieces_apart [OF d ok] c(1) by (simp add: apart_Cons)
    have "oset_insert lt p1 (before @ rest) = before @ p1 # rest"
      using c(1) insert_between [OF r1(4,5) p(2) r1(1,2)] by simp
    moreover have "oset_insert lt p2 ((before @ [p1]) @ rest) = (before @ [p1]) @ p2 # rest"
      using c(1) p12 r1 r2 by (intro insert_between [OF _ r2(5) p(2)]) (auto simp: apart_append apart_Cons)
    ultimately show ?thesis using two go own t c by simp
  qed
qed

lemma unlockLoop_continues:
  assumes d: "rl_ok d" and apart: "apart sep (before @ l # rest)" and go: "go d l"
    and partial: "\<not> (rl_equalsHandle d l \<and> lo l \<le> lo d \<and> hi d \<le> hi l)"
  shows "unlockLoop lt go d before (l # rest) r =
           unlockLoop lt go d (before @ rl_cut d l) rest (r \<or> rl_equalsHandle d l \<and> rl_overlaps d l)"
    and "apart sep ((before @ rl_cut d l) @ rest)"
proof -
  have ok: "rl_ok l" using apart by (simp add: apart_append apart_Cons)
  have p: "shrinks p l" "rl_ok p" if "p \<in> set (rl_cut d l)" for p
    using that cut_shrinks [OF d] cut_ok [OF d ok] by blast+
  note r = replace_piece [OF apart p]
  have parts: "apart sep before" "apart sep rest" "\<forall>a \<in> set before. \<forall>b \<in> set rest. sep a b"
    using apart by (simp_all add: apart_append apart_Cons)
  show "apart sep ((before @ rl_cut d l) @ rest)"
    using parts r(1,2) cut_pieces_apart [OF d ok] by (auto simp: apart_append)
  show "unlockLoop lt go d before (l # rest) r =
          unlockLoop lt go d (before @ rl_cut d l) rest (r \<or> rl_equalsHandle d l \<and> rl_overlaps d l)"
  proof (cases "rl_equalsHandle d l \<and> rl_overlaps d l")
    case False
    then show ?thesis
      using go cut_keep [OF False] overlapsEx_NONE [of d l] by (cases "rl_equalsHandle d l") auto
  next
    case own: True
    show ?thesis
    proof (cases "lo d \<le> lo l \<and> hi l \<le> hi d")
      case True
      with own partial have "rl_overlapsEx d l = RangeOverlapType_CONTAINS"
        by (auto simp: overlapsEx_nat overlaps_nat)
      with True own go show ?thesis using cut_all [of d l] by simp
    next
      case False
      with own partial have t: "rl_overlapsEx d l = RangeOverlapType_STARTOVERLAP \<or>
          rl_overlapsEx d l = RangeOverlapType_ENDOVERLAP"
        and "lo l < lo d \<longleftrightarrow> \<not> hi d < hi l"
        by (auto simp: overlapsEx_nat overlaps_nat)
      with own have c: "rl_cut d l = [rl_trim l d]" by (intro cut_trim) auto
      with own go t insert_at_between [OF parts(1,2) p(2) r(1,2), of "rl_trim l d"]
      show ?thesis by auto
    qed
  qed
qed

lemma unlockLoop_eq:
  assumes d: "rl_ok d" and "apart sep (before @ rest)"
  shows "unlockLoop lt go d before rest r =
           (before @ range_cut d rest, r \<or> touches_own d rest, within_own d rest)"
  using assms(2)
proof (induction rest arbitrary: before r)
  case Nil
  then show ?case by (simp add: range_cut_def touches_own_def within_own_def)
next
  case (Cons l rest)
  note apart = Cons.prems
  consider (stop) "\<not> go d l" | (return) "go d l" "rl_equalsHandle d l" "lo l \<le> lo d" "hi d \<le> hi l"
    | (behind) "go d l" "\<not> (rl_equalsHandle d l \<and> lo l \<le> lo d \<and> hi d \<le> hi l)" by blast
  then show ?case
  proof cases
    case stop
    have none: "\<forall>y \<in> set (l # rest). \<not> (rl_equalsHandle d y \<and> rl_overlaps d y)"
      by (rule go_stops_all [OF _ stop]) (use apart in \<open>simp add: apart_append\<close>)
    then have "\<not> touches_own d (l # rest)" by (auto simp: touches_own_def list_ex_iff)
    with stop range_cut_none [OF none] within_touches [OF d] show ?thesis by auto
  next
    case return
    moreover have "rl_overlaps d l"
      using return rl_ok_nat(1) [OF d] by (auto simp: overlaps_nat)
    ultimately show ?thesis
      using unlockLoop_returns [OF d apart return] contained_rest [OF apart return(2-4)]
      by (simp add: range_cut_def touches_own_Cons within_own_Cons)
  next
    case behind
    then have "within_own d (l # rest) = within_own d rest" by (auto simp: within_own_Cons)
    then show ?thesis
      unfolding unlockLoop_continues(1) [OF d apart behind]
        Cons.IH [OF unlockLoop_continues(2) [OF d apart behind]]
      by (simp add: range_cut_def touches_own_Cons)
  qed
qed

text \<open>Placing a lock: the own locks it overlaps or extends are merged into it.\<close>

lemma mergeLoop_far:
  assumes "rl_ok d" "apart sep ls" "\<forall>l \<in> set ls. rl_handle l = rl_handle d \<longrightarrow> hi d + 1 < lo l"
  shows "mergeLoop merge_go d ls = (d, ls)"
  using assms(2,3)
  by (induction ls) (auto simp: apart_Cons equalsHandle_handle isMergeable_nat assms(1))

lemma mergeLoop_extends:
  assumes "rl_ok d" "apart sep ls" "mergeLoop merge_go d ls = (d', ls')"
  shows "rl_ok d'" "rl_handle d' = rl_handle d" "rl_lockAckID d' = rl_lockAckID d"
    "rl_lockTypeFlags d' = rl_lockTypeFlags d" "lo d' \<le> lo d" "hi d \<le> hi d'"
    "set ls' \<subseteq> set ls" "apart sep ls'" "cov h (d' # ls') = cov h (d # ls)"
proof -
  have "rl_ok d' \<and> rl_handle d' = rl_handle d \<and> rl_lockAckID d' = rl_lockAckID d \<and>
    rl_lockTypeFlags d' = rl_lockTypeFlags d \<and> lo d' \<le> lo d \<and> hi d \<le> hi d' \<and>
    set ls' \<subseteq> set ls \<and> apart sep ls' \<and> cov h (d' # ls') = cov h (d # ls)"
    using assms
  proof (induction ls arbitrary: d d' ls')
    case (Cons l ls)
    consider (stop) "\<not> merge_go d l" | (merge) "merge_go d l" "rl_equalsHandle d l" "rl_isMergeable d l"
      | (skip) "merge_go d l" "\<not> (rl_equalsHandle d l \<and> rl_isMergeable d l)" by blast
    then show ?case
    proof cases
      case stop
      with Cons.prems show ?thesis by auto
    next
      case merge
      with Cons.prems Cons.IH [of "rl_merge d l" d' ls'] merge_range [of d l] show ?thesis
        by (auto simp: apart_Cons rl_ok_merge cov_Cons equalsHandle_handle)
    next
      case skip
      with Cons.prems obtain ls1 where m: "mergeLoop merge_go d ls = (d', ls1)" "ls' = l # ls1"
        by (auto split: prod.splits)
      with Cons.prems Cons.IH [of d d' ls1] show ?thesis
        by (auto simp: apart_Cons cov_Cons)
    qed
  qed simp
  then show "rl_ok d'" "rl_handle d' = rl_handle d" "rl_lockAckID d' = rl_lockAckID d"
    "rl_lockTypeFlags d' = rl_lockTypeFlags d" "lo d' \<le> lo d" "hi d \<le> hi d'"
    "set ls' \<subseteq> set ls" "apart sep ls'" "cov h (d' # ls') = cov h (d # ls)"
    by blast+
qed

lemma merged_range:
  assumes "rl_ok d" "apart sep ls" "mergeLoop merge_go d ls = (d', ls')"
  shows "rl_range d' \<subseteq> rl_range d \<union> cov (rl_handle d) ls"
  using mergeLoop_extends(2) [OF assms] mergeLoop_extends(9) [OF assms, of "rl_handle d"]
  by (auto simp: cov_Cons)

lemma merged_separate:
  assumes "rl_ok d" "apart sep ls" "mergeLoop merge_go d ls = (d', ls')"
  shows "\<forall>l \<in> set ls'. rl_handle l = rl_handle d \<longrightarrow> hi l + 1 < lo d' \<or> hi d' + 1 < lo l"
  using assms
proof (induction ls arbitrary: d d' ls')
  case (Cons l ls)
  note ext = mergeLoop_extends [OF Cons.prems]
  consider (stop) "\<not> merge_go d l" | (merge) "merge_go d l" "rl_equalsHandle d l" "rl_isMergeable d l"
    | (skip) "merge_go d l" "\<not> (rl_equalsHandle d l \<and> rl_isMergeable d l)" by blast
  then show ?case
  proof cases
    case stop
    with Cons.prems merge_go_stops [OF stop] show ?thesis by (auto simp: apart_Cons)
  next
    case merge
    with Cons.prems Cons.IH [of "rl_merge d l" d' ls'] show ?thesis
      by (auto simp: apart_Cons rl_ok_merge)
  next
    case skip
    with Cons.prems obtain ls1 where m: "mergeLoop merge_go d ls = (d', ls1)" "ls' = l # ls1"
      by (auto split: prod.splits)
    have ap: "rl_ok l" "apart sep ls" "\<forall>y \<in> set ls. sep l y" using Cons.prems(2) by (auto simp: apart_Cons)
    have "hi l + 1 < lo d' \<or> hi d' + 1 < lo l" if own: "rl_handle l = rl_handle d"
    proof (cases "hi l + 1 < lo d")
      case True
      have "lo d' \<in> rl_range d \<union> cov (rl_handle d) ls"
        using merged_range [OF Cons.prems(1) ap(2) m(1)] rl_ok_nat(1) [OF ext(1)]
        by (auto simp: rl_range_def)
      then show ?thesis
        using True ap(3) own sep_own [of l] by (fastforce simp: rl_range_def cov_def)
    next
      case False
      with skip own Cons.prems(1) ap(1) have far: "hi d + 1 < lo l"
        by (auto simp: equalsHandle_handle isMergeable_nat)
      then have "mergeLoop merge_go d ls = (d, ls)"
        using own ap(3) sep_own [of l] rl_ok_nat(1) [OF ap(1)]
        by (intro mergeLoop_far [OF Cons.prems(1) ap(2)]) fastforce
      with m far show ?thesis by simp
    qed
    with Cons.IH [OF Cons.prems(1) ap(2) m(1)] m(2) show ?thesis by auto
  qed
qed simp

lemma place_apart:
  assumes "apart sep ls" "rl_ok d" "\<forall>l \<in> set ls. sep l d \<or> sep d l"
  shows "apart sep (oset_insert lt d ls) \<and> set (oset_insert lt d ls) = insert d (set ls)"
  using assms
proof (induction ls)
  case (Cons l ls)
  then have l: "rl_ok l" "apart sep ls" "\<forall>y \<in> set ls. sep l y" "sep l d \<or> sep d l"
    by (auto simp: apart_Cons)
  show ?case
  proof (cases "lt d l")
    case True
    have "sep d y" if "y \<in> set (l # ls)" for y
    proof -
      have "rl_ok y" and "lt l y \<or> y = l"
        using that l apart_ok [of ls y] sep_lt [of l y] by auto
      then have "lt d y" using True lt_trans by blast
      then show ?thesis
        using that Cons.prems(3) sep_lt [OF \<open>rl_ok y\<close> Cons.prems(2)] lt_asym by blast
    qed
    with True Cons.prems show ?thesis by (auto simp: apart_Cons)
  next
    case False
    then have "sep l d" using l sep_lt [OF Cons.prems(2) l(1)] by blast
    with False l Cons show ?thesis by (auto simp: apart_Cons sep_lt)
  qed
qed (simp add: apart_Cons)

text \<open>The effect of placing a lock, for the handle and for the others.\<close>

lemma place_lock:
  assumes d: "rl_ok d" and ls: "apart sep ls" and m: "mergeLoop merge_go d ls = (d', ls')"
    and others: "\<forall>l \<in> set ls. rl_handle l \<noteq> rl_handle d \<longrightarrow> sep l d' \<or> sep d' l"
  shows "apart sep (oset_insert lt d' ls')"
    and "cov h (oset_insert lt d' ls') = cov h ls \<union> (if h = rl_handle d then rl_range d else {})"
    and "set (oset_insert lt d' ls') \<subseteq> insert d' (set ls)"
    and "d' \<in> set (oset_insert lt d' ls')"
proof -
  note ext = mergeLoop_extends [OF d ls m]
  have "sep l d' \<or> sep d' l" if "l \<in> set ls'" for l
    using that ext(2,7) others merged_separate [OF d ls m] own_sep [of l d'] own_sep [of d' l]
    by (metis subsetD)
  then have p: "apart sep (oset_insert lt d' ls')" "set (oset_insert lt d' ls') = insert d' (set ls')"
    using place_apart [OF ext(8,1)] by blast+
  then show "apart sep (oset_insert lt d' ls')" by blast
  show "cov h (oset_insert lt d' ls') = cov h ls \<union> (if h = rl_handle d then rl_range d else {})"
    using cov_insert [OF p(2)] ext(9) by (auto simp: cov_Cons)
  show "set (oset_insert lt d' ls') \<subseteq> insert d' (set ls)" "d' \<in> set (oset_insert lt d' ls')"
    using p(2) ext(7) by auto
qed

text \<open>A proper range is covered exactly when one own lock contains it.\<close>

lemma within_own_cov:
  assumes d: "rl_ok d" and ls: "apart sep ls"
  shows "within_own d ls \<longleftrightarrow> rl_range d \<subseteq> cov (rl_handle d) ls"
proof
  assume "within_own d ls"
  then show "rl_range d \<subseteq> cov (rl_handle d) ls"
    by (fastforce simp: within_own_def list_ex_iff equalsHandle_handle rl_range_def cov_def)
next
  assume sub: "rl_range d \<subseteq> cov (rl_handle d) ls"
  have "lo d \<in> rl_range d" using rl_ok_nat(1) [OF d] by (simp add: rl_range_def)
  with sub obtain l where l: "l \<in> set ls" "rl_handle l = rl_handle d" "lo l \<le> lo d" "lo d \<le> hi l"
    by (auto simp: cov_def rl_range_def)
  have "hi d \<le> hi l"
  proof (rule ccontr)
    assume "\<not> hi d \<le> hi l"
    then have "hi l + 1 \<in> rl_range d" using l by (simp add: rl_range_def)
    with sub obtain y where y: "y \<in> set ls" "rl_handle y = rl_handle d" "lo y \<le> hi l + 1" "hi l + 1 \<le> hi y"
      by (auto simp: cov_def rl_range_def)
    then have "y \<noteq> l" by auto
    with ls l(1) y(1) have "sep l y \<or> sep y l"
      by (induction ls) (auto simp: apart_Cons)
    with sep_own [of l y] sep_own [of y l] l y show False by auto
  qed
  with l show "within_own d ls"
    unfolding within_own_def list_ex_iff equalsHandle_handle by metis
qed

lemma isGrantedLoop_eq:
  assumes d: "rl_ok d" and "apart sep ls"
  shows "isGrantedLoop go d ls \<longleftrightarrow> within_own d ls"
  using assms(2)
proof (induction ls)
  case (Cons l ls)
  show ?case
  proof (cases "go d l")
    case False
    then have "\<not> touches_own d (l # ls)"
      using go_stops_all [OF Cons.prems] by (auto simp: touches_own_def list_ex_iff)
    with False within_touches [OF d] show ?thesis by auto
  next
    case go: True
    have alone: "\<not> within_own d ls" if "rl_equalsHandle d l" "rl_overlaps d l"
    proof
      assume "within_own d ls"
      then obtain y where "y \<in> set ls" "rl_handle y = rl_handle d" "lo y \<le> lo d"
        by (auto simp: within_own_def list_ex_iff equalsHandle_handle)
      then show False
        using Cons.prems sep_own [of l y] that by (auto simp: apart_Cons equalsHandle_handle overlaps_nat)
    qed
    have "lo d \<le> hi d" using d by (rule rl_ok_nat)
    then show ?thesis
      using go Cons alone
      by (auto simp: within_own_Cons apart_Cons overlapsEx_nat overlaps_nat)
  qed
qed (simp add: within_own_def)

end

section \<open>The two sets of the code\<close>

definition excl_sep :: "RangeLockDetails \<Rightarrow> RangeLockDetails \<Rightarrow> bool" where
  "excl_sep a b \<longleftrightarrow> hi a < lo b \<and> (rl_handle a = rl_handle b \<longrightarrow> hi a + 1 < lo b)"

definition shared_sep :: "RangeLockDetails \<Rightarrow> RangeLockDetails \<Rightarrow> bool" where
  "shared_sep a b \<longleftrightarrow>
     (if rl_handle a = rl_handle b then hi a + 1 < lo b
      else rl_ownerPID a <s rl_ownerPID b \<or>
           rl_ownerPID a = rl_ownerPID b \<and> rl_clientNumID a < rl_clientNumID b)"

lemma shared_sep_total: "rl_handle a \<noteq> rl_handle b \<Longrightarrow> shared_sep a b \<or> shared_sep b a"
  by (auto simp: shared_sep_def rl_handle_def dest: signed.not_less_iff_gr_or_eq [THEN iffD1])

interpretation excl_set: range_lock_set rl_lt_excl excl_sep excl_go excl_merge_go
proof unfold_locales
  fix d l y assume "\<not> excl_go d l" "rl_ok l" "y = l \<or> excl_sep l y"
  then show "hi d < lo y"
    using rl_ok_nat(1) [of l] by (auto simp: excl_go_def excl_sep_def word_le_nat_alt)
next
  fix d l y assume "\<not> excl_merge_go d l" "rl_ok d" "rl_ok l" "y = l \<or> excl_sep l y"
  then show "hi d + 1 < lo y"
    using rl_ok_nat(1) [of l] rl_ok_nat(2) [of d]
    by (auto simp: excl_merge_go_def excl_sep_def word_le_nat_alt)
qed (auto simp: excl_sep_def rl_lt_excl_def word_less_nat_alt shrinks_def dest!: rl_ok_nat(1))

interpretation shared_set: range_lock_set rl_lt_shared shared_sep "\<lambda>_ _. True" "\<lambda>_ _. True"
proof unfold_locales
  fix a b assume "rl_ok a" "shared_sep a b"
  then show "rl_lt_shared a b"
    using rl_ok_nat(1) [of a]
    by (auto simp: shared_sep_def rl_lt_shared_def rl_handle_def word_less_nat_alt split: if_splits)
qed (auto simp: shared_sep_def shrinks_def rl_handle_def split: if_splits)

end
