(* ===== verification/Range_Lock_Effects.thy ===== *)
theory Range_Lock_Effects
  imports Range_Coverage
begin

text \<open>
  The invariants of the range lock component and the effect of every operation on the locked
  bytes of every handle: the conflict check, placing a lock, unlocking, granting waiters.
\<close>

section \<open>Invariants\<close>

definition exclCov :: "RangeLockState \<Rightarrow> range_handle \<Rightarrow> nat set" where
  "exclCov q h = cov h (exclRangeFLocks q)"

definition sharedCov :: "RangeLockState \<Rightarrow> range_handle \<Rightarrow> nat set" where
  "sharedCov q h = cov h (sharedRangeFLocks q)"

text \<open>The locks: both sets are kept apart, no handle reads what another one writes.\<close>

definition locks_wf :: "RangeLockState \<Rightarrow> bool" where
  "locks_wf q \<longleftrightarrow>
     apart excl_sep (exclRangeFLocks q) \<and> apart shared_sep (sharedRangeFLocks q) \<and>
     (\<forall>h h'. h \<noteq> h' \<longrightarrow> exclCov q h \<inter> sharedCov q h' = {})"

text \<open>The queues: proper requests of the right kind, and the exact set of their IDs.\<close>

definition queues_wf :: "RangeLockState \<Rightarrow> bool" where
  "queues_wf q \<longleftrightarrow>
     list_all (\<lambda>w. rl_ok w \<and> rl_isExclusive w) (waitersExclRangeFLock q) \<and>
     list_all (\<lambda>w. rl_ok w \<and> rl_isShared w \<and> \<not> rl_isExclusive w) (waitersSharedRangeFLock q) \<and>
     distinct (map rl_lockAckID (waitersExclRangeFLock q @ waitersSharedRangeFLock q)) \<and>
     waitersLockIDsRangeFLock q =
       rl_lockAckID ` set (waitersExclRangeFLock q @ waitersSharedRangeFLock q)"

text \<open>A request is blocked by bytes another handle holds or by an earlier waiting writer.\<close>

definition blocked :: "RangeLockDetails \<Rightarrow> RangeLockDetails list \<Rightarrow> RangeLockState \<Rightarrow> bool" where
  "blocked d ws q \<longleftrightarrow>
     (\<exists>h. h \<noteq> rl_handle d \<and>
          (rl_range d \<inter> exclCov q h \<noteq> {} \<or> rl_isExclusive d \<and> rl_range d \<inter> sharedCov q h \<noteq> {}))
     \<or> (\<exists>w \<in> set ws. rl_handle w \<noteq> rl_handle d \<and> rl_range d \<inter> rl_range w \<noteq> {})"

text \<open>No lost wakeup: every waiting request is blocked.\<close>

definition range_live :: "RangeLockState \<Rightarrow> bool" where
  "range_live q \<longleftrightarrow>
     (\<forall>i < length (waitersExclRangeFLock q).
        blocked (waitersExclRangeFLock q ! i) (take i (waitersExclRangeFLock q)) q) \<and>
     (\<forall>w \<in> set (waitersSharedRangeFLock q). blocked w (waitersExclRangeFLock q) q)"

section \<open>Conflicts\<close>

lemma conflictsWith_range:
  "rl_ok d \<Longrightarrow> rl_ok l \<Longrightarrow>
     conflictsWith d l \<longleftrightarrow> rl_handle l \<noteq> rl_handle d \<and> rl_range d \<inter> rl_range l \<noteq> {}"
  by (auto simp: conflictsWith_def overlaps_range equalsHandle_handle)

lemma find_conflict_cov:
  assumes "rl_ok d" "list_all rl_ok ls"
  shows "find (conflictsWith d) ls \<noteq> None \<longleftrightarrow>
           (\<exists>h. h \<noteq> rl_handle d \<and> rl_range d \<inter> cov h ls \<noteq> {})"
proof -
  have "find (conflictsWith d) ls \<noteq> None \<longleftrightarrow>
      (\<exists>l \<in> set ls. rl_handle l \<noteq> rl_handle d \<and> rl_range d \<inter> rl_range l \<noteq> {})"
    using assms by (auto simp: find_None_iff conflictsWith_range list_all_iff)
  also have "\<dots> \<longleftrightarrow> (\<exists>h. h \<noteq> rl_handle d \<and> rl_range d \<inter> cov h ls \<noteq> {})"
    unfolding cov_def by blast
  finally show ?thesis .
qed

text \<open>The exclusive locks are ordered by their start: the loop may stop behind the range.\<close>

lemma find_conflict_stop:
  assumes "apart excl_sep ls"
  shows "find (conflictsWith d) (takeWhile (\<lambda>l. rl_start l \<le> rl_end d) ls) = find (conflictsWith d) ls"
  using assms
proof (induction ls)
  case (Cons l ls)
  show ?case
  proof (cases "rl_start l \<le> rl_end d")
    case False
    have "hi d < lo y" if "y \<in> set (l # ls)" for y
    proof -
      have "rl_ok l" and "y = l \<or> excl_sep l y"
        using that Cons.prems by (auto simp: excl_set.apart_Cons)
      with False rl_ok_nat(1) [of l] show ?thesis by (auto simp: excl_sep_def word_le_nat_alt)
    qed
    then have "find (conflictsWith d) (l # ls) = None"
      by (auto simp: find_None_iff conflictsWith_def overlaps_nat)
    with False show ?thesis by simp
  qed (use Cons in \<open>simp add: excl_set.apart_Cons\<close>)
qed simp

lemma checkExclWaiters_all: "n < 0 \<Longrightarrow> checkExclWaiters d n ws = find (conflictsWith d) ws"
  by (induction ws arbitrary: n) auto

lemma checkExclWaiters_some: "checkExclWaiters d (int k) ws = find (conflictsWith d) (take k ws)"
proof (induction ws arbitrary: k)
  case (Cons w ws)
  then show ?case by (cases k) auto
qed simp

lemma find_conflict_waiters:
  assumes "rl_ok d" "list_all (\<lambda>w. rl_ok w \<and> rl_isExclusive w) ws"
  shows "find (conflictsWith d) ws \<noteq> None \<longleftrightarrow>
           (\<exists>w \<in> set ws. rl_handle w \<noteq> rl_handle d \<and> rl_range d \<inter> rl_range w \<noteq> {})"
  using assms by (auto simp: find_None_iff conflictsWith_range list_all_iff)

lemma checkConflictsEx_blocked:
  assumes "locks_wf q" "rl_ok d"
    and "checkExclWaiters d n (waitersExclRangeFLock q) = find (conflictsWith d) ws"
    and "list_all (\<lambda>w. rl_ok w \<and> rl_isExclusive w) ws"
  shows "flockRangeCheckConflictsEx d n q \<noteq> None \<longleftrightarrow> blocked d ws q"
proof -
  have ok: "list_all rl_ok (exclRangeFLocks q)" "list_all rl_ok (sharedRangeFLocks q)"
    and apart: "apart excl_sep (exclRangeFLocks q)"
    using assms(1) by (auto simp: locks_wf_def apart_def)
  note f = find_conflict_cov [OF assms(2) ok(1)] find_conflict_cov [OF assms(2) ok(2)]
    find_conflict_waiters [OF assms(2,4)]
  have "flockRangeCheckConflictsEx d n q \<noteq> None \<longleftrightarrow>
      find (conflictsWith d) (exclRangeFLocks q) \<noteq> None \<or>
      rl_isExclusive d \<and> find (conflictsWith d) (sharedRangeFLocks q) \<noteq> None \<or>
      find (conflictsWith d) ws \<noteq> None"
    using assms(3) find_conflict_stop [OF apart]
    by (simp add: flockRangeCheckConflictsEx_def split: option.splits)
  then show ?thesis
    unfolding f blocked_def exclCov_def sharedCov_def by blast
qed

lemma checkConflicts_blocked:
  assumes "locks_wf q" "queues_wf q" "rl_ok d"
  shows "flockRangeCheckConflicts d q \<noteq> None \<longleftrightarrow> blocked d (waitersExclRangeFLock q) q"
  unfolding flockRangeCheckConflicts_def
  using assms by (intro checkConflictsEx_blocked) (auto simp: checkExclWaiters_all queues_wf_def)

lemma checkConflicts_blocked_take:
  assumes "locks_wf q" "queues_wf q" "rl_ok d"
  shows "flockRangeCheckConflictsEx d (int k) q \<noteq> None \<longleftrightarrow>
           blocked d (take k (waitersExclRangeFLock q)) q"
  using assms
  by (intro checkConflictsEx_blocked)
     (auto simp: checkExclWaiters_some queues_wf_def list_all_iff dest: in_set_takeD)

lemma blocked_mono:
  assumes "blocked d ws q" "\<forall>h. exclCov q h \<subseteq> exclCov q' h" "\<forall>h. sharedCov q h \<subseteq> sharedCov q' h"
  shows "blocked d ws q'"
  using assms unfolding blocked_def by blast

section \<open>Effect of the operations on the locked bytes\<close>

lemma excl_cov_disjoint:
  assumes "apart excl_sep ls" "h \<noteq> h'"
  shows "cov h ls \<inter> cov h' ls = {}"
  using assms
proof (induction ls)
  case (Cons l ls)
  have "rl_range l \<inter> rl_range y = {}" if "y \<in> set ls" for y
  proof -
    have "excl_sep l y" using that Cons.prems by (simp add: excl_set.apart_Cons)
    then show ?thesis by (auto simp: excl_sep_def rl_range_def)
  qed
  then have "rl_range l \<inter> cov k ls = {}" for k by (auto simp: cov_def)
  with Cons show ?case by (auto simp: cov_Cons excl_set.apart_Cons)
qed simp

lemma flockRangeExclusive_effect:
  assumes wf: "locks_wf q" and d: "rl_ok d"
    and free: "\<forall>h. h \<noteq> rl_handle d \<longrightarrow>
                 rl_range d \<inter> exclCov q h = {} \<and> rl_range d \<inter> sharedCov q h = {}"
    and res: "flockRangeExclusive d q = (d', q')"
  shows "locks_wf q'"
    and "exclCov q' h = exclCov q h \<union> (if h = rl_handle d then rl_range d else {})"
    and "q' = q\<lparr>exclRangeFLocks := exclRangeFLocks q'\<rparr>"
    and "rl_lockAckID d' = rl_lockAckID d" "rl_handle d' = rl_handle d" "d' \<in> set (exclRangeFLocks q')"
proof -
  obtain ls where m: "mergeLoop excl_merge_go d (exclRangeFLocks q) = (d', ls)"
    and q': "q' = q\<lparr>exclRangeFLocks := oset_insert rl_lt_excl d' ls\<rparr>"
    using res by (auto simp: flockRangeExclusive_def split: prod.splits)
  have apart: "apart excl_sep (exclRangeFLocks q)" using wf by (simp add: locks_wf_def)
  note ext = excl_set.mergeLoop_extends [OF d apart m]
  have "excl_sep l d' \<or> excl_sep d' l"
    if l: "l \<in> set (exclRangeFLocks q)" "rl_handle l \<noteq> rl_handle d" for l
  proof -
    have "rl_range l \<subseteq> exclCov q (rl_handle l)" using l(1) by (auto simp: exclCov_def cov_def)
    moreover have "rl_range d' \<subseteq> rl_range d \<union> exclCov q (rl_handle d)"
      using excl_set.merged_range [OF d apart m] by (simp add: exclCov_def)
    ultimately have "rl_range d' \<inter> rl_range l = {}"
      using free l(2) excl_cov_disjoint [OF apart l(2)] unfolding exclCov_def by blast
    then show ?thesis
      using l ext(2) overlaps_range [OF ext(1) excl_set.apart_ok [OF apart l(1)]]
      by (auto simp: excl_sep_def overlaps_nat)
  qed
  note place = excl_set.place_lock [OF d apart m, OF ballI, OF impI, OF this]
  show cov: "exclCov q' h = exclCov q h \<union> (if h = rl_handle d then rl_range d else {})" for h
    using place(2) by (simp add: q' exclCov_def)
  have shared: "sharedCov q' = sharedCov q" by (auto simp: q' sharedCov_def)
  have "exclCov q' h \<inter> sharedCov q' h' = {}" if "h \<noteq> h'" for h h'
  proof -
    have "exclCov q h \<inter> sharedCov q h' = {}" using wf that unfolding locks_wf_def by blast
    moreover have "h = rl_handle d \<Longrightarrow> rl_range d \<inter> sharedCov q h' = {}" using free that by metis
    ultimately show ?thesis unfolding cov shared by auto
  qed
  then show "locks_wf q'" using wf place(1) by (simp add: locks_wf_def q')
  show "q' = q\<lparr>exclRangeFLocks := exclRangeFLocks q'\<rparr>" by (simp add: q')
  show "rl_lockAckID d' = rl_lockAckID d" "rl_handle d' = rl_handle d" by (fact ext(3,2))+
  show "d' \<in> set (exclRangeFLocks q')" using place(4) by (simp add: q')
qed

lemma flockRangeShared_effect:
  assumes wf: "locks_wf q" and d: "rl_ok d"
    and free: "\<forall>h. h \<noteq> rl_handle d \<longrightarrow> rl_range d \<inter> exclCov q h = {}"
    and res: "flockRangeShared d q = (d', q')"
  shows "locks_wf q'"
    and "sharedCov q' h = sharedCov q h \<union> (if h = rl_handle d then rl_range d else {})"
    and "q' = q\<lparr>sharedRangeFLocks := sharedRangeFLocks q'\<rparr>"
    and "rl_lockAckID d' = rl_lockAckID d" "rl_handle d' = rl_handle d" "d' \<in> set (sharedRangeFLocks q')"
proof -
  obtain ls where m: "mergeLoop (\<lambda>_ _. True) d (sharedRangeFLocks q) = (d', ls)"
    and q': "q' = q\<lparr>sharedRangeFLocks := oset_insert rl_lt_shared d' ls\<rparr>"
    using res by (auto simp: flockRangeShared_def split: prod.splits)
  have apart: "apart shared_sep (sharedRangeFLocks q)" using wf by (simp add: locks_wf_def)
  note ext = shared_set.mergeLoop_extends [OF d apart m]
  have "shared_sep l d' \<or> shared_sep d' l"
    if "l \<in> set (sharedRangeFLocks q)" "rl_handle l \<noteq> rl_handle d" for l
    using that ext(2) by (intro shared_sep_total) simp
  note place = shared_set.place_lock [OF d apart m, OF ballI, OF impI, OF this]
  show cov: "sharedCov q' h = sharedCov q h \<union> (if h = rl_handle d then rl_range d else {})" for h
    using place(2) by (simp add: q' sharedCov_def)
  have excl: "exclCov q' = exclCov q" by (auto simp: q' exclCov_def)
  have "exclCov q' h \<inter> sharedCov q' h' = {}" if "h \<noteq> h'" for h h'
  proof -
    have "exclCov q h \<inter> sharedCov q h' = {}" using wf that unfolding locks_wf_def by blast
    moreover have "h' = rl_handle d \<Longrightarrow> rl_range d \<inter> exclCov q h = {}" using free that by blast
    ultimately show ?thesis unfolding cov excl by auto
  qed
  then show "locks_wf q'" using wf place(1) by (simp add: locks_wf_def q')
  show "q' = q\<lparr>sharedRangeFLocks := sharedRangeFLocks q'\<rparr>" by (simp add: q')
  show "rl_lockAckID d' = rl_lockAckID d" "rl_handle d' = rl_handle d" by (fact ext(3,2))+
  show "d' \<in> set (sharedRangeFLocks q')" using place(4) by (simp add: q')
qed

lemma flockRangeUnlock_eq:
  assumes "locks_wf q" and d: "rl_ok d"
  shows "flockRangeUnlock d q =
     (touches_own d (exclRangeFLocks q) \<or> touches_own d (sharedRangeFLocks q),
      q\<lparr>exclRangeFLocks := range_cut d (exclRangeFLocks q),
        sharedRangeFLocks :=
          (if within_own d (exclRangeFLocks q) then sharedRangeFLocks q
           else range_cut d (sharedRangeFLocks q))\<rparr>)"
proof -
  have "apart excl_sep ([] @ exclRangeFLocks q)" "apart shared_sep ([] @ sharedRangeFLocks q)"
    using assms(1) by (simp_all add: locks_wf_def)
  note u = excl_set.unlockLoop_eq [OF d this(1)] shared_set.unlockLoop_eq [OF d this(2)]
  show ?thesis
    using within_touches [OF d, of "exclRangeFLocks q"] by (auto simp: flockRangeUnlock_def u)
qed

lemma flockRangeUnlock_effect:
  assumes wf: "locks_wf q" and d: "rl_ok d" and res: "flockRangeUnlock d q = (t, q')"
  shows "locks_wf q'"
    and "exclCov q' h = exclCov q h - (if h = rl_handle d then rl_range d else {})"
    and "sharedCov q' h =
           sharedCov q h -
             (if h = rl_handle d \<and> \<not> rl_range d \<subseteq> exclCov q h then rl_range d else {})"
    and "q' = q\<lparr>exclRangeFLocks := exclRangeFLocks q', sharedRangeFLocks := sharedRangeFLocks q'\<rparr>"
    and "\<not> t \<Longrightarrow> q' = q"
proof -
  have apart: "apart excl_sep (exclRangeFLocks q)" "apart shared_sep (sharedRangeFLocks q)"
    using wf by (simp_all add: locks_wf_def)
  have ok: "list_all rl_ok (exclRangeFLocks q)" "list_all rl_ok (sharedRangeFLocks q)"
    using apart by (simp_all add: apart_def)
  have q': "q' = snd (flockRangeUnlock d q)" and t: "t = fst (flockRangeUnlock d q)"
    using res by simp_all
  show ex: "exclCov q' h = exclCov q h - (if h = rl_handle d then rl_range d else {})" for h
    using range_cut_cov [OF d ok(1)] by (simp add: q' flockRangeUnlock_eq [OF wf d] exclCov_def)
  have within: "within_own d (exclRangeFLocks q) \<longleftrightarrow> rl_range d \<subseteq> exclCov q (rl_handle d)"
    using excl_set.within_own_cov [OF d apart(1)] by (simp add: exclCov_def)
  show sh: "sharedCov q' h =
      sharedCov q h - (if h = rl_handle d \<and> \<not> rl_range d \<subseteq> exclCov q h then rl_range d else {})" for h
    using range_cut_cov [OF d ok(2)] within
    by (auto simp: q' flockRangeUnlock_eq [OF wf d] sharedCov_def)
  have "apart excl_sep (exclRangeFLocks q')" "apart shared_sep (sharedRangeFLocks q')"
    using excl_set.range_cut_apart [OF d apart(1)] shared_set.range_cut_apart [OF d apart(2)] apart(2)
    by (simp_all add: q' flockRangeUnlock_eq [OF wf d])
  moreover have "exclCov q' h \<inter> sharedCov q' h' = {}" if "h \<noteq> h'" for h h'
    using wf that unfolding locks_wf_def ex sh by blast
  ultimately show "locks_wf q'" by (simp add: locks_wf_def)
  show "q' = q\<lparr>exclRangeFLocks := exclRangeFLocks q', sharedRangeFLocks := sharedRangeFLocks q'\<rparr>"
    by (simp add: q' flockRangeUnlock_eq [OF wf d])
  show "q' = q" if "\<not> t"
  proof -
    have "\<forall>l \<in> set (exclRangeFLocks q) \<union> set (sharedRangeFLocks q).
        \<not> (rl_equalsHandle d l \<and> rl_overlaps d l)"
      using that by (auto simp: t flockRangeUnlock_eq [OF wf d] touches_own_def list_ex_iff)
    then show ?thesis by (simp add: q' flockRangeUnlock_eq [OF wf d] range_cut_none)
  qed
qed

section \<open>Granting waiters\<close>

text \<open>
  What a waiter loop keeps and reaches: the locked bytes only grow, the queue invariant holds,
  every waiter it dropped from the queue now holds its range, every other one is blocked.
\<close>

definition grows :: "RangeLockState \<Rightarrow> RangeLockState \<Rightarrow> bool" where
  "grows q q' \<longleftrightarrow> (\<forall>h. exclCov q h \<subseteq> exclCov q' h) \<and> (\<forall>h. sharedCov q h \<subseteq> sharedCov q' h)"

lemma grows_refl [simp]: "grows q q"
  by (simp add: grows_def)

lemma grows_trans: "grows q q1 \<Longrightarrow> grows q1 q2 \<Longrightarrow> grows q q2"
  unfolding grows_def by blast

lemma blocked_grows: "blocked d ws q \<Longrightarrow> grows q q' \<Longrightarrow> blocked d ws q'"
  using blocked_mono unfolding grows_def by blast

lemma blocked_cong:
  "exclRangeFLocks q' = exclRangeFLocks q \<Longrightarrow> sharedRangeFLocks q' = sharedRangeFLocks q \<Longrightarrow>
     blocked d ws q' = blocked d ws q"
  by (simp add: blocked_def exclCov_def sharedCov_def)

definition blocked_queue :: "RangeLockDetails list \<Rightarrow> RangeLockState \<Rightarrow> bool" where
  "blocked_queue ws q \<longleftrightarrow> (\<forall>i < length ws. blocked (ws ! i) (take i ws) q)"

lemma blocked_queue_snoc:
  "blocked_queue (ws @ [w]) q \<longleftrightarrow> blocked_queue ws q \<and> blocked w ws q"
  by (auto simp: blocked_queue_def less_Suc_eq nth_append)

lemma blocked_queue_grows: "blocked_queue ws q \<Longrightarrow> grows q q' \<Longrightarrow> blocked_queue ws q'"
  using blocked_grows unfolding blocked_queue_def by blast

lemma range_live_queue:
  "range_live q \<longleftrightarrow> blocked_queue (waitersExclRangeFLock q) q \<and>
     (\<forall>w \<in> set (waitersSharedRangeFLock q). blocked w (waitersExclRangeFLock q) q)"
  by (simp add: range_live_def blocked_queue_def)

lemma erase_nth_append [simp]: "erase_nth (length xs) (xs @ y # ys) = xs @ ys"
  by (simp add: erase_nth_def)

lemma queues_wf_drop_excl:
  assumes "queues_wf q" "waitersExclRangeFLock q = pre @ w # ws"
  shows "queues_wf (q\<lparr>waitersLockIDsRangeFLock := waitersLockIDsRangeFLock q - {rl_lockAckID w},
                     waitersExclRangeFLock := pre @ ws\<rparr>)"
  using assms by (auto simp: queues_wf_def image_iff)

lemma queues_wf_drop_shared:
  assumes "queues_wf q" "waitersSharedRangeFLock q = pre @ w # ws"
  shows "queues_wf (q\<lparr>waitersLockIDsRangeFLock := waitersLockIDsRangeFLock q - {rl_lockAckID w},
                     waitersSharedRangeFLock := pre @ ws\<rparr>)"
  using assms by (auto simp: queues_wf_def image_iff)

lemma queues_wf_locks [simp]:
  "queues_wf (q\<lparr>exclRangeFLocks := x\<rparr>) = queues_wf q"
  "queues_wf (q\<lparr>sharedRangeFLocks := x\<rparr>) = queues_wf q"
  by (simp_all add: queues_wf_def)

lemma locks_wf_queues [simp]:
  "locks_wf (q\<lparr>waitersLockIDsRangeFLock := a, waitersExclRangeFLock := b\<rparr>) = locks_wf q"
  "locks_wf (q\<lparr>waitersLockIDsRangeFLock := a, waitersSharedRangeFLock := b\<rparr>) = locks_wf q"
  by (simp_all add: locks_wf_def exclCov_def sharedCov_def)

text \<open>
  The contract of granting: the invariants hold, the locked bytes grow, a waiter stays in its
  queue or holds its range now, the notified requests are exactly those that left, each
  holding the range it was notified of, and no bytes are locked that no waiter asked for.
\<close>

definition lockedBytes :: "RangeLockState \<Rightarrow> range_handle \<Rightarrow> nat set" where
  "lockedBytes q h = exclCov q h \<union> sharedCov q h"

definition grant_result ::
    "RangeLockState \<Rightarrow> RangeLockDetails list \<Rightarrow> RangeLockState \<Rightarrow> bool" where
  "grant_result q new q' \<longleftrightarrow>
     locks_wf q' \<and> queues_wf q' \<and> grows q q' \<and>
     set (waitersExclRangeFLock q') \<subseteq> set (waitersExclRangeFLock q) \<and>
     set (waitersSharedRangeFLock q') \<subseteq> set (waitersSharedRangeFLock q) \<and>
     (\<forall>w \<in> set (waitersExclRangeFLock q).
        w \<in> set (waitersExclRangeFLock q') \<or> rl_range w \<subseteq> exclCov q' (rl_handle w)) \<and>
     (\<forall>w \<in> set (waitersSharedRangeFLock q).
        w \<in> set (waitersSharedRangeFLock q') \<or> rl_range w \<subseteq> sharedCov q' (rl_handle w)) \<and>
     waitersLockIDsRangeFLock q' \<subseteq> waitersLockIDsRangeFLock q \<and>
     rl_lockAckID ` set new = waitersLockIDsRangeFLock q - waitersLockIDsRangeFLock q' \<and>
     (\<forall>n \<in> set new. rl_range n \<subseteq> lockedBytes q' (rl_handle n)) \<and>
     (\<forall>h. lockedBytes q' h \<subseteq>
        lockedBytes q h \<union> cov h (waitersExclRangeFLock q @ waitersSharedRangeFLock q))"

lemma grant_result_refl: "locks_wf q \<Longrightarrow> queues_wf q \<Longrightarrow> grant_result q [] q"
  by (simp add: grant_result_def)

lemma lockedBytes_grows: "grows q q' \<Longrightarrow> lockedBytes q h \<subseteq> lockedBytes q' h"
  unfolding grows_def lockedBytes_def by blast

lemma grant_resultD:
  assumes "grant_result q new q'"
  shows "locks_wf q'" "queues_wf q'" "grows q q'"
    "set (waitersExclRangeFLock q') \<subseteq> set (waitersExclRangeFLock q)"
    "set (waitersSharedRangeFLock q') \<subseteq> set (waitersSharedRangeFLock q)"
    "waitersLockIDsRangeFLock q' \<subseteq> waitersLockIDsRangeFLock q"
    "rl_lockAckID ` set new = waitersLockIDsRangeFLock q - waitersLockIDsRangeFLock q'"
    "n \<in> set new \<Longrightarrow> rl_range n \<subseteq> lockedBytes q' (rl_handle n)"
    "w \<in> set (waitersExclRangeFLock q) \<Longrightarrow>
       w \<in> set (waitersExclRangeFLock q') \<or> rl_range w \<subseteq> exclCov q' (rl_handle w)"
    "w \<in> set (waitersSharedRangeFLock q) \<Longrightarrow>
       w \<in> set (waitersSharedRangeFLock q') \<or> rl_range w \<subseteq> sharedCov q' (rl_handle w)"
    "lockedBytes q' h \<subseteq>
       lockedBytes q h \<union> cov h (waitersExclRangeFLock q @ waitersSharedRangeFLock q)"
  using assms by (simp_all add: grant_result_def)

lemma grant_result_trans:
  assumes a: "grant_result q ns q1" and b: "grant_result q1 ns' q2"
  shows "grant_result q (ns @ ns') q2"
proof -
  note a = grant_resultD [OF a] and b = grant_resultD [OF b]
  have ex: "exclCov q1 h \<subseteq> exclCov q2 h" and sh: "sharedCov q1 h \<subseteq> sharedCov q2 h"
    and lk: "lockedBytes q1 h \<subseteq> lockedBytes q2 h" for h
    using b(3) lockedBytes_grows [OF b(3)] by (simp_all add: grows_def)
  have "rl_lockAckID ` set (ns @ ns') = waitersLockIDsRangeFLock q - waitersLockIDsRangeFLock q2"
    using a(6,7) b(6,7) by (auto simp: image_Un)
  moreover have "rl_range n \<subseteq> lockedBytes q2 (rl_handle n)" if "n \<in> set (ns @ ns')" for n
    using that a(8) [of n] b(8) [of n] lk [of "rl_handle n"] by auto
  moreover have "w \<in> set (waitersExclRangeFLock q2) \<or> rl_range w \<subseteq> exclCov q2 (rl_handle w)"
    if "w \<in> set (waitersExclRangeFLock q)" for w
    using a(9) [OF that] b(9) [of w] ex [of "rl_handle w"] by blast
  moreover have "w \<in> set (waitersSharedRangeFLock q2) \<or> rl_range w \<subseteq> sharedCov q2 (rl_handle w)"
    if "w \<in> set (waitersSharedRangeFLock q)" for w
    using a(10) [OF that] b(10) [of w] sh [of "rl_handle w"] by blast
  moreover have "lockedBytes q2 h \<subseteq>
      lockedBytes q h \<union> cov h (waitersExclRangeFLock q @ waitersSharedRangeFLock q)" for h
    using a(11) [of h] b(11) [of h] cov_mono [OF a(4), of h] cov_mono [OF a(5), of h] by auto
  ultimately show ?thesis
    using b(1,2) grows_trans [OF a(3) b(3)] order_trans [OF b(4) a(4)] order_trans [OF b(5) a(5)]
      order_trans [OF b(6) a(6)]
    unfolding grant_result_def by simp
qed

lemma queues_wf_ids:
  "queues_wf q \<Longrightarrow> waitersLockIDsRangeFLock q =
     rl_lockAckID ` set (waitersExclRangeFLock q) \<union> rl_lockAckID ` set (waitersSharedRangeFLock q)"
  by (simp add: queues_wf_def image_Un)

lemma held_excl: "l \<in> set (exclRangeFLocks q) \<Longrightarrow> rl_range l \<subseteq> lockedBytes q (rl_handle l)"
  by (auto simp: lockedBytes_def exclCov_def cov_def)

lemma held_shared: "l \<in> set (sharedRangeFLocks q) \<Longrightarrow> rl_range l \<subseteq> lockedBytes q (rl_handle l)"
  by (auto simp: lockedBytes_def sharedCov_def cov_def)

lemma grant_excl_step:
  assumes wf: "locks_wf q" "queues_wf q" and ws: "waitersExclRangeFLock q = pre @ w # ws"
    and free: "\<not> blocked w ws' q" and res: "flockRangeExclusive w q = (w', q1)"
    and q2: "q2 = q1\<lparr>waitersLockIDsRangeFLock := waitersLockIDsRangeFLock q1 - {rl_lockAckID w'},
                     waitersExclRangeFLock := erase_nth (length pre) (waitersExclRangeFLock q1)\<rparr>"
  shows "waitersExclRangeFLock q2 = pre @ ws" "waitersSharedRangeFLock q2 = waitersSharedRangeFLock q"
    "grant_result q [w'] q2"
proof -
  have w: "rl_ok w" "rl_isExclusive w" using wf(2) ws by (auto simp: queues_wf_def)
  have free': "\<forall>h. h \<noteq> rl_handle w \<longrightarrow>
      rl_range w \<inter> exclCov q h = {} \<and> rl_range w \<inter> sharedCov q h = {}"
    using free w(2) by (auto simp: blocked_def)
  note e = flockRangeExclusive_effect [OF wf(1) w(1) free' res]
  obtain x where q1: "q1 = q\<lparr>exclRangeFLocks := x\<rparr>" using e(3) by blast
  show shape: "waitersExclRangeFLock q2 = pre @ ws" "waitersSharedRangeFLock q2 = waitersSharedRangeFLock q"
    using ws by (auto simp: q2 q1)
  have cov: "exclCov q2 = exclCov q1" "sharedCov q2 = sharedCov q"
    by (simp_all add: fun_eq_iff q2 q1 exclCov_def sharedCov_def)
  have "locks_wf q2" using e(1) by (simp add: q2)
  moreover have "queues_wf q2"
    using queues_wf_drop_excl [of q1 pre w ws] wf(2) ws e(4) by (simp add: q2 q1)
  moreover have "grows q q2" "rl_range w \<subseteq> exclCov q2 (rl_handle w)"
    using e(2) cov by (auto simp: grows_def)
  moreover have "waitersLockIDsRangeFLock q2 = waitersLockIDsRangeFLock q - {rl_lockAckID w'}"
    "rl_lockAckID w' \<in> waitersLockIDsRangeFLock q"
    using e(4) ws queues_wf_ids [OF wf(2)] by (simp_all add: q2 q1)
  moreover have "rl_range w' \<subseteq> lockedBytes q2 (rl_handle w')"
    using held_excl [of w' q2] e(6) by (simp add: q2)
  moreover have "lockedBytes q2 h \<subseteq>
      lockedBytes q h \<union> cov h (waitersExclRangeFLock q @ waitersSharedRangeFLock q)" for h
    using e(2) [of h] cov ws by (auto simp: lockedBytes_def cov_Cons)
  ultimately show "grant_result q [w'] q2"
    using shape ws by (auto simp: grant_result_def)
qed

lemma grant_shared_step:
  assumes wf: "locks_wf q" "queues_wf q" and ws: "waitersSharedRangeFLock q = pre @ w # ws"
    and free: "\<not> blocked w ws' q" and res: "flockRangeShared w q = (w', q1)"
    and q2: "q2 = q1\<lparr>waitersLockIDsRangeFLock := waitersLockIDsRangeFLock q1 - {rl_lockAckID w'},
                     waitersSharedRangeFLock := erase_nth (length pre) (waitersSharedRangeFLock q1)\<rparr>"
  shows "waitersSharedRangeFLock q2 = pre @ ws" "waitersExclRangeFLock q2 = waitersExclRangeFLock q"
    "grant_result q [w'] q2"
proof -
  have w: "rl_ok w" using wf(2) ws by (auto simp: queues_wf_def)
  have free': "\<forall>h. h \<noteq> rl_handle w \<longrightarrow> rl_range w \<inter> exclCov q h = {}"
    using free by (auto simp: blocked_def)
  note e = flockRangeShared_effect [OF wf(1) w free' res]
  obtain x where q1: "q1 = q\<lparr>sharedRangeFLocks := x\<rparr>" using e(3) by blast
  show shape: "waitersSharedRangeFLock q2 = pre @ ws" "waitersExclRangeFLock q2 = waitersExclRangeFLock q"
    using ws by (auto simp: q2 q1)
  have cov: "sharedCov q2 = sharedCov q1" "exclCov q2 = exclCov q"
    by (simp_all add: fun_eq_iff q2 q1 exclCov_def sharedCov_def)
  have "locks_wf q2" using e(1) by (simp add: q2)
  moreover have "queues_wf q2"
    using queues_wf_drop_shared [of q1 pre w ws] wf(2) ws e(4) by (simp add: q2 q1)
  moreover have "grows q q2" "rl_range w \<subseteq> sharedCov q2 (rl_handle w)"
    using e(2) cov by (auto simp: grows_def)
  moreover have "waitersLockIDsRangeFLock q2 = waitersLockIDsRangeFLock q - {rl_lockAckID w'}"
    "rl_lockAckID w' \<in> waitersLockIDsRangeFLock q"
    using e(4) ws queues_wf_ids [OF wf(2)] by (simp_all add: q2 q1)
  moreover have "rl_range w' \<subseteq> lockedBytes q2 (rl_handle w')"
    using held_shared [of w' q2] e(6) by (simp add: q2)
  moreover have "lockedBytes q2 h \<subseteq>
      lockedBytes q h \<union> cov h (waitersExclRangeFLock q @ waitersSharedRangeFLock q)" for h
    using e(2) [of h] cov ws by (auto simp: lockedBytes_def cov_Cons)
  ultimately show "grant_result q [w'] q2"
    using shape ws by (auto simp: grant_result_def)
qed

lemma grantExclWaiters_result:
  assumes "locks_wf q" "queues_wf q" "waitersExclRangeFLock q = pre @ ws" "blocked_queue pre q"
    and "grantExclWaiters ws (length pre) q ns = (ns', q')"
  shows "\<exists>new. ns' = ns @ new \<and> grant_result q new q' \<and> blocked_queue (waitersExclRangeFLock q') q'"
  using assms
proof (induction ws arbitrary: pre q ns)
  case Nil
  then show ?case by (simp add: grant_result_refl)
next
  case (Cons w ws)
  have w: "rl_ok w" using Cons.prems(2,3) by (auto simp: queues_wf_def)
  have c: "flockRangeCheckConflictsEx w (int (length pre)) q \<noteq> None \<longleftrightarrow> blocked w pre q"
    using checkConflicts_blocked_take [OF Cons.prems(1,2) w, of "length pre"] Cons.prems(3) by simp
  show ?case
  proof (cases "blocked w pre q")
    case True
    with Cons.prems c Cons.IH [of q "pre @ [w]" ns] show ?thesis by (simp add: blocked_queue_snoc)
  next
    case False
    obtain w' q1 where e: "flockRangeExclusive w q = (w', q1)" by force
    define q2 where "q2 = q1\<lparr>waitersLockIDsRangeFLock := waitersLockIDsRangeFLock q1 - {rl_lockAckID w'},
                     waitersExclRangeFLock := erase_nth (length pre) (waitersExclRangeFLock q1)\<rparr>"
    note step = grant_excl_step [OF Cons.prems(1-3) False e q2_def]
    note r = grant_resultD [OF step(3)]
    have "grantExclWaiters ws (length pre) q2 (ns @ [w']) = (ns', q')"
      using Cons.prems(5) False c e by (simp add: q2_def Let_def)
    from Cons.IH [OF r(1,2) step(1) blocked_queue_grows [OF Cons.prems(4) r(3)] this]
    show ?thesis using grant_result_trans [OF step(3)] by auto
  qed
qed

lemma grantSharedRangeWaiters_result:
  assumes "locks_wf q" "queues_wf q" "waitersSharedRangeFLock q = pre @ ws"
    and "\<forall>w \<in> set pre. blocked w (waitersExclRangeFLock q) q"
    and "grantSharedRangeWaiters ws (length pre) q ns = (ns', q')"
  shows "\<exists>new. ns' = ns @ new \<and> grant_result q new q' \<and>
           waitersExclRangeFLock q' = waitersExclRangeFLock q \<and>
           (\<forall>w \<in> set (waitersSharedRangeFLock q'). blocked w (waitersExclRangeFLock q) q')"
  using assms
proof (induction ws arbitrary: pre q ns)
  case Nil
  then show ?case by (simp add: grant_result_refl)
next
  case (Cons w ws)
  have w: "rl_ok w" using Cons.prems(2,3) by (auto simp: queues_wf_def)
  note c = checkConflicts_blocked [OF Cons.prems(1,2) w]
  show ?case
  proof (cases "blocked w (waitersExclRangeFLock q) q")
    case True
    with Cons.prems c Cons.IH [of q "pre @ [w]" ns] show ?thesis by simp
  next
    case False
    obtain w' q1 where e: "flockRangeShared w q = (w', q1)" by force
    define q2 where "q2 = q1\<lparr>waitersLockIDsRangeFLock := waitersLockIDsRangeFLock q1 - {rl_lockAckID w'},
                     waitersSharedRangeFLock := erase_nth (length pre) (waitersSharedRangeFLock q1)\<rparr>"
    note step = grant_shared_step [OF Cons.prems(1-3) False e q2_def]
    note r = grant_resultD [OF step(3)]
    have pre: "\<forall>w \<in> set pre. blocked w (waitersExclRangeFLock q2) q2"
      using Cons.prems(4) blocked_grows [OF _ r(3)] step(2) by simp
    have "grantSharedRangeWaiters ws (length pre) q2 (ns @ [w']) = (ns', q')"
      using Cons.prems(5) False c e by (simp add: q2_def Let_def)
    from Cons.IH [OF r(1,2) step(1) pre this]
    show ?thesis using grant_result_trans [OF step(3)] step(2) by auto
  qed
qed

lemma flockRangeTryNextWaiters_result:
  assumes "locks_wf q" "queues_wf q" "flockRangeTryNextWaiters q = (ns, q')"
  shows "grant_result q ns q' \<and> range_live q'"
proof -
  obtain ns1 q1 where e: "grantExclWaiters (waitersExclRangeFLock q) 0 q [] = (ns1, q1)" by force
  have r1: "grant_result q ns1 q1" "blocked_queue (waitersExclRangeFLock q1) q1"
    using grantExclWaiters_result [OF assms(1,2), of "[]" "waitersExclRangeFLock q" "[]" ns1 q1] e
    by (auto simp: blocked_queue_def)
  note d1 = grant_resultD [OF r1(1)]
  have "grantSharedRangeWaiters (waitersSharedRangeFLock q1) 0 q1 ns1 = (ns, q')"
    using assms(3) e by (simp add: flockRangeTryNextWaiters_def)
  then obtain new where r2: "ns = ns1 @ new" "grant_result q1 new q'"
    "waitersExclRangeFLock q' = waitersExclRangeFLock q1"
    "\<forall>w \<in> set (waitersSharedRangeFLock q'). blocked w (waitersExclRangeFLock q1) q'"
    using grantSharedRangeWaiters_result [OF d1(1,2), of "[]" "waitersSharedRangeFLock q1" ns1 ns q']
    by auto
  have "blocked_queue (waitersExclRangeFLock q') q'"
    using blocked_queue_grows [OF r1(2)] grant_resultD(3) [OF r2(2)] r2(3) by simp
  with r2 grant_result_trans [OF r1(1) r2(2)] show ?thesis by (simp add: range_live_queue)
qed

end
