(* ===== verification/Range_Lock_Requests.thy ===== *)
theory Range_Lock_Requests
  imports Range_Lock_Effects
begin

text \<open>
  Whole requests on the range locks of a file (lock, unlock, cancel, removal of a client), the
  states that sequences of them reach, and the properties of the component: mutual exclusion
  of bytes, no lost wakeup, the effect of unlocking, idempotent retries, complete cancellation.
\<close>

section \<open>Cancelling\<close>

lemma cov_filter: "cov h (filter (\<lambda>l. \<not> P (rl_handle l)) ls) = (if P h then {} else cov h ls)"
  by (auto simp: cov_def)

lemma apart_filter: "apart sep ls \<Longrightarrow> apart sep (filter P ls)"
  by (auto simp: apart_def list_all_iff sorted_wrt_filter)

lemma cancelMatchingRange_eq:
  "cancelMatchingRange P q =
     (list_ex P (exclRangeFLocks q) \<or> list_ex P (sharedRangeFLocks q) \<or>
        list_ex P (waitersExclRangeFLock q) \<or> list_ex P (waitersSharedRangeFLock q),
      q\<lparr>exclRangeFLocks := filter (\<lambda>l. \<not> P l) (exclRangeFLocks q),
        sharedRangeFLocks := filter (\<lambda>l. \<not> P l) (sharedRangeFLocks q),
        waitersExclRangeFLock := filter (\<lambda>l. \<not> P l) (waitersExclRangeFLock q),
        waitersSharedRangeFLock := filter (\<lambda>l. \<not> P l) (waitersSharedRangeFLock q),
        waitersLockIDsRangeFLock :=
          waitersLockIDsRangeFLock q - rl_lockAckID ` set (filter P (waitersExclRangeFLock q))
            - rl_lockAckID ` set (filter P (waitersSharedRangeFLock q))\<rparr>)"
  by (simp add: cancelMatchingRange_def)

lemma queues_wf_cancel:
  assumes "queues_wf q"
  shows "queues_wf (snd (cancelMatchingRange P q))"
proof -
  have "waitersLockIDsRangeFLock q - rl_lockAckID ` set (filter P (waitersExclRangeFLock q))
          - rl_lockAckID ` set (filter P (waitersSharedRangeFLock q)) =
        rl_lockAckID ` set (filter (\<lambda>l. \<not> P l) (waitersExclRangeFLock q)
                              @ filter (\<lambda>l. \<not> P l) (waitersSharedRangeFLock q))"
    using assms by (intro ids_after_erase) (auto simp: queues_wf_def)
  moreover have "distinct (map rl_lockAckID (filter (\<lambda>l. \<not> P l) (waitersExclRangeFLock q)
                   @ filter (\<lambda>l. \<not> P l) (waitersSharedRangeFLock q)))"
    using assms by (intro distinct_map_filter2) (simp add: queues_wf_def)
  ultimately show ?thesis
    using assms by (simp add: cancelMatchingRange_eq queues_wf_def list_all_iff)
qed

lemma cancelMatchingRange_effect:
  assumes "locks_wf q" and P: "\<And>l. P l \<longleftrightarrow> Q (rl_handle l)" and res: "cancelMatchingRange P q = (t, q')"
  shows "locks_wf q'" "exclCov q' h = (if Q h then {} else exclCov q h)"
    "sharedCov q' h = (if Q h then {} else sharedCov q h)"
    "waitersExclRangeFLock q' = filter (\<lambda>l. \<not> P l) (waitersExclRangeFLock q)"
    "waitersSharedRangeFLock q' = filter (\<lambda>l. \<not> P l) (waitersSharedRangeFLock q)"
    "\<not> t \<Longrightarrow> q' = q"
proof -
  have q': "q' = snd (cancelMatchingRange P q)" and t: "t = fst (cancelMatchingRange P q)"
    using res by simp_all
  have P': "P = (\<lambda>l. Q (rl_handle l))" using P by blast
  show ex: "exclCov q' h = (if Q h then {} else exclCov q h)" for h
    by (simp add: q' cancelMatchingRange_eq exclCov_def P' cov_filter)
  show sh: "sharedCov q' h = (if Q h then {} else sharedCov q h)" for h
    by (simp add: q' cancelMatchingRange_eq sharedCov_def P' cov_filter)
  have "apart excl_sep (exclRangeFLocks q')" "apart shared_sep (sharedRangeFLocks q')"
    using assms(1) by (simp_all add: q' cancelMatchingRange_eq locks_wf_def apart_filter)
  then show "locks_wf q'"
    using assms(1) by (simp add: locks_wf_def ex sh)
  show "waitersExclRangeFLock q' = filter (\<lambda>l. \<not> P l) (waitersExclRangeFLock q)"
    "waitersSharedRangeFLock q' = filter (\<lambda>l. \<not> P l) (waitersSharedRangeFLock q)"
    by (simp_all add: q' cancelMatchingRange_eq)
  show "q' = q" if "\<not> t"
  proof -
    have none: "\<not> list_ex P (exclRangeFLocks q)" "\<not> list_ex P (sharedRangeFLocks q)"
      "\<not> list_ex P (waitersExclRangeFLock q)" "\<not> list_ex P (waitersSharedRangeFLock q)"
      using that by (simp_all add: t cancelMatchingRange_eq)
    have "filter (\<lambda>l. \<not> P l) ls = ls \<and> filter P ls = []" if "\<not> list_ex P ls" for ls
      using that by (auto simp: list_ex_iff filter_empty_conv filter_id_conv)
    from this [OF none(1)] this [OF none(2)] this [OF none(3)] this [OF none(4)] show ?thesis
      by (simp add: q' cancelMatchingRange_eq)
  qed
qed

section \<open>Requests\<close>

lemma flockRangeFinish_result:
  assumes "locks_wf q" "queues_wf q" "\<not> t \<Longrightarrow> range_live q" "flockRangeFinish t g q = (r, ns, q')"
  shows "r = g" "grant_result q ns q'" "range_live q'"
proof -
  obtain ns1 q1 where n: "flockRangeTryNextWaiters q = (ns1, q1)" by force
  from flockRangeTryNextWaiters_result [OF assms(1,2) n] assms grant_result_refl [OF assms(1,2)] n
  show "r = g" "grant_result q ns q'" "range_live q'"
    by (auto simp: flockRangeFinish_def split: if_splits)
qed

text \<open>A proper lock request asks for one of the two modes and a proper range.\<close>

definition lock_request :: "RangeLockDetails \<Rightarrow> bool" where
  "lock_request d \<longleftrightarrow>
     \<not> rl_isCancel d \<and> \<not> rl_isUnlock d \<and> rl_ok d \<and> rl_isShared d \<noteq> rl_isExclusive d"

definition holds_range :: "RangeLockDetails \<Rightarrow> RangeLockState \<Rightarrow> bool" where
  "holds_range d q \<longleftrightarrow>
     rl_range d \<subseteq> (if rl_isExclusive d then exclCov q (rl_handle d) else sharedCov q (rl_handle d))"

lemma isGranted_holds:
  assumes "locks_wf q" "lock_request d"
  shows "flockRangeIsGranted d q \<longleftrightarrow> holds_range d q"
proof -
  have d: "rl_ok d" "rl_isShared d \<noteq> rl_isExclusive d" using assms(2) by (simp_all add: lock_request_def)
  have apart: "apart excl_sep (exclRangeFLocks q)" "apart shared_sep (sharedRangeFLocks q)"
    using assms(1) by (simp_all add: locks_wf_def)
  show ?thesis
    using d(2) excl_set.isGrantedLoop_eq [OF d(1) apart(1)] excl_set.within_own_cov [OF d(1) apart(1)]
      shared_set.isGrantedLoop_eq [OF d(1) apart(2)] shared_set.within_own_cov [OF d(1) apart(2)]
    by (auto simp: flockRangeIsGranted_def holds_range_def exclCov_def sharedCov_def)
qed

lemma holds_range_grows: "holds_range d q \<Longrightarrow> grows q q' \<Longrightarrow> holds_range d q'"
  using order_trans [of "rl_range d" "exclCov q (rl_handle d)" "exclCov q' (rl_handle d)"]
    order_trans [of "rl_range d" "sharedCov q (rl_handle d)" "sharedCov q' (rl_handle d)"]
  by (simp add: holds_range_def grows_def split: if_splits)

text \<open>Unlocking the requester's own range before placing or queueing its lock.\<close>

lemma unlock_for_request:
  assumes wf: "locks_wf q" "queues_wf q" and d: "rl_ok d" and res: "flockRangeUnlock d q = (t, q1)"
  shows "locks_wf q1" "queues_wf q1" "\<not> t \<Longrightarrow> q1 = q"
    "waitersExclRangeFLock q1 = waitersExclRangeFLock q"
    "waitersSharedRangeFLock q1 = waitersSharedRangeFLock q"
    "waitersLockIDsRangeFLock q1 = waitersLockIDsRangeFLock q"
    "h \<noteq> rl_handle d \<Longrightarrow> exclCov q1 h = exclCov q h \<and> sharedCov q1 h = sharedCov q h"
    "blocked d ws q1 = blocked d ws q"
proof -
  note u = flockRangeUnlock_effect [OF wf(1) d res]
  obtain x y where q1: "q1 = q\<lparr>exclRangeFLocks := x, sharedRangeFLocks := y\<rparr>" using u(4) by blast
  show "locks_wf q1" "\<not> t \<Longrightarrow> q1 = q" by (fact u(1) u(5))+
  show "queues_wf q1" using wf(2) by (simp add: q1)
  show "waitersExclRangeFLock q1 = waitersExclRangeFLock q"
    "waitersSharedRangeFLock q1 = waitersSharedRangeFLock q"
    "waitersLockIDsRangeFLock q1 = waitersLockIDsRangeFLock q" by (simp_all add: q1)
  show cov: "exclCov q1 h = exclCov q h \<and> sharedCov q1 h = sharedCov q h" if "h \<noteq> rl_handle d" for h
    using u(2,3) that by simp
  then show "blocked d ws q1 = blocked d ws q" unfolding blocked_def by blast
qed

definition placeRequest :: "RangeLockDetails \<Rightarrow> RangeLockState \<Rightarrow> RangeLockState" where
  "placeRequest d q =
     (if rl_isExclusive d then snd (flockRangeExclusive d q) else snd (flockRangeShared d q))"

lemma place_for_request:
  assumes wf: "locks_wf q" and ok: "rl_ok d" and free: "\<not> blocked d ws q"
  shows "locks_wf (placeRequest d q)" "holds_range d (placeRequest d q)" "grows q (placeRequest d q)"
    "waitersExclRangeFLock (placeRequest d q) = waitersExclRangeFLock q"
    "waitersSharedRangeFLock (placeRequest d q) = waitersSharedRangeFLock q"
    "waitersLockIDsRangeFLock (placeRequest d q) = waitersLockIDsRangeFLock q"
    "h \<noteq> rl_handle d \<Longrightarrow>
       exclCov (placeRequest d q) h = exclCov q h \<and> sharedCov (placeRequest d q) h = sharedCov q h"
proof -
  let ?p = "placeRequest d q"
  have "locks_wf ?p \<and> holds_range d ?p \<and> grows q ?p \<and>
    waitersExclRangeFLock ?p = waitersExclRangeFLock q \<and>
    waitersSharedRangeFLock ?p = waitersSharedRangeFLock q \<and>
    waitersLockIDsRangeFLock ?p = waitersLockIDsRangeFLock q \<and>
    (h \<noteq> rl_handle d \<longrightarrow> exclCov ?p h = exclCov q h \<and> sharedCov ?p h = sharedCov q h)"
  proof (cases "rl_isExclusive d")
    case True
    obtain d' q' where r: "flockRangeExclusive d q = (d', q')" by force
    have f: "\<forall>h. h \<noteq> rl_handle d \<longrightarrow> rl_range d \<inter> exclCov q h = {} \<and> rl_range d \<inter> sharedCov q h = {}"
      using free True by (auto simp: blocked_def)
    note e = flockRangeExclusive_effect [OF wf ok f r]
    obtain x where q': "q' = q\<lparr>exclRangeFLocks := x\<rparr>" using e(3) by blast
    have "sharedCov q' = sharedCov q" by (simp add: fun_eq_iff q' sharedCov_def)
    with e(1,2) r True show ?thesis
      by (simp add: placeRequest_def holds_range_def grows_def) (simp add: q')
  next
    case False
    obtain d' q' where r: "flockRangeShared d q = (d', q')" by force
    have f: "\<forall>h. h \<noteq> rl_handle d \<longrightarrow> rl_range d \<inter> exclCov q h = {}"
      using free by (auto simp: blocked_def)
    note e = flockRangeShared_effect [OF wf ok f r]
    obtain x where q': "q' = q\<lparr>sharedRangeFLocks := x\<rparr>" using e(3) by blast
    have "exclCov q' = exclCov q" by (simp add: fun_eq_iff q' exclCov_def)
    with e(1,2) r False show ?thesis
      by (simp add: placeRequest_def holds_range_def grows_def) (simp add: q')
  qed
  then show "locks_wf ?p" "holds_range d ?p" "grows q ?p"
    "waitersExclRangeFLock ?p = waitersExclRangeFLock q"
    "waitersSharedRangeFLock ?p = waitersSharedRangeFLock q"
    "waitersLockIDsRangeFLock ?p = waitersLockIDsRangeFLock q"
    "h \<noteq> rl_handle d \<Longrightarrow> exclCov ?p h = exclCov q h \<and> sharedCov ?p h = sharedCov q h"
    by blast+
qed

lemma rangeRequest_granted:
  assumes wf: "locks_wf q" "queues_wf q" and d: "lock_request d"
    and free: "flockRangeCheckConflicts d q = None" and res: "flockRangeNewRequest d q = (t, g, q2)"
  shows "g" "locks_wf q2" "queues_wf q2" "holds_range d q2"
    "waitersLockIDsRangeFLock q2 = waitersLockIDsRangeFLock q"
    "h \<noteq> rl_handle d \<Longrightarrow> exclCov q2 h = exclCov q h \<and> sharedCov q2 h = sharedCov q h"
    "\<not> t \<Longrightarrow> range_live q \<Longrightarrow> range_live q2"
proof -
  have ok: "rl_ok d" and one: "rl_isShared d \<longleftrightarrow> \<not> rl_isExclusive d" using d by (auto simp: lock_request_def)
  obtain tu q1 where u: "flockRangeUnlock d q = (tu, q1)" by force
  note un = unlock_for_request [OF wf ok u]
  have nb: "\<not> blocked d (waitersExclRangeFLock q) q1"
    using checkConflicts_blocked [OF wf ok] free un(8) by simp
  have q2: "t = tu" "g" "q2 = placeRequest d q1"
    using res free u one by (simp_all add: flockRangeNewRequest_def placeRequest_def split: if_splits)
  note place = place_for_request [OF un(1) ok nb, folded q2(3)]
  show g by (fact q2(2))
  show "locks_wf q2" "holds_range d q2" by (fact place(1,2))+
  show "queues_wf q2" using un(2) place(4-6) by (simp add: queues_wf_def)
  show "waitersLockIDsRangeFLock q2 = waitersLockIDsRangeFLock q" using place(6) un(6) by simp
  show "exclCov q2 h = exclCov q h \<and> sharedCov q2 h = sharedCov q h" if "h \<noteq> rl_handle d"
    using un(7) [OF that] place(7) [OF that] by simp
  show "range_live q2" if "\<not> t" "range_live q"
  proof -
    have "q1 = q" using un(3) that(1) q2(1) by simp
    then show ?thesis
      using that(2) place(3-5) blocked_queue_grows [of _ q q2] blocked_grows [of _ _ q q2]
      by (simp add: range_live_queue)
  qed
qed

definition enqueue :: "RangeLockDetails \<Rightarrow> RangeLockState \<Rightarrow> RangeLockState" where
  "enqueue d q =
     (let q1 = q\<lparr>waitersLockIDsRangeFLock := insert (rl_lockAckID d) (waitersLockIDsRangeFLock q)\<rparr>
      in if rl_isExclusive d then q1\<lparr>waitersExclRangeFLock := waitersExclRangeFLock q @ [d]\<rparr>
         else q1\<lparr>waitersSharedRangeFLock := waitersSharedRangeFLock q @ [d]\<rparr>)"

lemma enqueue_wf:
  assumes "queues_wf q" "lock_request d" "rl_lockAckID d \<notin> waitersLockIDsRangeFLock q"
  shows "queues_wf (enqueue d q)"
  using assms
  by (cases "rl_isExclusive d") (simp_all add: queues_wf_def enqueue_def lock_request_def image_Un)

lemma enqueue_locks [simp]:
  "exclCov (enqueue d q) = exclCov q" "sharedCov (enqueue d q) = sharedCov q"
  "locks_wf (enqueue d q) = locks_wf q" "blocked w ws (enqueue d q) = blocked w ws q"
  by (simp_all add: fun_eq_iff enqueue_def Let_def exclCov_def sharedCov_def locks_wf_def blocked_def)

lemma blocked_more: "blocked w ws q \<Longrightarrow> blocked w (ws @ ws') q"
  by (auto simp: blocked_def)

lemma enqueue_live:
  assumes "range_live q" "blocked d (waitersExclRangeFLock q) q"
  shows "range_live (enqueue d q)"
proof -
  have "blocked_queue ws (enqueue d q) = blocked_queue ws q" for ws by (simp add: blocked_queue_def)
  moreover have
    "waitersExclRangeFLock (enqueue d q) = waitersExclRangeFLock q @ (if rl_isExclusive d then [d] else [])"
    "waitersSharedRangeFLock (enqueue d q) = waitersSharedRangeFLock q @ (if rl_isExclusive d then [] else [d])"
    by (simp_all add: enqueue_def Let_def)
  ultimately show ?thesis
    using assms blocked_more by (auto simp: range_live_queue blocked_queue_snoc)
qed

lemma rangeRequest_waiting:
  assumes wf: "locks_wf q" "queues_wf q" and d: "lock_request d"
    and new: "rl_lockAckID d \<notin> waitersLockIDsRangeFLock q"
    and conf: "flockRangeCheckConflicts d q \<noteq> None" and wait: "rl_allowsWaiting d"
    and res: "flockRangeNewRequest d q = (t, g, q2)"
  shows "\<not> g" "locks_wf q2" "queues_wf q2" "rl_lockAckID d \<in> waitersLockIDsRangeFLock q2"
    "d \<in> set (if rl_isExclusive d then waitersExclRangeFLock q2 else waitersSharedRangeFLock q2)"
    "h \<noteq> rl_handle d \<Longrightarrow> exclCov q2 h = exclCov q h \<and> sharedCov q2 h = sharedCov q h"
    "\<not> t \<Longrightarrow> range_live q \<Longrightarrow> range_live q2"
proof -
  have ok: "rl_ok d" and one: "rl_isShared d \<longleftrightarrow> \<not> rl_isExclusive d" using d by (auto simp: lock_request_def)
  obtain tu q1 where u: "flockRangeUnlock d q = (tu, q1)" by force
  note un = unlock_for_request [OF wf ok u]
  have q2: "t = tu" "\<not> g" "q2 = enqueue d q1"
    using res conf wait u one by (auto simp: flockRangeNewRequest_def enqueue_def split: if_splits)
  show "\<not> g" by (fact q2(2))
  show "locks_wf q2" using un(1) by (simp add: q2)
  show "queues_wf q2" using enqueue_wf [OF un(2) d] un(6) new by (simp add: q2)
  show "rl_lockAckID d \<in> waitersLockIDsRangeFLock q2"
    "d \<in> set (if rl_isExclusive d then waitersExclRangeFLock q2 else waitersSharedRangeFLock q2)"
    by (simp_all add: q2 enqueue_def Let_def)
  show "exclCov q2 h = exclCov q h \<and> sharedCov q2 h = sharedCov q h" if "h \<noteq> rl_handle d"
    using un(7) [OF that] by (simp add: q2)
  show "range_live q2" if "\<not> t" "range_live q"
    using that un(3) q2 checkConflicts_blocked [OF wf ok] conf enqueue_live [of q d] by simp
qed

lemma rangeRequest_refused:
  assumes "flockRangeCheckConflicts d q \<noteq> None" "\<not> rl_allowsWaiting d"
  shows "flockRangeNewRequest d q = (False, False, q)"
  using assms by (simp add: flockRangeNewRequest_def)

text \<open>The invariant of the component.\<close>

definition range_inv :: "RangeLockState \<Rightarrow> bool" where
  "range_inv q \<longleftrightarrow> locks_wf q \<and> queues_wf q \<and> range_live q"

lemma range_inv_finish:
  assumes "locks_wf q" "queues_wf q" "\<not> t \<Longrightarrow> range_live q" "flockRangeFinish t g q = (r, ns, q')"
  shows "range_inv q'" "r = g" "grant_result q ns q'"
  using flockRangeFinish_result [OF assms] grant_resultD(1,2) unfolding range_inv_def by blast+

text \<open>
  The branches of the entry point, with what each has done before the waiters are tried. The
  bytes of other handles are untouched by then.
\<close>

definition others_same :: "RangeLockDetails \<Rightarrow> RangeLockState \<Rightarrow> RangeLockState \<Rightarrow> bool" where
  "others_same d q q' \<longleftrightarrow>
     (\<forall>h. h \<noteq> rl_handle d \<longrightarrow> exclCov q' h = exclCov q h \<and> sharedCov q' h = sharedCov q h)"

definition rl_valid :: "RangeLockDetails \<Rightarrow> bool" where
  "rl_valid d \<longleftrightarrow>
     rl_isCancel d \<or> rl_ok d \<and> (rl_isUnlock d \<or> rl_isShared d \<noteq> rl_isExclusive d)"

lemma flockRangeUnlocked_cases:
  assumes "flockRangeUnlocked d q = (g, ns, q')"
  obtains (cancel) t q1 where "rl_isCancel d" "cancelMatchingRange (rl_equalsHandle d) q = (t, q1)"
        "flockRangeFinish t True q1 = (g, ns, q')"
    | (unlock) t q1 where "\<not> rl_isCancel d" "rl_isUnlock d" "flockRangeUnlock d q = (t, q1)"
        "flockRangeFinish t True q1 = (g, ns, q')"
    | (waiting) "\<not> rl_isCancel d" "\<not> rl_isUnlock d" "rl_lockAckID d \<in> waitersLockIDsRangeFLock q"
        "\<not> g" "ns = []" "q' = q"
    | (granted) "\<not> rl_isCancel d" "\<not> rl_isUnlock d" "rl_lockAckID d \<notin> waitersLockIDsRangeFLock q"
        "flockRangeIsGranted d q" "g" "ns = []" "q' = q"
    | (lock) t g1 q1 where "\<not> rl_isCancel d" "\<not> rl_isUnlock d"
        "rl_lockAckID d \<notin> waitersLockIDsRangeFLock q" "\<not> flockRangeIsGranted d q"
        "flockRangeNewRequest d q = (t, g1, q1)" "flockRangeFinish t g1 q1 = (g, ns, q')"
proof -
  obtain tc qc where c: "cancelMatchingRange (rl_equalsHandle d) q = (tc, qc)" by force
  obtain tu qu where u: "flockRangeUnlock d q = (tu, qu)" by force
  obtain tn gn qn where n: "flockRangeNewRequest d q = (tn, gn, qn)" using prod_cases3 by blast
  show thesis
  proof (cases "rl_isCancel d")
    case True
    with assms c show thesis
      by (intro cancel) (simp_all add: flockRangeUnlocked_def flockRangeCancelByHandle_def)
  next
    case nc: False
    show thesis
    proof (cases "rl_isUnlock d")
      case True
      with nc assms u show thesis by (intro unlock) (simp_all add: flockRangeUnlocked_def)
    next
      case False
      with nc assms n waiting granted lock show thesis
        by (auto simp: flockRangeUnlocked_def split: if_splits)
    qed
  qed
qed

lemma rangeRequest_step:
  assumes inv: "range_inv q" and d: "lock_request d"
    and new: "rl_lockAckID d \<notin> waitersLockIDsRangeFLock q"
    and res: "flockRangeNewRequest d q = (t, g, q2)"
  shows "locks_wf q2" "queues_wf q2" "others_same d q q2" "\<not> t \<Longrightarrow> range_live q2"
proof -
  have wf: "locks_wf q" "queues_wf q" "range_live q" using inv by (simp_all add: range_inv_def)
  consider (free) "flockRangeCheckConflicts d q = None"
    | (wait) "flockRangeCheckConflicts d q \<noteq> None" "rl_allowsWaiting d"
    | (refused) "flockRangeCheckConflicts d q \<noteq> None" "\<not> rl_allowsWaiting d" by blast
  then have "locks_wf q2 \<and> queues_wf q2 \<and> others_same d q q2 \<and> (\<not> t \<longrightarrow> range_live q2)"
  proof cases
    case free
    with rangeRequest_granted [OF wf(1,2) d free res] wf(3) show ?thesis by (simp add: others_same_def)
  next
    case wait
    with rangeRequest_waiting [OF wf(1,2) d new wait res] wf(3) show ?thesis
      by (simp add: others_same_def)
  next
    case refused
    with res wf rangeRequest_refused [OF refused] show ?thesis by (simp add: others_same_def)
  qed
  then show "locks_wf q2" "queues_wf q2" "others_same d q q2" "\<not> t \<Longrightarrow> range_live q2" by blast+
qed

lemma request_steps:
  assumes inv: "range_inv q" and d: "rl_valid d" and res: "flockRangeUnlocked d q = (g, ns, q')"
  obtains (same) "q' = q" "ns = []"
    | (step) t q1 where "locks_wf q1" "queues_wf q1" "others_same d q q1" "\<not> t \<Longrightarrow> range_live q1"
        "flockRangeFinish t g q1 = (g, ns, q')"
proof -
  have wf: "locks_wf q" "queues_wf q" "range_live q" using inv by (simp_all add: range_inv_def)
  have fin: "flockRangeFinish t g q1 = (g, ns, q')" if "flockRangeFinish t g1 q1 = (g, ns, q')" for t g1 q1
    using that by (auto simp: flockRangeFinish_def split: if_splits prod.splits)
  from res show thesis
  proof (cases rule: flockRangeUnlocked_cases)
    case (cancel t q1)
    have P: "rl_equalsHandle d l \<longleftrightarrow> rl_handle l = rl_handle d" for l by (auto simp: equalsHandle_handle)
    note c = cancelMatchingRange_effect [OF wf(1) P cancel(2)]
    show thesis
      using c(1-3,6) wf queues_wf_cancel [OF wf(2), of "rl_equalsHandle d"] cancel(2)
      by (intro step [OF _ _ _ _ fin [OF cancel(3)]]) (auto simp: others_same_def)
  next
    case (unlock t q1)
    then have ok: "rl_ok d" using d by (auto simp: rl_valid_def)
    note u = unlock_for_request [OF wf(1,2) ok unlock(3)]
    show thesis
      using u(1-3,7) wf by (intro step [OF _ _ _ _ fin [OF unlock(4)]]) (auto simp: others_same_def)
  next
    case (lock t g1 q1)
    then have "lock_request d" using d by (auto simp: rl_valid_def lock_request_def)
    note n = rangeRequest_step [OF inv this lock(3,5)]
    show thesis using n by (intro step [OF _ _ _ _ fin [OF lock(6)]]) auto
  qed (use same in auto)
qed

lemma request_inv:
  assumes "range_inv q" "rl_valid d" "flockRangeUnlocked d q = (g, ns, q')"
  shows "range_inv q'"
  using assms
proof (cases rule: request_steps)
  case same
  with assms(1) show ?thesis by simp
next
  case (step t q1)
  show ?thesis by (rule range_inv_finish(1) [OF step(1,2,4,5)])
qed

section \<open>Reachable states\<close>

datatype range_op =
    FlockRange RangeLockDetails
  | RangeCancelAllWaiters
  | RangeCancelByClientID u32

definition range_exec :: "range_op \<Rightarrow> RangeLockState \<Rightarrow> RangeLockState" where
  "range_exec op q =
     (case op of
        FlockRange d \<Rightarrow> snd (snd (flockRange d q))
      | RangeCancelAllWaiters \<Rightarrow> flockRangeCancelAllWaiters q
      | RangeCancelByClientID c \<Rightarrow> snd (flockRangeCancelByClientID c q))"

fun range_op_valid :: "range_op \<Rightarrow> bool" where
  "range_op_valid (FlockRange d) = rl_valid d"
| "range_op_valid RangeCancelAllWaiters = True"
| "range_op_valid (RangeCancelByClientID c) = True"

definition range_init :: RangeLockState where
  "range_init =
     \<lparr>exclRangeFLocks = [], sharedRangeFLocks = [], waitersExclRangeFLock = [],
      waitersSharedRangeFLock = [], waitersLockIDsRangeFLock = {}\<rparr>"

inductive range_reachable :: "RangeLockState \<Rightarrow> bool" where
  init: "range_reachable range_init"
| step: "range_reachable q \<Longrightarrow> range_op_valid op \<Longrightarrow> range_reachable (range_exec op q)"

definition client_of :: "u32 \<Rightarrow> range_handle \<Rightarrow> bool" where
  "client_of c h = (case h of RangeHandle c' p \<Rightarrow> c' = c)"

lemma cancelByClient_step:
  assumes "range_inv q" "flockRangeCancelByClientID c q = (ns, q')"
  obtains t q1 where "cancelMatchingRange (\<lambda>l. rl_clientNumID l = c) q = (t, q1)" "locks_wf q1"
    "queues_wf q1" "\<not> t \<Longrightarrow> range_live q1" "flockRangeFinish t True q1 = (True, ns, q')"
proof -
  have wf: "locks_wf q" "queues_wf q" "range_live q" using assms(1) by (simp_all add: range_inv_def)
  obtain t q1 where c: "cancelMatchingRange (\<lambda>l. rl_clientNumID l = c) q = (t, q1)" by force
  have P: "(rl_clientNumID l = c) \<longleftrightarrow> client_of c (rl_handle l)" for l
    by (simp add: client_of_def rl_handle_def)
  note e = cancelMatchingRange_effect [OF wf(1) P c]
  show thesis
    using that [OF c e(1)] queues_wf_cancel [OF wf(2), of "\<lambda>l. rl_clientNumID l = c"] c e(6) wf(3) assms(2)
    by (auto simp: flockRangeCancelByClientID_def flockRangeFinish_def split: if_splits)
qed

lemma range_inv_exec:
  assumes inv: "range_inv q" and valid: "range_op_valid op"
  shows "range_inv (range_exec op q)"
proof (cases op)
  case (FlockRange d)
  obtain g ns q' where r: "flockRangeUnlocked d q = (g, ns, q')" using prod_cases3 by blast
  with FlockRange valid request_inv [OF inv _ r] show ?thesis by (simp add: range_exec_def)
next
  case RangeCancelAllWaiters
  with inv show ?thesis
    by (simp add: range_exec_def flockRangeCancelAllWaiters_def range_inv_def locks_wf_def
        queues_wf_def range_live_def exclCov_def sharedCov_def)
next
  case (RangeCancelByClientID c)
  obtain ns q' where r: "flockRangeCancelByClientID c q = (ns, q')" by force
  obtain t q1 where s: "locks_wf q1" "queues_wf q1" "\<not> t \<Longrightarrow> range_live q1"
      "flockRangeFinish t True q1 = (True, ns, q')"
    using cancelByClient_step [OF inv r] by blast
  show ?thesis using range_inv_finish(1) [OF s] r RangeCancelByClientID by (simp add: range_exec_def)
qed

lemma range_reachable_inv: "range_reachable q \<Longrightarrow> range_inv q"
proof (induction rule: range_reachable.induct)
  case init
  show ?case
    by (simp add: range_init_def range_inv_def locks_wf_def queues_wf_def range_live_def exclCov_def
        apart_def)
next
  case (step q op)
  then show ?case by (simp add: range_inv_exec)
qed

section \<open>Helpers for the properties\<close>

lemma excl_disjoint: "locks_wf q \<Longrightarrow> h \<noteq> h' \<Longrightarrow> exclCov q h \<inter> lockedBytes q h' = {}"
  using excl_cov_disjoint [of "exclRangeFLocks q" h h']
  by (auto simp: locks_wf_def lockedBytes_def exclCov_def)

lemma touches_own_cov:
  assumes "rl_ok d" "list_all rl_ok ls"
  shows "touches_own d ls \<longleftrightarrow> rl_range d \<inter> cov (rl_handle d) ls \<noteq> {}"
proof -
  have "touches_own d ls \<longleftrightarrow> (\<exists>l \<in> set ls. rl_handle l = rl_handle d \<and> rl_range d \<inter> rl_range l \<noteq> {})"
    using assms overlaps_range [OF assms(1)]
    unfolding touches_own_def list_ex_iff equalsHandle_handle list_all_iff by metis
  also have "\<dots> \<longleftrightarrow> rl_range d \<inter> cov (rl_handle d) ls \<noteq> {}" unfolding cov_def by blast
  finally show ?thesis .
qed

lemma granted_holds:
  assumes inv: "range_inv q" and d: "lock_request d" and res: "flockRangeUnlocked d q = (True, ns, q')"
  shows "holds_range d q'" "rl_lockAckID d \<notin> waitersLockIDsRangeFLock q'"
proof -
  have wf: "locks_wf q" "queues_wf q" using inv by (simp_all add: range_inv_def)
  from res have "holds_range d q' \<and> rl_lockAckID d \<notin> waitersLockIDsRangeFLock q'"
  proof (cases rule: flockRangeUnlocked_cases)
    case granted
    with isGranted_holds [OF wf(1) d] show ?thesis by simp
  next
    case (lock t g1 q1)
    note n = rangeRequest_step [OF inv d lock(3,5)]
    note f = range_inv_finish [OF n(1,2,4) lock(6)]
    have "flockRangeCheckConflicts d q = None"
      using lock(3,5) f(2) rangeRequest_waiting(1) [OF wf d lock(3) _ _ lock(5)]
        rangeRequest_refused [of d q] by fastforce
    note h = rangeRequest_granted [OF wf d this lock(5)]
    show ?thesis
      using holds_range_grows [OF h(4) grant_resultD(3) [OF f(3)]] h(5) lock(3)
        grant_resultD(6) [OF f(3)] by blast
  qed (use d in \<open>auto simp: lock_request_def\<close>)
  then show "holds_range d q'" "rl_lockAckID d \<notin> waitersLockIDsRangeFLock q'" by blast+
qed

lemma repeat_unchanged:
  assumes "locks_wf q" "lock_request d" "rl_lockAckID d \<in> waitersLockIDsRangeFLock q \<or> holds_range d q"
  shows "\<exists>g. flockRangeUnlocked d q = (g, [], q)"
  using assms isGranted_holds [OF assms(1,2)]
  by (auto simp: flockRangeUnlocked_def lock_request_def)

lemma waiting_waits_or_holds:
  assumes inv: "range_inv q" and d: "lock_request d" and new: "rl_lockAckID d \<notin> waitersLockIDsRangeFLock q"
    and conf: "flockRangeCheckConflicts d q \<noteq> None" "rl_allowsWaiting d"
    and req: "flockRangeNewRequest d q = (t, g1, q1)" and fin: "flockRangeFinish t g1 q1 = (g, ns, q')"
  shows "rl_lockAckID d \<in> waitersLockIDsRangeFLock q' \<or> holds_range d q'"
proof -
  have wf: "locks_wf q" "queues_wf q" using inv by (simp_all add: range_inv_def)
  note w = rangeRequest_waiting [OF wf d new conf req]
  note n = rangeRequest_step [OF inv d new req]
  note r = grant_resultD [OF range_inv_finish(3) [OF n(1,2,4) fin]]
  have ids: "waitersLockIDsRangeFLock q' =
      rl_lockAckID ` set (waitersExclRangeFLock q') \<union> rl_lockAckID ` set (waitersSharedRangeFLock q')"
    by (rule queues_wf_ids [OF r(2)])
  show ?thesis
    using w(5) r(9) [of d] r(10) [of d] ids by (auto simp: holds_range_def split: if_splits)
qed

text \<open>After a cancellation and the grants that follow it nothing of the cancelled ones is left.\<close>

lemma cancelled_gone:
  assumes wf: "locks_wf q" and P: "\<And>l. P l \<longleftrightarrow> Q (rl_handle l)"
    and c: "cancelMatchingRange P q = (t, q1)" and r: "grant_result q1 ns q'"
  shows "Q h \<Longrightarrow> lockedBytes q' h = {}"
    and "\<forall>w \<in> set (waitersExclRangeFLock q' @ waitersSharedRangeFLock q'). \<not> P w"
    and "\<not> Q h \<Longrightarrow> exclCov q h \<subseteq> exclCov q' h \<and> sharedCov q h \<subseteq> sharedCov q' h"
proof -
  note e = cancelMatchingRange_effect [OF wf P c] and g = grant_resultD [OF r]
  show "lockedBytes q' h = {}" if "Q h"
  proof -
    have "cov h (waitersExclRangeFLock q1 @ waitersSharedRangeFLock q1) = {}"
      using that P by (auto simp: e(4,5) cov_def)
    moreover have "lockedBytes q1 h = {}" using that by (simp add: lockedBytes_def e(2,3))
    ultimately show ?thesis using g(11) [of h] by auto
  qed
  show "\<forall>w \<in> set (waitersExclRangeFLock q' @ waitersSharedRangeFLock q'). \<not> P w"
    using g(4,5) e(4,5) by auto
  show "exclCov q h \<subseteq> exclCov q' h \<and> sharedCov q h \<subseteq> sharedCov q' h" if "\<not> Q h"
  proof -
    have "exclCov q1 h \<subseteq> exclCov q' h" "sharedCov q1 h \<subseteq> sharedCov q' h"
      using g(3) by (simp_all add: grows_def)
    with that show ?thesis by (simp add: e(2,3))
  qed
qed

section \<open>A sample run\<close>

definition sample_range :: "u32 \<Rightarrow> string \<Rightarrow> u32 \<Rightarrow> u64 \<Rightarrow> u64 \<Rightarrow> RangeLockDetails" where
  "sample_range c ack flags s e =
     \<lparr>rl_clientNumID = c, rl_ownerPID = 7, rl_lockAckID = ack, rl_lockTypeFlags = flags,
      rl_start = s, rl_end = e\<rparr>"

text \<open>Client 1 writes bytes 0 to 99, client 2 waits to write 50 to 149, client 3 reads 200 to 299.\<close>

definition three_clients :: "range_op list" where
  "three_clients =
     [FlockRange (sample_range 1 ''a'' 2 0 99), FlockRange (sample_range 2 ''b'' 2 50 149),
      FlockRange (sample_range 3 ''c'' 4 200 299)]"

definition three_clients_state :: RangeLockState where
  "three_clients_state =
     \<lparr>exclRangeFLocks = [sample_range 1 ''a'' 2 0 99],
      sharedRangeFLocks = [sample_range 3 ''c'' 4 200 299],
      waitersExclRangeFLock = [sample_range 2 ''b'' 2 50 149],
      waitersSharedRangeFLock = [], waitersLockIDsRangeFLock = {''b''}\<rparr>"

lemma three_clients_result: "fold range_exec three_clients range_init = three_clients_state"
  by code_simp

lemma range_reachable_fold:
  "range_reachable q \<Longrightarrow> list_all range_op_valid ops \<Longrightarrow> range_reachable (fold range_exec ops q)"
  by (induction ops arbitrary: q) (auto intro: range_reachable.step)

lemma three_clients_reachable: "range_reachable three_clients_state"
proof -
  have "list_all range_op_valid three_clients" by code_simp
  from range_reachable_fold [OF range_reachable.init this] show ?thesis
    by (simp only: three_clients_result)
qed

lemma three_clients_inv:
  "range_inv three_clients_state" "locks_wf three_clients_state" "queues_wf three_clients_state"
  using range_reachable_inv [OF three_clients_reachable] by (simp_all add: range_inv_def)

text \<open>
  A process that waits to write a range and reads it meanwhile comes to hold the bytes exclusively and shared: its waiting
  request is granted without unlocking what it locked since.
\<close>

definition lock_twice :: "range_op list" where
  "lock_twice =
     [FlockRange (sample_range 2 ''a'' 4 0 9), FlockRange (sample_range 1 ''b'' 2 0 9),
      FlockRange (sample_range 1 ''c'' 4 0 9), FlockRange (sample_range 2 ''d'' 1 0 9)]"

lemma lock_twice_state:
  "list_all range_op_valid lock_twice"
  "exclRangeFLocks (fold range_exec lock_twice range_init) = [sample_range 1 ''b'' 2 0 9]"
  "sharedRangeFLocks (fold range_exec lock_twice range_init) = [sample_range 1 ''c'' 4 0 9]"
  by code_simp+

section \<open>Properties\<close>

text \<open>
  C12. Mutual exclusion of bytes: in every reachable state of the range locks of a file, a byte
  that one process has locked exclusively is not locked by any other process, exclusively or
  shared.
\<close>

theorem range_mutual_exclusion:
  assumes "range_reachable q" and "h \<noteq> h'"
  shows "exclCov q h \<inter> lockedBytes q h' = {}"
  using range_reachable_inv [OF assms(1)] assms(2) by (simp add: range_inv_def excl_disjoint)

theorem range_mutual_exclusion_witness:
  "exclCov three_clients_state (RangeHandle 1 7) \<inter> lockedBytes three_clients_state (RangeHandle 3 7) = {}"
  by (rule range_mutual_exclusion [OF three_clients_reachable]) simp

text \<open>
  C13. No lost wakeup: in every reachable state both lock sets and both queues are well formed,
  and every queued request is blocked by bytes that another process holds or by an earlier
  waiting writer of another process.
\<close>

theorem range_reachable_invariant:
  assumes "range_reachable q"
  shows "locks_wf q \<and> queues_wf q \<and> range_live q"
  using range_reachable_inv [OF assms] by (simp add: range_inv_def)

theorem range_reachable_invariant_witness:
  "blocked (sample_range 2 ''b'' 2 50 149) [] three_clients_state"
  using range_reachable_invariant [OF three_clients_reachable]
  by (simp add: range_live_def three_clients_state_def)

text \<open>
  C18. What unlocking a range does to the bytes. It changes no byte of another process. The range is taken
  from the exclusive bytes of the owner, and from its shared bytes unless the owner holds the whole range exclusively: then the
  search ends at the exclusive lock, and bytes of the range that the owner holds shared as well stay locked. So the
  owner has nothing of the range afterwards exactly if it did not hold all of it exclusively and some of it shared.
  The result says whether the owner had a byte of the range locked.
\<close>

theorem range_unlock_effect:
  assumes "locks_wf q" and "rl_ok d" and "flockRangeUnlock d q = (t, q')"
  shows "(\<forall>h. exclCov q' h = exclCov q h - (if h = rl_handle d then rl_range d else {})) \<and>
         (\<forall>h. sharedCov q' h = sharedCov q h -
            (if h = rl_handle d \<and> \<not> rl_range d \<subseteq> exclCov q h then rl_range d else {})) \<and>
         (rl_range d \<inter> lockedBytes q' (rl_handle d) = {} \<longleftrightarrow>
            \<not> (rl_range d \<subseteq> exclCov q (rl_handle d) \<and> rl_range d \<inter> sharedCov q (rl_handle d) \<noteq> {})) \<and>
         (t \<longleftrightarrow> rl_range d \<inter> lockedBytes q (rl_handle d) \<noteq> {})"
proof -
  have ok: "list_all rl_ok (exclRangeFLocks q)" "list_all rl_ok (sharedRangeFLocks q)"
    using assms(1) by (simp_all add: locks_wf_def apart_def)
  have "t \<longleftrightarrow> touches_own d (exclRangeFLocks q) \<or> touches_own d (sharedRangeFLocks q)"
    using assms(3) flockRangeUnlock_eq [OF assms(1,2)] by simp
  then have "t \<longleftrightarrow> rl_range d \<inter> lockedBytes q (rl_handle d) \<noteq> {}"
    unfolding touches_own_cov [OF assms(2) ok(1)] touches_own_cov [OF assms(2) ok(2)]
      lockedBytes_def exclCov_def sharedCov_def by blast
  moreover note effect = flockRangeUnlock_effect(2,3) [OF assms]
  moreover have "rl_range d \<inter> lockedBytes q' (rl_handle d) = {} \<longleftrightarrow>
      \<not> (rl_range d \<subseteq> exclCov q (rl_handle d) \<and> rl_range d \<inter> sharedCov q (rl_handle d) \<noteq> {})"
    unfolding lockedBytes_def effect by auto
  ultimately show ?thesis by blast
qed

theorem range_unlock_effect_witness:
  "rl_range (sample_range 1 ''e'' 1 0 9) \<inter>
     lockedBytes (snd (flockRangeUnlock (sample_range 1 ''e'' 1 0 9) (fold range_exec lock_twice range_init))) (RangeHandle 1 7) \<noteq> {} \<and>
   exclCov (snd (flockRangeUnlock (sample_range 1 ''d'' 1 10 19) three_clients_state)) (RangeHandle 1 7) =
     exclCov three_clients_state (RangeHandle 1 7) - {10..19}"
proof
  let ?q = "fold range_exec lock_twice range_init" and ?d = "sample_range 1 ''e'' 1 0 9"
  obtain t q' where r: "flockRangeUnlock ?d ?q = (t, q')" by (meson surj_pair)
  have "locks_wf ?q" using range_reachable_inv [OF range_reachable_fold [OF range_reachable.init lock_twice_state(1)]] by (simp add: range_inv_def)
  moreover have "rl_ok ?d" by code_simp
  moreover have "0 \<in> rl_range ?d \<inter> sharedCov ?q (RangeHandle 1 7)" "rl_range ?d \<subseteq> exclCov ?q (RangeHandle 1 7)" "rl_handle ?d = RangeHandle 1 7"
    by (simp_all add: exclCov_def sharedCov_def lock_twice_state(2,3) cov_Cons rl_handle_def rl_range_def sample_range_def)
  ultimately show "rl_range ?d \<inter> lockedBytes (snd (flockRangeUnlock ?d ?q)) (RangeHandle 1 7) \<noteq> {}"
    using range_unlock_effect [OF _ _ r] r by auto
next
  let ?d = "sample_range 1 ''d'' 1 10 19"
  obtain t q' where r: "flockRangeUnlock ?d three_clients_state = (t, q')" by (meson surj_pair)
  have "rl_ok ?d" by code_simp
  from range_unlock_effect [OF three_clients_inv(2) this r] r
  show "exclCov (snd (flockRangeUnlock ?d three_clients_state)) (RangeHandle 1 7) = exclCov three_clients_state (RangeHandle 1 7) - {10..19}"
    by (simp add: rl_handle_def sample_range_def rl_range_def)
qed

text \<open>
  C19. The unlock loops compute a cut: walking the sets while erasing, trimming, splitting and
  re-inserting elements gives exactly the list in which every overlapping lock of the owner is
  replaced by the at most two pieces outside the range.
\<close>

theorem range_unlock_reference:
  assumes "locks_wf q" and "rl_ok d"
  shows "flockRangeUnlock d q =
     (touches_own d (exclRangeFLocks q) \<or> touches_own d (sharedRangeFLocks q),
      q\<lparr>exclRangeFLocks := range_cut d (exclRangeFLocks q),
        sharedRangeFLocks :=
          (if within_own d (exclRangeFLocks q) then sharedRangeFLocks q
           else range_cut d (sharedRangeFLocks q))\<rparr>)"
  using assms by (rule flockRangeUnlock_eq)

theorem range_unlock_reference_witness:
  "exclRangeFLocks (snd (flockRangeUnlock (sample_range 1 ''d'' 1 10 19) three_clients_state)) =
   [sample_range 1 ''a'' 2 0 9, sample_range 1 ''a'' 2 20 99]"
proof -
  have "rl_ok (sample_range 1 ''d'' 1 10 19)" by code_simp
  from range_unlock_reference [OF three_clients_inv(2) this] show ?thesis
    by (simp add: three_clients_state_def range_cut_def rl_cut_def sample_range_def
        rl_equalsHandle_def rl_overlaps_def)
qed

text \<open>
  C20. A lock request that is answered positively holds its whole range afterwards, and no other
  process holds a byte of it exclusively; for an exclusive request no other process holds a
  byte of it at all.
\<close>

theorem range_grant_holds:
  assumes "range_reachable q" and "lock_request d" and "flockRangeUnlocked d q = (True, ns, q')"
    and "h \<noteq> rl_handle d"
  shows "holds_range d q' \<and>
         rl_range d \<inter> (if rl_isExclusive d then lockedBytes q' h else exclCov q' h) = {}"
proof -
  have inv: "range_inv q" using assms(1) by (rule range_reachable_inv)
  have "rl_valid d" using assms(2) by (simp add: rl_valid_def lock_request_def)
  from request_inv [OF inv this assms(3)] have wf: "locks_wf q'" by (simp add: range_inv_def)
  have held: "holds_range d q'" using granted_holds [OF inv assms(2,3)] by simp
  have "exclCov q' (rl_handle d) \<inter> lockedBytes q' h = {}" "exclCov q' h \<inter> lockedBytes q' (rl_handle d) = {}"
    using excl_disjoint [OF wf] assms(4) by auto
  with held show ?thesis by (auto simp: holds_range_def lockedBytes_def split: if_splits)
qed

theorem range_grant_holds_witness:
  "rl_range (sample_range 4 ''e'' 4 210 399) \<inter>
     exclCov (snd (snd (flockRangeUnlocked (sample_range 4 ''e'' 4 210 399) three_clients_state)))
       (RangeHandle 1 7) = {}"
proof -
  let ?d = "sample_range 4 ''e'' 4 210 399"
  obtain g ns q' where r: "flockRangeUnlocked ?d three_clients_state = (g, ns, q')"
    using prod_cases3 by blast
  have "fst (flockRangeUnlocked ?d three_clients_state)" "lock_request ?d" "\<not> rl_isExclusive ?d"
    by code_simp+
  with r range_grant_holds [OF three_clients_reachable, of ?d ns q' "RangeHandle 1 7"] show ?thesis
    by (simp add: rl_handle_def sample_range_def)
qed

text \<open>
  Looking for a granted lock decides coverage: although the loop gives up at the first own
  lock that overlaps the range only partially, it answers yes exactly when every byte of the
  range is locked by the requester in the requested mode.
\<close>

theorem range_isGranted_coverage:
  assumes "range_reachable q" and "lock_request d"
  shows "flockRangeIsGranted d q \<longleftrightarrow>
           rl_range d \<subseteq> (if rl_isExclusive d then exclCov q (rl_handle d) else sharedCov q (rl_handle d))"
  using isGranted_holds [OF _ assms(2)] range_reachable_inv [OF assms(1)]
  by (simp add: range_inv_def holds_range_def)

theorem range_isGranted_coverage_witness:
  "rl_range (sample_range 1 ''f'' 2 5 20) \<subseteq> exclCov three_clients_state (RangeHandle 1 7)"
proof -
  let ?d = "sample_range 1 ''f'' 2 5 20"
  have "lock_request ?d" "flockRangeIsGranted ?d three_clients_state" "rl_isExclusive ?d"
    by code_simp+
  with range_isGranted_coverage [OF three_clients_reachable, of ?d] show ?thesis
    by (simp add: rl_handle_def sample_range_def)
qed

text \<open>
  The conflict check is exact, although it stops early in the set of exclusive locks: it
  finds a conflictor exactly when another process holds a byte of the range in a conflicting
  mode or waits to write one, and what it returns is such a lock or waiter.
\<close>

theorem range_conflict_exact:
  assumes "range_reachable q" and "rl_ok d"
  shows "(flockRangeGetConflictor d q \<noteq> None \<longleftrightarrow> blocked d (waitersExclRangeFLock q) q) \<and>
         (\<forall>c. flockRangeGetConflictor d q = Some c \<longrightarrow>
            conflictsWith d c \<and>
            c \<in> set (exclRangeFLocks q) \<union> set (sharedRangeFLocks q) \<union> set (waitersExclRangeFLock q))"
proof -
  have wf: "locks_wf q" "queues_wf q"
    using range_reachable_inv [OF assms(1)] by (simp_all add: range_inv_def)
  have "conflictsWith d c \<and>
      c \<in> set (exclRangeFLocks q) \<union> set (sharedRangeFLocks q) \<union> set (waitersExclRangeFLock q)"
    if "flockRangeGetConflictor d q = Some c" for c
    using that find_conflict_stop [of "exclRangeFLocks q" d] wf(1) checkExclWaiters_all [of "- 1" d]
    by (auto simp: flockRangeGetConflictor_def flockRangeCheckConflicts_def
        flockRangeCheckConflictsEx_def locks_wf_def find_Some_iff split: option.splits if_splits)
  with checkConflicts_blocked [OF wf assms(2)] show ?thesis
    by (simp add: flockRangeGetConflictor_def)
qed

theorem range_conflict_exact_witness:
  "blocked (sample_range 4 ''g'' 4 120 130) (waitersExclRangeFLock three_clients_state) three_clients_state"
proof -
  let ?d = "sample_range 4 ''g'' 4 120 130"
  have "rl_ok ?d" "flockRangeGetConflictor ?d three_clients_state \<noteq> None" by code_simp+
  with range_conflict_exact [OF three_clients_reachable, of ?d] show ?thesis by blast
qed

text \<open>
  Range lock requests may be resent: answering the same proper lock request a second time
  changes nothing and notifies nobody, and a granted request is answered as granted.
\<close>

theorem range_retry_idempotent:
  assumes "range_reachable q" and d: "lock_request d" and res: "flockRangeUnlocked d q = (g, ns, q')"
  shows "\<exists>g'. flockRangeUnlocked d q' = (g', [], q') \<and> (g \<longrightarrow> g')"
proof -
  have inv: "range_inv q" using assms(1) by (rule range_reachable_inv)
  have valid: "rl_valid d" using d by (simp add: rl_valid_def lock_request_def)
  have wf': "locks_wf q'" using request_inv [OF inv valid res] by (simp add: range_inv_def)
  show ?thesis
  proof (cases g)
    case True
    then have "holds_range d q'" "rl_lockAckID d \<notin> waitersLockIDsRangeFLock q'"
      using granted_holds [OF inv d] res by simp_all
    with isGranted_holds [OF wf' d] d have "flockRangeUnlocked d q' = (True, [], q')"
      by (simp add: flockRangeUnlocked_def lock_request_def)
    then show ?thesis by blast
  next
    case False
    from res have "(\<exists>g. flockRangeUnlocked d q' = (g, [], q'))"
    proof (cases rule: flockRangeUnlocked_cases)
      case waiting
      then show ?thesis using repeat_unchanged [OF wf' d] by simp
    next
      case (lock t g1 q1)
      note fin = range_inv_finish [OF rangeRequest_step(1,2,4) [OF inv d lock(3,5)] lock(6)]
      have conf: "flockRangeCheckConflicts d q \<noteq> None"
        using rangeRequest_granted(1) [OF _ _ d _ lock(5)] inv fin(2) False by (auto simp: range_inv_def)
      show ?thesis
      proof (cases "rl_allowsWaiting d")
        case True
        then show ?thesis
          using waiting_waits_or_holds [OF inv d lock(3) conf _ lock(5,6)] repeat_unchanged [OF wf' d]
          by simp
      next
        case False
        with rangeRequest_refused [OF conf] lock(5,6) have "q' = q \<and> ns = []"
          by (simp add: flockRangeFinish_def)
        with res show ?thesis by auto
      qed
    qed (use False d in \<open>auto simp: lock_request_def flockRangeFinish_def split: if_splits prod.splits\<close>)
    with False show ?thesis by blast
  qed
qed

theorem range_retry_idempotent_witness:
  "snd (flockRangeUnlocked (sample_range 4 ''g'' 4 120 130)
     (snd (snd (flockRangeUnlocked (sample_range 4 ''g'' 4 120 130) three_clients_state)))) =
   ([], snd (snd (flockRangeUnlocked (sample_range 4 ''g'' 4 120 130) three_clients_state)))"
proof -
  let ?d = "sample_range 4 ''g'' 4 120 130"
  obtain g ns q' where r: "flockRangeUnlocked ?d three_clients_state = (g, ns, q')"
    using prod_cases3 by blast
  have "lock_request ?d" by code_simp
  from range_retry_idempotent [OF three_clients_reachable this r] r show ?thesis by auto
qed

text \<open>
  A cancel request always succeeds, removes every lock and every waiter of its process and
  takes no byte from any other process.
\<close>

theorem range_cancel_complete:
  assumes "range_reachable q" and "rl_isCancel d" and "flockRangeUnlocked d q = (g, ns, q')"
  shows "g \<and> lockedBytes q' (rl_handle d) = {} \<and>
         (\<forall>w \<in> set (waitersExclRangeFLock q' @ waitersSharedRangeFLock q'). \<not> rl_equalsHandle d w) \<and>
         (\<forall>h. h \<noteq> rl_handle d \<longrightarrow> exclCov q h \<subseteq> exclCov q' h \<and> sharedCov q h \<subseteq> sharedCov q' h)"
proof -
  have wf: "locks_wf q" "queues_wf q" "range_live q"
    using range_reachable_inv [OF assms(1)] by (simp_all add: range_inv_def)
  obtain t q1 where c: "cancelMatchingRange (rl_equalsHandle d) q = (t, q1)"
    "flockRangeFinish t True q1 = (g, ns, q')"
    using assms(3,2) by (cases rule: flockRangeUnlocked_cases) auto
  have P: "rl_equalsHandle d l \<longleftrightarrow> rl_handle l = rl_handle d" for l by (auto simp: equalsHandle_handle)
  note e = cancelMatchingRange_effect [OF wf(1) P c(1)]
  have q1: "queues_wf q1" "\<not> t \<Longrightarrow> range_live q1"
    using queues_wf_cancel [OF wf(2), of "rl_equalsHandle d"] c(1) e(6) wf(3) by auto
  note f = range_inv_finish [OF e(1) q1 c(2)]
  show ?thesis using cancelled_gone [OF wf(1) P c(1) f(3)] f(2) by blast
qed

theorem range_cancel_complete_witness:
  "lockedBytes (snd (snd (flockRangeUnlocked (sample_range 1 ''z'' 16 0 0) three_clients_state)))
     (RangeHandle 1 7) = {}"
proof -
  let ?d = "sample_range 1 ''z'' 16 0 0"
  obtain g ns q' where r: "flockRangeUnlocked ?d three_clients_state = (g, ns, q')"
    using prod_cases3 by blast
  have "rl_isCancel ?d" by code_simp
  from range_cancel_complete [OF three_clients_reachable this r] r show ?thesis
    by (simp add: rl_handle_def sample_range_def)
qed

text \<open>
  Removing a client removes every range lock and every waiter of all its processes and takes
  no byte from the processes of other clients.
\<close>

theorem range_cancel_client_complete:
  assumes "range_reachable q" and "flockRangeCancelByClientID c q = (ns, q')"
  shows "(\<forall>p. lockedBytes q' (RangeHandle c p) = {}) \<and>
         (\<forall>w \<in> set (waitersExclRangeFLock q' @ waitersSharedRangeFLock q'). rl_clientNumID w \<noteq> c) \<and>
         (\<forall>c' p. c' \<noteq> c \<longrightarrow> exclCov q (RangeHandle c' p) \<subseteq> exclCov q' (RangeHandle c' p) \<and>
                           sharedCov q (RangeHandle c' p) \<subseteq> sharedCov q' (RangeHandle c' p))"
proof -
  have inv: "range_inv q" using assms(1) by (rule range_reachable_inv)
  obtain t q1 where s: "cancelMatchingRange (\<lambda>l. rl_clientNumID l = c) q = (t, q1)" "locks_wf q1"
    "queues_wf q1" "\<not> t \<Longrightarrow> range_live q1" "flockRangeFinish t True q1 = (True, ns, q')"
    using cancelByClient_step [OF inv assms(2)] by blast
  have P: "(rl_clientNumID l = c) \<longleftrightarrow> client_of c (rl_handle l)" for l
    by (simp add: client_of_def rl_handle_def)
  have Q: "client_of c (RangeHandle c' p) \<longleftrightarrow> c' = c" for c' p by (simp add: client_of_def)
  note f = range_inv_finish [OF s(2-5)]
  have "locks_wf q" using inv by (simp add: range_inv_def)
  note g = cancelled_gone [OF this P s(1) f(3)]
  show ?thesis using g(1) [of "RangeHandle c _"] g(2) g(3) [of "RangeHandle _ _"] Q by simp
qed

theorem range_cancel_client_complete_witness:
  "lockedBytes (snd (flockRangeCancelByClientID 1 three_clients_state)) (RangeHandle 1 7) = {}"
proof -
  obtain ns q' where r: "flockRangeCancelByClientID 1 three_clients_state = (ns, q')" by force
  from range_cancel_client_complete [OF three_clients_reachable r] r show ?thesis by simp
qed

text \<open>
  A request of one process never takes a byte from another process: whatever it asks for
  (lock, unlock, cancel), every other process keeps all bytes it has locked, in their mode.
\<close>

theorem range_others_keep:
  assumes "range_reachable q" and "rl_valid d" and "flockRangeUnlocked d q = (g, ns, q')"
    and "h \<noteq> rl_handle d"
  shows "exclCov q h \<subseteq> exclCov q' h \<and> sharedCov q h \<subseteq> sharedCov q' h"
proof -
  have inv: "range_inv q" using assms(1) by (rule range_reachable_inv)
  from inv assms(2,3) show ?thesis
  proof (cases rule: request_steps)
    case same
    then show ?thesis by simp
  next
    case (step t q1)
    note r = grant_resultD(3) [OF range_inv_finish(3) [OF step(1,2,4,5)]]
    then have "exclCov q1 h \<subseteq> exclCov q' h" "sharedCov q1 h \<subseteq> sharedCov q' h"
      by (simp_all add: grows_def)
    with step(3) assms(4) show ?thesis by (simp add: others_same_def)
  qed
qed

theorem range_others_keep_witness:
  "sharedCov three_clients_state (RangeHandle 3 7) \<subseteq>
   sharedCov (snd (snd (flockRangeUnlocked (sample_range 1 ''d'' 1 10 19) three_clients_state)))
     (RangeHandle 3 7)"
proof -
  let ?d = "sample_range 1 ''d'' 1 10 19"
  obtain g ns q' where r: "flockRangeUnlocked ?d three_clients_state = (g, ns, q')"
    using prod_cases3 by blast
  have "rl_valid ?d" by code_simp
  from range_others_keep [OF three_clients_reachable this r, of "RangeHandle 3 7"] r show ?thesis
    by (simp add: rl_handle_def sample_range_def)
qed



end
