(* ===== verification/Serdes.thy ===== *)
theory Serdes
  imports BG_Prelude
begin

text \<open>
  The wire format of the client module: \<^verbatim>\<open>SerializeCtx\<close>, \<^verbatim>\<open>DeserializeCtx\<close>
  and the fixed-size values (\<^verbatim>\<open>client_module/source/common/toolkit/Serialization.h\<close>,
  \<^verbatim>\<open>SerializationTypes.h\<close>).

  A serializer either writes into a buffer or, when the context has no buffer, only counts the
  length; writing behind the end of the buffer is the result \<^const>\<open>None\<close>. A deserializer
  reads a fixed buffer through a pointer (an offset) and a remaining length of type
  \<^verbatim>\<open>size_t\<close>; it returns a value and the advanced context, rejects the input, or reads
  outside the buffer. The contracts of both directions are locales that every codec of the
  library interprets.
\<close>

section \<open>Contexts\<close>

record SerializeCtx =
  sc_data :: "bytes option"
  sc_length :: u32

record DeserializeCtx =
  dc_data :: nat
  dc_length :: u64

datatype 'a dres = Ok 'a | Rejected | OutOfBounds

definition dbind :: "'a dres \<Rightarrow> ('a \<Rightarrow> 'b dres) \<Rightarrow> 'b dres" where
  "dbind r f = (case r of Ok x \<Rightarrow> f x | Rejected \<Rightarrow> Rejected | OutOfBounds \<Rightarrow> OutOfBounds)"

lemma dbind_simps [simp]:
  "dbind (Ok x) f = f x" "dbind Rejected f = Rejected" "dbind OutOfBounds f = OutOfBounds"
  by (simp_all add: dbind_def)

definition buf_read :: "bytes \<Rightarrow> nat \<Rightarrow> nat \<Rightarrow> bytes option" where
  "buf_read buf off n = (if off + n \<le> length buf then Some (take n (drop off buf)) else None)"

definition buf_write :: "bytes \<Rightarrow> nat \<Rightarrow> bytes \<Rightarrow> bytes" where
  "buf_write buf off bs = take off buf @ bs @ drop (off + length bs) buf"

definition advance :: "nat \<Rightarrow> DeserializeCtx \<Rightarrow> DeserializeCtx" where
  "advance n ctx = ctx\<lparr>dc_data := dc_data ctx + n, dc_length := dc_length ctx - of_nat n\<rparr>"

section \<open>Little-endian words\<close>

text \<open>\<^verbatim>\<open>put_unaligned_le*\<close> and \<^verbatim>\<open>get_unaligned_le*\<close>.\<close>

fun le_put :: "nat \<Rightarrow> 'a::len word \<Rightarrow> bytes" where
  "le_put 0 w = []"
| "le_put (Suc n) w = ucast w # le_put n (drop_bit 8 w)"

fun le_get :: "bytes \<Rightarrow> 'a::len word" where
  "le_get [] = 0"
| "le_get (b # bs) = ucast b OR push_bit 8 (le_get bs)"

lemma length_le_put [simp]: "length (le_put n w) = n"
  by (induction n arbitrary: w) auto

lemma le_put_Nil [simp]: "le_put n w = [] \<longleftrightarrow> n = 0"
  by (cases n) auto

lemma le_get_put: "le_get (le_put n w) = take_bit (8 * n) (w :: 'a::len word)"
proof (induction n arbitrary: w)
  case (Suc n)
  show ?case
  proof (rule bit_word_eqI)
    fix i assume "i < LENGTH('a)"
    then show "bit (le_get (le_put (Suc n) w) :: 'a word) i = bit (take_bit (8 * Suc n) w) i"
      by (auto simp: Suc bit_simps)
  qed
qed simp

lemma le_get_put_full: "LENGTH('a) \<le> 8 * n \<Longrightarrow> le_get (le_put n w) = (w :: 'a::len word)"
  by (simp add: le_get_put take_bit_word_eq_self)

lemma le_get_bits: "bit (le_get bs :: 'a::len word) i \<Longrightarrow> i < 8 * length bs"
proof (induction bs arbitrary: i)
  case (Cons b bs)
  show ?case
  proof (cases "i < 8")
    case False
    with Cons.prems have "bit (le_get bs :: 'a word) (i - 8)"
      by (auto simp: bit_simps dest: bit_imp_le_length)
    with Cons.IH [of "i - 8"] False show ?thesis by simp
  qed simp
qed simp

lemma le_put_get:
  assumes "8 * length bs \<le> LENGTH('a::len)"
  shows "le_put (length bs) (le_get bs :: 'a word) = bs"
  using assms
proof (induction bs)
  case (Cons b bs)
  have "ucast (ucast b OR push_bit 8 (le_get bs) :: 'a word) = b"
    by (rule bit_word_eqI) (use Cons.prems in \<open>auto simp: bit_simps\<close>)
  moreover have "drop_bit 8 (ucast b OR push_bit 8 (le_get bs) :: 'a word) = le_get bs"
  proof (rule bit_word_eqI)
    fix i assume "i < LENGTH('a)"
    show "bit (drop_bit 8 (ucast b OR push_bit 8 (le_get bs) :: 'a word)) i = bit (le_get bs :: 'a word) i"
      using Cons.prems le_get_bits [of bs i, where 'a = 'a]
      by (auto simp: bit_simps dest: bit_imp_le_length)
  qed
  ultimately show ?case using Cons by simp
qed simp

section \<open>Blocks and fixed-size values\<close>

definition Serialization_serializeBlock :: "bytes \<Rightarrow> SerializeCtx \<Rightarrow> SerializeCtx option" where
  "Serialization_serializeBlock bs ctx =
     (case sc_data ctx of
        None \<Rightarrow> Some (ctx\<lparr>sc_length := sc_length ctx + of_nat (length bs)\<rparr>)
      | Some buf \<Rightarrow>
          if bs = [] \<or> unat (sc_length ctx) + length bs \<le> length buf
          then Some (ctx\<lparr>sc_data := Some (buf_write buf (unat (sc_length ctx)) bs),
                         sc_length := sc_length ctx + of_nat (length bs)\<rparr>)
          else None)"

definition deserializeRaw ::
    "nat \<Rightarrow> (bytes \<Rightarrow> 'a) \<Rightarrow> bytes \<Rightarrow> DeserializeCtx \<Rightarrow> ('a \<times> DeserializeCtx) dres" where
  "deserializeRaw sz convert buf ctx =
     (if of_nat sz \<le> dc_length ctx then
        (case buf_read buf (dc_data ctx) sz of
           None \<Rightarrow> OutOfBounds
         | Some bs \<Rightarrow> Ok (convert bs, advance sz ctx))
      else Rejected)"

definition Serialization_serialLenChar :: u32 where "Serialization_serialLenChar = 1"
definition Serialization_serialLenUInt8 :: u32 where
  "Serialization_serialLenUInt8 = Serialization_serialLenChar"
definition Serialization_serialLenUShort :: u32 where "Serialization_serialLenUShort = 2"
definition Serialization_serialLenUInt :: u32 where "Serialization_serialLenUInt = 4"
definition Serialization_serialLenUInt64 :: u32 where "Serialization_serialLenUInt64 = 8"
definition Serialization_serialLenInt64 :: u32 where
  "Serialization_serialLenInt64 = Serialization_serialLenUInt64"

lemmas serialLen_defs = Serialization_serialLenChar_def Serialization_serialLenUInt8_def
  Serialization_serialLenUShort_def Serialization_serialLenUInt_def Serialization_serialLenUInt64_def
  Serialization_serialLenInt64_def

definition Serialization_serializeChar :: "u8 \<Rightarrow> SerializeCtx \<Rightarrow> SerializeCtx option" where
  "Serialization_serializeChar v = Serialization_serializeBlock [v]"

definition Serialization_deserializeChar ::
    "bytes \<Rightarrow> DeserializeCtx \<Rightarrow> (u8 \<times> DeserializeCtx) dres" where
  "Serialization_deserializeChar = deserializeRaw 1 hd"

definition Serialization_serializeBool :: "bool \<Rightarrow> SerializeCtx \<Rightarrow> SerializeCtx option" where
  "Serialization_serializeBool v = Serialization_serializeChar (if v then 1 else 0)"

definition Serialization_deserializeBool ::
    "bytes \<Rightarrow> DeserializeCtx \<Rightarrow> (bool \<times> DeserializeCtx) dres" where
  "Serialization_deserializeBool buf ctx =
     dbind (Serialization_deserializeChar buf ctx) (\<lambda>(charVal, ctx). Ok (charVal \<noteq> 0, ctx))"

definition Serialization_serializeUInt8 :: "u8 \<Rightarrow> SerializeCtx \<Rightarrow> SerializeCtx option" where
  "Serialization_serializeUInt8 v = Serialization_serializeChar v"

definition Serialization_deserializeUInt8 ::
    "bytes \<Rightarrow> DeserializeCtx \<Rightarrow> (u8 \<times> DeserializeCtx) dres" where
  "Serialization_deserializeUInt8 = Serialization_deserializeChar"

definition Serialization_serializeUShort :: "u16 \<Rightarrow> SerializeCtx \<Rightarrow> SerializeCtx option" where
  "Serialization_serializeUShort v = Serialization_serializeBlock (le_put 2 v)"

definition Serialization_deserializeUShort ::
    "bytes \<Rightarrow> DeserializeCtx \<Rightarrow> (u16 \<times> DeserializeCtx) dres" where
  "Serialization_deserializeUShort = deserializeRaw 2 le_get"

definition Serialization_serializeUInt :: "u32 \<Rightarrow> SerializeCtx \<Rightarrow> SerializeCtx option" where
  "Serialization_serializeUInt v = Serialization_serializeBlock (le_put 4 v)"

definition Serialization_deserializeUInt ::
    "bytes \<Rightarrow> DeserializeCtx \<Rightarrow> (u32 \<times> DeserializeCtx) dres" where
  "Serialization_deserializeUInt = deserializeRaw 4 le_get"

definition Serialization_serializeUInt64 :: "u64 \<Rightarrow> SerializeCtx \<Rightarrow> SerializeCtx option" where
  "Serialization_serializeUInt64 v = Serialization_serializeBlock (le_put 8 v)"

definition Serialization_deserializeUInt64 ::
    "bytes \<Rightarrow> DeserializeCtx \<Rightarrow> (u64 \<times> DeserializeCtx) dres" where
  "Serialization_deserializeUInt64 = deserializeRaw 8 le_get"

text \<open>
  The signed variants reinterpret the bits; words carry no sign, so they are the same functions
  on the same type.
\<close>

definition Serialization_serializeInt64 :: "u64 \<Rightarrow> SerializeCtx \<Rightarrow> SerializeCtx option" where
  "Serialization_serializeInt64 v = Serialization_serializeUInt64 v"

definition Serialization_deserializeInt64 ::
    "bytes \<Rightarrow> DeserializeCtx \<Rightarrow> (u64 \<times> DeserializeCtx) dres" where
  "Serialization_deserializeInt64 = Serialization_deserializeUInt64"

definition Serialization_serializeInt :: "u32 \<Rightarrow> SerializeCtx \<Rightarrow> SerializeCtx option" where
  "Serialization_serializeInt v = Serialization_serializeUInt v"

definition Serialization_deserializeInt ::
    "bytes \<Rightarrow> DeserializeCtx \<Rightarrow> (u32 \<times> DeserializeCtx) dres" where
  "Serialization_deserializeInt = Serialization_deserializeUInt"

definition Serialization_serializeShort :: "u16 \<Rightarrow> SerializeCtx \<Rightarrow> SerializeCtx option" where
  "Serialization_serializeShort v = Serialization_serializeUShort v"

definition Serialization_deserializeShort ::
    "bytes \<Rightarrow> DeserializeCtx \<Rightarrow> (u16 \<times> DeserializeCtx) dres" where
  "Serialization_deserializeShort = Serialization_deserializeUShort"

section \<open>Contracts\<close>

text \<open>
  A serializer writes certain bytes when it behaves like copying that block, as long as the
  length does not exceed the 32-bit counter.
\<close>

definition writes :: "(SerializeCtx \<Rightarrow> SerializeCtx option) \<Rightarrow> bytes \<Rightarrow> bool" where
  "writes f bs \<longleftrightarrow>
     (\<forall>ctx. unat (sc_length ctx) + length bs < 2 ^ 32 \<longrightarrow> f ctx = Serialization_serializeBlock bs ctx)"

text \<open>A deserializer context describes a part of the buffer.\<close>

definition ctx_ok :: "bytes \<Rightarrow> DeserializeCtx \<Rightarrow> bool" where
  "ctx_ok buf ctx \<longleftrightarrow> dc_data ctx + unat (dc_length ctx) \<le> length buf"

definition at_ctx :: "bytes \<Rightarrow> DeserializeCtx \<Rightarrow> bytes \<Rightarrow> bool" where
  "at_ctx buf ctx bs \<longleftrightarrow>
     length bs \<le> unat (dc_length ctx) \<and> take (length bs) (drop (dc_data ctx) buf) = bs"

text \<open>
  A deserializer reads certain bytes as a value when it returns the value and steps behind the
  bytes wherever the context starts with them.
\<close>

definition reads :: "(bytes \<Rightarrow> DeserializeCtx \<Rightarrow> ('a \<times> DeserializeCtx) dres) \<Rightarrow> bytes \<Rightarrow> 'a \<Rightarrow> bool" where
  "reads g bs v \<longleftrightarrow>
     (\<forall>buf ctx. ctx_ok buf ctx \<longrightarrow> at_ctx buf ctx bs \<longrightarrow> g buf ctx = Ok (v, advance (length bs) ctx))"

text \<open>
  A deserializer is memory safe when it never leaves the part of the buffer it was given, and
  returns a context that is the unread rest of it.
\<close>

definition safe :: "(bytes \<Rightarrow> DeserializeCtx \<Rightarrow> ('a \<times> DeserializeCtx) dres) \<Rightarrow> bool" where
  "safe g \<longleftrightarrow>
     (\<forall>buf ctx. ctx_ok buf ctx \<longrightarrow>
        g buf ctx \<noteq> OutOfBounds \<and>
        (\<forall>v ctx'. g buf ctx = Ok (v, ctx') \<longrightarrow>
           (\<exists>n. n \<le> unat (dc_length ctx) \<and> ctx' = advance n ctx)))"

lemma advance_0 [simp]: "advance 0 ctx = ctx"
  by (simp add: advance_def)

lemma advance_advance: "advance n (advance m ctx) = advance (m + n) ctx"
  by (simp add: advance_def)

lemma dc_data_advance [simp]: "dc_data (advance n ctx) = dc_data ctx + n"
  by (simp add: advance_def)

lemma unat_advance:
  assumes "n \<le> unat (dc_length ctx)"
  shows "unat (dc_length (advance n ctx)) = unat (dc_length ctx) - n"
proof -
  have "unat (dc_length ctx) < 2 ^ LENGTH(64)" by (rule unsigned_less)
  with assms have "unat (of_nat n :: u64) = n" by (simp add: unat_of_nat)
  then have "of_nat n \<le> dc_length ctx" using assms by (simp add: word_le_nat_alt)
  then show ?thesis
    using \<open>unat (of_nat n :: u64) = n\<close> assms by (simp add: advance_def unat_sub_if')
qed

lemma ctx_ok_advance: "ctx_ok buf ctx \<Longrightarrow> n \<le> unat (dc_length ctx) \<Longrightarrow> ctx_ok buf (advance n ctx)"
  by (simp add: ctx_ok_def unat_advance)

lemma take_append_eq:
  "take (length (xs @ ys)) (drop n zs) = xs @ ys \<longleftrightarrow>
     take (length xs) (drop n zs) = xs \<and> take (length ys) (drop (n + length xs) zs) = ys"
proof (cases "length xs \<le> length (drop n zs)")
  case True
  then show ?thesis by (simp add: take_add add.commute)
next
  case False
  then have "length (take (length (xs @ ys)) (drop n zs)) \<noteq> length (xs @ ys)"
    "length (take (length xs) (drop n zs)) \<noteq> length xs" by simp_all
  then show ?thesis by metis
qed

lemma at_ctx_append:
  "at_ctx buf ctx (xs @ ys) \<longleftrightarrow>
     at_ctx buf ctx xs \<and> at_ctx buf (advance (length xs) ctx) ys" (is "?l \<longleftrightarrow> ?r")
proof (cases "length xs \<le> unat (dc_length ctx)")
  case True
  have "take (length (xs @ ys)) (drop (dc_data ctx) buf) = xs @ ys \<longleftrightarrow>
      take (length xs) (drop (dc_data ctx) buf) = xs \<and>
      take (length ys) (drop (dc_data ctx + length xs) buf) = ys"
    by (rule take_append_eq)
  with True show ?thesis by (auto simp: at_ctx_def unat_advance)
qed (simp add: at_ctx_def)

lemma safe_raw: "n < 2 ^ 64 \<Longrightarrow> safe (deserializeRaw n convert)"
  by (auto simp: safe_def deserializeRaw_def buf_read_def ctx_ok_def word_le_nat_alt unat_of_nat
      split: if_splits)

lemma reads_raw:
  assumes "length bs = n" "n < 2 ^ 64"
  shows "reads (deserializeRaw n convert) bs (convert bs)"
  using assms
  by (auto simp: reads_def deserializeRaw_def buf_read_def ctx_ok_def at_ctx_def word_le_nat_alt
      unat_of_nat)

lemma safe_bind:
  assumes g: "safe g" and f: "\<And>v. safe (f v)"
  shows "safe (\<lambda>buf ctx. dbind (g buf ctx) (\<lambda>(v, ctx). f v buf ctx))"
  unfolding safe_def
proof (intro allI impI)
  fix buf ctx assume ok: "ctx_ok buf ctx"
  show "dbind (g buf ctx) (\<lambda>(v, ctx). f v buf ctx) \<noteq> OutOfBounds \<and>
    (\<forall>w ctx''. dbind (g buf ctx) (\<lambda>(v, ctx). f v buf ctx) = Ok (w, ctx'') \<longrightarrow>
       (\<exists>n. n \<le> unat (dc_length ctx) \<and> ctx'' = advance n ctx))"
  proof (cases "g buf ctx")
    case (Ok r)
    obtain v ctx' where r: "r = (v, ctx')" by force
    with g ok Ok obtain n where n: "n \<le> unat (dc_length ctx)" "ctx' = advance n ctx"
      unfolding safe_def by blast
    have s: "f v buf ctx' \<noteq> OutOfBounds"
      "\<And>w ctx''. f v buf ctx' = Ok (w, ctx'') \<Longrightarrow>
         \<exists>m. m \<le> unat (dc_length ctx') \<and> ctx'' = advance m ctx'"
      using f [of v] ctx_ok_advance [OF ok n(1)] n(2) unfolding safe_def by blast+
    have "\<exists>k. k \<le> unat (dc_length ctx) \<and> ctx'' = advance k ctx" if fv: "f v buf ctx' = Ok (w, ctx'')" for w ctx''
    proof -
      obtain m where "m \<le> unat (dc_length ctx')" "ctx'' = advance m ctx'" using s(2) [OF fv] by blast
      then show ?thesis using n by (intro exI [of _ "n + m"]) (simp add: advance_advance unat_advance)
    qed
    with Ok r s(1) show ?thesis by simp
  qed (use g ok in \<open>auto simp: safe_def\<close>)
qed

lemma safe_Ok [simp]: "safe (\<lambda>buf ctx. Ok (v, ctx))"
  by (auto simp: safe_def intro: exI [of _ 0])

lemma safe_Rejected [simp]: "safe (\<lambda>buf ctx. Rejected)"
  by (simp add: safe_def)

lemma safe_if: "safe f \<Longrightarrow> safe g \<Longrightarrow> safe (\<lambda>buf ctx. if P then f buf ctx else g buf ctx)"
  by (cases P) simp_all

lemma reads_bind:
  assumes "reads g xs v" "reads (f v) ys w"
  shows "reads (\<lambda>buf ctx. dbind (g buf ctx) (\<lambda>(v, ctx). f v buf ctx)) (xs @ ys) w"
  unfolding reads_def
proof (intro allI impI)
  fix buf ctx assume ok: "ctx_ok buf ctx" and at: "at_ctx buf ctx (xs @ ys)"
  then have x: "at_ctx buf ctx xs" and y: "at_ctx buf (advance (length xs) ctx) ys"
    by (simp_all add: at_ctx_append)
  have "ctx_ok buf (advance (length xs) ctx)"
    using ok x by (intro ctx_ok_advance) (simp_all add: at_ctx_def)
  with assms ok x y show "dbind (g buf ctx) (\<lambda>(v, ctx). f v buf ctx) = Ok (w, advance (length (xs @ ys)) ctx)"
    by (simp add: reads_def advance_advance)
qed

lemma reads_Ok: "reads (\<lambda>buf ctx. Ok (v, ctx)) [] v"
  by (simp add: reads_def)

text \<open>Reading a last field and building the record.\<close>

lemma reads_last_field:
  "reads g bs v \<Longrightarrow> reads (\<lambda>buf ctx. dbind (g buf ctx) (\<lambda>(v, ctx). Ok (h v, ctx))) bs (h v)"
  using reads_bind [where f = "\<lambda>v buf ctx. Ok (h v, ctx)" and g = g and xs = bs and ys = "[]"]
  by (simp add: reads_Ok)

lemma reads_eq: "reads g bs v \<Longrightarrow> v = w \<Longrightarrow> reads g bs w"
  by simp

lemma safe_last_field: "safe g \<Longrightarrow> safe (\<lambda>buf ctx. dbind (g buf ctx) (\<lambda>(v, ctx). Ok (h v, ctx)))"
  using safe_bind [where f = "\<lambda>v buf ctx. Ok (h v, ctx)" and g = g] by simp

text \<open>Writing one block after another is writing their concatenation.\<close>

lemma buf_write_Nil [simp]: "buf_write buf off [] = buf"
  by (simp add: buf_write_def)

lemma buf_write_append:
  assumes "off + length (xs @ ys) \<le> length buf"
  shows "buf_write (buf_write buf off xs) (off + length xs) ys = buf_write buf off (xs @ ys)"
proof -
  have "length (take off buf) = off" using assms by simp
  then show ?thesis by (simp add: buf_write_def ac_simps)
qed

lemma serializeBlock_append:
  assumes "unat (sc_length ctx) + length (xs @ ys) < 2 ^ 32"
  shows "Option.bind (Serialization_serializeBlock xs ctx) (Serialization_serializeBlock ys) =
         Serialization_serializeBlock (xs @ ys) ctx"
proof -
  have len: "unat (sc_length ctx + of_nat (length xs)) = unat (sc_length ctx) + length xs"
    using assms by (subst unat_add_small) (simp_all add: unat_of_nat)
  show ?thesis
  proof (cases "sc_data ctx")
    case None
    then show ?thesis by (simp add: Serialization_serializeBlock_def add.assoc)
  next
    case (Some buf)
    have "length (buf_write buf (unat (sc_length ctx)) xs) = length buf"
      if "unat (sc_length ctx) + length xs \<le> length buf"
      using that by (simp add: buf_write_def)
    with Some len buf_write_append [of "unat (sc_length ctx)" xs ys buf] show ?thesis
      by (cases "xs = []"; cases "ys = []")
         (simp_all add: Serialization_serializeBlock_def add.assoc)
  qed
qed

lemma sc_length_serializeBlock:
  "Serialization_serializeBlock bs ctx = Some ctx' \<Longrightarrow> sc_length ctx' = sc_length ctx + of_nat (length bs)"
  by (auto simp: Serialization_serializeBlock_def split: option.splits if_splits)

lemma writes_bind:
  assumes "writes f xs" "writes g ys"
  shows "writes (\<lambda>ctx. Option.bind (f ctx) g) (xs @ ys)"
  unfolding writes_def
proof (intro allI impI)
  fix ctx :: SerializeCtx assume small: "unat (sc_length ctx) + length (xs @ ys) < 2 ^ 32"
  then have f: "f ctx = Serialization_serializeBlock xs ctx" using assms(1) by (simp add: writes_def)
  have "g ctx' = Serialization_serializeBlock ys ctx'" if "Serialization_serializeBlock xs ctx = Some ctx'" for ctx'
  proof -
    have "unat (sc_length ctx') = unat (sc_length ctx) + length xs"
      using small sc_length_serializeBlock [OF that]
      by (simp, subst unat_add_small) (simp_all add: unat_of_nat)
    then show ?thesis using assms(2) small by (simp add: writes_def)
  qed
  then show "Option.bind (f ctx) g = Serialization_serializeBlock (xs @ ys) ctx"
    unfolding f serializeBlock_append [OF small, symmetric]
    by (cases "Serialization_serializeBlock xs ctx") simp_all
qed

lemma writes_Some: "writes Some []"
  by (simp add: writes_def Serialization_serializeBlock_def split: option.splits)

section \<open>Codecs\<close>

text \<open>
  The interface of a serializer and its deserializer: on the values of a domain both agree on
  an encoding. What follows holds for every codec: the dry run returns the exact length, a
  buffer of that size suffices, and what was written is read back.
\<close>

locale codec =
  fixes ser :: "'a \<Rightarrow> SerializeCtx \<Rightarrow> SerializeCtx option"
    and des :: "bytes \<Rightarrow> DeserializeCtx \<Rightarrow> ('a \<times> DeserializeCtx) dres"
    and enc :: "'a \<Rightarrow> bytes"
    and dom :: "'a \<Rightarrow> bool"
  assumes ser_writes: "dom x \<Longrightarrow> writes (ser x) (enc x)"
    and des_reads: "dom x \<Longrightarrow> reads des (enc x) x"
begin

lemma dry_run:
  assumes "dom x" "unat l + length (enc x) < 2 ^ 32"
  shows "ser x \<lparr>sc_data = None, sc_length = l\<rparr> =
           Some \<lparr>sc_data = None, sc_length = l + of_nat (length (enc x))\<rparr>"
  using assms ser_writes [OF assms(1)] by (simp add: writes_def Serialization_serializeBlock_def)

lemma real_run:
  assumes "dom x" "unat l + length (enc x) \<le> length buf" "length buf < 2 ^ 32"
  shows "ser x \<lparr>sc_data = Some buf, sc_length = l\<rparr> =
           Some \<lparr>sc_data = Some (buf_write buf (unat l) (enc x)),
                 sc_length = l + of_nat (length (enc x))\<rparr>"
  using assms ser_writes [OF assms(1)] by (simp add: writes_def Serialization_serializeBlock_def)

lemma read_back:
  assumes "dom x" "off + length (enc x) \<le> length buf" "length buf < 2 ^ 64"
  shows "des (buf_write buf off (enc x)) \<lparr>dc_data = off, dc_length = of_nat (length buf - off)\<rparr> =
           Ok (x, advance (length (enc x)) \<lparr>dc_data = off, dc_length = of_nat (length buf - off)\<rparr>)"
proof -
  let ?c = "\<lparr>dc_data = off, dc_length = of_nat (length buf - off)\<rparr> :: DeserializeCtx"
  have len: "unat (dc_length ?c) = length buf - off" using assms(3) by (simp add: unat_of_nat)
  have "ctx_ok (buf_write buf off (enc x)) ?c"
    using assms(2) len by (simp add: ctx_ok_def buf_write_def)
  moreover have "at_ctx (buf_write buf off (enc x)) ?c (enc x)"
    using assms(2) len by (simp add: at_ctx_def buf_write_def)
  ultimately show ?thesis using des_reads [OF assms(1)] by (simp add: reads_def)
qed

text \<open>Serializing into a buffer of the dry run's size and deserializing it.\<close>

lemma round_trip:
  assumes "dom x" "length (enc x) < 2 ^ 32"
    and "ser x \<lparr>sc_data = None, sc_length = 0\<rparr> = Some c"
    and "length buf = unat (sc_length c)"
  shows "\<exists>buf' c' rest. ser x \<lparr>sc_data = Some buf, sc_length = 0\<rparr> = Some c' \<and>
           sc_data c' = Some buf' \<and> sc_length c' = sc_length c \<and>
           des buf' \<lparr>dc_data = 0, dc_length = of_nat (length buf')\<rparr> = Ok (x, rest) \<and>
           dc_length rest = 0"
proof -
  have c: "length buf = length (enc x)" "sc_length c = of_nat (length (enc x))"
    using dry_run [OF assms(1), of 0] assms(2-4) by (auto simp: unat_of_nat)
  have "ser x \<lparr>sc_data = Some buf, sc_length = 0\<rparr> =
      Some \<lparr>sc_data = Some (buf_write buf 0 (enc x)), sc_length = of_nat (length (enc x))\<rparr>"
    using real_run [OF assms(1), of 0 buf] c(1) assms(2) by simp
  moreover have "length (buf_write buf 0 (enc x)) = length buf" using c(1) by (simp add: buf_write_def)
  ultimately show ?thesis
    using read_back [OF assms(1), of 0 buf] c assms(2) by (simp add: advance_def)
qed

end

locale safe_codec = codec +
  assumes des_safe: "safe des"

lemma bool_byte: "((if v then 1 else 0 :: u8) \<noteq> 0) = v"
  by simp

interpretation uint8_codec: safe_codec Serialization_serializeUInt8 Serialization_deserializeUInt8
  "\<lambda>v. [v]" "\<lambda>_. True"
  using reads_raw [of "[v]" 1 hd for v]
  by unfold_locales (auto simp: Serialization_serializeUInt8_def Serialization_serializeChar_def
      Serialization_deserializeUInt8_def Serialization_deserializeChar_def writes_def safe_raw)

interpretation ushort_codec: safe_codec Serialization_serializeUShort Serialization_deserializeUShort
  "le_put 2" "\<lambda>_. True"
  using reads_raw [of "le_put 2 v" 2 "le_get :: bytes \<Rightarrow> u16" for v :: u16]
  by unfold_locales (auto simp: Serialization_serializeUShort_def Serialization_deserializeUShort_def
      writes_def safe_raw le_get_put_full)

interpretation uint_codec: safe_codec Serialization_serializeUInt Serialization_deserializeUInt
  "le_put 4" "\<lambda>_. True"
  using reads_raw [of "le_put 4 v" 4 "le_get :: bytes \<Rightarrow> u32" for v :: u32]
  by unfold_locales (auto simp: Serialization_serializeUInt_def Serialization_deserializeUInt_def
      writes_def safe_raw le_get_put_full)

interpretation uint64_codec: safe_codec Serialization_serializeUInt64 Serialization_deserializeUInt64
  "le_put 8" "\<lambda>_. True"
  using reads_raw [of "le_put 8 v" 8 "le_get :: bytes \<Rightarrow> u64" for v :: u64]
  by unfold_locales (auto simp: Serialization_serializeUInt64_def Serialization_deserializeUInt64_def
      writes_def safe_raw le_get_put_full)

interpretation int64_codec: safe_codec Serialization_serializeInt64 Serialization_deserializeInt64
  "le_put 8" "\<lambda>_. True"
  using uint64_codec.safe_codec_axioms
  by (simp add: Serialization_serializeInt64_def [abs_def] Serialization_deserializeInt64_def)

interpretation bool_codec: safe_codec Serialization_serializeBool Serialization_deserializeBool
  "\<lambda>v. [if v then 1 else 0]" "\<lambda>_. True"
proof unfold_locales
  have r: "reads (\<lambda>buf ctx. dbind (Serialization_deserializeChar buf ctx) (\<lambda>(c, ctx). Ok (c \<noteq> 0, ctx)))
      ([if v then 1 else 0] @ []) v" for v
    using reads_bind [OF _ reads_Ok, of Serialization_deserializeChar "[if v then 1 else 0]"
        "if v then 1 else 0" "\<lambda>c. c \<noteq> 0"] uint8_codec.des_reads
    by (simp add: Serialization_deserializeUInt8_def bool_byte)
  show "reads Serialization_deserializeBool [if v then 1 else 0] v" for v
    using r [of v] by (simp add: Serialization_deserializeBool_def [abs_def])
  have "safe Serialization_deserializeChar"
    using uint8_codec.des_safe by (simp add: Serialization_deserializeUInt8_def)
  then show "safe Serialization_deserializeBool"
    unfolding Serialization_deserializeBool_def [abs_def] by (rule safe_bind) simp
qed (simp add: Serialization_serializeBool_def Serialization_serializeChar_def writes_def)

end
