(* ===== verification/Serdes_Strings.thy ===== *)
theory Serdes_Strings
  imports Serdes
begin

text \<open>
  Strings and byte arrays of the wire format
  (\<^verbatim>\<open>client_module/source/common/toolkit/Serialization.c\<close>). A deserializer of a string
  returns its length and a pointer into the buffer; the view of such a result is the bytes it
  points to. The length arithmetic is that of the code: \<^verbatim>\<open>*outStrLen + 1\<close> is a 32-bit
  sum, \<^verbatim>\<open>ctx->length\<close> is a \<^verbatim>\<open>size_t\<close>.
\<close>

section \<open>Operations\<close>

definition view :: "bytes \<Rightarrow> u32 \<times> nat \<Rightarrow> bytes" where
  "view buf r = (case r of (len, start) \<Rightarrow> take (unat len) (drop start buf))"

definition Serialization_serializeStr :: "bytes \<Rightarrow> SerializeCtx \<Rightarrow> SerializeCtx option" where
  "Serialization_serializeStr str ctx =
     Option.bind (Serialization_serializeUInt (of_nat (length str)) ctx) (\<lambda>ctx.
     Option.bind (Serialization_serializeBlock str ctx)
       (Serialization_serializeChar 0))"

text \<open>The checks and the step over the string that both string deserializers share.\<close>

definition stringBody ::
    "u32 \<Rightarrow> bytes \<Rightarrow> DeserializeCtx \<Rightarrow> ((u32 \<times> nat) \<times> DeserializeCtx) dres" where
  "stringBody strLen buf ctx =
     (if dc_length ctx < ucast (strLen + 1) then Rejected
      else case buf_read buf (dc_data ctx + unat strLen) 1 of
          None \<Rightarrow> OutOfBounds
        | Some bs \<Rightarrow>
            if hd bs \<noteq> 0 then Rejected
            else Ok ((strLen, dc_data ctx),
                     ctx\<lparr>dc_data := dc_data ctx + unat (strLen + 1),
                         dc_length := dc_length ctx - ucast (strLen + 1)\<rparr>))"

definition Serialization_deserializeStr ::
    "bytes \<Rightarrow> DeserializeCtx \<Rightarrow> ((u32 \<times> nat) \<times> DeserializeCtx) dres" where
  "Serialization_deserializeStr buf ctx =
     dbind (Serialization_deserializeUInt buf ctx) (\<lambda>(strLen, ctx). stringBody strLen buf ctx)"

definition Serialization_serializeCharArray :: "bytes \<Rightarrow> SerializeCtx \<Rightarrow> SerializeCtx option" where
  "Serialization_serializeCharArray arr ctx =
     Option.bind (Serialization_serializeUInt (of_nat (length arr)) ctx)
       (Serialization_serializeBlock arr)"

definition arrayBody ::
    "u32 \<Rightarrow> bytes \<Rightarrow> DeserializeCtx \<Rightarrow> ((u32 \<times> nat) \<times> DeserializeCtx) dres" where
  "arrayBody elemNum buf ctx =
     (if dc_length ctx < ucast elemNum then Rejected
      else Ok ((elemNum, dc_data ctx),
               ctx\<lparr>dc_data := dc_data ctx + unat elemNum,
                   dc_length := dc_length ctx - ucast elemNum\<rparr>))"

definition Serialization_deserializeCharArray ::
    "bytes \<Rightarrow> DeserializeCtx \<Rightarrow> ((u32 \<times> nat) \<times> DeserializeCtx) dres" where
  "Serialization_deserializeCharArray buf ctx =
     dbind (Serialization_deserializeUInt buf ctx) (\<lambda>(elemNum, ctx). arrayBody elemNum buf ctx)"

definition Serialization_serializeStrAlign4 :: "bytes \<Rightarrow> SerializeCtx \<Rightarrow> SerializeCtx option" where
  "Serialization_serializeStrAlign4 str ctx =
     (let strLen = of_nat (length str) :: u32 in
      Option.bind (Serialization_serializeUInt strLen ctx) (\<lambda>ctx.
      Option.bind (Serialization_serializeBlock str ctx) (\<lambda>ctx.
      Option.bind (Serialization_serializeChar 0 ctx) (\<lambda>ctx.
      if (strLen + 1) mod 4 \<noteq> 0
      then Serialization_serializeBlock (take (unat (4 - (strLen + 1) mod 4)) [0, 0, 0]) ctx
      else Some ctx))))"

definition Serialization_deserializeStrAlign4 ::
    "bytes \<Rightarrow> DeserializeCtx \<Rightarrow> ((u32 \<times> nat) \<times> DeserializeCtx) dres" where
  "Serialization_deserializeStrAlign4 buf ctx0 =
     dbind (Serialization_deserializeUInt buf ctx0) (\<lambda>(strLen, ctx).
     dbind (stringBody strLen buf ctx) (\<lambda>(str, ctx).
     let padding = (dc_data ctx - dc_data ctx0) mod 4 in
     if padding \<noteq> 0 then
       (if dc_length ctx < of_nat padding then Rejected
        else Ok (str, ctx\<lparr>dc_data := dc_data ctx + (4 - padding),
                          dc_length := dc_length ctx - of_nat (4 - padding)\<rparr>))
     else Ok (str, ctx)))"

definition Serialization_deserializeNestedField ::
    "bytes \<Rightarrow> DeserializeCtx \<Rightarrow> (DeserializeCtx \<times> DeserializeCtx) dres" where
  "Serialization_deserializeNestedField buf ctx =
     dbind (Serialization_deserializeUInt buf ctx) (\<lambda>(len, ctx).
     let len = len - Serialization_serialLenUInt in
     if dc_length ctx < ucast len then Rejected
     else Ok (\<lparr>dc_data = dc_data ctx, dc_length = ucast len\<rparr>,
              ctx\<lparr>dc_data := dc_data ctx + unat len, dc_length := dc_length ctx - ucast len\<rparr>))"

section \<open>Codecs of views\<close>

definition viewed ::
    "(bytes \<Rightarrow> DeserializeCtx \<Rightarrow> ((u32 \<times> nat) \<times> DeserializeCtx) dres)
       \<Rightarrow> bytes \<Rightarrow> DeserializeCtx \<Rightarrow> (bytes \<times> DeserializeCtx) dres" where
  "viewed g buf ctx = dbind (g buf ctx) (\<lambda>(r, ctx). Ok (view buf r, ctx))"

text \<open>A 32-bit length below the remaining \<^verbatim>\<open>size_t\<close>.\<close>

lemma unat_ucast_32_64 [simp]: "unat (ucast (x :: u32) :: u64) = unat x"
proof -
  have "unat x < 2 ^ LENGTH(32)" by (rule unsigned_less)
  then have "unat x < 2 ^ 64" by simp
  then show ?thesis by (simp add: unsigned_ucast_eq take_bit_nat_eq_self)
qed

lemma of_nat_unat_32_64: "of_nat (unat (x :: u32)) = (ucast x :: u64)"
  by simp

lemma advance_ucast:
  "ctx\<lparr>dc_data := dc_data ctx + unat x, dc_length := dc_length ctx - ucast x\<rparr> = advance (unat (x :: u32)) ctx"
  by (simp add: advance_def)

lemma unat_max_32: "unat (- 1 :: u32) = 2 ^ 32 - 1"
  by (simp add: unsigned_minus_1_eq_mask mask_eq_exp_minus_1)

lemma unat_of_nat_32: "n < 2 ^ 32 \<Longrightarrow> unat (of_nat n :: u32) = n"
  by (simp add: unat_of_nat)

lemma arrayBody_eq:
  "arrayBody n buf ctx =
     (if unat (dc_length ctx) < unat n then Rejected else Ok ((n, dc_data ctx), advance (unat n) ctx))"
  by (simp add: arrayBody_def advance_ucast word_less_nat_alt)

lemma safe_arrayBody: "safe (arrayBody n)"
  by (auto simp: safe_def arrayBody_eq not_less split: if_splits)

lemma reads_arrayBody:
  assumes "length bs < 2 ^ 32"
  shows "reads (viewed (arrayBody (of_nat (length bs)))) bs bs"
  using assms by (simp add: reads_def viewed_def arrayBody_eq at_ctx_def unat_of_nat_32 view_def)

text \<open>When the terminating zero does not make the 32-bit length wrap.\<close>

lemma stringBody_eq:
  assumes "n \<noteq> - 1"
  shows "stringBody n buf ctx =
     (if unat (dc_length ctx) < unat n + 1 then Rejected
      else case buf_read buf (dc_data ctx + unat n) 1 of
          None \<Rightarrow> OutOfBounds
        | Some bs \<Rightarrow> if hd bs \<noteq> 0 then Rejected
                    else Ok ((n, dc_data ctx), advance (unat n + 1) ctx))"
proof -
  have "n < - 1" using assms by (simp add: word_order.not_eq_extremum)
  then have n1: "unat (n + 1) = unat n + 1" by (rule unat_plus_one_less)
  have a: "advance (unat n + 1) ctx =
      ctx\<lparr>dc_data := dc_data ctx + unat (n + 1), dc_length := dc_length ctx - ucast (n + 1)\<rparr>"
    by (rule trans [OF _ advance_ucast [symmetric]]) (simp only: n1)
  show ?thesis
    unfolding stringBody_def a word_less_nat_alt unat_ucast_32_64 n1 by (rule refl)
qed

lemma safe_stringBody: "n \<noteq> - 1 \<Longrightarrow> safe (stringBody n)"
  by (auto simp: safe_def stringBody_eq buf_read_def ctx_ok_def not_less split: if_splits)

lemma stringBody_at:
  assumes "length bs < 2 ^ 32 - 1" "ctx_ok buf ctx" "at_ctx buf ctx (bs @ [0])"
  shows "stringBody (of_nat (length bs)) buf ctx =
           Ok ((of_nat (length bs), dc_data ctx), advance (length bs + 1) ctx)"
proof -
  have n: "of_nat (length bs) \<noteq> (- 1 :: u32)" "unat (of_nat (length bs) :: u32) = length bs"
    using assms(1) unat_max_32 by (auto simp: word_unat_eq_iff unat_of_nat)
  have zero: "at_ctx buf (advance (length bs) ctx) [0]" using assms(3) by (simp only: at_ctx_append)
  have len: "length bs + 1 \<le> unat (dc_length ctx)" using assms(3) by (simp add: at_ctx_def)
  have "buf_read buf (dc_data ctx + length bs) 1 = Some [0]"
    using assms(2) len zero by (simp add: buf_read_def ctx_ok_def at_ctx_def)
  then show ?thesis using len by (simp add: stringBody_eq [OF n(1)] n(2))
qed

lemma view_at:
  assumes "length bs < 2 ^ 32" "at_ctx buf ctx bs"
  shows "view buf (of_nat (length bs), dc_data ctx) = bs"
  using assms by (simp add: view_def at_ctx_def unat_of_nat_32)

lemma reads_stringBody:
  assumes "length bs < 2 ^ 32 - 1"
  shows "reads (viewed (stringBody (of_nat (length bs)))) (bs @ [0]) bs"
  unfolding reads_def
proof (intro allI impI)
  fix buf ctx assume *: "ctx_ok buf ctx" "at_ctx buf ctx (bs @ [0])"
  then have "at_ctx buf ctx bs" by (simp only: at_ctx_append)
  with view_at [of bs buf ctx] assms stringBody_at [OF assms *]
  show "viewed (stringBody (of_nat (length bs))) buf ctx = Ok (bs, advance (length (bs @ [0])) ctx)"
    by (simp add: viewed_def)
qed

lemma writes_Block [simp]: "writes (Serialization_serializeBlock bs) bs"
  by (simp add: writes_def)

lemma reads_viewed_bind:
  assumes "reads g xs v" "reads (viewed (f v)) ys w"
  shows "reads (viewed (\<lambda>buf ctx. dbind (g buf ctx) (\<lambda>(v, ctx). f v buf ctx))) (xs @ ys) w"
proof -
  have "viewed (\<lambda>buf ctx. dbind (g buf ctx) (\<lambda>(v, ctx). f v buf ctx)) buf ctx =
      dbind (g buf ctx) (\<lambda>(v, ctx). viewed (f v) buf ctx)" for buf ctx
    by (cases "g buf ctx") (auto simp: viewed_def)
  then show ?thesis
    using reads_bind [where g = g and xs = xs and v = v and f = "\<lambda>v. viewed (f v)"] assms
    by (simp add: reads_def)
qed

lemma safe_viewed: "safe g \<Longrightarrow> safe (viewed g)"
  unfolding safe_def viewed_def by (auto simp: dbind_def split: dres.splits)

section \<open>Strings\<close>

definition str_bytes :: "bytes \<Rightarrow> bytes" where
  "str_bytes str = le_put 4 (of_nat (length str) :: u32) @ str @ [0]"

interpretation str_codec: codec Serialization_serializeStr "viewed Serialization_deserializeStr"
  str_bytes "\<lambda>str. length str < 2 ^ 32 - 1"
proof unfold_locales
  fix str :: bytes assume small: "length str < 2 ^ 32 - 1"
  show "writes (Serialization_serializeStr str) (str_bytes str)"
    unfolding Serialization_serializeStr_def [abs_def] str_bytes_def Serialization_serializeChar_def
    by (intro writes_bind uint_codec.ser_writes writes_Block) simp
  show "reads (viewed Serialization_deserializeStr) (str_bytes str) str"
    unfolding Serialization_deserializeStr_def [abs_def] str_bytes_def
    using small by (intro reads_viewed_bind [OF uint_codec.des_reads] reads_stringBody) simp_all
qed

section \<open>Byte arrays\<close>

definition array_bytes :: "bytes \<Rightarrow> bytes" where
  "array_bytes arr = le_put 4 (of_nat (length arr) :: u32) @ arr"

interpretation array_codec: safe_codec Serialization_serializeCharArray
  "viewed Serialization_deserializeCharArray" array_bytes "\<lambda>arr. length arr < 2 ^ 32"
proof unfold_locales
  fix arr :: bytes assume small: "length arr < 2 ^ 32"
  show "writes (Serialization_serializeCharArray arr) (array_bytes arr)"
    unfolding Serialization_serializeCharArray_def [abs_def] array_bytes_def
    by (intro writes_bind uint_codec.ser_writes writes_Block) simp
  show "reads (viewed Serialization_deserializeCharArray) (array_bytes arr) arr"
    unfolding Serialization_deserializeCharArray_def [abs_def] array_bytes_def
    using small by (intro reads_viewed_bind [OF uint_codec.des_reads] reads_arrayBody) simp_all
next
  show "safe (viewed Serialization_deserializeCharArray)"
    unfolding Serialization_deserializeCharArray_def [abs_def]
    by (intro safe_viewed safe_bind uint_codec.des_safe safe_arrayBody)
qed

section \<open>Aligned strings\<close>

definition str_padding :: "nat \<Rightarrow> nat" where
  "str_padding n = (4 - (n + 1) mod 4) mod 4"

definition strAlign4_bytes :: "bytes \<Rightarrow> bytes" where
  "strAlign4_bytes str = str_bytes str @ replicate (str_padding (length str)) 0"

lemma strAlign4_pad:
  assumes "n + 1 < 2 ^ 32"
  shows "unat ((of_nat n + 1 :: u32) mod 4) = (n + 1) mod 4"
proof -
  have "unat (of_nat n + 1 :: u32) = n + 1"
    using assms by (subst unat_add_small) (simp_all add: unat_of_nat)
  then show ?thesis by (simp add: unat_mod)
qed

lemma take_zeros: "m \<le> 3 \<Longrightarrow> take m [0, 0, 0] = replicate m (0 :: u8)"
  by (cases m; cases "m - 1"; cases "m - 2") (auto simp: numeral_eq_Suc)

lemma writes_if: "(P \<Longrightarrow> writes f xs) \<Longrightarrow> (\<not> P \<Longrightarrow> writes g xs) \<Longrightarrow> writes (\<lambda>ctx. if P then f ctx else g ctx) xs"
  by (cases P) simp_all

lemma writes_strAlign4:
  assumes "length str + 1 < 2 ^ 32"
  shows "writes (Serialization_serializeStrAlign4 str) (strAlign4_bytes str)"
proof -
  let ?m = "(of_nat (length str) + 1 :: u32) mod 4"
  note m = strAlign4_pad [OF assms]
  have "unat (4 - ?m) = 4 - (length str + 1) mod 4"
  proof -
    have "?m \<le> 4" using m by (simp add: word_le_nat_alt)
    then show ?thesis using m by (simp add: unat_sub)
  qed
  then have z: "take (unat (4 - ?m)) [0, 0, 0] = replicate (str_padding (length str)) (0 :: u8)" if "?m \<noteq> 0"
    using that m by (subst take_zeros) (auto simp: str_padding_def word_unat_eq_iff)
  have nz: "str_padding (length str) = 0" if "?m = 0"
    using that m by (simp add: str_padding_def)
  have e: "strAlign4_bytes str =
      le_put 4 (of_nat (length str) :: u32) @ str @ [0] @ replicate (str_padding (length str)) 0"
    by (simp add: strAlign4_bytes_def str_bytes_def)
  show ?thesis
    unfolding Serialization_serializeStrAlign4_def [abs_def] Let_def e
    by (intro writes_bind uint_codec.ser_writes writes_Block writes_if)
       (simp_all add: z nz Serialization_serializeChar_def writes_Some)
qed

section \<open>Memory safety of strings\<close>

lemma deserializeUInt_Ok:
  assumes "ctx_ok buf ctx" "Serialization_deserializeUInt buf ctx = Ok (v, ctx')"
  shows "at_ctx buf ctx (le_put 4 v)" "ctx' = advance 4 ctx" "4 \<le> unat (dc_length ctx)"
proof -
  have r: "4 \<le> unat (dc_length ctx)" "v = le_get (take 4 (drop (dc_data ctx) buf))" "ctx' = advance 4 ctx"
    using assms(2)
    by (auto simp: Serialization_deserializeUInt_def deserializeRaw_def buf_read_def word_le_nat_alt
        split: if_splits)
  let ?bs = "take 4 (drop (dc_data ctx) buf)"
  have "length ?bs = 4" using assms(1) r(1) by (simp add: ctx_ok_def)
  with le_put_get [of ?bs, where 'a = 32] r(2) have "?bs = le_put 4 v" by simp
  then show "at_ctx buf ctx (le_put 4 v)" using r(1) by (simp add: at_ctx_def)
  show "ctx' = advance 4 ctx" "4 \<le> unat (dc_length ctx)" by (fact r(3,1))+
qed

lemma deserializeUInt_at:
  assumes "ctx_ok buf ctx" "at_ctx buf ctx (le_put 4 v)"
  shows "Serialization_deserializeUInt buf ctx = Ok (v, advance 4 ctx)"
  using uint_codec.des_reads [of v] assms by (simp add: reads_def)

lemma str_padding_cases:
  "(n + 1) mod 4 = 0 \<and> str_padding n = 0 \<or> (n + 1) mod 4 = 1 \<and> str_padding n = 3 \<or>
   (n + 1) mod 4 = 2 \<and> str_padding n = 2 \<or> (n + 1) mod 4 = 3 \<and> str_padding n = 1"
proof -
  have "(n + 1) mod 4 < 4" by simp
  then have "(n + 1) mod 4 = 0 \<or> (n + 1) mod 4 = 1 \<or> (n + 1) mod 4 = 2 \<or> (n + 1) mod 4 = 3" by linarith
  then show ?thesis by (auto simp: str_padding_def)
qed

lemma strAlign4_exact:
  assumes "length str + 9 < 2 ^ 32"
  shows "viewed Serialization_deserializeStrAlign4 (strAlign4_bytes str)
           \<lparr>dc_data = 0, dc_length = of_nat (length (strAlign4_bytes str))\<rparr> =
         (if (length str + 1) mod 4 = 3 then Rejected
          else Ok (str, \<lparr>dc_data = length (strAlign4_bytes str), dc_length = 0\<rparr>))"
proof -
  let ?b = "strAlign4_bytes str" and ?p = "str_padding (length str)"
  let ?c = "\<lparr>dc_data = 0, dc_length = of_nat (length (strAlign4_bytes str))\<rparr> :: DeserializeCtx"
  have len: "length ?b = length str + 5 + ?p" by (simp add: strAlign4_bytes_def str_bytes_def)
  have small: "length ?b < 2 ^ 32" using assms len by (simp add: str_padding_def)
  then have unat: "unat (dc_length ?c) = length ?b" by (simp add: unat_of_nat)
  have ok: "ctx_ok ?b ?c" using unat by (simp add: ctx_ok_def)
  have at: "at_ctx ?b ?c (le_put 4 (of_nat (length str) :: u32) @ (str @ [0]) @ replicate ?p 0)"
    using unat by (simp add: at_ctx_def strAlign4_bytes_def str_bytes_def)
  then have at1: "at_ctx ?b ?c (le_put 4 (of_nat (length str) :: u32))"
    and at2: "at_ctx ?b (advance 4 ?c) (str @ [0])" by (simp_all only: at_ctx_append length_le_put)
  have ok2: "ctx_ok ?b (advance 4 ?c)" using ok unat len by (intro ctx_ok_advance) simp_all
  have "advance (length str + 1) (advance 4 ?c) = \<lparr>dc_data = length str + 5, dc_length = of_nat ?p\<rparr>"
    by (simp add: advance_def len)
  then have body: "stringBody (of_nat (length str)) ?b (advance 4 ?c) =
      Ok ((of_nat (length str), 4), \<lparr>dc_data = length str + 5, dc_length = of_nat ?p\<rparr>)"
    using stringBody_at [OF _ ok2 at2] assms by simp
  have view: "view ?b (of_nat (length str), 4) = str"
    using view_at [of str ?b "advance 4 ?c"] at2 assms by (simp only: at_ctx_append) simp
  let ?m = "(length str + 1) mod 4"
  have m: "(length str + 5 - 0) mod 4 = ?m" using mod_add_self2 [of "length str + 1" 4] by (simp add: add.commute)
  have des: "Serialization_deserializeStrAlign4 ?b ?c =
      (if ?m \<noteq> 0 then
         (if of_nat ?p < (of_nat ?m :: u64) then Rejected
          else Ok ((of_nat (length str), 4),
                   \<lparr>dc_data = length str + 5 + (4 - ?m), dc_length = of_nat ?p - of_nat (4 - ?m)\<rparr>))
       else Ok ((of_nat (length str), 4), \<lparr>dc_data = length str + 5, dc_length = of_nat ?p\<rparr>))"
    unfolding Serialization_deserializeStrAlign4_def deserializeUInt_at [OF ok at1] dbind_simps prod.case
      body Let_def DeserializeCtx.simps m by (rule refl)
  show ?thesis
    unfolding viewed_def des using str_padding_cases [of "length str"]
    by (elim disjE conjE) (simp_all add: view len)
qed

section \<open>Properties\<close>

text \<open>
  C34. A string that is serialized into a buffer of the size the dry run computed is deserialized
  to the same bytes, with nothing left over, and the serializer stays inside the buffer.
\<close>

theorem str_round_trip:
  assumes "length str + 5 < 2 ^ 32"
    and "Serialization_serializeStr str \<lparr>sc_data = None, sc_length = 0\<rparr> = Some c"
    and "length buf = unat (sc_length c)"
  shows "\<exists>buf' c' rest. Serialization_serializeStr str \<lparr>sc_data = Some buf, sc_length = 0\<rparr> = Some c' \<and>
           sc_data c' = Some buf' \<and> sc_length c' = sc_length c \<and>
           viewed Serialization_deserializeStr buf' \<lparr>dc_data = 0, dc_length = of_nat (length buf')\<rparr> =
             Ok (str, rest) \<and> dc_length rest = 0"
  using assms by (intro str_codec.round_trip) (simp_all add: str_bytes_def)

theorem str_round_trip_witness:
  "\<exists>c' buf' rest. Serialization_serializeStr [104, 105] \<lparr>sc_data = Some (replicate 7 255), sc_length = 0\<rparr> = Some c' \<and>
     sc_data c' = Some buf' \<and>
     viewed Serialization_deserializeStr buf' \<lparr>dc_data = 0, dc_length = of_nat (length buf')\<rparr> = Ok ([104, 105], rest)"
proof -
  have d: "Serialization_serializeStr [104, 105] \<lparr>sc_data = None, sc_length = 0\<rparr> =
      Some \<lparr>sc_data = None, sc_length = 7\<rparr>" by code_simp
  have "length [104, 105 :: u8] + 5 < 2 ^ 32"
    "length (replicate 7 255 :: bytes) = unat (sc_length \<lparr>sc_data = None, sc_length = 7\<rparr>)" by simp_all
  from str_round_trip [OF this(1) d this(2)] show ?thesis by blast
qed

text \<open>
  The string deserializer reads outside the buffer exactly when the length field is
  \<^verbatim>\<open>0xFFFFFFFF\<close>: the 32-bit sum \<^verbatim>\<open>*outStrLen + 1\<close> wraps to 0 and passes the length
  check. For every other content of a message shorter than 4 GiB it stays inside.
\<close>

theorem str_out_of_bounds_iff:
  assumes "ctx_ok buf ctx" and "length buf < 2 ^ 32"
  shows "Serialization_deserializeStr buf ctx = OutOfBounds \<longleftrightarrow> at_ctx buf ctx (le_put 4 (- 1 :: u32))"
proof
  assume oob: "Serialization_deserializeStr buf ctx = OutOfBounds"
  have "Serialization_deserializeUInt buf ctx \<noteq> OutOfBounds"
    using uint_codec.des_safe assms(1) by (simp add: safe_def)
  with oob obtain v ctx' where u: "Serialization_deserializeUInt buf ctx = Ok (v, ctx')"
    "stringBody v buf ctx' = OutOfBounds"
    by (cases "Serialization_deserializeUInt buf ctx") (auto simp: Serialization_deserializeStr_def)
  note ok = deserializeUInt_Ok [OF assms(1) u(1)]
  have "v = - 1"
    using safe_stringBody [of v] u(2) ctx_ok_advance [OF assms(1) ok(3)] ok(2)
    by (auto simp: safe_def)
  with ok(1) show "at_ctx buf ctx (le_put 4 (- 1 :: u32))" by simp
next
  assume at: "at_ctx buf ctx (le_put 4 (- 1 :: u32))"
  then have "Serialization_deserializeStr buf ctx = stringBody (- 1) buf (advance 4 ctx)"
    using deserializeUInt_at [OF assms(1) at] by (simp add: Serialization_deserializeStr_def)
  also have "\<dots> = OutOfBounds"
    using assms(2) unat_max_32 by (simp add: stringBody_def buf_read_def)
  finally show "Serialization_deserializeStr buf ctx = OutOfBounds" .
qed

theorem str_out_of_bounds_iff_witness:
  "Serialization_deserializeStr [255, 255, 255, 255, 0] \<lparr>dc_data = 0, dc_length = 5\<rparr> = OutOfBounds"
proof -
  let ?b = "[255, 255, 255, 255, 0] :: bytes" and ?c = "\<lparr>dc_data = 0, dc_length = 5\<rparr> :: DeserializeCtx"
  have "ctx_ok ?b ?c" "length ?b < 2 ^ 32" by (simp_all add: ctx_ok_def)
  moreover have "le_put 4 (- 1 :: u32) = [255, 255, 255, 255]" by code_simp
  then have "at_ctx ?b ?c (le_put 4 (- 1 :: u32))" by (simp add: at_ctx_def)
  ultimately show ?thesis using str_out_of_bounds_iff [of ?b ?c] by simp
qed

text \<open>
  The aligned string format does not round-trip at the end of a message: the deserializer
  compares the remaining length with the wrong number of padding bytes, so of a string whose
  terminated length is 3 modulo 4 it rejects exactly what the serializer wrote; all other
  strings are read back.
\<close>

theorem strAlign4_round_trip_iff:
  assumes "length str + 9 < 2 ^ 32" and "length buf = length (strAlign4_bytes str)"
  shows "Serialization_serializeStrAlign4 str \<lparr>sc_data = Some buf, sc_length = 0\<rparr> =
           Some \<lparr>sc_data = Some (strAlign4_bytes str), sc_length = of_nat (length buf)\<rparr> \<and>
         viewed Serialization_deserializeStrAlign4 (strAlign4_bytes str)
           \<lparr>dc_data = 0, dc_length = of_nat (length buf)\<rparr> =
         (if (length str + 1) mod 4 = 3 then Rejected
          else Ok (str, \<lparr>dc_data = length buf, dc_length = 0\<rparr>))"
proof -
  have "length buf < 2 ^ 32"
    using assms str_padding_cases [of "length str"] by (auto simp: strAlign4_bytes_def str_bytes_def)
  with writes_strAlign4 [of str] assms
  have "Serialization_serializeStrAlign4 str \<lparr>sc_data = Some buf, sc_length = 0\<rparr> =
      Some \<lparr>sc_data = Some (strAlign4_bytes str), sc_length = of_nat (length buf)\<rparr>"
    by (simp add: writes_def Serialization_serializeBlock_def buf_write_def)
  with strAlign4_exact [OF assms(1)] assms(2) show ?thesis by simp
qed

theorem strAlign4_round_trip_iff_witness:
  "viewed Serialization_deserializeStrAlign4 (strAlign4_bytes [104, 105])
     \<lparr>dc_data = 0, dc_length = 8\<rparr> = Rejected"
proof -
  have "length [104, 105 :: u8] + 9 < 2 ^ 32"
    "length (replicate 8 0 :: bytes) = length (strAlign4_bytes [104, 105])"
    by (simp_all add: strAlign4_bytes_def str_bytes_def str_padding_def)
  from strAlign4_round_trip_iff [OF this] show ?thesis by simp
qed

text \<open>
  The same check makes the aligned string deserializer unsafe: on a message that ends inside
  the padding it subtracts more than is left, and returns a context behind the buffer whose
  remaining length has wrapped to nearly \<^verbatim>\<open>SIZE_MAX\<close>.
\<close>

theorem strAlign4_length_underflow:
  "ctx_ok [0, 0, 0, 0, 0, 7] \<lparr>dc_data = 0, dc_length = 6\<rparr> \<and>
   Serialization_deserializeStrAlign4 [0, 0, 0, 0, 0, 7] \<lparr>dc_data = 0, dc_length = 6\<rparr> =
     Ok ((0, 4), \<lparr>dc_data = 8, dc_length = - 2\<rparr>)"
proof -
  have "Serialization_deserializeStrAlign4 [0, 0, 0, 0, 0, 7] \<lparr>dc_data = 0, dc_length = 6\<rparr> =
     Ok ((0, 4), \<lparr>dc_data = 8, dc_length = - 2\<rparr>)" by code_simp
  then show ?thesis by (simp add: ctx_ok_def)
qed

end
