(* ===== verification/Serdes_Lists.thy ===== *)
theory Serdes_Lists
  imports Serdes_Strings
begin

text \<open>
  Lists of the wire format (\<^verbatim>\<open>client_module/source/common/toolkit/Serialization.c\<close> and the
  list macros of \<^verbatim>\<open>Serialization.h\<close>). A list is preceded by its total size, which the
  serializer writes last, over a placeholder, and by the number of elements. Deserialization
  has two passes: the first checks the sizes and records where the list is, the second reads
  the elements. The lemmas hold for every element codec; the lists of the client are instances.
\<close>

section \<open>Operations\<close>

record RawList =
  raw_data :: nat
  raw_length :: u32
  raw_elemCount :: u32

fun serializeElems ::
    "('a \<Rightarrow> SerializeCtx \<Rightarrow> SerializeCtx option) \<Rightarrow> 'a list \<Rightarrow> SerializeCtx \<Rightarrow> SerializeCtx option" where
  "serializeElems ser [] ctx = Some ctx"
| "serializeElems ser (x # xs) ctx = Option.bind (ser x ctx) (serializeElems ser xs)"

text \<open>
  Writing through \<^verbatim>\<open>&startCtx\<close>, a copy of the context taken before: same buffer, earlier
  position; the context itself keeps its length.
\<close>

definition serializeUInt_at :: "u32 \<Rightarrow> u32 \<Rightarrow> SerializeCtx \<Rightarrow> SerializeCtx option" where
  "serializeUInt_at start v ctx =
     Option.bind (Serialization_serializeUInt v (ctx\<lparr>sc_length := start\<rparr>))
       (\<lambda>c. Some (ctx\<lparr>sc_data := sc_data c\<rparr>))"

definition serializeSizedList ::
    "('a \<Rightarrow> SerializeCtx \<Rightarrow> SerializeCtx option) \<Rightarrow> 'a list \<Rightarrow> SerializeCtx \<Rightarrow> SerializeCtx option" where
  "serializeSizedList ser xs startCtx =
     Option.bind (Serialization_serializeUInt 0 startCtx) (\<lambda>ctx.
     Option.bind (Serialization_serializeUInt (of_nat (length xs)) ctx) (\<lambda>ctx.
     Option.bind (serializeElems ser xs ctx) (\<lambda>ctx.
     serializeUInt_at (sc_length startCtx) (sc_length ctx - sc_length startCtx) ctx)))"

definition Serialization_serializeUInt16List :: "u16 list \<Rightarrow> SerializeCtx \<Rightarrow> SerializeCtx option" where
  "Serialization_serializeUInt16List xs = serializeSizedList Serialization_serializeUShort xs"

definition Serialization_serializeUInt16Vec :: "u16 list \<Rightarrow> SerializeCtx \<Rightarrow> SerializeCtx option" where
  "Serialization_serializeUInt16Vec xs = Serialization_serializeUInt16List xs"

definition Serialization_serializeInt64CpyList :: "u64 list \<Rightarrow> SerializeCtx \<Rightarrow> SerializeCtx option" where
  "Serialization_serializeInt64CpyList xs = serializeSizedList Serialization_serializeInt64 xs"

definition Serialization_serializeInt64CpyVec :: "u64 list \<Rightarrow> SerializeCtx \<Rightarrow> SerializeCtx option" where
  "Serialization_serializeInt64CpyVec xs = Serialization_serializeInt64CpyList xs"

definition listPreprocess ::
    "u32 \<Rightarrow> bytes \<Rightarrow> DeserializeCtx \<Rightarrow> (RawList \<times> DeserializeCtx) dres" where
  "listPreprocess elemLen buf ctx =
     dbind (Serialization_deserializeNestedField buf ctx) (\<lambda>(outCtx, ctx).
     dbind (Serialization_deserializeUInt buf outCtx) (\<lambda>(elemCount, outCtx).
     if dc_length outCtx \<noteq> ucast (elemCount * elemLen) then Rejected
     else Ok (\<lparr>raw_data = dc_data outCtx, raw_length = ucast (dc_length outCtx),
               raw_elemCount = elemCount\<rparr>, ctx)))"

definition Serialization_deserializeUInt8ListPreprocess ::
    "bytes \<Rightarrow> DeserializeCtx \<Rightarrow> (RawList \<times> DeserializeCtx) dres" where
  "Serialization_deserializeUInt8ListPreprocess = listPreprocess Serialization_serialLenUInt8"

definition Serialization_deserializeUInt16ListPreprocess ::
    "bytes \<Rightarrow> DeserializeCtx \<Rightarrow> (RawList \<times> DeserializeCtx) dres" where
  "Serialization_deserializeUInt16ListPreprocess = listPreprocess Serialization_serialLenUShort"

definition Serialization_deserializeInt64CpyListPreprocess ::
    "bytes \<Rightarrow> DeserializeCtx \<Rightarrow> (RawList \<times> DeserializeCtx) dres" where
  "Serialization_deserializeInt64CpyListPreprocess = listPreprocess Serialization_serialLenInt64"

definition Serialization_deserializeUInt8VecPreprocess ::
    "bytes \<Rightarrow> DeserializeCtx \<Rightarrow> (RawList \<times> DeserializeCtx) dres" where
  "Serialization_deserializeUInt8VecPreprocess = Serialization_deserializeUInt8ListPreprocess"

definition Serialization_deserializeUInt16VecPreprocess ::
    "bytes \<Rightarrow> DeserializeCtx \<Rightarrow> (RawList \<times> DeserializeCtx) dres" where
  "Serialization_deserializeUInt16VecPreprocess = Serialization_deserializeUInt16ListPreprocess"

definition Serialization_deserializeInt64CpyVecPreprocess ::
    "bytes \<Rightarrow> DeserializeCtx \<Rightarrow> (RawList \<times> DeserializeCtx) dres" where
  "Serialization_deserializeInt64CpyVecPreprocess = Serialization_deserializeInt64CpyListPreprocess"

fun deserializeElems ::
    "(bytes \<Rightarrow> DeserializeCtx \<Rightarrow> ('a \<times> DeserializeCtx) dres)
       \<Rightarrow> nat \<Rightarrow> bytes \<Rightarrow> DeserializeCtx \<Rightarrow> ('a list \<times> DeserializeCtx) dres" where
  "deserializeElems des 0 buf ctx = Ok ([], ctx)"
| "deserializeElems des (Suc n) buf ctx =
     dbind (des buf ctx) (\<lambda>(v, ctx).
     dbind (deserializeElems des n buf ctx) (\<lambda>(vs, ctx). Ok (v # vs, ctx)))"

definition rawListElems ::
    "(bytes \<Rightarrow> DeserializeCtx \<Rightarrow> ('a \<times> DeserializeCtx) dres) \<Rightarrow> bytes \<Rightarrow> RawList \<Rightarrow> 'a list dres" where
  "rawListElems des buf inList =
     dbind (deserializeElems des (unat (raw_elemCount inList)) buf
              \<lparr>dc_data = raw_data inList, dc_length = ucast (raw_length inList)\<rparr>)
       (\<lambda>(vs, ctx). Ok vs)"

definition Serialization_deserializeUInt8List :: "bytes \<Rightarrow> RawList \<Rightarrow> u8 list dres" where
  "Serialization_deserializeUInt8List = rawListElems Serialization_deserializeUInt8"

definition Serialization_deserializeUInt16List :: "bytes \<Rightarrow> RawList \<Rightarrow> u16 list dres" where
  "Serialization_deserializeUInt16List = rawListElems Serialization_deserializeUShort"

definition Serialization_deserializeInt64CpyList :: "bytes \<Rightarrow> RawList \<Rightarrow> u64 list dres" where
  "Serialization_deserializeInt64CpyList = rawListElems Serialization_deserializeInt64"

definition Serialization_deserializeUInt8Vec :: "bytes \<Rightarrow> RawList \<Rightarrow> u8 list dres" where
  "Serialization_deserializeUInt8Vec = rawListElems Serialization_deserializeUInt8"

definition Serialization_deserializeUInt16Vec :: "bytes \<Rightarrow> RawList \<Rightarrow> u16 list dres" where
  "Serialization_deserializeUInt16Vec = rawListElems Serialization_deserializeUShort"

definition Serialization_deserializeInt64CpyVec :: "bytes \<Rightarrow> RawList \<Rightarrow> u64 list dres" where
  "Serialization_deserializeInt64CpyVec = rawListElems Serialization_deserializeInt64"

text \<open>Both passes in a row, as the message classes run them.\<close>

definition twoPass ::
    "(bytes \<Rightarrow> DeserializeCtx \<Rightarrow> (RawList \<times> DeserializeCtx) dres) \<Rightarrow> (bytes \<Rightarrow> RawList \<Rightarrow> 'a list dres)
       \<Rightarrow> bytes \<Rightarrow> DeserializeCtx \<Rightarrow> ('a list \<times> DeserializeCtx) dres" where
  "twoPass pre elems buf ctx =
     dbind (pre buf ctx) (\<lambda>(raw, ctx). dbind (elems buf raw) (\<lambda>vs. Ok (vs, ctx)))"

section \<open>Serializing lists\<close>

lemma writes_elems:
  assumes "\<And>x. x \<in> set xs \<Longrightarrow> writes (ser x) (enc x)"
  shows "writes (serializeElems ser xs) (concat (map enc xs))"
  using assms
proof (induction xs)
  case Nil
  show ?case by (simp add: writes_Some [unfolded writes_def] writes_def)
next
  case (Cons x xs)
  then have "writes (\<lambda>ctx. Option.bind (ser x ctx) (serializeElems ser xs)) (enc x @ concat (map enc xs))"
    by (intro writes_bind) simp_all
  then show ?case by (simp add: writes_def)
qed

lemma buf_write_over:
  assumes "off + length (xs @ ys) \<le> length buf" "length zs = length xs"
  shows "buf_write (buf_write buf off (xs @ ys)) off zs = buf_write buf off (zs @ ys)"
  using assms by (simp add: buf_write_def)

lemma buf_write_length: "off + length xs \<le> length buf \<Longrightarrow> length (buf_write buf off xs) = length buf"
  by (simp add: buf_write_def)

text \<open>The placeholder is overwritten with the total size.\<close>

lemma serializeUInt_at_block:
  assumes small: "unat (sc_length ctx) + length (xs @ ys) < 2 ^ 32" and xs: "length xs = 4"
  shows "Option.bind (Serialization_serializeBlock (xs @ ys) ctx)
           (\<lambda>c. serializeUInt_at (sc_length ctx) (sc_length c - sc_length ctx) c) =
         Serialization_serializeBlock (le_put 4 (of_nat (length (xs @ ys)) :: u32) @ ys) ctx"
proof (cases "sc_data ctx")
  case None
  with xs show ?thesis
    by (simp add: Serialization_serializeBlock_def serializeUInt_at_def Serialization_serializeUInt_def)
next
  case (Some buf)
  show ?thesis
  proof (cases "unat (sc_length ctx) + length (xs @ ys) \<le> length buf")
    case True
    with Some xs buf_write_over [OF True, of "le_put 4 (of_nat (length (xs @ ys)) :: u32)"]
      buf_write_length [OF True] show ?thesis
      by (auto simp: Serialization_serializeBlock_def serializeUInt_at_def
          Serialization_serializeUInt_def)
  next
    case False
    with Some xs show ?thesis by (auto simp: Serialization_serializeBlock_def)
  qed
qed

definition counted_bytes :: "('a \<Rightarrow> bytes) \<Rightarrow> 'a list \<Rightarrow> bytes" where
  "counted_bytes enc xs = le_put 4 (of_nat (length xs) :: u32) @ concat (map enc xs)"

definition sized_bytes :: "('a \<Rightarrow> bytes) \<Rightarrow> 'a list \<Rightarrow> bytes" where
  "sized_bytes enc xs =
     (let elems = concat (map enc xs)
      in le_put 4 (of_nat (8 + length elems) :: u32) @ le_put 4 (of_nat (length xs) :: u32) @ elems)"

lemma writes_sized:
  assumes "\<And>x. x \<in> set xs \<Longrightarrow> writes (ser x) (enc x)"
  shows "writes (serializeSizedList ser xs) (sized_bytes enc xs)"
  unfolding writes_def
proof (intro allI impI)
  fix ctx :: SerializeCtx
  let ?body = "concat (map enc xs)" and ?n = "le_put 4 (of_nat (length xs) :: u32)"
  let ?c = "\<lambda>c. serializeUInt_at (sc_length ctx) (sc_length c - sc_length ctx) c"
  assume "unat (sc_length ctx) + length (sized_bytes enc xs) < 2 ^ 32"
  then have small: "unat (sc_length ctx) + length (le_put 4 (0 :: u32) @ ?n @ ?body) < 2 ^ 32"
    by (simp add: sized_bytes_def Let_def)
  have "writes (\<lambda>ctx. Option.bind (Serialization_serializeUInt 0 ctx) (\<lambda>ctx.
      Option.bind (Serialization_serializeUInt (of_nat (length xs)) ctx) (serializeElems ser xs)))
      (le_put 4 (0 :: u32) @ ?n @ ?body)"
    using assms by (intro writes_bind uint_codec.ser_writes writes_elems) simp_all
  then have first: "Option.bind (Serialization_serializeUInt 0 ctx) (\<lambda>ctx.
      Option.bind (Serialization_serializeUInt (of_nat (length xs)) ctx) (serializeElems ser xs)) =
      Serialization_serializeBlock (le_put 4 (0 :: u32) @ ?n @ ?body) ctx"
    using small unfolding writes_def by blast
  have "serializeSizedList ser xs ctx = Option.bind (Option.bind (Serialization_serializeUInt 0 ctx)
      (\<lambda>ctx. Option.bind (Serialization_serializeUInt (of_nat (length xs)) ctx) (serializeElems ser xs))) ?c"
    by (simp add: serializeSizedList_def Option.bind_assoc)
  also have "\<dots> = Option.bind (Serialization_serializeBlock (le_put 4 (0 :: u32) @ ?n @ ?body) ctx) ?c"
    by (simp only: first)
  also have "\<dots> = Serialization_serializeBlock (sized_bytes enc xs) ctx"
    using serializeUInt_at_block [OF small] by (simp add: sized_bytes_def Let_def add.commute)
  finally show "serializeSizedList ser xs ctx = Serialization_serializeBlock (sized_bytes enc xs) ctx" .
qed

section \<open>Deserializing lists\<close>

lemma reads_elems:
  assumes "\<And>x. x \<in> set xs \<Longrightarrow> reads des (enc x) x"
  shows "reads (deserializeElems des (length xs)) (concat (map enc xs)) xs"
  using assms
proof (induction xs)
  case Nil
  show ?case by (simp add: reads_def)
next
  case (Cons x xs)
  have "reads (\<lambda>buf ctx. dbind (deserializeElems des (length xs) buf ctx) (\<lambda>(vs, ctx). Ok (x # vs, ctx)))
      (concat (map enc xs) @ []) (x # xs)"
    using Cons by (intro reads_bind [where f = "\<lambda>vs buf ctx. Ok (x # vs, ctx)"]) (simp, simp add: reads_def)
  then have "reads (\<lambda>buf ctx. dbind (des buf ctx) (\<lambda>(v, ctx).
      dbind (deserializeElems des (length xs) buf ctx) (\<lambda>(vs, ctx). Ok (v # vs, ctx))))
      (enc x @ concat (map enc xs)) (x # xs)"
    using Cons.prems
    by (intro reads_bind [where f = "\<lambda>v buf ctx. dbind (deserializeElems des (length xs) buf ctx)
          (\<lambda>(vs, ctx). Ok (v # vs, ctx))"]) simp_all
  then show ?case by (simp add: reads_def)
qed

lemma safe_elems: "safe des \<Longrightarrow> safe (deserializeElems des n)"
proof (induction n)
  case (Suc n)
  have "safe (\<lambda>buf ctx. dbind (deserializeElems des n buf ctx) (\<lambda>(vs, ctx). Ok (v # vs, ctx)))" for v
    using Suc by (intro safe_bind [where f = "\<lambda>vs buf ctx. Ok (v # vs, ctx)"]) simp_all
  then have "safe (\<lambda>buf ctx. dbind (des buf ctx) (\<lambda>(v, ctx).
      dbind (deserializeElems des n buf ctx) (\<lambda>(vs, ctx). Ok (v # vs, ctx))))"
    using Suc.prems
    by (intro safe_bind [where f = "\<lambda>v buf ctx. dbind (deserializeElems des n buf ctx)
          (\<lambda>(vs, ctx). Ok (v # vs, ctx))"]) simp_all
  then show ?case by (simp add: safe_def)
qed (simp add: safe_def, blast intro: advance_0 [symmetric])

text \<open>A nested field is a context inside the given one.\<close>

lemma nestedField_Ok:
  assumes "ctx_ok buf ctx" "Serialization_deserializeNestedField buf ctx = Ok (out, ctx')"
  obtains n where "4 + n \<le> unat (dc_length ctx)" "out = \<lparr>dc_data = dc_data ctx + 4, dc_length = of_nat n\<rparr>"
    "unat (dc_length out) = n" "ctx' = advance (4 + n) ctx" "ctx_ok buf out" "n < 2 ^ 32"
proof -
  obtain v c where u: "Serialization_deserializeUInt buf ctx = Ok (v, c)"
    using assms(2) unfolding Serialization_deserializeNestedField_def
    by (cases "Serialization_deserializeUInt buf ctx") auto
  note ok = deserializeUInt_Ok [OF assms(1) u]
  let ?n = "unat (v - Serialization_serialLenUInt)"
  have r: "?n \<le> unat (dc_length c)" "out = \<lparr>dc_data = dc_data c, dc_length = ucast (v - Serialization_serialLenUInt)\<rparr>"
    "ctx' = advance ?n c"
    using assms(2) u
    by (auto simp: Serialization_deserializeNestedField_def Let_def advance_ucast word_less_nat_alt
        not_less split: if_splits)
  show thesis
  proof (rule that)
    show "4 + ?n \<le> unat (dc_length ctx)" using r(1) ok(2,3) by (simp add: unat_advance)
    show "out = \<lparr>dc_data = dc_data ctx + 4, dc_length = of_nat ?n\<rparr>" using r(2) ok(2) by simp
    show len: "unat (dc_length out) = ?n" using r(2) by simp
    show "ctx' = advance (4 + ?n) ctx" using r(3) ok(2) by (simp add: advance_advance)
    show "ctx_ok buf out"
      using r(1) len ok(2,3) assms(1) r(2) by (simp add: ctx_ok_def unat_advance)
    have "?n < 2 ^ LENGTH(32)" by (rule unsigned_less)
    then show "?n < 2 ^ 32" by simp
  qed
qed

lemma nestedField_safe:
  assumes "ctx_ok buf ctx"
  shows "Serialization_deserializeNestedField buf ctx \<noteq> OutOfBounds"
proof -
  have "Serialization_deserializeUInt buf ctx \<noteq> OutOfBounds"
    using uint_codec.des_safe assms by (simp add: safe_def)
  then show ?thesis
    by (cases "Serialization_deserializeUInt buf ctx")
       (auto simp: Serialization_deserializeNestedField_def Let_def split: if_splits)
qed

lemma nestedField_at:
  assumes ok: "ctx_ok buf ctx" and small: "4 + length bs < 2 ^ 32"
    and at: "at_ctx buf ctx (le_put 4 (of_nat (4 + length bs) :: u32) @ bs)"
  defines "out \<equiv> \<lparr>dc_data = dc_data ctx + 4, dc_length = of_nat (length bs)\<rparr> :: DeserializeCtx"
  shows "Serialization_deserializeNestedField buf ctx = Ok (out, advance (4 + length bs) ctx)"
    and "ctx_ok buf out" "at_ctx buf out bs" "unat (dc_length out) = length bs"
proof -
  have at1: "at_ctx buf ctx (le_put 4 (of_nat (4 + length bs) :: u32))"
    and at2: "at_ctx buf (advance 4 ctx) bs" using at by (simp_all only: at_ctx_append length_le_put)
  have len: "4 + length bs \<le> unat (dc_length ctx)" using at by (simp add: at_ctx_def)
  have un: "unat (of_nat (length bs) :: u32) = length bs" using small by (simp add: unat_of_nat)
  have uc: "(ucast (of_nat (length bs) :: u32) :: u64) = of_nat (length bs)"
    using of_nat_unat_32_64 [of "of_nat (length bs)"] un by simp
  have al: "unat (dc_length (advance 4 ctx)) = unat (dc_length ctx) - 4" using len by (simp add: unat_advance)
  show "Serialization_deserializeNestedField buf ctx = Ok (out, advance (4 + length bs) ctx)"
    using advance_ucast [of "advance 4 ctx" "of_nat (length bs)"] len al un
    by (simp add: Serialization_deserializeNestedField_def deserializeUInt_at [OF ok at1] Let_def
        word_less_nat_alt out_def uc advance_advance serialLen_defs)
  show u: "unat (dc_length out) = length bs" using small by (simp add: out_def unat_of_nat)
  show "ctx_ok buf out" using ok len u by (simp add: ctx_ok_def out_def)
  show "at_ctx buf out bs" using at2 u by (simp add: at_ctx_def out_def)
qed

lemma ucast_ucast_id_32: "(ucast (ucast (x :: u32) :: u64) :: u32) = x"
  by (rule bit_word_eqI) (simp add: bit_simps)

lemma ucast_of_nat_32_64: "n < 2 ^ 32 \<Longrightarrow> (ucast (of_nat n :: u32) :: u64) = of_nat n"
  using of_nat_unat_32_64 [of "of_nat n"] by (simp add: unat_of_nat_32)

lemma ucast_of_nat_64_32: "n < 2 ^ 32 \<Longrightarrow> (ucast (of_nat n :: u64) :: u32) = of_nat n"
  using ucast_of_nat_32_64 [of n] by (metis ucast_ucast_id_32)

text \<open>Size field and element count in front of a list that was serialized.\<close>

lemma list_header_at:
  assumes ok: "ctx_ok buf ctx" and at: "at_ctx buf ctx (sized_bytes enc xs)"
    and small: "8 + length (concat (map enc xs)) < 2 ^ 32"
  defines "e \<equiv> concat (map enc xs)"
  defines "body \<equiv> \<lparr>dc_data = dc_data ctx + 8, dc_length = of_nat (length e)\<rparr> :: DeserializeCtx"
  obtains out where
    "Serialization_deserializeNestedField buf ctx = Ok (out, advance (length (sized_bytes enc xs)) ctx)"
    "Serialization_deserializeUInt buf out = Ok (of_nat (length xs), body)"
    "ctx_ok buf body" "at_ctx buf body e"
proof -
  let ?n = "le_put 4 (of_nat (length xs) :: u32)"
  have at': "at_ctx buf ctx (le_put 4 (of_nat (4 + length (?n @ e)) :: u32) @ ?n @ e)"
    using at by (simp add: sized_bytes_def Let_def e_def)
  have "4 + length (?n @ e) < 2 ^ 32" using small by (simp add: e_def)
  note nest = nestedField_at [OF ok this at']
  let ?out = "\<lparr>dc_data = dc_data ctx + 4, dc_length = of_nat (length (?n @ e))\<rparr> :: DeserializeCtx"
  have at1: "at_ctx buf ?out ?n" and at2: "at_ctx buf (advance 4 ?out) e"
    using nest(3) by (simp_all only: at_ctx_append length_le_put)
  have adv: "advance 4 ?out = body" by (simp add: advance_def body_def)
  show thesis
  proof (rule that)
    show "Serialization_deserializeNestedField buf ctx = Ok (?out, advance (length (sized_bytes enc xs)) ctx)"
      using nest(1) by (simp add: sized_bytes_def Let_def e_def)
    show "Serialization_deserializeUInt buf ?out = Ok (of_nat (length xs), body)"
      using deserializeUInt_at [OF nest(2) at1] adv by simp
    show "ctx_ok buf body" using ctx_ok_advance [OF nest(2), of 4] nest(4) adv by simp
    show "at_ctx buf body e" using at2 adv by simp
  qed
qed

text \<open>What any accepted size field and element count guarantee.\<close>

lemma list_header_Ok:
  assumes ok: "ctx_ok buf ctx"
    and "Serialization_deserializeNestedField buf ctx = Ok (out, ctx')"
    and "Serialization_deserializeUInt buf out = Ok (cnt, body)"
  obtains n where "8 + n \<le> unat (dc_length ctx)" "ctx' = advance (8 + n) ctx"
    "body = \<lparr>dc_data = dc_data ctx + 8, dc_length = of_nat n\<rparr>" "unat (dc_length body) = n"
    "unat (ucast (dc_length body) :: u32) = n" "ctx_ok buf body"
proof -
  obtain k where k: "4 + k \<le> unat (dc_length ctx)" "out = \<lparr>dc_data = dc_data ctx + 4, dc_length = of_nat k\<rparr>"
    "unat (dc_length out) = k" "ctx' = advance (4 + k) ctx" "ctx_ok buf out" "k < 2 ^ 32"
    using nestedField_Ok [OF ok assms(2)] by metis
  note u = deserializeUInt_Ok [OF k(5) assms(3)]
  have len: "unat (dc_length body) = k - 4" using u(2,3) k(3) by (simp add: unat_advance)
  show thesis
  proof (rule that)
    show "8 + (k - 4) \<le> unat (dc_length ctx)" "ctx' = advance (8 + (k - 4)) ctx"
      using k(1,4) u(3) k(3) by simp_all
    show "body = \<lparr>dc_data = dc_data ctx + 8, dc_length = of_nat (k - 4)\<rparr>"
      using u(2,3) k(2,3) by (simp add: advance_def of_nat_diff)
    then show "unat (ucast (dc_length body) :: u32) = k - 4"
      using k(6) by (simp add: ucast_of_nat_64_32 unat_of_nat_32)
    show "unat (dc_length body) = k - 4" by (rule len)
    show "ctx_ok buf body" using ctx_ok_advance [OF k(5) u(3)] u(2) by simp
  qed
qed

lemma list_header_safe:
  assumes "ctx_ok buf ctx"
  shows "Serialization_deserializeNestedField buf ctx \<noteq> OutOfBounds"
    and "Serialization_deserializeNestedField buf ctx = Ok (out, ctx') \<Longrightarrow>
         Serialization_deserializeUInt buf out \<noteq> OutOfBounds"
  using nestedField_safe [OF assms] nestedField_Ok [OF assms, of out ctx'] uint_codec.des_safe
  by (auto simp: safe_def)

section \<open>Lists of elements of a fixed size\<close>

text \<open>
  Both passes are memory safe for every element codec and every message, also where the
  32-bit product of element count and element size wraps.
\<close>

lemma listPreprocess_cases:
  assumes ok: "ctx_ok buf ctx"
  obtains (rejected) "listPreprocess k buf ctx = Rejected"
  | (accepted) raw n where "listPreprocess k buf ctx = Ok (raw, advance n ctx)" "n \<le> unat (dc_length ctx)"
      "ctx_ok buf \<lparr>dc_data = raw_data raw, dc_length = ucast (raw_length raw)\<rparr>"
proof (cases "Serialization_deserializeNestedField buf ctx")
  case (Ok r)
  obtain out ctx' where r: "Serialization_deserializeNestedField buf ctx = Ok (out, ctx')" using Ok by (cases r) auto
  show thesis
  proof (cases "Serialization_deserializeUInt buf out")
    case (Ok u)
    obtain cnt body where u: "Serialization_deserializeUInt buf out = Ok (cnt, body)" using Ok by (cases u) auto
    obtain n where n: "8 + n \<le> unat (dc_length ctx)" "ctx' = advance (8 + n) ctx"
      "unat (dc_length body) = n" "unat (ucast (dc_length body) :: u32) = n" "ctx_ok buf body"
      using list_header_Ok [OF ok r u] by metis
    show thesis
    proof (cases "dc_length body = ucast (cnt * k)")
      case True
      show thesis
        by (rule accepted [of "\<lparr>raw_data = dc_data body, raw_length = ucast (dc_length body), raw_elemCount = cnt\<rparr>" "8 + n"])
           (use n True in \<open>simp_all add: listPreprocess_def r u ctx_ok_def ucast_ucast_id_32\<close>)
    next
      case False
      then show thesis by (intro rejected) (simp add: listPreprocess_def r u)
    qed
  qed (use rejected list_header_safe(2) [OF ok r] in \<open>simp_all add: listPreprocess_def r\<close>)
qed (use rejected list_header_safe(1) [OF ok] in \<open>simp_all add: listPreprocess_def\<close>)

lemma rawListElems_safe:
  assumes "safe des" "ctx_ok buf \<lparr>dc_data = raw_data raw, dc_length = ucast (raw_length raw)\<rparr>"
  shows "rawListElems des buf raw \<noteq> OutOfBounds"
  using safe_elems [OF assms(1), of "unat (raw_elemCount raw)"] assms(2)
  by (auto simp: safe_def rawListElems_def dbind_def split: dres.splits)

lemma twoPass_safe:
  assumes "safe des"
  shows "safe (twoPass (listPreprocess k) (rawListElems des))"
  unfolding safe_def
proof (intro allI impI)
  fix buf ctx assume ok: "ctx_ok buf ctx"
  show "twoPass (listPreprocess k) (rawListElems des) buf ctx \<noteq> OutOfBounds \<and>
    (\<forall>v ctx'. twoPass (listPreprocess k) (rawListElems des) buf ctx = Ok (v, ctx') \<longrightarrow>
       (\<exists>n. n \<le> unat (dc_length ctx) \<and> ctx' = advance n ctx))"
    using ok
  proof (cases rule: listPreprocess_cases [where k = k, consumes 1, case_names rejected accepted])
    case rejected
    then show ?thesis by (simp add: twoPass_def)
  next
    case (accepted raw n)
    with rawListElems_safe [OF assms, of buf raw] show ?thesis
      by (cases "rawListElems des buf raw") (auto simp: twoPass_def)
  qed
qed

locale fixed_codec = safe_codec +
  fixes elemLen :: nat
  assumes enc_length: "dom x \<Longrightarrow> length (enc x) = elemLen"
    and elemLen_pos: "0 < elemLen"
begin

lemma elems_length: "\<forall>x \<in> set xs. dom x \<Longrightarrow> length (concat (map enc xs)) = length xs * elemLen"
  by (induction xs) (auto simp: enc_length)

lemma sized_reads:
  assumes xs: "\<forall>x \<in> set xs. dom x" and small: "8 + length xs * elemLen < 2 ^ 32"
  shows "reads (twoPass (listPreprocess (of_nat elemLen)) (rawListElems des)) (sized_bytes enc xs) xs"
  unfolding reads_def
proof (intro allI impI)
  fix buf ctx assume ok: "ctx_ok buf ctx" and at: "at_ctx buf ctx (sized_bytes enc xs)"
  let ?e = "concat (map enc xs)"
  have len: "length ?e = length xs * elemLen" using xs by (rule elems_length)
  obtain out where h: "Serialization_deserializeNestedField buf ctx = Ok (out, advance (length (sized_bytes enc xs)) ctx)"
    "Serialization_deserializeUInt buf out = Ok (of_nat (length xs), \<lparr>dc_data = dc_data ctx + 8, dc_length = of_nat (length ?e)\<rparr>)"
    "ctx_ok buf \<lparr>dc_data = dc_data ctx + 8, dc_length = of_nat (length ?e)\<rparr>"
    "at_ctx buf \<lparr>dc_data = dc_data ctx + 8, dc_length = of_nat (length ?e)\<rparr> ?e"
    using list_header_at [OF ok at] small len by metis
  have "length xs \<le> length xs * elemLen" using elemLen_pos by simp
  then have cnt: "length xs < 2 ^ 32" and el: "length ?e < 2 ^ 32" using small len by linarith+
  have prod: "of_nat (length xs) * of_nat elemLen = (of_nat (length ?e) :: u32)" by (simp add: len)
  have pre: "listPreprocess (of_nat elemLen) buf ctx =
      Ok (\<lparr>raw_data = dc_data ctx + 8, raw_length = of_nat (length ?e), raw_elemCount = of_nat (length xs)\<rparr>,
          advance (length (sized_bytes enc xs)) ctx)"
    unfolding listPreprocess_def h dbind_simps prod.case
    by (simp add: prod ucast_of_nat_32_64 [OF el] ucast_of_nat_64_32 [OF el])
  have "reads (deserializeElems des (length xs)) ?e xs" using xs by (intro reads_elems des_reads) simp
  with h(3,4) show "twoPass (listPreprocess (of_nat elemLen)) (rawListElems des) buf ctx =
      Ok (xs, advance (length (sized_bytes enc xs)) ctx)"
    by (simp add: twoPass_def pre reads_def rawListElems_def unat_of_nat_32 [OF cnt] ucast_of_nat_32_64 [OF el])
qed

end

text \<open>Lists of a fixed-size element are a codec again.\<close>

sublocale fixed_codec \<subseteq> lists: safe_codec "serializeSizedList ser"
  "twoPass (listPreprocess (of_nat elemLen)) (rawListElems des)" "sized_bytes enc"
  "\<lambda>xs. (\<forall>x \<in> set xs. dom x) \<and> 8 + length xs * elemLen < 2 ^ 32"
proof unfold_locales
  show "writes (serializeSizedList ser xs) (sized_bytes enc xs)"
    if "(\<forall>x \<in> set xs. dom x) \<and> 8 + length xs * elemLen < 2 ^ 32" for xs
    using that by (intro writes_sized) (simp add: ser_writes)
  show "reads (twoPass (listPreprocess (of_nat elemLen)) (rawListElems des)) (sized_bytes enc xs) xs"
    if "(\<forall>x \<in> set xs. dom x) \<and> 8 + length xs * elemLen < 2 ^ 32" for xs
    using that by (intro sized_reads) simp_all
  show "safe (twoPass (listPreprocess (of_nat elemLen)) (rawListElems des))"
    by (intro twoPass_safe des_safe)
qed

interpretation uint16_elem: fixed_codec Serialization_serializeUShort Serialization_deserializeUShort
  "le_put 2" "\<lambda>_. True" 2
  by unfold_locales simp_all

interpretation int64_elem: fixed_codec Serialization_serializeInt64 Serialization_deserializeInt64
  "le_put 8" "\<lambda>_. True" 8
  by unfold_locales simp_all

lemmas list_op_defs = Serialization_serializeUInt16List_def Serialization_serializeInt64CpyList_def
  Serialization_deserializeUInt8ListPreprocess_def Serialization_deserializeUInt16ListPreprocess_def
  Serialization_deserializeInt64CpyListPreprocess_def Serialization_deserializeUInt8List_def
  Serialization_deserializeUInt16List_def Serialization_deserializeInt64CpyList_def

section \<open>Properties\<close>

text \<open>
  A list of 64-bit integers that is serialized into a buffer of the size the dry run
  computed, with the total size written last over the placeholder, is read back by the two
  deserialization passes to the same list with nothing left over.
\<close>

theorem int64_list_round_trip:
  assumes "8 + length xs * 8 < 2 ^ 32"
    and "Serialization_serializeInt64CpyList xs \<lparr>sc_data = None, sc_length = 0\<rparr> = Some c"
    and "length buf = unat (sc_length c)"
  shows "\<exists>buf' c' rest. Serialization_serializeInt64CpyList xs \<lparr>sc_data = Some buf, sc_length = 0\<rparr> = Some c' \<and>
           sc_data c' = Some buf' \<and> sc_length c' = sc_length c \<and>
           twoPass Serialization_deserializeInt64CpyListPreprocess Serialization_deserializeInt64CpyList buf'
             \<lparr>dc_data = 0, dc_length = of_nat (length buf')\<rparr> = Ok (xs, rest) \<and> dc_length rest = 0"
proof -
  have "length (sized_bytes (le_put 8) xs) < 2 ^ 32"
    using assms(1) int64_elem.elems_length [of xs] by (simp add: sized_bytes_def Let_def)
  then show ?thesis
    using int64_elem.lists.round_trip [of xs c buf] assms by (simp add: list_op_defs serialLen_defs)
qed

theorem int64_list_round_trip_witness:
  "\<exists>c' buf' rest. Serialization_serializeInt64CpyList [7, - 1] \<lparr>sc_data = Some (replicate 24 9), sc_length = 0\<rparr> = Some c' \<and>
     sc_data c' = Some buf' \<and>
     twoPass Serialization_deserializeInt64CpyListPreprocess Serialization_deserializeInt64CpyList buf'
       \<lparr>dc_data = 0, dc_length = of_nat (length buf')\<rparr> = Ok ([7, - 1], rest)"
proof -
  have d: "Serialization_serializeInt64CpyList [7, - 1] \<lparr>sc_data = None, sc_length = 0\<rparr> =
      Some \<lparr>sc_data = None, sc_length = 24\<rparr>" by code_simp
  have "8 + length [7, - 1 :: u64] * 8 < 2 ^ 32"
    "length (replicate 24 9 :: bytes) = unat (sc_length \<lparr>sc_data = None, sc_length = 24\<rparr>)" by simp_all
  from int64_list_round_trip [OF this(1) d this(2)] show ?thesis by blast
qed

text \<open>
  The deserializers of the numeric lists and vectors are memory safe on every message: neither pass
  leaves the part of the buffer it was given, and an accepted list consumes only bytes of it.
\<close>

theorem numeric_lists_safe:
  "safe (twoPass Serialization_deserializeUInt8ListPreprocess Serialization_deserializeUInt8List) \<and>
   safe (twoPass Serialization_deserializeUInt8VecPreprocess Serialization_deserializeUInt8Vec) \<and>
   safe (twoPass Serialization_deserializeUInt16ListPreprocess Serialization_deserializeUInt16List) \<and>
   safe (twoPass Serialization_deserializeUInt16VecPreprocess Serialization_deserializeUInt16Vec) \<and>
   safe (twoPass Serialization_deserializeInt64CpyListPreprocess Serialization_deserializeInt64CpyList) \<and>
   safe (twoPass Serialization_deserializeInt64CpyVecPreprocess Serialization_deserializeInt64CpyVec)"
  by (simp add: list_op_defs Serialization_deserializeUInt8VecPreprocess_def
      Serialization_deserializeUInt16VecPreprocess_def Serialization_deserializeInt64CpyVecPreprocess_def
      Serialization_deserializeUInt8Vec_def Serialization_deserializeUInt16Vec_def
      Serialization_deserializeInt64CpyVec_def twoPass_safe uint8_codec.des_safe
      ushort_codec.des_safe int64_codec.des_safe)

end
