(* ===== verification/Serdes_String_Lists.thy ===== *)
theory Serdes_String_Lists
  imports Serdes_Lists
begin

text \<open>
  Lists of C strings of the wire format (\<^verbatim>\<open>StrCpyList\<close> and \<^verbatim>\<open>StrCpyVec\<close> in
  \<^verbatim>\<open>client_module/source/common/toolkit/Serialization.c\<close>). The elements are stored one after
  the other, each with its terminating zero, and found again with \<^verbatim>\<open>strlen\<close>, which runs to
  the next zero wherever that is: without one it leaves the buffer. The first pass looks at the
  last byte of the list so that the second one cannot run away.
\<close>

section \<open>Operations\<close>

fun strlen_in :: "bytes \<Rightarrow> nat option" where
  "strlen_in [] = None"
| "strlen_in (b # bs) = (if b = 0 then Some 0 else map_option Suc (strlen_in bs))"

definition c_strlen :: "bytes \<Rightarrow> nat \<Rightarrow> nat option" where
  "c_strlen buf off = strlen_in (drop off buf)"

text \<open>An element of the list is the content of a C string, without its terminating zero.\<close>

definition Serialization_serializeStrCpyList :: "bytes list \<Rightarrow> SerializeCtx \<Rightarrow> SerializeCtx option" where
  "Serialization_serializeStrCpyList xs =
     serializeSizedList (\<lambda>currentElem. Serialization_serializeBlock (currentElem @ [0])) xs"

definition Serialization_serializeStrCpyVec :: "bytes list \<Rightarrow> SerializeCtx \<Rightarrow> SerializeCtx option" where
  "Serialization_serializeStrCpyVec xs = Serialization_serializeStrCpyList xs"

text \<open>
  The check of the last byte reads \<^verbatim>\<open>data[length - 1]\<close> also when the list is empty; the
  address then wraps to the byte in front of the list, which is part of the element count.
\<close>

definition Serialization_deserializeStrCpyListPreprocess ::
    "bytes \<Rightarrow> DeserializeCtx \<Rightarrow> (RawList \<times> DeserializeCtx) dres" where
  "Serialization_deserializeStrCpyListPreprocess buf ctx =
     dbind (Serialization_deserializeNestedField buf ctx) (\<lambda>(outCtx, ctx).
     dbind (Serialization_deserializeUInt buf outCtx) (\<lambda>(elemCount, outCtx).
     let outList = \<lparr>raw_data = dc_data outCtx, raw_length = ucast (dc_length outCtx),
                    raw_elemCount = elemCount\<rparr> in
     if elemCount \<noteq> 0 then
       (case buf_read buf (dc_data outCtx + unat (dc_length outCtx) - 1) 1 of
          None \<Rightarrow> OutOfBounds
        | Some bs \<Rightarrow> if hd bs \<noteq> 0 then Rejected else Ok (outList, ctx))
     else Ok (outList, ctx)))"

definition Serialization_deserializeStrCpyVecPreprocess ::
    "bytes \<Rightarrow> DeserializeCtx \<Rightarrow> (RawList \<times> DeserializeCtx) dres" where
  "Serialization_deserializeStrCpyVecPreprocess = Serialization_deserializeStrCpyListPreprocess"

text \<open>
  The loop over the elements ends early when the list is used up; the function then returns
  false, although it has appended what it found.
\<close>

fun strCpyElems :: "nat \<Rightarrow> bytes \<Rightarrow> nat \<Rightarrow> u32 \<Rightarrow> bytes list dres" where
  "strCpyElems 0 buf listStart listBufLen = Ok []"
| "strCpyElems (Suc n) buf listStart listBufLen =
     (if listBufLen > 0 then
        (case c_strlen buf listStart of
           None \<Rightarrow> OutOfBounds
         | Some elemLen \<Rightarrow>
             dbind (strCpyElems n buf (listStart + (elemLen + 1)) (listBufLen - of_nat (elemLen + 1)))
               (\<lambda>vs. Ok (take elemLen (drop listStart buf) # vs)))
      else Rejected)"

definition Serialization_deserializeStrCpyList :: "bytes \<Rightarrow> RawList \<Rightarrow> bytes list dres" where
  "Serialization_deserializeStrCpyList buf inList =
     strCpyElems (unat (raw_elemCount inList)) buf (raw_data inList) (raw_length inList)"

definition Serialization_deserializeStrCpyVec :: "bytes \<Rightarrow> RawList \<Rightarrow> bytes list dres" where
  "Serialization_deserializeStrCpyVec buf inList =
     strCpyElems (unat (raw_elemCount inList)) buf (raw_data inList) (raw_length inList)"

section \<open>C strings\<close>

lemma strlen_in_Some:
  "i < length bs \<Longrightarrow> bs ! i = 0 \<Longrightarrow> \<exists>l \<le> i. strlen_in bs = Some l"
proof (induction bs arbitrary: i)
  case (Cons b bs)
  show ?case
  proof (cases "b = 0")
    case False
    with Cons.prems obtain j where j: "i = Suc j" "j < length bs" "bs ! j = 0" by (cases i) auto
    then obtain l where "l \<le> j" "strlen_in bs = Some l" using Cons.IH by blast
    with False j(1) show ?thesis by simp
  qed simp
qed simp

lemma c_strlen_Some:
  assumes "i < length buf" "start \<le> i" "buf ! i = 0"
  obtains l where "c_strlen buf start = Some l" "start + l \<le> i"
proof -
  have "\<exists>l \<le> i - start. strlen_in (drop start buf) = Some l"
    using assms by (intro strlen_in_Some) simp_all
  with assms(2) that show thesis unfolding c_strlen_def by fastforce
qed

lemma strlen_in_append: "0 \<notin> set s \<Longrightarrow> strlen_in (s @ 0 # r) = Some (length s)"
  by (induction s) auto

section \<open>The second pass\<close>

definition list_closed :: "bytes \<Rightarrow> nat \<Rightarrow> nat \<Rightarrow> bool" where
  "list_closed buf start len \<longleftrightarrow>
     start + len \<le> length buf \<and> (len = 0 \<or> buf ! (start + len - 1) = 0)"

lemma unat_sub_of_nat:
  assumes "n \<le> unat (x :: u32)"
  shows "unat (x - of_nat n) = unat x - n"
proof -
  have "unat x < 2 ^ LENGTH(32)" by (rule unsigned_less)
  with assms have "unat (of_nat n :: u32) = n" by (intro unat_of_nat_32) simp
  with assms show ?thesis by (simp add: unat_sub_if')
qed

text \<open>The next string of a closed list ends inside of it, and so does the list behind it.\<close>

lemma list_closed_step:
  assumes closed: "list_closed buf start (unat (len :: u32))" and "len > 0"
  obtains l where "c_strlen buf start = Some l" "l + 1 \<le> unat len" "unat (len - of_nat (l + 1)) = unat len - (l + 1)"
    "list_closed buf (start + (l + 1)) (unat (len - of_nat (l + 1)))"
proof -
  have pos: "0 < unat len" using assms(2) by (simp add: word_less_nat_alt)
  with closed have "start + unat len - 1 < length buf" "start \<le> start + unat len - 1"
    "buf ! (start + unat len - 1) = 0" by (auto simp: list_closed_def)
  then obtain l where l: "c_strlen buf start = Some l" "start + l \<le> start + unat len - 1"
    by (rule c_strlen_Some)
  then have le: "l + 1 \<le> unat len" using pos by linarith
  then have sub: "unat (len - of_nat (l + 1)) = unat len - (l + 1)" by (rule unat_sub_of_nat)
  with closed le have "list_closed buf (start + (l + 1)) (unat (len - of_nat (l + 1)))" by (auto simp: list_closed_def)
  with l(1) le sub that show thesis by blast
qed

lemma strCpyElems_safe:
  "list_closed buf start (unat len) \<Longrightarrow> strCpyElems n buf start len \<noteq> OutOfBounds"
proof (induction n arbitrary: start len)
  case (Suc n)
  show ?case
  proof (cases "len > 0")
    case True
    obtain l where l: "c_strlen buf start = Some l" "list_closed buf (start + (l + 1)) (unat (len - of_nat (l + 1)))"
      by (rule list_closed_step [OF Suc.prems True])
    from Suc.IH [OF l(2)] True l(1) show ?thesis
      by (cases "strCpyElems n buf (start + (l + 1)) (len - of_nat (l + 1))") simp_all
  qed simp
qed simp

text \<open>Where a list of strings is in memory, its first string is found, and the others are behind it.\<close>

lemma first_string_at:
  assumes "0 \<notin> set s" and small: "length ((s @ [0]) @ rest) < 2 ^ 32"
    and at: "take (length ((s @ [0]) @ rest)) (drop start buf) = (s @ [0]) @ rest"
  shows "c_strlen buf start = Some (length s)" "take (length s) (drop start buf) = s"
    "take (length rest) (drop (start + (length s + 1)) buf) = rest"
    "(of_nat (length ((s @ [0]) @ rest)) :: u32) > 0"
proof -
  have parts: "take (length (s @ [0])) (drop start buf) = s @ [0]"
    "take (length rest) (drop (start + length (s @ [0])) buf) = rest"
    using at unfolding take_append_eq by simp_all
  have "drop start buf = take (length (s @ [0])) (drop start buf) @ drop (length (s @ [0])) (drop start buf)"
    by (rule append_take_drop_id [symmetric])
  then have d: "drop start buf = s @ 0 # drop (length (s @ [0])) (drop start buf)"
    using parts(1) by simp
  show "c_strlen buf start = Some (length s)"
    unfolding c_strlen_def by (subst d) (rule strlen_in_append [OF assms(1)])
  show "take (length s) (drop start buf) = s" by (subst d) simp
  show "take (length rest) (drop (start + (length s + 1)) buf) = rest" using parts(2) by simp
  show "(of_nat (length ((s @ [0]) @ rest)) :: u32) > 0"
    using unat_of_nat_32 [OF small] by (simp add: word_less_nat_alt)
qed

lemma strCpyElems_reads:
  assumes "\<forall>s \<in> set xs. 0 \<notin> set s" "length (concat (map (\<lambda>s. s @ [0]) xs)) < 2 ^ 32"
    and "take (length (concat (map (\<lambda>s. s @ [0]) xs))) (drop start buf) = concat (map (\<lambda>s. s @ [0]) xs)"
  shows "strCpyElems (length xs) buf start (of_nat (length (concat (map (\<lambda>s. s @ [0]) xs)))) = Ok xs"
  using assms
proof (induction xs arbitrary: start)
  case (Cons s xs)
  let ?e = "concat (map (\<lambda>s. s @ [0]) xs)"
  have "0 \<notin> set s" "length ((s @ [0]) @ ?e) < 2 ^ 32" "take (length ((s @ [0]) @ ?e)) (drop start buf) = (s @ [0]) @ ?e"
    using Cons.prems by simp_all
  note first = first_string_at [OF this]
  have "strCpyElems (length xs) buf (start + (length s + 1)) (of_nat (length ?e)) = Ok xs"
    using Cons.IH [of "start + (length s + 1)"] Cons.prems(1,2) first(3) by simp
  then show ?case using first by simp
qed simp

section \<open>Both passes\<close>

lemma strCpyPreprocess_cases:
  assumes ok: "ctx_ok buf ctx"
  obtains (rejected) "Serialization_deserializeStrCpyListPreprocess buf ctx = Rejected"
  | (accepted) raw n where "Serialization_deserializeStrCpyListPreprocess buf ctx = Ok (raw, advance n ctx)"
      "n \<le> unat (dc_length ctx)" "raw_elemCount raw = 0 \<or> list_closed buf (raw_data raw) (unat (raw_length raw))"
proof (cases "Serialization_deserializeNestedField buf ctx")
  case (Ok r)
  obtain out ctx' where r: "Serialization_deserializeNestedField buf ctx = Ok (out, ctx')" using Ok by (cases r) auto
  show thesis
  proof (cases "Serialization_deserializeUInt buf out")
    case (Ok u)
    obtain cnt body where u: "Serialization_deserializeUInt buf out = Ok (cnt, body)" using Ok by (cases u) auto
    obtain n where n: "8 + n \<le> unat (dc_length ctx)" "ctx' = advance (8 + n) ctx"
      "body = \<lparr>dc_data = dc_data ctx + 8, dc_length = of_nat n\<rparr>"
      "unat (dc_length body) = n" "unat (ucast (dc_length body) :: u32) = n" "ctx_ok buf body"
      using list_header_Ok [OF ok r u] by metis
    let ?last = "dc_data body + unat (dc_length body) - 1"
    let ?raw = "\<lparr>raw_data = dc_data body, raw_length = ucast (dc_length body), raw_elemCount = cnt\<rparr>"
    have "?last < length buf" using n(3,4,6) by (simp add: ctx_ok_def)
    then have rd: "buf_read buf ?last 1 = Some [buf ! ?last]"
      by (simp add: buf_read_def take_Suc_conv_app_nth)
    show thesis
    proof (cases "cnt = 0 \<or> buf ! ?last = 0")
      case True
      show thesis
      proof (rule accepted)
        show "Serialization_deserializeStrCpyListPreprocess buf ctx = Ok (?raw, advance (8 + n) ctx)"
          using True rd n(2) by (auto simp: Serialization_deserializeStrCpyListPreprocess_def r u Let_def)
        show "8 + n \<le> unat (dc_length ctx)" by (rule n(1))
        show "raw_elemCount ?raw = 0 \<or> list_closed buf (raw_data ?raw) (unat (raw_length ?raw))"
          using True n(4,5,6) by (auto simp: list_closed_def ctx_ok_def)
      qed
    next
      case False
      with rd show thesis
        by (intro rejected) (simp add: Serialization_deserializeStrCpyListPreprocess_def r u Let_def)
    qed
  qed (use rejected list_header_safe(2) [OF ok r] in \<open>simp_all add: Serialization_deserializeStrCpyListPreprocess_def r\<close>)
qed (use rejected list_header_safe(1) [OF ok] in \<open>simp_all add: Serialization_deserializeStrCpyListPreprocess_def\<close>)

definition strCpy_dom :: "bytes list \<Rightarrow> bool" where
  "strCpy_dom xs \<longleftrightarrow> (\<forall>s \<in> set xs. 0 \<notin> set s) \<and> 8 + length (concat (map (\<lambda>s. s @ [0]) xs)) < 2 ^ 32"

lemma strCpy_twoPass_safe:
  "safe (twoPass Serialization_deserializeStrCpyListPreprocess Serialization_deserializeStrCpyList)"
  unfolding safe_def
proof (intro allI impI)
  fix buf ctx assume "ctx_ok buf ctx"
  then show "twoPass Serialization_deserializeStrCpyListPreprocess Serialization_deserializeStrCpyList buf ctx \<noteq> OutOfBounds \<and>
    (\<forall>v ctx'. twoPass Serialization_deserializeStrCpyListPreprocess Serialization_deserializeStrCpyList buf ctx = Ok (v, ctx') \<longrightarrow>
       (\<exists>n. n \<le> unat (dc_length ctx) \<and> ctx' = advance n ctx))"
  proof (cases rule: strCpyPreprocess_cases [consumes 1, case_names rejected accepted])
    case rejected
    then show ?thesis by (simp add: twoPass_def)
  next
    case (accepted raw n)
    then have "Serialization_deserializeStrCpyList buf raw \<noteq> OutOfBounds"
      using strCpyElems_safe by (auto simp: Serialization_deserializeStrCpyList_def)
    with accepted(1,2) show ?thesis
      by (cases "Serialization_deserializeStrCpyList buf raw") (auto simp: twoPass_def)
  qed
qed

text \<open>The last byte of a serialized list that has elements is the zero of its last one.\<close>

lemma strCpy_last:
  "xs \<noteq> [] \<Longrightarrow> concat (map (\<lambda>s. s @ [0]) xs) \<noteq> [] \<and> last (concat (map (\<lambda>s. s @ [0]) xs)) = (0 :: u8)"
  by (induction xs rule: rev_induct) simp_all

lemma read_last:
  assumes "take (length e) (drop off buf) = e" "e \<noteq> []" "off + length e \<le> length buf"
  shows "buf_read buf (off + length e - 1) 1 = Some [last e]"
proof -
  have "last e = take (length e) (drop off buf) ! (length e - 1)"
    using assms(1,2) by (metis last_conv_nth)
  also have "\<dots> = buf ! (off + length e - 1)"
    using assms(2,3) by (cases e) simp_all
  finally show ?thesis
    using assms(2,3) by (cases e) (simp_all add: buf_read_def take_Suc_conv_app_nth)
qed

lemma strCpy_twoPass_at:
  assumes ok: "ctx_ok buf ctx" and at: "at_ctx buf ctx (sized_bytes (\<lambda>s. s @ [0]) xs)"
    and dom: "strCpy_dom xs"
  shows "twoPass Serialization_deserializeStrCpyListPreprocess Serialization_deserializeStrCpyList buf ctx =
    Ok (xs, advance (length (sized_bytes (\<lambda>s. s @ [0]) xs)) ctx)"
proof -
  let ?e = "concat (map (\<lambda>s. s @ [0]) xs) :: bytes"
  let ?body = "\<lparr>dc_data = dc_data ctx + 8, dc_length = of_nat (length ?e)\<rparr> :: DeserializeCtx"
  have small: "8 + length ?e < 2 ^ 32" using dom by (simp add: strCpy_dom_def)
  obtain out where h: "Serialization_deserializeNestedField buf ctx =
      Ok (out, advance (length (sized_bytes (\<lambda>s. s @ [0]) xs)) ctx)"
    "Serialization_deserializeUInt buf out = Ok (of_nat (length xs), ?body)"
    "ctx_ok buf ?body" "at_ctx buf ?body ?e"
    using list_header_at [OF ok at small] by metis
  have el: "length ?e < 2 ^ 32" using small by simp
  then have len: "unat (of_nat (length ?e) :: u64) = length ?e" by (simp only: unat_of_nat) simp
  have tk: "take (length ?e) (drop (dc_data ctx + 8) buf) = ?e" using h(4) by (simp add: at_ctx_def)
  have cnt: "length xs \<le> length ?e" by (induction xs) auto
  then have ucnt: "unat (of_nat (length xs) :: u32) = length xs" using el by (intro unat_of_nat_32) linarith
  have last: "buf_read buf (dc_data ?body + unat (dc_length ?body) - 1) 1 = Some [0]" if "xs \<noteq> []"
    using read_last [OF tk] strCpy_last [OF that] h(3) len by (simp add: ctx_ok_def)
  have "strCpyElems (length xs) buf (dc_data ctx + 8) (of_nat (length ?e)) = Ok xs"
    using dom el tk by (intro strCpyElems_reads) (simp_all add: strCpy_dom_def)
  then show ?thesis
    using last ucnt
    by (cases "xs = []")
       (simp_all add: twoPass_def Serialization_deserializeStrCpyListPreprocess_def h(1,2) Let_def
        Serialization_deserializeStrCpyList_def ucast_of_nat_64_32 [OF el] unat_eq_zero [symmetric])
qed

interpretation strCpyList_codec: safe_codec Serialization_serializeStrCpyList
  "twoPass Serialization_deserializeStrCpyListPreprocess Serialization_deserializeStrCpyList"
  "sized_bytes (\<lambda>s. s @ [0])" strCpy_dom
proof unfold_locales
  show "writes (Serialization_serializeStrCpyList xs) (sized_bytes (\<lambda>s. s @ [0]) xs)" for xs
    unfolding Serialization_serializeStrCpyList_def by (intro writes_sized) simp
  show "reads (twoPass Serialization_deserializeStrCpyListPreprocess Serialization_deserializeStrCpyList)
      (sized_bytes (\<lambda>s. s @ [0]) xs) xs" if "strCpy_dom xs" for xs
    using strCpy_twoPass_at that by (simp add: reads_def)
qed (rule strCpy_twoPass_safe)

section \<open>Properties\<close>

text \<open>
  The string list deserializers are memory safe on every message, although their second pass
  searches for zeros without a limit: the check of the last byte in the first pass bounds it. A
  list of C strings that was serialized is read back unchanged, in the middle of any message.
\<close>

theorem strCpyList_safe_round_trip:
  "safe (twoPass Serialization_deserializeStrCpyListPreprocess Serialization_deserializeStrCpyList) \<and>
   safe (twoPass Serialization_deserializeStrCpyVecPreprocess Serialization_deserializeStrCpyVec) \<and>
   ((\<forall>s \<in> set xs. 0 \<notin> set s) \<and> 8 + length (concat (map (\<lambda>s. s @ [0]) xs)) < 2 ^ 32 \<longrightarrow>
      writes (Serialization_serializeStrCpyList xs) (sized_bytes (\<lambda>s. s @ [0]) xs) \<and>
      reads (twoPass Serialization_deserializeStrCpyListPreprocess Serialization_deserializeStrCpyList)
        (sized_bytes (\<lambda>s. s @ [0]) xs) xs)"
proof -
  have "Serialization_deserializeStrCpyVec = Serialization_deserializeStrCpyList"
    by (intro ext) (simp add: Serialization_deserializeStrCpyVec_def Serialization_deserializeStrCpyList_def)
  then show ?thesis
    using strCpyList_codec.des_safe strCpyList_codec.ser_writes [of xs] strCpyList_codec.des_reads [of xs]
    by (simp add: Serialization_deserializeStrCpyVecPreprocess_def strCpy_dom_def)
qed

theorem strCpyList_safe_round_trip_witness:
  "reads (twoPass Serialization_deserializeStrCpyListPreprocess Serialization_deserializeStrCpyList)
     (sized_bytes (\<lambda>s. s @ [0]) [[97, 98], [], [99]]) [[97, 98], [], [99]]"
  using strCpyList_safe_round_trip [of "[[97, 98], [], [99]]"] by simp

end
