(* ===== verification/Serdes_Mappings.thy ===== *)
theory Serdes_Mappings
  imports Serdes_Lists
begin

text \<open>
  The records the management daemon sends to the client and the lists of them
  (\<^verbatim>\<open>client_module/source/common/Types.h\<close>, \<^verbatim>\<open>Types.c\<close>), whose codecs are
  generated by the \<^verbatim>\<open>SERDES_DEFINE\<close> macros of \<^verbatim>\<open>Serialization.h\<close>: the fields of a
  record in order, an enum as its underlying integer, a list as an optional total size and an
  element count, both written last over placeholders.
\<close>

section \<open>Generated list codecs\<close>

definition SERDES_LIST_serialize ::
    "bool \<Rightarrow> ('a \<Rightarrow> SerializeCtx \<Rightarrow> SerializeCtx option) \<Rightarrow> 'a list \<Rightarrow> SerializeCtx \<Rightarrow> SerializeCtx option" where
  "SERDES_LIST_serialize HasLength ser xs ctxAtStart =
     Option.bind (if HasLength then Serialization_serializeUInt 0 ctxAtStart else Some ctxAtStart) (\<lambda>ctx.
     Option.bind (Serialization_serializeUInt 0 ctx) (\<lambda>ctx.
     Option.bind (serializeElems ser xs ctx) (\<lambda>ctx.
     Option.bind (if HasLength
                  then serializeUInt_at (sc_length ctxAtStart) (sc_length ctx - sc_length ctxAtStart) ctx
                  else Some ctx) (\<lambda>ctx.
     serializeUInt_at (if HasLength then sc_length ctxAtStart + Serialization_serialLenUInt
                       else sc_length ctxAtStart)
       (of_nat (length xs)) ctx))))"

definition SERDES_LIST_deserialize ::
    "bool \<Rightarrow> (bytes \<Rightarrow> DeserializeCtx \<Rightarrow> ('a \<times> DeserializeCtx) dres)
       \<Rightarrow> bytes \<Rightarrow> DeserializeCtx \<Rightarrow> ('a list \<times> DeserializeCtx) dres" where
  "SERDES_LIST_deserialize HasLength des buf ctx =
     (if HasLength then
        dbind (Serialization_deserializeNestedField buf ctx) (\<lambda>(innerCtx, ctx).
        dbind (Serialization_deserializeUInt buf innerCtx) (\<lambda>(items, innerCtx).
        dbind (deserializeElems des (unat items) buf innerCtx) (\<lambda>(desItems, innerCtx).
        Ok (desItems, ctx))))
      else
        dbind (Serialization_deserializeUInt buf ctx) (\<lambda>(items, ctx).
        deserializeElems des (unat items) buf ctx))"

section \<open>Identifiers and enums\<close>

definition NumNodeID_serialize :: "u32 \<Rightarrow> SerializeCtx \<Rightarrow> SerializeCtx option" where
  "NumNodeID_serialize v = Serialization_serializeUInt v"

definition NumNodeID_deserialize :: "bytes \<Rightarrow> DeserializeCtx \<Rightarrow> (u32 \<times> DeserializeCtx) dres" where
  "NumNodeID_deserialize = Serialization_deserializeUInt"

definition StoragePoolId_serialize :: "u16 \<Rightarrow> SerializeCtx \<Rightarrow> SerializeCtx option" where
  "StoragePoolId_serialize v = Serialization_serializeUShort v"

definition StoragePoolId_deserialize :: "bytes \<Rightarrow> DeserializeCtx \<Rightarrow> (u16 \<times> DeserializeCtx) dres" where
  "StoragePoolId_deserialize = Serialization_deserializeUShort"

text \<open>
  A deserialized enum is whatever byte was received; the cast does not check it. The enums are
  therefore bytes, with the enumerators as constants.
\<close>

definition TargetReachabilityState_ONLINE :: u8 where "TargetReachabilityState_ONLINE = 0"
definition TargetReachabilityState_POFFLINE :: u8 where "TargetReachabilityState_POFFLINE = 1"
definition TargetReachabilityState_OFFLINE :: u8 where "TargetReachabilityState_OFFLINE = 2"
definition TargetConsistencyState_GOOD :: u8 where "TargetConsistencyState_GOOD = 0"
definition TargetConsistencyState_NEEDS_RESYNC :: u8 where "TargetConsistencyState_NEEDS_RESYNC = 1"
definition TargetConsistencyState_BAD :: u8 where "TargetConsistencyState_BAD = 2"

lemmas target_state_defs = TargetReachabilityState_ONLINE_def TargetReachabilityState_POFFLINE_def
  TargetReachabilityState_OFFLINE_def TargetConsistencyState_GOOD_def
  TargetConsistencyState_NEEDS_RESYNC_def TargetConsistencyState_BAD_def

definition TargetReachabilityState_serialize :: "u8 \<Rightarrow> SerializeCtx \<Rightarrow> SerializeCtx option" where
  "TargetReachabilityState_serialize v = Serialization_serializeUInt8 v"

definition TargetReachabilityState_deserialize :: "bytes \<Rightarrow> DeserializeCtx \<Rightarrow> (u8 \<times> DeserializeCtx) dres" where
  "TargetReachabilityState_deserialize = Serialization_deserializeUInt8"

definition TargetConsistencyState_serialize :: "u8 \<Rightarrow> SerializeCtx \<Rightarrow> SerializeCtx option" where
  "TargetConsistencyState_serialize v = Serialization_serializeUInt8 v"

definition TargetConsistencyState_deserialize :: "bytes \<Rightarrow> DeserializeCtx \<Rightarrow> (u8 \<times> DeserializeCtx) dres" where
  "TargetConsistencyState_deserialize = Serialization_deserializeUInt8"

section \<open>Records\<close>

record TargetMapping =
  tm_targetID :: u16
  tm_nodeID :: u32

record TargetPoolMapping =
  tp_targetID :: u16
  tp_poolID :: u16

record BuddyGroupMapping =
  bm_groupID :: u16
  bm_primaryTargetID :: u16
  bm_secondaryTargetID :: u16

record TargetStateMapping =
  ts_targetID :: u16
  ts_reachabilityState :: u8
  ts_consistencyState :: u8

definition TargetMapping_serialize :: "TargetMapping \<Rightarrow> SerializeCtx \<Rightarrow> SerializeCtx option" where
  "TargetMapping_serialize v ctx =
     Option.bind (Serialization_serializeUShort (tm_targetID v) ctx) (NumNodeID_serialize (tm_nodeID v))"

definition TargetMapping_deserialize ::
    "bytes \<Rightarrow> DeserializeCtx \<Rightarrow> (TargetMapping \<times> DeserializeCtx) dres" where
  "TargetMapping_deserialize buf ctx =
     dbind (Serialization_deserializeUShort buf ctx) (\<lambda>(targetID, ctx).
     dbind (NumNodeID_deserialize buf ctx) (\<lambda>(nodeID, ctx).
     Ok (\<lparr>tm_targetID = targetID, tm_nodeID = nodeID\<rparr>, ctx)))"

definition TargetPoolMapping_serialize :: "TargetPoolMapping \<Rightarrow> SerializeCtx \<Rightarrow> SerializeCtx option" where
  "TargetPoolMapping_serialize v ctx =
     Option.bind (Serialization_serializeUShort (tp_targetID v) ctx) (StoragePoolId_serialize (tp_poolID v))"

definition TargetPoolMapping_deserialize ::
    "bytes \<Rightarrow> DeserializeCtx \<Rightarrow> (TargetPoolMapping \<times> DeserializeCtx) dres" where
  "TargetPoolMapping_deserialize buf ctx =
     dbind (Serialization_deserializeUShort buf ctx) (\<lambda>(targetID, ctx).
     dbind (StoragePoolId_deserialize buf ctx) (\<lambda>(poolID, ctx).
     Ok (\<lparr>tp_targetID = targetID, tp_poolID = poolID\<rparr>, ctx)))"

definition BuddyGroupMapping_serialize :: "BuddyGroupMapping \<Rightarrow> SerializeCtx \<Rightarrow> SerializeCtx option" where
  "BuddyGroupMapping_serialize v ctx =
     Option.bind (Serialization_serializeUShort (bm_groupID v) ctx) (\<lambda>ctx.
     Option.bind (Serialization_serializeUShort (bm_primaryTargetID v) ctx)
       (Serialization_serializeUShort (bm_secondaryTargetID v)))"

definition BuddyGroupMapping_deserialize ::
    "bytes \<Rightarrow> DeserializeCtx \<Rightarrow> (BuddyGroupMapping \<times> DeserializeCtx) dres" where
  "BuddyGroupMapping_deserialize buf ctx =
     dbind (Serialization_deserializeUShort buf ctx) (\<lambda>(groupID, ctx).
     dbind (Serialization_deserializeUShort buf ctx) (\<lambda>(primaryTargetID, ctx).
     dbind (Serialization_deserializeUShort buf ctx) (\<lambda>(secondaryTargetID, ctx).
     Ok (\<lparr>bm_groupID = groupID, bm_primaryTargetID = primaryTargetID,
          bm_secondaryTargetID = secondaryTargetID\<rparr>, ctx))))"

definition TargetStateMapping_serialize :: "TargetStateMapping \<Rightarrow> SerializeCtx \<Rightarrow> SerializeCtx option" where
  "TargetStateMapping_serialize v ctx =
     Option.bind (Serialization_serializeUShort (ts_targetID v) ctx) (\<lambda>ctx.
     Option.bind (TargetReachabilityState_serialize (ts_reachabilityState v) ctx)
       (TargetConsistencyState_serialize (ts_consistencyState v)))"

definition TargetStateMapping_deserialize ::
    "bytes \<Rightarrow> DeserializeCtx \<Rightarrow> (TargetStateMapping \<times> DeserializeCtx) dres" where
  "TargetStateMapping_deserialize buf ctx =
     dbind (Serialization_deserializeUShort buf ctx) (\<lambda>(targetID, ctx).
     dbind (TargetReachabilityState_deserialize buf ctx) (\<lambda>(reachabilityState, ctx).
     dbind (TargetConsistencyState_deserialize buf ctx) (\<lambda>(consistencyState, ctx).
     Ok (\<lparr>ts_targetID = targetID, ts_reachabilityState = reachabilityState,
          ts_consistencyState = consistencyState\<rparr>, ctx))))"

definition TargetMappingList_serialize :: "TargetMapping list \<Rightarrow> SerializeCtx \<Rightarrow> SerializeCtx option" where
  "TargetMappingList_serialize = SERDES_LIST_serialize False TargetMapping_serialize"

definition TargetMappingList_deserialize ::
    "bytes \<Rightarrow> DeserializeCtx \<Rightarrow> (TargetMapping list \<times> DeserializeCtx) dres" where
  "TargetMappingList_deserialize = SERDES_LIST_deserialize False TargetMapping_deserialize"

definition TargetPoolMappingList_serialize :: "TargetPoolMapping list \<Rightarrow> SerializeCtx \<Rightarrow> SerializeCtx option" where
  "TargetPoolMappingList_serialize = SERDES_LIST_serialize False TargetPoolMapping_serialize"

definition TargetPoolMappingList_deserialize ::
    "bytes \<Rightarrow> DeserializeCtx \<Rightarrow> (TargetPoolMapping list \<times> DeserializeCtx) dres" where
  "TargetPoolMappingList_deserialize = SERDES_LIST_deserialize False TargetPoolMapping_deserialize"

definition BuddyGroupMappingList_serialize :: "BuddyGroupMapping list \<Rightarrow> SerializeCtx \<Rightarrow> SerializeCtx option" where
  "BuddyGroupMappingList_serialize = SERDES_LIST_serialize False BuddyGroupMapping_serialize"

definition BuddyGroupMappingList_deserialize ::
    "bytes \<Rightarrow> DeserializeCtx \<Rightarrow> (BuddyGroupMapping list \<times> DeserializeCtx) dres" where
  "BuddyGroupMappingList_deserialize = SERDES_LIST_deserialize False BuddyGroupMapping_deserialize"

definition TargetStateMappingList_serialize :: "TargetStateMapping list \<Rightarrow> SerializeCtx \<Rightarrow> SerializeCtx option" where
  "TargetStateMappingList_serialize = SERDES_LIST_serialize False TargetStateMapping_serialize"

definition TargetStateMappingList_deserialize ::
    "bytes \<Rightarrow> DeserializeCtx \<Rightarrow> (TargetStateMapping list \<times> DeserializeCtx) dres" where
  "TargetStateMappingList_deserialize = SERDES_LIST_deserialize False TargetStateMapping_deserialize"

section \<open>Lists of codecs\<close>

text \<open>The element count is written over its placeholder.\<close>

lemma serializeUInt_at_count:
  assumes small: "unat (sc_length ctx) + length (xs @ ys) < 2 ^ 32" and xs: "length xs = 4"
  shows "Option.bind (Serialization_serializeBlock (xs @ ys) ctx) (serializeUInt_at (sc_length ctx) v) =
         Serialization_serializeBlock (le_put 4 v @ ys) ctx"
proof (cases "sc_data ctx")
  case None
  with xs show ?thesis
    by (simp add: Serialization_serializeBlock_def serializeUInt_at_def Serialization_serializeUInt_def)
next
  case (Some buf)
  show ?thesis
  proof (cases "unat (sc_length ctx) + length (xs @ ys) \<le> length buf")
    case True
    with Some xs buf_write_over [OF True, of "le_put 4 v"] buf_write_length [OF True] show ?thesis
      by (auto simp: Serialization_serializeBlock_def serializeUInt_at_def Serialization_serializeUInt_def)
  next
    case False
    with Some xs show ?thesis by (auto simp: Serialization_serializeBlock_def)
  qed
qed

lemma writes_counted:
  assumes "\<And>x. x \<in> set xs \<Longrightarrow> writes (ser x) (enc x)"
  shows "writes (SERDES_LIST_serialize False ser xs) (counted_bytes enc xs)"
  unfolding writes_def
proof (intro allI impI)
  fix ctx :: SerializeCtx
  let ?e = "concat (map enc xs)"
  assume "unat (sc_length ctx) + length (counted_bytes enc xs) < 2 ^ 32"
  then have small: "unat (sc_length ctx) + length (le_put 4 (0 :: u32) @ ?e) < 2 ^ 32"
    by (simp add: counted_bytes_def)
  have "writes (\<lambda>ctx. Option.bind (Serialization_serializeUInt 0 ctx) (serializeElems ser xs))
      (le_put 4 (0 :: u32) @ ?e)"
    using assms by (intro writes_bind uint_codec.ser_writes writes_elems) simp_all
  then have first: "Option.bind (Serialization_serializeUInt 0 ctx) (serializeElems ser xs) =
      Serialization_serializeBlock (le_put 4 (0 :: u32) @ ?e) ctx"
    using small unfolding writes_def by blast
  have "SERDES_LIST_serialize False ser xs ctx =
      Option.bind (Option.bind (Serialization_serializeUInt 0 ctx) (serializeElems ser xs))
        (serializeUInt_at (sc_length ctx) (of_nat (length xs)))"
    by (simp add: SERDES_LIST_serialize_def Option.bind_assoc)
  also have "\<dots> = Serialization_serializeBlock (counted_bytes enc xs) ctx"
    unfolding first counted_bytes_def by (rule serializeUInt_at_count [OF small]) simp
  finally show "SERDES_LIST_serialize False ser xs ctx = Serialization_serializeBlock (counted_bytes enc xs) ctx" .
qed

lemma reads_counted:
  assumes "\<And>x. x \<in> set xs \<Longrightarrow> reads des (enc x) x" "length xs < 2 ^ 32"
  shows "reads (SERDES_LIST_deserialize False des) (counted_bytes enc xs) xs"
proof -
  have "reads (\<lambda>buf ctx. dbind (Serialization_deserializeUInt buf ctx)
      (\<lambda>(items, ctx). deserializeElems des (unat items) buf ctx)) (counted_bytes enc xs) xs"
    unfolding counted_bytes_def
    using assms unat_of_nat_32 [OF assms(2)]
    by (intro reads_bind [where f = "\<lambda>items. deserializeElems des (unat items)", OF uint_codec.des_reads])
       (simp_all add: reads_elems)
  then show ?thesis by (simp add: reads_def SERDES_LIST_deserialize_def)
qed

lemma safe_counted:
  assumes "safe des"
  shows "safe (SERDES_LIST_deserialize False des)"
proof -
  have "safe (\<lambda>buf ctx. dbind (Serialization_deserializeUInt buf ctx)
      (\<lambda>(items, ctx). deserializeElems des (unat items) buf ctx))"
    using assms by (intro safe_bind uint_codec.des_safe safe_elems)
  then show ?thesis by (simp add: safe_def SERDES_LIST_deserialize_def)
qed

text \<open>Every safe codec of elements makes a safe codec of lists without a total size.\<close>

locale elem_codec = safe_codec

sublocale elem_codec \<subseteq> counted: safe_codec "SERDES_LIST_serialize False ser"
  "SERDES_LIST_deserialize False des" "counted_bytes enc"
  "\<lambda>xs. (\<forall>x \<in> set xs. dom x) \<and> length xs < 2 ^ 32"
  by unfold_locales (blast intro: writes_counted reads_counted safe_counted ser_writes des_reads des_safe)+

section \<open>The record codecs\<close>

lemmas field_codec_defs = NumNodeID_serialize_def NumNodeID_deserialize_def StoragePoolId_serialize_def
  StoragePoolId_deserialize_def TargetReachabilityState_serialize_def TargetReachabilityState_deserialize_def
  TargetConsistencyState_serialize_def TargetConsistencyState_deserialize_def

definition TargetMapping_bytes :: "TargetMapping \<Rightarrow> bytes" where
  "TargetMapping_bytes v = le_put 2 (tm_targetID v) @ le_put 4 (tm_nodeID v)"

interpretation targetMapping: elem_codec TargetMapping_serialize TargetMapping_deserialize
  TargetMapping_bytes "\<lambda>_. True"
proof unfold_locales
  show "writes (TargetMapping_serialize v) (TargetMapping_bytes v)" for v
    unfolding TargetMapping_serialize_def TargetMapping_bytes_def field_codec_defs
    by (intro writes_bind ushort_codec.ser_writes uint_codec.ser_writes TrueI)
  show "reads TargetMapping_deserialize (TargetMapping_bytes v) v" for v
    unfolding TargetMapping_deserialize_def [abs_def] TargetMapping_bytes_def field_codec_defs
    by (rule reads_bind [OF ushort_codec.des_reads [OF TrueI]])
       (rule reads_last_field [OF uint_codec.des_reads [OF TrueI], THEN reads_eq], simp)
  show "safe TargetMapping_deserialize"
    unfolding TargetMapping_deserialize_def [abs_def] field_codec_defs
    by (intro safe_bind safe_last_field ushort_codec.des_safe uint_codec.des_safe)
qed

definition TargetPoolMapping_bytes :: "TargetPoolMapping \<Rightarrow> bytes" where
  "TargetPoolMapping_bytes v = le_put 2 (tp_targetID v) @ le_put 2 (tp_poolID v)"

interpretation targetPoolMapping: elem_codec TargetPoolMapping_serialize TargetPoolMapping_deserialize
  TargetPoolMapping_bytes "\<lambda>_. True"
proof unfold_locales
  show "writes (TargetPoolMapping_serialize v) (TargetPoolMapping_bytes v)" for v
    unfolding TargetPoolMapping_serialize_def TargetPoolMapping_bytes_def field_codec_defs
    by (intro writes_bind ushort_codec.ser_writes TrueI)
  show "reads TargetPoolMapping_deserialize (TargetPoolMapping_bytes v) v" for v
    unfolding TargetPoolMapping_deserialize_def [abs_def] TargetPoolMapping_bytes_def field_codec_defs
    by (rule reads_bind [OF ushort_codec.des_reads [OF TrueI]])
       (rule reads_last_field [OF ushort_codec.des_reads [OF TrueI], THEN reads_eq], simp)
  show "safe TargetPoolMapping_deserialize"
    unfolding TargetPoolMapping_deserialize_def [abs_def] field_codec_defs
    by (intro safe_bind safe_last_field ushort_codec.des_safe)
qed

definition BuddyGroupMapping_bytes :: "BuddyGroupMapping \<Rightarrow> bytes" where
  "BuddyGroupMapping_bytes v =
     le_put 2 (bm_groupID v) @ le_put 2 (bm_primaryTargetID v) @ le_put 2 (bm_secondaryTargetID v)"

interpretation buddyGroupMapping: elem_codec BuddyGroupMapping_serialize BuddyGroupMapping_deserialize
  BuddyGroupMapping_bytes "\<lambda>_. True"
proof unfold_locales
  show "writes (BuddyGroupMapping_serialize v) (BuddyGroupMapping_bytes v)" for v
    unfolding BuddyGroupMapping_serialize_def BuddyGroupMapping_bytes_def
    by (intro writes_bind ushort_codec.ser_writes TrueI)
  show "reads BuddyGroupMapping_deserialize (BuddyGroupMapping_bytes v) v" for v
    unfolding BuddyGroupMapping_deserialize_def [abs_def] BuddyGroupMapping_bytes_def
    by (rule reads_bind [OF ushort_codec.des_reads [OF TrueI]])+
       (rule reads_last_field [OF ushort_codec.des_reads [OF TrueI], THEN reads_eq], simp)
  show "safe BuddyGroupMapping_deserialize"
    unfolding BuddyGroupMapping_deserialize_def [abs_def]
    by (intro safe_bind safe_last_field ushort_codec.des_safe)
qed

definition TargetStateMapping_bytes :: "TargetStateMapping \<Rightarrow> bytes" where
  "TargetStateMapping_bytes v =
     le_put 2 (ts_targetID v) @ [ts_reachabilityState v] @ [ts_consistencyState v]"

interpretation targetStateMapping: elem_codec TargetStateMapping_serialize TargetStateMapping_deserialize
  TargetStateMapping_bytes "\<lambda>_. True"
proof unfold_locales
  show "writes (TargetStateMapping_serialize v) (TargetStateMapping_bytes v)" for v
    unfolding TargetStateMapping_serialize_def TargetStateMapping_bytes_def field_codec_defs
    by (intro writes_bind ushort_codec.ser_writes uint8_codec.ser_writes TrueI)
  show "reads TargetStateMapping_deserialize (TargetStateMapping_bytes v) v" for v
    unfolding TargetStateMapping_deserialize_def [abs_def] TargetStateMapping_bytes_def field_codec_defs
    by (rule reads_bind [OF ushort_codec.des_reads [OF TrueI]])
       (rule reads_bind [OF uint8_codec.des_reads [OF TrueI]],
        rule reads_last_field [OF uint8_codec.des_reads [OF TrueI], THEN reads_eq], simp)
  show "safe TargetStateMapping_deserialize"
    unfolding TargetStateMapping_deserialize_def [abs_def] field_codec_defs
    by (intro safe_bind safe_last_field ushort_codec.des_safe uint8_codec.des_safe)
qed

section \<open>Properties\<close>

text \<open>
  The four mapping lists of the management protocol survive the wire: each serializer writes
  an encoding that its deserializer reads back to the same list, in the middle of any message,
  and every deserializer is memory safe on every message.
\<close>

theorem mapping_lists_codecs:
  "(length ts < 2 ^ 32 \<longrightarrow>
      writes (TargetMappingList_serialize ts) (counted_bytes TargetMapping_bytes ts) \<and>
      reads TargetMappingList_deserialize (counted_bytes TargetMapping_bytes ts) ts) \<and>
   (length ps < 2 ^ 32 \<longrightarrow>
      writes (TargetPoolMappingList_serialize ps) (counted_bytes TargetPoolMapping_bytes ps) \<and>
      reads TargetPoolMappingList_deserialize (counted_bytes TargetPoolMapping_bytes ps) ps) \<and>
   (length gs < 2 ^ 32 \<longrightarrow>
      writes (BuddyGroupMappingList_serialize gs) (counted_bytes BuddyGroupMapping_bytes gs) \<and>
      reads BuddyGroupMappingList_deserialize (counted_bytes BuddyGroupMapping_bytes gs) gs) \<and>
   (length ss < 2 ^ 32 \<longrightarrow>
      writes (TargetStateMappingList_serialize ss) (counted_bytes TargetStateMapping_bytes ss) \<and>
      reads TargetStateMappingList_deserialize (counted_bytes TargetStateMapping_bytes ss) ss) \<and>
   safe TargetMappingList_deserialize \<and> safe TargetPoolMappingList_deserialize \<and>
   safe BuddyGroupMappingList_deserialize \<and> safe TargetStateMappingList_deserialize"
  using targetMapping.counted.ser_writes targetMapping.counted.des_reads targetMapping.counted.des_safe
    targetPoolMapping.counted.ser_writes targetPoolMapping.counted.des_reads targetPoolMapping.counted.des_safe
    buddyGroupMapping.counted.ser_writes buddyGroupMapping.counted.des_reads buddyGroupMapping.counted.des_safe
    targetStateMapping.counted.ser_writes targetStateMapping.counted.des_reads targetStateMapping.counted.des_safe
  by (simp add: TargetMappingList_serialize_def TargetMappingList_deserialize_def
      TargetPoolMappingList_serialize_def TargetPoolMappingList_deserialize_def
      BuddyGroupMappingList_serialize_def BuddyGroupMappingList_deserialize_def
      TargetStateMappingList_serialize_def TargetStateMappingList_deserialize_def)

theorem mapping_lists_codecs_witness:
  "reads BuddyGroupMappingList_deserialize
     (counted_bytes BuddyGroupMapping_bytes [\<lparr>bm_groupID = 1, bm_primaryTargetID = 101, bm_secondaryTargetID = 201\<rparr>])
     [\<lparr>bm_groupID = 1, bm_primaryTargetID = 101, bm_secondaryTargetID = 201\<rparr>]"
  using mapping_lists_codecs [where ts = "[]" and ps = "[]" and ss = "[]"
      and gs = "[\<lparr>bm_groupID = 1, bm_primaryTargetID = 101, bm_secondaryTargetID = 201\<rparr>]"] by simp

end
