(* ===== verification/Rb_Trees.thy ===== *)
theory Rb_Trees
  imports BG_Prelude
begin

text \<open>
  The search trees of the client module: the functions that
  \<^verbatim>\<open>BEEGFS_RBTREE_FUNCTIONS\<close> (\<^verbatim>\<open>client_module/source/common/Common.h\<close>) generates for
  elements with a 16-bit key. A tree is the list of its elements in key order, the order in
  which \<^verbatim>\<open>rb_first\<close> and \<^verbatim>\<open>rb_next\<close> visit them; how the kernel balances it changes
  neither that order nor any result. The walks over the nodes are in \<^verbatim>\<open>Rb_Walks\<close>, with the proof that they are these functions.
\<close>

definition rb_lt :: "('a \<Rightarrow> u16) \<Rightarrow> 'a \<Rightarrow> 'a \<Rightarrow> bool" where
  "rb_lt key a b \<longleftrightarrow> key a < key b"

definition rb_find :: "('a \<Rightarrow> u16) \<Rightarrow> u16 \<Rightarrow> 'a list \<Rightarrow> 'a option" where
  "rb_find key k t = find (\<lambda>e. key e = k) t"

definition rb_insert :: "('a \<Rightarrow> u16) \<Rightarrow> 'a \<Rightarrow> 'a list \<Rightarrow> bool \<times> 'a list" where
  "rb_insert key data t =
     (if oset_mem (rb_lt key) data t then (False, t) else (True, oset_insert (rb_lt key) data t))"

definition rb_insertOrReplace :: "('a \<Rightarrow> u16) \<Rightarrow> 'a \<Rightarrow> 'a list \<Rightarrow> 'a option \<times> 'a list" where
  "rb_insertOrReplace key data t =
     (case rb_insert key data t of
        (True, t') \<Rightarrow> (None, t')
      | (False, t') \<Rightarrow> (rb_find key (key data) t', map (\<lambda>e. if key e = key data then data else e) t'))"

definition rb_erase :: "('a \<Rightarrow> u16) \<Rightarrow> 'a \<Rightarrow> 'a list \<Rightarrow> 'a list" where
  "rb_erase key data t = oset_erase (rb_lt key) data t"

interpretation rb: set_comparator "rb_lt key" for key :: "'a \<Rightarrow> u16"
  by unfold_locales (auto simp: rb_lt_def)

abbreviation rb_tree :: "('a \<Rightarrow> u16) \<Rightarrow> 'a list \<Rightarrow> bool" where
  "rb_tree key t \<equiv> sorted_wrt (rb_lt key) t"

lemma rb_equivalent: "equivalent (rb_lt key) a b \<longleftrightarrow> key a = key b"
  by (auto simp: equivalent_def rb_lt_def)

lemma rb_mem: "oset_mem (rb_lt key) x t \<longleftrightarrow> (\<exists>e \<in> set t. key e = key x)"
  by (simp add: oset_mem_def list_ex_iff rb_equivalent) metis

lemma rb_find_None: "rb_find key k t = None \<longleftrightarrow> (\<forall>e \<in> set t. key e \<noteq> k)"
  by (auto simp: rb_find_def find_None_iff)

lemma rb_tree_inj: "rb_tree key t \<Longrightarrow> a \<in> set t \<Longrightarrow> b \<in> set t \<Longrightarrow> key a = key b \<Longrightarrow> a = b"
proof (induction t)
  case (Cons x t)
  then show ?case by (metis order_less_irrefl rb_lt_def set_ConsD sorted_wrt.simps(2))
qed simp

lemma rb_find_Some:
  assumes "rb_tree key t"
  shows "rb_find key k t = Some e \<longleftrightarrow> e \<in> set t \<and> key e = k"
proof
  assume "rb_find key k t = Some e"
  then show "e \<in> set t \<and> key e = k" unfolding rb_find_def by (induction t) (auto split: if_splits)
next
  assume e: "e \<in> set t \<and> key e = k"
  then obtain e' where e': "rb_find key k t = Some e'" using rb_find_None [of key k t] by fastforce
  then have "e' \<in> set t \<and> key e' = k" unfolding rb_find_def by (induction t) (auto split: if_splits)
  with e rb_tree_inj [OF assms] have "e' = e" by metis
  with e' show "rb_find key k t = Some e" by simp
qed

lemma rb_tree_replace:
  assumes "rb_tree key t"
  shows "rb_tree key (map (\<lambda>e. if key e = key d then d else e) t)"
  using assms by (induction t) (auto simp: rb_lt_def)

lemma rb_insertOrReplace_old: "fst (rb_insertOrReplace key d t) = rb_find key (key d) t"
proof (cases "oset_mem (rb_lt key) d t")
  case False
  then have "rb_find key (key d) t = None" by (simp add: rb_mem rb_find_None)
  with False show ?thesis by (simp add: rb_insertOrReplace_def rb_insert_def)
qed (simp add: rb_insertOrReplace_def rb_insert_def)

lemma rb_insertOrReplace_tree:
  assumes "rb_tree key t"
  shows "rb_tree key (snd (rb_insertOrReplace key d t))"
  using assms rb.sorted_oset_insert rb_tree_replace
  by (auto simp: rb_insertOrReplace_def rb_insert_def)

lemma rb_insertOrReplace_set:
  assumes "rb_tree key t"
  shows "set (snd (rb_insertOrReplace key d t)) = insert d {e \<in> set t. key e \<noteq> key d}"
proof (cases "oset_mem (rb_lt key) d t")
  case True
  then show ?thesis by (auto simp: rb_insertOrReplace_def rb_insert_def rb_mem image_iff)
next
  case False
  then show ?thesis
    using rb.set_oset_insert_fresh [OF assms False]
    by (auto simp: rb_insertOrReplace_def rb_insert_def rb_mem)
qed

lemma rb_find_replaced:
  assumes "rb_tree key t"
  shows "rb_find key k (snd (rb_insertOrReplace key d t)) = (if k = key d then Some d else rb_find key k t)"
proof -
  note t' = rb_insertOrReplace_tree [OF assms, of d]
  have "rb_find key k (snd (rb_insertOrReplace key d t)) = Some e \<longleftrightarrow>
      (if k = key d then Some d else rb_find key k t) = Some e" for e
    unfolding rb_find_Some [OF t'] rb_insertOrReplace_set [OF assms]
    by (auto simp: rb_find_Some [OF assms])
  then show ?thesis by (metis option.exhaust option.distinct(1))
qed

lemma rb_insert_fresh:
  assumes "rb_tree key t" "\<forall>e \<in> set t. key e \<noteq> key d"
  shows "rb_insert key d t = (True, snd (rb_insertOrReplace key d t))"
  using assms(2) by (auto simp: rb_insert_def rb_insertOrReplace_def rb_mem)

lemma rb_insert_present:
  assumes "\<exists>e \<in> set t. key e = key d"
  shows "rb_insert key d t = (False, t)"
  using assms by (simp add: rb_insert_def rb_mem)

lemma rb_erase_eq: "rb_erase key d t = filter (\<lambda>e. key e \<noteq> key d) t"
  unfolding rb_erase_def oset_erase_def rb_equivalent by (rule filter_cong) auto

lemma rb_erase_tree: "rb_tree key t \<Longrightarrow> rb_tree key (rb_erase key d t)"
  by (simp add: rb_erase_eq sorted_wrt_filter)

lemma rb_find_erased:
  "rb_tree key t \<Longrightarrow> rb_find key k (rb_erase key d t) = (if k = key d then None else rb_find key k t)"
proof -
  assume t: "rb_tree key t"
  have "rb_find key k (rb_erase key d t) = Some e \<longleftrightarrow> (if k = key d then None else rb_find key k t) = Some e" for e
    unfolding rb_find_Some [OF rb_erase_tree [OF t]] by (auto simp: rb_find_Some [OF t] rb_erase_eq)
  then show ?thesis by (metis option.exhaust option.distinct(1))
qed

section \<open>Stores with 16-bit keys\<close>

text \<open>
  What the stores built on these trees promise: a store that is rebuilt from a list answers
  with the last entry of the list that has the key.
\<close>

locale keyed_store =
  fixes lookup :: "u16 \<Rightarrow> 's \<Rightarrow> 'e option"
    and put :: "'e \<Rightarrow> 's \<Rightarrow> 's"
    and inv :: "'s \<Rightarrow> bool"
    and key :: "'e \<Rightarrow> u16"
  assumes inv_put: "inv s \<Longrightarrow> inv (put e s)"
    and lookup_put: "inv s \<Longrightarrow> lookup k (put e s) = (if k = key e then Some e else lookup k s)"
begin

lemma inv_fold: "inv s \<Longrightarrow> inv (fold put es s)"
  by (induction es arbitrary: s) (auto simp: inv_put)

lemma lookup_fold:
  assumes "inv s"
  shows "lookup k (fold put es s) =
    (case find (\<lambda>e. key e = k) (rev es) of Some e \<Rightarrow> Some e | None \<Rightarrow> lookup k s)"
  using assms
proof (induction es rule: rev_induct)
  case (snoc e es)
  then show ?case using inv_fold [OF snoc.prems, of es] by (auto simp: lookup_put)
qed simp

end

interpretation rb_store: keyed_store "rb_find key" "\<lambda>e t. snd (rb_insertOrReplace key e t)" "rb_tree key" key
  for key :: "'a \<Rightarrow> u16"
  by unfold_locales (simp_all add: rb_insertOrReplace_tree rb_find_replaced)

lemma rb_find_fold:
  "rb_find key k (fold (\<lambda>e t. snd (rb_insertOrReplace key e t)) es []) = find (\<lambda>e. key e = k) (rev es)"
  using rb_store.lookup_fold [of key "[]" k es] by (simp add: rb_find_def split: option.splits)

end
