(* ===== verification/Target_Stores.thy ===== *)
theory Target_Stores
  imports Serdes_Mappings Rb_Trees
begin

text \<open>
  The target stores of the client: which node a storage target belongs to
  (\<^verbatim>\<open>client_module/source/common/nodes/TargetMapper.c\<close>) and which state a target or metadata node is in
  (\<^verbatim>\<open>TargetStateStore.c\<close>). Each operation runs under the store's lock and is one function
  here; the lists of the synchronisation messages are those of the wire format.
\<close>

section \<open>Target mapper\<close>

record TargetMapper =
  tm_entries :: "TargetMapping list"

definition TargetMapper_init :: TargetMapper where
  "TargetMapper_init = \<lparr>tm_entries = []\<rparr>"

definition TargetMapper_mapTarget :: "u16 \<Rightarrow> u32 \<Rightarrow> TargetMapper \<Rightarrow> bool \<times> TargetMapper" where
  "TargetMapper_mapTarget targetID nodeID this =
     (let entry = \<lparr>tm_targetID = targetID, tm_nodeID = nodeID\<rparr>;
          (replaced, t) = rb_insertOrReplace tm_targetID entry (tm_entries this)
      in (replaced = None, this\<lparr>tm_entries := t\<rparr>))"

definition TargetMapper_syncTargets :: "TargetMapping list \<Rightarrow> TargetMapper \<Rightarrow> TargetMapper" where
  "TargetMapper_syncTargets mappings this =
     this\<lparr>tm_entries := fold (\<lambda>elem t. snd (rb_insertOrReplace tm_targetID elem t)) mappings []\<rparr>"

definition TargetMapper_getTargetIDs :: "TargetMapper \<Rightarrow> u16 list" where
  "TargetMapper_getTargetIDs this = map tm_targetID (tm_entries this)"

definition TargetMapper_getNodeID :: "u16 \<Rightarrow> TargetMapper \<Rightarrow> u32" where
  "TargetMapper_getNodeID targetID this =
     (case rb_find tm_targetID targetID (tm_entries this) of
        Some elem \<Rightarrow> tm_nodeID elem
      | None \<Rightarrow> 0)"

section \<open>Target states\<close>

record CombinedTargetState =
  ct_reachabilityState :: u8
  ct_consistencyState :: u8

record TargetStateInfo =
  si_targetID :: u16
  si_state :: CombinedTargetState

record TargetStateStore =
  ss_states :: "TargetStateInfo list"

definition TargetStateStore_init :: TargetStateStore where
  "TargetStateStore_init = \<lparr>ss_states = []\<rparr>"

definition stateInfo_of :: "TargetStateMapping \<Rightarrow> TargetStateInfo" where
  "stateInfo_of state =
     \<lparr>si_targetID = ts_targetID state,
      si_state = \<lparr>ct_reachabilityState = ts_reachabilityState state,
                  ct_consistencyState = ts_consistencyState state\<rparr>\<rparr>"

definition TargetStateStore_syncStatesUnlocked ::
    "TargetStateMapping list \<Rightarrow> TargetStateStore \<Rightarrow> TargetStateStore" where
  "TargetStateStore_syncStatesUnlocked states this =
     this\<lparr>ss_states :=
       fold (\<lambda>state t. snd (rb_insertOrReplace si_targetID (stateInfo_of state) t)) states []\<rparr>"

definition TargetStateStore_reachabilityStateToStr :: "u8 \<Rightarrow> string" where
  "TargetStateStore_reachabilityStateToStr state =
     (if state = TargetReachabilityState_ONLINE then ''Online''
      else if state = TargetReachabilityState_POFFLINE then ''Probably-offline''
      else if state = TargetReachabilityState_OFFLINE then ''Offline''
      else ''<invalid_value>'')"

definition TargetStateStore_consistencyStateToStr :: "u8 \<Rightarrow> string" where
  "TargetStateStore_consistencyStateToStr state =
     (if state = TargetConsistencyState_GOOD then ''Good''
      else if state = TargetConsistencyState_NEEDS_RESYNC then ''Needs-resync''
      else if state = TargetConsistencyState_BAD then ''Bad''
      else ''<invalid_value>'')"

definition TargetStateStore_getStatesAsLists :: "TargetStateStore \<Rightarrow> u16 list \<times> u8 list \<times> u8 list" where
  "TargetStateStore_getStatesAsLists this =
     (map si_targetID (ss_states this),
      map (ct_reachabilityState \<circ> si_state) (ss_states this),
      map (ct_consistencyState \<circ> si_state) (ss_states this))"

fun setStatesLoop :: "u8 \<Rightarrow> TargetStateInfo list \<Rightarrow> bool \<Rightarrow> bool \<times> TargetStateInfo list" where
  "setStatesLoop state [] res = (res, [])"
| "setStatesLoop state (i # is) res =
     (if ct_reachabilityState (si_state i) \<noteq> state then
        (let (res', is') = setStatesLoop state is True
         in (res', i\<lparr>si_state := (si_state i)\<lparr>ct_reachabilityState := state\<rparr>\<rparr> # is'))
      else (let (res', is') = setStatesLoop state is res in (res', i # is')))"

definition TargetStateStore_setAllStates :: "u8 \<Rightarrow> TargetStateStore \<Rightarrow> bool \<times> TargetStateStore" where
  "TargetStateStore_setAllStates state this =
     (let (res, t) = setStatesLoop state (ss_states this) False in (res, this\<lparr>ss_states := t\<rparr>))"

definition TargetStateStore_getState :: "u16 \<Rightarrow> TargetStateStore \<Rightarrow> bool \<times> CombinedTargetState" where
  "TargetStateStore_getState targetID this =
     (case rb_find si_targetID targetID (ss_states this) of
        Some stateInfo \<Rightarrow> (True, si_state stateInfo)
      | None \<Rightarrow> (False, \<lparr>ct_reachabilityState = TargetReachabilityState_OFFLINE,
                         ct_consistencyState = TargetConsistencyState_GOOD\<rparr>))"

section \<open>Invariants\<close>

definition target_mapper_ok :: "TargetMapper \<Rightarrow> bool" where
  "target_mapper_ok this \<longleftrightarrow> rb_tree tm_targetID (tm_entries this)"

definition state_store_ok :: "TargetStateStore \<Rightarrow> bool" where
  "state_store_ok this \<longleftrightarrow> rb_tree si_targetID (ss_states this)"

lemma syncTargets_ok: "target_mapper_ok (TargetMapper_syncTargets mappings this)"
  by (simp add: target_mapper_ok_def TargetMapper_syncTargets_def rb_store.inv_fold)

lemma mapTarget_ok: "target_mapper_ok this \<Longrightarrow> target_mapper_ok (snd (TargetMapper_mapTarget t n this))"
  by (simp add: target_mapper_ok_def TargetMapper_mapTarget_def rb_insertOrReplace_tree split_def Let_def)

lemma syncStates_fold:
  "TargetStateStore_syncStatesUnlocked states this =
     this\<lparr>ss_states := fold (\<lambda>i t. snd (rb_insertOrReplace si_targetID i t)) (map stateInfo_of states) []\<rparr>"
  by (simp add: TargetStateStore_syncStatesUnlocked_def fold_map comp_def)

lemma syncStates_ok: "state_store_ok (TargetStateStore_syncStatesUnlocked states this)"
  by (simp add: state_store_ok_def syncStates_fold rb_store.inv_fold)

lemma setStatesLoop_eq:
  "setStatesLoop state is res =
     (res \<or> (\<exists>i \<in> set is. ct_reachabilityState (si_state i) \<noteq> state),
      map (\<lambda>i. i\<lparr>si_state := (si_state i)\<lparr>ct_reachabilityState := state\<rparr>\<rparr>) is)"
  by (induction state "is" res rule: setStatesLoop.induct) auto

lemma setAllStates_ok: "state_store_ok this \<Longrightarrow> state_store_ok (snd (TargetStateStore_setAllStates state this))"
  by (simp add: state_store_ok_def TargetStateStore_setAllStates_def setStatesLoop_eq sorted_wrt_map rb_lt_def [abs_def])

section \<open>Lookups\<close>

lemma find_rev_map: "find (\<lambda>e. key e = k) (rev (map f xs)) = map_option f (find (\<lambda>x. key (f x) = k) (rev xs))"
proof -
  have "find (\<lambda>e. key e = k) (map f ys) = map_option f (find (\<lambda>x. key (f x) = k) ys)" for ys
    by (induction ys) auto
  then show ?thesis by (simp add: rev_map)
qed

lemma getNodeID_sync:
  "TargetMapper_getNodeID k (TargetMapper_syncTargets mappings this) =
     (case find (\<lambda>e. tm_targetID e = k) (rev mappings) of Some e \<Rightarrow> tm_nodeID e | None \<Rightarrow> 0)"
  by (simp add: TargetMapper_getNodeID_def TargetMapper_syncTargets_def rb_find_fold)

lemma getState_sync:
  "TargetStateStore_getState k (TargetStateStore_syncStatesUnlocked states this) =
     (case find (\<lambda>e. ts_targetID e = k) (rev states) of
        Some e \<Rightarrow> (True, \<lparr>ct_reachabilityState = ts_reachabilityState e, ct_consistencyState = ts_consistencyState e\<rparr>)
      | None \<Rightarrow> (False, \<lparr>ct_reachabilityState = TargetReachabilityState_OFFLINE,
                         ct_consistencyState = TargetConsistencyState_GOOD\<rparr>))"
  using find_rev_map [of si_targetID k stateInfo_of states]
  by (simp add: TargetStateStore_getState_def syncStates_fold rb_find_fold stateInfo_of_def
      split: option.split)

text \<open>The keys of a synchronised tree are those of the list.\<close>

lemma rb_fold_keys:
  "key ` set (fold (\<lambda>e t. snd (rb_insertOrReplace key e t)) es []) = key ` set es"
proof -
  let ?t = "fold (\<lambda>e t. snd (rb_insertOrReplace key e t)) es []"
  have "k \<in> key ` set ?t \<longleftrightarrow> k \<in> key ` set es" for k
  proof -
    have "k \<in> key ` set ?t \<longleftrightarrow> rb_find key k ?t \<noteq> None" unfolding rb_find_None image_iff by blast
    also have "\<dots> \<longleftrightarrow> find (\<lambda>e. key e = k) (rev es) \<noteq> None" by (simp only: rb_find_fold)
    also have "\<dots> \<longleftrightarrow> k \<in> key ` set es" unfolding find_None_iff image_iff by (simp only: set_rev) blast
    finally show ?thesis .
  qed
  then show ?thesis by (rule set_eqI)
qed

lemma rb_tree_keys: "rb_tree key t \<Longrightarrow> sorted (map key t) \<and> distinct (map key t)"
  by (induction t) (auto simp: rb_lt_def)

lemma getNodeID_map:
  assumes "target_mapper_ok this"
  shows "TargetMapper_getNodeID k (snd (TargetMapper_mapTarget t n this)) =
    (if k = t then n else TargetMapper_getNodeID k this)"
  using assms
  by (simp add: TargetMapper_getNodeID_def TargetMapper_mapTarget_def target_mapper_ok_def Let_def
      split_def rb_find_replaced)

lemma mapTarget_new:
  assumes "target_mapper_ok this"
  shows "fst (TargetMapper_mapTarget t n this) \<longleftrightarrow> t \<notin> set (TargetMapper_getTargetIDs this)"
  by (auto simp: TargetMapper_mapTarget_def Let_def split_def rb_insertOrReplace_old rb_find_None
      TargetMapper_getTargetIDs_def)

lemma getState_known:
  assumes "state_store_ok s"
  shows "TargetStateStore_getState k s = (True, st) \<longleftrightarrow> (\<exists>i \<in> set (ss_states s). si_targetID i = k \<and> si_state i = st)"
proof -
  have "TargetStateStore_getState k s = (True, st) \<longleftrightarrow> (\<exists>i. rb_find si_targetID k (ss_states s) = Some i \<and> si_state i = st)"
    by (auto simp: TargetStateStore_getState_def split: option.splits)
  then show ?thesis unfolding rb_find_Some [OF assms [unfolded state_store_ok_def]] by blast
qed

lemma find_mapped_state:
  "find (\<lambda>e. si_targetID e = k) (map (\<lambda>i. i\<lparr>si_state := f i\<rparr>) is) =
     map_option (\<lambda>i. i\<lparr>si_state := f i\<rparr>) (find (\<lambda>e. si_targetID e = k) is)"
  by (induction "is") auto

section \<open>Properties\<close>

text \<open>
  C36. After a synchronisation from a received list the target mapper answers every lookup with
  the last mapping of the list for that target, or 0, and lists exactly the mapped targets, each
  once, in ascending order. Mapping a single target changes that target only and reports
  whether it was new.
\<close>

theorem target_mapper_functional:
  fixes mappings this t n
  defines "s \<equiv> TargetMapper_syncTargets mappings this"
  shows "TargetMapper_getNodeID k s =
           (case find (\<lambda>e. tm_targetID e = k) (rev mappings) of Some e \<Rightarrow> tm_nodeID e | None \<Rightarrow> 0) \<and>
         sorted (TargetMapper_getTargetIDs s) \<and> distinct (TargetMapper_getTargetIDs s) \<and>
         set (TargetMapper_getTargetIDs s) = tm_targetID ` set mappings \<and>
         fst (TargetMapper_mapTarget t n s) = (t \<notin> tm_targetID ` set mappings) \<and>
         TargetMapper_getNodeID k (snd (TargetMapper_mapTarget t n s)) =
           (if k = t then n else TargetMapper_getNodeID k s)"
proof -
  have ok: "target_mapper_ok s" unfolding s_def by (rule syncTargets_ok)
  have ids: "set (TargetMapper_getTargetIDs s) = tm_targetID ` set mappings"
    by (simp add: s_def TargetMapper_getTargetIDs_def TargetMapper_syncTargets_def rb_fold_keys)
  show ?thesis
    using getNodeID_sync [of k mappings this] rb_tree_keys [OF ok [unfolded target_mapper_ok_def]]
      mapTarget_new [OF ok] getNodeID_map [OF ok] ids
    by (simp add: s_def TargetMapper_getTargetIDs_def)
qed

text \<open>
  C37. After a synchronisation the state store answers with the last received state of a target;
  an unknown target is reported as offline and good. Setting all states changes the
  reachability of exactly the known targets, keeps their consistency, and reports whether any
  of them was in another state.
\<close>

theorem target_states_functional:
  fixes states this r
  defines "s \<equiv> TargetStateStore_syncStatesUnlocked states this"
  shows "TargetStateStore_getState k s =
           (case find (\<lambda>e. ts_targetID e = k) (rev states) of
              Some e \<Rightarrow> (True, \<lparr>ct_reachabilityState = ts_reachabilityState e,
                               ct_consistencyState = ts_consistencyState e\<rparr>)
            | None \<Rightarrow> (False, \<lparr>ct_reachabilityState = TargetReachabilityState_OFFLINE,
                               ct_consistencyState = TargetConsistencyState_GOOD\<rparr>)) \<and>
         TargetStateStore_getState k (snd (TargetStateStore_setAllStates r s)) =
           (case TargetStateStore_getState k s of
              (known, st) \<Rightarrow> (known, if known then st\<lparr>ct_reachabilityState := r\<rparr> else st)) \<and>
         (fst (TargetStateStore_setAllStates r s) \<longleftrightarrow>
            (\<exists>k st. TargetStateStore_getState k s = (True, st) \<and> ct_reachabilityState st \<noteq> r))"
proof -
  have ok: "state_store_ok s" unfolding s_def by (rule syncStates_ok)
  have "TargetStateStore_getState k (snd (TargetStateStore_setAllStates r s)) =
      (case TargetStateStore_getState k s of
         (known, st) \<Rightarrow> (known, if known then st\<lparr>ct_reachabilityState := r\<rparr> else st))"
    by (simp add: TargetStateStore_getState_def TargetStateStore_setAllStates_def setStatesLoop_eq
        rb_find_def find_mapped_state split: option.split)
  moreover have "(\<exists>k st. TargetStateStore_getState k s = (True, st) \<and> ct_reachabilityState st \<noteq> r) \<longleftrightarrow>
      (\<exists>i \<in> set (ss_states s). ct_reachabilityState (si_state i) \<noteq> r)"
    unfolding getState_known [OF ok] by blast
  ultimately show ?thesis
    using getState_sync [of k states this]
    by (simp add: s_def TargetStateStore_setAllStates_def setStatesLoop_eq)
qed

end
