(* ===== verification/Buddy_Sequence.thy ===== *)
theory Buddy_Sequence
  imports BG_Prelude "HOL-Library.Multiset"
begin

text \<open>
  Sequence numbers of mirrored requests
  (\<^verbatim>\<open>client_module/source/common/nodes/MirrorBuddyGroup.c\<close>). A request to a buddy group takes
  the next sequence number and a slot in the array of numbers in flight, which is meant to be a
  binary min-heap, and is told which earlier numbers it may acknowledge to the server: one
  finished number from a ring buffer (selective), or everything below the smallest number in
  flight, the root of the heap. The requester owns a pointer variable, the handle, that the heap
  keeps pointing at its slot.

  A handle variable is identified by a number; its content is the index of the slot it points
  to. The operations run under the group's mutex; the semaphore is its counter. The sizes are
  bounded by the capacity, a 16-bit number, so that no 32-bit index computation wraps.
\<close>

section \<open>State\<close>

record BuddySequenceNumber =
  bs_pSelf :: nat
  bs_value :: u64

record MirrorBuddyGroup =
  bg_groupID :: u16
  bg_firstTargetID :: u16
  bg_secondTargetID :: u16
  bg_sequence :: u64
  bg_slotsAvail :: nat
  bg_seqNoInFlight :: "BuddySequenceNumber list"
  bg_inFlightSize :: nat
  bg_inFlightCapacity :: nat
  bg_finishedSeqNums :: "u64 list"
  bg_firstFinishedIndex :: nat
  bg_finishedCount :: nat
  bg_refs :: nat

type_synonym handles = "nat \<Rightarrow> nat option"

text \<open>
  Construction fails for an empty done buffer. The arrays come uninitialised from the allocator;
  their content is written before it is read.
\<close>

definition MirrorBuddyGroup_constructFromTargetIDs ::
    "u16 \<Rightarrow> u16 \<Rightarrow> u16 \<Rightarrow> u16 \<Rightarrow> MirrorBuddyGroup option" where
  "MirrorBuddyGroup_constructFromTargetIDs groupID doneBufferSize firstTargetID secondTargetID =
     (if doneBufferSize = 0 then None
      else Some
        \<lparr>bg_groupID = groupID, bg_firstTargetID = firstTargetID, bg_secondTargetID = secondTargetID,
         bg_sequence = 0, bg_slotsAvail = unat doneBufferSize,
         bg_seqNoInFlight = replicate (unat doneBufferSize) \<lparr>bs_pSelf = 0, bs_value = 0\<rparr>,
         bg_inFlightSize = 0, bg_inFlightCapacity = unat doneBufferSize,
         bg_finishedSeqNums = replicate (unat doneBufferSize) 0,
         bg_firstFinishedIndex = 0, bg_finishedCount = 0, bg_refs = 1\<rparr>)"

text \<open>Dropping the last reference destroys the group.\<close>

definition MirrorBuddyGroup_put :: "MirrorBuddyGroup \<Rightarrow> MirrorBuddyGroup option" where
  "MirrorBuddyGroup_put this =
     (if bg_refs this = 1 then None else Some (this\<lparr>bg_refs := bg_refs this - 1\<rparr>))"

section \<open>Acquiring a number\<close>

datatype acquire_error = EINTR | EAGAIN

text \<open>
  The outcomes: waiting for a slot, an error, no sequence base yet (\<^verbatim>\<open>ENOENT\<close>, which clears
  the handle), or a number with what to acknowledge and whether that is selective.
\<close>

datatype acquire_result =
    Waiting
  | Failed acquire_error
  | NoBase MirrorBuddyGroup handles
  | Acquired u64 u64 bool MirrorBuddyGroup handles

definition MirrorBuddyGroup_acquireSequenceNumber ::
    "nat \<Rightarrow> bool \<Rightarrow> bool \<Rightarrow> MirrorBuddyGroup \<Rightarrow> handles \<Rightarrow> acquire_result" where
  "MirrorBuddyGroup_acquireSequenceNumber handle allowWait killed this hp =
     (if bg_slotsAvail this = 0 then
        (if allowWait then (if killed then Failed EINTR else Waiting) else Failed EAGAIN)
      else if bg_sequence this = 0 then NoBase this (hp(handle := None))
      else
        (let seqNo = bg_sequence this + 1;
             n = bg_inFlightSize this;
             heap = (bg_seqNoInFlight this)[n := \<lparr>bs_pSelf = handle, bs_value = seqNo\<rparr>];
             this = this\<lparr>bg_slotsAvail := bg_slotsAvail this - 1, bg_refs := bg_refs this + 1,
                         bg_sequence := seqNo, bg_seqNoInFlight := heap, bg_inFlightSize := n + 1\<rparr>;
             hp = hp(handle := Some n)
         in if bg_finishedCount this > 0 then
              Acquired seqNo (bg_finishedSeqNums this ! bg_firstFinishedIndex this) True
                (this\<lparr>bg_firstFinishedIndex :=
                        (bg_firstFinishedIndex this + 1) mod bg_inFlightCapacity this,
                      bg_finishedCount := bg_finishedCount this - 1\<rparr>) hp
            else Acquired seqNo (bs_value (heap ! 0) - 1) False this hp))"

section \<open>Releasing a number\<close>

text \<open>Two slots are swapped and both handles are redirected.\<close>

definition swap_slots ::
    "nat \<Rightarrow> nat \<Rightarrow> BuddySequenceNumber list \<times> handles \<Rightarrow> BuddySequenceNumber list \<times> handles" where
  "swap_slots i j = (\<lambda>(heap, hp).
     let heap' = heap[i := heap ! j, j := heap ! i]
     in (heap', hp(bs_pSelf (heap' ! i) := Some i, bs_pSelf (heap' ! j) := Some j)))"

fun moveUp :: "nat \<Rightarrow> BuddySequenceNumber list \<times> handles \<Rightarrow> BuddySequenceNumber list \<times> handles" where
  "moveUp index s =
     (if index \<noteq> 0 then moveUp (index div 2) (swap_slots index (index div 2) s) else s)"

declare moveUp.simps [simp del]

definition minNode :: "nat \<Rightarrow> nat \<Rightarrow> BuddySequenceNumber list \<Rightarrow> nat" where
  "minNode i n heap =
     (let leftChild = 2 * i + 1;
          rightChild = 2 * i + 2;
          m = (if leftChild < n \<and> bs_value (heap ! leftChild) < bs_value (heap ! i) then leftChild else i)
      in if rightChild < n \<and> bs_value (heap ! rightChild) < bs_value (heap ! m) then rightChild else m)"

lemma minNode_cases: "minNode i n heap = i \<or> (i < minNode i n heap \<and> minNode i n heap < n)"
  by (simp add: minNode_def Let_def)

function siftDown ::
    "nat \<Rightarrow> nat \<Rightarrow> BuddySequenceNumber list \<times> handles \<Rightarrow> BuddySequenceNumber list \<times> handles" where
  "siftDown i n s =
     (let m = minNode i n (fst s) in if m \<noteq> i then siftDown m n (swap_slots i m s) else s)"
  by pat_completeness auto
termination siftDown
proof (relation "measure (\<lambda>(i, n, s). n - i)")
  show "((m, n, swap_slots i m s), i, n, s) \<in> measure (\<lambda>(i, n, s). n - i)"
    if "m = minNode i n (fst s)" "m \<noteq> i" for i n s m
    using minNode_cases [of i n "fst s"] that by auto
qed simp

declare siftDown.simps [simp del]

definition finishNumber :: "u64 \<Rightarrow> MirrorBuddyGroup \<Rightarrow> MirrorBuddyGroup" where
  "finishNumber v this =
     (if bg_finishedCount this < bg_inFlightCapacity this then
        (let cnt = bg_finishedCount this + 1;
             nextFinishedIndex = (bg_firstFinishedIndex this + cnt - 1) mod bg_inFlightCapacity this
         in this\<lparr>bg_finishedCount := cnt,
                 bg_finishedSeqNums := (bg_finishedSeqNums this)[nextFinishedIndex := v]\<rparr>)
      else
        (let firstIndex = (bg_firstFinishedIndex this + 1) mod bg_inFlightCapacity this
         in this\<lparr>bg_firstFinishedIndex := firstIndex,
                 bg_finishedSeqNums := (bg_finishedSeqNums this)[firstIndex := v]\<rparr>))"

text \<open>The result is \<^const>\<open>None\<close> for the group when the reference dropped at the end was the last.\<close>

definition MirrorBuddyGroup_releaseSequenceNumber ::
    "nat \<Rightarrow> MirrorBuddyGroup \<Rightarrow> handles \<Rightarrow> MirrorBuddyGroup option \<times> handles" where
  "MirrorBuddyGroup_releaseSequenceNumber handle this hp =
     (let slot = the (hp handle);
          this = finishNumber (bs_value (bg_seqNoInFlight this ! slot)) this;
          n = bg_inFlightSize this - 1;
          (heap, hp) = siftDown 0 n (swap_slots 0 n (moveUp slot (bg_seqNoInFlight this, hp)));
          this = this\<lparr>bg_seqNoInFlight := heap, bg_inFlightSize := n,
                      bg_slotsAvail := bg_slotsAvail this + 1\<rparr>
      in (MirrorBuddyGroup_put this, hp))"

definition MirrorBuddyGroup_setSeqNoBase :: "u64 \<Rightarrow> MirrorBuddyGroup \<Rightarrow> MirrorBuddyGroup" where
  "MirrorBuddyGroup_setSeqNoBase seqNoBase this =
     (if bg_sequence this < seqNoBase then this\<lparr>bg_sequence := seqNoBase\<rparr> else this)"

section \<open>Slots and handles\<close>

text \<open>
  The first \<^term>\<open>n\<close> slots are in use: their handles are different variables and each points at
  its slot.
\<close>

definition slots_ok :: "nat \<Rightarrow> BuddySequenceNumber list \<times> handles \<Rightarrow> bool" where
  "slots_ok n s \<longleftrightarrow> n \<le> length (fst s) \<and> (\<forall>i < n. snd s (bs_pSelf (fst s ! i)) = Some i)"

abbreviation in_use :: "nat \<Rightarrow> BuddySequenceNumber list \<times> handles \<Rightarrow> BuddySequenceNumber multiset" where
  "in_use n s \<equiv> mset (take n (fst s))"

lemma slots_ok_inj:
  assumes "slots_ok n s" "i < n" "j < n" "bs_pSelf (fst s ! i) = bs_pSelf (fst s ! j)"
  shows "i = j"
proof -
  have "Some i = Some j" using assms by (metis slots_ok_def)
  then show ?thesis by simp
qed

lemma swap_slots_fst: "fst (swap_slots i j s) = (fst s)[i := fst s ! j, j := fst s ! i]"
  by (simp add: swap_slots_def split_def Let_def)

lemma swap_slots_nth:
  assumes "i < length (fst s)" "j < length (fst s)"
  shows "fst (swap_slots i j s) ! k = fst s ! (if k = j then i else if k = i then j else k)"
  using assms by (simp add: swap_slots_fst nth_list_update)

lemma swap_slots_length [simp]: "length (fst (swap_slots i j s)) = length (fst s)"
  by (simp add: swap_slots_fst)

lemma swap_slots_in_use:
  assumes "i < n" "j < n" "n \<le> length (fst s)"
  shows "in_use n (swap_slots i j s) = in_use n s"
proof -
  have "take n (fst (swap_slots i j s)) = (take n (fst s))[i := take n (fst s) ! j, j := take n (fst s) ! i]"
    using assms by (simp add: swap_slots_fst take_update_swap)
  also have "mset \<dots> = mset (take n (fst s))" using assms by (intro mset_swap) simp_all
  finally show ?thesis .
qed

lemma swap_slots_snd:
  "snd (swap_slots i j s) =
     (snd s)(bs_pSelf (fst (swap_slots i j s) ! i) := Some i, bs_pSelf (fst (swap_slots i j s) ! j) := Some j)"
  by (simp add: swap_slots_def split_def Let_def)

lemma swap_slots_ok:
  assumes ok: "slots_ok n s" and ij: "i < n" "j < n"
  shows "slots_ok n (swap_slots i j s)"
proof -
  have len: "i < length (fst s)" "j < length (fst s)" using ok ij by (auto simp: slots_ok_def)
  have "snd (swap_slots i j s) (bs_pSelf (fst (swap_slots i j s) ! k)) = Some k" if k: "k < n" for k
  proof -
    have inj: "bs_pSelf (fst s ! a) = bs_pSelf (fst s ! b) \<longleftrightarrow> a = b" if "a < n" "b < n" for a b
      using slots_ok_inj [OF ok that] by blast
    show ?thesis
      using ok ij k by (simp add: swap_slots_snd swap_slots_nth [OF len] inj slots_ok_def)
  qed
  then show ?thesis using ok by (simp add: slots_ok_def)
qed

text \<open>Whatever is swapped inside the slots in use keeps them.\<close>

definition keeps :: "nat \<Rightarrow> BuddySequenceNumber list \<times> handles \<Rightarrow> BuddySequenceNumber list \<times> handles \<Rightarrow> bool" where
  "keeps n s s' \<longleftrightarrow> slots_ok n s' \<and> in_use n s' = in_use n s \<and> length (fst s') = length (fst s)"

lemma keeps_swap:
  assumes "slots_ok n s" "i < n" "j < n"
  shows "keeps n s (swap_slots i j s)"
  using assms swap_slots_ok [OF assms] swap_slots_in_use [OF assms(2,3)] by (simp add: keeps_def slots_ok_def)

lemma keeps_trans: "keeps n s s' \<Longrightarrow> keeps n s' s'' \<Longrightarrow> keeps n s s''"
  by (simp add: keeps_def)

lemma moveUp_keeps: "slots_ok n s \<Longrightarrow> i < n \<Longrightarrow> keeps n s (moveUp i s)"
proof (induction i s rule: moveUp.induct)
  case (1 index s)
  show ?case
  proof (cases "index = 0")
    case True
    then show ?thesis using "1.prems" by (simp add: moveUp.simps keeps_def)
  next
    case False
    have half: "index div 2 < n" using "1.prems"(2) by linarith
    note sw = keeps_swap [OF "1.prems"(1) "1.prems"(2) half]
    have "keeps n (swap_slots index (index div 2) s) (moveUp (index div 2) (swap_slots index (index div 2) s))"
      using "1.IH" [OF False] sw half by (simp add: keeps_def)
    from keeps_trans [OF sw this] False show ?thesis by (simp add: moveUp.simps [of index])
  qed
qed

text \<open>The slot that moves up ends as the root.\<close>

lemma moveUp_root: "i < length (fst s) \<Longrightarrow> fst (moveUp i s) ! 0 = fst s ! i"
proof (induction i s rule: moveUp.induct)
  case (1 index s)
  show ?case
  proof (cases "index = 0")
    case True
    then show ?thesis by (simp add: moveUp.simps)
  next
    case False
    have half: "index div 2 < length (fst s)" using "1.prems" by linarith
    have "fst (swap_slots index (index div 2) s) ! (index div 2) = fst s ! index"
      using "1.prems" half by (simp add: swap_slots_nth)
    with "1.IH" [OF False] half False show ?thesis by (simp add: moveUp.simps [of index])
  qed
qed

lemma siftDown_keeps: "slots_ok n s \<Longrightarrow> i < n \<Longrightarrow> keeps n s (siftDown i n s)"
proof (induction i n s rule: siftDown.induct)
  case (1 i n s)
  let ?m = "minNode i n (fst s)"
  show ?case
  proof (cases "?m = i")
    case True
    then show ?thesis using "1.prems" by (simp add: siftDown.simps [of i] keeps_def)
  next
    case False
    then have m: "?m < n" using minNode_cases [of i n "fst s"] by auto
    note sw = keeps_swap [OF "1.prems" m]
    have "keeps n (swap_slots i ?m s) (siftDown ?m n (swap_slots i ?m s))"
      using "1.IH" [OF refl False] sw m by (simp add: keeps_def)
    from keeps_trans [OF sw this] False show ?thesis by (simp add: siftDown.simps [of i] Let_def)
  qed
qed

lemma siftDown_empty: "siftDown 0 0 s = s"
  using minNode_cases [of 0 0 "fst s"] by (subst siftDown.simps) (simp add: Let_def)

section \<open>Heap order\<close>

abbreviation val :: "BuddySequenceNumber list \<Rightarrow> nat \<Rightarrow> u64" where
  "val heap i \<equiv> bs_value (heap ! i)"

definition heap_ordered :: "nat \<Rightarrow> BuddySequenceNumber list \<Rightarrow> bool" where
  "heap_ordered n heap \<longleftrightarrow> (\<forall>j < n. 0 < j \<longrightarrow> val heap ((j - 1) div 2) \<le> val heap j)"

text \<open>Ordered everywhere but between \<^term>\<open>i\<close> and its children.\<close>

definition heap_but :: "nat \<Rightarrow> nat \<Rightarrow> BuddySequenceNumber list \<Rightarrow> bool" where
  "heap_but i n heap \<longleftrightarrow>
     (\<forall>j < n. 0 < j \<longrightarrow> (j - 1) div 2 \<noteq> i \<longrightarrow> val heap ((j - 1) div 2) \<le> val heap j) \<and>
     (\<forall>j < n. 0 < j \<longrightarrow> (j - 1) div 2 = i \<longrightarrow> 0 < i \<longrightarrow> val heap ((i - 1) div 2) \<le> val heap j)"

lemma child_iff: "0 < j \<Longrightarrow> (j - 1) div 2 = i \<longleftrightarrow> j = 2 * i + 1 \<or> j = 2 * i + (2 :: nat)"
  by presburger

lemma minNode_least:
  assumes "j < n" "j = 2 * i + 1 \<or> j = 2 * i + 2"
  shows "val heap (minNode i n heap) \<le> val heap j"
  using assms by (auto simp: minNode_def Let_def)

lemma minNode_le: "val heap (minNode i n heap) \<le> val heap i"
  by (auto simp: minNode_def Let_def)

lemma minNode_child: "minNode i n heap \<noteq> i \<Longrightarrow> minNode i n heap = 2 * i + 1 \<or> minNode i n heap = 2 * i + 2"
  by (auto simp: minNode_def Let_def split: if_splits)

lemma heap_but_done:
  assumes "heap_but i n heap" "minNode i n heap = i"
  shows "heap_ordered n heap"
  unfolding heap_ordered_def
proof (intro allI impI)
  fix j assume j: "j < n" "0 < j"
  show "val heap ((j - 1) div 2) \<le> val heap j"
  proof (cases "(j - 1) div 2 = i")
    case True
    with j have "j = 2 * i + 1 \<or> j = 2 * i + 2" using child_iff by blast
    with minNode_least [OF j(1) this, of heap] assms(2) True show ?thesis by simp
  next
    case False
    with assms(1) j show ?thesis by (simp add: heap_but_def)
  qed
qed

lemma heap_but_step:
  assumes hb: "heap_but i n heap" and m: "m = minNode i n heap" "m \<noteq> i" and n: "i < n" "n \<le> length heap"
  shows "heap_but m n (heap[i := heap ! m, m := heap ! i])"
proof -
  let ?h = "heap[i := heap ! m, m := heap ! i]"
  have mc: "m = 2 * i + 1 \<or> m = 2 * i + 2" "i < m" "m < n"
    using minNode_child [of i n heap] minNode_cases [of i n heap] m by auto
  have pm: "(m - 1) div 2 = i" using mc(1) child_iff [of m i] mc(2) by simp
  have v: "val ?h k = val heap (if k = m then i else if k = i then m else k)" for k
    using n mc by (simp add: nth_list_update)
  have low: "(\<forall>j < n. 0 < j \<longrightarrow> (j - 1) div 2 \<noteq> i \<longrightarrow> val heap ((j - 1) div 2) \<le> val heap j)"
    and up: "(\<forall>j < n. 0 < j \<longrightarrow> (j - 1) div 2 = i \<longrightarrow> 0 < i \<longrightarrow> val heap ((i - 1) div 2) \<le> val heap j)"
    using hb unfolding heap_but_def by blast+
  have first: "val ?h ((j - 1) div 2) \<le> val ?h j" if j: "j < n" "0 < j" "(j - 1) div 2 \<noteq> m" for j
  proof (cases "(j - 1) div 2 = i")
    case True
    then have c: "j = 2 * i + 1 \<or> j = 2 * i + 2" using child_iff j(2) by blast
    have "j \<noteq> i" using c by presburger
    then show ?thesis
      unfolding v True using minNode_least [OF j(1) c, of heap] minNode_le [of heap i n] m mc(2) by simp
  next
    case False
    show ?thesis
    proof (cases "j = i")
      case True
      have "(i - 1) div 2 < i" "(i - 1) div 2 \<noteq> m" using True j mc by auto
      moreover have "val heap ((i - 1) div 2) \<le> val heap m" using up mc(2,3) pm True j(2) by simp
      ultimately show ?thesis unfolding v True using mc(2) by simp
    next
      case ne: False
      have "j \<noteq> m" using pm False by auto
      moreover have "val heap ((j - 1) div 2) \<le> val heap j" using low j False by blast
      ultimately show ?thesis unfolding v using False ne j(3) by simp
    qed
  qed
  have second: "val ?h ((m - 1) div 2) \<le> val ?h j" if j: "j < n" "0 < j" "(j - 1) div 2 = m" for j
  proof -
    have "j = 2 * m + 1 \<or> j = 2 * m + 2" using child_iff j(2,3) by blast
    then have "j \<noteq> i" "j \<noteq> m" using mc(2) by auto
    moreover have "val heap m \<le> val heap j" using low j mc(2) by (metis nat_neq_iff)
    ultimately show ?thesis unfolding v pm using mc(2) by simp
  qed
  show ?thesis unfolding heap_but_def using first second by blast
qed

lemma siftDown_heap:
  "heap_but i n (fst s) \<Longrightarrow> i < n \<Longrightarrow> n \<le> length (fst s) \<Longrightarrow> heap_ordered n (fst (siftDown i n s))"
proof (induction i n s rule: siftDown.induct)
  case (1 i n s)
  let ?m = "minNode i n (fst s)"
  show ?case
  proof (cases "?m = i")
    case True
    with heap_but_done [OF "1.prems"(1)] show ?thesis by (simp add: siftDown.simps [of i])
  next
    case False
    then have "?m < n" using minNode_cases [of i n "fst s"] by auto
    moreover have "heap_but ?m n (fst (swap_slots i ?m s))"
      unfolding swap_slots_fst using heap_but_step [OF "1.prems"(1) refl False "1.prems"(2,3)] .
    ultimately show ?thesis
      using "1.IH" [OF refl False] "1.prems"(3) False by (simp add: siftDown.simps [of i] Let_def)
  qed
qed

lemma heap_root_min: "heap_ordered n heap \<Longrightarrow> j < n \<Longrightarrow> val heap 0 \<le> val heap j"
proof (induction j rule: less_induct)
  case (less j)
  show ?case
  proof (cases "j = 0")
    case False
    then have "(j - 1) div 2 < j" "(j - 1) div 2 < n" using less.prems(2) by auto
    with less.IH less.prems(1) have "val heap 0 \<le> val heap ((j - 1) div 2)" by blast
    also have "\<dots> \<le> val heap j" using less.prems False by (simp add: heap_ordered_def)
    finally show ?thesis .
  qed simp
qed

section \<open>The abstract view of a group\<close>

text \<open>
  What a group stands for: the numbers in flight with their handles, and the queue of finished
  numbers that nobody has acknowledged yet.
\<close>

definition inFlight :: "MirrorBuddyGroup \<Rightarrow> BuddySequenceNumber multiset" where
  "inFlight g = mset (take (bg_inFlightSize g) (bg_seqNoInFlight g))"

definition finished :: "MirrorBuddyGroup \<Rightarrow> u64 list" where
  "finished g = map (\<lambda>k. bg_finishedSeqNums g ! ((bg_firstFinishedIndex g + k) mod bg_inFlightCapacity g))
     [0..<bg_finishedCount g]"

definition group_ok :: "MirrorBuddyGroup \<Rightarrow> handles \<Rightarrow> bool" where
  "group_ok g hp \<longleftrightarrow>
     0 < bg_inFlightCapacity g \<and>
     length (bg_seqNoInFlight g) = bg_inFlightCapacity g \<and>
     length (bg_finishedSeqNums g) = bg_inFlightCapacity g \<and>
     bg_firstFinishedIndex g < bg_inFlightCapacity g \<and>
     bg_slotsAvail g + bg_inFlightSize g = bg_inFlightCapacity g \<and>
     bg_inFlightSize g + bg_finishedCount g \<le> bg_inFlightCapacity g \<and>
     bg_refs g = bg_inFlightSize g + 1 \<and>
     slots_ok (bg_inFlightSize g) (bg_seqNoInFlight g, hp)"

definition handle_unused :: "nat \<Rightarrow> MirrorBuddyGroup \<Rightarrow> bool" where
  "handle_unused h g \<longleftrightarrow> (\<forall>i < bg_inFlightSize g. bs_pSelf (bg_seqNoInFlight g ! i) \<noteq> h)"

text \<open>
  Reading the oldest finished number and appending one are the operations of a queue; the ring
  never drops a number, because the numbers in flight and the finished ones together fit.
\<close>

lemma finished_pop:
  assumes "0 < bg_finishedCount g"
    and "g' = g\<lparr>bg_firstFinishedIndex := (bg_firstFinishedIndex g + 1) mod bg_inFlightCapacity g,
                bg_finishedCount := bg_finishedCount g - 1\<rparr>"
    and "bg_firstFinishedIndex g < bg_inFlightCapacity g"
  shows "finished g = bg_finishedSeqNums g ! bg_firstFinishedIndex g # finished g'"
proof -
  obtain c where c: "bg_finishedCount g = Suc c" using assms(1) by (cases "bg_finishedCount g") auto
  have "finished g = bg_finishedSeqNums g ! (bg_firstFinishedIndex g mod bg_inFlightCapacity g) #
      map (\<lambda>k. bg_finishedSeqNums g ! ((bg_firstFinishedIndex g + Suc k) mod bg_inFlightCapacity g)) [0..<c]"
    unfolding finished_def c by (simp add: upt_conv_Cons map_Suc_upt [symmetric] comp_def del: upt_Suc)
  moreover have "(bg_firstFinishedIndex g + Suc k) mod bg_inFlightCapacity g =
      ((bg_firstFinishedIndex g + 1) mod bg_inFlightCapacity g + k) mod bg_inFlightCapacity g" for k
    by (simp add: mod_simps)
  ultimately show ?thesis using assms(2,3) c by (simp add: finished_def)
qed

lemma mod_add_le:
  assumes "(a + k) mod c = (a + m) mod c" "k \<le> m" "m < (c :: nat)"
  shows "k = m"
proof -
  have "c dvd (a + m) - (a + k)" using assms(1,2) by (intro mod_eq_dvd_iff_nat [THEN iffD1]) simp_all
  then have "c dvd m - k" by simp
  with assms(2,3) show ?thesis by (metis diff_diff_cancel diff_less_Suc diff_zero dvd_imp_le leD le_less_trans
      less_imp_diff_less neq0_conv)
qed

lemma mod_add_inj: "(a + k) mod c = (a + m) mod c \<Longrightarrow> k < c \<Longrightarrow> m < c \<Longrightarrow> k = (m :: nat)"
  using mod_add_le [of a k c m] mod_add_le [of a m c k] by (metis nat_le_linear)

lemma finished_push:
  assumes "bg_finishedCount g < bg_inFlightCapacity g" "length (bg_finishedSeqNums g) = bg_inFlightCapacity g"
  shows "finished (finishNumber v g) = finished g @ [v]"
proof -
  let ?c = "bg_inFlightCapacity g" and ?f = "bg_firstFinishedIndex g" and ?n = "bg_finishedCount g"
  have "?c > 0" using assms(1) by simp
  have "map (\<lambda>k. (bg_finishedSeqNums g)[(?f + ?n) mod ?c := v] ! ((?f + k) mod ?c)) [0..<?n] = finished g"
    unfolding finished_def
  proof (rule map_cong [OF refl])
    fix k assume "k \<in> set [0..<?n]"
    then have "k < ?n" by simp
    with assms(1) have "(?f + k) mod ?c \<noteq> (?f + ?n) mod ?c" using mod_add_inj [of ?f k ?c ?n] by auto
    then show "(bg_finishedSeqNums g)[(?f + ?n) mod ?c := v] ! ((?f + k) mod ?c) =
        bg_finishedSeqNums g ! ((?f + k) mod ?c)" by simp
  qed
  with assms \<open>?c > 0\<close> show ?thesis by (simp add: finished_def finishNumber_def Let_def)
qed

lemma slots_ok_append:
  assumes "slots_ok n (heap, hp)" "n < length heap" "\<forall>i < n. bs_pSelf (heap ! i) \<noteq> bs_pSelf x"
  shows "slots_ok (n + 1) (heap[n := x], hp(bs_pSelf x := Some n))"
  using assms by (auto simp: slots_ok_def nth_list_update less_Suc_eq)

lemma acquire_effect:
  assumes ok: "group_ok g hp" and h: "handle_unused h g"
    and acq: "MirrorBuddyGroup_acquireSequenceNumber h w k g hp = Acquired q a sel g' hp'"
  shows "group_ok g' hp'" "q = bg_sequence g + 1" "bg_sequence g' = q"
    and "inFlight g' = add_mset \<lparr>bs_pSelf = h, bs_value = q\<rparr> (inFlight g)"
    and "finished g \<noteq> [] \<Longrightarrow> sel \<and> finished g = a # finished g'"
    and "finished g = [] \<Longrightarrow> \<not> sel \<and> finished g' = [] \<and> a = val (bg_seqNoInFlight g') 0 - 1"
    and "bg_seqNoInFlight g' = (bg_seqNoInFlight g)[bg_inFlightSize g := \<lparr>bs_pSelf = h, bs_value = q\<rparr>]"
    and "bg_inFlightSize g' = bg_inFlightSize g + 1"
proof -
  let ?n = "bg_inFlightSize g" and ?x = "\<lparr>bs_pSelf = h, bs_value = bg_sequence g + 1\<rparr>"
  define g1 where "g1 = g\<lparr>bg_slotsAvail := bg_slotsAvail g - 1, bg_refs := bg_refs g + 1,
    bg_sequence := bg_sequence g + 1, bg_seqNoInFlight := (bg_seqNoInFlight g)[?n := ?x], bg_inFlightSize := ?n + 1\<rparr>"
  have slots: "0 < bg_slotsAvail g" using acq
    by (auto simp: MirrorBuddyGroup_acquireSequenceNumber_def split: if_splits)
  then have n: "?n < length (bg_seqNoInFlight g)" using ok by (simp add: group_ok_def)
  have so: "slots_ok (?n + 1) ((bg_seqNoInFlight g)[?n := ?x], hp(h := Some ?n))"
    using slots_ok_append [of ?n "bg_seqNoInFlight g" hp ?x] ok n h by (simp add: group_ok_def handle_unused_def)
  have fin1: "finished g1 = finished g" by (simp add: g1_def finished_def)
  have cnt: "finished g = [] \<longleftrightarrow> bg_finishedCount g = 0" by (simp add: finished_def)
  have res: "q = bg_sequence g + 1" "hp' = hp(h := Some ?n)"
    "g' = (if bg_finishedCount g > 0
           then g1\<lparr>bg_firstFinishedIndex := (bg_firstFinishedIndex g + 1) mod bg_inFlightCapacity g,
                   bg_finishedCount := bg_finishedCount g - 1\<rparr> else g1)"
    "sel = (bg_finishedCount g > 0)"
    "a = (if bg_finishedCount g > 0 then bg_finishedSeqNums g ! bg_firstFinishedIndex g
          else val (bg_seqNoInFlight g1) 0 - 1)"
    using acq slots
    by (auto simp: MirrorBuddyGroup_acquireSequenceNumber_def g1_def Let_def split: if_splits)
  show "q = bg_sequence g + 1" by (rule res(1))
  show "bg_sequence g' = q" using res(1,3) by (simp add: g1_def)
  show "group_ok g' hp'"
    using ok so slots res by (auto simp: group_ok_def g1_def)
  have "take (Suc ?n) ((bg_seqNoInFlight g)[?n := ?x]) = take ?n (bg_seqNoInFlight g) @ [?x]"
    using n by (simp add: take_Suc_conv_app_nth)
  then show "inFlight g' = add_mset \<lparr>bs_pSelf = h, bs_value = q\<rparr> (inFlight g)"
    using res(1,3) by (simp add: inFlight_def g1_def)
  show "bg_seqNoInFlight g' = (bg_seqNoInFlight g)[?n := \<lparr>bs_pSelf = h, bs_value = q\<rparr>]" "bg_inFlightSize g' = ?n + 1"
    using res(1,3) by (simp_all add: g1_def)
  show "sel \<and> finished g = a # finished g'" if "finished g \<noteq> []"
  proof -
    have pos: "0 < bg_finishedCount g" using that cnt by simp
    have "finished g1 = bg_finishedSeqNums g1 ! bg_firstFinishedIndex g1 # finished g'"
      by (rule finished_pop) (use pos res(3) ok in \<open>simp_all add: g1_def group_ok_def\<close>)
    then show ?thesis using pos res(4,5) fin1 by (simp add: g1_def)
  qed
  show "\<not> sel \<and> finished g' = [] \<and> a = val (bg_seqNoInFlight g') 0 - 1" if "finished g = []"
    using that cnt res(3,4,5) fin1 by simp
qed

lemma release_effect:
  assumes ok: "group_ok g hp" and i: "i < bg_inFlightSize g" and h: "h = bs_pSelf (bg_seqNoInFlight g ! i)"
  obtains g' hp' where "MirrorBuddyGroup_releaseSequenceNumber h g hp = (Some g', hp')"
    "group_ok g' hp'" "inFlight g = add_mset (bg_seqNoInFlight g ! i) (inFlight g')"
    "finished g' = finished g @ [val (bg_seqNoInFlight g) i]" "bg_sequence g' = bg_sequence g"
    "bg_inFlightSize g' = bg_inFlightSize g - 1"
    "bg_seqNoInFlight g' = fst (siftDown 0 (bg_inFlightSize g - 1)
       (swap_slots 0 (bg_inFlightSize g - 1) (moveUp i (bg_seqNoInFlight g, hp))))"
proof -
  define n where "n = bg_inFlightSize g - 1"
  let ?N = "bg_inFlightSize g" and ?v = "val (bg_seqNoInFlight g) i"
  define s0 where "s0 = (bg_seqNoInFlight g, hp)"
  define s1 where "s1 = moveUp i s0"
  define s2 where "s2 = swap_slots 0 n s1"
  define s3 where "s3 = siftDown 0 n s2"
  have so: "slots_ok ?N s0" using ok by (simp add: group_ok_def s0_def)
  have slot: "hp h = Some i" using so i h by (simp add: slots_ok_def s0_def)
  have N: "?N = Suc n" using i by (simp add: n_def)
  have k1: "keeps ?N s0 s1" unfolding s1_def by (rule moveUp_keeps [OF so i])
  have k2: "keeps ?N s0 s2"
    unfolding s2_def by (rule keeps_trans [OF k1 keeps_swap]) (use k1 N in \<open>simp_all add: keeps_def\<close>)
  have len: "length (fst s2) = length (bg_seqNoInFlight g)" "n < length (fst s2)" "n < length (fst s1)"
    using k1 k2 N by (simp_all add: keeps_def s0_def slots_ok_def)
  have last: "fst s2 ! n = bg_seqNoInFlight g ! i"
  proof -
    have "0 < length (fst s1)" using len(3) by linarith
    then have "fst s2 ! n = fst s1 ! 0" unfolding s2_def using len(3) by (simp add: swap_slots_nth)
    also have "\<dots> = fst s0 ! i" unfolding s1_def using so i by (intro moveUp_root) (simp add: slots_ok_def)
    finally show ?thesis by (simp add: s0_def)
  qed
  have tk: "take ?N (fst s2) = take n (fst s2) @ [bg_seqNoInFlight g ! i]"
    unfolding N using last len(2) by (simp add: take_Suc_conv_app_nth)
  have k3: "keeps n s2 s3"
  proof (cases "n = 0")
    case True
    then show ?thesis using k2 siftDown_empty [of s2] by (simp add: s3_def keeps_def slots_ok_def)
  next
    case False
    have "slots_ok n s2" using k2 N by (simp add: keeps_def slots_ok_def)
    then show ?thesis unfolding s3_def using False by (intro siftDown_keeps) simp_all
  qed
  have used: "in_use ?N s0 = add_mset (bg_seqNoInFlight g ! i) (in_use n s3)"
    using k2 k3 tk by (simp add: keeps_def)
  define g1 where "g1 = finishNumber ?v g"
  have free: "bg_finishedCount g < bg_inFlightCapacity g" using ok i by (simp add: group_ok_def)
  define g' where "g' = g1\<lparr>bg_seqNoInFlight := fst s3, bg_inFlightSize := n,
    bg_slotsAvail := bg_slotsAvail g1 + 1, bg_refs := bg_refs g1 - 1\<rparr>"
  have g1: "bg_refs g1 = bg_refs g" "bg_inFlightSize g1 = ?N" "bg_seqNoInFlight g1 = bg_seqNoInFlight g"
    "bg_slotsAvail g1 = bg_slotsAvail g" "bg_inFlightCapacity g1 = bg_inFlightCapacity g"
    "bg_sequence g1 = bg_sequence g" "bg_firstFinishedIndex g1 = bg_firstFinishedIndex g"
    "bg_finishedCount g1 = bg_finishedCount g + 1" "length (bg_finishedSeqNums g1) = length (bg_finishedSeqNums g)"
    using free by (simp_all add: g1_def finishNumber_def Let_def)
  show thesis
  proof (rule that [of g' "snd s3"])
    have refs: "bg_refs g \<noteq> 1" using ok i by (simp add: group_ok_def)
    show "MirrorBuddyGroup_releaseSequenceNumber h g hp = (Some g', snd s3)"
      using refs g1
      by (simp add: MirrorBuddyGroup_releaseSequenceNumber_def slot Let_def split_def g1_def [symmetric]
          MirrorBuddyGroup_put_def g'_def s3_def s2_def s1_def s0_def n_def)
    show "group_ok g' (snd s3)"
      using ok N k3 k2 g1 by (auto simp: group_ok_def g'_def keeps_def s0_def)
    show "inFlight g = add_mset (bg_seqNoInFlight g ! i) (inFlight g')"
      using used by (simp add: inFlight_def g'_def s0_def)
    have "finished g1 = finished g @ [?v]"
      unfolding g1_def using free ok by (intro finished_push) (simp_all add: group_ok_def)
    then show "finished g' = finished g @ [?v]" by (simp add: finished_def g'_def)
  qed (simp_all add: g'_def g1 s3_def s2_def s1_def s0_def n_def)
qed

section \<open>Reachable states\<close>

text \<open>
  The life of a group that its owner keeps: any interleaving of the operations, where a requester
  acquires with a handle variable that is not in use and releases the one it acquired; variables
  that are not in use may be written by anyone.
\<close>

inductive seq_reachable :: "MirrorBuddyGroup \<Rightarrow> handles \<Rightarrow> bool" where
  construct: "MirrorBuddyGroup_constructFromTargetIDs i n f s = Some g \<Longrightarrow> seq_reachable g hp"
| base: "seq_reachable g hp \<Longrightarrow> seq_reachable (MirrorBuddyGroup_setSeqNoBase b g) hp"
| acquire: "seq_reachable g hp \<Longrightarrow> handle_unused h g \<Longrightarrow>
    MirrorBuddyGroup_acquireSequenceNumber h w k g hp = Acquired q a sel g' hp' \<Longrightarrow> seq_reachable g' hp'"
| release: "seq_reachable g hp \<Longrightarrow> i < bg_inFlightSize g \<Longrightarrow>
    MirrorBuddyGroup_releaseSequenceNumber (bs_pSelf (bg_seqNoInFlight g ! i)) g hp = (Some g', hp') \<Longrightarrow>
    seq_reachable g' hp'"
| unused: "seq_reachable g hp \<Longrightarrow> handle_unused h g \<Longrightarrow> seq_reachable g (hp(h := x))"

lemma construct_ok:
  assumes "MirrorBuddyGroup_constructFromTargetIDs i n f s = Some g"
  shows "group_ok g hp"
  using assms
  by (auto simp: MirrorBuddyGroup_constructFromTargetIDs_def group_ok_def slots_ok_def unat_gt_0
      split: if_splits)

lemma reachable_ok: "seq_reachable g hp \<Longrightarrow> group_ok g hp"
proof (induction rule: seq_reachable.induct)
  case (construct i n f s g hp)
  then show ?case by (rule construct_ok)
next
  case (base g hp b)
  then show ?case by (simp add: MirrorBuddyGroup_setSeqNoBase_def group_ok_def)
next
  case (acquire g hp h w k q a sel g' hp')
  from acquire_effect(1) [OF acquire.IH acquire.hyps(2,3)] show ?case .
next
  case (release g hp i g' hp')
  obtain g1 hp1 where "MirrorBuddyGroup_releaseSequenceNumber (bs_pSelf (bg_seqNoInFlight g ! i)) g hp = (Some g1, hp1)"
    "group_ok g1 hp1"
    using release_effect [OF release.IH release.hyps(2) refl] by metis
  with release.hyps(3) show ?case by simp
next
  case (unused g hp h x)
  then show ?case by (auto simp: group_ok_def slots_ok_def handle_unused_def)
qed

section \<open>Runs\<close>

text \<open>A sequence of operations, for concrete histories.\<close>

datatype seq_op = Acquire nat | Release nat

fun seq_run :: "seq_op list \<Rightarrow> MirrorBuddyGroup \<times> handles \<Rightarrow> (MirrorBuddyGroup \<times> handles) option" where
  "seq_run [] s = Some s"
| "seq_run (Acquire h # ops) (g, hp) =
     (if list_all (\<lambda>x. bs_pSelf x \<noteq> h) (take (bg_inFlightSize g) (bg_seqNoInFlight g)) then
        (case MirrorBuddyGroup_acquireSequenceNumber h False False g hp of
           Acquired q a sel g' hp' \<Rightarrow> seq_run ops (g', hp')
         | _ \<Rightarrow> None)
      else None)"
| "seq_run (Release h # ops) (g, hp) =
     (if list_ex (\<lambda>x. bs_pSelf x = h) (take (bg_inFlightSize g) (bg_seqNoInFlight g)) then
        (case MirrorBuddyGroup_releaseSequenceNumber h g hp of
           (Some g', hp') \<Rightarrow> seq_run ops (g', hp')
         | (None, hp') \<Rightarrow> None)
      else None)"

lemma seq_run_reachable:
  "seq_run ops s = Some (g', hp') \<Longrightarrow> seq_reachable (fst s) (snd s) \<Longrightarrow> seq_reachable g' hp'"
proof (induction ops s rule: seq_run.induct)
  case (1 s)
  then show ?case by simp
next
  case (2 h ops g hp)
  then have len: "bg_inFlightSize g \<le> length (bg_seqNoInFlight g)"
    using reachable_ok by (fastforce simp: group_ok_def)
  from "2.prems"(1) obtain q a sel g1 hp1 where
    all: "list_all (\<lambda>x. bs_pSelf x \<noteq> h) (take (bg_inFlightSize g) (bg_seqNoInFlight g))" and
    acq: "MirrorBuddyGroup_acquireSequenceNumber h False False g hp = Acquired q a sel g1 hp1" and
    run: "seq_run ops (g1, hp1) = Some (g', hp')"
    by (auto split: if_splits acquire_result.splits)
  have "handle_unused h g" using all len by (auto simp: handle_unused_def list_all_length)
  with "2.prems"(2) acq have "seq_reachable g1 hp1" by (auto intro: seq_reachable.acquire)
  with "2.IH" [OF all acq run] show ?case by simp
next
  case (3 h ops g hp)
  then have len: "bg_inFlightSize g \<le> length (bg_seqNoInFlight g)"
    using reachable_ok by (fastforce simp: group_ok_def)
  from "3.prems"(1) obtain g1 hp1 where
    ex: "list_ex (\<lambda>x. bs_pSelf x = h) (take (bg_inFlightSize g) (bg_seqNoInFlight g))" and
    rel: "MirrorBuddyGroup_releaseSequenceNumber h g hp = (Some g1, hp1)" and
    run: "seq_run ops (g1, hp1) = Some (g', hp')"
    by (auto split: if_splits prod.splits option.splits)
  obtain i where i: "i < bg_inFlightSize g" "bs_pSelf (bg_seqNoInFlight g ! i) = h"
    using ex len by (auto simp: list_ex_length)
  have "seq_reachable g1 hp1" using seq_reachable.release [of g hp i g1 hp1] "3.prems"(2) i rel by simp
  with "3.IH" [OF ex rel [symmetric] refl run] show ?case by simp
qed

section \<open>Heap order of a group\<close>

definition group_ordered :: "MirrorBuddyGroup \<Rightarrow> bool" where
  "group_ordered g \<longleftrightarrow> heap_ordered (bg_inFlightSize g) (bg_seqNoInFlight g) \<and>
     (\<forall>x \<in># inFlight g. 0 < bs_value x \<and> bs_value x \<le> bg_sequence g)"

lemma in_inFlight:
  "bg_inFlightSize g \<le> length (bg_seqNoInFlight g) \<Longrightarrow>
     x \<in># inFlight g \<longleftrightarrow> (\<exists>i < bg_inFlightSize g. x = bg_seqNoInFlight g ! i)"
  by (auto simp: inFlight_def in_set_conv_nth)

lemma heap_ordered_append:
  assumes "heap_ordered n heap" "n < length heap" "\<forall>i < n. val heap i \<le> bs_value x"
  shows "heap_ordered (n + 1) (heap[n := x])"
  using assms by (auto simp: heap_ordered_def nth_list_update less_Suc_eq)

lemma acquire_ordered:
  assumes ok: "group_ok g hp" and ord: "group_ordered g" and seq: "bg_sequence g \<noteq> - 1"
    and h: "handle_unused h g"
    and acq: "MirrorBuddyGroup_acquireSequenceNumber h w k g hp = Acquired q a sel g' hp'"
  shows "group_ordered g'"
proof -
  note eff = acquire_effect [OF ok h acq]
  have len: "bg_inFlightSize g + 1 \<le> length (bg_seqNoInFlight g)"
    using eff(1,7,8) by (simp add: group_ok_def slots_ok_def)
  have less: "bg_sequence g < q" using word_less_plus_one [OF seq] eff(2) by simp
  have le: "0 < bs_value x \<and> bs_value x \<le> bg_sequence g" if "x \<in># inFlight g" for x
    using ord that by (simp add: group_ordered_def)
  have "heap_ordered (bg_inFlightSize g + 1) ((bg_seqNoInFlight g)[bg_inFlightSize g := \<lparr>bs_pSelf = h, bs_value = q\<rparr>])"
  proof (rule heap_ordered_append)
    show "heap_ordered (bg_inFlightSize g) (bg_seqNoInFlight g)" using ord by (simp add: group_ordered_def)
    show "bg_inFlightSize g < length (bg_seqNoInFlight g)" using len by simp
    show "\<forall>i < bg_inFlightSize g. val (bg_seqNoInFlight g) i \<le> bs_value \<lparr>bs_pSelf = h, bs_value = q\<rparr>"
      using le less len in_inFlight [of g] by fastforce
  qed
  moreover have "0 < bs_value x \<and> bs_value x \<le> bg_sequence g'" if "x \<in># inFlight g'" for x
    using that le less eff(3,4) by (fastforce simp: word_gt_0)
  ultimately show ?thesis using eff(7,8) by (simp add: group_ordered_def)
qed

lemma acquire_ack_below:
  assumes ok: "group_ok g hp" and ord: "group_ordered g" and seq: "bg_sequence g \<noteq> - 1"
    and h: "handle_unused h g"
    and acq: "MirrorBuddyGroup_acquireSequenceNumber h w k g hp = Acquired q a False g' hp'"
    and x: "x \<in># inFlight g'"
  shows "a < bs_value x"
proof -
  note eff = acquire_effect [OF ok h acq]
  have ord': "group_ordered g'" by (rule acquire_ordered [OF ok ord seq h acq])
  have len: "bg_inFlightSize g' \<le> length (bg_seqNoInFlight g')" using eff(1) by (simp add: group_ok_def slots_ok_def)
  obtain i where i: "i < bg_inFlightSize g'" "x = bg_seqNoInFlight g' ! i" using x in_inFlight [OF len] by blast
  then have root: "val (bg_seqNoInFlight g') 0 \<le> bs_value x"
    using heap_root_min ord' by (auto simp: group_ordered_def)
  have "bg_seqNoInFlight g' ! 0 \<in># inFlight g'" using i(1) in_inFlight [OF len] by (metis gr0I not_less0)
  then have "0 < val (bg_seqNoInFlight g') 0" using ord' by (simp add: group_ordered_def)
  moreover have "a = val (bg_seqNoInFlight g') 0 - 1"
  proof (cases "finished g = []")
    case True
    with eff(6) show ?thesis by blast
  next
    case False
    with eff(5) show ?thesis by simp
  qed
  ultimately have "a < val (bg_seqNoInFlight g') 0"
    using unat_minus_one_less [of 0 "val (bg_seqNoInFlight g') 0"] by (simp add: word_less_nat_alt)
  with root show ?thesis by simp
qed

text \<open>Releasing the number at the root, the oldest one, keeps the order.\<close>

lemma heap_but_root:
  assumes "heap_ordered (n + 1) heap" "n < length heap"
  shows "heap_but 0 n (fst (swap_slots 0 n (heap, hp)))"
proof -
  have v: "fst (swap_slots 0 n (heap, hp)) ! k = heap ! (if k = n then 0 else if k = 0 then n else k)" for k
    using assms(2) by (subst swap_slots_nth) auto
  have "val heap ((j - 1) div 2) \<le> val heap j" if "j < n" "0 < j" for j
    using assms(1) that by (simp add: heap_ordered_def)
  moreover have "(j - 1) div 2 \<noteq> n" if "j < n" for j using that by auto
  ultimately show ?thesis unfolding heap_but_def v by auto
qed

lemma release_root_ordered:
  assumes ok: "group_ok g hp" and ord: "group_ordered g" and n: "0 < bg_inFlightSize g"
    and rel: "MirrorBuddyGroup_releaseSequenceNumber (bs_pSelf (bg_seqNoInFlight g ! 0)) g hp = (Some g', hp')"
  shows "group_ordered g'"
proof -
  obtain k where k: "bg_inFlightSize g = k + 1" using n by (cases "bg_inFlightSize g") auto
  obtain g1 hp1 where g1: "MirrorBuddyGroup_releaseSequenceNumber (bs_pSelf (bg_seqNoInFlight g ! 0)) g hp = (Some g1, hp1)"
    "inFlight g = add_mset (bg_seqNoInFlight g ! 0) (inFlight g1)" "bg_sequence g1 = bg_sequence g"
    "bg_inFlightSize g1 = k"
    "bg_seqNoInFlight g1 = fst (siftDown 0 k (swap_slots 0 k (moveUp 0 (bg_seqNoInFlight g, hp))))"
    using release_effect [OF ok n refl] k by (metis diff_add_inverse2)
  have len: "k < length (bg_seqNoInFlight g)" using ok k by (simp add: group_ok_def)
  have "heap_ordered k (bg_seqNoInFlight g1)"
  proof (cases "k = 0")
    case False
    have "heap_but 0 k (fst (swap_slots 0 k (bg_seqNoInFlight g, hp)))"
      by (rule heap_but_root) (use ord k len in \<open>simp_all add: group_ordered_def\<close>)
    then show ?thesis unfolding g1(5) using False len
      by (simp add: moveUp.simps [of 0] siftDown_heap)
  qed (simp add: heap_ordered_def)
  with ord g1 rel show ?thesis by (simp add: group_ordered_def)
qed

section \<open>Properties\<close>

text \<open>
  C32. In every reachable state the slots of a buddy group are accounted for: free and used slots
  make up the capacity, the handle of every number in flight points at its slot, the finished
  numbers and those in flight together fit into the ring, so that none is dropped, and every
  number in flight holds one reference.
\<close>

theorem buddy_seq_invariant:
  assumes "seq_reachable g hp"
  shows "bg_slotsAvail g + bg_inFlightSize g = bg_inFlightCapacity g \<and>
    size (inFlight g) = bg_inFlightSize g \<and>
    (\<forall>i < bg_inFlightSize g. hp (bs_pSelf (bg_seqNoInFlight g ! i)) = Some i) \<and>
    size (inFlight g) + length (finished g) \<le> bg_inFlightCapacity g \<and>
    bg_refs g = bg_inFlightSize g + 1"
  using reachable_ok [OF assms] by (simp add: group_ok_def slots_ok_def inFlight_def finished_def)

theorem buddy_seq_invariant_witness:
  "\<exists>g. MirrorBuddyGroup_constructFromTargetIDs 1 12 101 201 = Some g \<and> bg_slotsAvail g + bg_inFlightSize g = bg_inFlightCapacity g"
proof -
  obtain g where g: "MirrorBuddyGroup_constructFromTargetIDs 1 12 101 201 = Some g"
    by (simp add: MirrorBuddyGroup_constructFromTargetIDs_def)
  from buddy_seq_invariant [OF seq_reachable.construct [OF g]] g show ?thesis by blast
qed

text \<open>
  C33. The heap with its handles and the ring refine a multiset of numbers in flight and a queue of
  finished numbers. Acquiring adds the next number for the handle and hands out the oldest
  finished number, if there is one; releasing succeeds for every number in flight, removes
  exactly that number and appends it to the finished ones. Acquiring fails or waits only when
  all slots are used.
\<close>

theorem buddy_seq_refinement:
  assumes "seq_reachable g hp"
  shows "(handle_unused h g \<and> MirrorBuddyGroup_acquireSequenceNumber h w k g hp = Acquired q a sel g' hp' \<longrightarrow>
            q = bg_sequence g + 1 \<and> inFlight g' = add_mset \<lparr>bs_pSelf = h, bs_value = q\<rparr> (inFlight g) \<and>
            (if finished g = [] then \<not> sel \<and> finished g' = [] else sel \<and> finished g = a # finished g')) \<and>
         (i < bg_inFlightSize g \<longrightarrow>
            (\<exists>g' hp'. MirrorBuddyGroup_releaseSequenceNumber (bs_pSelf (bg_seqNoInFlight g ! i)) g hp = (Some g', hp') \<and>
               inFlight g = add_mset (bg_seqNoInFlight g ! i) (inFlight g') \<and>
               finished g' = finished g @ [val (bg_seqNoInFlight g) i] \<and> bg_sequence g' = bg_sequence g)) \<and>
         ((\<exists>e. MirrorBuddyGroup_acquireSequenceNumber h w k g hp = Failed e) \<or>
          MirrorBuddyGroup_acquireSequenceNumber h w k g hp = Waiting \<longrightarrow>
            size (inFlight g) = bg_inFlightCapacity g)"
proof (intro conjI impI)
  note ok = reachable_ok [OF assms]
  show "q = bg_sequence g + 1" "inFlight g' = add_mset \<lparr>bs_pSelf = h, bs_value = q\<rparr> (inFlight g)"
    "if finished g = [] then \<not> sel \<and> finished g' = [] else sel \<and> finished g = a # finished g'"
    if "handle_unused h g \<and> MirrorBuddyGroup_acquireSequenceNumber h w k g hp = Acquired q a sel g' hp'"
    using acquire_effect(2,4,5,6) [OF ok conjunct1 [OF that] conjunct2 [OF that]] by auto
  show "\<exists>g' hp'. MirrorBuddyGroup_releaseSequenceNumber (bs_pSelf (bg_seqNoInFlight g ! i)) g hp = (Some g', hp') \<and>
      inFlight g = add_mset (bg_seqNoInFlight g ! i) (inFlight g') \<and>
      finished g' = finished g @ [val (bg_seqNoInFlight g) i] \<and> bg_sequence g' = bg_sequence g"
    if "i < bg_inFlightSize g"
    using release_effect [OF ok that refl] by metis
  show "size (inFlight g) = bg_inFlightCapacity g"
    if "(\<exists>e. MirrorBuddyGroup_acquireSequenceNumber h w k g hp = Failed e) \<or>
        MirrorBuddyGroup_acquireSequenceNumber h w k g hp = Waiting"
  proof -
    have "bg_slotsAvail g = 0"
      using that by (auto simp: MirrorBuddyGroup_acquireSequenceNumber_def Let_def split: if_splits)
    then show ?thesis using ok by (simp add: group_ok_def inFlight_def)
  qed
qed

text \<open>A group with eight slots, the default, and requests that finish out of order.\<close>

definition ex_group :: MirrorBuddyGroup where
  "ex_group = MirrorBuddyGroup_setSeqNoBase 1 (the (MirrorBuddyGroup_constructFromTargetIDs 1 8 101 201))"

definition ex_history :: "seq_op list" where
  "ex_history =
     [Acquire 0, Acquire 1, Acquire 2, Acquire 3, Acquire 4, Acquire 5, Release 4, Acquire 6, Acquire 7,
      Release 6, Acquire 8, Release 0, Acquire 9]"

lemma ex_group_reachable: "seq_reachable ex_group (\<lambda>_. None)"
proof -
  obtain g where g: "MirrorBuddyGroup_constructFromTargetIDs 1 8 101 201 = Some g"
    by (simp add: MirrorBuddyGroup_constructFromTargetIDs_def)
  then have "seq_reachable g (\<lambda>_. None)" by (rule seq_reachable.construct)
  with g show ?thesis by (simp add: ex_group_def seq_reachable.base)
qed

lemma ex_history_ack:
  "case seq_run ex_history (ex_group, \<lambda>_. None) of
     None \<Rightarrow> False
   | Some (g, hp) \<Rightarrow>
       (case MirrorBuddyGroup_acquireSequenceNumber 10 False False g hp of
          Acquired q a sel g' hp' \<Rightarrow>
            \<not> sel \<and> a = 3 \<and> list_all (\<lambda>x. bs_pSelf x \<noteq> 10) (take (bg_inFlightSize g) (bg_seqNoInFlight g)) \<and>
            list_ex (\<lambda>x. bs_value x = 3) (take (bg_inFlightSize g) (bg_seqNoInFlight g))
        | _ \<Rightarrow> False)"
  by code_simp

theorem buddy_seq_refinement_witness:
  "\<exists>g hp. seq_run [Acquire 0, Acquire 1] (ex_group, \<lambda>_. None) = Some (g, hp) \<and>
     (\<exists>g' hp'. MirrorBuddyGroup_releaseSequenceNumber (bs_pSelf (bg_seqNoInFlight g ! 1)) g hp = (Some g', hp') \<and>
        finished g' = finished g @ [val (bg_seqNoInFlight g) 1])"
proof -
  have "case seq_run [Acquire 0, Acquire 1] (ex_group, \<lambda>_. None) of
      None \<Rightarrow> False | Some (g, hp) \<Rightarrow> 1 < bg_inFlightSize g" by code_simp
  then obtain g hp where run: "seq_run [Acquire 0, Acquire 1] (ex_group, \<lambda>_. None) = Some (g, hp)"
    and n: "1 < bg_inFlightSize g" by (auto split: option.splits)
  have "seq_reachable g hp" using seq_run_reachable [OF run] ex_group_reachable by simp
  from buddy_seq_refinement [OF this, where i = 1] n run show ?thesis by blast
qed

text \<open>
  While the array of numbers in flight is ordered as a heap, the unselective acknowledgement
  of a new request covers only finished numbers: it is below every number in flight. Acquiring
  keeps the order, and so does releasing the oldest number.
\<close>

theorem buddy_ack_ordered:
  assumes "seq_reachable g hp" "group_ordered g" "bg_sequence g \<noteq> - 1"
  shows "(handle_unused h g \<and> MirrorBuddyGroup_acquireSequenceNumber h w k g hp = Acquired q a sel g' hp' \<longrightarrow>
            group_ordered g' \<and> (\<not> sel \<longrightarrow> (\<forall>x \<in># inFlight g'. a < bs_value x))) \<and>
         (0 < bg_inFlightSize g \<and>
          MirrorBuddyGroup_releaseSequenceNumber (bs_pSelf (bg_seqNoInFlight g ! 0)) g hp = (Some g'', hp'') \<longrightarrow>
            group_ordered g'')"
proof -
  note ok = reachable_ok [OF assms(1)]
  have "group_ordered g' \<and> (\<not> sel \<longrightarrow> (\<forall>x \<in># inFlight g'. a < bs_value x))"
    if "handle_unused h g" "MirrorBuddyGroup_acquireSequenceNumber h w k g hp = Acquired q a sel g' hp'"
    using acquire_ordered [OF ok assms(2,3) that] acquire_ack_below [OF ok assms(2,3) that(1)] that(2)
    by (cases sel) auto
  moreover have "group_ordered g''"
    if "0 < bg_inFlightSize g"
      "MirrorBuddyGroup_releaseSequenceNumber (bs_pSelf (bg_seqNoInFlight g ! 0)) g hp = (Some g'', hp'')"
    using release_root_ordered [OF ok assms(2) that] .
  ultimately show ?thesis by blast
qed

theorem buddy_ack_ordered_witness:
  "\<exists>q a sel g' hp'. MirrorBuddyGroup_acquireSequenceNumber 0 False False ex_group (\<lambda>_. None) = Acquired q a sel g' hp' \<and>
     group_ordered g'"
proof -
  have e: "bg_inFlightSize ex_group = 0" "bg_sequence ex_group = 1" "bg_slotsAvail ex_group = 8"
    by (simp_all add: ex_group_def MirrorBuddyGroup_setSeqNoBase_def MirrorBuddyGroup_constructFromTargetIDs_def)
  have "group_ordered ex_group" "bg_sequence ex_group \<noteq> - 1" "handle_unused 0 ex_group"
    using e by (simp_all add: group_ordered_def heap_ordered_def inFlight_def handle_unused_def)
  moreover have "case MirrorBuddyGroup_acquireSequenceNumber 0 False False ex_group (\<lambda>_. None) of
      Acquired q a sel g' hp' \<Rightarrow> True | _ \<Rightarrow> False" by code_simp
  then obtain q a sel g' hp' where
    "MirrorBuddyGroup_acquireSequenceNumber 0 False False ex_group (\<lambda>_. None) = Acquired q a sel g' hp'"
    by (auto split: acquire_result.splits)
  ultimately show ?thesis
    using buddy_ack_ordered [OF ex_group_reachable, where h = 0 and w = False and k = False
        and q = q and a = a and sel = sel and g' = g' and hp' = hp'] by blast
qed

text \<open>
  The heap order is not kept by releasing in another order: the slot that moves up swaps with
  the one at half its index, which for a zero-based heap is not its parent. There is a reachable
  state, already with the default of eight slots, in which a new request acknowledges to the
  server everything up to a number that is still in flight.
\<close>

theorem buddy_ack_in_flight:
  "\<exists>g hp h q a g' hp'. seq_reachable g hp \<and> handle_unused h g \<and>
     MirrorBuddyGroup_acquireSequenceNumber h False False g hp = Acquired q a False g' hp' \<and>
     (\<exists>x \<in># inFlight g. bs_value x \<le> a)"
proof -
  obtain g hp where run: "seq_run ex_history (ex_group, \<lambda>_. None) = Some (g, hp)"
    using ex_history_ack by (cases "seq_run ex_history (ex_group, \<lambda>_. None)") auto
  obtain q a sel g' hp' where
    acq: "MirrorBuddyGroup_acquireSequenceNumber 10 False False g hp = Acquired q a sel g' hp'"
    using ex_history_ack run by (cases "MirrorBuddyGroup_acquireSequenceNumber 10 False False g hp") simp_all
  have r: "a = 3" "list_all (\<lambda>x. bs_pSelf x \<noteq> 10) (take (bg_inFlightSize g) (bg_seqNoInFlight g))"
    "list_ex (\<lambda>x. bs_value x = 3) (take (bg_inFlightSize g) (bg_seqNoInFlight g))" "\<not> sel"
    using ex_history_ack run acq by simp_all
  have reach: "seq_reachable g hp" using seq_run_reachable [OF run] ex_group_reachable by simp
  then have len: "bg_inFlightSize g \<le> length (bg_seqNoInFlight g)" using reachable_ok by (fastforce simp: group_ok_def)
  have "handle_unused 10 g" using r(2) len by (auto simp: handle_unused_def list_all_length)
  moreover have "\<exists>x \<in># inFlight g. bs_value x \<le> a" using r(1,3) unfolding inFlight_def set_mset_mset list_ex_iff by (metis order_refl)
  moreover have "MirrorBuddyGroup_acquireSequenceNumber 10 False False g hp = Acquired q a False g' hp'"
    using acq r(4) by simp
  ultimately show ?thesis using reach by blast
qed

end
