(* ===== verification/Storage_Errors.thy ===== *)
theory Storage_Errors
  imports BG_Prelude
begin

text \<open>
  The error codes that servers and client exchange (\<^verbatim>\<open>enum FhgfsOpsErr\<close>) and their translation to
  system errors: \<^verbatim>\<open>StorageErrors.h\<close> and \<^verbatim>\<open>StorageErrors.c\<close> of the client, \<^verbatim>\<open>StorageErrors.h\<close>
  and \<^verbatim>\<open>StorageErrors.cpp\<close> of the servers. A code is a signed 32-bit integer, as it is sent; the last entry of the
  tables, the null pointer that ends them, is the end of the list.
\<close>

section \<open>Codes\<close>

type_synonym FhgfsOpsErr = int

abbreviation FhgfsOpsErr_DUMMY_DONTUSEME :: FhgfsOpsErr where "FhgfsOpsErr_DUMMY_DONTUSEME \<equiv> - 1"
abbreviation FhgfsOpsErr_SUCCESS :: FhgfsOpsErr where "FhgfsOpsErr_SUCCESS \<equiv> 0"
abbreviation FhgfsOpsErr_INTERNAL :: FhgfsOpsErr where "FhgfsOpsErr_INTERNAL \<equiv> 1"
abbreviation FhgfsOpsErr_INTERRUPTED :: FhgfsOpsErr where "FhgfsOpsErr_INTERRUPTED \<equiv> 2"
abbreviation FhgfsOpsErr_COMMUNICATION :: FhgfsOpsErr where "FhgfsOpsErr_COMMUNICATION \<equiv> 3"
abbreviation FhgfsOpsErr_COMMTIMEDOUT :: FhgfsOpsErr where "FhgfsOpsErr_COMMTIMEDOUT \<equiv> 4"
abbreviation FhgfsOpsErr_UNKNOWNNODE :: FhgfsOpsErr where "FhgfsOpsErr_UNKNOWNNODE \<equiv> 5"
abbreviation FhgfsOpsErr_NOTOWNER :: FhgfsOpsErr where "FhgfsOpsErr_NOTOWNER \<equiv> 6"
abbreviation FhgfsOpsErr_EXISTS :: FhgfsOpsErr where "FhgfsOpsErr_EXISTS \<equiv> 7"
abbreviation FhgfsOpsErr_PATHNOTEXISTS :: FhgfsOpsErr where "FhgfsOpsErr_PATHNOTEXISTS \<equiv> 8"
abbreviation FhgfsOpsErr_INUSE :: FhgfsOpsErr where "FhgfsOpsErr_INUSE \<equiv> 9"
abbreviation FhgfsOpsErr_DYNAMICATTRIBSOUTDATED :: FhgfsOpsErr where "FhgfsOpsErr_DYNAMICATTRIBSOUTDATED \<equiv> 10"
abbreviation FhgfsOpsErr_PARENTTOSUBDIR :: FhgfsOpsErr where "FhgfsOpsErr_PARENTTOSUBDIR \<equiv> 11"
abbreviation FhgfsOpsErr_NOTADIR :: FhgfsOpsErr where "FhgfsOpsErr_NOTADIR \<equiv> 12"
abbreviation FhgfsOpsErr_NOTEMPTY :: FhgfsOpsErr where "FhgfsOpsErr_NOTEMPTY \<equiv> 13"
abbreviation FhgfsOpsErr_NOSPACE :: FhgfsOpsErr where "FhgfsOpsErr_NOSPACE \<equiv> 14"
abbreviation FhgfsOpsErr_UNKNOWNTARGET :: FhgfsOpsErr where "FhgfsOpsErr_UNKNOWNTARGET \<equiv> 15"
abbreviation FhgfsOpsErr_WOULDBLOCK :: FhgfsOpsErr where "FhgfsOpsErr_WOULDBLOCK \<equiv> 16"
abbreviation FhgfsOpsErr_INODENOTINLINED :: FhgfsOpsErr where "FhgfsOpsErr_INODENOTINLINED \<equiv> 17"
abbreviation FhgfsOpsErr_SAVEERROR :: FhgfsOpsErr where "FhgfsOpsErr_SAVEERROR \<equiv> 18"
abbreviation FhgfsOpsErr_TOOBIG :: FhgfsOpsErr where "FhgfsOpsErr_TOOBIG \<equiv> 19"
abbreviation FhgfsOpsErr_INVAL :: FhgfsOpsErr where "FhgfsOpsErr_INVAL \<equiv> 20"
abbreviation FhgfsOpsErr_ADDRESSFAULT :: FhgfsOpsErr where "FhgfsOpsErr_ADDRESSFAULT \<equiv> 21"
abbreviation FhgfsOpsErr_AGAIN :: FhgfsOpsErr where "FhgfsOpsErr_AGAIN \<equiv> 22"
abbreviation FhgfsOpsErr_STORAGE_SRV_CRASHED :: FhgfsOpsErr where "FhgfsOpsErr_STORAGE_SRV_CRASHED \<equiv> 23"
abbreviation FhgfsOpsErr_PERM :: FhgfsOpsErr where "FhgfsOpsErr_PERM \<equiv> 24"
abbreviation FhgfsOpsErr_DQUOT :: FhgfsOpsErr where "FhgfsOpsErr_DQUOT \<equiv> 25"
abbreviation FhgfsOpsErr_OUTOFMEM :: FhgfsOpsErr where "FhgfsOpsErr_OUTOFMEM \<equiv> 26"
abbreviation FhgfsOpsErr_RANGE :: FhgfsOpsErr where "FhgfsOpsErr_RANGE \<equiv> 27"
abbreviation FhgfsOpsErr_NODATA :: FhgfsOpsErr where "FhgfsOpsErr_NODATA \<equiv> 28"
abbreviation FhgfsOpsErr_NOTSUPP :: FhgfsOpsErr where "FhgfsOpsErr_NOTSUPP \<equiv> 29"
abbreviation FhgfsOpsErr_UNKNOWNPOOL :: FhgfsOpsErr where "FhgfsOpsErr_UNKNOWNPOOL \<equiv> 30"
abbreviation FhgfsOpsErr_TOOLONG :: FhgfsOpsErr where "FhgfsOpsErr_TOOLONG \<equiv> 30"
abbreviation FhgfsOpsErr_METAVERSIONMISMATCH :: FhgfsOpsErr where "FhgfsOpsErr_METAVERSIONMISMATCH \<equiv> 31"
abbreviation FhgfsOpsErr_INODELOCKED :: FhgfsOpsErr where "FhgfsOpsErr_INODELOCKED \<equiv> 32"
abbreviation FhgfsOpsErr_FILEACCESS_DENIED :: FhgfsOpsErr where "FhgfsOpsErr_FILEACCESS_DENIED \<equiv> 33"
abbreviation FhgfsOpsErr_REMOTEIO :: FhgfsOpsErr where "FhgfsOpsErr_REMOTEIO \<equiv> 34"

text \<open>The system errors of Linux in the tables.\<close>

abbreviation sys_EREMOTEIO :: int where "sys_EREMOTEIO \<equiv> 121"
abbreviation sys_EINTR :: int where "sys_EINTR \<equiv> 4"
abbreviation sys_ECOMM :: int where "sys_ECOMM \<equiv> 70"
abbreviation sys_ETIMEDOUT :: int where "sys_ETIMEDOUT \<equiv> 110"
abbreviation sys_EEXIST :: int where "sys_EEXIST \<equiv> 17"
abbreviation sys_ENOENT :: int where "sys_ENOENT \<equiv> 2"
abbreviation sys_EBUSY :: int where "sys_EBUSY \<equiv> 16"
abbreviation sys_ENOTDIR :: int where "sys_ENOTDIR \<equiv> 20"
abbreviation sys_ENOTEMPTY :: int where "sys_ENOTEMPTY \<equiv> 39"
abbreviation sys_ENOSPC :: int where "sys_ENOSPC \<equiv> 28"
abbreviation sys_EWOULDBLOCK :: int where "sys_EWOULDBLOCK \<equiv> 11"
abbreviation sys_EFBIG :: int where "sys_EFBIG \<equiv> 27"
abbreviation sys_EINVAL :: int where "sys_EINVAL \<equiv> 22"
abbreviation sys_EFAULT :: int where "sys_EFAULT \<equiv> 14"
abbreviation sys_EAGAIN :: int where "sys_EAGAIN \<equiv> 11"
abbreviation sys_EPERM :: int where "sys_EPERM \<equiv> 1"
abbreviation sys_EDQUOT :: int where "sys_EDQUOT \<equiv> 122"
abbreviation sys_ENOMEM :: int where "sys_ENOMEM \<equiv> 12"
abbreviation sys_ERANGE :: int where "sys_ERANGE \<equiv> 34"
abbreviation sys_ENODATA :: int where "sys_ENODATA \<equiv> 61"
abbreviation sys_EOPNOTSUPP :: int where "sys_EOPNOTSUPP \<equiv> 95"
abbreviation sys_E2BIG :: int where "sys_E2BIG \<equiv> 7"
abbreviation sys_ESTALE :: int where "sys_ESTALE \<equiv> 116"

section \<open>Tables\<close>

definition client_ERRLIST :: "(string \<times> int) list" where
  "client_ERRLIST =
     [(''Success'', 0),
      (''Internal error'', sys_EREMOTEIO),
      (''Interrupted system call'', sys_EINTR),
      (''Communication error'', sys_ECOMM),
      (''Communication timeout'', sys_ETIMEDOUT),
      (''Unknown node'', sys_EREMOTEIO),
      (''Node is not owner of entry'', sys_EREMOTEIO),
      (''Entry exists already'', sys_EEXIST),
      (''Path does not exist'', sys_ENOENT),
      (''Entry is in use'', sys_EBUSY),
      (''Dynamic attributes of entry are outdated'', sys_EREMOTEIO),
      (''Removed'', 999),
      (''Entry is not a directory'', sys_ENOTDIR),
      (''Directory is not empty'', sys_ENOTEMPTY),
      (''No space left'', sys_ENOSPC),
      (''Unknown storage target'', sys_EREMOTEIO),
      (''Operation would block'', sys_EWOULDBLOCK),
      (''Inode not inlined'', sys_EREMOTEIO),
      (''Underlying file system error'', sys_EREMOTEIO),
      (''Argument too large'', sys_EFBIG),
      (''Invalid argument'', sys_EINVAL),
      (''Bad memory address'', sys_EFAULT),
      (''Try again'', sys_EAGAIN),
      (''Potential cache loss for open file handle. (Server crash detected.)'', sys_EREMOTEIO),
      (''Permission denied'', sys_EPERM),
      (''Quota exceeded'', sys_EDQUOT),
      (''Out of memory'', sys_ENOMEM),
      (''Numerical result out of range'', sys_ERANGE),
      (''No data available'', sys_ENODATA),
      (''Operation not supported'', sys_EOPNOTSUPP),
      (''Argument list too long'', sys_E2BIG),
      (''Metadata version mismatch'', sys_ESTALE),
      (''Inode is locked'', sys_EBUSY),
      (''File access denied by state restrictions'', sys_EWOULDBLOCK),
      (''Remote I/O error'', sys_EREMOTEIO)]"

definition server_ERRLIST :: "(string \<times> int) list" where
  "server_ERRLIST =
     [(''Success'', 0),
      (''Internal error'', sys_EREMOTEIO),
      (''Interrupted system call'', sys_EINTR),
      (''Communication error'', sys_ECOMM),
      (''Communication timeout'', sys_ETIMEDOUT),
      (''Unknown node'', sys_EREMOTEIO),
      (''Node is not owner of entry'', sys_EREMOTEIO),
      (''Entry exists already'', sys_EEXIST),
      (''Path does not exist'', sys_ENOENT),
      (''Entry is in use'', sys_EBUSY),
      (''Dynamic attributes of entry are outdated'', sys_EREMOTEIO),
      (''Removed'', 999),
      (''Entry is not a directory'', sys_ENOTDIR),
      (''Directory is not empty'', sys_ENOTEMPTY),
      (''No space left'', sys_ENOSPC),
      (''Unknown storage target'', sys_EREMOTEIO),
      (''Operation would block'', sys_EWOULDBLOCK),
      (''Inode not inlined'', sys_EREMOTEIO),
      (''Underlying file system error'', sys_EREMOTEIO),
      (''Argument too large'', sys_EFBIG),
      (''Invalid argument'', sys_EINVAL),
      (''Bad memory address'', sys_EFAULT),
      (''Try again'', sys_EAGAIN),
      (''Potential cache loss for open file handle. (Server crash detected.)'', sys_EREMOTEIO),
      (''Permission denied'', sys_EPERM),
      (''Quota exceeded'', sys_EDQUOT),
      (''Out of memory'', sys_ENOMEM),
      (''Numerical result out of range'', sys_ERANGE),
      (''No data available'', sys_ENODATA),
      (''Operation not supported'', sys_EOPNOTSUPP),
      (''Unknown storage pool'', sys_EINVAL),
      (''Metadata version mismatch'', sys_ESTALE),
      (''Inode is locked'', sys_EBUSY),
      (''File access denied by state restrictions'', sys_EWOULDBLOCK),
      (''Remote I/O error'', sys_EREMOTEIO)]"

text \<open>The conversion of a code to an unsigned index, 64 bits wide.\<close>

definition unsignedErrCode :: "FhgfsOpsErr \<Rightarrow> nat" where
  "unsignedErrCode errCode = unat (word_of_int errCode :: u64)"

section \<open>Client\<close>

definition FhgfsOpsErr_toErrString :: "FhgfsOpsErr \<Rightarrow> string" where
  "FhgfsOpsErr_toErrString errCode =
     (if unsignedErrCode errCode < length client_ERRLIST then fst (client_ERRLIST ! unsignedErrCode errCode)
      else ''Unknown error code'')"

definition FhgfsOpsErr_toSysErr :: "FhgfsOpsErr \<Rightarrow> int" where
  "FhgfsOpsErr_toSysErr errCode =
     (if unsignedErrCode errCode < length client_ERRLIST then - snd (client_ERRLIST ! unsignedErrCode errCode) else - sys_EPERM)"

section \<open>Servers\<close>

definition FhgfsOpsErrTk_toSysErr :: "FhgfsOpsErr \<Rightarrow> int" where
  "FhgfsOpsErrTk_toSysErr errCode =
     (if unsignedErrCode errCode < length server_ERRLIST then snd (server_ERRLIST ! unsignedErrCode errCode) else sys_EPERM)"

fun fromSysErr_loop :: "int \<Rightarrow> (string \<times> int) list \<Rightarrow> nat \<Rightarrow> FhgfsOpsErr" where
  "fromSysErr_loop errCode [] i = FhgfsOpsErr_INTERNAL"
| "fromSysErr_loop errCode ((errString, sysErr) # entries) i =
     (if sysErr = errCode then int i else fromSysErr_loop errCode entries (i + 1))"

definition FhgfsOpsErrTk_fromSysErr :: "int \<Rightarrow> FhgfsOpsErr" where
  "FhgfsOpsErrTk_fromSysErr errCode = fromSysErr_loop errCode server_ERRLIST 0"

section \<open>Properties\<close>

lemma fromSysErr_loop_cases:
  "(\<exists>k < length entries. fromSysErr_loop e entries i = int (i + k) \<and> snd (entries ! k) = e \<and> (\<forall>j < k. snd (entries ! j) \<noteq> e)) \<or>
   fromSysErr_loop e entries i = FhgfsOpsErr_INTERNAL \<and> e \<notin> snd ` set entries"
proof (induction entries arbitrary: i)
  case (Cons x entries)
  obtain str sys where x: "x = (str, sys)" by force
  show ?case
  proof (cases "sys = e")
    case False
    from Cons [of "i + 1"] show ?thesis
    proof (elim disjE exE conjE)
      fix k assume k: "k < length entries" "fromSysErr_loop e entries (i + 1) = int (i + 1 + k)" "snd (entries ! k) = e"
        "\<forall>j < k. snd (entries ! j) \<noteq> e"
      then show ?thesis using False by (intro disjI1 exI [of _ "Suc k"]) (auto simp: x less_Suc_eq_0_disj)
    qed (use False in \<open>simp add: x\<close>)
  qed (auto simp: x)
qed simp

lemma unsignedErrCode_small: "unsignedErrCode (int k) = k" if "k < 2 ^ 63"
proof -
  have "unat (word_of_int (int k) :: u64) = k mod 2 ^ 64" by (simp add: unsigned_of_nat flip: of_nat_nat) (simp add: take_bit_eq_mod unat_of_nat)
  then show ?thesis using that by (simp add: unsignedErrCode_def)
qed

lemma unsignedErrCode_eq: "unsignedErrCode c = k \<longleftrightarrow> c = int k" if "- (2 ^ 31) \<le> c" "c < 2 ^ 31" "k < 2 ^ 31"
proof
  assume k: "unsignedErrCode c = k"
  have "int (unsignedErrCode c) = c mod 2 ^ 64" by (simp add: unsignedErrCode_def unsigned_of_int take_bit_eq_mod)
  then have e: "c mod 2 ^ 64 = int k" using k by simp
  show "c = int k"
  proof (cases "0 \<le> c")
    case True
    with that(2) e show ?thesis by simp
  next
    case False
    then have "(c + 2 ^ 64) mod 2 ^ 64 = c + 2 ^ 64" using that(1) by (intro mod_pos_pos_trivial) simp_all
    with e that show ?thesis by simp
  qed
qed (use that(3) unsignedErrCode_small [of k] in simp)

lemma tables_agree: "k < 35 \<Longrightarrow> snd (client_ERRLIST ! k) = snd (server_ERRLIST ! k) \<longleftrightarrow> k \<noteq> 30"
proof -
  have "list_all (\<lambda>k. snd (client_ERRLIST ! k) = snd (server_ERRLIST ! k) \<longleftrightarrow> k \<noteq> 30) [0..<35]" by code_simp
  then show "k < 35 \<Longrightarrow> ?thesis" by (simp add: list_all_iff)
qed

lemma tables_length: "length client_ERRLIST = 35" "length server_ERRLIST = 35"
  by (simp_all add: client_ERRLIST_def server_ERRLIST_def)

text \<open>
  C39. The client shows the caller the system error that the server's own table gives for a received code, for every 32-bit code
  except one: 30, an unknown storage pool for the servers, is an argument list that is too long for the client.
\<close>

theorem sys_err_agree_iff:
  assumes "- (2 ^ 31) \<le> c" "c < 2 ^ 31"
  shows "FhgfsOpsErr_toSysErr c = - FhgfsOpsErrTk_toSysErr c \<longleftrightarrow> c \<noteq> FhgfsOpsErr_UNKNOWNPOOL"
proof (cases "unsignedErrCode c < 35")
  case True
  then show ?thesis using tables_agree [of "unsignedErrCode c"] unsignedErrCode_eq [OF assms, of 30]
    by (simp add: FhgfsOpsErr_toSysErr_def FhgfsOpsErrTk_toSysErr_def tables_length)
next
  case False
  then show ?thesis using unsignedErrCode_eq [OF assms, of 30]
    by (auto simp: FhgfsOpsErr_toSysErr_def FhgfsOpsErrTk_toSysErr_def tables_length)
qed

theorem sys_err_agree_iff_witness:
  "FhgfsOpsErr_toSysErr FhgfsOpsErr_WOULDBLOCK = - FhgfsOpsErrTk_toSysErr FhgfsOpsErr_WOULDBLOCK \<and>
   FhgfsOpsErr_toSysErr FhgfsOpsErr_UNKNOWNPOOL \<noteq> - FhgfsOpsErrTk_toSysErr FhgfsOpsErr_UNKNOWNPOOL"
  using sys_err_agree_iff [of FhgfsOpsErr_WOULDBLOCK] sys_err_agree_iff [of FhgfsOpsErr_UNKNOWNPOOL] by simp

text \<open>
  On the servers the translation of a system error to a code and back gives the error again if it is in the table, and the generic
  error otherwise. Of several codes with the same error the first is taken.
\<close>

theorem sys_err_round_trip:
  "FhgfsOpsErrTk_toSysErr (FhgfsOpsErrTk_fromSysErr e) = (if e \<in> snd ` set server_ERRLIST then e else sys_EREMOTEIO) \<and>
   (\<forall>c \<in> {0..<35}. FhgfsOpsErrTk_toSysErr (int c) = e \<longrightarrow> FhgfsOpsErrTk_fromSysErr e \<le> int c)"
proof -
  have code: "FhgfsOpsErrTk_toSysErr (int k) = snd (server_ERRLIST ! k)" if "k < 35" for k
    using that by (simp add: FhgfsOpsErrTk_toSysErr_def unsignedErrCode_small tables_length)
  from fromSysErr_loop_cases [of server_ERRLIST e 0] show ?thesis
  proof (elim disjE exE conjE)
    fix k assume k: "k < length server_ERRLIST" "fromSysErr_loop e server_ERRLIST 0 = int (0 + k)" "snd (server_ERRLIST ! k) = e"
      "\<forall>j < k. snd (server_ERRLIST ! j) \<noteq> e"
    then have "e \<in> snd ` set server_ERRLIST" by (metis image_eqI nth_mem)
    moreover have "k \<le> c" if "c < 35" "FhgfsOpsErrTk_toSysErr (int c) = e" for c
      using k(4) that by (metis code leI)
    ultimately show ?thesis using k code by (simp add: FhgfsOpsErrTk_fromSysErr_def tables_length)
  next
    assume n: "fromSysErr_loop e server_ERRLIST 0 = FhgfsOpsErr_INTERNAL" "e \<notin> snd ` set server_ERRLIST"
    have "snd (server_ERRLIST ! c) \<noteq> e" if "c < 35" for c
      using n(2) that by (metis image_eqI nth_mem tables_length(2))
    moreover have "snd (server_ERRLIST ! 1) = sys_EREMOTEIO" by (simp add: server_ERRLIST_def)
    ultimately show ?thesis using n code [of 1] code by (simp add: FhgfsOpsErrTk_fromSysErr_def)
  qed
qed

end
