(* ===== verification/Buddy_Mapper.thy ===== *)
theory Buddy_Mapper
  imports Target_Stores Buddy_Sequence Storage_Errors
begin

text \<open>
  The buddy groups the client knows
  (\<^verbatim>\<open>client_module/source/common/nodes/MirrorBuddyGroupMapper.c\<close>): lookups of targets and
  groups, the synchronisation with a received list, adding a single group, and the combined
  update of target states and groups (\<^verbatim>\<open>TargetStateStore.c\<close>). Every operation runs under the
  mapper's lock. A group that leaves the mapper loses the mapper's reference; what that leaves
  of it is returned in a list.
\<close>

section \<open>Operations\<close>

record MirrorBuddyGroupMapper =
  mm_groups :: "MirrorBuddyGroup list"

definition MirrorBuddyGroupMapper_init :: MirrorBuddyGroupMapper where
  "MirrorBuddyGroupMapper_init = \<lparr>mm_groups = []\<rparr>"

definition MirrorBuddyGroupMapper_clear ::
    "MirrorBuddyGroupMapper \<Rightarrow> MirrorBuddyGroup option list \<times> MirrorBuddyGroupMapper" where
  "MirrorBuddyGroupMapper_clear this =
     (map MirrorBuddyGroup_put (mm_groups this), this\<lparr>mm_groups := []\<rparr>)"

definition MirrorBuddyGroupMapper_getPrimaryTargetID :: "u16 \<Rightarrow> MirrorBuddyGroupMapper \<Rightarrow> u16" where
  "MirrorBuddyGroupMapper_getPrimaryTargetID mirrorBuddyGroupID this =
     (case rb_find bg_groupID mirrorBuddyGroupID (mm_groups this) of
        Some buddyGroup \<Rightarrow> bg_firstTargetID buddyGroup
      | None \<Rightarrow> 0)"

definition MirrorBuddyGroupMapper_getSecondaryTargetID :: "u16 \<Rightarrow> MirrorBuddyGroupMapper \<Rightarrow> u16" where
  "MirrorBuddyGroupMapper_getSecondaryTargetID mirrorBuddyGroupID this =
     (case rb_find bg_groupID mirrorBuddyGroupID (mm_groups this) of
        Some buddyGroup \<Rightarrow> bg_secondTargetID buddyGroup
      | None \<Rightarrow> 0)"

definition MirrorBuddyGroupMapper_getBuddyGroupIDUnlocked :: "u16 \<Rightarrow> MirrorBuddyGroupMapper \<Rightarrow> u16" where
  "MirrorBuddyGroupMapper_getBuddyGroupIDUnlocked targetID this =
     (case find (\<lambda>g. bg_firstTargetID g = targetID \<or> bg_secondTargetID g = targetID) (mm_groups this) of
        Some buddyGroup \<Rightarrow> bg_groupID buddyGroup
      | None \<Rightarrow> 0)"

definition MirrorBuddyGroupMapper_getBuddyGroupID :: "u16 \<Rightarrow> MirrorBuddyGroupMapper \<Rightarrow> u16" where
  "MirrorBuddyGroupMapper_getBuddyGroupID targetID this =
     MirrorBuddyGroupMapper_getBuddyGroupIDUnlocked targetID this"

text \<open>
  Acquiring a sequence number does not wait while it holds the lock of the mapper. When no slot
  is free it keeps a reference to the group and waits without the lock; both parts are separate
  here, because the group may change in between.
\<close>

datatype mapper_acquire =
    NoGroup
  | MapperAcquired "(u64 \<times> u64 \<times> bool) option" MirrorBuddyGroupMapper handles
  | MustWait MirrorBuddyGroupMapper

definition mm_update :: "MirrorBuddyGroup \<Rightarrow> MirrorBuddyGroupMapper \<Rightarrow> MirrorBuddyGroupMapper" where
  "mm_update g this =
     this\<lparr>mm_groups := map (\<lambda>x. if bg_groupID x = bg_groupID g then g else x) (mm_groups this)\<rparr>"

definition MirrorBuddyGroupMapper_acquireSequenceNumber ::
    "u16 \<Rightarrow> nat \<Rightarrow> MirrorBuddyGroupMapper \<Rightarrow> handles \<Rightarrow> mapper_acquire" where
  "MirrorBuddyGroupMapper_acquireSequenceNumber mirrorBuddyGroupID handle this hp =
     (case rb_find bg_groupID mirrorBuddyGroupID (mm_groups this) of
        None \<Rightarrow> NoGroup
      | Some buddyGroup \<Rightarrow>
          (case MirrorBuddyGroup_acquireSequenceNumber handle False False buddyGroup hp of
             Acquired q a sel g hp' \<Rightarrow> MapperAcquired (Some (q, a, sel)) (mm_update g this) hp'
           | NoBase g hp' \<Rightarrow> MapperAcquired None (mm_update g this) hp'
           | _ \<Rightarrow> MustWait (mm_update (buddyGroup\<lparr>bg_refs := bg_refs buddyGroup + 1\<rparr>) this)))"

datatype mapper_wait =
    StillWaiting
  | Interrupted "MirrorBuddyGroup option"
  | WaitDone "(u64 \<times> u64 \<times> bool) option" "MirrorBuddyGroup option" handles

definition acquireWaiting :: "nat \<Rightarrow> bool \<Rightarrow> MirrorBuddyGroup \<Rightarrow> handles \<Rightarrow> mapper_wait" where
  "acquireWaiting handle killed buddyGroup hp =
     (case MirrorBuddyGroup_acquireSequenceNumber handle True killed buddyGroup hp of
        Waiting \<Rightarrow> StillWaiting
      | Failed e \<Rightarrow> Interrupted (MirrorBuddyGroup_put buddyGroup)
      | NoBase g hp' \<Rightarrow> WaitDone None (MirrorBuddyGroup_put g) hp'
      | Acquired q a sel g hp' \<Rightarrow> WaitDone (Some (q, a, sel)) (MirrorBuddyGroup_put g) hp')"

text \<open>
  The synchronisation moves the groups that are in the list over to the new tree, with their
  sequence numbers, and constructs the others. A failed construction leaves a null pointer that
  is put on the list: the result \<^const>\<open>None\<close>.
\<close>

fun syncGroupsLoop ::
    "u16 \<Rightarrow> BuddyGroupMapping list \<Rightarrow> MirrorBuddyGroup list \<Rightarrow> MirrorBuddyGroup list
       \<Rightarrow> (MirrorBuddyGroup list \<times> MirrorBuddyGroup list) option" where
  "syncGroupsLoop connMaxInternodeNum [] t newGroups = Some (t, newGroups)"
| "syncGroupsLoop connMaxInternodeNum (mapping # mappings) t newGroups =
     (case rb_find bg_groupID (bm_groupID mapping) t of
        Some grp \<Rightarrow>
          syncGroupsLoop connMaxInternodeNum mappings (rb_erase bg_groupID grp t)
            (newGroups @ [grp\<lparr>bg_firstTargetID := bm_primaryTargetID mapping,
                                bg_secondTargetID := bm_secondaryTargetID mapping\<rparr>])
      | None \<Rightarrow>
          (case MirrorBuddyGroup_constructFromTargetIDs (bm_groupID mapping) connMaxInternodeNum
                  (bm_primaryTargetID mapping) (bm_secondaryTargetID mapping) of
             None \<Rightarrow> None
           | Some grp \<Rightarrow> syncGroupsLoop connMaxInternodeNum mappings t (newGroups @ [grp])))"

fun insertNewGroups ::
    "MirrorBuddyGroup list \<Rightarrow> MirrorBuddyGroup list \<Rightarrow> MirrorBuddyGroup option list
       \<Rightarrow> MirrorBuddyGroup option list \<times> MirrorBuddyGroup list" where
  "insertNewGroups [] t dropped = (dropped, t)"
| "insertNewGroups (pos # newGroups) t dropped =
     (case rb_insertOrReplace bg_groupID pos t of
        (None, t') \<Rightarrow> insertNewGroups newGroups t' dropped
      | (Some replaced, t') \<Rightarrow> insertNewGroups newGroups t' (dropped @ [MirrorBuddyGroup_put replaced]))"

definition MirrorBuddyGroupMapper_syncGroupsUnlocked ::
    "u16 \<Rightarrow> BuddyGroupMapping list \<Rightarrow> MirrorBuddyGroupMapper
       \<Rightarrow> (MirrorBuddyGroup option list \<times> MirrorBuddyGroupMapper) option" where
  "MirrorBuddyGroupMapper_syncGroupsUnlocked connMaxInternodeNum groups this =
     (case syncGroupsLoop connMaxInternodeNum groups (mm_groups this) [] of
        None \<Rightarrow> None
      | Some (t, newGroups) \<Rightarrow>
          (let (dropped, this) = MirrorBuddyGroupMapper_clear (this\<lparr>mm_groups := t\<rparr>);
               (dropped, t) = insertNewGroups newGroups (mm_groups this) dropped
           in Some (dropped, this\<lparr>mm_groups := t\<rparr>)))"

definition MirrorBuddyGroupMapper_syncGroups ::
    "u16 \<Rightarrow> BuddyGroupMapping list \<Rightarrow> MirrorBuddyGroupMapper
       \<Rightarrow> (MirrorBuddyGroup option list \<times> MirrorBuddyGroupMapper) option" where
  "MirrorBuddyGroupMapper_syncGroups = MirrorBuddyGroupMapper_syncGroupsUnlocked"

definition MirrorBuddyGroupMapper_addGroup ::
    "u16 \<Rightarrow> TargetMapper option \<Rightarrow> u16 \<Rightarrow> u16 \<Rightarrow> u16 \<Rightarrow> bool \<Rightarrow> MirrorBuddyGroupMapper
       \<Rightarrow> FhgfsOpsErr \<times> MirrorBuddyGroupMapper" where
  "MirrorBuddyGroupMapper_addGroup connMaxInternodeNum targetMapper buddyGroupID primaryTargetID
     secondaryTargetID allowUpdate this =
     (if buddyGroupID = 0 then (FhgfsOpsErr_INVAL, this)
      else if \<not> allowUpdate \<and> rb_find bg_groupID buddyGroupID (mm_groups this) \<noteq> None
      then (FhgfsOpsErr_EXISTS, this)
      else if (case targetMapper of
                 None \<Rightarrow> False
               | Some tm \<Rightarrow> TargetMapper_getNodeID primaryTargetID tm = 0 \<or>
                            TargetMapper_getNodeID secondaryTargetID tm = 0)
      then (FhgfsOpsErr_UNKNOWNTARGET, this)
      else
        (let primaryInGroup = MirrorBuddyGroupMapper_getBuddyGroupIDUnlocked primaryTargetID this;
             secondaryInGroup = MirrorBuddyGroupMapper_getBuddyGroupIDUnlocked secondaryTargetID this
         in
         if primaryInGroup \<noteq> 0 \<and> primaryInGroup \<noteq> buddyGroupID \<or>
            secondaryInGroup \<noteq> 0 \<and> secondaryInGroup \<noteq> buddyGroupID
         then (FhgfsOpsErr_INUSE, this)
         else
           (case MirrorBuddyGroup_constructFromTargetIDs buddyGroupID connMaxInternodeNum
                   primaryTargetID secondaryTargetID of
              None \<Rightarrow> (FhgfsOpsErr_OUTOFMEM, this)
            | Some buddyGroup \<Rightarrow>
                (FhgfsOpsErr_SUCCESS,
                 this\<lparr>mm_groups := snd (rb_insert bg_groupID buddyGroup (mm_groups this))\<rparr>))))"

definition TargetStateStore_syncStatesAndGroupsFromLists ::
    "u16 \<Rightarrow> TargetStateMapping list \<Rightarrow> BuddyGroupMapping list \<Rightarrow> TargetStateStore \<Rightarrow> MirrorBuddyGroupMapper
       \<Rightarrow> (TargetStateStore \<times> MirrorBuddyGroup option list \<times> MirrorBuddyGroupMapper) option" where
  "TargetStateStore_syncStatesAndGroupsFromLists connMaxInternodeNum states groups this buddyGroups =
     (case MirrorBuddyGroupMapper_syncGroupsUnlocked connMaxInternodeNum groups buddyGroups of
        None \<Rightarrow> None
      | Some (dropped, buddyGroups) \<Rightarrow>
          Some (TargetStateStore_syncStatesUnlocked states this, dropped, buddyGroups))"

section \<open>Synchronisation\<close>

definition mapper_ok :: "MirrorBuddyGroupMapper \<Rightarrow> bool" where
  "mapper_ok this \<longleftrightarrow> rb_tree bg_groupID (mm_groups this)"

lemma construct_fields:
  assumes "MirrorBuddyGroup_constructFromTargetIDs i n f s = Some g"
  shows "bg_groupID g = i" "bg_firstTargetID g = f" "bg_secondTargetID g = s"
  using assms by (auto simp: MirrorBuddyGroup_constructFromTargetIDs_def split: if_splits)

lemma construct_Some: "n \<noteq> 0 \<Longrightarrow> \<exists>g. MirrorBuddyGroup_constructFromTargetIDs i n f s = Some g"
  by (simp add: MirrorBuddyGroup_constructFromTargetIDs_def)

abbreviation maps_to :: "BuddyGroupMapping \<Rightarrow> MirrorBuddyGroup \<Rightarrow> bool" where
  "maps_to m g \<equiv> bg_groupID g = bm_groupID m \<and> bg_firstTargetID g = bm_primaryTargetID m \<and>
     bg_secondTargetID g = bm_secondaryTargetID m"

lemma syncGroupsLoop_targets:
  assumes "n \<noteq> 0" "rb_tree bg_groupID t"
  shows "\<exists>t' gs. syncGroupsLoop n ms t new = Some (t', new @ gs) \<and> list_all2 maps_to ms gs"
  using assms
proof (induction n ms t new rule: syncGroupsLoop.induct)
  case (2 n m ms t new)
  show ?case
  proof (cases "rb_find bg_groupID (bm_groupID m) t")
    case None
    obtain g where g: "MirrorBuddyGroup_constructFromTargetIDs (bm_groupID m) n (bm_primaryTargetID m)
        (bm_secondaryTargetID m) = Some g" using construct_Some "2.prems"(1) by blast
    obtain t' gs where "syncGroupsLoop n ms t (new @ [g]) = Some (t', (new @ [g]) @ gs)" "list_all2 maps_to ms gs"
      using "2.IH"(1) [OF None g "2.prems"] by blast
    then have "syncGroupsLoop n (m # ms) t new = Some (t', new @ g # gs) \<and> list_all2 maps_to (m # ms) (g # gs)"
      using None g construct_fields [OF g] by simp
    then show ?thesis by (intro exI)
  next
    case (Some old)
    have old: "bg_groupID old = bm_groupID m" using rb_find_Some [OF "2.prems"(2)] Some by simp
    let ?g = "old\<lparr>bg_firstTargetID := bm_primaryTargetID m, bg_secondTargetID := bm_secondaryTargetID m\<rparr>"
    obtain t' gs where "syncGroupsLoop n ms (rb_erase bg_groupID old t) (new @ [?g]) = Some (t', (new @ [?g]) @ gs)"
      "list_all2 maps_to ms gs"
      using "2.IH"(2) [OF Some "2.prems"(1) rb_erase_tree [OF "2.prems"(2)]] by blast
    then have "syncGroupsLoop n (m # ms) t new = Some (t', new @ ?g # gs) \<and> list_all2 maps_to (m # ms) (?g # gs)"
      using Some old by simp
    then show ?thesis by (intro exI)
  qed
qed simp

lemma syncGroupsLoop_prefix: "syncGroupsLoop n ms t new = Some (t', gs) \<Longrightarrow> \<exists>gs'. gs = new @ gs'"
proof (induction n ms t new rule: syncGroupsLoop.induct)
  case (2 n m ms t new)
  then show ?case by (auto split: option.splits)
qed simp

text \<open>A group that is named once keeps everything but its targets.\<close>

definition kept_from :: "MirrorBuddyGroup list \<Rightarrow> BuddyGroupMapping \<Rightarrow> MirrorBuddyGroup \<Rightarrow> bool" where
  "kept_from t m g \<longleftrightarrow>
     (\<forall>old. rb_find bg_groupID (bm_groupID m) t = Some old \<longrightarrow>
        g = old\<lparr>bg_firstTargetID := bm_primaryTargetID m, bg_secondTargetID := bm_secondaryTargetID m\<rparr>)"

lemma syncGroupsLoop_kept:
  assumes "syncGroupsLoop n ms t new = Some (t', new @ gs)" "rb_tree bg_groupID t" "distinct (map bm_groupID ms)"
  shows "list_all2 (kept_from t) ms gs"
  using assms
proof (induction ms arbitrary: t new gs)
  case (Cons m ms)
  show ?case
  proof (cases "rb_find bg_groupID (bm_groupID m) t")
    case None
    with Cons.prems(1) obtain g where
      loop: "syncGroupsLoop n ms t (new @ [g]) = Some (t', new @ gs)" by (auto split: option.splits)
    obtain gs' where gs: "gs = g # gs'" using syncGroupsLoop_prefix [OF loop] by auto
    then have "list_all2 (kept_from t) ms gs'" using Cons.IH [of t "new @ [g]" gs'] loop Cons.prems(2,3) by simp
    moreover have "kept_from t m g" using None by (simp add: kept_from_def)
    ultimately show ?thesis using gs by simp
  next
    case (Some old)
    let ?g = "old\<lparr>bg_firstTargetID := bm_primaryTargetID m, bg_secondTargetID := bm_secondaryTargetID m\<rparr>"
    have old: "bg_groupID old = bm_groupID m" using rb_find_Some [OF Cons.prems(2)] Some by simp
    have loop: "syncGroupsLoop n ms (rb_erase bg_groupID old t) (new @ [?g]) = Some (t', new @ gs)"
      using Cons.prems(1) Some by simp
    obtain gs' where gs: "gs = ?g # gs'" using syncGroupsLoop_prefix [OF loop] by auto
    have "list_all2 (kept_from (rb_erase bg_groupID old t)) ms gs'"
      using Cons.IH [of "rb_erase bg_groupID old t" "new @ [?g]" gs'] loop gs Cons.prems(3)
        rb_erase_tree [OF Cons.prems(2), of old] by simp
    moreover have "kept_from (rb_erase bg_groupID old t) m' g \<longleftrightarrow> kept_from t m' g" if "m' \<in> set ms" for m' g
    proof -
      have "bm_groupID m' \<noteq> bg_groupID old" using Cons.prems(3) that old by (metis distinct.simps(2) image_eqI list.simps(9) list.set_map)
      then show ?thesis by (simp add: kept_from_def rb_find_erased [OF Cons.prems(2)])
    qed
    ultimately have "list_all2 (kept_from t) ms gs'" by (metis list.rel_mono_strong)
    moreover have "kept_from t m ?g" using Some by (simp add: kept_from_def)
    ultimately show ?thesis using gs by simp
  qed
qed simp

lemma insertNewGroups_fold:
  "snd (insertNewGroups gs t dropped) = fold (\<lambda>e t. snd (rb_insertOrReplace bg_groupID e t)) gs t"
  by (induction gs t dropped rule: insertNewGroups.induct) (simp_all split: prod.split option.split)

lemma find_list_all2:
  assumes "list_all2 P ms gs" "\<And>m g. P m g \<Longrightarrow> key g = key' m"
  shows "rel_option P (find (\<lambda>m. key' m = k) ms) (find (\<lambda>g. key g = k) gs)"
  using assms(1) by (induction rule: list_all2_induct) (auto dest: assms(2))

lemma sync_effect:
  assumes "connMaxInternodeNum \<noteq> 0" "mapper_ok this"
  obtains dropped this' where
    "MirrorBuddyGroupMapper_syncGroupsUnlocked connMaxInternodeNum groups this = Some (dropped, this')"
    "mapper_ok this'"
    "\<And>k. rel_option maps_to (find (\<lambda>m. bm_groupID m = k) (rev groups)) (rb_find bg_groupID k (mm_groups this'))"
    "\<And>k. distinct (map bm_groupID groups) \<Longrightarrow>
       rel_option (kept_from (mm_groups this)) (find (\<lambda>m. bm_groupID m = k) (rev groups)) (rb_find bg_groupID k (mm_groups this'))"
proof -
  obtain t' gs where loop: "syncGroupsLoop connMaxInternodeNum groups (mm_groups this) [] = Some (t', gs)"
    and targets: "list_all2 maps_to groups gs"
    using syncGroupsLoop_targets [OF assms(1), of "mm_groups this" groups "[]"] assms(2) by (auto simp: mapper_ok_def)
  define t where "t = fold (\<lambda>e t. snd (rb_insertOrReplace bg_groupID e t)) gs []"
  obtain dropped where ins: "insertNewGroups gs [] (map MirrorBuddyGroup_put t') = (dropped, t)"
    using insertNewGroups_fold [of gs "[]" "map MirrorBuddyGroup_put t'"]
    by (cases "insertNewGroups gs [] (map MirrorBuddyGroup_put t')") (simp add: t_def)
  have look: "rb_find bg_groupID k t = find (\<lambda>g. bg_groupID g = k) (rev gs)" for k
    unfolding t_def by (rule rb_find_fold)
  show thesis
  proof (rule that [of dropped "this\<lparr>mm_groups := t\<rparr>"])
    show "MirrorBuddyGroupMapper_syncGroupsUnlocked connMaxInternodeNum groups this = Some (dropped, this\<lparr>mm_groups := t\<rparr>)"
      by (simp add: MirrorBuddyGroupMapper_syncGroupsUnlocked_def loop MirrorBuddyGroupMapper_clear_def ins)
    show "mapper_ok (this\<lparr>mm_groups := t\<rparr>)" by (simp add: mapper_ok_def t_def rb_store.inv_fold)
    show "rel_option maps_to (find (\<lambda>m. bm_groupID m = k) (rev groups))
        (rb_find bg_groupID k (mm_groups (this\<lparr>mm_groups := t\<rparr>)))" for k
      using find_list_all2 [of maps_to "rev groups" "rev gs" bg_groupID bm_groupID k] targets
      by (simp add: look)
    show "rel_option (kept_from (mm_groups this)) (find (\<lambda>m. bm_groupID m = k) (rev groups))
        (rb_find bg_groupID k (mm_groups (this\<lparr>mm_groups := t\<rparr>)))" if "distinct (map bm_groupID groups)" for k
    proof -
      have "list_all2 (kept_from (mm_groups this)) groups gs"
        using syncGroupsLoop_kept [of connMaxInternodeNum groups "mm_groups this" "[]" t' gs] loop assms(2) that
        by (simp add: mapper_ok_def)
      with targets have "list_all2 (\<lambda>m g. kept_from (mm_groups this) m g \<and> maps_to m g) groups gs"
        by (simp add: list_all2_conv_all_nth)
      then have "rel_option (\<lambda>m g. kept_from (mm_groups this) m g \<and> maps_to m g)
          (find (\<lambda>m. bm_groupID m = k) (rev groups)) (find (\<lambda>g. bg_groupID g = k) (rev gs))"
        by (intro find_list_all2) simp_all
      then show ?thesis by (simp add: look) (auto simp: rel_option_iff split: option.splits)
    qed
  qed
qed

section \<open>Adding a group\<close>

definition group_targets :: "MirrorBuddyGroup \<Rightarrow> u16 set" where
  "group_targets g = {bg_firstTargetID g, bg_secondTargetID g}"

text \<open>No target is in two groups, and no group has the identifier that means none.\<close>

definition targets_unique :: "MirrorBuddyGroupMapper \<Rightarrow> bool" where
  "targets_unique this \<longleftrightarrow>
     (\<forall>g \<in> set (mm_groups this). bg_groupID g \<noteq> 0) \<and>
     (\<forall>g \<in> set (mm_groups this). \<forall>g' \<in> set (mm_groups this). group_targets g \<inter> group_targets g' \<noteq> {} \<longrightarrow> g = g')"

lemma find_in: "find P xs = Some x \<Longrightarrow> x \<in> set xs \<and> P x"
  by (induction xs) (auto split: if_splits)

lemma getBuddyGroupID_other:
  assumes "targets_unique this" "g \<in> set (mm_groups this)" "t \<in> group_targets g"
  shows "MirrorBuddyGroupMapper_getBuddyGroupIDUnlocked t this = bg_groupID g"
proof -
  have "find (\<lambda>g. bg_firstTargetID g = t \<or> bg_secondTargetID g = t) (mm_groups this) \<noteq> None"
    using assms(2,3) by (auto simp: find_None_iff group_targets_def)
  then obtain g' where g': "find (\<lambda>g. bg_firstTargetID g = t \<or> bg_secondTargetID g = t) (mm_groups this) = Some g'"
    by blast
  have "g' \<in> set (mm_groups this)" "t \<in> group_targets g'"
    using find_in [OF g'] by (auto simp: group_targets_def)
  with assms have "g' = g" unfolding targets_unique_def by blast
  with g' show ?thesis by (simp add: MirrorBuddyGroupMapper_getBuddyGroupIDUnlocked_def)
qed

lemma addGroup_cases:
  fixes n tm gid p s allow this
  defines "r \<equiv> MirrorBuddyGroupMapper_addGroup n tm gid p s allow this"
  obtains (failed) "snd r = this" "fst r \<noteq> FhgfsOpsErr_SUCCESS"
  | (inserted) g where "r = (FhgfsOpsErr_SUCCESS, this\<lparr>mm_groups := snd (rb_insert bg_groupID g (mm_groups this))\<rparr>)"
      "MirrorBuddyGroup_constructFromTargetIDs gid n p s = Some g" "gid \<noteq> 0"
      "\<And>t. t = p \<or> t = s \<Longrightarrow> MirrorBuddyGroupMapper_getBuddyGroupIDUnlocked t this \<in> {0, gid}"
proof (cases "fst r = FhgfsOpsErr_SUCCESS")
  case True
  then have *: "gid \<noteq> 0" "MirrorBuddyGroup_constructFromTargetIDs gid n p s \<noteq> None"
    "\<And>t. t = p \<or> t = s \<Longrightarrow> MirrorBuddyGroupMapper_getBuddyGroupIDUnlocked t this \<in> {0, gid}"
    unfolding r_def MirrorBuddyGroupMapper_addGroup_def by (auto simp: Let_def split: if_splits option.splits)
  then obtain g where g: "MirrorBuddyGroup_constructFromTargetIDs gid n p s = Some g" by blast
  have "r = (FhgfsOpsErr_SUCCESS, this\<lparr>mm_groups := snd (rb_insert bg_groupID g (mm_groups this))\<rparr>)"
    using True g unfolding r_def MirrorBuddyGroupMapper_addGroup_def
    by (auto simp: Let_def split: if_splits option.splits)
  with g * show thesis using inserted by blast
next
  case False
  then have "snd r = this"
    unfolding r_def MirrorBuddyGroupMapper_addGroup_def by (auto simp: Let_def split: if_splits option.splits)
  with False show thesis using failed by blast
qed

lemma targets_unique_insert:
  assumes u: "targets_unique this" and fresh: "\<forall>e \<in> set (mm_groups this). bg_groupID e \<noteq> bg_groupID g"
    and g0: "bg_groupID g \<noteq> 0"
    and free: "\<And>t. t \<in> group_targets g \<Longrightarrow> MirrorBuddyGroupMapper_getBuddyGroupIDUnlocked t this \<in> {0, bg_groupID g}"
    and t: "set t' = insert g (set (mm_groups this))"
  shows "targets_unique (this\<lparr>mm_groups := t'\<rparr>)"
proof -
  have "group_targets g \<inter> group_targets e = {}" if e: "e \<in> set (mm_groups this)" for e
  proof (rule ccontr)
    assume "group_targets g \<inter> group_targets e \<noteq> {}"
    then obtain x where x: "x \<in> group_targets g" "x \<in> group_targets e" by blast
    have "MirrorBuddyGroupMapper_getBuddyGroupIDUnlocked x this = bg_groupID e"
      by (rule getBuddyGroupID_other [OF u e x(2)])
    with free [OF x(1)] fresh e u show False by (auto simp: targets_unique_def)
  qed
  with u g0 t show ?thesis unfolding targets_unique_def by (auto simp: Int_commute)
qed

lemma rb_find_update_self: "rb_tree key t \<Longrightarrow> \<forall>e \<in> set t. key e \<noteq> key d \<Longrightarrow>
    set (snd (rb_insert key d t)) = insert d (set t)"
  using rb_insertOrReplace_set [of key t d] by (auto simp: rb_insert_fresh)

section \<open>Properties\<close>

text \<open>
  C38. After a synchronisation every group lookup answers with the targets of the last received
  entry for the group, or 0. When no group is named twice, a known group keeps everything else,
  in particular its sequence numbers in flight.
\<close>

theorem buddy_sync_functional:
  assumes "connMaxInternodeNum \<noteq> 0" "mapper_ok this"
  shows "\<exists>dropped this'.
    MirrorBuddyGroupMapper_syncGroups connMaxInternodeNum groups this = Some (dropped, this') \<and> mapper_ok this' \<and>
    (\<forall>k. MirrorBuddyGroupMapper_getPrimaryTargetID k this' =
           (case find (\<lambda>m. bm_groupID m = k) (rev groups) of Some m \<Rightarrow> bm_primaryTargetID m | None \<Rightarrow> 0) \<and>
         MirrorBuddyGroupMapper_getSecondaryTargetID k this' =
           (case find (\<lambda>m. bm_groupID m = k) (rev groups) of Some m \<Rightarrow> bm_secondaryTargetID m | None \<Rightarrow> 0)) \<and>
    (distinct (map bm_groupID groups) \<longrightarrow>
       (\<forall>k old m. rb_find bg_groupID k (mm_groups this) = Some old \<and> find (\<lambda>m. bm_groupID m = k) (rev groups) = Some m \<longrightarrow>
          rb_find bg_groupID k (mm_groups this') =
            Some (old\<lparr>bg_firstTargetID := bm_primaryTargetID m, bg_secondTargetID := bm_secondaryTargetID m\<rparr>)))"
proof -
  obtain dropped this' where sync: "MirrorBuddyGroupMapper_syncGroupsUnlocked connMaxInternodeNum groups this = Some (dropped, this')"
    "mapper_ok this'"
    and targets: "\<And>k. rel_option maps_to (find (\<lambda>m. bm_groupID m = k) (rev groups)) (rb_find bg_groupID k (mm_groups this'))"
    and kept: "\<And>k. distinct (map bm_groupID groups) \<Longrightarrow>
       rel_option (kept_from (mm_groups this)) (find (\<lambda>m. bm_groupID m = k) (rev groups)) (rb_find bg_groupID k (mm_groups this'))"
    by (rule sync_effect [OF assms]) blast
  have look: "MirrorBuddyGroupMapper_getPrimaryTargetID k this' =
        (case find (\<lambda>m. bm_groupID m = k) (rev groups) of Some m \<Rightarrow> bm_primaryTargetID m | None \<Rightarrow> 0) \<and>
      MirrorBuddyGroupMapper_getSecondaryTargetID k this' =
        (case find (\<lambda>m. bm_groupID m = k) (rev groups) of Some m \<Rightarrow> bm_secondaryTargetID m | None \<Rightarrow> 0)" for k
    using targets [of k]
    by (auto simp: MirrorBuddyGroupMapper_getPrimaryTargetID_def MirrorBuddyGroupMapper_getSecondaryTargetID_def
        rel_option_iff split: option.splits)
  have keep: "rb_find bg_groupID k (mm_groups this') =
      Some (old\<lparr>bg_firstTargetID := bm_primaryTargetID m, bg_secondTargetID := bm_secondaryTargetID m\<rparr>)"
    if d: "distinct (map bm_groupID groups)" and old: "rb_find bg_groupID k (mm_groups this) = Some old"
      and m: "find (\<lambda>m. bm_groupID m = k) (rev groups) = Some m" for k old m
  proof -
    obtain g where g: "rb_find bg_groupID k (mm_groups this') = Some g" "kept_from (mm_groups this) m g"
      using kept [OF d, of k] m by (auto simp: rel_option_iff split: option.splits)
    moreover have "bm_groupID m = k" using find_in [OF m] by simp
    ultimately show ?thesis using old by (simp add: kept_from_def)
  qed
  show ?thesis using sync look keep unfolding MirrorBuddyGroupMapper_syncGroups_def by blast
qed

theorem buddy_sync_functional_witness:
  "\<exists>dropped this'. MirrorBuddyGroupMapper_syncGroups 8
     [\<lparr>bm_groupID = 1, bm_primaryTargetID = 101, bm_secondaryTargetID = 201\<rparr>] MirrorBuddyGroupMapper_init = Some (dropped, this') \<and>
     MirrorBuddyGroupMapper_getPrimaryTargetID 1 this' = 101"
proof -
  have "(8 :: u16) \<noteq> 0" "mapper_ok MirrorBuddyGroupMapper_init"
    by (simp_all add: mapper_ok_def MirrorBuddyGroupMapper_init_def)
  from buddy_sync_functional [OF this, of "[\<lparr>bm_groupID = 1, bm_primaryTargetID = 101, bm_secondaryTargetID = 201\<rparr>]"]
  show ?thesis by fastforce
qed

text \<open>
  Adding a group keeps the groups sorted and every target in at most one group. An error
  leaves the mapper as it was; success for an unknown group makes exactly that group known, with
  the given targets.
\<close>

theorem buddy_addGroup_sound:
  assumes "mapper_ok this" "targets_unique this"
    and "MirrorBuddyGroupMapper_addGroup n tm gid p s allow this = (res, this')"
  shows "mapper_ok this' \<and> targets_unique this' \<and> (res \<noteq> FhgfsOpsErr_SUCCESS \<longrightarrow> this' = this) \<and>
    (res = FhgfsOpsErr_SUCCESS \<and> rb_find bg_groupID gid (mm_groups this) = None \<longrightarrow>
       MirrorBuddyGroupMapper_getPrimaryTargetID gid this' = p \<and>
       MirrorBuddyGroupMapper_getSecondaryTargetID gid this' = s \<and>
       (\<forall>k. k \<noteq> gid \<longrightarrow> rb_find bg_groupID k (mm_groups this') = rb_find bg_groupID k (mm_groups this)))"
proof (cases rule: addGroup_cases [of n tm gid p s allow this, case_names failed inserted])
  case failed
  with assms show ?thesis by auto
next
  case (inserted g)
  note g = construct_fields [OF inserted(2)]
  have t: "rb_tree bg_groupID (mm_groups this)" using assms(1) by (simp add: mapper_ok_def)
  have r: "res = FhgfsOpsErr_SUCCESS" "this' = this\<lparr>mm_groups := snd (rb_insert bg_groupID g (mm_groups this))\<rparr>"
    using inserted(1) assms(3) by simp_all
  show ?thesis
  proof (cases "\<exists>e \<in> set (mm_groups this). bg_groupID e = bg_groupID g")
    case True
    then have "this' = this" "rb_find bg_groupID gid (mm_groups this) \<noteq> None"
      using r(2) rb_insert_present [OF True] g(1) by (auto simp: rb_find_None)
    with assms(1,2) show ?thesis by auto
  next
    case False
    then have fresh: "\<forall>e \<in> set (mm_groups this). bg_groupID e \<noteq> bg_groupID g" by blast
    have t': "mm_groups this' = snd (rb_insertOrReplace bg_groupID g (mm_groups this))"
      using r(2) rb_insert_fresh [OF t fresh] by simp
    have "targets_unique this'"
      unfolding r(2)
      using inserted(3,4) g by (intro targets_unique_insert [OF assms(2) fresh])
        (auto simp: group_targets_def rb_find_update_self [OF t fresh])
    moreover have "mapper_ok this'" by (simp add: mapper_ok_def t' rb_insertOrReplace_tree [OF t])
    moreover have "rb_find bg_groupID k (mm_groups this') = (if k = gid then Some g else rb_find bg_groupID k (mm_groups this))" for k
      using rb_find_replaced [OF t, of k g] g(1) by (simp add: t')
    ultimately show ?thesis
      using r(1) g by (simp add: MirrorBuddyGroupMapper_getPrimaryTargetID_def MirrorBuddyGroupMapper_getSecondaryTargetID_def)
  qed
qed

theorem buddy_addGroup_sound_witness:
  "\<exists>this'. MirrorBuddyGroupMapper_addGroup 8 None 1 101 201 False MirrorBuddyGroupMapper_init = (FhgfsOpsErr_SUCCESS, this') \<and>
     MirrorBuddyGroupMapper_getPrimaryTargetID 1 this' = 101"
proof -
  have i: "mapper_ok MirrorBuddyGroupMapper_init" "targets_unique MirrorBuddyGroupMapper_init"
    "rb_find bg_groupID 1 (mm_groups MirrorBuddyGroupMapper_init) = None"
    by (simp_all add: mapper_ok_def targets_unique_def MirrorBuddyGroupMapper_init_def rb_find_def)
  have "fst (MirrorBuddyGroupMapper_addGroup 8 None 1 101 201 False MirrorBuddyGroupMapper_init) = FhgfsOpsErr_SUCCESS"
    by code_simp
  then obtain this' where "MirrorBuddyGroupMapper_addGroup 8 None 1 101 201 False MirrorBuddyGroupMapper_init =
      (FhgfsOpsErr_SUCCESS, this')" by (metis prod.collapse)
  with buddy_addGroup_sound [OF i(1,2) this] i(3) show ?thesis by blast
qed

text \<open>
  Allowing updates does not update: for a group that exists the mapper stays as it was,
  whatever the new targets are, although the operation may report success.
\<close>

theorem buddy_addGroup_ignores_update:
  assumes "rb_find bg_groupID gid (mm_groups this) = Some g"
  shows "snd (MirrorBuddyGroupMapper_addGroup n tm gid p s allow this) = this"
proof (cases rule: addGroup_cases [of n tm gid p s allow this, case_names failed inserted])
  case failed
  then show ?thesis by simp
next
  case (inserted g')
  have "\<exists>e \<in> set (mm_groups this). bg_groupID e = bg_groupID g'"
    using assms construct_fields(1) [OF inserted(2)] find_in [of _ "mm_groups this"] unfolding rb_find_def by blast
  with inserted(1) show ?thesis by (simp add: rb_insert_present)
qed

theorem buddy_addGroup_ignores_update_witness:
  "\<exists>this. MirrorBuddyGroupMapper_addGroup 8 None 1 102 202 True this = (FhgfsOpsErr_SUCCESS, this) \<and>
     MirrorBuddyGroupMapper_getPrimaryTargetID 1 this = 101"
proof -
  define this where "this = snd (MirrorBuddyGroupMapper_addGroup 8 None 1 101 201 False MirrorBuddyGroupMapper_init)"
  have p: "MirrorBuddyGroupMapper_getPrimaryTargetID 1 this = 101" unfolding this_def by code_simp
  then obtain g where "rb_find bg_groupID 1 (mm_groups this) = Some g"
    by (auto simp: MirrorBuddyGroupMapper_getPrimaryTargetID_def split: option.splits)
  from buddy_addGroup_ignores_update [OF this, of 8 None 102 202 True]
  have "snd (MirrorBuddyGroupMapper_addGroup 8 None 1 102 202 True this) = this" .
  moreover have "fst (MirrorBuddyGroupMapper_addGroup 8 None 1 102 202 True this) = FhgfsOpsErr_SUCCESS"
    unfolding this_def by code_simp
  ultimately show ?thesis using p by (metis prod.collapse)
qed

end
