(* ===== verification/Math_Tk.thy ===== *)
theory Math_Tk
  imports BG_Prelude "HOL-Library.Signed_Division"
begin

text \<open>
  Arithmetic of \<^verbatim>\<open>client_module/source/common/toolkit/MathTk.h\<close> (and its copy in
  \<^verbatim>\<open>common/source/common/toolkit/MathTk.h\<close>), and what the striping code relies on: masking
  with a power of two minus one is the remainder, shifting by its logarithm is the quotient.
\<close>

section \<open>Operations\<close>

text \<open>\<^verbatim>\<open>__builtin_clz\<close>: leading zero bits of a 32 bit value, undefined for zero.\<close>

definition builtin_clz :: "u32 \<Rightarrow> nat" where
  "builtin_clz value = length (takeWhile (\<lambda>i. \<not> bit value i) (rev [0..<32]))"

definition MathTk_log2Int32 :: "u32 \<Rightarrow> u32" where
  "MathTk_log2Int32 value = 4 * 8 - 1 - of_nat (builtin_clz value)"

definition MathTk_isPowerOfTwo :: "u32 \<Rightarrow> bool" where
  "MathTk_isPowerOfTwo value = ((value AND (value - 1)) = 0)"

text \<open>Division and right shift of \<^verbatim>\<open>int64_t\<close>, which truncate towards zero and keep the sign.\<close>

definition int64_div :: "u64 \<Rightarrow> u64 \<Rightarrow> u64" where
  "int64_div x y = word_of_int (sint x sdiv sint y)"

definition int64_shr :: "u64 \<Rightarrow> u32 \<Rightarrow> u64" where
  "int64_shr x n = signed_drop_bit (unat n) x"

section \<open>Powers of two\<close>

lemma bit_top:
  assumes "2 ^ m \<le> unat v" "unat v < 2 ^ Suc m"
  shows "bit (v :: 'a::len word) m"
proof -
  have "unat v div 2 ^ m = 1" using assms by (simp add: div_nat_eqI)
  then have "odd (unat v div 2 ^ m)" by simp
  then have "bit (unat v) m" by (simp add: bit_iff_odd)
  then show ?thesis by (simp add: bit_unsigned_iff)
qed

lemma clz_top:
  assumes "bit v m" "\<And>i. m < i \<Longrightarrow> i < 32 \<Longrightarrow> \<not> bit v i"
  shows "builtin_clz v = 31 - m"
proof -
  have m: "m < 32" using assms(1) by (auto dest: bit_imp_le_length)
  have "[0..<32] = [0..<m] @ m # [Suc m..<32]"
    using m upt_add_eq_append [of 0 m "32 - m"] upt_conv_Cons [of m 32] by simp
  then have "rev [0..<32] = rev [Suc m..<32] @ m # rev [0..<m]" by (simp only: rev_append rev.simps) simp
  moreover have "takeWhile (\<lambda>i. \<not> bit v i) (rev [Suc m..<32] @ m # rev [0..<m]) = rev [Suc m..<32]"
    using assms by (subst takeWhile_append2) auto
  ultimately show ?thesis by (simp add: builtin_clz_def)
qed

text \<open>The logarithm is rounded down.\<close>

lemma log2Int32_floor:
  assumes "2 ^ m \<le> unat v" "unat v < 2 ^ Suc m"
  shows "unat (MathTk_log2Int32 v) = m"
proof -
  have top: "bit v m" by (rule bit_top [OF assms])
  then have m: "m < 32" by (auto dest: bit_imp_le_length)
  have "\<not> bit v i" if "m < i" for i
  proof
    assume "bit v i"
    then have "bit (unat v) i" by (simp add: bit_unsigned_iff)
    moreover have "(2 :: nat) ^ Suc m \<le> 2 ^ i" using that by (intro power_increasing) simp_all
    ultimately show False using assms(2) by (simp add: bit_iff_odd)
  qed
  then have "builtin_clz v = 31 - m" using top by (intro clz_top)
  moreover have "(of_nat (31 - m) :: u32) = 31 - of_nat m" using m by simp
  ultimately have "MathTk_log2Int32 v = of_nat m" by (simp add: MathTk_log2Int32_def)
  then show ?thesis using m by (simp add: unat_of_nat)
qed

lemma unat_pow2_32: "k < 32 \<Longrightarrow> unat (2 ^ k :: u32) = 2 ^ k"
proof -
  assume "k < 32"
  then have "(2 :: nat) ^ k < 2 ^ 32" by (intro power_strict_increasing) simp_all
  then have "unat (of_nat (2 ^ k) :: u32) = 2 ^ k" by (simp only: unat_of_nat) simp
  then show ?thesis by simp
qed

lemma log2Int32_pow2: "k < 32 \<Longrightarrow> unat (MathTk_log2Int32 (2 ^ k)) = k"
  by (intro log2Int32_floor) (simp_all add: unat_pow2_32)

lemma isPowerOfTwo_pow2: "MathTk_isPowerOfTwo (2 ^ k)"
  by (simp add: MathTk_isPowerOfTwo_def mask_eq_exp_minus_1 [symmetric] take_bit_eq_mask [symmetric] take_bit_eq_mod)

lemma isPowerOfTwoE:
  assumes "MathTk_isPowerOfTwo v" "v \<noteq> 0"
  obtains k where "k < 32" "v = 2 ^ k"
proof -
  obtain k where k: "2 ^ k \<le> unat v" "unat v < 2 ^ Suc k"
    using assms(2) ex_power_ivl1 [of 2 "unat v"] by (auto simp: unat_gt_0 Suc_le_eq)
  have "unat v < 2 ^ LENGTH(32)" by (rule unsigned_less)
  then have "2 ^ k < (2 :: nat) ^ 32" using k(1) by simp
  then have k32: "k < 32" by (rule power_less_imp_less_exp [rotated]) simp
  have "unat v = 2 ^ k"
  proof (rule ccontr)
    assume "unat v \<noteq> 2 ^ k"
    moreover have "unat (v - 1) = unat v - 1" using assms(2) by (simp add: unat_minus_one)
    ultimately have "bit (v - 1) k" using k by (intro bit_top) auto
    with bit_top [OF k] have "bit (v AND (v - 1)) k" by (simp add: bit_and_iff)
    with assms(1) show False by (simp add: MathTk_isPowerOfTwo_def)
  qed
  then have "of_nat (unat v) = (2 ^ k :: u32)" by simp
  then show thesis using k32 that by simp
qed

section \<open>Masks and shifts\<close>

lemma ucast_mask_32_64: "k \<le> 32 \<Longrightarrow> ucast (2 ^ k - 1 :: u32) = (mask k :: u64)"
  by (rule bit_word_eqI) (auto simp: bit_simps mask_eq_exp_minus_1 [symmetric])

lemma unat_and_pow2:
  assumes "k < 32"
  shows "unat (p AND ucast (2 ^ k - 1 :: u32) :: u64) = unat p mod 2 ^ k"
proof -
  have "p AND ucast (2 ^ k - 1 :: u32) = take_bit k p"
    using assms by (simp add: ucast_mask_32_64 take_bit_eq_mask)
  then have "unat (p AND ucast (2 ^ k - 1 :: u32)) = take_bit k (unat p)"
    by (simp only: unsigned_take_bit_eq)
  then show ?thesis by (simp only: take_bit_eq_mod)
qed

lemma unat_shift: "unat (drop_bit k (p :: u64)) = unat p div 2 ^ k"
  by (simp only: unat_drop_bit_eq) (simp only: drop_bit_eq_div)

text \<open>
  On offsets that are not negative the signed division and the arithmetic shift of C are the
  unsigned ones.
\<close>

lemma not_bit_63: "unat (p :: u64) < 2 ^ 63 \<Longrightarrow> \<not> bit p 63"
proof
  assume "unat p < 2 ^ 63" "bit p 63"
  then have "bit (unat p) 63" by (simp add: bit_unsigned_iff)
  then show False using \<open>unat p < 2 ^ 63\<close> by (simp add: bit_iff_odd)
qed

lemma sint_nonneg: "unat (p :: u64) < 2 ^ 63 \<Longrightarrow> sint p = int (unat p)"
proof -
  assume "unat p < 2 ^ 63"
  then have less: "uint p < 2 ^ 63" by (simp only: unat_eq_nat_uint nat_less_iff uint_ge_0) simp
  then have "\<not> bit (uint p) 63" by (simp add: bit_iff_odd)
  then have "sint p = take_bit 63 (uint p)"
    using signed_take_bit_eq_if_positive [of "uint p" 63] by (simp only: sint_uint) simp
  also have "\<dots> = uint p" using less by (simp only: take_bit_int_eq_self uint_ge_0)
  finally show ?thesis by simp
qed

lemma sdiv_nat: "int a sdiv int b = int (a div b)"
  by (simp add: signed_divide_int_def sgn_if zdiv_int)

lemma unat_int64_div:
  assumes "unat x < 2 ^ 63" "unat y < 2 ^ 63"
  shows "unat (int64_div x y) = unat x div unat y"
proof -
  have "sint x sdiv sint y = int (unat x div unat y)"
    using assms by (simp only: sint_nonneg sdiv_nat)
  moreover have "unat x div unat y \<le> unat x" by simp
  then have "unat x div unat y < 2 ^ LENGTH(64)" by (rule order_le_less_trans) (rule unsigned_less)
  ultimately show ?thesis by (simp add: int64_div_def unat_of_nat)
qed

lemma unat_int64_shr:
  assumes "unat x < 2 ^ 63"
  shows "unat (int64_shr x n) = unat x div 2 ^ unat n"
proof -
  have "\<not> bit x 63"
    using assms by (rule not_bit_63)
  then have "signed_drop_bit (unat n) x = drop_bit (unat n) x"
    by (intro bit_word_eqI) (auto simp: bit_signed_drop_bit_iff bit_drop_bit_eq dest: bit_imp_le_length)
  then show ?thesis by (simp only: int64_shr_def unat_shift)
qed

end
