(* ===== verification/Stripe_Placement.thy ===== *)
theory Stripe_Placement
  imports BG_Prelude
begin

text \<open>
  Reference arithmetic of striping on natural numbers: a file is cut into chunks, chunk after
  chunk goes to the next target, and every target keeps its chunks back to back in a local
  chunk file. The optimised routines of client and server are compared with these functions.
\<close>

definition stripe_index :: "nat \<Rightarrow> nat \<Rightarrow> nat \<Rightarrow> nat" where
  "stripe_index c n p = p div c mod n"

definition stripe_offset :: "nat \<Rightarrow> nat \<Rightarrow> nat \<Rightarrow> nat" where
  "stripe_offset c n p = p div (c * n) * c + p mod c"

definition stripe_position :: "nat \<Rightarrow> nat \<Rightarrow> nat \<Rightarrow> nat \<Rightarrow> nat" where
  "stripe_position c n t l = l div c * (c * n) + t * c + l mod c"

lemma stripe_index_less: "0 < n \<Longrightarrow> stripe_index c n p < n"
  by (simp add: stripe_index_def)

lemma stripe_position_inverse: "stripe_position c n (stripe_index c n p) (stripe_offset c n p) = p"
proof (cases "c = 0")
  case False
  have "stripe_offset c n p div c = p div (c * n)" "stripe_offset c n p mod c = p mod c"
    using False by (simp_all add: stripe_offset_def)
  moreover have "p div (c * n) * (c * n) + p div c mod n * c = (p div c div n * n + p div c mod n) * c"
    unfolding div_mult2_eq by (simp only: distrib_right mult.assoc mult.commute [of c n])
  then have "p div (c * n) * (c * n) + p div c mod n * c + p mod c = p" by simp
  ultimately show ?thesis by (simp add: stripe_position_def stripe_index_def)
qed (simp add: stripe_position_def stripe_offset_def)

lemma stripe_position_chunk:
  assumes "0 < c"
  shows "stripe_position c n t l div c = l div c * n + t" "stripe_position c n t l mod c = l mod c"
proof -
  have eq: "stripe_position c n t l = l mod c + c * (l div c * n + t)"
    by (simp add: stripe_position_def algebra_simps)
  show "stripe_position c n t l div c = l div c * n + t" using assms by (simp add: eq)
  show "stripe_position c n t l mod c = l mod c" by (simp add: eq)
qed

lemma stripe_index_position: "0 < c \<Longrightarrow> t < n \<Longrightarrow> stripe_index c n (stripe_position c n t l) = t"
  by (simp add: stripe_index_def stripe_position_chunk)

lemma stripe_offset_position: "0 < c \<Longrightarrow> t < n \<Longrightarrow> stripe_offset c n (stripe_position c n t l) = l"
proof -
  assume a: "0 < c" "t < n"
  have "stripe_position c n t l div (c * n) = (l div c * n + t) div n"
    by (simp only: div_mult2_eq stripe_position_chunk [OF a(1)])
  also have "\<dots> = l div c" using a by simp
  finally show ?thesis by (simp add: stripe_offset_def stripe_position_chunk [OF a(1)])
qed

lemma stripe_position_inj:
  "stripe_index c n p = stripe_index c n q \<Longrightarrow> stripe_offset c n p = stripe_offset c n q \<Longrightarrow> p = q"
  by (metis stripe_position_inverse)

text \<open>Within a chunk the target stays and the local offset moves along.\<close>

lemma stripe_same_chunk:
  assumes "0 < c" "p mod c + k < c"
  shows "stripe_index c n (p + k) = stripe_index c n p" "stripe_offset c n (p + k) = stripe_offset c n p + k"
proof -
  have k: "k div c = 0" "k mod c = k" using assms by simp_all
  have div: "(p + k) div c = p div c" using assms k by (simp add: div_add1_eq [of p k c])
  have mod: "(p + k) mod c = p mod c + k"
    using mod_add_left_eq [of p c k] mod_less [OF assms(2)] by simp
  show "stripe_index c n (p + k) = stripe_index c n p" by (simp add: stripe_index_def div)
  show "stripe_offset c n (p + k) = stripe_offset c n p + k"
    unfolding stripe_offset_def div_mult2_eq div mod by simp
qed

lemma stripe_next_chunk:
  assumes "0 < c" "0 < n"
  shows "stripe_index c n (p - p mod c + c) = Suc (stripe_index c n p) mod n"
proof -
  have "p - p mod c + c = c * Suc (p div c)" by (simp add: minus_mod_eq_mult_div)
  then show ?thesis using assms by (simp add: stripe_index_def mod_Suc_eq)
qed

text \<open>The start of the stripe set of a position, as the code computes it.\<close>

lemma stripe_start:
  assumes "0 < (c :: nat)"
  shows "p - p mod c - p div c mod n * c = n * (p div (c * n) * c)"
proof -
  have "p - p mod c = p div c * c" by (simp add: minus_mod_eq_div_mult)
  then have "p - p mod c - p div c mod n * c = (p div c - p div c mod n) * c" by (simp only: diff_mult_distrib)
  also have "p div c - p div c mod n = n * (p div c div n)" by (simp only: minus_mod_eq_mult_div)
  finally show ?thesis by (simp only: div_mult2_eq mult.assoc)
qed

lemma stripe_offset_le: "stripe_offset c n p \<le> p"
proof -
  have "p div (c * n) * c \<le> p div c * c" unfolding div_mult2_eq by (intro mult_le_mono1 div_le_dividend)
  then show ?thesis using div_mult_mod_eq [of p c] unfolding stripe_offset_def by linarith
qed

end
