(* ===== verification/Striping.thy ===== *)
theory Striping
  imports Serdes_Mappings Math_Tk Stripe_Placement
begin

text \<open>
  Stripe patterns of the client (\<^verbatim>\<open>client_module/source/common/storage/striping\<close>): how they are
  built from a message, and which storage target a file position belongs to. The subclasses of
  \<^verbatim>\<open>StripePattern\<close> are extensions of its record, the virtual functions are a case distinction
  over the subclass. File offsets and sizes are \<^verbatim>\<open>int64_t\<close>, kept as 64 bit words. A division by
  zero and an index outside a vector, which C leaves undefined, are \<^term>\<open>None\<close>.
\<close>

section \<open>Operations\<close>

definition STRIPEPATTERN_Invalid :: u32 where "STRIPEPATTERN_Invalid = 0"
definition STRIPEPATTERN_Raid0 :: u32 where "STRIPEPATTERN_Raid0 = 1"
definition STRIPEPATTERN_Raid10 :: u32 where "STRIPEPATTERN_Raid10 = 2"
definition STRIPEPATTERN_BuddyMirror :: u32 where "STRIPEPATTERN_BuddyMirror = 3"
definition STRIPEPATTERN_HEADER_LENGTH :: u32 where "STRIPEPATTERN_HEADER_LENGTH = 4 + 4 + 4"
definition HAS_NO_POOL_FLAG :: u32 where "HAS_NO_POOL_FLAG = push_bit 24 1"

record StripePatternHeader =
  ph_patternLength :: u32
  ph_patternType :: u32
  ph_chunkSize :: u32
  ph_storagePoolId :: u16

record StripePattern =
  sp_patternType :: u32
  sp_chunkSize :: u32
  sp_storagePoolId :: u16
  sp_serialPatternLength :: u32

record Raid0Pattern = StripePattern +
  r0_stripeTargetIDs :: "u16 list"
  r0_defaultNumTargets :: u32

record Raid10Pattern = StripePattern +
  r10_stripeTargetIDs :: "u16 list"
  r10_mirrorTargetIDs :: "u16 list"
  r10_stripeSetSize :: u32
  r10_defaultNumTargets :: u32

record BuddyMirrorPattern = StripePattern +
  bp_mirrorBuddyGroupIDs :: "u16 list"
  bp_defaultNumTargets :: u32

datatype pattern =
    Simple StripePattern
  | Raid0 Raid0Pattern
  | Raid10 Raid10Pattern
  | BuddyMirror BuddyMirrorPattern

text \<open>Chunk arithmetic, inherited by all patterns.\<close>

definition StripePattern_getChunkStart :: "'a StripePattern_scheme \<Rightarrow> u64 \<Rightarrow> u64" where
  "StripePattern_getChunkStart this pos =
     (let posModChunkSize = ucast (pos AND ucast (sp_chunkSize this - 1)) :: u32
      in pos - ucast posModChunkSize)"

definition StripePattern_getNextChunkStart :: "'a StripePattern_scheme \<Rightarrow> u64 \<Rightarrow> u64" where
  "StripePattern_getNextChunkStart this pos = StripePattern_getChunkStart this pos + ucast (sp_chunkSize this)"

definition StripePattern_getChunkEnd :: "'a StripePattern_scheme \<Rightarrow> u64 \<Rightarrow> u64" where
  "StripePattern_getChunkEnd this pos = StripePattern_getNextChunkStart this pos - 1"

definition UInt16Vec_at :: "u16 list \<Rightarrow> u64 \<Rightarrow> u16 option" where
  "UInt16Vec_at vec index = (if unat index < length vec then Some (vec ! unat index) else None)"

definition ListTk_copyUInt16ListToVec :: "u16 list \<Rightarrow> u16 list \<Rightarrow> u16 list" where
  "ListTk_copyUInt16ListToVec srcList destVec = foldl (\<lambda>vec elem. vec @ [elem]) destVec srcList"

text \<open>
  Objects come from \<^verbatim>\<open>os_kmalloc\<close> without being cleared; the fields an initializer does not
  set have arbitrary contents, which the argument \<^term>\<open>garbage\<close> stands for.
\<close>

record garbage =
  g_uint :: u32
  g_poolId :: u16

definition StripePattern_initFromPatternType :: "u32 \<Rightarrow> u32 \<Rightarrow> StripePattern" where
  "StripePattern_initFromPatternType patternType chunkSize =
     \<lparr>sp_patternType = patternType, sp_chunkSize = chunkSize, sp_storagePoolId = 0,
      sp_serialPatternLength = 0\<rparr>"

definition SimplePattern_construct :: "u32 \<Rightarrow> u32 \<Rightarrow> StripePattern" where
  "SimplePattern_construct patternType chunkSize = StripePattern_initFromPatternType patternType chunkSize"

definition Raid0Pattern_initFromChunkSize :: "garbage \<Rightarrow> u32 \<Rightarrow> Raid0Pattern" where
  "Raid0Pattern_initFromChunkSize g chunkSize =
     StripePattern.extend (StripePattern_initFromPatternType STRIPEPATTERN_Raid0 chunkSize)
       (Raid0Pattern.fields [] (g_uint g))"

definition Raid0Pattern_init :: "u32 \<Rightarrow> u16 list \<Rightarrow> u32 \<Rightarrow> Raid0Pattern" where
  "Raid0Pattern_init chunkSize stripeTargetIDs defaultNumTargets =
     StripePattern.extend (StripePattern_initFromPatternType STRIPEPATTERN_Raid0 chunkSize)
       (Raid0Pattern.fields (ListTk_copyUInt16ListToVec stripeTargetIDs [])
         (if defaultNumTargets \<noteq> 0 then defaultNumTargets else 4))"

definition Raid10Pattern_initFromChunkSize :: "garbage \<Rightarrow> u32 \<Rightarrow> Raid10Pattern" where
  "Raid10Pattern_initFromChunkSize g chunkSize =
     StripePattern.extend (StripePattern_initFromPatternType STRIPEPATTERN_Raid10 chunkSize)
       (Raid10Pattern.fields [] [] (g_uint g) (g_uint g))"

definition BuddyMirrorPattern_initFromChunkSize :: "garbage \<Rightarrow> u32 \<Rightarrow> BuddyMirrorPattern" where
  "BuddyMirrorPattern_initFromChunkSize g chunkSize =
     StripePattern.extend (StripePattern_initFromPatternType STRIPEPATTERN_BuddyMirror chunkSize)
       (BuddyMirrorPattern.fields [] (g_uint g))"

definition BuddyMirrorPattern_init :: "u32 \<Rightarrow> u16 list \<Rightarrow> u32 \<Rightarrow> BuddyMirrorPattern" where
  "BuddyMirrorPattern_init chunkSize mirrorBuddyGroupIDs defaultNumTargets =
     StripePattern.extend (StripePattern_initFromPatternType STRIPEPATTERN_BuddyMirror chunkSize)
       (BuddyMirrorPattern.fields (ListTk_copyUInt16ListToVec mirrorBuddyGroupIDs [])
         (if defaultNumTargets \<noteq> 0 then defaultNumTargets else 4))"

subsection \<open>Raid0\<close>

definition Raid0Pattern_deserializePattern ::
    "Raid0Pattern \<Rightarrow> bytes \<Rightarrow> DeserializeCtx \<Rightarrow> (Raid0Pattern \<times> DeserializeCtx) dres" where
  "Raid0Pattern_deserializePattern this buf ctx =
     dbind (Serialization_deserializeUInt buf ctx) (\<lambda>(defaultNumTargets, ctx).
     dbind (Serialization_deserializeUInt16VecPreprocess buf ctx) (\<lambda>(targetIDsList, ctx).
     dbind (Serialization_deserializeUInt16Vec buf targetIDsList) (\<lambda>stripeTargetIDs.
     Ok (this\<lparr>r0_defaultNumTargets := defaultNumTargets, r0_stripeTargetIDs := stripeTargetIDs\<rparr>, ctx))))"

definition Raid0Pattern_getStripeTargetIndex :: "Raid0Pattern \<Rightarrow> u64 \<Rightarrow> u64 option" where
  "Raid0Pattern_getStripeTargetIndex this pos =
     (if sp_chunkSize this = 0 \<or> length (r0_stripeTargetIDs this) = 0 then None
      else Some (int64_div pos (ucast (sp_chunkSize this)) mod of_nat (length (r0_stripeTargetIDs this))))"

definition Raid0Pattern_getStripeTargetID :: "Raid0Pattern \<Rightarrow> u64 \<Rightarrow> u16 option" where
  "Raid0Pattern_getStripeTargetID this pos =
     (if length (r0_stripeTargetIDs this) = 0 then Some 0
      else Option.bind (Raid0Pattern_getStripeTargetIndex this pos) (UInt16Vec_at (r0_stripeTargetIDs this)))"

subsection \<open>Buddy mirrored\<close>

definition BuddyMirrorPattern_deserializePattern ::
    "BuddyMirrorPattern \<Rightarrow> bytes \<Rightarrow> DeserializeCtx \<Rightarrow> (BuddyMirrorPattern \<times> DeserializeCtx) dres" where
  "BuddyMirrorPattern_deserializePattern this buf ctx =
     dbind (Serialization_deserializeUInt buf ctx) (\<lambda>(defaultNumTargets, ctx).
     dbind (Serialization_deserializeUInt16VecPreprocess buf ctx) (\<lambda>(mirrorBuddyGroupIDsVec, ctx).
     dbind (Serialization_deserializeUInt16Vec buf mirrorBuddyGroupIDsVec) (\<lambda>mirrorBuddyGroupIDs.
     Ok (this\<lparr>bp_defaultNumTargets := defaultNumTargets, bp_mirrorBuddyGroupIDs := mirrorBuddyGroupIDs\<rparr>,
         ctx))))"

definition BuddyMirrorPattern_getStripeTargetIndex :: "BuddyMirrorPattern \<Rightarrow> u64 \<Rightarrow> u64 option" where
  "BuddyMirrorPattern_getStripeTargetIndex this pos =
     (if sp_chunkSize this = 0 \<or> length (bp_mirrorBuddyGroupIDs this) = 0 then None
      else Some (int64_div pos (ucast (sp_chunkSize this)) mod of_nat (length (bp_mirrorBuddyGroupIDs this))))"

definition BuddyMirrorPattern_getStripeTargetID :: "BuddyMirrorPattern \<Rightarrow> u64 \<Rightarrow> u16 option" where
  "BuddyMirrorPattern_getStripeTargetID this pos =
     (if length (bp_mirrorBuddyGroupIDs this) = 0 then Some 0
      else Option.bind (BuddyMirrorPattern_getStripeTargetIndex this pos)
             (UInt16Vec_at (bp_mirrorBuddyGroupIDs this)))"

subsection \<open>Raid10\<close>

definition Raid10Pattern_deserializePattern ::
    "Raid10Pattern \<Rightarrow> bytes \<Rightarrow> DeserializeCtx \<Rightarrow> (Raid10Pattern \<times> DeserializeCtx) dres" where
  "Raid10Pattern_deserializePattern this buf ctx =
     dbind (Serialization_deserializeUInt buf ctx) (\<lambda>(defaultNumTargets, ctx).
     dbind (Serialization_deserializeUInt16VecPreprocess buf ctx) (\<lambda>(targetIDsList, ctx).
     dbind (Serialization_deserializeUInt16Vec buf targetIDsList) (\<lambda>stripeTargetIDs.
     dbind (Serialization_deserializeUInt16VecPreprocess buf ctx) (\<lambda>(mirrorTargetIDsList, ctx).
     dbind (Serialization_deserializeUInt16Vec buf mirrorTargetIDsList) (\<lambda>mirrorTargetIDs.
     Ok (this\<lparr>r10_defaultNumTargets := defaultNumTargets, r10_stripeTargetIDs := stripeTargetIDs,
              r10_mirrorTargetIDs := mirrorTargetIDs,
              r10_stripeSetSize := ucast (of_nat (length stripeTargetIDs) * ucast (sp_chunkSize this) :: u64)\<rparr>,
         ctx))))))"

text \<open>\<^verbatim>\<open>do_div\<close> of the kernel divides its first argument as an unsigned 64 bit number.\<close>

definition Raid10Pattern_getStripeTargetIndex :: "Raid10Pattern \<Rightarrow> u64 \<Rightarrow> u64 option" where
  "Raid10Pattern_getStripeTargetIndex this pos =
     (let stripeSetSize = r10_stripeSetSize this;
          stripeSetInnerOffset =
            (if MathTk_isPowerOfTwo stripeSetSize then pos AND ucast (stripeSetSize - 1)
             else pos mod ucast stripeSetSize)
      in if sp_chunkSize this = 0 then None
         else Some (int64_shr stripeSetInnerOffset (MathTk_log2Int32 (sp_chunkSize this))))"

definition Raid10Pattern_getStripeTargetID :: "Raid10Pattern \<Rightarrow> u64 \<Rightarrow> u16 option" where
  "Raid10Pattern_getStripeTargetID this pos =
     (if r10_stripeSetSize this = 0 then Some 0
      else Option.bind (Raid10Pattern_getStripeTargetIndex this pos) (UInt16Vec_at (r10_stripeTargetIDs this)))"

subsection \<open>Virtual functions\<close>

fun pattern_base :: "pattern \<Rightarrow> StripePattern" where
  "pattern_base (Simple p) = p"
| "pattern_base (Raid0 p) = StripePattern.truncate p"
| "pattern_base (Raid10 p) = StripePattern.truncate p"
| "pattern_base (BuddyMirror p) = StripePattern.truncate p"

fun getStripeTargetIndex :: "pattern \<Rightarrow> u64 \<Rightarrow> u64 option" where
  "getStripeTargetIndex (Simple p) pos = Some 0"
| "getStripeTargetIndex (Raid0 p) pos = Raid0Pattern_getStripeTargetIndex p pos"
| "getStripeTargetIndex (Raid10 p) pos = Raid10Pattern_getStripeTargetIndex p pos"
| "getStripeTargetIndex (BuddyMirror p) pos = BuddyMirrorPattern_getStripeTargetIndex p pos"

fun getStripeTargetID :: "pattern \<Rightarrow> u64 \<Rightarrow> u16 option" where
  "getStripeTargetID (Simple p) pos = Some 0"
| "getStripeTargetID (Raid0 p) pos = Raid0Pattern_getStripeTargetID p pos"
| "getStripeTargetID (Raid10 p) pos = Raid10Pattern_getStripeTargetID p pos"
| "getStripeTargetID (BuddyMirror p) pos = BuddyMirrorPattern_getStripeTargetID p pos"

fun getStripeTargetIDs :: "pattern \<Rightarrow> u16 list option" where
  "getStripeTargetIDs (Simple p) = None"
| "getStripeTargetIDs (Raid0 p) = Some (r0_stripeTargetIDs p)"
| "getStripeTargetIDs (Raid10 p) = Some (r10_stripeTargetIDs p)"
| "getStripeTargetIDs (BuddyMirror p) = Some (bp_mirrorBuddyGroupIDs p)"

fun getStripeTargetIDsCopy :: "pattern \<Rightarrow> u16 list \<Rightarrow> u16 list" where
  "getStripeTargetIDsCopy (Simple p) out = out"
| "getStripeTargetIDsCopy (Raid0 p) out = ListTk_copyUInt16ListToVec (r0_stripeTargetIDs p) out"
| "getStripeTargetIDsCopy (Raid10 p) out = ListTk_copyUInt16ListToVec (r10_stripeTargetIDs p) out"
| "getStripeTargetIDsCopy (BuddyMirror p) out = ListTk_copyUInt16ListToVec (bp_mirrorBuddyGroupIDs p) out"

fun getMirrorTargetIDs :: "pattern \<Rightarrow> u16 list option" where
  "getMirrorTargetIDs (Raid10 p) = Some (r10_mirrorTargetIDs p)"
| "getMirrorTargetIDs _ = None"

fun getMinNumTargets :: "pattern \<Rightarrow> u32" where
  "getMinNumTargets (Simple p) = 0"
| "getMinNumTargets (Raid0 p) = 1"
| "getMinNumTargets (Raid10 p) = 2"
| "getMinNumTargets (BuddyMirror p) = 1"

fun getDefaultNumTargets :: "pattern \<Rightarrow> u32" where
  "getDefaultNumTargets (Simple p) = 0"
| "getDefaultNumTargets (Raid0 p) = r0_defaultNumTargets p"
| "getDefaultNumTargets (Raid10 p) = r10_defaultNumTargets p"
| "getDefaultNumTargets (BuddyMirror p) = bp_defaultNumTargets p"

subsection \<open>Patterns from messages\<close>

definition StripePattern_deserializePatternPreprocess ::
    "bytes \<Rightarrow> DeserializeCtx \<Rightarrow> ((nat \<times> u32) \<times> DeserializeCtx) dres" where
  "StripePattern_deserializePatternPreprocess buf ctx =
     dbind (Serialization_deserializeUInt buf ctx) (\<lambda>(outPatternLength, temp).
     if ucast outPatternLength > dc_length ctx then Rejected
     else Ok ((dc_data ctx, outPatternLength),
              ctx\<lparr>dc_data := dc_data ctx + unat outPatternLength,
                  dc_length := dc_length ctx - ucast outPatternLength\<rparr>))"

definition StripePattern_deserializeHeader ::
    "garbage \<Rightarrow> bytes \<Rightarrow> DeserializeCtx \<Rightarrow> (StripePatternHeader \<times> DeserializeCtx) dres" where
  "StripePattern_deserializeHeader g buf ctx =
     dbind (Serialization_deserializeUInt buf ctx) (\<lambda>(patternLength, ctx).
     dbind (Serialization_deserializeUInt buf ctx) (\<lambda>(patternType, ctx).
     dbind (Serialization_deserializeUInt buf ctx) (\<lambda>(chunkSize, ctx).
     dbind (if patternType AND HAS_NO_POOL_FLAG = 0 then StoragePoolId_deserialize buf ctx
            else Ok (g_poolId g, ctx)) (\<lambda>(storagePoolId, ctx).
     if patternLength < STRIPEPATTERN_HEADER_LENGTH then Rejected
     else if chunkSize = 0 then Rejected
     else Ok (\<lparr>ph_patternLength = patternLength, ph_patternType = patternType AND NOT HAS_NO_POOL_FLAG,
               ph_chunkSize = chunkSize, ph_storagePoolId = storagePoolId\<rparr>, ctx)))))"

definition invalidPattern :: pattern where
  "invalidPattern = Simple (SimplePattern_construct STRIPEPATTERN_Invalid 0)"

definition createContent ::
    "garbage \<Rightarrow> StripePatternHeader \<Rightarrow> bytes \<Rightarrow> DeserializeCtx \<Rightarrow> (pattern \<times> DeserializeCtx) dres" where
  "createContent g h buf ctx =
     (if ph_patternType h = STRIPEPATTERN_Raid0 then
        dbind (Raid0Pattern_deserializePattern (Raid0Pattern_initFromChunkSize g (ph_chunkSize h)) buf ctx)
          (\<lambda>(p, ctx). Ok (Raid0 (p\<lparr>sp_storagePoolId := ph_storagePoolId h\<rparr>), ctx))
      else if ph_patternType h = STRIPEPATTERN_Raid10 then
        dbind (Raid10Pattern_deserializePattern (Raid10Pattern_initFromChunkSize g (ph_chunkSize h)) buf ctx)
          (\<lambda>(p, ctx). Ok (Raid10 (p\<lparr>sp_storagePoolId := ph_storagePoolId h\<rparr>), ctx))
      else if ph_patternType h = STRIPEPATTERN_BuddyMirror then
        dbind (BuddyMirrorPattern_deserializePattern
                 (BuddyMirrorPattern_initFromChunkSize g (ph_chunkSize h)) buf ctx)
          (\<lambda>(p, ctx). Ok (BuddyMirror (p\<lparr>sp_storagePoolId := ph_storagePoolId h\<rparr>), ctx))
      else Rejected)"

text \<open>Whatever is rejected on the way, the caller gets a pattern of type invalid.\<close>

definition StripePattern_createFromBuf :: "garbage \<Rightarrow> bytes \<Rightarrow> nat \<Rightarrow> u32 \<Rightarrow> pattern dres" where
  "StripePattern_createFromBuf g buf patternStart patternLength =
     (case dbind (StripePattern_deserializeHeader g buf
                    \<lparr>dc_data = patternStart, dc_length = ucast patternLength\<rparr>)
             (\<lambda>(h, ctx). createContent g h buf ctx) of
        Ok (p, ctx) \<Rightarrow> Ok p
      | Rejected \<Rightarrow> Ok invalidPattern
      | OutOfBounds \<Rightarrow> OutOfBounds)"

text \<open>The check of \<^verbatim>\<open>FhgfsOpsRemoting_openfile\<close> on the pattern of a file.\<close>

definition openfile_acceptsPattern :: "pattern \<Rightarrow> bool" where
  "openfile_acceptsPattern p =
     (let numPatternTargets = (case getStripeTargetIDs p of Some ids \<Rightarrow> length ids | None \<Rightarrow> 0)
      in \<not> (sp_patternType (pattern_base p) = STRIPEPATTERN_Invalid \<or> numPatternTargets = 0))"

section \<open>The target of a file position\<close>

text \<open>
  What the I/O code relies on: a pattern has targets and a chunk size, and the index of the target
  for an offset that is not negative is the round robin reference.
\<close>

locale stripe_pattern =
  fixes ok :: "'p \<Rightarrow> bool" and chunk :: "'p \<Rightarrow> nat" and ids :: "'p \<Rightarrow> u16 list"
    and index :: "'p \<Rightarrow> u64 \<Rightarrow> u64 option" and targetID :: "'p \<Rightarrow> u64 \<Rightarrow> u16 option"
  assumes chunk_pos: "ok p \<Longrightarrow> 0 < chunk p"
    and ids_pos: "ok p \<Longrightarrow> 0 < length (ids p)"
    and index_ref: "ok p \<Longrightarrow> unat pos < 2 ^ 63 \<Longrightarrow>
      \<exists>i. index p pos = Some i \<and> unat i = stripe_index (chunk p) (length (ids p)) (unat pos)"
    and targetID_ref: "ok p \<Longrightarrow> targetID p pos = Option.bind (index p pos) (UInt16Vec_at (ids p))"
begin

lemma targetID_eq:
  assumes "ok p" "unat pos < 2 ^ 63"
  shows "targetID p pos = Some (ids p ! stripe_index (chunk p) (length (ids p)) (unat pos))"
  using index_ref [OF assms] targetID_ref [OF assms(1), of pos] stripe_index_less [OF ids_pos [OF assms(1)]]
  by (auto simp: UInt16Vec_at_def)

lemma index_in_range:
  assumes "ok p" "unat pos < 2 ^ 63" "index p pos = Some i"
  shows "unat i < length (ids p)"
  using index_ref [OF assms(1,2)] assms(3) stripe_index_less [OF ids_pos [OF assms(1)]] by auto

lemma round_robin:
  assumes "ok p" "unat q < 2 ^ 63" "unat q = unat pos - unat pos mod chunk p + chunk p" "unat pos < 2 ^ 63"
  shows "map_option unat (index p q) = map_option (\<lambda>i. Suc (unat i) mod length (ids p)) (index p pos)"
  using index_ref [OF assms(1,2)] index_ref [OF assms(1,4)] assms(3)
    stripe_next_chunk [OF chunk_pos ids_pos, OF assms(1,1), of "unat pos"]
  by auto

end

lemma small_chunk: "unat (c :: u32) < 2 ^ 63" "unat (c :: u32) < 2 ^ 32"
proof -
  have "unat c < 2 ^ LENGTH(32)" by (rule unsigned_less)
  then show "unat c < 2 ^ 63" "unat c < 2 ^ 32" by simp_all
qed

lemma plain_index_ref:
  assumes "c \<noteq> 0" "0 < n" "n < 2 ^ 32" "unat pos < 2 ^ 63"
  shows "unat (int64_div pos (ucast (c :: u32)) mod of_nat n) = stripe_index (unat c) n (unat pos)"
proof -
  have n: "unat (of_nat n :: u64) = n" using assms(3) by (simp add: unat_of_nat)
  have c: "unat (ucast c :: u64) = unat c" by simp
  have "unat (int64_div pos (ucast c)) = unat pos div unat c"
    using unat_int64_div [OF assms(4), of "ucast c"] small_chunk(1) [of c] by (simp only: c)
  then show ?thesis by (simp only: unat_mod_distrib n stripe_index_def)
qed

definition raid0_ok :: "Raid0Pattern \<Rightarrow> bool" where
  "raid0_ok p \<longleftrightarrow> sp_chunkSize p \<noteq> 0 \<and> 0 < length (r0_stripeTargetIDs p) \<and> length (r0_stripeTargetIDs p) < 2 ^ 32"

definition buddy_ok :: "BuddyMirrorPattern \<Rightarrow> bool" where
  "buddy_ok p \<longleftrightarrow>
     sp_chunkSize p \<noteq> 0 \<and> 0 < length (bp_mirrorBuddyGroupIDs p) \<and> length (bp_mirrorBuddyGroupIDs p) < 2 ^ 32"

text \<open>The shortcuts of Raid10 need a power of two, and a stripe set size that fits its 32 bit field.\<close>

definition raid10_ok :: "Raid10Pattern \<Rightarrow> bool" where
  "raid10_ok p \<longleftrightarrow>
     sp_chunkSize p \<noteq> 0 \<and> MathTk_isPowerOfTwo (sp_chunkSize p) \<and> 0 < length (r10_stripeTargetIDs p) \<and>
     unat (r10_stripeSetSize p) = length (r10_stripeTargetIDs p) * unat (sp_chunkSize p)"

interpretation raid0: stripe_pattern raid0_ok "\<lambda>p. unat (sp_chunkSize p)" r0_stripeTargetIDs
  Raid0Pattern_getStripeTargetIndex Raid0Pattern_getStripeTargetID
  by unfold_locales (auto simp: raid0_ok_def Raid0Pattern_getStripeTargetIndex_def
      Raid0Pattern_getStripeTargetID_def plain_index_ref unat_gt_0)

interpretation buddy: stripe_pattern buddy_ok "\<lambda>p. unat (sp_chunkSize p)" bp_mirrorBuddyGroupIDs
  BuddyMirrorPattern_getStripeTargetIndex BuddyMirrorPattern_getStripeTargetID
  by unfold_locales (auto simp: buddy_ok_def BuddyMirrorPattern_getStripeTargetIndex_def
      BuddyMirrorPattern_getStripeTargetID_def plain_index_ref unat_gt_0)

lemma raid10_inner_offset:
  assumes "s \<noteq> 0"
  shows "unat (if MathTk_isPowerOfTwo s then pos AND ucast (s - 1) else pos mod ucast (s :: u32) :: u64) =
    unat pos mod unat s"
proof (cases "MathTk_isPowerOfTwo s")
  case True
  then obtain k where "k < 32" "s = 2 ^ k" using assms by (rule isPowerOfTwoE)
  then show ?thesis using True unat_and_pow2 [of k pos] by (simp only: unat_pow2_32 if_True)
next
  case False
  then show ?thesis by (simp add: unat_mod_distrib)
qed

lemma raid10_index_ref:
  assumes "raid10_ok p"
  shows "\<exists>i. Raid10Pattern_getStripeTargetIndex p pos = Some i \<and>
    unat i = stripe_index (unat (sp_chunkSize p)) (length (r10_stripeTargetIDs p)) (unat pos)"
proof -
  let ?c = "sp_chunkSize p" and ?n = "length (r10_stripeTargetIDs p)" and ?s = "r10_stripeSetSize p"
  let ?o = "if MathTk_isPowerOfTwo ?s then pos AND ucast (?s - 1) else pos mod ucast ?s"
  have ok: "?c \<noteq> 0" "MathTk_isPowerOfTwo ?c" "0 < ?n" "unat ?s = ?n * unat ?c"
    using assms by (auto simp: raid10_ok_def)
  obtain k where k: "k < 32" "?c = 2 ^ k" using ok(2,1) by (rule isPowerOfTwoE)
  have c: "unat ?c = 2 ^ k" using k by (simp only: unat_pow2_32)
  have "unat ?s \<noteq> 0" using ok(3,4) c by simp
  then have s: "?s \<noteq> 0" by auto
  have o: "unat ?o = unat pos mod unat ?s" by (rule raid10_inner_offset [OF s])
  then have "unat ?o < unat ?s" using \<open>unat ?s \<noteq> 0\<close> by simp
  then have "unat ?o < 2 ^ 63" using small_chunk(1) [of ?s] by (rule less_trans)
  then have "unat (int64_shr ?o (MathTk_log2Int32 ?c)) = unat pos mod unat ?s div 2 ^ k"
    by (simp only: unat_int64_shr o k(2) log2Int32_pow2 [OF k(1)])
  also have "\<dots> = unat pos mod (unat ?c * ?n) div unat ?c" using ok(4) by (simp only: c mult.commute)
  also have "\<dots> = stripe_index (unat ?c) ?n (unat pos)"
    using c by (simp add: mod_mult2_eq stripe_index_def)
  finally show ?thesis using ok(1) by (simp add: Raid10Pattern_getStripeTargetIndex_def Let_def)
qed

interpretation raid10: stripe_pattern raid10_ok "\<lambda>p. unat (sp_chunkSize p)" r10_stripeTargetIDs
  Raid10Pattern_getStripeTargetIndex Raid10Pattern_getStripeTargetID
proof unfold_locales
  fix p pos
  assume "raid10_ok p"
  then show "0 < unat (sp_chunkSize p)" "0 < length (r10_stripeTargetIDs p)"
    by (auto simp: raid10_ok_def unat_gt_0)
  then have "unat (r10_stripeSetSize p) \<noteq> 0" using \<open>raid10_ok p\<close> by (auto simp: raid10_ok_def)
  then show "Raid10Pattern_getStripeTargetID p pos =
      Option.bind (Raid10Pattern_getStripeTargetIndex p pos) (UInt16Vec_at (r10_stripeTargetIDs p))"
    by (auto simp: Raid10Pattern_getStripeTargetID_def)
qed (rule raid10_index_ref)

definition pattern_ids :: "pattern \<Rightarrow> u16 list" where
  "pattern_ids p = (case getStripeTargetIDs p of Some ids \<Rightarrow> ids | None \<Rightarrow> [])"

definition pattern_chunk :: "pattern \<Rightarrow> nat" where
  "pattern_chunk p = unat (sp_chunkSize (pattern_base p))"

fun pattern_ok :: "pattern \<Rightarrow> bool" where
  "pattern_ok (Simple p) = False"
| "pattern_ok (Raid0 p) = raid0_ok p"
| "pattern_ok (Raid10 p) = raid10_ok p"
| "pattern_ok (BuddyMirror p) = buddy_ok p"

lemma sp_chunkSize_truncate [simp]: "sp_chunkSize (StripePattern.truncate p) = sp_chunkSize p"
  by (simp add: StripePattern.truncate_def)

lemma sp_patternType_truncate [simp]: "sp_patternType (StripePattern.truncate p) = sp_patternType p"
  by (simp add: StripePattern.truncate_def)

lemma pattern_views [simp]:
  "pattern_ids (Raid0 p) = r0_stripeTargetIDs p" "pattern_ids (Raid10 q) = r10_stripeTargetIDs q"
  "pattern_ids (BuddyMirror r) = bp_mirrorBuddyGroupIDs r" "pattern_chunk (Raid0 p) = unat (sp_chunkSize p)"
  "pattern_chunk (Raid10 q) = unat (sp_chunkSize q)" "pattern_chunk (BuddyMirror r) = unat (sp_chunkSize r)"
  by (simp_all add: pattern_ids_def pattern_chunk_def)

interpretation striping: stripe_pattern pattern_ok pattern_chunk pattern_ids getStripeTargetIndex getStripeTargetID
proof unfold_locales
  fix p pos
  assume ok: "pattern_ok p"
  show "0 < pattern_chunk p" using ok raid0.chunk_pos raid10.chunk_pos buddy.chunk_pos by (cases p) simp_all
  show "0 < length (pattern_ids p)" using ok raid0.ids_pos raid10.ids_pos buddy.ids_pos by (cases p) simp_all
  show "getStripeTargetID p pos = Option.bind (getStripeTargetIndex p pos) (UInt16Vec_at (pattern_ids p))"
    using ok raid0.targetID_ref raid10.targetID_ref buddy.targetID_ref by (cases p) simp_all
  assume "unat pos < 2 ^ 63"
  then show "\<exists>i. getStripeTargetIndex p pos = Some i \<and>
      unat i = stripe_index (pattern_chunk p) (length (pattern_ids p)) (unat pos)"
    using ok raid0.index_ref raid10.index_ref buddy.index_ref by (cases p) simp_all
qed

section \<open>Chunk boundaries\<close>

lemma chunk_mod:
  assumes "c \<noteq> 0" "MathTk_isPowerOfTwo c"
  shows "unat (pos AND ucast (c - 1 :: u32) :: u64) = unat pos mod unat c"
proof -
  obtain k where "k < 32" "c = 2 ^ k" using assms(2,1) by (rule isPowerOfTwoE)
  then show ?thesis using unat_and_pow2 [of k pos] by (simp only: unat_pow2_32)
qed

lemma stripe_set_start:
  assumes C: "0 < C" and m: "unat m = unat pos mod C" and idx: "unat idx = stripe_index C n (unat pos)"
    and ch: "unat ch = C" and small: "unat pos < 2 ^ 63"
  shows "unat (pos - m - idx * ch :: u64) = n * (unat pos div (C * n) * C)"
proof -
  let ?P = "unat pos"
  have "?P div C mod n * C \<le> ?P div C * C" by simp
  also have "?P div C * C = ?P - ?P mod C" by (simp only: minus_mod_eq_div_mult)
  finally have le: "?P div C mod n * C \<le> ?P - ?P mod C" .
  then have "?P div C mod n * C < 2 ^ LENGTH(64)" using small by simp
  then have prod: "unat (idx * ch) = ?P div C mod n * C"
    by (simp only: unat_word_ariths(2) mod_less idx ch stripe_index_def)
  have "unat (pos - m) = ?P - ?P mod C" using m by (simp add: unat_sub word_le_nat_alt)
  then show ?thesis using le prod stripe_start [OF C, of ?P n] by (simp add: unat_sub word_le_nat_alt)
qed

lemma unat_ucast_64_32: "unat (x :: u64) < 2 ^ 32 \<Longrightarrow> unat (ucast x :: u32) = unat x"
  using ucast_of_nat_64_32 [of "unat x"] unat_of_nat_32 [of "unat x"] by simp

lemma unat_getChunkStart:
  assumes "sp_chunkSize p \<noteq> 0" "MathTk_isPowerOfTwo (sp_chunkSize p)"
  shows "unat (StripePattern_getChunkStart p pos) = unat pos - unat pos mod unat (sp_chunkSize p)"
proof -
  let ?c = "sp_chunkSize p"
  let ?m = "ucast (pos AND ucast (?c - 1)) :: u32"
  have m: "unat (pos AND ucast (?c - 1)) = unat pos mod unat ?c" by (rule chunk_mod [OF assms])
  have "unat pos mod unat ?c < unat ?c" using assms(1) by (simp add: unat_gt_0)
  then have "unat (pos AND ucast (?c - 1)) < 2 ^ 32" using small_chunk(2) [of ?c] m by linarith
  then have um: "unat (ucast ?m :: u64) = unat pos mod unat ?c"
    by (simp only: unat_ucast_32_64 unat_ucast_64_32 m)
  then have "ucast ?m \<le> pos" by (simp only: word_le_nat_alt mod_less_eq_dividend)
  then show ?thesis by (simp only: StripePattern_getChunkStart_def Let_def unat_sub um)
qed

lemma unat_getNextChunkStart:
  assumes "sp_chunkSize p \<noteq> 0" "MathTk_isPowerOfTwo (sp_chunkSize p)" "unat pos < 2 ^ 63"
  shows "unat (StripePattern_getNextChunkStart p pos) =
    unat pos - unat pos mod unat (sp_chunkSize p) + unat (sp_chunkSize p)"
proof -
  have "unat (StripePattern_getChunkStart p pos) + unat (ucast (sp_chunkSize p) :: u64) < 2 ^ LENGTH(64)"
    using assms(3) small_chunk(2) [of "sp_chunkSize p"]
    by (simp add: unat_getChunkStart [OF assms(1,2)])
  then show ?thesis
    by (simp only: StripePattern_getNextChunkStart_def unat_add_small unat_getChunkStart [OF assms(1,2)]
        unat_ucast_32_64)
qed

lemma unat_getChunkEnd:
  assumes "sp_chunkSize p \<noteq> 0" "MathTk_isPowerOfTwo (sp_chunkSize p)" "unat pos < 2 ^ 63"
  shows "unat (StripePattern_getChunkEnd p pos) =
    unat pos - unat pos mod unat (sp_chunkSize p) + unat (sp_chunkSize p) - 1"
proof -
  have "unat (StripePattern_getNextChunkStart p pos) \<noteq> 0"
    using unat_gt_0 [of "sp_chunkSize p"] assms(1) unfolding unat_getNextChunkStart [OF assms] by linarith
  then have ne: "StripePattern_getNextChunkStart p pos \<noteq> 0" by auto
  show ?thesis
    by (simp only: StripePattern_getChunkEnd_def unat_minus_one [OF ne] unat_getNextChunkStart [OF assms])
qed

text \<open>The number of bytes from a position to the end of its chunk, as the I/O code computes it.\<close>

definition chunkRest :: "'a StripePattern_scheme \<Rightarrow> u64 \<Rightarrow> u64" where
  "chunkRest p pos = StripePattern_getChunkEnd p pos - pos + 1"

lemma unat_chunkRest:
  assumes "sp_chunkSize p \<noteq> 0" "MathTk_isPowerOfTwo (sp_chunkSize p)" "unat pos < 2 ^ 63"
  shows "unat (chunkRest p pos) = unat (sp_chunkSize p) - unat pos mod unat (sp_chunkSize p)"
proof -
  let ?c = "unat (sp_chunkSize p)"
  have "chunkRest p pos = StripePattern_getNextChunkStart p pos - pos"
    by (simp add: chunkRest_def StripePattern_getChunkEnd_def)
  moreover have mod: "unat pos mod ?c < ?c" "unat pos mod ?c \<le> unat pos"
    using assms(1) by (simp_all add: unat_gt_0)
  then have "unat pos \<le> unat (StripePattern_getNextChunkStart p pos)"
    by (simp only: unat_getNextChunkStart [OF assms])
  ultimately show ?thesis
    using mod by (simp only: unat_sub word_le_nat_alt unat_getNextChunkStart [OF assms])
qed

section \<open>Properties\<close>

lemmas pattern_init_defs = Raid0Pattern_init_def BuddyMirrorPattern_init_def
  StripePattern_initFromPatternType_def StripePattern.extend_def Raid0Pattern.fields_def
  BuddyMirrorPattern.fields_def ListTk_copyUInt16ListToVec_def

lemma same_chunk_mod:
  assumes "p - p mod c \<le> q" "q < p - p mod c + c" "0 < (c :: nat)"
  shows "q div c = p div c"
proof -
  have "p - p mod c = p div c * c" by (simp add: minus_mod_eq_div_mult)
  with assms have "c * (p div c) \<le> q" "q < c * Suc (p div c)" by (simp_all add: mult.commute)
  then show ?thesis by (rule div_nat_eqI)
qed

text \<open>
  C23. The target of a file offset is the same for every kind of pattern: offset divided by chunk
  size, modulo number of targets. For Raid10 this says that the shortcuts, a mask or a remainder
  by the stripe set size and a shift by the logarithm of the chunk size, compute the same as the
  plain divisions of the other patterns; the index never leaves the target vector.
\<close>

theorem stripe_target_functional:
  assumes "pattern_ok p" "unat pos < 2 ^ 63"
  shows "getStripeTargetID p pos =
    Some (pattern_ids p ! (unat pos div pattern_chunk p mod length (pattern_ids p)))"
  using striping.targetID_eq [OF assms] by (simp only: stripe_index_def)

theorem stripe_target_functional_witness:
  "let p = Raid10 \<lparr>sp_patternType = 2, sp_chunkSize = 65536, sp_storagePoolId = 1, sp_serialPatternLength = 0,
      r10_stripeTargetIDs = [11, 12, 13], r10_mirrorTargetIDs = [21, 22, 23], r10_stripeSetSize = 196608,
      r10_defaultNumTargets = 4\<rparr>
   in pattern_ok p \<and> getStripeTargetID p 300000 = Some 12"
proof -
  let ?p = "Raid10 \<lparr>sp_patternType = 2, sp_chunkSize = 65536, sp_storagePoolId = 1, sp_serialPatternLength = 0,
      r10_stripeTargetIDs = [11, 12, 13], r10_mirrorTargetIDs = [21, 22, 23], r10_stripeSetSize = 196608,
      r10_defaultNumTargets = 4\<rparr>"
  have ok: "pattern_ok ?p" by (simp add: raid10_ok_def MathTk_isPowerOfTwo_def)
  have "getStripeTargetID ?p 300000 = Some (pattern_ids ?p ! (unat (300000 :: u64) div pattern_chunk ?p mod 3))"
    using stripe_target_functional [OF ok, of 300000] by simp
  then show ?thesis using ok by (simp add: Let_def)
qed

text \<open>
  The chunk of a position, from its start to its end, contains the position, has exactly the
  chunk size, starts at a multiple of it, and belongs to one target; the position behind its end
  belongs to the next target of the pattern, and after the last one to the first again.
\<close>

theorem stripe_chunk_window:
  assumes "pattern_ok p" "MathTk_isPowerOfTwo (sp_chunkSize (pattern_base p))" "unat pos < 2 ^ 63"
    "unat (StripePattern_getNextChunkStart (pattern_base p) pos) < 2 ^ 63"
  shows "StripePattern_getChunkStart (pattern_base p) pos \<le> pos \<and> pos \<le> StripePattern_getChunkEnd (pattern_base p) pos \<and>
    unat (StripePattern_getChunkEnd (pattern_base p) pos) + 1 =
      unat (StripePattern_getChunkStart (pattern_base p) pos) + pattern_chunk p \<and>
    unat (StripePattern_getChunkStart (pattern_base p) pos) mod pattern_chunk p = 0 \<and>
    (\<forall>q. StripePattern_getChunkStart (pattern_base p) pos \<le> q \<and> q \<le> StripePattern_getChunkEnd (pattern_base p) pos
       \<longrightarrow> getStripeTargetID p q = getStripeTargetID p pos) \<and>
    map_option unat (getStripeTargetIndex p (StripePattern_getNextChunkStart (pattern_base p) pos)) =
      map_option (\<lambda>i. Suc (unat i) mod length (pattern_ids p)) (getStripeTargetIndex p pos)"
proof (intro conjI allI impI)
  let ?b = "pattern_base p" and ?c = "pattern_chunk p"
  have c: "0 < ?c" by (rule striping.chunk_pos [OF assms(1)])
  then have ne: "sp_chunkSize ?b \<noteq> 0" by (auto simp: pattern_chunk_def)
  have start: "unat (StripePattern_getChunkStart ?b pos) = unat pos - unat pos mod ?c"
    by (simp only: unat_getChunkStart [OF ne assms(2)] pattern_chunk_def)
  have fin: "unat (StripePattern_getChunkEnd ?b pos) = unat pos - unat pos mod ?c + ?c - 1"
    by (simp only: unat_getChunkEnd [OF ne assms(2,3)] pattern_chunk_def)
  have next_start: "unat (StripePattern_getNextChunkStart ?b pos) = unat pos - unat pos mod ?c + ?c"
    by (simp only: unat_getNextChunkStart [OF ne assms(2,3)] pattern_chunk_def)
  have mod: "unat pos mod ?c < ?c" "unat pos mod ?c \<le> unat pos" using c by simp_all
  show "StripePattern_getChunkStart ?b pos \<le> pos" by (simp only: word_le_nat_alt start diff_le_self)
  show "pos \<le> StripePattern_getChunkEnd ?b pos" unfolding word_le_nat_alt fin using mod by linarith
  show "unat (StripePattern_getChunkEnd ?b pos) + 1 = unat (StripePattern_getChunkStart ?b pos) + ?c"
    unfolding start fin using c by linarith
  show "unat (StripePattern_getChunkStart ?b pos) mod ?c = 0"
    unfolding start by (simp add: minus_mod_eq_div_mult)
  show "map_option unat (getStripeTargetIndex p (StripePattern_getNextChunkStart ?b pos)) =
      map_option (\<lambda>i. Suc (unat i) mod length (pattern_ids p)) (getStripeTargetIndex p pos)"
    by (rule striping.round_robin [OF assms(1,4) next_start assms(3)])
  fix q
  assume q: "StripePattern_getChunkStart ?b pos \<le> q \<and> q \<le> StripePattern_getChunkEnd ?b pos"
  then have "unat pos - unat pos mod ?c \<le> unat q" "unat q < unat pos - unat pos mod ?c + ?c"
    unfolding word_le_nat_alt start fin using c by linarith+
  then have "unat q div ?c = unat pos div ?c" using c by (rule same_chunk_mod)
  moreover have "unat q < 2 ^ 63"
    using assms(4) \<open>unat q < unat pos - unat pos mod ?c + ?c\<close> unfolding next_start by linarith
  ultimately show "getStripeTargetID p q = getStripeTargetID p pos"
    using striping.targetID_eq [OF assms(1)] assms(3) by (simp only: stripe_index_def)
qed

theorem stripe_chunk_window_witness:
  "let p = Raid0 (Raid0Pattern_init 65536 [11, 12] 0)
   in pattern_ok p \<and> StripePattern_getChunkEnd (pattern_base p) 70000 = 131071 \<and>
      map_option unat (getStripeTargetIndex p 131072) = Some 0"
proof -
  let ?p = "Raid0 (Raid0Pattern_init 65536 [11, 12] 0)"
  have ok: "pattern_ok ?p" and e: "StripePattern_getChunkEnd (pattern_base ?p) 70000 = 131071"
    and n: "StripePattern_getNextChunkStart (pattern_base ?p) 70000 = 131072"
    and i: "getStripeTargetIndex ?p 70000 = Some 1" "pattern_ids ?p = [11, 12]"
    and two: "MathTk_isPowerOfTwo (sp_chunkSize (pattern_base ?p))"
    by (simp_all add: raid0_ok_def pattern_init_defs StripePattern_getChunkEnd_def
        StripePattern_getNextChunkStart_def StripePattern_getChunkStart_def MathTk_isPowerOfTwo_def
        Raid0Pattern_getStripeTargetIndex_def int64_div_def)
  have "unat (70000 :: u64) < 2 ^ 63" "unat (131072 :: u64) < 2 ^ 63" by simp_all
  then have "map_option unat (getStripeTargetIndex ?p 131072) = map_option (\<lambda>i. Suc (unat i) mod 2) (Some (1 :: u64))"
    using stripe_chunk_window [OF ok two, of 70000, unfolded n] by (simp only: i list.size) simp
  then show ?thesis using ok e unfolding Let_def by simp
qed

end
