(* ===== verification/Striping_Messages.thy ===== *)
theory Striping_Messages
  imports Striping
begin

text \<open>
  Building a stripe pattern from received bytes: whatever the bytes are, only the given part of
  the buffer is read and the result is a pattern that satisfies the invariant of its class.
\<close>

section \<open>The vectors of a pattern\<close>

definition deserializeTargets :: "bytes \<Rightarrow> DeserializeCtx \<Rightarrow> (u16 list \<times> DeserializeCtx) dres" where
  "deserializeTargets =
     twoPass Serialization_deserializeUInt16VecPreprocess Serialization_deserializeUInt16Vec"

lemma deserializeTargets_eq:
  "deserializeTargets = twoPass (listPreprocess (of_nat 2)) (rawListElems Serialization_deserializeUShort)"
  by (simp add: deserializeTargets_def Serialization_deserializeUInt16VecPreprocess_def
      Serialization_deserializeUInt16ListPreprocess_def Serialization_deserializeUInt16Vec_def serialLen_defs)

lemma deserializeTargets_bind:
  "dbind (Serialization_deserializeUInt16VecPreprocess buf ctx) (\<lambda>(raw, ctx).
     dbind (Serialization_deserializeUInt16Vec buf raw) (\<lambda>ids. k ids ctx)) =
   dbind (deserializeTargets buf ctx) (\<lambda>(ids, ctx). k ids ctx)"
  by (simp add: deserializeTargets_def twoPass_def dbind_def split: dres.split)

lemma safe_targets: "safe deserializeTargets"
  unfolding deserializeTargets_eq by (rule uint16_elem.lists.des_safe)

lemma deserializeElems_length: "deserializeElems des n buf ctx = Ok (vs, ctx') \<Longrightarrow> length vs = n"
proof (induction n arbitrary: ctx vs ctx')
  case (Suc n)
  then show ?case by (auto simp: dbind_def split: dres.splits prod.splits)
qed simp

lemma targets_length:
  assumes "deserializeTargets buf ctx = Ok (ids, ctx')"
  shows "length ids < 2 ^ 32"
proof -
  obtain raw where "rawListElems Serialization_deserializeUShort buf raw = Ok ids"
    using assms by (auto simp: deserializeTargets_eq twoPass_def dbind_def split: dres.splits prod.splits)
  then have "length ids = unat (raw_elemCount raw)"
    by (auto simp: rawListElems_def dbind_def dest: deserializeElems_length split: dres.splits prod.splits)
  then show ?thesis using small_chunk(2) by simp
qed

lemmas pattern_deserialize_eqs =
  Raid0Pattern_deserializePattern_def [unfolded deserializeTargets_bind]
  Raid10Pattern_deserializePattern_def [unfolded deserializeTargets_bind]
  BuddyMirrorPattern_deserializePattern_def [unfolded deserializeTargets_bind]

section \<open>Safety\<close>

lemma safe_raid0: "safe (Raid0Pattern_deserializePattern this)"
  unfolding pattern_deserialize_eqs [abs_def]
  by (intro safe_bind safe_last_field uint_codec.des_safe safe_targets)

lemma safe_raid10: "safe (Raid10Pattern_deserializePattern this)"
  unfolding pattern_deserialize_eqs [abs_def]
  by (intro safe_bind safe_last_field uint_codec.des_safe safe_targets)

lemma safe_buddyMirror: "safe (BuddyMirrorPattern_deserializePattern this)"
  unfolding pattern_deserialize_eqs [abs_def]
  by (intro safe_bind safe_last_field uint_codec.des_safe safe_targets)

lemma safe_header: "safe (StripePattern_deserializeHeader g)"
  unfolding StripePattern_deserializeHeader_def [abs_def] StoragePoolId_deserialize_def
  by (intro safe_bind safe_if uint_codec.des_safe ushort_codec.des_safe safe_Ok safe_Rejected)

lemma safe_content: "safe (createContent g h)"
  unfolding createContent_def [abs_def]
  by (intro safe_if safe_last_field safe_raid0 safe_raid10 safe_buddyMirror safe_Rejected)

lemma safe_create:
  "safe (\<lambda>buf ctx. dbind (StripePattern_deserializeHeader g buf ctx) (\<lambda>(h, ctx). createContent g h buf ctx))"
  by (intro safe_bind safe_header safe_content)

section \<open>The invariant of received patterns\<close>

fun pattern_wf :: "pattern \<Rightarrow> bool" where
  "pattern_wf (Simple p) \<longleftrightarrow> Simple p = invalidPattern"
| "pattern_wf (Raid0 p) \<longleftrightarrow> sp_patternType p = STRIPEPATTERN_Raid0 \<and> sp_chunkSize p \<noteq> 0 \<and>
     length (r0_stripeTargetIDs p) < 2 ^ 32"
| "pattern_wf (Raid10 p) \<longleftrightarrow> sp_patternType p = STRIPEPATTERN_Raid10 \<and> sp_chunkSize p \<noteq> 0 \<and>
     length (r10_stripeTargetIDs p) < 2 ^ 32 \<and> length (r10_mirrorTargetIDs p) < 2 ^ 32 \<and>
     unat (r10_stripeSetSize p) = length (r10_stripeTargetIDs p) * unat (sp_chunkSize p) mod 2 ^ 32"
| "pattern_wf (BuddyMirror p) \<longleftrightarrow> sp_patternType p = STRIPEPATTERN_BuddyMirror \<and> sp_chunkSize p \<noteq> 0 \<and>
     length (bp_mirrorBuddyGroupIDs p) < 2 ^ 32"

lemma header_chunk: "StripePattern_deserializeHeader g buf ctx = Ok (h, ctx') \<Longrightarrow> ph_chunkSize h \<noteq> 0"
  by (auto simp: StripePattern_deserializeHeader_def dbind_def split: dres.splits prod.splits if_splits)

lemma unat_ucast_of_nat_64_32: "unat (ucast (of_nat n :: u64) :: u32) = n mod 2 ^ 32"
proof -
  have "unat (ucast (of_nat n :: u64) :: u32) = take_bit 32 (unat (of_nat n :: u64))"
    by (simp add: unsigned_ucast_eq unsigned_take_bit_eq)
  also have "\<dots> = n mod 2 ^ 64 mod 2 ^ 32" by (simp add: take_bit_eq_mod unat_of_nat)
  also have "\<dots> = n mod 2 ^ 32" by (rule mod_mod_cancel) simp
  finally show ?thesis .
qed

lemma stripeSetSize_mod:
  "unat (ucast (of_nat n * ucast (c :: u32) :: u64) :: u32) = n * unat c mod 2 ^ 32"
proof -
  have "(of_nat n * ucast c :: u64) = of_nat (n * unat c)" by simp
  then show ?thesis by (simp only: unat_ucast_of_nat_64_32)
qed

lemmas fromChunkSize_defs = Raid0Pattern_initFromChunkSize_def Raid10Pattern_initFromChunkSize_def
  BuddyMirrorPattern_initFromChunkSize_def StripePattern_initFromPatternType_def StripePattern.extend_def
  Raid0Pattern.fields_def Raid10Pattern.fields_def BuddyMirrorPattern.fields_def

lemma content_wf:
  assumes "createContent g h buf ctx = Ok (p, ctx')" "ph_chunkSize h \<noteq> 0"
  shows "pattern_wf p"
  using assms
  by (auto simp: createContent_def pattern_deserialize_eqs dbind_def fromChunkSize_defs stripeSetSize_mod
      dest: targets_length [simplified] split: dres.splits prod.splits if_splits)

section \<open>Reading the wire format\<close>

lemma reads_targets: "8 + length ids * 2 < 2 ^ 32 \<Longrightarrow> reads deserializeTargets (sized_bytes (le_put 2) ids) ids"
  unfolding deserializeTargets_eq by (rule uint16_elem.lists.des_reads) simp

definition header_bytes :: "u32 \<Rightarrow> u32 \<Rightarrow> u32 \<Rightarrow> u16 option \<Rightarrow> bytes" where
  "header_bytes len type chunkSize poolId =
     le_put 4 len @ le_put 4 (type OR (if poolId = None then HAS_NO_POOL_FLAG else 0)) @ le_put 4 chunkSize @
     (case poolId of Some v \<Rightarrow> le_put 2 v | None \<Rightarrow> [])"

lemma bit_pool_flag: "bit HAS_NO_POOL_FLAG n \<longleftrightarrow> n = 24"
  unfolding HAS_NO_POOL_FLAG_def bit_push_bit_iff bit_1_iff by auto

lemma small_type: "(type :: u32) < 16 \<Longrightarrow> \<not> bit type 24"
proof
  assume "type < 16" "bit type 24"
  then have "bit (unat type) 24" by (simp add: bit_unsigned_iff)
  moreover have "unat type < 16" using \<open>type < 16\<close> by (simp add: word_less_nat_alt)
  ultimately show False by (simp add: bit_iff_odd)
qed

lemma header_flag:
  assumes "type < 16"
  shows "(type OR HAS_NO_POOL_FLAG) AND HAS_NO_POOL_FLAG = HAS_NO_POOL_FLAG"
    "type AND HAS_NO_POOL_FLAG = 0" "HAS_NO_POOL_FLAG \<noteq> 0"
    "(type OR HAS_NO_POOL_FLAG) AND NOT HAS_NO_POOL_FLAG = type" "type AND NOT HAS_NO_POOL_FLAG = type"
  using small_type [OF assms]
  by (auto intro!: bit_word_eqI simp: bit_and_iff bit_or_iff bit_not_iff bit_pool_flag)
     (metis bit_0_eq bit_pool_flag bot_apply bot_bool_def)

lemma reads_header:
  assumes "type < 16" "chunkSize \<noteq> 0" "STRIPEPATTERN_HEADER_LENGTH \<le> len"
  shows "reads (StripePattern_deserializeHeader g) (header_bytes len type chunkSize poolId)
    \<lparr>ph_patternLength = len, ph_patternType = type, ph_chunkSize = chunkSize,
     ph_storagePoolId = (case poolId of Some v \<Rightarrow> v | None \<Rightarrow> g_poolId g)\<rparr>"
proof -
  let ?t = "type OR (if poolId = None then HAS_NO_POOL_FLAG else 0)"
  let ?h = "\<lambda>pool. \<lparr>ph_patternLength = len, ph_patternType = type, ph_chunkSize = chunkSize, ph_storagePoolId = pool\<rparr>"
  have t: "?t AND NOT HAS_NO_POOL_FLAG = type" "?t AND HAS_NO_POOL_FLAG = 0 \<longleftrightarrow> poolId \<noteq> None"
    using header_flag [OF assms(1)] by auto
  have "\<not> len < STRIPEPATTERN_HEADER_LENGTH" using assms(3) by (simp add: not_less)
  have last: "reads (\<lambda>buf ctx. dbind (if ?t AND HAS_NO_POOL_FLAG = 0 then StoragePoolId_deserialize buf ctx
      else Ok (g_poolId g, ctx)) (\<lambda>(storagePoolId, ctx).
        if len < STRIPEPATTERN_HEADER_LENGTH then Rejected else if chunkSize = 0 then Rejected
        else Ok (\<lparr>ph_patternLength = len, ph_patternType = ?t AND NOT HAS_NO_POOL_FLAG, ph_chunkSize = chunkSize,
                  ph_storagePoolId = storagePoolId\<rparr>, ctx)))
      (case poolId of Some v \<Rightarrow> le_put 2 v | None \<Rightarrow> []) (?h (case poolId of Some v \<Rightarrow> v | None \<Rightarrow> g_poolId g))"
    using assms(2) t \<open>\<not> len < STRIPEPATTERN_HEADER_LENGTH\<close>
    by (cases poolId)
       (simp_all add: reads_Ok reads_last_field [where h = ?h, OF ushort_codec.des_reads [OF TrueI]]
          StoragePoolId_deserialize_def)
  show ?thesis
    unfolding StripePattern_deserializeHeader_def [abs_def] header_bytes_def
    by (intro reads_bind [OF uint_codec.des_reads] TrueI last)
qed

lemma reads_raid0:
  assumes "8 + length ids * 2 < 2 ^ 32"
  shows "reads (Raid0Pattern_deserializePattern this) (le_put 4 num @ sized_bytes (le_put 2) ids)
    (this\<lparr>r0_defaultNumTargets := num, r0_stripeTargetIDs := ids\<rparr>)"
  unfolding pattern_deserialize_eqs [abs_def]
  by (intro reads_bind [OF uint_codec.des_reads] TrueI
      reads_last_field [where h = "\<lambda>ids. this\<lparr>r0_defaultNumTargets := num, r0_stripeTargetIDs := ids\<rparr>"]
      reads_targets assms)

lemma reads_buddyMirror:
  assumes "8 + length ids * 2 < 2 ^ 32"
  shows "reads (BuddyMirrorPattern_deserializePattern this) (le_put 4 num @ sized_bytes (le_put 2) ids)
    (this\<lparr>bp_defaultNumTargets := num, bp_mirrorBuddyGroupIDs := ids\<rparr>)"
  unfolding pattern_deserialize_eqs [abs_def]
  by (intro reads_bind [OF uint_codec.des_reads] TrueI
      reads_last_field [where h = "\<lambda>ids. this\<lparr>bp_defaultNumTargets := num, bp_mirrorBuddyGroupIDs := ids\<rparr>"]
      reads_targets assms)

lemma reads_raid10:
  assumes "8 + length ids * 2 < 2 ^ 32" "8 + length mirrors * 2 < 2 ^ 32"
  shows "reads (Raid10Pattern_deserializePattern this)
    (le_put 4 num @ sized_bytes (le_put 2) ids @ sized_bytes (le_put 2) mirrors)
    (this\<lparr>r10_defaultNumTargets := num, r10_stripeTargetIDs := ids, r10_mirrorTargetIDs := mirrors,
          r10_stripeSetSize := ucast (of_nat (length ids) * ucast (sp_chunkSize this) :: u64)\<rparr>)"
  unfolding pattern_deserialize_eqs [abs_def]
  by (intro reads_bind [OF uint_codec.des_reads] reads_bind [OF reads_targets] TrueI
      reads_last_field [where h = "\<lambda>mirrors. this\<lparr>r10_defaultNumTargets := num, r10_stripeTargetIDs := ids,
        r10_mirrorTargetIDs := mirrors,
        r10_stripeSetSize := ucast (of_nat (length ids) * ucast (sp_chunkSize this) :: u64)\<rparr>"]
      reads_targets assms)

text \<open>A pattern is created from a buffer that holds its bytes.\<close>

lemma createFromBuf_reads:
  assumes "reads (StripePattern_deserializeHeader g) hb h" "reads (createContent g h) cb p"
    and len: "length (hb @ cb) \<le> unat len" "start + unat len \<le> length buf"
      "take (length (hb @ cb)) (drop start buf) = hb @ cb"
  shows "StripePattern_createFromBuf g buf start len = Ok p"
proof -
  let ?ctx = "\<lparr>dc_data = start, dc_length = ucast len\<rparr> :: DeserializeCtx"
  have "reads (\<lambda>buf ctx. dbind (StripePattern_deserializeHeader g buf ctx) (\<lambda>(h, ctx). createContent g h buf ctx))
      (hb @ cb) p"
    using assms(1,2) by (rule reads_bind [where f = "createContent g"])
  moreover have "ctx_ok buf ?ctx" "at_ctx buf ?ctx (hb @ cb)" using len by (simp_all add: ctx_ok_def at_ctx_def)
  ultimately have "dbind (StripePattern_deserializeHeader g buf ?ctx) (\<lambda>(h, ctx). createContent g h buf ctx) =
      Ok (p, advance (length (hb @ cb)) ?ctx)" by (simp add: reads_def)
  then show ?thesis by (simp add: StripePattern_createFromBuf_def)
qed

section \<open>Properties\<close>

text \<open>
  C24. Type safety of received patterns: preprocessing never leaves the message, and creating the
  pattern from the window it found never leaves that window. The result is always a pattern whose
  class, type field and derived fields agree: either the invalid one, or one with a nonzero chunk
  size whose stripe set size is the product of targets and chunk size modulo \<^verbatim>\<open>2^32\<close>.
\<close>

theorem createFromBuf_type:
  assumes "ctx_ok buf ctx"
  shows "StripePattern_deserializePatternPreprocess buf ctx \<noteq> OutOfBounds \<and>
    (\<forall>start len ctx'. StripePattern_deserializePatternPreprocess buf ctx = Ok ((start, len), ctx') \<longrightarrow>
       ctx_ok buf ctx' \<and> (\<exists>p. StripePattern_createFromBuf g buf start len = Ok p \<and> pattern_wf p))"
proof (intro conjI allI impI)
  show "StripePattern_deserializePatternPreprocess buf ctx \<noteq> OutOfBounds"
    using uint_codec.des_safe assms
    by (auto simp: safe_def StripePattern_deserializePatternPreprocess_def dbind_def split: dres.splits)
  fix start len ctx'
  assume pre: "StripePattern_deserializePatternPreprocess buf ctx = Ok ((start, len), ctx')"
  then have s: "start = dc_data ctx" "unat len \<le> unat (dc_length ctx)" "ctx' = advance (unat len) ctx"
    by (auto simp: StripePattern_deserializePatternPreprocess_def dbind_def advance_def word_less_nat_alt
        not_less split: dres.splits if_splits)
  show "ctx_ok buf ctx'" unfolding s(3) by (rule ctx_ok_advance [OF assms s(2)])
  let ?w = "\<lparr>dc_data = start, dc_length = ucast len\<rparr> :: DeserializeCtx"
  let ?c = "dbind (StripePattern_deserializeHeader g buf ?w) (\<lambda>(h, ctx). createContent g h buf ctx)"
  have "ctx_ok buf ?w" using assms s(1,2) by (simp add: ctx_ok_def)
  then have "?c \<noteq> OutOfBounds" using safe_create [of g] by (simp add: safe_def)
  moreover have "pattern_wf p" if "?c = Ok (p, c)" for p c
    using that by (auto simp: dbind_def dest: header_chunk content_wf split: dres.splits prod.splits)
  moreover have "pattern_wf invalidPattern" by (simp add: invalidPattern_def)
  ultimately show "\<exists>p. StripePattern_createFromBuf g buf start len = Ok p \<and> pattern_wf p"
    by (cases ?c) (auto simp: StripePattern_createFromBuf_def)
qed

theorem createFromBuf_type_witness:
  "ctx_ok [4, 0, 0, 0, 9] \<lparr>dc_data = 0, dc_length = 5\<rparr> \<and>
   StripePattern_deserializePatternPreprocess [4, 0, 0, 0, 9] \<lparr>dc_data = 0, dc_length = 5\<rparr> \<noteq> OutOfBounds"
proof -
  have "ctx_ok [4, 0, 0, 0, 9] \<lparr>dc_data = 0, dc_length = 5\<rparr>" by (simp add: ctx_ok_def)
  with createFromBuf_type [OF this] show ?thesis by blast
qed

text \<open>
  The shortcuts of Raid10 need a chunk size that is a power of two, and nothing checks that
  of a received pattern: a Raid10 pattern with two targets and a chunk size of 192 KiB is created
  from its message and accepted when the file is opened, and the target of offset 262144 is then
  looked up behind the end of the target vector.
\<close>

theorem raid10_chunk_out_of_bounds:
  "\<exists>buf p. StripePattern_createFromBuf g buf 0 (of_nat (length buf)) = Ok p \<and> openfile_acceptsPattern p \<and>
     length (pattern_ids p) = 2 \<and> getStripeTargetID p 262144 = None"
proof -
  let ?ids = "[1, 2] :: u16 list"
  let ?h = "header_bytes 42 STRIPEPATTERN_Raid10 196608 (Some 1)"
  let ?bs = "?h @ le_put 4 (4 :: u32) @ sized_bytes (le_put 2) ?ids @ sized_bytes (le_put 2) ?ids"
  let ?init = "Raid10Pattern_initFromChunkSize g 196608"
  let ?p = "?init\<lparr>r10_defaultNumTargets := 4, r10_stripeTargetIDs := ?ids, r10_mirrorTargetIDs := ?ids,
    r10_stripeSetSize := ucast (of_nat 2 * ucast (sp_chunkSize ?init) :: u64), sp_storagePoolId := 1\<rparr>"
  have hdr: "reads (StripePattern_deserializeHeader g) ?h
      \<lparr>ph_patternLength = 42, ph_patternType = STRIPEPATTERN_Raid10, ph_chunkSize = 196608, ph_storagePoolId = 1\<rparr>"
    using reads_header [of STRIPEPATTERN_Raid10 196608 42 g "Some 1"]
    by (simp add: STRIPEPATTERN_Raid10_def STRIPEPATTERN_HEADER_LENGTH_def)
  have ids: "8 + length ?ids * 2 < 2 ^ 32" by simp
  have type: "STRIPEPATTERN_Raid10 \<noteq> STRIPEPATTERN_Raid0"
    by (simp add: STRIPEPATTERN_Raid10_def STRIPEPATTERN_Raid0_def)
  have content: "reads (createContent g \<lparr>ph_patternLength = 42, ph_patternType = STRIPEPATTERN_Raid10,
      ph_chunkSize = 196608, ph_storagePoolId = 1\<rparr>)
      (le_put 4 (4 :: u32) @ sized_bytes (le_put 2) ?ids @ sized_bytes (le_put 2) ?ids) (Raid10 ?p)"
    using reads_last_field [where h = "\<lambda>p. Raid10 (p\<lparr>sp_storagePoolId := 1\<rparr>)",
        OF reads_raid10 [OF ids ids, of ?init 4]] type
    by (simp add: createContent_def [abs_def])
  have len: "length ?bs = 42" by (simp add: header_bytes_def sized_bytes_def)
  have "StripePattern_createFromBuf g ?bs 0 (of_nat (length ?bs)) = Ok (Raid10 ?p)"
    by (rule createFromBuf_reads [OF hdr content]) (simp_all only: len take_all drop_0, simp_all)
  moreover have "unat (MathTk_log2Int32 196608) = 17" by (rule log2Int32_floor) simp_all
  then have "getStripeTargetID (Raid10 ?p) 262144 = None"
    by (simp add: Raid10Pattern_getStripeTargetID_def Raid10Pattern_getStripeTargetIndex_def fromChunkSize_defs
        MathTk_isPowerOfTwo_def int64_shr_def UInt16Vec_at_def)
  ultimately show ?thesis
    by (intro exI [of _ ?bs] exI [of _ "Raid10 ?p"])
       (simp add: openfile_acceptsPattern_def fromChunkSize_defs STRIPEPATTERN_Raid10_def STRIPEPATTERN_Invalid_def)
qed

end
