(* ===== verification/Bit_Store.thy ===== *)
theory Bit_Store
  imports Serdes_Lists
begin

text \<open>
  The bit vector of the client (\<^verbatim>\<open>client_module/source/toolkit/BitStore.c\<close>, \<^verbatim>\<open>BitStore.h\<close>) on
  a 64 bit kernel: one block inside the object, further blocks in an array that is allocated when
  needed. An access outside the blocks is \<^term>\<open>None\<close>. Freshly allocated blocks hold arbitrary
  bits, given by the argument \<^term>\<open>garbage\<close>.
\<close>

section \<open>Operations\<close>

record BitStore =
  bs_numBits :: u32
  bs_lowerBits :: u64
  bs_higherBits :: "u64 list option"

definition BITSTORE_BLOCK_BIT_COUNT :: u32 where "BITSTORE_BLOCK_BIT_COUNT = 64"

definition BitStore_getBitBlockIndex :: "u32 \<Rightarrow> u32" where
  "BitStore_getBitBlockIndex bitIndex = bitIndex div BITSTORE_BLOCK_BIT_COUNT"

definition BitStore_getBitIndexInBitBlock :: "u32 \<Rightarrow> u32" where
  "BitStore_getBitIndexInBitBlock bitIndex = bitIndex mod BITSTORE_BLOCK_BIT_COUNT"

definition BitStore_calculateBitBlockCount :: "u32 \<Rightarrow> u32" where
  "BitStore_calculateBitBlockCount sz =
     (if sz \<le> BITSTORE_BLOCK_BIT_COUNT then 1
      else let retVal = sz div BITSTORE_BLOCK_BIT_COUNT
           in if sz mod BITSTORE_BLOCK_BIT_COUNT \<noteq> 0 then retVal + 1 else retVal)"

definition BitStore_getBit :: "BitStore \<Rightarrow> u32 \<Rightarrow> bool option" where
  "BitStore_getBit this bitIndex =
     (if bitIndex \<ge> bs_numBits this then Some False
      else
        let index = BitStore_getBitBlockIndex bitIndex;
            indexInBitBlock = BitStore_getBitIndexInBitBlock bitIndex
        in if index = 0 then Some (bit (bs_lowerBits this) (unat indexInBitBlock))
           else case bs_higherBits this of
                  Some hs \<Rightarrow> if unat (index - 1) < length hs
                             then Some (bit (hs ! unat (index - 1)) (unat indexInBitBlock)) else None
                | None \<Rightarrow> None)"

definition set_block_bit :: "nat \<Rightarrow> bool \<Rightarrow> u64 \<Rightarrow> u64" where
  "set_block_bit n isSet block = (if isSet then set_bit n block else unset_bit n block)"

definition BitStore_setBit :: "BitStore \<Rightarrow> u32 \<Rightarrow> bool \<Rightarrow> BitStore option" where
  "BitStore_setBit this bitIndex isSet =
     (let index = BitStore_getBitBlockIndex bitIndex;
          indexInBitBlock = BitStore_getBitIndexInBitBlock bitIndex
      in if bitIndex \<ge> bs_numBits this then Some this
         else if index = 0 then
           Some (this\<lparr>bs_lowerBits := set_block_bit (unat indexInBitBlock) isSet (bs_lowerBits this)\<rparr>)
         else case bs_higherBits this of
                Some hs \<Rightarrow> if unat (index - 1) < length hs
                  then Some (this\<lparr>bs_higherBits := Some (hs[unat (index - 1) :=
                         set_block_bit (unat indexInBitBlock) isSet (hs ! unat (index - 1))])\<rparr>)
                  else None
              | None \<Rightarrow> None)"

definition BitStore_setSize :: "(nat \<Rightarrow> u64) \<Rightarrow> BitStore \<Rightarrow> u32 \<Rightarrow> BitStore" where
  "BitStore_setSize garbage this newSize =
     (let oldBitBlockCount = BitStore_calculateBitBlockCount (bs_numBits this);
          newBitBlockCount = BitStore_calculateBitBlockCount newSize
      in if newBitBlockCount \<noteq> oldBitBlockCount then
           this\<lparr>bs_higherBits := (if newBitBlockCount > 1
                                  then Some (map garbage [0..<unat (newBitBlockCount - 1)]) else None),
                bs_numBits := newBitBlockCount * BITSTORE_BLOCK_BIT_COUNT\<rparr>
         else this)"

definition BitStore_clearBits :: "BitStore \<Rightarrow> BitStore" where
  "BitStore_clearBits this =
     this\<lparr>bs_lowerBits := 0,
          bs_higherBits := map_option (\<lambda>hs. replicate (unat (BitStore_calculateBitBlockCount (bs_numBits this) - 1)) 0 @
            drop (unat (BitStore_calculateBitBlockCount (bs_numBits this) - 1)) hs) (bs_higherBits this)\<rparr>"

definition BitStore_init :: "u64 \<Rightarrow> bool \<Rightarrow> BitStore" where
  "BitStore_init lowerBits setZero =
     \<lparr>bs_numBits = BITSTORE_BLOCK_BIT_COUNT, bs_lowerBits = (if setZero then 0 else lowerBits), bs_higherBits = None\<rparr>"

definition BitStore_initWithSizeAndReset :: "(nat \<Rightarrow> u64) \<Rightarrow> u64 \<Rightarrow> u32 \<Rightarrow> BitStore" where
  "BitStore_initWithSizeAndReset garbage lowerBits sz =
     BitStore_clearBits (BitStore_setSize garbage (BitStore_init lowerBits False) sz)"

text \<open>\<^verbatim>\<open>memcpy\<close> of the first blocks of another array.\<close>

definition copy_blocks :: "nat \<Rightarrow> u64 list \<Rightarrow> u64 list \<Rightarrow> u64 list" where
  "copy_blocks n dst src = take n src @ drop n dst"

definition BitStore_copy :: "(nat \<Rightarrow> u64) \<Rightarrow> BitStore \<Rightarrow> BitStore \<Rightarrow> BitStore option" where
  "BitStore_copy garbage this other =
     (let this = (BitStore_setSize garbage this (bs_numBits other))\<lparr>bs_lowerBits := bs_lowerBits other\<rparr>
      in case bs_higherBits this of
           None \<Rightarrow> Some this
         | Some hs \<Rightarrow>
             let n = unat (BitStore_calculateBitBlockCount (bs_numBits this) - 1)
             in (case bs_higherBits other of
                   Some os \<Rightarrow> if n \<le> length hs \<and> n \<le> length os
                              then Some (this\<lparr>bs_higherBits := Some (copy_blocks n hs os)\<rparr>) else None
                 | None \<Rightarrow> None))"

definition BitStore_copyThreadSafe :: "BitStore \<Rightarrow> BitStore \<Rightarrow> BitStore option" where
  "BitStore_copyThreadSafe this other =
     (let this = this\<lparr>bs_lowerBits := bs_lowerBits other\<rparr>
      in case bs_higherBits this of
           None \<Rightarrow> Some this
         | Some hs \<Rightarrow>
             let thisBlockCount = BitStore_calculateBitBlockCount (bs_numBits this);
                 otherBlockCount = BitStore_calculateBitBlockCount (bs_numBits other);
                 copied = (if otherBlockCount > 1 then
                     let n = unat (min thisBlockCount otherBlockCount - 1)
                     in (case bs_higherBits other of
                           Some os \<Rightarrow> if n \<le> length hs \<and> n \<le> length os then Some (copy_blocks n hs os) else None
                         | None \<Rightarrow> None)
                   else Some hs)
             in Option.bind copied (\<lambda>hs.
                if thisBlockCount > otherBlockCount then
                  let from = unat (otherBlockCount - 1); diff = unat (thisBlockCount - otherBlockCount)
                  in if from + diff \<le> length hs
                     then Some (this\<lparr>bs_higherBits := Some (take from hs @ replicate diff 0 @ drop (from + diff) hs)\<rparr>)
                     else None
                else Some (this\<lparr>bs_higherBits := Some hs\<rparr>)))"

definition BitStore_serialize :: "BitStore \<Rightarrow> SerializeCtx \<Rightarrow> SerializeCtx option" where
  "BitStore_serialize this ctx =
     Option.bind (Serialization_serializeUInt (bs_numBits this) ctx) (\<lambda>ctx.
     Option.bind (Serialization_serializeUInt 0 ctx) (\<lambda>ctx.
     Option.bind (Serialization_serializeUInt64 (bs_lowerBits this) ctx)
       (serializeElems Serialization_serializeUInt64
         (take (unat (BitStore_calculateBitBlockCount (bs_numBits this) - 1))
           (case bs_higherBits this of Some hs \<Rightarrow> hs | None \<Rightarrow> [])))))"

definition BitStore_deserializePreprocess :: "bytes \<Rightarrow> DeserializeCtx \<Rightarrow> (nat \<times> DeserializeCtx) dres" where
  "BitStore_deserializePreprocess buf ctx =
     (let outBitStoreStart = dc_data ctx
      in dbind (Serialization_deserializeUInt buf ctx) (\<lambda>(tmpSize, ctx).
         dbind (Serialization_deserializeUInt buf ctx) (\<lambda>(padding, ctx).
         let blocksLen = ucast (8 * BitStore_calculateBitBlockCount tmpSize) :: u64
         in if blocksLen > dc_length ctx then Rejected
            else Ok (outBitStoreStart,
                     ctx\<lparr>dc_data := dc_data ctx + unat blocksLen, dc_length := dc_length ctx - blocksLen\<rparr>))))"

text \<open>
  \<^verbatim>\<open>BitStore_deserialize\<close> does not look at the results of the fields: a field that is not there
  keeps its old contents and the context does not move.
\<close>

definition keepOld ::
    "'a \<Rightarrow> (bytes \<Rightarrow> DeserializeCtx \<Rightarrow> ('a \<times> DeserializeCtx) dres) \<Rightarrow> bytes \<Rightarrow> DeserializeCtx \<Rightarrow> ('a \<times> DeserializeCtx) dres" where
  "keepOld old des buf ctx = (case des buf ctx of Rejected \<Rightarrow> Ok (old, ctx) | r \<Rightarrow> r)"

fun deserializeBlocks :: "u64 list \<Rightarrow> bytes \<Rightarrow> DeserializeCtx \<Rightarrow> (u64 list \<times> DeserializeCtx) dres" where
  "deserializeBlocks [] buf ctx = Ok ([], ctx)"
| "deserializeBlocks (b # bs) buf ctx =
     dbind (keepOld b Serialization_deserializeUInt64 buf ctx) (\<lambda>(v, ctx).
     dbind (deserializeBlocks bs buf ctx) (\<lambda>(vs, ctx). Ok (v # vs, ctx)))"

definition BitStore_deserialize ::
    "(nat \<Rightarrow> u64) \<Rightarrow> BitStore \<Rightarrow> bytes \<Rightarrow> DeserializeCtx \<Rightarrow> (BitStore \<times> DeserializeCtx) dres" where
  "BitStore_deserialize garbage this buf ctx =
     dbind (keepOld 0 Serialization_deserializeUInt buf ctx) (\<lambda>(bitCount, ctx).
     dbind (keepOld 0 Serialization_deserializeUInt buf ctx) (\<lambda>(padding, ctx).
     let this = BitStore_setSize garbage this bitCount
     in dbind (keepOld (bs_lowerBits this) Serialization_deserializeUInt64 buf ctx) (\<lambda>(lowerBits, ctx).
        let n = unat (BitStore_calculateBitBlockCount (bs_numBits this) - 1);
            hs = (case bs_higherBits this of Some hs \<Rightarrow> hs | None \<Rightarrow> [])
        in if length hs < n then OutOfBounds
           else dbind (deserializeBlocks (take n hs) buf ctx) (\<lambda>(vs, ctx).
             Ok (this\<lparr>bs_lowerBits := lowerBits,
                      bs_higherBits := map_option (\<lambda>_. vs @ drop n hs) (bs_higherBits this)\<rparr>, ctx)))))"

section \<open>Blocks\<close>

definition bs_blocks :: "BitStore \<Rightarrow> u64 list" where
  "bs_blocks s = bs_lowerBits s # (case bs_higherBits s of Some hs \<Rightarrow> hs | None \<Rightarrow> [])"

definition bs_ok :: "BitStore \<Rightarrow> bool" where
  "bs_ok s \<longleftrightarrow> unat (bs_numBits s) = 64 * length (bs_blocks s) \<and> bs_higherBits s \<noteq> Some []"

definition bs_bit :: "BitStore \<Rightarrow> nat \<Rightarrow> bool" where
  "bs_bit s i \<longleftrightarrow> i < unat (bs_numBits s) \<and> bit (bs_blocks s ! (i div 64)) (i mod 64)"

lemma bs_blocks_simps [simp]: "0 < length (bs_blocks s)" "bs_blocks s \<noteq> []"
  by (simp_all add: bs_blocks_def)

lemma unat_block_index:
  "unat (BitStore_getBitBlockIndex i) = unat i div 64" "unat (BitStore_getBitIndexInBitBlock i) = unat i mod 64"
  by (simp_all add: BitStore_getBitBlockIndex_def BitStore_getBitIndexInBitBlock_def BITSTORE_BLOCK_BIT_COUNT_def
      unat_div_distrib unat_mod_distrib)

lemma unat_blockCount:
  "unat (BitStore_calculateBitBlockCount sz) = (if unat sz \<le> 64 then 1 else (unat sz + 63) div 64)"
proof -
  have "unat sz < 2 ^ LENGTH(32)" by (rule unsigned_less)
  then have "unat sz div 64 + 1 < 2 ^ LENGTH(32)" by simp
  then have plus: "unat (sz div 64 + 1) = unat sz div 64 + 1"
    by (simp add: unat_word_ariths(1) unat_div_distrib)
  have "unat (sz mod 64) = unat sz mod 64" by (simp add: unat_mod_distrib)
  then have mod: "sz mod 64 = 0 \<longleftrightarrow> unat sz mod 64 = 0" by (metis unsigned_eq_0_iff)
  have le: "sz \<le> 64 \<longleftrightarrow> unat sz \<le> 64" by (simp add: word_le_nat_alt)
  have up: "(n + 63) div 64 = (if n mod 64 = 0 then n div 64 else n div 64 + 1)" for n :: nat
  proof -
    have "(n mod 64 + 63) div 64 = (if n mod 64 = 0 then 0 else 1)" by (auto intro!: div_nat_eqI)
    then show ?thesis by (simp add: div_add1_eq [of n 63 64])
  qed
  show ?thesis
    unfolding BitStore_calculateBitBlockCount_def BITSTORE_BLOCK_BIT_COUNT_def Let_def mod le
    by (simp add: plus up unat_div_distrib)
qed

lemma blockCount_ok: "bs_ok s \<Longrightarrow> unat (BitStore_calculateBitBlockCount (bs_numBits s)) = length (bs_blocks s)"
  by (auto simp: bs_ok_def unat_blockCount bs_blocks_def split: option.splits)

lemma highers_length:
  "bs_ok s \<Longrightarrow> unat (BitStore_calculateBitBlockCount (bs_numBits s) - 1) = length (tl (bs_blocks s))"
proof -
  assume ok: "bs_ok s"
  then have "BitStore_calculateBitBlockCount (bs_numBits s) \<noteq> 0"
    using blockCount_ok [of s] by (metis bs_blocks_simps(1) less_irrefl unsigned_0)
  then show ?thesis by (simp add: unat_minus_one blockCount_ok [OF ok])
qed

lemma tl_blocks: "tl (bs_blocks s) = (case bs_higherBits s of Some hs \<Rightarrow> hs | None \<Rightarrow> [])"
  by (simp add: bs_blocks_def)

text \<open>Two stores with the same blocks and size are the same vector.\<close>

lemma blocks_eqI: "bs_ok s \<Longrightarrow> bs_ok t \<Longrightarrow> bs_blocks s = bs_blocks t \<Longrightarrow> s = t"
  by (cases s; cases t) (auto simp: bs_ok_def bs_blocks_def word_unat_eq_iff split: option.splits)

section \<open>Access\<close>

lemma block_cases:
  assumes "bs_ok s" "i < bs_numBits s"
  obtains (low) "BitStore_getBitBlockIndex i = 0" "unat i div 64 = 0" "bs_blocks s ! 0 = bs_lowerBits s"
  | (high) hs where "BitStore_getBitBlockIndex i \<noteq> 0" "bs_higherBits s = Some hs"
      "unat (BitStore_getBitBlockIndex i - 1) = unat i div 64 - 1" "unat i div 64 - 1 < length hs"
      "bs_blocks s ! (unat i div 64) = hs ! (unat i div 64 - 1)" "0 < unat i div 64"
proof (cases "BitStore_getBitBlockIndex i = 0")
  case True
  then have "unat i div 64 = 0" using unat_block_index(1) [of i] by (metis unsigned_0)
  with True show thesis by (intro low) (simp_all add: bs_blocks_def)
next
  case False
  have idx: "unat (BitStore_getBitBlockIndex i - 1) = unat i div 64 - 1"
    using False by (simp add: unat_minus_one unat_block_index)
  have pos: "0 < unat i div 64" using False unat_block_index(1) [of i] by (metis gr0I unsigned_eq_0_iff)
  have "unat i div 64 < length (bs_blocks s)"
    using assms by (simp add: bs_ok_def word_less_nat_alt less_mult_imp_div_less mult.commute)
  with pos obtain hs where hs: "bs_higherBits s = Some hs" "unat i div 64 - 1 < length hs"
    by (auto simp: bs_blocks_def split: option.splits)
  then show thesis using False idx pos by (intro high) (auto simp: bs_blocks_def nth_Cons')
qed

lemma getBit_ok: "bs_ok s \<Longrightarrow> BitStore_getBit s i = Some (bs_bit s (unat i))"
proof (cases "i < bs_numBits s")
  case True
  assume ok: "bs_ok s"
  from ok True show ?thesis
  proof (cases rule: block_cases)
    case low
    then show ?thesis using True
      by (simp add: BitStore_getBit_def bs_bit_def word_less_nat_alt word_le_nat_alt unat_block_index)
  next
    case (high hs)
    then show ?thesis using True
      by (simp add: BitStore_getBit_def bs_bit_def word_less_nat_alt word_le_nat_alt unat_block_index)
  qed
next
  case False
  then show ?thesis by (simp add: BitStore_getBit_def bs_bit_def word_less_nat_alt word_le_nat_alt)
qed

lemma bit_set_block_bit: "n < 64 \<Longrightarrow> bit (set_block_bit n b w) m = (if m = n then b else bit w m)"
  by (auto simp: set_block_bit_def bit_set_bit_iff bit_unset_bit_iff dest: bit_imp_le_length)

lemma setBit_blocks:
  assumes "bs_ok s" "i < bs_numBits s"
  obtains t where "BitStore_setBit s i b = Some t" "bs_numBits t = bs_numBits s" "bs_ok t"
    "bs_blocks t = (bs_blocks s)[unat i div 64 := set_block_bit (unat i mod 64) b (bs_blocks s ! (unat i div 64))]"
  using assms
proof (cases rule: block_cases)
  case low
  then show thesis using assms
    by (intro that [of "s\<lparr>bs_lowerBits := set_block_bit (unat i mod 64) b (bs_lowerBits s)\<rparr>"])
       (auto simp: BitStore_setBit_def Let_def unat_block_index bs_ok_def bs_blocks_def split: option.splits)
next
  case (high hs)
  obtain j where "unat i div 64 = Suc j" using high(6) by (auto simp: gr0_conv_Suc)
  with high show thesis using assms
    by (intro that [of "s\<lparr>bs_higherBits := Some (hs[unat i div 64 - 1 := set_block_bit (unat i mod 64) b (hs ! (unat i div 64 - 1))])\<rparr>"])
       (auto simp: BitStore_setBit_def Let_def unat_block_index bs_ok_def bs_blocks_def)
qed

lemma setBit_bits:
  assumes "bs_ok s"
  shows "\<exists>t. BitStore_setBit s i b = Some t \<and> bs_ok t \<and> bs_numBits t = bs_numBits s \<and>
    (\<forall>n. bs_bit t n = (if n = unat i \<and> i < bs_numBits s then b else bs_bit s n))"
proof (cases "i < bs_numBits s")
  case True
  obtain t where t: "BitStore_setBit s i b = Some t" "bs_numBits t = bs_numBits s" "bs_ok t"
    "bs_blocks t = (bs_blocks s)[unat i div 64 := set_block_bit (unat i mod 64) b (bs_blocks s ! (unat i div 64))]"
    using setBit_blocks [OF assms True] .
  have "unat i div 64 < length (bs_blocks s)"
    using assms True by (simp add: bs_ok_def word_less_nat_alt less_mult_imp_div_less mult.commute)
  then have t_bit: "bs_bit t n = (n < unat (bs_numBits s) \<and> bit (if n div 64 = unat i div 64
      then set_block_bit (unat i mod 64) b (bs_blocks s ! (unat i div 64)) else bs_blocks s ! (n div 64)) (n mod 64))" for n
    by (simp add: bs_bit_def t(2,4) nth_list_update)
  have "bs_bit t n = (if n = unat i then b else bs_bit s n)" for n
  proof (cases "n div 64 = unat i div 64")
    case same: True
    show ?thesis
    proof (cases "n = unat i")
      case False
      then have "n mod 64 \<noteq> unat i mod 64" using same by (metis div_mult_mod_eq)
      with same False show ?thesis by (simp add: t_bit bit_set_block_bit bs_bit_def [of s])
    qed (use True in \<open>simp add: t_bit bit_set_block_bit word_less_nat_alt\<close>)
  next
    case False
    then have "n \<noteq> unat i" by auto
    with False show ?thesis by (simp add: t_bit bs_bit_def [of s])
  qed
  then show ?thesis using t True by auto
next
  case False
  then show ?thesis using assms by (auto simp: BitStore_setBit_def Let_def)
qed

section \<open>The interface of the bit vector\<close>

text \<open>What users of the store rely on: reads see the last write to the index and nothing else changes.\<close>

locale bit_vector =
  fixes ok :: "'s \<Rightarrow> bool" and bits :: "'s \<Rightarrow> nat" and get :: "'s \<Rightarrow> u32 \<Rightarrow> bool option"
    and put :: "'s \<Rightarrow> u32 \<Rightarrow> bool \<Rightarrow> 's option"
  assumes get_total: "ok s \<Longrightarrow> get s i \<noteq> None"
    and put_law: "ok s \<Longrightarrow> \<exists>t. put s i b = Some t \<and> ok t \<and> bits t = bits s \<and>
      (\<forall>j. get t j = (if j = i \<and> unat i < bits s then Some b else get s j))"
begin

lemma put_all:
  assumes "ok s" "\<forall>i \<in> set is. unat i < bits s"
  shows "\<exists>t. foldl (\<lambda>r i. Option.bind r (\<lambda>s. put s i True)) (Some s) is = Some t \<and> ok t \<and> bits t = bits s \<and>
    (\<forall>j. get t j = (if j \<in> set is then Some True else get s j))"
  using assms
proof (induction "is" arbitrary: s)
  case Nil
  then show ?case by simp
next
  case (Cons i "is")
  obtain u where u: "put s i True = Some u" "ok u" "bits u = bits s"
    "\<forall>j. get u j = (if j = i \<and> unat i < bits s then Some True else get s j)"
    using put_law [OF Cons.prems(1)] by metis
  obtain t where "foldl (\<lambda>r i. Option.bind r (\<lambda>s. put s i True)) (Some u) is = Some t" "ok t" "bits t = bits u"
    "\<forall>j. get t j = (if j \<in> set is then Some True else get u j)"
    using Cons.IH [OF u(2)] Cons.prems(2) u(3) by auto
  then show ?case using u Cons.prems(2) by auto
qed

end

interpretation bit_store: bit_vector bs_ok "\<lambda>s. unat (bs_numBits s)" BitStore_getBit BitStore_setBit
proof unfold_locales
  fix s :: BitStore and i b
  assume ok: "bs_ok s"
  show "BitStore_getBit s i \<noteq> None" by (simp add: getBit_ok [OF ok])
  obtain t where t: "BitStore_setBit s i b = Some t" "bs_ok t" "bs_numBits t = bs_numBits s"
    "\<forall>n. bs_bit t n = (if n = unat i \<and> i < bs_numBits s then b else bs_bit s n)"
    using setBit_bits [OF ok] by metis
  then show "\<exists>t. BitStore_setBit s i b = Some t \<and> bs_ok t \<and> unat (bs_numBits t) = unat (bs_numBits s) \<and>
      (\<forall>j. BitStore_getBit t j = (if j = i \<and> unat i < unat (bs_numBits s) then Some b else BitStore_getBit s j))"
    using ok by (auto simp: getBit_ok word_less_nat_alt word_unat_eq_iff)
qed

section \<open>Size, reset and copies\<close>

lemma setSize_ok:
  assumes "bs_ok s" "unat n \<le> 2 ^ 32 - 64"
  shows "bs_ok (BitStore_setSize g s n)"
    "length (bs_blocks (BitStore_setSize g s n)) = unat (BitStore_calculateBitBlockCount n)"
proof -
  let ?c = "BitStore_calculateBitBlockCount n"
  have c: "1 \<le> unat ?c" "unat ?c * 64 < 2 ^ 32" using assms(2) by (auto simp: unat_blockCount)
  then have mult: "unat (?c * BITSTORE_BLOCK_BIT_COUNT) = unat ?c * 64"
    by (simp add: unat_word_ariths BITSTORE_BLOCK_BIT_COUNT_def)
  have "?c \<noteq> 0" using c(1) by auto
  then have minus: "unat (?c - 1) = unat ?c - 1" by (rule unat_minus_one)
  have gt: "1 < ?c \<longleftrightarrow> 1 < unat ?c" by (simp add: word_less_nat_alt)
  show "bs_ok (BitStore_setSize g s n)"
    using assms(1) c mult minus gt
    by (auto simp: BitStore_setSize_def Let_def bs_ok_def bs_blocks_def)
  show "length (bs_blocks (BitStore_setSize g s n)) = unat ?c"
    using blockCount_ok [OF assms(1)] c minus gt
    by (auto simp: BitStore_setSize_def Let_def bs_blocks_def)
qed

lemma clear_ok:
  assumes "bs_ok s"
  shows "bs_ok (BitStore_clearBits s)" "bs_blocks (BitStore_clearBits s) = replicate (length (bs_blocks s)) 0"
proof -
  show "bs_blocks (BitStore_clearBits s) = replicate (length (bs_blocks s)) 0"
    unfolding BitStore_clearBits_def highers_length [OF assms] tl_blocks
    by (simp add: bs_blocks_def split: option.split)
  then show "bs_ok (BitStore_clearBits s)"
    using assms highers_length [OF assms] unfolding bs_ok_def
    by (auto simp: BitStore_clearBits_def tl_blocks split: option.splits)
qed

lemma numBits_small: "bs_ok s \<Longrightarrow> unat (bs_numBits s) \<le> 2 ^ 32 - 64"
proof -
  assume "bs_ok s"
  then have "unat (bs_numBits s) = 64 * length (bs_blocks s)" by (simp add: bs_ok_def)
  moreover have "unat (bs_numBits s) < 2 ^ LENGTH(32)" by (rule unsigned_less)
  ultimately have "64 * length (bs_blocks s) < 64 * 2 ^ 26" by simp
  then have "length (bs_blocks s) \<le> 2 ^ 26 - 1" by simp
  then show ?thesis using \<open>unat (bs_numBits s) = _\<close> by simp
qed

lemma blocks_lower_update: "bs_blocks (s\<lparr>bs_lowerBits := w\<rparr>) = w # tl (bs_blocks s)"
  by (simp add: bs_blocks_def)

lemma ok_lower_update: "bs_ok s \<Longrightarrow> bs_ok (s\<lparr>bs_lowerBits := w\<rparr>)"
  by (simp add: bs_ok_def blocks_lower_update)

lemma higher_cases:
  assumes "bs_ok s"
  shows "bs_higherBits s = (if length (bs_blocks s) = 1 then None else Some (tl (bs_blocks s)))"
  using assms by (auto simp: bs_ok_def bs_blocks_def split: option.splits)

lemma copy_eq:
  assumes "bs_ok s" "bs_ok t"
  shows "BitStore_copy g s t = Some t"
proof -
  let ?u = "(BitStore_setSize g s (bs_numBits t))\<lparr>bs_lowerBits := bs_lowerBits t\<rparr>"
  have len: "length (bs_blocks (BitStore_setSize g s (bs_numBits t))) = length (bs_blocks t)"
    using setSize_ok(2) [OF assms(1) numBits_small [OF assms(2)]] by (simp add: blockCount_ok [OF assms(2)])
  have ok: "bs_ok ?u" by (intro ok_lower_update setSize_ok(1) [OF assms(1) numBits_small [OF assms(2)]])
  have lu: "length (bs_blocks ?u) = length (bs_blocks t)" by (simp add: blocks_lower_update len [symmetric])
  show ?thesis
  proof (cases "length (bs_blocks t) = 1")
    case True
    then have "bs_blocks t = [bs_lowerBits t]" by (simp add: bs_blocks_def length_Suc_conv)
    moreover have "length (tl (bs_blocks (BitStore_setSize g s (bs_numBits t)))) = 0"
      using True len by (simp only: length_tl)
    then have "bs_blocks ?u = [bs_lowerBits t]" by (simp only: blocks_lower_update length_0_conv)
    ultimately have "?u = t" by (intro blocks_eqI [OF ok assms(2)]) simp
    then show ?thesis using True by (simp add: BitStore_copy_def Let_def higher_cases [OF assms(2)])
  next
    case False
    let ?v = "?u\<lparr>bs_higherBits := Some (tl (bs_blocks t))\<rparr>"
    have "bs_ok ?v" "bs_blocks ?v = bs_blocks t"
      using ok lu False by (auto simp: bs_ok_def bs_blocks_def split: option.splits)
    then have "?v = t" by (intro blocks_eqI [OF _ assms(2)])
    then show ?thesis
      using False lu higher_cases [OF ok] higher_cases [OF assms(2)] highers_length [OF ok]
      by (simp add: BitStore_copy_def Let_def copy_blocks_def)
  qed
qed

text \<open>The copy that never allocates: as many blocks as fit, and zeros behind them.\<close>

lemma copyThreadSafe_blocks:
  assumes "bs_ok s" "bs_ok t"
  shows "\<exists>u. BitStore_copyThreadSafe s t = Some u \<and> bs_ok u \<and> bs_numBits u = bs_numBits s \<and>
    bs_blocks u = take (length (bs_blocks s)) (bs_blocks t) @
      replicate (length (bs_blocks s) - length (bs_blocks t)) 0"
proof -
  let ?n = "length (bs_blocks s)" and ?m = "length (bs_blocks t)"
  let ?cs = "BitStore_calculateBitBlockCount (bs_numBits s)" and ?ct = "BitStore_calculateBitBlockCount (bs_numBits t)"
  let ?w = "bs_lowerBits t" and ?hs = "tl (bs_blocks s)" and ?os = "tl (bs_blocks t)"
  have cs: "unat ?cs = ?n" and ct: "unat ?ct = ?m" using assms by (simp_all add: blockCount_ok)
  have bt: "bs_blocks t = ?w # ?os" by (simp add: bs_blocks_def)
  have ls: "length ?hs = ?n - 1" "length ?os = ?m - 1" "1 \<le> ?n" "1 \<le> ?m" by (simp_all add: Suc_le_eq)
  show ?thesis
  proof (cases "?n = 1")
    case True
    then have "bs_higherBits s = None" using higher_cases [OF assms(1)] by simp
    with True show ?thesis using assms(1) bt
      by (auto simp: BitStore_copyThreadSafe_def bs_ok_def bs_blocks_def)
  next
    case False
    then have hs: "bs_higherBits s = Some ?hs" using higher_cases [OF assms(1)] by simp
    let ?r = "take (?n - 1) ?os @ replicate (?n - ?m) 0"
    have lr: "length ?r = ?n - 1" using ls by simp
    have "BitStore_copyThreadSafe s t = Some (s\<lparr>bs_lowerBits := ?w, bs_higherBits := Some ?r\<rparr>)"
    proof -
      have gt: "1 < ?ct \<longleftrightarrow> 1 < ?m" "?ct < ?cs \<longleftrightarrow> ?m < ?n" by (simp_all add: word_less_nat_alt cs ct)
      have mt: "unat (?ct - 1) = ?m - 1" using highers_length [OF assms(2)] ls(2) by simp
      have "min ?cs ?ct \<noteq> 0" using cs ct ls by (auto simp: min_def)
      then have mn: "unat (min ?cs ?ct - 1) = min ?n ?m - 1"
        by (simp add: unat_minus_one min_def word_le_nat_alt cs ct)
      have df: "unat (?cs - ?ct) = ?n - ?m" if "?m < ?n"
        using that gt(2) by (simp add: unat_sub word_le_nat_alt cs ct)
      have other: "bs_higherBits t = (if ?m = 1 then None else Some ?os)" by (rule higher_cases [OF assms(2)])
      consider "?m = 1" | "1 < ?m" "?n \<le> ?m" | "1 < ?m" "?m < ?n" using ls(4) by linarith
      then show ?thesis
      proof cases
        case 1
        then have "tl (bs_blocks t) = []" using ls(2) by (metis diff_self_eq_0 length_0_conv)
        with 1 show ?thesis using False ls gt df mt
          by (simp add: BitStore_copyThreadSafe_def hs Let_def)
      next
        case 2
        then show ?thesis using ls gt mn other
          by (simp add: BitStore_copyThreadSafe_def hs Let_def copy_blocks_def)
      next
        case 3
        then show ?thesis using ls gt mn mt df other
          by (simp add: BitStore_copyThreadSafe_def hs Let_def copy_blocks_def)
      qed
    qed
    moreover have "bs_ok (s\<lparr>bs_lowerBits := ?w, bs_higherBits := Some ?r\<rparr>)"
      using assms(1) lr ls False by (auto simp: bs_ok_def bs_blocks_def)
    moreover have "bs_blocks (s\<lparr>bs_lowerBits := ?w, bs_higherBits := Some ?r\<rparr>) =
        take ?n (bs_blocks t) @ replicate (?n - ?m) 0"
      using ls(3) by (subst bt) (simp add: bs_blocks_def take_Cons')
    ultimately show ?thesis by (intro exI) auto
  qed
qed

section \<open>Messages\<close>

definition BitStore_bytes :: "BitStore \<Rightarrow> bytes" where
  "BitStore_bytes s = le_put 4 (bs_numBits s) @ le_put 4 (0 :: u32) @ le_put 8 (bs_lowerBits s) @
     concat (map (le_put 8) (tl (bs_blocks s)))"

lemma reads_keepOld: "reads des bs v \<Longrightarrow> reads (keepOld old des) bs v"
  by (simp add: reads_def keepOld_def)

lemma safe_keepOld: "safe des \<Longrightarrow> safe (keepOld old des)"
  by (auto simp: safe_def keepOld_def split: dres.splits intro: exI [of _ 0])

lemma reads_blocks:
  "length old = length ws \<Longrightarrow> reads (deserializeBlocks old) (concat (map (le_put 8) ws)) ws"
proof (induction old ws rule: list_induct2)
  case Nil
  show ?case by (simp add: reads_def)
next
  case (Cons b old w ws)
  have "reads (\<lambda>buf ctx. dbind (keepOld b Serialization_deserializeUInt64 buf ctx) (\<lambda>(v, ctx).
      dbind (deserializeBlocks old buf ctx) (\<lambda>(vs, ctx). Ok (v # vs, ctx))))
      (le_put 8 w @ concat (map (le_put 8) ws)) (w # ws)"
    by (intro reads_bind [OF reads_keepOld [OF uint64_codec.des_reads [OF TrueI]]]
        reads_last_field [where h = "Cons w", OF Cons.IH])
  then show ?case by (simp add: reads_def)
qed

lemma safe_blocks: "safe (deserializeBlocks old)"
proof (induction old)
  case (Cons b old)
  have "safe (\<lambda>buf ctx. dbind (keepOld b Serialization_deserializeUInt64 buf ctx) (\<lambda>(v, ctx).
      dbind (deserializeBlocks old buf ctx) (\<lambda>(vs, ctx). Ok (v # vs, ctx))))"
    by (intro safe_bind safe_keepOld uint64_codec.des_safe safe_last_field Cons.IH)
  then show ?case by (simp add: safe_def)
qed (use safe_Ok [of "[]"] in \<open>simp add: safe_def\<close>)

lemma writes_BitStore: "bs_ok s \<Longrightarrow> writes (BitStore_serialize s) (BitStore_bytes s)"
  unfolding BitStore_serialize_def BitStore_bytes_def highers_length tl_blocks [symmetric]
  by (simp only: take_all [OF order_refl] order_refl)
     (intro writes_bind uint_codec.ser_writes uint64_codec.ser_writes writes_elems TrueI)

lemma reads_BitStore:
  assumes "bs_ok s" "bs_ok t"
  shows "reads (BitStore_deserialize g t) (BitStore_bytes s) s"
proof -
  let ?t = "BitStore_setSize g t (bs_numBits s)"
  let ?n = "unat (BitStore_calculateBitBlockCount (bs_numBits ?t) - 1)"
  have ok: "bs_ok ?t" and len: "length (bs_blocks ?t) = length (bs_blocks s)"
    using setSize_ok [OF assms(2) numBits_small [OF assms(1)]] by (simp_all add: blockCount_ok [OF assms(1)])
  have n: "?n = length (tl (bs_blocks s))" using highers_length [OF ok] len by simp
  let ?hs = "tl (bs_blocks ?t)"
  have hs: "length ?hs = ?n" by (simp add: n len)
  let ?h = "\<lambda>vs. ?t\<lparr>bs_lowerBits := bs_lowerBits s, bs_higherBits := map_option (\<lambda>_. vs @ drop ?n ?hs) (bs_higherBits ?t)\<rparr>"
  have "bs_blocks (?h (tl (bs_blocks s))) = bs_blocks s" "bs_ok (?h (tl (bs_blocks s)))"
    using ok len hs by (auto simp: bs_ok_def bs_blocks_def split: option.splits)
  then have h: "?h (tl (bs_blocks s)) = s" by (intro blocks_eqI [OF _ assms(1)])
  have "reads (\<lambda>buf ctx. if length ?hs < ?n then OutOfBounds
      else dbind (deserializeBlocks (take ?n ?hs) buf ctx) (\<lambda>(vs, ctx). Ok (?h vs, ctx)))
      (concat (map (le_put 8) (tl (bs_blocks s)))) s"
    using reads_last_field [where h = ?h, OF reads_blocks [of "take ?n ?hs" "tl (bs_blocks s)"]] hs n h by simp
  then show ?thesis
    unfolding BitStore_deserialize_def [abs_def] BitStore_bytes_def Let_def tl_blocks [symmetric]
    by (intro reads_bind [OF reads_keepOld [OF uint_codec.des_reads [OF TrueI]]]
        reads_bind [OF reads_keepOld [OF uint64_codec.des_reads [OF TrueI]]])
qed

text \<open>A size within 63 of \<^verbatim>\<open>2^32\<close> wraps to no bits at all; then no block is read behind the first.\<close>

lemma setSize_enough:
  assumes "bs_ok t"
  shows "unat (BitStore_calculateBitBlockCount (bs_numBits (BitStore_setSize g t n)) - 1) \<le>
    length (tl (bs_blocks (BitStore_setSize g t n)))"
proof (cases "unat n \<le> 2 ^ 32 - 64")
  case True
  then show ?thesis using highers_length [OF setSize_ok(1) [OF assms True]] by simp
next
  case False
  have "unat n < 2 ^ LENGTH(32)" by (rule unsigned_less)
  with False have "(unat n + 63) div 64 = 67108864" by (intro div_nat_eqI) simp_all
  then have "unat (BitStore_calculateBitBlockCount n) = 67108864" using False by (simp add: unat_blockCount)
  then have "unat (BitStore_calculateBitBlockCount n) = unat (67108864 :: u32)" by simp
  then have c: "BitStore_calculateBitBlockCount n = 67108864" by (simp only: word_unat_eq_iff)
  have "unat (BitStore_calculateBitBlockCount (bs_numBits t)) \<noteq> 67108864"
    using numBits_small [OF assms] assms by (simp add: blockCount_ok bs_ok_def)
  then have "BitStore_calculateBitBlockCount (bs_numBits t) \<noteq> 67108864" by auto
  moreover have "67108864 * BITSTORE_BLOCK_BIT_COUNT = 0" by (simp add: BITSTORE_BLOCK_BIT_COUNT_def)
  ultimately have "bs_numBits (BitStore_setSize g t n) = 0" using c by (simp add: BitStore_setSize_def Let_def)
  then show ?thesis by (simp add: BitStore_calculateBitBlockCount_def [of 0] BITSTORE_BLOCK_BIT_COUNT_def)
qed

lemma safe_BitStore:
  assumes "bs_ok t"
  shows "safe (BitStore_deserialize g t)"
proof -
  have "safe (\<lambda>buf ctx. if length (tl (bs_blocks u)) < n then OutOfBounds
      else dbind (deserializeBlocks (take n (tl (bs_blocks u))) buf ctx) (\<lambda>(vs, ctx).
        Ok (u\<lparr>bs_lowerBits := w, bs_higherBits := map_option (\<lambda>_. vs @ drop n (tl (bs_blocks u))) (bs_higherBits u)\<rparr>, ctx)))"
    if "n \<le> length (tl (bs_blocks u))" for u n w
    using that by (simp only: not_less [symmetric] if_False)
      (rule safe_last_field [where h = "\<lambda>vs. u\<lparr>bs_lowerBits := w,
          bs_higherBits := map_option (\<lambda>_. vs @ drop n (tl (bs_blocks u))) (bs_higherBits u)\<rparr>", OF safe_blocks])
  note step = this [OF setSize_enough [OF assms]]
  show ?thesis
    unfolding BitStore_deserialize_def [abs_def] Let_def tl_blocks [symmetric]
    by (intro safe_bind safe_keepOld uint_codec.des_safe uint64_codec.des_safe step)
qed

lemma init_ok: "bs_ok (BitStore_init w b)"
  by (simp add: bs_ok_def bs_blocks_def BitStore_init_def BITSTORE_BLOCK_BIT_COUNT_def)

text \<open>A store that was just initialised is a codec for every store.\<close>

interpretation bit_store_codec: safe_codec BitStore_serialize "BitStore_deserialize g (BitStore_init w b)"
  BitStore_bytes bs_ok for g w b
  by unfold_locales (simp_all add: writes_BitStore reads_BitStore safe_BitStore init_ok)

section \<open>Properties\<close>

text \<open>
  C28. The bit store behaves like a bit vector: reading an index after a write gives the written
  bit there and the old bit everywhere else, indexes behind the end read as unset and ignore
  writes, a copy equals the original, and the copy that must not allocate agrees with the
  original on all bits both can hold and has no other bits set. No access leaves the blocks.
\<close>

theorem bit_store_functional:
  assumes "bs_ok s" "bs_ok u"
  shows "\<exists>t v. BitStore_setBit s i b = Some t \<and> bs_ok t \<and>
      (\<forall>j. BitStore_getBit t j = (if j = i \<and> i < bs_numBits s then Some b else BitStore_getBit s j)) \<and>
    BitStore_copy g s u = Some u \<and>
    BitStore_copyThreadSafe s u = Some v \<and> bs_ok v \<and>
      (\<forall>j. BitStore_getBit v j = (if j < bs_numBits s then BitStore_getBit u j else Some False))"
proof -
  obtain t where t: "BitStore_setBit s i b = Some t" "bs_ok t"
    "\<forall>j. BitStore_getBit t j = (if j = i \<and> unat i < unat (bs_numBits s) then Some b else BitStore_getBit s j)"
    using bit_store.put_law [OF assms(1)] by metis
  obtain v where v: "BitStore_copyThreadSafe s u = Some v" "bs_ok v" "bs_numBits v = bs_numBits s"
    "bs_blocks v = take (length (bs_blocks s)) (bs_blocks u) @ replicate (length (bs_blocks s) - length (bs_blocks u)) 0"
    using copyThreadSafe_blocks [OF assms] by metis
  have size: "unat (bs_numBits s) = 64 * length (bs_blocks s)" "unat (bs_numBits u) = 64 * length (bs_blocks u)"
    using assms by (simp_all add: bs_ok_def)
  have "bs_bit v n = (n < unat (bs_numBits s) \<and> bs_bit u n)" for n
  proof (cases "n < unat (bs_numBits s)")
    case True
    then have n: "n div 64 < length (bs_blocks s)" using size by (simp add: less_mult_imp_div_less mult.commute)
    have "n < unat (bs_numBits u) \<longleftrightarrow> n div 64 < length (bs_blocks u)"
      unfolding size(2) by (metis div_less_iff_less_mult mult.commute zero_less_numeral)
    with True n show ?thesis by (auto simp: bs_bit_def v(3,4) nth_append)
  qed (simp add: bs_bit_def v(3))
  then have "BitStore_getBit v j = (if j < bs_numBits s then BitStore_getBit u j else Some False)" for j
    by (simp add: getBit_ok [OF v(2)] getBit_ok [OF assms(2)] word_less_nat_alt)
  then show ?thesis using t v(1,2) copy_eq [OF assms] by (simp add: word_less_nat_alt)
qed

theorem bit_store_functional_witness:
  "let s = BitStore_initWithSizeAndReset (\<lambda>_. 5) 7 100
   in bs_ok s \<and> Option.bind (BitStore_setBit s 70 True) (\<lambda>t. BitStore_getBit t 70) = Some True"
proof -
  let ?s = "BitStore_initWithSizeAndReset (\<lambda>_. 5) 7 100"
  have ok: "bs_ok ?s" unfolding BitStore_initWithSizeAndReset_def by (intro clear_ok setSize_ok init_ok) simp
  have n: "bs_numBits ?s = 128"
    by (simp add: BitStore_initWithSizeAndReset_def BitStore_clearBits_def BitStore_setSize_def BitStore_init_def
        BitStore_calculateBitBlockCount_def BITSTORE_BLOCK_BIT_COUNT_def)
  show ?thesis
    using ok bit_store_functional [OF ok ok, of 70 True "\<lambda>_. 0"] unfolding Let_def n by fastforce
qed

text \<open>
  A bit store that is serialized into a buffer of the size a dry run computed and deserialized
  from it into a freshly initialised store is the original store; and the deserializer never
  leaves the message, also not for a size field that wraps around when it is rounded up to blocks.
\<close>

theorem bit_store_round_trip:
  assumes "bs_ok s" "length (BitStore_bytes s) < 2 ^ 32"
    and "BitStore_serialize s \<lparr>sc_data = None, sc_length = 0\<rparr> = Some c" "length buf = unat (sc_length c)"
  shows "safe (BitStore_deserialize g (BitStore_init w b)) \<and>
    (\<exists>buf' c' rest. BitStore_serialize s \<lparr>sc_data = Some buf, sc_length = 0\<rparr> = Some c' \<and> sc_data c' = Some buf' \<and>
       BitStore_deserialize g (BitStore_init w b) buf' \<lparr>dc_data = 0, dc_length = of_nat (length buf')\<rparr> = Ok (s, rest))"
  using bit_store_codec.round_trip [OF assms, of g w b] bit_store_codec.des_safe [of g w b] by blast

theorem bit_store_round_trip_witness:
  "\<exists>buf' c' rest. BitStore_serialize (BitStore_init 9 False) \<lparr>sc_data = Some (replicate 16 1), sc_length = 0\<rparr> = Some c' \<and>
     sc_data c' = Some buf' \<and>
     BitStore_deserialize (\<lambda>_. 0) (BitStore_init 0 True) buf' \<lparr>dc_data = 0, dc_length = of_nat (length buf')\<rparr> =
       Ok (BitStore_init 9 False, rest)"
proof -
  have len: "length (BitStore_bytes (BitStore_init 9 False)) = 16"
    by (simp add: BitStore_bytes_def bs_blocks_def BitStore_init_def)
  then have "BitStore_serialize (BitStore_init 9 False) \<lparr>sc_data = None, sc_length = 0\<rparr> =
      Some \<lparr>sc_data = None, sc_length = 16\<rparr>"
    using bit_store_codec.dry_run [OF init_ok, of 0 9 False] by simp
  from bit_store_round_trip [OF init_ok _ this, of "replicate 16 1" "\<lambda>_. 0" 0 True] len show ?thesis by auto
qed

end
