(* ===== verification/Chunk_Files.thy ===== *)
theory Chunk_Files
  imports Stripe_Placement
begin

text \<open>
  Files as lists of bytes, with the positioned read and write of the operating system that the
  storage servers apply to their chunk files, and the relation between the chunk files of a striped
  file and its contents. A position of the file that no chunk file reaches reads as zero; the file
  ends behind the last byte that a chunk file has. The relation is the specification of the client's
  read and write path and of the size that the metadata server computes.
\<close>

section \<open>Positioned access\<close>

definition byte_at :: "'a :: zero list \<Rightarrow> nat \<Rightarrow> 'a" where
  "byte_at f x = (if x < length f then f ! x else 0)"

definition pwrite :: "nat \<Rightarrow> 'a :: zero list \<Rightarrow> 'a list \<Rightarrow> 'a list" where
  "pwrite off d f = (let g = f @ replicate (off - length f) 0 in take off g @ d @ drop (off + length d) g)"

definition pread :: "nat \<Rightarrow> nat \<Rightarrow> 'a list \<Rightarrow> 'a list" where
  "pread off n f = take n (drop off f)"

lemma length_pwrite: "length (pwrite off d f) = max (length f) (off + length d)"
  by (simp add: pwrite_def Let_def)

lemma byte_at_splice:
  assumes "off \<le> length g"
  shows "byte_at (take off g @ d @ drop (off + length d) g) x =
    (if off \<le> x \<and> x < off + length d then d ! (x - off) else byte_at g x)"
  using assms by (auto simp: byte_at_def nth_append)

lemma byte_at_pwrite:
  "byte_at (pwrite off d f) x = (if off \<le> x \<and> x < off + length d then d ! (x - off) else byte_at f x)"
proof -
  let ?g = "f @ replicate (off - length f) 0"
  have "byte_at ?g x = byte_at f x" by (auto simp: byte_at_def nth_append)
  moreover have "off \<le> length ?g" by simp
  ultimately show ?thesis unfolding pwrite_def Let_def by (simp only: byte_at_splice)
qed

lemma file_eqI:
  assumes "length f = length g" "\<And>x. byte_at f x = byte_at g x"
  shows "f = g"
proof (rule nth_equalityI)
  fix i assume "i < length f"
  then show "f ! i = g ! i" using assms(1) assms(2) [of i] by (simp add: byte_at_def)
qed (rule assms(1))

lemma pwrite_append: "d \<noteq> [] \<Longrightarrow> pwrite (q + length d) e (pwrite q d f) = pwrite q (d @ e) f"
  by (rule file_eqI) (auto simp: length_pwrite byte_at_pwrite nth_append)

lemma length_pread: "length (pread off n f) = min n (length f - off)"
  by (simp add: pread_def)

lemma nth_pread: "i < length (pread off n f) \<Longrightarrow> pread off n f ! i = byte_at f (off + i)"
  by (auto simp: pread_def byte_at_def)

lemma pread_pwrite: "pread off (length d) (pwrite off d f) = d"
proof (rule nth_equalityI)
  fix i assume i: "i < length (pread off (length d) (pwrite off d f))"
  then have "pread off (length d) (pwrite off d f) ! i = byte_at (pwrite off d f) (off + i)" by (rule nth_pread)
  with i show "pread off (length d) (pwrite off d f) ! i = d ! i" by (simp add: byte_at_pwrite length_pread)
qed (simp add: length_pread length_pwrite)

section \<open>Striped files\<close>

definition stripe_present :: "nat \<Rightarrow> nat \<Rightarrow> (nat \<Rightarrow> 'a list) \<Rightarrow> nat \<Rightarrow> bool" where
  "stripe_present c n ch q \<longleftrightarrow> stripe_offset c n q < length (ch (stripe_index c n q))"

definition striped :: "nat \<Rightarrow> nat \<Rightarrow> (nat \<Rightarrow> 'a :: zero list) \<Rightarrow> 'a list \<Rightarrow> bool" where
  "striped c n ch f \<longleftrightarrow>
     (\<forall>q. byte_at f q = byte_at (ch (stripe_index c n q)) (stripe_offset c n q)) \<and>
     (\<forall>q. stripe_present c n ch q \<longrightarrow> q < length f) \<and>
     (f \<noteq> [] \<longrightarrow> stripe_present c n ch (length f - 1))"

lemma striped_empty: "striped c n (\<lambda>t. []) []"
  by (simp add: striped_def stripe_present_def byte_at_def)

lemma striped_cong:
  assumes "0 < n" "\<And>t. t < n \<Longrightarrow> ch t = ch' t"
  shows "striped c n ch f = striped c n ch' f"
  using assms stripe_index_less [OF assms(1), of c] by (simp add: striped_def stripe_present_def)

lemma striped_unique:
  assumes "striped c n ch f" "striped c n ch g"
  shows "f = g"
proof (rule file_eqI)
  have "length f \<le> length g" if "striped c n ch f" "striped c n ch g" for f g :: "'a list"
    using that by (cases "f = []") (fastforce simp: striped_def)+
  with assms show "length f = length g" by (simp add: order_antisym)
qed (use assms in \<open>simp add: striped_def\<close>)

text \<open>On one target a larger local offset is a larger position of the file.\<close>

lemma stripe_position_mono:
  assumes "0 < c" "t < n" "l \<le> m"
  shows "stripe_position c n t l \<le> stripe_position c n t m"
proof (cases "l div c = m div c")
  case True
  have "l = c * (l div c) + l mod c" "m = c * (m div c) + m mod c" by simp_all
  with True assms(3) have "l mod c \<le> m mod c" by (metis nat_add_left_cancel_le)
  with True show ?thesis by (simp add: stripe_position_def)
next
  case False
  with assms(3) have "Suc (l div c) \<le> m div c" by (simp add: div_le_mono le_neq_implies_less Suc_leI)
  then have "Suc (l div c) * (c * n) \<le> m div c * (c * n)" by (rule mult_le_mono1)
  then have "l div c * (c * n) + c * n \<le> m div c * (c * n)" by (simp only: mult_Suc add.commute)
  moreover have "c \<le> c * n" using assms(2) by simp
  moreover have "l mod c < c" using assms(1) by simp
  ultimately show ?thesis unfolding stripe_position_def by linarith
qed

lemma striped_write:
  assumes c: "0 < c" and n: "0 < n" and st: "striped c n ch f" and d: "d \<noteq> []" "q mod c + length d \<le> c"
  defines "t \<equiv> stripe_index c n q" and "l \<equiv> stripe_offset c n q"
  shows "striped c n (ch(t := pwrite l d (ch t))) (pwrite q d f)"
proof -
  let ?ch = "ch(t := pwrite l d (ch t))"
  have t: "t < n" using n by (simp add: t_def stripe_index_less)
  have same: "stripe_index c n (q + k) = t" "stripe_offset c n (q + k) = l + k" if "k < length d" for k
    using stripe_same_chunk [OF c, of q k n] d(2) that by (simp_all add: t_def l_def)
  have hit: "stripe_index c n x = t \<and> l \<le> stripe_offset c n x \<and> stripe_offset c n x < l + length d \<longleftrightarrow>
      q \<le> x \<and> x < q + length d" (is "?A \<longleftrightarrow> ?B") for x
  proof
    assume ?A
    then have "stripe_offset c n x - l < length d" by linarith
    from same [OF this] \<open>?A\<close> have "stripe_index c n (q + (stripe_offset c n x - l)) = stripe_index c n x"
      "stripe_offset c n (q + (stripe_offset c n x - l)) = stripe_offset c n x" by (simp_all only: le_add_diff_inverse)
    then have "q + (stripe_offset c n x - l) = x" by (rule stripe_position_inj)
    with \<open>?A\<close> show ?B by linarith
  next
    assume ?B
    then show ?A using same [of "x - q"] by auto
  qed
  have off: "stripe_offset c n x - l = x - q" if "q \<le> x" "x < q + length d" for x
    using same(2) [of "x - q"] that by simp
  have "byte_at (pwrite q d f) x = byte_at (?ch (stripe_index c n x)) (stripe_offset c n x)" for x
    using st hit [of x] off [of x] by (auto simp: striped_def byte_at_pwrite)
  moreover have "x < length (pwrite q d f)" if "stripe_present c n ?ch x" for x
  proof (cases "stripe_present c n ch x")
    case True
    then show ?thesis using st by (auto simp: striped_def length_pwrite less_max_iff_disj)
  next
    case False
    with that have x: "stripe_index c n x = t" "stripe_offset c n x < l + length d"
      by (auto simp: stripe_present_def length_pwrite split: if_splits)
    let ?e = "q + (length d - 1)"
    have e: "stripe_index c n ?e = t" "stripe_offset c n ?e = l + (length d - 1)"
      using same [of "length d - 1"] d(1) by simp_all
    have "stripe_position c n t (stripe_offset c n x) \<le> stripe_position c n t (stripe_offset c n ?e)"
      using x(2) e(2) by (intro stripe_position_mono [OF c t]) linarith
    then have "x \<le> ?e" using x(1) e(1) by (metis stripe_position_inverse)
    moreover have "0 < length d" using d(1) by simp
    ultimately show ?thesis unfolding length_pwrite by linarith
  qed
  moreover have "stripe_present c n ?ch (length (pwrite q d f) - 1)"
  proof (cases "q + length d \<le> length f")
    case True
    then have "stripe_present c n ch (length f - 1)" "length (pwrite q d f) = length f"
      using st d(1) by (auto simp: striped_def length_pwrite)
    then show ?thesis by (auto simp: stripe_present_def length_pwrite)
  next
    case False
    then have "length (pwrite q d f) - 1 = q + (length d - 1)"
      using d(1) by (cases d) (simp_all add: length_pwrite)
    then show ?thesis using same [of "length d - 1"] d(1) by (simp add: stripe_present_def length_pwrite less_max_iff_disj)
  qed
  ultimately show ?thesis by (simp add: striped_def)
qed

text \<open>Reading a piece from its chunk file gives the bytes of the file up to the end of the chunk file.\<close>

lemma striped_read:
  assumes "0 < c" "0 < n" "striped c n ch f" "q mod c + k \<le> c"
  defines "r \<equiv> pread (stripe_offset c n q) k (ch (stripe_index c n q))"
  shows "\<And>i. i < length r \<Longrightarrow> r ! i = byte_at f (q + i)"
    and "\<And>i. length r \<le> i \<Longrightarrow> i < k \<Longrightarrow> byte_at f (q + i) = 0"
    and "length r = k \<or> \<not> stripe_present c n ch (q + length r)"
proof -
  have same: "stripe_index c n (q + i) = stripe_index c n q" "stripe_offset c n (q + i) = stripe_offset c n q + i"
    if "i < k" for i
    using stripe_same_chunk [OF assms(1), of q i n] assms(4) that by simp_all
  have at: "byte_at f (q + i) = byte_at (ch (stripe_index c n q)) (stripe_offset c n q + i)" if "i < k" for i
    using assms(3) same [OF that] by (simp add: striped_def)
  have len: "length r \<le> k" by (simp add: r_def length_pread)
  show "r ! i = byte_at f (q + i)" if "i < length r" for i
    using at [of i] that len nth_pread [of i] by (simp add: r_def)
  show "byte_at f (q + i) = 0" if "length r \<le> i" "i < k" for i
    using at [of i] that by (auto simp: r_def length_pread byte_at_def)
  show "length r = k \<or> \<not> stripe_present c n ch (q + length r)"
    using same [of "length r"] len by (auto simp: stripe_present_def r_def length_pread)
qed

lemma striped_chunk_small:
  assumes "0 < c" "t < n" "striped c n ch f"
  shows "length (ch t) \<le> length f"
proof (cases "ch t = []")
  case False
  define l where "l = length (ch t) - 1"
  let ?q = "stripe_position c n t l"
  have l: "l < length (ch t)" using False by (simp add: l_def)
  have q: "stripe_index c n ?q = t" "stripe_offset c n ?q = l" using assms(1,2) by (rule stripe_index_position, rule stripe_offset_position)
  then have "?q < length f" using assms(3) l by (simp add: striped_def stripe_present_def)
  moreover have "l \<le> ?q" using stripe_offset_le [of c n ?q] q(2) by simp
  ultimately show ?thesis by (simp add: l_def)
qed simp

end
