(* ===== verification/Stripe_Plans.thy ===== *)
theory Stripe_Plans
  imports Striping_Messages Bit_Store Chunk_Files
begin

text \<open>
  What the read and the write path of the client (\<^verbatim>\<open>FhgfsOpsRemoting.c\<close>) share: the state of
  one piece of an operation (\<^verbatim>\<open>FhgfsOpsCommKit.h\<close>), the offset inside the chunk file of a target,
  and the notion of a plan, a sequence of pieces that covers a range of the file. The bytes that a
  piece writes stand for its \<^verbatim>\<open>iov_iter\<close>.
\<close>

section \<open>Operations\<close>

record FileOpState =
  fos_offset :: u64
  fos_totalSize :: u64
  fos_targetID :: u16
  fos_firstWriteDoneForTarget :: bool
  fos_expectedNodeResult :: u64
  fos_data :: bytes

definition FhgfsOpsCommKit_initFileOpState :: "u64 \<Rightarrow> u64 \<Rightarrow> u16 \<Rightarrow> FileOpState" where
  "FhgfsOpsCommKit_initFileOpState offset sz targetID =
     \<lparr>fos_offset = offset, fos_totalSize = sz, fos_targetID = targetID, fos_firstWriteDoneForTarget = False,
      fos_expectedNodeResult = sz, fos_data = []\<rparr>"

definition getChunkOffset :: "u64 \<Rightarrow> u32 \<Rightarrow> u64 \<Rightarrow> u64 \<Rightarrow> u64 option" where
  "getChunkOffset pos chunkSize numNodes stripeNodeIndex =
     (let posModChunkSize = pos AND ucast (chunkSize - 1);
          stripeSetStart = pos - posModChunkSize - stripeNodeIndex * ucast chunkSize;
          nodes = ucast numNodes :: u32
      in if nodes = 0 then None
         else if MathTk_isPowerOfTwo nodes
         then Some (int64_shr stripeSetStart (MathTk_log2Int32 nodes) + posModChunkSize)
         else Some (stripeSetStart div ucast nodes + posModChunkSize))"

section \<open>The local offset\<close>

lemma getChunkOffset_ref:
  assumes "c \<noteq> 0" "MathTk_isPowerOfTwo c" "0 < n" "n < 2 ^ 32" "unat pos < 2 ^ 63"
    and idx: "unat idx = stripe_index (unat c) n (unat pos)"
  shows "\<exists>l. getChunkOffset pos c (of_nat n) idx = Some l \<and> unat l = stripe_offset (unat c) n (unat pos)"
proof -
  let ?P = "unat pos" and ?C = "unat c"
  let ?m = "pos AND ucast (c - 1)"
  let ?s = "pos - ?m - idx * ucast c"
  have C: "0 < ?C" using assms(1) by (simp add: unat_gt_0)
  have m: "unat ?m = ?P mod ?C" by (rule chunk_mod [OF assms(1,2)])
  have s: "unat ?s = n * (?P div (?C * n) * ?C)"
    by (rule stripe_set_start [OF C m idx _ assms(5)]) simp
  have "n * (?P div (?C * n) * ?C) \<le> ?P" unfolding stripe_start [OF C, symmetric] by simp
  then have small: "unat ?s < 2 ^ 63" using s assms(5) by linarith
  have n32: "(ucast (of_nat n :: u64) :: u32) = of_nat n" by (rule ucast_of_nat_64_32 [OF assms(4)])
  have un: "unat (of_nat n :: u32) = n" by (rule unat_of_nat_32 [OF assms(4)])
  have ne: "(of_nat n :: u32) \<noteq> 0" using un assms(3) by auto
  let ?q = "if MathTk_isPowerOfTwo (of_nat n) then int64_shr ?s (MathTk_log2Int32 (of_nat n))
    else ?s div ucast (of_nat n :: u32)"
  have q: "unat ?q = ?P div (?C * n) * ?C"
  proof (cases "MathTk_isPowerOfTwo (of_nat n)")
    case True
    then obtain k where k: "k < 32" "(of_nat n :: u32) = 2 ^ k" using ne by (rule isPowerOfTwoE)
    have "unat (MathTk_log2Int32 (of_nat n)) = k" unfolding k(2) by (rule log2Int32_pow2 [OF k(1)])
    then have "unat ?q = unat ?s div 2 ^ k" using True by (simp only: if_True unat_int64_shr [OF small])
    moreover have "n = 2 ^ k" using un k by (simp only: unat_pow2_32)
    ultimately show ?thesis using s by simp
  next
    case False
    then show ?thesis using s un assms(3) by (simp only: if_False unat_div_distrib unat_ucast_32_64) simp
  qed
  have "?P div (?C * n) * ?C + ?P mod ?C < 2 ^ LENGTH(64)"
    using stripe_offset_le [of ?C n ?P] assms(5) unfolding stripe_offset_def by simp
  then have "unat (?q + ?m) = stripe_offset ?C n ?P"
    using q m by (simp only: unat_add_small stripe_offset_def)
  then show ?thesis using ne unfolding getChunkOffset_def Let_def n32 by (cases "MathTk_isPowerOfTwo (of_nat n)") auto
qed

section \<open>Plans\<close>

text \<open>
  What the loops produce: a sequence of pieces that follow each other in the file from a given
  position on, none of them across a chunk boundary, each addressed to the target and the local
  offset of its first byte.
\<close>

definition io_ok :: "pattern \<Rightarrow> bool" where
  "io_ok p \<longleftrightarrow> pattern_ok p \<and> MathTk_isPowerOfTwo (sp_chunkSize (pattern_base p))"

definition position_index :: "pattern \<Rightarrow> nat \<Rightarrow> nat" where
  "position_index p = stripe_index (pattern_chunk p) (length (pattern_ids p))"

definition position_offset :: "pattern \<Rightarrow> nat \<Rightarrow> nat" where
  "position_offset p = stripe_offset (pattern_chunk p) (length (pattern_ids p))"

fun plan_ok :: "pattern \<Rightarrow> nat \<Rightarrow> FileOpState list \<Rightarrow> bool" where
  "plan_ok p q [] \<longleftrightarrow> True"
| "plan_ok p q (s # ss) \<longleftrightarrow>
     fos_data s \<noteq> [] \<and> q mod pattern_chunk p + length (fos_data s) \<le> pattern_chunk p \<and>
     fos_targetID s = pattern_ids p ! position_index p q \<and> unat (fos_offset s) = position_offset p q \<and>
     fos_totalSize s = fos_expectedNodeResult s \<and> unat (fos_expectedNodeResult s) = length (fos_data s) \<and>
     plan_ok p (q + length (fos_data s)) ss"

definition plan_data :: "FileOpState list \<Rightarrow> bytes" where
  "plan_data ss = concat (map fos_data ss)"

lemma plan_data_simps [simp]:
  "plan_data [] = []" "plan_data (s # ss) = fos_data s @ plan_data ss" "plan_data (ss @ ts) = plan_data ss @ plan_data ts"
  by (simp_all add: plan_data_def)

lemma plan_ok_append:
  "plan_ok p q (ss @ ts) \<longleftrightarrow> plan_ok p q ss \<and> plan_ok p (q + length (plan_data ss)) ts"
  by (induction ss arbitrary: q) (auto simp: add.assoc)

lemma ids_small: "pattern_ok p \<Longrightarrow> length (pattern_ids p) < 2 ^ 32"
proof (cases p)
  case (Raid10 r)
  assume "pattern_ok p"
  then have "unat (r10_stripeSetSize r) = length (pattern_ids p) * unat (sp_chunkSize r)" "0 < unat (sp_chunkSize r)"
    using Raid10 by (simp_all add: raid10_ok_def unat_gt_0)
  then have "length (pattern_ids p) \<le> unat (r10_stripeSetSize r)" by simp
  then show ?thesis using small_chunk(2) by (rule order_le_less_trans)
qed (auto simp: raid0_ok_def buddy_ok_def)

lemma chunkSize_ne: "pattern_ok p \<Longrightarrow> sp_chunkSize (pattern_base p) \<noteq> 0"
  using striping.chunk_pos [of p] by (auto simp: pattern_chunk_def)

lemma rest_of_chunk:
  assumes "io_ok p" "unat off < 2 ^ 63"
  shows "unat (chunkRest (pattern_base p) off) = pattern_chunk p - unat off mod pattern_chunk p"
    "0 < unat (chunkRest (pattern_base p) off)"
proof -
  show eq: "unat (chunkRest (pattern_base p) off) = pattern_chunk p - unat off mod pattern_chunk p"
    using assms unat_chunkRest [OF chunkSize_ne] by (simp add: io_ok_def pattern_chunk_def)
  show "0 < unat (chunkRest (pattern_base p) off)"
    using striping.chunk_pos [of p] assms(1) unfolding eq by (simp add: io_ok_def)
qed

lemma next_index:
  assumes "io_ok p" "unat idx = position_index p q"
  shows "unat ((idx + 1) mod of_nat (length (pattern_ids p)) :: u32) =
    position_index p (q - q mod pattern_chunk p + pattern_chunk p)"
proof -
  let ?n = "length (pattern_ids p)"
  have ok: "pattern_ok p" using assms(1) by (simp add: io_ok_def)
  have n: "0 < ?n" "?n < 2 ^ 32" using striping.ids_pos [OF ok] ids_small [OF ok] .
  have "unat idx < ?n" using assms(2) stripe_index_less [OF n(1)] by (simp add: position_index_def)
  then have "unat idx + unat (1 :: u32) < 2 ^ LENGTH(32)" using n(2) by simp
  then have "unat (idx + 1) = Suc (unat idx)" by (simp add: unat_word_ariths(1))
  then show ?thesis
    using assms(2) n stripe_next_chunk [OF striping.chunk_pos [OF ok] n(1), of q]
    by (simp add: unat_mod_distrib unat_of_nat_32 position_index_def)
qed



lemma io_targetIDs: "io_ok p \<Longrightarrow> getStripeTargetIDs p = Some (pattern_ids p)"
  by (cases p) (simp_all add: io_ok_def)

text \<open>What the loops look up for the piece at an offset, and the index of the target after it.\<close>

lemma piece_lookup:
  assumes "io_ok p" "unat off < 2 ^ 63" "bs_ok fwd" "unat idx = position_index p (unat off)"
  shows "getChunkOffset off (sp_chunkSize (pattern_base p)) (of_nat (length (pattern_ids p))) (ucast (idx :: u32)) =
      Some (of_nat (position_offset p (unat off)))" (is ?A)
    and "UInt16Vec_at (pattern_ids p) (ucast idx) = Some (pattern_ids p ! position_index p (unat off))" (is ?B)
    and "BitStore_getBit fwd idx = Some (bs_bit fwd (position_index p (unat off)))" (is ?C)
    and "unat (of_nat (position_offset p (unat off)) :: u64) = position_offset p (unat off)" (is ?D)
    and "unat idx < length (pattern_ids p)" (is ?E)
proof -
  let ?b = "pattern_base p" and ?n = "length (pattern_ids p)"
  have ok: "pattern_ok p" "MathTk_isPowerOfTwo (sp_chunkSize ?b)" using assms(1) by (simp_all add: io_ok_def)
  have n: "0 < ?n" "?n < 2 ^ 32" using striping.ids_pos [OF ok(1)] ids_small [OF ok(1)] .
  show less: ?E using assms(4) stripe_index_less [OF n(1)] by (simp add: position_index_def)
  have "\<exists>l. getChunkOffset off (sp_chunkSize ?b) (of_nat ?n) (ucast idx) = Some l \<and>
      unat l = stripe_offset (pattern_chunk p) ?n (unat off)"
    unfolding pattern_chunk_def
    by (rule getChunkOffset_ref [OF chunkSize_ne [OF ok(1)] ok(2) n assms(2)])
       (simp add: assms(4) position_index_def pattern_chunk_def)
  then obtain l where l: "getChunkOffset off (sp_chunkSize ?b) (of_nat ?n) (ucast idx) = Some l"
    "unat l = position_offset p (unat off)"
    by (auto simp: position_offset_def)
  then have "of_nat (position_offset p (unat off)) = l" by (metis of_nat_unat ucast_id)
  with l show ?A ?D by simp_all
  show ?B using less assms(4) by (simp add: UInt16Vec_at_def)
  show ?C using getBit_ok [OF assms(3)] assms(4) by simp
qed

lemma advance_offset: "unat off + R < 2 ^ 63 \<Longrightarrow> L \<le> R \<Longrightarrow> unat (off + of_nat L :: u64) = unat off + L"
  by (simp add: unat_word_ariths(1) unat_of_nat)

lemma advance_index:
  assumes "io_ok p" "unat off + R < 2 ^ 63" "unat idx = position_index p (unat off)"
    and L: "L = min (unat (chunkRest (pattern_base p) off)) R" "L < R"
  shows "unat ((idx + 1) mod of_nat (length (pattern_ids p)) :: u32) = position_index p (unat (off + of_nat L))"
proof -
  let ?c = "pattern_chunk p"
  have c: "0 < ?c" using assms(1) striping.chunk_pos by (simp add: io_ok_def)
  have "L = ?c - unat off mod ?c"
    using L rest_of_chunk(1) [OF assms(1), of off] assms(2) by simp
  then have "unat (off + of_nat L) = unat off - unat off mod ?c + ?c"
    using advance_offset [OF assms(2), of L] L(2) mod_less_divisor [OF c, of "unat off"] by simp
  then show ?thesis using next_index [OF assms(1,3)] by (simp only:)
qed

section \<open>The effect of a plan\<close>

text \<open>The chunk files of the targets after a target has stored a piece.\<close>

definition store_piece :: "FileOpState \<Rightarrow> (u16 \<Rightarrow> bytes) \<Rightarrow> u16 \<Rightarrow> bytes" where
  "store_piece s chunks = chunks(fos_targetID s := pwrite (unat (fos_offset s)) (fos_data s) (chunks (fos_targetID s)))"

definition file_of :: "pattern \<Rightarrow> (u16 \<Rightarrow> bytes) \<Rightarrow> bytes \<Rightarrow> bool" where
  "file_of p chunks f \<longleftrightarrow> striped (pattern_chunk p) (length (pattern_ids p)) (\<lambda>t. chunks (pattern_ids p ! t)) f"

lemma store_piece_file:
  assumes "pattern_ok p" "distinct (pattern_ids p)" "file_of p chunks f" "plan_ok p q [s]"
  shows "file_of p (store_piece s chunks) (pwrite q (fos_data s) f)"
proof -
  let ?ids = "pattern_ids p" and ?c = "pattern_chunk p" and ?t = "position_index p q"
  let ?ch = "\<lambda>t. chunks (?ids ! t)"
  have pos: "0 < ?c" "0 < length ?ids" by (rule striping.chunk_pos [OF assms(1)], rule striping.ids_pos [OF assms(1)])
  have t: "?t < length ?ids" using pos(2) by (simp add: position_index_def stripe_index_less)
  let ?ch' = "?ch(?t := pwrite (position_offset p q) (fos_data s) (?ch ?t))"
  have "striped ?c (length ?ids) ?ch' (pwrite q (fos_data s) f)"
    unfolding position_index_def position_offset_def
    by (rule striped_write [OF pos]) (use assms(3,4) in \<open>simp_all add: file_of_def\<close>)
  moreover have "store_piece s chunks (?ids ! u) = ?ch' u" if "u < length ?ids" for u
  proof -
    have "?ids ! u = ?ids ! ?t \<longleftrightarrow> u = ?t" by (rule nth_eq_iff_index_eq [OF assms(2) that t])
    moreover have "fos_targetID s = ?ids ! ?t" "unat (fos_offset s) = position_offset p q" using assms(4) by simp_all
    ultimately show ?thesis by (simp only: store_piece_def fun_upd_apply)
  qed
  then have "striped ?c (length ?ids) (\<lambda>u. store_piece s chunks (?ids ! u)) (pwrite q (fos_data s) f) =
      striped ?c (length ?ids) ?ch' (pwrite q (fos_data s) f)"
    by (rule striped_cong [OF pos(2)])
  ultimately show ?thesis by (simp only: file_of_def)
qed

lemma store_plan_file:
  assumes "pattern_ok p" "distinct (pattern_ids p)"
  shows "file_of p chunks f \<Longrightarrow> plan_ok p q ss \<Longrightarrow>
    file_of p (fold store_piece ss chunks) (if ss = [] then f else pwrite q (plan_data ss) f)"
proof (induction ss arbitrary: q chunks f)
  case (Cons s ss)
  have "file_of p (store_piece s chunks) (pwrite q (fos_data s) f)"
    using store_piece_file [OF assms Cons.prems(1)] Cons.prems(2) by simp
  from Cons.IH [OF this, of "q + length (fos_data s)"] show ?case
    using Cons.prems(2) by (cases "ss = []") (simp_all add: pwrite_append)
qed simp

end
