(* ===== verification/Stripe_Read.thy ===== *)
theory Stripe_Read
  imports Stripe_Plans
begin

text \<open>
  The read path of the client (\<^verbatim>\<open>FhgfsOpsRemoting_readfileVec\<close> in
  \<^verbatim>\<open>client_module/source/net/filesystem/FhgfsOpsRemoting.c\<close>, \<^verbatim>\<open>os/iov_iter.c\<close> and
  \<^verbatim>\<open>FhgfsOpsHelper_readOrClearUser\<close> in \<^verbatim>\<open>filesystem/FhgfsOpsHelper.c\<close>). The destination is the list
  of bytes of the user's buffer with the position that its \<^verbatim>\<open>iov_iter\<close> has reached; a slice of it
  is given by its first index and its length. Three things come from outside: whether memory for a
  piece is there (\<^term>\<open>alloc\<close>), how many bytes of a pipe the kernel maps for a round (\<^term>\<open>pipe\<close>,
  \<^term>\<open>None\<close> for a destination that is no pipe), and what the storage servers answer (\<^term>\<open>comm\<close>):
  a result and the bytes that arrived for each piece of a round.
\<close>

section \<open>Operations\<close>

record ReadState = FileOpState +
  rs_dest :: nat
  rs_useBuddyMirrorSecond :: bool

type_synonym read_comm = "nat \<Rightarrow> ReadState list \<Rightarrow> (u64 \<times> bytes) list"

definition beegfs_readsink_reserve :: "(nat \<Rightarrow> nat) option \<Rightarrow> nat \<Rightarrow> nat \<Rightarrow> nat \<Rightarrow> nat" where
  "beegfs_readsink_reserve pipe rnd iterCount sz =
     (case pipe of None \<Rightarrow> min iterCount sz | Some pages \<Rightarrow> min (pages rnd) (min sz iterCount))"

definition secondMirror :: "pattern \<Rightarrow> u64 option \<Rightarrow> bool" where
  "secondMirror p ino =
     (sp_patternType (pattern_base p) = STRIPEPATTERN_BuddyMirror \<and> (case ino of Some i \<Rightarrow> bit i 0 | None \<Rightarrow> False))"

text \<open>
  One stripe set: the first argument counts the targets that are left, \<^term>\<open>room\<close> the bytes that are
  left in the reserved part of the destination, which goes on at \<^term>\<open>dest\<close>.
\<close>

primrec readStripeSet ::
    "nat \<Rightarrow> (nat \<Rightarrow> bool) \<Rightarrow> pattern \<Rightarrow> u16 list \<Rightarrow> BitStore \<Rightarrow> u64 option \<Rightarrow> nat \<Rightarrow> u64 \<Rightarrow> nat \<Rightarrow> nat \<Rightarrow> nat \<Rightarrow> u32 \<Rightarrow> int
       \<Rightarrow> (ReadState list \<times> u64 \<times> nat \<times> int) option" where
  "readStripeSet 0 alloc p ids firstWriteDone ino numWorks currentOffset toBeRead dest room idx maxIdx =
     Some ([], currentOffset, toBeRead, maxIdx)"
| "readStripeSet (Suc k) alloc p ids firstWriteDone ino numWorks currentOffset toBeRead dest room idx maxIdx =
     (if toBeRead = 0 \<or> room = 0 \<or> \<not> alloc numWorks then Some ([], currentOffset, toBeRead, maxIdx)
      else
        let base = pattern_base p;
            currentChunkSize = unat (chunkRest base currentOffset);
            currentReadSize = min currentChunkSize toBeRead;
            maxIdx = max maxIdx (int (unat idx));
            count = min currentChunkSize room
        in Option.bind (getChunkOffset currentOffset (sp_chunkSize base) (of_nat (length ids)) (ucast idx)) (\<lambda>localOffset.
           Option.bind (UInt16Vec_at ids (ucast idx)) (\<lambda>targetID.
           Option.bind (BitStore_getBit firstWriteDone idx) (\<lambda>fwd.
           let state = FileOpState.extend
                 ((FhgfsOpsCommKit_initFileOpState localOffset (of_nat count) targetID)\<lparr>fos_firstWriteDoneForTarget := fwd\<rparr>)
                 (ReadState.fields dest (secondMirror p ino))
           in map_option (\<lambda>(states, r). (state # states, r))
                (readStripeSet k alloc p ids firstWriteDone ino (numWorks + 1) (currentOffset + of_nat currentReadSize)
                   (toBeRead - currentReadSize) (dest + count) (room - count)
                   ((idx + 1) mod of_nat (length ids)) maxIdx)))))"

text \<open>Verification of a round: the bytes read, the error, and whether the round ends the read.\<close>

fun readfileVerify :: "u64 \<Rightarrow> (ReadState \<times> u64 \<times> bytes) list \<Rightarrow> u64 \<times> u64 \<times> bool" where
  "readfileVerify bytesReadThisRound [] = (bytesReadThisRound, 0, False)"
| "readfileVerify bytesReadThisRound ((state, nodeResult, d) # rest) =
     (if nodeResult = fos_expectedNodeResult state then readfileVerify (bytesReadThisRound + nodeResult) rest
      else if sint nodeResult \<ge> 0 then (bytesReadThisRound + nodeResult, 0, True)
      else (bytesReadThisRound, nodeResult, True))"

text \<open>What arrived for a piece goes to the start of its slice.\<close>

definition receive :: "bytes \<Rightarrow> (ReadState \<times> u64 \<times> bytes) list \<Rightarrow> bytes" where
  "receive = foldl (\<lambda>buf (state, nodeResult, d). pwrite (rs_dest state) (take (unat (fos_totalSize state)) d) buf)"

record ReadResult =
  rr_retVal :: u64
  rr_buf :: bytes
  rr_pos :: nat
  rr_maxUsedTargetIndex :: int

definition OUTOFMEM_result :: u64 where "OUTOFMEM_result = - 26"

primrec readLoop ::
    "nat \<Rightarrow> (nat \<Rightarrow> nat \<Rightarrow> bool) \<Rightarrow> (nat \<Rightarrow> nat) option \<Rightarrow> read_comm \<Rightarrow> pattern \<Rightarrow> u16 list \<Rightarrow> BitStore \<Rightarrow> u64 option
       \<Rightarrow> nat \<Rightarrow> u64 \<Rightarrow> u64 \<Rightarrow> u64 \<Rightarrow> nat \<Rightarrow> nat \<Rightarrow> bytes \<Rightarrow> int \<Rightarrow> ReadResult option" where
  "readLoop 0 alloc pipe comm p ids fwd ino rnd retVal errnum currentOffset toBeRead pos buf maxIdx = None"
| "readLoop (Suc fuel) alloc pipe comm p ids fwd ino rnd retVal errnum currentOffset toBeRead pos buf maxIdx =
     (if toBeRead = 0 \<or> errnum \<noteq> 0 then
        Some \<lparr>rr_retVal = (if retVal \<noteq> 0 then retVal else errnum), rr_buf = buf, rr_pos = pos,
              rr_maxUsedTargetIndex = maxIdx\<rparr>
      else
        Option.bind (getStripeTargetIndex p currentOffset) (\<lambda>index.
        let stripeSetSize = unat (ucast (sp_chunkSize (pattern_base p)) * of_nat (length ids) :: u64);
            maxReadSize = min stripeSetSize toBeRead;
            room = beegfs_readsink_reserve pipe rnd (length buf - pos) maxReadSize
        in Option.bind (readStripeSet (length ids) (alloc rnd) p ids fwd ino 0 currentOffset toBeRead pos room
                          (ucast index) maxIdx) (\<lambda>(states, currentOffset, toBeRead, maxIdx).
           if states = [] then
             Some \<lparr>rr_retVal = (if retVal \<noteq> 0 then retVal else OUTOFMEM_result), rr_buf = buf, rr_pos = pos,
                   rr_maxUsedTargetIndex = maxIdx\<rparr>
           else
             let answers = zip states (comm rnd states);
                 (bytesReadThisRound, errnum, abort) = readfileVerify 0 answers
             in readLoop fuel alloc pipe comm p ids fwd ino (rnd + 1) (retVal + bytesReadThisRound) errnum currentOffset
                  (if abort then 0 else toBeRead) (pos + unat bytesReadThisRound) (receive buf answers) maxIdx)))"

definition FhgfsOpsRemoting_readfileVec ::
    "nat \<Rightarrow> (nat \<Rightarrow> nat \<Rightarrow> bool) \<Rightarrow> (nat \<Rightarrow> nat) option \<Rightarrow> read_comm \<Rightarrow> pattern \<Rightarrow> BitStore \<Rightarrow> u64 option
       \<Rightarrow> int \<Rightarrow> bytes \<Rightarrow> nat \<Rightarrow> nat \<Rightarrow> u64 \<Rightarrow> ReadResult option" where
  "FhgfsOpsRemoting_readfileVec fuel alloc pipe comm p fwd ino maxUsedTargetIndex buf pos toBeRead offset =
     Option.bind (getStripeTargetIDs p) (\<lambda>ids.
       readLoop fuel alloc pipe comm p ids fwd ino 0 0 0 offset toBeRead pos buf maxUsedTargetIndex)"

text \<open>Reading chunk by chunk with zeros where a server answers with an end of file; the error is a number.\<close>

definition ADDRESSFAULT_result :: u64 where "ADDRESSFAULT_result = 21"

primrec readOrClear ::
    "nat \<Rightarrow> nat \<Rightarrow> (nat \<Rightarrow> nat \<Rightarrow> nat \<Rightarrow> bool) \<Rightarrow> (nat \<Rightarrow> nat) option \<Rightarrow> (nat \<Rightarrow> read_comm) \<Rightarrow> pattern \<Rightarrow> BitStore \<Rightarrow> int
       \<Rightarrow> bytes \<Rightarrow> nat \<Rightarrow> nat \<Rightarrow> u64 \<Rightarrow> (u64 \<times> bytes \<times> nat) option" where
  "readOrClear 0 fuel alloc pipe comm p fwd maxIdx buf pos sz offset = None"
| "readOrClear (Suc k) fuel alloc pipe comm p fwd maxIdx buf pos sz offset =
     (if sz = 0 then Some (0, buf, pos)
      else
        let currentReadSize = min (unat (chunkRest (pattern_base p) offset)) sz
        in Option.bind (FhgfsOpsRemoting_readfileVec fuel (alloc k) pipe (comm k) p fwd None maxIdx buf pos currentReadSize offset)
           (\<lambda>r. if sint (rr_retVal r) < 0 then Some (- rr_retVal r, rr_buf r, rr_pos r)
                else
                  let nclear = (if unat (rr_retVal r) < currentReadSize then currentReadSize - unat (rr_retVal r) else 0);
                      cleared = min nclear (length (rr_buf r) - rr_pos r);
                      buf = pwrite (rr_pos r) (replicate cleared 0) (rr_buf r)
                  in if cleared \<noteq> nclear then Some (ADDRESSFAULT_result, buf, rr_pos r + cleared)
                     else readOrClear k fuel alloc pipe comm p fwd (rr_maxUsedTargetIndex r) buf (rr_pos r + nclear)
                            (sz - currentReadSize) (offset + of_nat currentReadSize)))"

section \<open>The pieces of a stripe set\<close>

text \<open>
  Pieces that follow each other in the file from a position on and in the destination from an index
  on, each addressed to the target and the local offset of its first byte.
\<close>

definition rs_size :: "ReadState \<Rightarrow> nat" where
  "rs_size s = unat (fos_totalSize s)"

fun read_plan_ok :: "pattern \<Rightarrow> nat \<Rightarrow> nat \<Rightarrow> ReadState list \<Rightarrow> bool" where
  "read_plan_ok p q dest [] \<longleftrightarrow> True"
| "read_plan_ok p q dest (s # ss) \<longleftrightarrow>
     0 < rs_size s \<and> rs_size s < 2 ^ 63 \<and> q mod pattern_chunk p + rs_size s \<le> pattern_chunk p \<and>
     fos_targetID s = pattern_ids p ! position_index p q \<and> unat (fos_offset s) = position_offset p q \<and>
     fos_expectedNodeResult s = fos_totalSize s \<and> rs_dest s = dest \<and>
     read_plan_ok p (q + rs_size s) (dest + rs_size s) ss"

lemma read_plan_ok_Cons:
  "read_plan_ok p q dest [s] \<Longrightarrow> rs_size s = n \<Longrightarrow> read_plan_ok p (q + n) (dest + n) ss \<Longrightarrow> read_plan_ok p q dest (s # ss)"
  by simp

definition plan_size :: "ReadState list \<Rightarrow> nat" where
  "plan_size ss = sum_list (map rs_size ss)"

lemma plan_size_simps [simp]: "plan_size [] = 0" "plan_size (s # ss) = rs_size s + plan_size ss"
  by (simp_all add: plan_size_def)

definition readPiece :: "pattern \<Rightarrow> BitStore \<Rightarrow> u64 option \<Rightarrow> u64 \<Rightarrow> nat \<Rightarrow> nat \<Rightarrow> ReadState" where
  "readPiece p fwd ino off dest count =
     \<lparr>fos_offset = of_nat (position_offset p (unat off)), fos_totalSize = of_nat count,
      fos_targetID = pattern_ids p ! position_index p (unat off),
      fos_firstWriteDoneForTarget = bs_bit fwd (position_index p (unat off)),
      fos_expectedNodeResult = of_nat count, fos_data = [], rs_dest = dest,
      rs_useBuddyMirrorSecond = secondMirror p ino\<rparr>"

lemma readPiece_ok:
  assumes "io_ok p" "unat off < 2 ^ 63" "bs_ok fwd" "unat (idx :: u32) = position_index p (unat off)"
    and "0 < count" "count \<le> unat (chunkRest (pattern_base p) off)" "count < 2 ^ 63"
  shows "read_plan_ok p (unat off) dest [readPiece p fwd ino off dest count]" "rs_size (readPiece p fwd ino off dest count) = count"
proof -
  show size: "rs_size (readPiece p fwd ino off dest count) = count"
    using assms(7) by (simp add: rs_size_def readPiece_def unat_of_nat)
  have "0 < pattern_chunk p" using assms(1) striping.chunk_pos by (simp add: io_ok_def)
  then have "unat off mod pattern_chunk p + count \<le> pattern_chunk p"
    using rest_of_chunk(1) [OF assms(1,2)] assms(6) mod_less_divisor [of "pattern_chunk p" "unat off"] by linarith
  then show "read_plan_ok p (unat off) dest [readPiece p fwd ino off dest count]"
    using assms(5,7) size piece_lookup(4) [OF assms(1-4)] by (simp add: readPiece_def)
qed

lemma readStripeSet_Suc:
  assumes "io_ok p" "unat off < 2 ^ 63" "bs_ok fwd" "toBeRead \<noteq> 0" "room \<noteq> 0" "alloc numWorks"
    and idx: "unat idx = position_index p (unat off)"
  defines "count \<equiv> min (unat (chunkRest (pattern_base p) off)) room"
    and "len \<equiv> min (unat (chunkRest (pattern_base p) off)) toBeRead"
  shows "readStripeSet (Suc k) alloc p (pattern_ids p) fwd ino numWorks off toBeRead dest room idx m =
    map_option (\<lambda>(states, r). (readPiece p fwd ino off dest count # states, r))
      (readStripeSet k alloc p (pattern_ids p) fwd ino (numWorks + 1) (off + of_nat len) (toBeRead - len)
         (dest + count) (room - count) ((idx + 1) mod of_nat (length (pattern_ids p))) (max m (int (unat idx))))"
proof -
  have "\<not> (toBeRead = 0 \<or> room = 0 \<or> \<not> alloc numWorks)" using assms(4-6) by blast
  then show ?thesis
    unfolding readStripeSet.simps(2) Let_def piece_lookup(1-3) [OF assms(1,2,3) idx]
    by (simp only: if_False Option.bind.bind_lunit)
       (simp add: readPiece_def count_def len_def FhgfsOpsCommKit_initFileOpState_def FileOpState.extend_def ReadState.fields_def)
qed

text \<open>
  The rest of the file range shrinks with every piece; when the reserved part of the destination
  reaches to the end of the range or of the stripe set, the pieces fill it without a gap.
\<close>

definition room_ok :: "pattern \<Rightarrow> nat \<Rightarrow> nat \<Rightarrow> nat \<Rightarrow> bool" where
  "room_ok p k toBeRead room \<longleftrightarrow> room = toBeRead \<or> (k * pattern_chunk p \<le> room \<and> room \<le> toBeRead)"

lemma room_ok_step:
  assumes "room_ok p (Suc k) toBeRead room" "rest \<le> pattern_chunk p"
  shows "min rest room = min rest toBeRead" "room_ok p k (toBeRead - min rest toBeRead) (room - min rest room)"
  using assms by (auto simp: room_ok_def min_def)

lemma readStripeSet_plan:
  assumes "io_ok p" "bs_ok fwd" "unat off + toBeRead < 2 ^ 63"
    and "toBeRead \<noteq> 0 \<longrightarrow> unat idx = position_index p (unat off)"
  shows "\<exists>states off' toBeRead' m'.
    readStripeSet k alloc p (pattern_ids p) fwd ino numWorks off toBeRead dest room idx m =
      Some (states, off', toBeRead', m') \<and>
    unat off' + toBeRead' = unat off + toBeRead \<and> toBeRead' \<le> toBeRead \<and> (states \<noteq> [] \<longrightarrow> toBeRead' < toBeRead) \<and>
    (0 < k \<and> toBeRead \<noteq> 0 \<and> room \<noteq> 0 \<and> alloc numWorks \<longrightarrow> states \<noteq> []) \<and>
    (room_ok p k toBeRead room \<longrightarrow>
       read_plan_ok p (unat off) dest states \<and> toBeRead' + plan_size states = toBeRead \<and> plan_size states \<le> room)"
  using assms(3,4)
proof (induction k arbitrary: numWorks off toBeRead dest room idx m)
  case 0
  then show ?case by simp
next
  case (Suc k)
  show ?case
  proof (cases "toBeRead = 0 \<or> room = 0 \<or> \<not> alloc numWorks")
    case True
    then show ?thesis using Suc.prems by auto
  next
    case False
    let ?rest = "unat (chunkRest (pattern_base p) off)"
    let ?count = "min ?rest room" and ?size = "min ?rest toBeRead"
    let ?s = "readPiece p fwd ino off dest ?count"
    have idx: "unat idx = position_index p (unat off)" using False Suc.prems(2) by simp
    have off: "unat off < 2 ^ 63" using Suc.prems(1) by simp
    have rest: "0 < ?rest" "?rest \<le> pattern_chunk p"
      using rest_of_chunk [OF assms(1) off] by simp_all
    have step: "unat (off + of_nat ?size) = unat off + ?size" by (rule advance_offset [OF Suc.prems(1)]) simp
    have "unat (off + of_nat ?size) + (toBeRead - ?size) < 2 ^ 63" using step Suc.prems(1) by simp
    moreover have "toBeRead - ?size \<noteq> 0 \<longrightarrow>
        unat ((idx + 1) mod of_nat (length (pattern_ids p)) :: u32) = position_index p (unat (off + of_nat ?size))"
      using advance_index [OF assms(1) Suc.prems(1) idx refl] by auto
    ultimately obtain states off' toBeRead' m' where ih:
      "readStripeSet k alloc p (pattern_ids p) fwd ino (numWorks + 1) (off + of_nat ?size) (toBeRead - ?size)
         (dest + ?count) (room - ?count) ((idx + 1) mod of_nat (length (pattern_ids p))) (max m (int (unat idx))) =
         Some (states, off', toBeRead', m')"
      "unat off' + toBeRead' = unat (off + of_nat ?size) + (toBeRead - ?size)" "toBeRead' \<le> toBeRead - ?size"
      "room_ok p k (toBeRead - ?size) (room - ?count) \<longrightarrow>
         read_plan_ok p (unat (off + of_nat ?size)) (dest + ?count) states \<and>
         toBeRead' + plan_size states = toBeRead - ?size \<and> plan_size states \<le> room - ?count"
      using Suc.IH by blast
    have size: "0 < ?size" "?size \<le> toBeRead" using rest(1) False by simp_all
    have run: "readStripeSet (Suc k) alloc p (pattern_ids p) fwd ino numWorks off toBeRead dest room idx m =
        Some (?s # states, off', toBeRead', m')"
      using readStripeSet_Suc [OF assms(1) off assms(2) _ _ _ idx, of toBeRead room alloc numWorks k ino dest m] False ih(1)
      by simp
    have plan: "read_plan_ok p (unat off) dest (?s # states) \<and> toBeRead' + plan_size (?s # states) = toBeRead \<and>
        plan_size (?s # states) \<le> room" if "room_ok p (Suc k) toBeRead room"
    proof -
      have eq: "?count = ?size" and ok: "room_ok p k (toBeRead - ?size) (room - ?count)"
        using room_ok_step [OF that rest(2)] by simp_all
      have "?count < 2 ^ 63" using eq size(2) Suc.prems(1) by linarith
      then have piece: "read_plan_ok p (unat off) dest [?s]" "rs_size ?s = ?count"
        using readPiece_ok [OF assms(1) off assms(2) idx, of ?count] eq size(1) by simp_all
      note rest_ok = ih(4) [THEN mp, OF ok]
      have "read_plan_ok p (unat off) dest (?s # states)"
        by (rule read_plan_ok_Cons [OF piece]) (use rest_ok step eq in \<open>simp only:\<close>)
      moreover have "toBeRead' + plan_size (?s # states) = toBeRead" "plan_size (?s # states) \<le> room"
        using rest_ok size(2) min.cobounded2 [of ?rest room] eq unfolding plan_size_simps piece(2) by linarith+
      ultimately show ?thesis by blast
    qed
    show ?thesis
    proof (intro exI conjI)
      show "readStripeSet (Suc k) alloc p (pattern_ids p) fwd ino numWorks off toBeRead dest room idx m =
        Some (?s # states, off', toBeRead', m')" by (rule run)
      show "unat off' + toBeRead' = unat off + toBeRead" using ih(2) step size(2) by linarith
      show "toBeRead' \<le> toBeRead" using ih(3) by linarith
      show "?s # states \<noteq> [] \<longrightarrow> toBeRead' < toBeRead" using ih(3) size by linarith
      show "room_ok p (Suc k) toBeRead room \<longrightarrow> read_plan_ok p (unat off) dest (?s # states) \<and>
        toBeRead' + plan_size (?s # states) = toBeRead \<and> plan_size (?s # states) \<le> room"
        using plan by blast
    qed simp
  qed
qed

section \<open>A round of answers\<close>

text \<open>A storage server answers with the bytes that the chunk file has at the local offset.\<close>

definition servePiece :: "(u16 \<Rightarrow> bytes) \<Rightarrow> ReadState \<Rightarrow> u64 \<times> bytes" where
  "servePiece chunks s = (let d = pread (unat (fos_offset s)) (rs_size s) (chunks (fos_targetID s)) in (of_nat (length d), d))"

definition answers :: "(u16 \<Rightarrow> bytes) \<Rightarrow> ReadState list \<Rightarrow> (ReadState \<times> u64 \<times> bytes) list" where
  "answers chunks ss = zip ss (map (servePiece chunks) ss)"

definition file_present :: "pattern \<Rightarrow> (u16 \<Rightarrow> bytes) \<Rightarrow> nat \<Rightarrow> bool" where
  "file_present p chunks = stripe_present (pattern_chunk p) (length (pattern_ids p)) (\<lambda>t. chunks (pattern_ids p ! t))"

text \<open>
  The bytes of the file from \<^term>\<open>q\<close> on are in the destination from \<^term>\<open>dest\<close> on, and what was
  before them is unchanged.
\<close>

definition filled :: "bytes \<Rightarrow> nat \<Rightarrow> nat \<Rightarrow> nat \<Rightarrow> bytes \<Rightarrow> bytes \<Rightarrow> bool" where
  "filled f q dest n buf buf' \<longleftrightarrow> length buf' = length buf \<and> (\<forall>j < dest. buf' ! j = buf ! j) \<and>
     (\<forall>i < n. buf' ! (dest + i) = byte_at f (q + i))"

lemma filled_append:
  assumes "filled f q dest n buf buf'" "filled f (q + n) (dest + n) m buf' buf''"
  shows "filled f q dest (n + m) buf buf''"
proof -
  have rest: "buf'' ! (dest + n + i) = byte_at f (q + n + i)" if "i < m" for i
    using assms(2) that by (simp add: filled_def)
  have "buf'' ! (dest + i) = byte_at f (q + i)" if "i < n + m" for i
  proof (cases "i < n")
    case True
    then show ?thesis using assms by (simp add: filled_def)
  next
    case False
    then show ?thesis using rest [of "i - n"] that by simp
  qed
  then show ?thesis using assms by (simp add: filled_def)
qed

text \<open>If fewer than \<^term>\<open>n\<close> bytes arrived, the next one is in no chunk file.\<close>

definition arrived :: "pattern \<Rightarrow> (u16 \<Rightarrow> bytes) \<Rightarrow> bytes \<Rightarrow> nat \<Rightarrow> nat \<Rightarrow> nat \<Rightarrow> nat \<Rightarrow> bytes \<Rightarrow> bytes \<Rightarrow> bool" where
  "arrived p chunks f q dest n r buf buf' \<longleftrightarrow>
     r \<le> n \<and> filled f q dest r buf buf' \<and> (r < n \<longrightarrow> \<not> file_present p chunks (q + r))"

lemma arrived_append:
  "arrived p chunks f q dest n n buf buf' \<Longrightarrow> arrived p chunks f (q + n) (dest + n) m r buf' buf'' \<Longrightarrow>
    arrived p chunks f q dest (n + m) (n + r) buf buf''"
  by (auto simp: arrived_def add.assoc intro: filled_append)

lemma nth_pwrite:
  assumes "x < length f" "off + length d \<le> length f"
  shows "pwrite off d f ! x = (if off \<le> x \<and> x < off + length d then d ! (x - off) else f ! x)"
proof -
  have "pwrite off d f ! x = byte_at (pwrite off d f) x" using assms by (simp add: byte_at_def length_pwrite)
  then show ?thesis using assms(1) by (simp only: byte_at_pwrite) (simp add: byte_at_def)
qed

lemma servePiece_read:
  assumes "pattern_ok p" "file_of p chunks f" "read_plan_ok p q dest [s]"
  obtains d where "servePiece chunks s = (of_nat (length d), d)" "length d \<le> rs_size s"
    "\<And>i. i < length d \<Longrightarrow> d ! i = byte_at f (q + i)"
    "length d = rs_size s \<or> \<not> file_present p chunks (q + length d)"
proof -
  let ?n = "length (pattern_ids p)" and ?c = "pattern_chunk p"
  let ?d = "pread (stripe_offset ?c ?n q) (rs_size s) (chunks (pattern_ids p ! stripe_index ?c ?n q))"
  have serve: "servePiece chunks s = (of_nat (length ?d), ?d)"
    using assms(3) by (simp add: servePiece_def Let_def position_index_def position_offset_def)
  have le: "length ?d \<le> rs_size s" by (simp add: length_pread)
  have "q mod ?c + rs_size s \<le> ?c" using assms(3) by simp
  note rd = striped_read [OF striping.chunk_pos [OF assms(1)] striping.ids_pos [OF assms(1)]
      assms(2) [unfolded file_of_def] this]
  show ?thesis by (rule that [OF serve le rd(1) rd(3) [folded file_present_def]])
qed

lemma round_read:
  assumes "pattern_ok p" "file_of p chunks f"
  shows "read_plan_ok p q dest ss \<Longrightarrow> dest + plan_size ss \<le> length buf \<Longrightarrow>
    \<exists>r. readfileVerify acc (answers chunks ss) = (acc + of_nat r, 0, r < plan_size ss) \<and>
      arrived p chunks f q dest (plan_size ss) r buf (receive buf (answers chunks ss))"
proof (induction ss arbitrary: q dest buf acc)
  case Nil
  then show ?case by (intro exI [of _ 0]) (simp add: answers_def receive_def arrived_def filled_def)
next
  case (Cons s ss)
  let ?L = "rs_size s"
  have piece: "read_plan_ok p q dest [s]" using Cons.prems(1) by simp
  obtain d where d: "servePiece chunks s = (of_nat (length d), d)" "length d \<le> ?L"
    "\<And>i. i < length d \<Longrightarrow> d ! i = byte_at f (q + i)"
    "length d = ?L \<or> \<not> file_present p chunks (q + length d)"
    using servePiece_read [OF assms piece] by blast
  let ?buf = "pwrite dest d buf"
  have len: "dest + length d \<le> length buf" using Cons.prems(2) d(2) by simp
  then have buf: "length ?buf = length buf" by (simp add: length_pwrite)
  have at: "?buf ! (dest + i) = byte_at f (q + i)" if "i < length d" for i
    using that len d(3) by (simp add: nth_pwrite)
  have before: "?buf ! j = buf ! j" if "j < dest" for j
    using that len by (simp add: nth_pwrite)
  have recv: "receive buf (answers chunks (s # ss)) = receive ?buf (answers chunks ss)"
    using d(1,2) piece by (simp add: answers_def receive_def rs_size_def)
  obtain r where r: "readfileVerify (acc + of_nat (length d)) (answers chunks ss) =
      (acc + of_nat (length d) + of_nat r, 0, r < plan_size ss)"
    "arrived p chunks f (q + ?L) (dest + ?L) (plan_size ss) r ?buf (receive ?buf (answers chunks ss))"
    using Cons.IH [of "q + ?L" "dest + ?L" ?buf "acc + of_nat (length d)"] Cons.prems buf by auto
  have keep: "receive ?buf (answers chunks ss) ! j = ?buf ! j" if "j < dest + ?L" for j
    using r(2) that by (simp add: arrived_def filled_def)
  have bound: "?L < 2 ^ 63" using piece by simp
  have result: "unat (of_nat (length d) :: u64) = length d" using bound d(2) by (simp add: unat_of_nat)
  show ?case
  proof (cases "length d = ?L")
    case True
    have "of_nat (length d) = fos_expectedNodeResult s"
      using True piece by (simp add: rs_size_def)
    then have "readfileVerify acc (answers chunks (s # ss)) = (acc + of_nat (?L + r), 0, ?L + r < plan_size (s # ss))"
      using d(1) r(1) True by (simp add: answers_def add.assoc)
    moreover have "arrived p chunks f q dest ?L ?L buf ?buf" using at before buf True by (simp add: arrived_def filled_def)
    from arrived_append [OF this r(2)]
    have "arrived p chunks f q dest (plan_size (s # ss)) (?L + r) buf (receive buf (answers chunks (s # ss)))"
      unfolding recv plan_size_simps .
    ultimately show ?thesis by blast
  next
    case False
    then have "of_nat (length d) \<noteq> fos_expectedNodeResult s" using piece result by (auto simp: rs_size_def)
    moreover have "0 \<le> sint (of_nat (length d) :: u64)" using sint_nonneg [of "of_nat (length d)"] result bound d(2) by simp
    ultimately have "readfileVerify acc (answers chunks (s # ss)) = (acc + of_nat (length d), 0, length d < plan_size (s # ss))"
      using d(1,2) False by (simp add: answers_def)
    then show ?thesis using keep before buf recv at d(2,4) r(2) False
      by (intro exI [of _ "length d"]) (simp add: arrived_def filled_def)
  qed
qed

section \<open>The loop\<close>

lemma stripeSetSize:
  assumes "pattern_ok p"
  shows "unat (ucast (sp_chunkSize (pattern_base p)) * of_nat (length (pattern_ids p)) :: u64) =
    pattern_chunk p * length (pattern_ids p)"
proof -
  let ?n = "length (pattern_ids p)"
  have n: "?n < 2 ^ 32" by (rule ids_small [OF assms])
  then have "unat (of_nat ?n :: u64) = ?n" by (simp add: unat_of_nat)
  moreover have "pattern_chunk p < 2 ^ 32"
    using unsigned_less [of "sp_chunkSize (pattern_base p)"] by (simp add: pattern_chunk_def)
  then have "pattern_chunk p * ?n < 2 ^ 32 * 2 ^ 32" by (rule mult_strict_mono) (use n in simp_all)
  ultimately show ?thesis by (simp add: unat_word_ariths(2) pattern_chunk_def)
qed

lemma first_index:
  assumes "io_ok p" "unat off < 2 ^ 63"
  obtains index where "getStripeTargetIndex p off = Some index" "unat (ucast index :: u32) = position_index p (unat off)"
proof -
  have ok: "pattern_ok p" using assms(1) by (simp add: io_ok_def)
  obtain index where index: "getStripeTargetIndex p off = Some index"
    "unat index = stripe_index (pattern_chunk p) (length (pattern_ids p)) (unat off)"
    using striping.index_ref [OF ok assms(2)] by blast
  have "unat index < 2 ^ 32"
    using index(2) stripe_index_less [OF striping.ids_pos [OF ok]] ids_small [OF ok] by (metis less_trans)
  then show ?thesis using index unat_ucast_64_32 [of index] by (intro that) (simp_all add: position_index_def)
qed

text \<open>The loop ends for any memory, any pipe and any answers.\<close>

lemma readLoop_ends:
  assumes "io_ok p" "bs_ok fwd"
  shows "unat off + toBeRead < 2 ^ 63 \<Longrightarrow> toBeRead < fuel \<Longrightarrow>
    \<exists>rr. readLoop fuel alloc pipe comm p (pattern_ids p) fwd ino rnd retVal errnum off toBeRead pos buf m = Some rr"
proof (induction fuel arbitrary: rnd retVal errnum off toBeRead pos buf m)
  case (Suc fuel)
  show ?case
  proof (cases "toBeRead = 0 \<or> errnum \<noteq> 0")
    case False
    obtain index where index: "getStripeTargetIndex p off = Some index" "unat (ucast index :: u32) = position_index p (unat off)"
      using first_index [OF assms(1), of off] Suc.prems(1) by auto
    let ?room = "beegfs_readsink_reserve pipe rnd (length buf - pos)
      (min (unat (ucast (sp_chunkSize (pattern_base p)) * of_nat (length (pattern_ids p)) :: u64)) toBeRead)"
    obtain states off' toBeRead' m' where set:
      "readStripeSet (length (pattern_ids p)) (alloc rnd) p (pattern_ids p) fwd ino 0 off toBeRead pos ?room (ucast index) m =
         Some (states, off', toBeRead', m')"
      "unat off' + toBeRead' = unat off + toBeRead" "states \<noteq> [] \<longrightarrow> toBeRead' < toBeRead"
      using readStripeSet_plan [OF assms Suc.prems(1)] index(2) by blast
    obtain b e a where ver: "readfileVerify 0 (zip states (comm rnd states)) = (b, e, a)" by (cases "readfileVerify 0 (zip states (comm rnd states))")
    have "unat off' + (if a then 0 else toBeRead') < 2 ^ 63" using set(2) Suc.prems(1) by simp
    moreover have "(if a then 0 else toBeRead') < fuel" if "states \<noteq> []" using set(3) that Suc.prems(2) by simp
    ultimately show ?thesis using Suc.IH index(1) set(1) ver False by (cases "states = []") (simp_all add: Let_def)
  qed auto
qed simp

lemma readLoop_file:
  assumes "io_ok p" "bs_ok fwd" "file_of p chunks f" "\<And>k. alloc k 0" "\<And>k ss. comm k ss = map (servePiece chunks) ss"
  shows "unat off + toBeRead < 2 ^ 63 \<Longrightarrow> toBeRead < fuel \<Longrightarrow> pos + toBeRead \<le> length buf \<Longrightarrow>
    \<exists>r rr. readLoop fuel alloc None comm p (pattern_ids p) fwd ino rnd retVal 0 off toBeRead pos buf m = Some rr \<and>
      rr_retVal rr = retVal + of_nat r \<and> rr_pos rr = pos + r \<and>
      arrived p chunks f (unat off) pos toBeRead r buf (rr_buf rr)"
proof (induction fuel arbitrary: rnd retVal off toBeRead pos buf m)
  case (Suc fuel)
  have ok: "pattern_ok p" using assms(1) by (simp add: io_ok_def)
  show ?case
  proof (cases "toBeRead = 0")
    case True
    then show ?thesis by (intro exI [of _ 0]) (simp add: arrived_def filled_def)
  next
    case False
    let ?n = "length (pattern_ids p)" and ?c = "pattern_chunk p"
    obtain index where index: "getStripeTargetIndex p off = Some index" "unat (ucast index :: u32) = position_index p (unat off)"
      using first_index [OF assms(1), of off] Suc.prems(1) by auto
    let ?room = "min (?c * ?n) toBeRead"
    have room: "beegfs_readsink_reserve None rnd (length buf - pos)
        (min (unat (ucast (sp_chunkSize (pattern_base p)) * of_nat ?n :: u64)) toBeRead) = ?room"
      using Suc.prems(3) by (simp add: beegfs_readsink_reserve_def stripeSetSize [OF ok])
    have pos: "0 < ?c" "0 < ?n" by (rule striping.chunk_pos [OF ok], rule striping.ids_pos [OF ok])
    then have room_ok: "?room \<noteq> 0" "room_ok p ?n toBeRead ?room" using False by (auto simp: room_ok_def min_def)
    obtain states off' toBeRead' m' where set:
      "readStripeSet ?n (alloc rnd) p (pattern_ids p) fwd ino 0 off toBeRead pos ?room (ucast index) m =
         Some (states, off', toBeRead', m')"
      "unat off' + toBeRead' = unat off + toBeRead" "states \<noteq> []" "toBeRead' < toBeRead"
      "read_plan_ok p (unat off) pos states" "toBeRead' + plan_size states = toBeRead"
      using readStripeSet_plan [OF assms(1,2) Suc.prems(1), of "ucast index" ?n "alloc rnd" ino 0 pos ?room m]
        index(2) False room_ok pos(2) assms(4) by auto
    have comm: "zip states (comm rnd states) = answers chunks states" by (simp add: assms(5) answers_def)
    obtain r where r: "readfileVerify 0 (answers chunks states) = (of_nat r, 0, r < plan_size states)"
      "arrived p chunks f (unat off) pos (plan_size states) r buf (receive buf (answers chunks states))"
      using round_read [OF ok assms(3) set(5), of buf 0] Suc.prems(3) set(6) by auto
    have size: "unat (of_nat r :: u64) = r" using r(2) set(6) Suc.prems(1) by (simp add: arrived_def unat_of_nat)
    let ?buf = "receive buf (answers chunks states)"
    have run: "readLoop (Suc fuel) alloc None comm p (pattern_ids p) fwd ino rnd retVal 0 off toBeRead pos buf m =
      readLoop fuel alloc None comm p (pattern_ids p) fwd ino (rnd + 1) (retVal + of_nat r) 0 off'
        (if r < plan_size states then 0 else toBeRead') (pos + r) ?buf m'"
      using False index(1) room set(1,3) r(1) comm size by (simp add: Let_def)
    have len: "length ?buf = length buf" using r(2) by (simp add: arrived_def filled_def)
    show ?thesis
    proof (cases "r < plan_size states")
      case True
      obtain rr where rr: "readLoop fuel alloc None comm p (pattern_ids p) fwd ino (rnd + 1) (retVal + of_nat r) 0 off'
          0 (pos + r) ?buf m' = Some rr" "rr_retVal rr = retVal + of_nat r" "rr_pos rr = pos + r"
        "arrived p chunks f (unat off') (pos + r) 0 0 ?buf (rr_buf rr)"
        using Suc.IH [of off' 0 "pos + r" ?buf "rnd + 1" "retVal + of_nat r" m'] True set(2,4,6) Suc.prems len
        by (auto simp: arrived_def filled_def)
      have "arrived p chunks f (unat off) pos toBeRead r buf (rr_buf rr)"
        using rr(4) r(2) True set(6) by (auto simp: arrived_def filled_def)
      then show ?thesis using run True rr by auto
    next
      case False2: False
      then have eq: "r = plan_size states" using r(2) by (simp add: arrived_def filled_def)
      have "unat off' = unat off + r" using set(2,6) eq by linarith
      obtain r' rr where rr: "readLoop fuel alloc None comm p (pattern_ids p) fwd ino (rnd + 1) (retVal + of_nat r) 0 off'
          toBeRead' (pos + r) ?buf m' = Some rr" "rr_retVal rr = retVal + of_nat r + of_nat r'" "rr_pos rr = pos + r + r'"
        "arrived p chunks f (unat off') (pos + r) toBeRead' r' ?buf (rr_buf rr)"
        using Suc.IH [of off' toBeRead' "pos + r" ?buf "rnd + 1" "retVal + of_nat r" m'] set(2,4,6) Suc.prems len eq
        by auto
      have "arrived p chunks f (unat off) pos toBeRead (r + r') buf (rr_buf rr)"
        unfolding set(6) [symmetric] eq [symmetric] add.commute [of toBeRead' r]
        by (rule arrived_append [OF r(2) [folded eq] rr(4) [unfolded \<open>unat off' = unat off + r\<close>]])
      then show ?thesis using run False2 rr by (intro exI [of _ "r + r'"]) (auto simp: add.assoc)
    qed
  qed
qed simp

end
