(* ===== verification/Stripe_Write.thy ===== *)
theory Stripe_Write
  imports Stripe_Plans
begin

text \<open>
  The write path of the client (\<^verbatim>\<open>client_module/source/net/filesystem/FhgfsOpsRemoting.c\<close>): a
  write is cut at the chunk boundaries, the pieces of a stripe set are sent to their targets
  together, and the results are verified before the next stripe set. The user buffer is the list
  of its bytes, which stands for the \<^verbatim>\<open>iov_iter\<close> and for the number of bytes left. What the
  storage servers answer is the parameter \<^term>\<open>comm\<close>: the results for the pieces of a round.
  Memory for a piece may be missing for all but the first piece of a round, which waits for it;
  the parameter \<^term>\<open>alloc\<close> says for which piece it is there. Results and sizes are 64 bit words,
  read as signed numbers where the code does. The final advance of the caller's \<^verbatim>\<open>iov_iter\<close> by the
  number of written bytes is left out.
\<close>

section \<open>Operations\<close>

text \<open>One stripe set; the first argument is the number of targets without a piece yet.\<close>

primrec writeStripeSet ::
    "nat \<Rightarrow> (nat \<Rightarrow> bool) \<Rightarrow> bool \<Rightarrow> pattern \<Rightarrow> u16 list \<Rightarrow> BitStore \<Rightarrow> nat \<Rightarrow> u64 \<Rightarrow> bytes \<Rightarrow> u32 \<Rightarrow> int
       \<Rightarrow> (FileOpState list \<times> u64 \<times> bytes \<times> int) option" where
  "writeStripeSet 0 alloc serializeWrites p ids firstWriteDone numWorks currentOffset iter idx maxIdx =
     Some ([], currentOffset, iter, maxIdx)"
| "writeStripeSet (Suc k) alloc serializeWrites p ids firstWriteDone numWorks currentOffset iter idx maxIdx =
     (if iter = [] \<or> (numWorks \<noteq> 0 \<and> \<not> alloc numWorks) then Some ([], currentOffset, iter, maxIdx)
      else
        let base = pattern_base p;
            currentChunkSize = chunkRest base currentOffset;
            chunkIter = take (unat currentChunkSize) iter;
            count = length chunkIter;
            maxIdx = max maxIdx (int (unat idx))
        in Option.bind (getChunkOffset currentOffset (sp_chunkSize base) (of_nat (length ids)) (ucast idx)) (\<lambda>localOffset.
           Option.bind (UInt16Vec_at ids (ucast idx)) (\<lambda>targetID.
           Option.bind (BitStore_getBit firstWriteDone idx) (\<lambda>fwd.
           let state = (FhgfsOpsCommKit_initFileOpState localOffset (of_nat count) targetID)
                         \<lparr>fos_firstWriteDoneForTarget := fwd, fos_data := chunkIter\<rparr>
           in if serializeWrites then Some ([state], currentOffset + of_nat count, drop count iter, maxIdx)
              else map_option (\<lambda>(states, r). (state # states, r))
                     (writeStripeSet k alloc serializeWrites p ids firstWriteDone (numWorks + 1)
                        (currentOffset + of_nat count) (drop count iter)
                        ((idx + 1) mod of_nat (length ids)) maxIdx)))))"

text \<open>Verification of a round; returns whether to go on and the number of bytes or the error.\<close>

fun writefileVerify ::
    "u32 \<Rightarrow> u32 \<Rightarrow> u32 \<Rightarrow> u64 \<Rightarrow> BitStore \<Rightarrow> (FileOpState \<times> u64) list \<Rightarrow> (bool \<times> u64 \<times> BitStore) option" where
  "writefileVerify numStripeNodes firstTargetIndex i outWritten firstWriteDone [] =
     Some (True, outWritten, firstWriteDone)"
| "writefileVerify numStripeNodes firstTargetIndex i outWritten firstWriteDone ((state, nodeResult) # rest) =
     (let ok = sint (fos_expectedNodeResult state) \<ge> sint nodeResult;
          outWritten = (if ok then outWritten + nodeResult else outWritten)
      in Option.bind (if ok then BitStore_setBit firstWriteDone ((firstTargetIndex + i) mod numStripeNodes) True
                      else Some firstWriteDone) (\<lambda>firstWriteDone.
         if fos_expectedNodeResult state = nodeResult
         then writefileVerify numStripeNodes firstTargetIndex (if ok then i + 1 else i) outWritten firstWriteDone rest
         else Some (False, (if sint nodeResult \<ge> 0 then outWritten else nodeResult), firstWriteDone)))"

record WriteResult =
  wr_retVal :: u64
  wr_firstWriteDone :: BitStore
  wr_maxUsedTargetIndex :: int
  wr_sent :: "FileOpState list"

text \<open>
  The loop over the stripe sets. It need not end for a pattern without targets, so it has fuel.
  The result lists the pieces in the order they were sent.
\<close>

primrec writeLoop ::
    "nat \<Rightarrow> (nat \<Rightarrow> nat \<Rightarrow> bool) \<Rightarrow> (nat \<Rightarrow> FileOpState list \<Rightarrow> u64 list) \<Rightarrow> bool \<Rightarrow> pattern \<Rightarrow> u16 list
       \<Rightarrow> nat \<Rightarrow> u64 \<Rightarrow> u64 \<Rightarrow> bytes \<Rightarrow> BitStore \<Rightarrow> int \<Rightarrow> WriteResult option" where
  "writeLoop 0 alloc comm serializeWrites p ids round retVal currentOffset iter firstWriteDone maxIdx = None"
| "writeLoop (Suc fuel) alloc comm serializeWrites p ids round retVal currentOffset iter firstWriteDone maxIdx =
     (if iter = [] then
        Some \<lparr>wr_retVal = retVal, wr_firstWriteDone = firstWriteDone, wr_maxUsedTargetIndex = maxIdx, wr_sent = []\<rparr>
      else
        Option.bind (getStripeTargetIndex p currentOffset) (\<lambda>index.
        let firstTargetIndex = ucast index :: u32
        in Option.bind (writeStripeSet (length ids) (alloc round) serializeWrites p ids firstWriteDone 0
                          currentOffset iter firstTargetIndex maxIdx) (\<lambda>(states, currentOffset, iter, maxIdx).
           Option.bind (writefileVerify (of_nat (length ids)) firstTargetIndex 0 0 firstWriteDone
                          (zip states (comm round states))) (\<lambda>(verifyRes, verifyValue, firstWriteDone).
           if verifyRes then
             map_option (\<lambda>r. r\<lparr>wr_sent := states @ wr_sent r\<rparr>)
               (writeLoop fuel alloc comm serializeWrites p ids (round + 1) retVal currentOffset iter firstWriteDone maxIdx)
           else Some \<lparr>wr_retVal = verifyValue, wr_firstWriteDone = firstWriteDone, wr_maxUsedTargetIndex = maxIdx,
                      wr_sent = states\<rparr>))))"

definition FhgfsOpsRemoting_writefileVec ::
    "nat \<Rightarrow> (nat \<Rightarrow> nat \<Rightarrow> bool) \<Rightarrow> (nat \<Rightarrow> FileOpState list \<Rightarrow> u64 list) \<Rightarrow> pattern \<Rightarrow> BitStore \<Rightarrow> int
       \<Rightarrow> bytes \<Rightarrow> u64 \<Rightarrow> bool \<Rightarrow> WriteResult option" where
  "FhgfsOpsRemoting_writefileVec fuel alloc comm p firstWriteDone maxUsedTargetIndex iter offset serializeWrites =
     Option.bind (getStripeTargetIDs p) (\<lambda>targetIDs.
       writeLoop fuel alloc comm serializeWrites p targetIDs 0 (of_nat (length iter)) offset iter firstWriteDone
         maxUsedTargetIndex)"

section \<open>The pieces of a stripe set\<close>

definition pieceOf :: "pattern \<Rightarrow> BitStore \<Rightarrow> u64 \<Rightarrow> bytes \<Rightarrow> FileOpState" where
  "pieceOf p fwd off iter =
     (let d = take (unat (chunkRest (pattern_base p) off)) iter
      in \<lparr>fos_offset = of_nat (position_offset p (unat off)), fos_totalSize = of_nat (length d),
          fos_targetID = pattern_ids p ! position_index p (unat off),
          fos_firstWriteDoneForTarget = bs_bit fwd (position_index p (unat off)),
          fos_expectedNodeResult = of_nat (length d), fos_data = d\<rparr>)"

lemma piece_ok:
  assumes "io_ok p" "unat off < 2 ^ 63" "iter \<noteq> []" "length iter < 2 ^ 63"
  shows "plan_ok p (unat off) [pieceOf p fwd off iter]"
proof -
  let ?d = "take (unat (chunkRest (pattern_base p) off)) iter"
  have c: "0 < pattern_chunk p" using assms(1) striping.chunk_pos by (simp add: io_ok_def)
  have "position_offset p (unat off) < 2 ^ 64"
    using stripe_offset_le [of _ _ "unat off"] assms(2) unfolding position_offset_def
    by (rule order_le_less_trans [THEN less_trans]) simp
  then have o: "unat (of_nat (position_offset p (unat off)) :: u64) = position_offset p (unat off)"
    by (simp add: unat_of_nat)
  have l: "unat (of_nat (length ?d) :: u64) = length ?d" using assms(4) by (simp add: unat_of_nat)
  have "unat off mod pattern_chunk p + length ?d \<le> pattern_chunk p"
    using rest_of_chunk(1) [OF assms(1,2)] mod_less_divisor [OF c, of "unat off"] by simp
  moreover have "?d \<noteq> []" using assms(3) rest_of_chunk(2) [OF assms(1,2)] by simp
  ultimately show ?thesis using o l unfolding pieceOf_def Let_def plan_ok.simps by simp
qed

lemma piece_size: "length (fos_data (pieceOf p fwd off iter)) = min (unat (chunkRest (pattern_base p) off)) (length iter)"
  by (simp add: pieceOf_def Let_def)

lemma piece_advance:
  fixes p fwd
  assumes "unat off + length iter < 2 ^ 63"
  defines "d \<equiv> fos_data (pieceOf p fwd off iter)"
  shows "unat (off + of_nat (length d)) = unat off + length d" "d @ drop (length d) iter = iter"
proof -
  show "unat (off + of_nat (length d)) = unat off + length d"
    by (rule advance_offset [OF assms(1)]) (simp add: d_def piece_size)
  have "drop (min (length iter) r) iter = drop r iter" for r by (simp add: min_def)
  then show "d @ drop (length d) iter = iter" by (simp add: d_def pieceOf_def Let_def)
qed

lemma piece_next_index:
  fixes fwd
  assumes "io_ok p" "unat off + length iter < 2 ^ 63" "unat idx = position_index p (unat off)"
  defines "d \<equiv> fos_data (pieceOf p fwd off iter)"
  assumes "drop (length d) iter \<noteq> []"
  shows "unat ((idx + 1) mod of_nat (length (pattern_ids p)) :: u32) = position_index p (unat (off + of_nat (length d)))"
  using assms(5) by (intro advance_index [OF assms(1-3)]) (simp_all add: d_def piece_size)

lemma writeStripeSet_Suc:
  assumes "io_ok p" "unat off < 2 ^ 63" "bs_ok fwd" "iter \<noteq> []" "numWorks = 0 \<or> alloc numWorks" "length iter < 2 ^ 63"
    and idx: "unat idx = position_index p (unat off)"
  defines "s \<equiv> pieceOf p fwd off iter"
  shows "writeStripeSet (Suc k) alloc serializeWrites p (pattern_ids p) fwd numWorks off iter idx m =
    (if serializeWrites
     then Some ([s], off + of_nat (length (fos_data s)), drop (length (fos_data s)) iter, max m (int (unat idx)))
     else map_option (\<lambda>(states, r). (s # states, r))
       (writeStripeSet k alloc serializeWrites p (pattern_ids p) fwd (numWorks + 1) (off + of_nat (length (fos_data s)))
          (drop (length (fos_data s)) iter) ((idx + 1) mod of_nat (length (pattern_ids p))) (max m (int (unat idx)))))"
proof -
  have "\<not> (iter = [] \<or> (numWorks \<noteq> 0 \<and> \<not> alloc numWorks))" using assms(4,5) by blast
  then show ?thesis
    unfolding writeStripeSet.simps(2) Let_def piece_lookup(1-3) [OF assms(1,2,3) idx]
    by (simp only: if_False Option.bind.bind_lunit) (simp add: s_def pieceOf_def Let_def FhgfsOpsCommKit_initFileOpState_def)
qed

text \<open>The pieces of one round go to consecutive targets, at most one to each.\<close>

definition round_ok :: "pattern \<Rightarrow> nat \<Rightarrow> int \<Rightarrow> FileOpState list \<Rightarrow> bool" where
  "round_ok p t m states \<longleftrightarrow>
     (\<forall>i < length states. let j = (t + i) mod length (pattern_ids p)
        in fos_targetID (states ! i) = pattern_ids p ! j \<and> int j \<le> m)"

lemma round_ok_Nil [simp]: "round_ok p t m []"
  by (simp add: round_ok_def)

lemma round_ok_Cons:
  assumes "fos_targetID s = pattern_ids p ! t" "t < length (pattern_ids p)" "int t \<le> m"
    and "states \<noteq> [] \<longrightarrow> round_ok p (Suc t mod length (pattern_ids p)) m states"
  shows "round_ok p t m (s # states)"
  using assms by (auto simp: round_ok_def Let_def nth_Cons mod_simps split: nat.splits)

lemma writeStripeSet_plan:
  assumes "io_ok p" "bs_ok fwd" "unat off + length iter < 2 ^ 63"
    and "iter \<noteq> [] \<longrightarrow> unat idx = position_index p (unat off)"
  shows "\<exists>states off' iter' m'.
    writeStripeSet k alloc sw p (pattern_ids p) fwd numWorks off iter idx m = Some (states, off', iter', m') \<and>
    plan_ok p (unat off) states \<and> plan_data states @ iter' = iter \<and> unat off' = unat off + length (plan_data states) \<and>
    (iter \<noteq> [] \<and> 0 < k \<and> numWorks = 0 \<longrightarrow> states \<noteq> []) \<and>
    length states \<le> k \<and> m \<le> m' \<and> round_ok p (unat idx) m' states"
  using assms(3,4)
proof (induction k arbitrary: numWorks off iter idx m)
  case 0
  then show ?case by simp
next
  case (Suc k)
  show ?case
  proof (cases "iter = [] \<or> (numWorks \<noteq> 0 \<and> \<not> alloc numWorks)")
    case True
    then show ?thesis using Suc.prems by auto
  next
    case False
    let ?s = "pieceOf p fwd off iter" and ?n = "length (pattern_ids p)"
    let ?d = "fos_data ?s" and ?m = "max m (int (unat idx))"
    let ?idx = "(idx + 1) mod of_nat ?n :: u32"
    let ?off = "off + of_nat (length ?d)"
    have idx: "unat idx = position_index p (unat off)" using False Suc.prems(2) by simp
    have off: "unat off < 2 ^ 63" "length iter < 2 ^ 63" using Suc.prems(1) by simp_all
    note step = writeStripeSet_Suc [OF assms(1) off(1) assms(2) _ _ off(2) idx, where alloc = alloc and numWorks = numWorks and k = k and serializeWrites = sw and m = m]
    have piece: "plan_ok p (unat off) [?s]" using False by (intro piece_ok [OF assms(1) off(1) _ off(2)]) simp
    note adv = piece_advance [OF Suc.prems(1), of p fwd]
    have n: "0 < ?n" "?n < 2 ^ 32" using assms(1) striping.ids_pos ids_small by (simp_all add: io_ok_def)
    have t: "unat idx < ?n" using idx stripe_index_less [OF n(1)] by (simp add: position_index_def)
    have target: "fos_targetID ?s = pattern_ids p ! unat idx" using piece idx by simp
    have round: "round_ok p (unat idx) m' (?s # states)"
      if "?m \<le> m'" "states \<noteq> [] \<longrightarrow> round_ok p (Suc (unat idx) mod ?n) m' states" for m' states
      using that by (intro round_ok_Cons target t) simp_all
    show ?thesis
    proof (cases sw)
      case True
      then show ?thesis using step False piece adv round [of ?m "[]"] by auto
    next
      case False2: False
      have "unat ?off + length (drop (length ?d) iter) < 2 ^ 63"
        using adv(1) arg_cong [OF adv(2), of length] Suc.prems(1) by simp
      moreover have "drop (length ?d) iter \<noteq> [] \<longrightarrow> unat ?idx = position_index p (unat ?off)"
        using piece_next_index [OF assms(1) Suc.prems(1) idx, of fwd] by blast
      ultimately obtain states off' iter' m' where
        ih: "writeStripeSet k alloc sw p (pattern_ids p) fwd (numWorks + 1) ?off (drop (length ?d) iter) ?idx ?m =
            Some (states, off', iter', m')" "plan_ok p (unat ?off) states"
          "plan_data states @ iter' = drop (length ?d) iter" "unat off' = unat ?off + length (plan_data states)"
          "length states \<le> k" "?m \<le> m'" "round_ok p (unat ?idx) m' states"
        using Suc.IH by blast
      have "unat (idx + 1) = Suc (unat idx)" using t n(2) by (simp add: unat_word_ariths(1))
      then have "unat ?idx = Suc (unat idx) mod ?n" using n by (simp add: unat_mod_distrib unat_of_nat_32)
      with ih(7) have "round_ok p (unat idx) m' (?s # states)" by (intro round [OF ih(6)]) simp
      then show ?thesis using step False False2 piece adv ih(1-6) by auto
    qed
  qed
qed

section \<open>Verification of a round\<close>

definition complete :: "(FileOpState \<times> u64) list \<Rightarrow> bool" where
  "complete prs \<longleftrightarrow> list_all (\<lambda>(s, r). fos_expectedNodeResult s = r) prs"

text \<open>The indexes of the targets of consecutive pieces.\<close>

definition targetRun :: "u32 \<Rightarrow> u32 \<Rightarrow> nat \<Rightarrow> u32 list" where
  "targetRun n first k = map (\<lambda>i. (first + of_nat i) mod n) [0..<k]"

lemma targetRun_Suc: "targetRun n (first + i) (Suc k) = (first + i) mod n # targetRun n (first + (i + 1)) k"
  by (simp add: targetRun_def upt_conv_Cons map_Suc_upt [symmetric] add.assoc del: upt_Suc)

definition bits_after :: "BitStore \<Rightarrow> u32 list \<Rightarrow> BitStore \<Rightarrow> bool" where
  "bits_after b is b' \<longleftrightarrow> bs_ok b' \<and> bs_numBits b' = bs_numBits b \<and>
     (\<forall>j. BitStore_getBit b' j = (if j \<in> set is \<and> j < bs_numBits b then Some True else BitStore_getBit b j))"

lemma bits_after_Nil: "bs_ok b \<Longrightarrow> bits_after b [] b"
  by (simp add: bits_after_def)

lemma bits_after_step:
  assumes "bs_ok b"
  obtains b' where "BitStore_setBit b i True = Some b'" "bits_after b [i] b'" "bs_ok b'"
    "\<And>is b''. bits_after b' is b'' \<Longrightarrow> bits_after b (i # is) b''"
proof -
  obtain b' where b': "BitStore_setBit b i True = Some b'" "bs_ok b'" "bs_numBits b' = bs_numBits b"
    "\<forall>n. bs_bit b' n = (if n = unat i \<and> i < bs_numBits b then True else bs_bit b n)"
    using setBit_bits [OF assms] by metis
  have get: "BitStore_getBit b' j = (if j = i \<and> j < bs_numBits b then Some True else BitStore_getBit b j)" for j
    using b' assms by (cases "j = i") (simp_all add: getBit_ok word_unat_eq_iff [symmetric])
  show thesis
    by (rule that [OF b'(1) _ b'(2)]) (use b' get in \<open>auto simp: bits_after_def\<close>)
qed

lemma verify_complete:
  assumes "complete prs" "bs_ok b"
  shows "\<exists>b'. writefileVerify n first i out b (prs @ rest) =
      writefileVerify n first (i + of_nat (length prs)) (out + sum_list (map snd prs)) b' rest \<and>
    bits_after b (targetRun n (first + i) (length prs)) b'"
  using assms
proof (induction prs arbitrary: i out b)
  case Nil
  then show ?case by (intro exI [of _ b]) (simp add: targetRun_def bits_after_Nil)
next
  case (Cons x prs)
  obtain s r where x: "x = (s, r)" by (cases x)
  have r: "fos_expectedNodeResult s = r" "complete prs" using Cons.prems(1) x by (simp_all add: complete_def)
  obtain c where c: "BitStore_setBit b ((first + i) mod n) True = Some c" "bs_ok c"
    "\<And>is b''. bits_after c is b'' \<Longrightarrow> bits_after b ((first + i) mod n # is) b''"
    using bits_after_step [OF Cons.prems(2)] by metis
  obtain b' where b': "writefileVerify n first (i + 1) (out + r) c (prs @ rest) =
      writefileVerify n first (i + 1 + of_nat (length prs)) (out + r + sum_list (map snd prs)) b' rest"
    "bits_after c (targetRun n (first + (i + 1)) (length prs)) b'"
    using Cons.IH [OF r(2) c(2)] by metis
  have "bits_after b (targetRun n (first + i) (length (x # prs))) b'"
    using c(3) [OF b'(2)] by (simp add: targetRun_Suc)
  then show ?case using b'(1) c(1) r x by (intro exI [of _ b']) (simp add: add.assoc)
qed

lemma bits_after_append: "bits_after b is c \<Longrightarrow> bits_after c js d \<Longrightarrow> bits_after b (is @ js) d"
  by (auto simp: bits_after_def)

lemma targetRun_last: "targetRun n first (Suc k) = targetRun n first k @ [(first + of_nat k) mod n]"
  by (simp add: targetRun_def)

text \<open>A result that is not the expected one: the value and the bits.\<close>

definition counted :: "FileOpState \<Rightarrow> u64 \<Rightarrow> bool" where
  "counted s r \<longleftrightarrow> sint r \<le> sint (fos_expectedNodeResult s)"

lemma verify_bad:
  assumes "complete prs" "bs_ok b" "fos_expectedNodeResult s \<noteq> r"
  shows "\<exists>b'. writefileVerify n first 0 0 b (prs @ (s, r) # rest) =
      Some (False, (if sint r < 0 then r else sum_list (map snd prs) + (if counted s r then r else 0)), b') \<and>
    bits_after b (targetRun n first (length prs + (if counted s r then 1 else 0))) b'"
proof -
  let ?i = "of_nat (length prs) :: u32" and ?out = "sum_list (map snd prs)"
  obtain c where c: "writefileVerify n first 0 0 b (prs @ (s, r) # rest) = writefileVerify n first ?i ?out c ((s, r) # rest)"
    "bits_after b (targetRun n first (length prs)) c"
    using verify_complete [OF assms(1,2), of n first 0 0 "(s, r) # rest"] by auto
  have "bs_ok c" using c(2) by (simp add: bits_after_def)
  then obtain d where d: "BitStore_setBit c ((first + ?i) mod n) True = Some d" "bits_after c [(first + ?i) mod n] d"
    by (rule bits_after_step)
  show ?thesis
  proof (cases "counted s r")
    case True
    then show ?thesis using assms(3) c d bits_after_append [OF c(2) d(2)]
      by (intro exI [of _ d]) (simp add: counted_def targetRun_last)
  next
    case False
    then show ?thesis using assms(3) c by (intro exI [of _ c]) (simp add: counted_def)
  qed
qed

lemma incomplete_split:
  "\<not> complete prs \<Longrightarrow> \<exists>good s r rest. prs = good @ (s, r) # rest \<and> complete good \<and> fos_expectedNodeResult s \<noteq> r"
proof (induction prs)
  case (Cons x prs)
  obtain s r where x: "x = (s, r)" by (cases x)
  show ?case
  proof (cases "fos_expectedNodeResult s = r")
    case True
    with Cons.prems x have "\<not> complete prs" by (simp add: complete_def)
    then obtain good s' r' rest where "prs = good @ (s', r') # rest" "complete good" "fos_expectedNodeResult s' \<noteq> r'"
      using Cons.IH by blast
    then show ?thesis using True x by (intro exI [of _ "x # good"]) (simp add: complete_def)
  next
    case False
    then show ?thesis using x by (intro exI [of _ "[]"]) (simp add: complete_def)
  qed
qed (simp add: complete_def)

lemma complete_cases:
  obtains "complete prs" | good s r rest where "prs = good @ (s, r) # rest" "complete good" "fos_expectedNodeResult s \<noteq> r"
  using incomplete_split [of prs] by blast

lemma verify_total:
  assumes "bs_ok b"
  shows "\<exists>v b'. writefileVerify n first 0 0 b prs = Some (complete prs, v, b') \<and> bs_ok b' \<and> bs_numBits b' = bs_numBits b \<and>
    (complete prs \<longrightarrow> bits_after b (targetRun n first (length prs)) b')"
proof (cases prs rule: complete_cases)
  case 1
  then show ?thesis using verify_complete [OF 1 assms, of n first 0 0 "[]"] by (auto simp: bits_after_def)
next
  case (2 good s r rest)
  then have "\<not> complete prs" by (simp add: complete_def)
  then show ?thesis using verify_bad [OF 2(2) assms 2(3), of n first rest] 2(1) by (auto simp: bits_after_def)
qed

section \<open>The loop\<close>

lemma distinct_ids_small:
  assumes "distinct (ids :: u16 list)"
  shows "length ids \<le> 65536"
proof -
  have "card (set ids) \<le> card {..< (65536 :: nat)}"
    using unsigned_less [of "_ :: u16"] by (intro card_inj_on_le [of unat]) (auto simp: inj_on_def word_unat_eq_iff)
  then show ?thesis using assms by (simp add: distinct_card)
qed

lemma run_targets:
  assumes "distinct (pattern_ids p)" "unat first < length (pattern_ids p)" "j < length (pattern_ids p)"
    and "length states \<le> length (pattern_ids p)" "round_ok p (unat first) m states"
  shows "of_nat j \<in> set (targetRun (of_nat (length (pattern_ids p))) first (length states)) \<longleftrightarrow>
    (\<exists>s \<in> set states. fos_targetID s = pattern_ids p ! j)"
proof -
  let ?n = "length (pattern_ids p)"
  have n: "?n \<le> 65536" by (rule distinct_ids_small [OF assms(1)])
  have run: "unat ((first + of_nat i) mod of_nat ?n :: u32) = (unat first + i) mod ?n" if "i < length states" for i
  proof -
    have "unat (of_nat i :: u32) = i" "unat first + i < 2 ^ 32"
      using that assms(2,4) n by (simp_all add: unat_of_nat_32)
    then have "unat (first + of_nat i) = unat first + i" by (simp add: unat_word_ariths(1))
    then show ?thesis using n by (simp add: unat_mod_distrib unat_of_nat_32)
  qed
  have j: "unat (of_nat j :: u32) = j" using assms(3) n by (simp add: unat_of_nat_32)
  have "of_nat j \<in> set (targetRun (of_nat ?n) first (length states)) \<longleftrightarrow>
      (\<exists>i < length states. j = (unat first + i) mod ?n)"
    using run j by (auto simp: targetRun_def image_iff word_unat_eq_iff Bex_def)
  also have "\<dots> \<longleftrightarrow> (\<exists>i < length states. fos_targetID (states ! i) = pattern_ids p ! j)"
  proof (intro ex_cong1 conj_cong refl)
    fix i assume i: "i < length states"
    have "(unat first + i) mod ?n < ?n" using assms(2) by (intro mod_less_divisor) linarith
    then have "pattern_ids p ! ((unat first + i) mod ?n) = pattern_ids p ! j \<longleftrightarrow> (unat first + i) mod ?n = j"
      by (rule nth_eq_iff_index_eq [OF assms(1) _ assms(3)])
    then show "j = (unat first + i) mod ?n \<longleftrightarrow> fos_targetID (states ! i) = pattern_ids p ! j"
      using assms(5) i by (auto simp: round_ok_def Let_def)
  qed
  finally show ?thesis by (metis in_set_conv_nth)
qed

text \<open>What a write leaves behind in any case, and after a round in which every result was the expected one.\<close>

definition write_post :: "pattern \<Rightarrow> nat \<Rightarrow> bytes \<Rightarrow> BitStore \<Rightarrow> int \<Rightarrow> WriteResult \<Rightarrow> bool" where
  "write_post p q iter fwd m r \<longleftrightarrow>
     plan_ok p q (wr_sent r) \<and> (\<exists>rest. plan_data (wr_sent r) @ rest = iter) \<and> bs_ok (wr_firstWriteDone r) \<and>
     bs_numBits (wr_firstWriteDone r) = bs_numBits fwd \<and> m \<le> wr_maxUsedTargetIndex r"

definition bits_for :: "pattern \<Rightarrow> BitStore \<Rightarrow> FileOpState list \<Rightarrow> BitStore \<Rightarrow> bool" where
  "bits_for p fwd states fwd' \<longleftrightarrow> bs_numBits fwd' = bs_numBits fwd \<and>
     (\<forall>j < length (pattern_ids p). bs_bit fwd' j \<longleftrightarrow> bs_bit fwd j \<or> (\<exists>s \<in> set states. fos_targetID s = pattern_ids p ! j))"

lemma bits_for_append: "bits_for p a ss b \<Longrightarrow> bits_for p b ts c \<Longrightarrow> bits_for p a (ss @ ts) c"
  by (auto simp: bits_for_def)

lemma round_bits:
  assumes "distinct (pattern_ids p)" "unat first < length (pattern_ids p)" "length states \<le> length (pattern_ids p)"
    and "round_ok p (unat first) m states" "bs_ok b" "length (pattern_ids p) \<le> unat (bs_numBits b)"
    and after: "bits_after b (targetRun (of_nat (length (pattern_ids p))) first (length states)) b'"
  shows "bits_for p b states b'"
proof -
  have "bs_bit b' j \<longleftrightarrow> bs_bit b j \<or> (\<exists>s \<in> set states. fos_targetID s = pattern_ids p ! j)"
    if j: "j < length (pattern_ids p)" for j
  proof -
    have u: "unat (of_nat j :: u32) = j" using distinct_ids_small [OF assms(1)] j by (simp add: unat_of_nat_32)
    have ok: "bs_ok b'" "of_nat j < bs_numBits b" using after assms(6) j u by (simp_all add: bits_after_def word_less_nat_alt)
    have "BitStore_getBit b' (of_nat j) = Some (bs_bit b' j)" "BitStore_getBit b (of_nat j) = Some (bs_bit b j)"
      using getBit_ok [OF ok(1)] getBit_ok [OF assms(5)] u by simp_all
    moreover have "BitStore_getBit b' (of_nat j) =
        (if \<exists>s \<in> set states. fos_targetID s = pattern_ids p ! j then Some True else BitStore_getBit b (of_nat j))"
      using after ok(2) run_targets [OF assms(1,2) j assms(3,4)] by (simp add: bits_after_def)
    ultimately show ?thesis by (auto split: if_splits)
  qed
  then show ?thesis using after by (simp add: bits_for_def bits_after_def)
qed

lemma complete_expected: "complete (zip ss (map fos_expectedNodeResult ss))"
  by (induction ss) (simp_all add: complete_def)

lemma writeLoop_plan:
  assumes "io_ok p"
  shows "bs_ok fwd \<Longrightarrow> unat off + length iter < 2 ^ 63 \<Longrightarrow> length iter < fuel \<Longrightarrow>
    \<exists>r. writeLoop fuel alloc comm sw p (pattern_ids p) rnd retVal off iter fwd m = Some r \<and>
      write_post p (unat off) iter fwd m r \<and>
      ((\<forall>k ss. comm k ss = map fos_expectedNodeResult ss) \<longrightarrow>
         wr_retVal r = retVal \<and> plan_data (wr_sent r) = iter \<and>
         (distinct (pattern_ids p) \<and> length (pattern_ids p) \<le> unat (bs_numBits fwd) \<longrightarrow>
            bits_for p fwd (wr_sent r) (wr_firstWriteDone r)))"
proof (induction fuel arbitrary: rnd off iter fwd m)
  case (Suc fuel)
  have ok: "pattern_ok p" using assms by (simp add: io_ok_def)
  let ?ids = "pattern_ids p"
  let ?n = "length ?ids"
  show ?case
  proof (cases "iter = []")
    case True
    then show ?thesis using Suc.prems by (simp add: write_post_def bits_for_def)
  next
    case False
    obtain index where index: "getStripeTargetIndex p off = Some index"
      "unat index = stripe_index (pattern_chunk p) ?n (unat off)"
      using striping.index_ref [OF ok, of off] Suc.prems(2) by auto
    have n: "0 < ?n" "?n < 2 ^ 32" using striping.ids_pos [OF ok] ids_small [OF ok] .
    have less: "unat index < ?n" using index(2) stripe_index_less [OF n(1)] by simp
    then have first: "unat (ucast index :: u32) = position_index p (unat off)"
      using index(2) n(2) unat_ucast_64_32 [of index] by (simp add: position_index_def)
    obtain states off' iter' m' where set:
      "writeStripeSet ?n (alloc rnd) sw p ?ids fwd 0 off iter (ucast index) m = Some (states, off', iter', m')"
      "plan_ok p (unat off) states" "plan_data states @ iter' = iter" "unat off' = unat off + length (plan_data states)"
      "states \<noteq> []" "length states \<le> ?n" "m \<le> m'" "round_ok p (unat (ucast index :: u32)) m' states"
      using writeStripeSet_plan [OF assms Suc.prems(1,2), of "ucast index" ?n "alloc rnd" sw 0 m] first False n(1) by auto
    let ?prs = "zip states (comm rnd states)"
    obtain v fwd' where ver:
      "writefileVerify (of_nat ?n) (ucast index) 0 0 fwd ?prs = Some (complete ?prs, v, fwd')"
      "bs_ok fwd'" "bs_numBits fwd' = bs_numBits fwd"
      "complete ?prs \<longrightarrow> bits_after fwd (targetRun (of_nat ?n) (ucast index) (length ?prs)) fwd'"
      using verify_total [OF Suc.prems(1)] by blast
    have loop: "writeLoop (Suc fuel) alloc comm sw p ?ids rnd retVal off iter fwd m =
      (if complete ?prs then map_option (\<lambda>r. r\<lparr>wr_sent := states @ wr_sent r\<rparr>)
         (writeLoop fuel alloc comm sw p ?ids (rnd + 1) retVal off' iter' fwd' m')
       else Some \<lparr>wr_retVal = v, wr_firstWriteDone = fwd', wr_maxUsedTargetIndex = m', wr_sent = states\<rparr>)"
      using False index(1) set(1) ver(1) by (simp add: Let_def)
    show ?thesis
    proof (cases "complete ?prs")
      case bad: False
      then have "\<not> (\<forall>k ss. comm k ss = map fos_expectedNodeResult ss)"
        using complete_expected [of states] by metis
      then show ?thesis using loop bad set ver by (auto simp: write_post_def)
    next
      case good: True
      have "0 < length (plan_data states)" using set(2,5) by (cases states) auto
      moreover have "length iter = length (plan_data states) + length iter'" using arg_cong [OF set(3), of length] by simp
      ultimately have "unat off' + length iter' < 2 ^ 63" "length iter' < fuel" using Suc.prems(2,3) set(4) by linarith+
      from Suc.IH [OF ver(2) this, of "rnd + 1" m'] obtain r where
        r: "writeLoop fuel alloc comm sw p ?ids (rnd + 1) retVal off' iter' fwd' m' = Some r"
          "write_post p (unat off') iter' fwd' m' r"
          "(\<forall>k ss. comm k ss = map fos_expectedNodeResult ss) \<longrightarrow>
             wr_retVal r = retVal \<and> plan_data (wr_sent r) = iter' \<and>
             (distinct ?ids \<and> ?n \<le> unat (bs_numBits fwd') \<longrightarrow> bits_for p fwd' (wr_sent r) (wr_firstWriteDone r))"
        by blast
      have round: "bits_for p fwd states fwd'"
        if "\<forall>k ss. comm k ss = map fos_expectedNodeResult ss" "distinct ?ids" "?n \<le> unat (bs_numBits fwd)"
        using ver(4) good that first less index(2)
        by (intro round_bits [OF that(2) _ set(6,8) Suc.prems(1) that(3)]) (simp_all add: position_index_def)
      have "write_post p (unat off) iter fwd m (r\<lparr>wr_sent := states @ wr_sent r\<rparr>)"
        using r(2) set ver(3) by (auto simp: write_post_def plan_ok_append)
      then show ?thesis
        using loop good r(1,3) set(3) ver(3) round bits_for_append [of p fwd states fwd'] by auto
    qed
  qed
qed simp

end
