(* ===== verification/Stripe_Write_Results.thy ===== *)
theory Stripe_Write_Results
  imports Stripe_Write
begin

text \<open>
  What the write path of the client guarantees: it refines a write to a flat file, it ends, and what
  it returns when a storage server does not store a piece completely.
\<close>

section \<open>Properties\<close>

text \<open>A pattern of two targets with a chunk size of two bytes, and a cleared bit store.\<close>

definition smallPattern :: pattern where
  "smallPattern = Raid0 \<lparr>sp_patternType = 1, sp_chunkSize = 2, sp_storagePoolId = 1, sp_serialPatternLength = 0,
     r0_stripeTargetIDs = [5, 6], r0_defaultNumTargets = 4\<rparr>"

definition zeroBits :: BitStore where
  "zeroBits = BitStore_init 0 True"

lemma zeroBits_ok: "bs_ok zeroBits"
  unfolding zeroBits_def by (rule init_ok)

lemma small_ok:
  "io_ok smallPattern" "distinct (pattern_ids smallPattern)" "length (pattern_ids smallPattern) = 2"
  "unat (bs_numBits zeroBits) = 64" "file_of smallPattern (\<lambda>_. []) []"
  by (simp_all add: io_ok_def smallPattern_def raid0_ok_def MathTk_isPowerOfTwo_def zeroBits_def
      BitStore_init_def BITSTORE_BLOCK_BIT_COUNT_def file_of_def striped_empty)

lemma write_stores:
  assumes "io_ok p" "distinct (pattern_ids p)" "file_of p chunks f"
    and "bs_ok fwd" "length (pattern_ids p) \<le> unat (bs_numBits fwd)"
    and "data \<noteq> []" "unat offset + length data < 2 ^ 63" "length data < fuel"
    and "\<And>k ss. comm k ss = map fos_expectedNodeResult ss"
  shows "\<exists>r. FhgfsOpsRemoting_writefileVec fuel alloc comm p fwd m data offset sw = Some r \<and>
    wr_retVal r = of_nat (length data) \<and>
    file_of p (fold store_piece (wr_sent r) chunks) (pwrite (unat offset) data f) \<and>
    bits_for p fwd (wr_sent r) (wr_firstWriteDone r)"
proof -
  obtain r where r: "FhgfsOpsRemoting_writefileVec fuel alloc comm p fwd m data offset sw = Some r"
    "write_post p (unat offset) data fwd m r" "wr_retVal r = of_nat (length data)" "plan_data (wr_sent r) = data"
    "bits_for p fwd (wr_sent r) (wr_firstWriteDone r)"
    using writeLoop_plan [OF assms(1,4,7,8), of alloc comm sw 0 "of_nat (length data)" m] assms(2,5,9)
    by (auto simp: FhgfsOpsRemoting_writefileVec_def io_targetIDs [OF assms(1)])
  have ok: "pattern_ok p" using assms(1) by (simp add: io_ok_def)
  have "wr_sent r \<noteq> []" using r(4) assms(6) by auto
  with store_plan_file [OF ok assms(2,3), of "unat offset" "wr_sent r"] r show ?thesis
    by (auto simp: write_post_def)
qed

text \<open>
  C2. A write that every storage server answers with the size of its pieces returns the number of
  bytes to write, and refines a write to one flat file: when the chunk files of the targets held the
  striped file \<^term>\<open>f\<close>, then after every target has stored the pieces that were sent to it they hold
  the file \<^term>\<open>f\<close> with the data at the offset, extended with zeros where the write starts behind its
  end. The bit of a target says afterwards that it has been written to exactly if it was set before or
  a piece was sent to the target.
\<close>

theorem striped_write_refines:
  assumes "io_ok p" "distinct (pattern_ids p)" "file_of p chunks f"
    and "bs_ok fwd" "length (pattern_ids p) \<le> unat (bs_numBits fwd)"
    and "data \<noteq> []" "unat offset + length data < 2 ^ 63" "length data < fuel"
    and "\<And>k ss. comm k ss = map fos_expectedNodeResult ss"
  shows "\<exists>r. FhgfsOpsRemoting_writefileVec fuel alloc comm p fwd m data offset sw = Some r \<and>
    wr_retVal r = of_nat (length data) \<and>
    file_of p (fold store_piece (wr_sent r) chunks) (pwrite (unat offset) data f) \<and>
    bits_for p fwd (wr_sent r) (wr_firstWriteDone r)"
  using assms by (rule write_stores)

theorem striped_write_refines_witness:
  "\<exists>r. FhgfsOpsRemoting_writefileVec 6 (\<lambda>_ _. True) (\<lambda>_. map fos_expectedNodeResult) smallPattern zeroBits (-1)
      [1, 2, 3, 4, 5] 3 False = Some r \<and> wr_retVal r = 5 \<and>
    file_of smallPattern (fold store_piece (wr_sent r) (\<lambda>_. [])) [0, 0, 0, 1, 2, 3, 4, 5]"
proof -
  have "pwrite 3 [1, 2, 3, 4, 5] [] = [0, 0, 0, 1, 2, 3, 4, 5 :: u8]" by (simp add: pwrite_def numeral_3_eq_3)
  with striped_write_refines [OF small_ok(1,2,5) zeroBits_ok, of "[1, 2, 3, 4, 5]" 3 6
      "\<lambda>_. map fos_expectedNodeResult" "\<lambda>_ _. True" "-1" False]
  show ?thesis using small_ok(3,4) by auto
qed

text \<open>
  C7. A write ends whatever the storage servers answer and whatever memory it gets: a number of
  rounds above the number of bytes is enough. What it has sent is a prefix of the data, cut into
  pieces that stay inside a chunk and go to the target and the local offset of their first byte.
\<close>

theorem striped_write_terminates:
  assumes "io_ok p" "bs_ok fwd" "unat offset + length data < 2 ^ 63" "length data < fuel"
  shows "\<exists>r rest. FhgfsOpsRemoting_writefileVec fuel alloc comm p fwd m data offset sw = Some r \<and>
    plan_ok p (unat offset) (wr_sent r) \<and> plan_data (wr_sent r) @ rest = data"
  using writeLoop_plan [OF assms, of alloc comm sw 0 "of_nat (length data)" m]
  by (auto simp: FhgfsOpsRemoting_writefileVec_def io_targetIDs [OF assms(1)] write_post_def)

theorem striped_write_terminates_witness:
  "\<exists>r rest. FhgfsOpsRemoting_writefileVec 4 (\<lambda>_ _. False) (\<lambda>_ _. [1]) smallPattern zeroBits (-1) [1, 2, 3] 1 False = Some r \<and>
    plan_ok smallPattern 1 (wr_sent r) \<and> plan_data (wr_sent r) @ rest = [1, 2, 3]"
  using striped_write_terminates [OF small_ok(1) zeroBits_ok, of 1 "[1, 2, 3]" 4 "\<lambda>_ _. False" "\<lambda>_ _. [1]" "-1" False] by simp

text \<open>
  C25. The results of a round are verified in the order of the pieces and the first result that is
  not the expected one decides: an error code is returned as it is, a smaller number of bytes is
  added to the bytes before it, a larger number is not counted. The bits of the targets before the
  deciding one are set and those after it are not touched. The bit of the deciding target is set unless it answered with too large a
  number; in particular it is set for a target that answered with an error and has written nothing, although the comment of the function says
  that a bit is set if a chunk was successfully written to its target.
\<close>

theorem write_error_marks_target:
  assumes "bs_ok b" "complete prs" "fos_expectedNodeResult s \<noteq> r"
  shows "\<exists>b'. writefileVerify n first 0 0 b (prs @ (s, r) # rest) =
      Some (False, (if sint r < 0 then r else sum_list (map snd prs) + (if counted s r then r else 0)), b') \<and> bs_ok b' \<and>
    (\<forall>j. BitStore_getBit b' j =
       (if j \<in> set (targetRun n first (length prs + (if counted s r then 1 else 0))) \<and> j < bs_numBits b
        then Some True else BitStore_getBit b j)) \<and>
    (sint r < 0 \<and> 0 \<le> sint (fos_expectedNodeResult s) \<and> (first + of_nat (length prs)) mod n < bs_numBits b \<longrightarrow>
       BitStore_getBit b' ((first + of_nat (length prs)) mod n) = Some True)"
proof -
  have "(first + of_nat (length prs)) mod n \<in> set (targetRun n first (Suc (length prs)))" by (simp add: targetRun_def)
  moreover have "sint r < 0 \<Longrightarrow> 0 \<le> sint (fos_expectedNodeResult s) \<Longrightarrow> counted s r" by (simp add: counted_def)
  ultimately show ?thesis using verify_bad [OF assms(2,1,3), of n first rest] by (fastforce simp: bits_after_def)
qed

text \<open>Two targets: target 1 stores its two bytes, target 0 answers with the error 7 and its bit is set.\<close>

theorem write_error_marks_target_witness:
  "\<exists>b'. writefileVerify 2 1 0 0 zeroBits
      [(FhgfsOpsCommKit_initFileOpState 0 2 6, 2), (FhgfsOpsCommKit_initFileOpState 2 2 5, -7)] = Some (False, -7, b') \<and>
    BitStore_getBit zeroBits 0 = Some False \<and> BitStore_getBit b' 0 = Some True"
proof -
  let ?s = "FhgfsOpsCommKit_initFileOpState 2 2 5"
  have first: "complete [(FhgfsOpsCommKit_initFileOpState 0 2 6, 2)]"
    by (simp add: complete_def FhgfsOpsCommKit_initFileOpState_def)
  have bad: "fos_expectedNodeResult ?s \<noteq> - 7" "0 \<le> sint (fos_expectedNodeResult ?s)"
    by (simp_all add: FhgfsOpsCommKit_initFileOpState_def)
  have neg: "sint (- 7 :: u64) = - 7" by simp
  have at: "(1 + of_nat (length [(FhgfsOpsCommKit_initFileOpState 0 2 6, 2 :: u64)])) mod 2 = (0 :: u32)" by simp
  have "0 < bs_numBits zeroBits" "BitStore_getBit zeroBits 0 = Some False" by code_simp+
  with write_error_marks_target [OF zeroBits_ok first bad(1), of 2 1 "[]", unfolded at neg] bad(2) show ?thesis by auto
qed

text \<open>
  When a server of a later round stores only a part of its piece, the write returns the bytes of
  that round alone, although the bytes of the earlier rounds have been stored as well: here six bytes
  are written, the fifth is the last one that is stored, and the result is one.
\<close>

theorem write_short_round_result:
  "map_option (\<lambda>r. (wr_retVal r, map fos_data (wr_sent r)))
     (FhgfsOpsRemoting_writefileVec 7 (\<lambda>_ _. True) (\<lambda>k ss. if k = 0 then map fos_expectedNodeResult ss else [1])
        smallPattern zeroBits (-1) [1, 2, 3, 4, 5, 6] 0 False) = Some (1, [[1, 2], [3, 4], [5, 6]])"
  by code_simp

end
