(* ===== verification/Stripe_Read_Results.thy ===== *)
theory Stripe_Read_Results
  imports Stripe_Read Stripe_Write_Results
begin

text \<open>
  What the read path of the client guarantees for storage servers that answer with the contents of
  their chunk files: the bytes of the striped file arrive in order, holes read as zeros, and the loops end.
\<close>

section \<open>Holes\<close>

text \<open>Behind a position that is in no chunk file, the rest of the chunk is zero.\<close>

lemma absent_zero:
  assumes "pattern_ok p" "file_of p chunks f" "\<not> file_present p chunks q" "q mod pattern_chunk p + k < pattern_chunk p"
  shows "byte_at f (q + k) = 0"
proof -
  let ?c = "pattern_chunk p" and ?n = "length (pattern_ids p)"
  note same = stripe_same_chunk [OF striping.chunk_pos [OF assms(1)] assms(4), of ?n]
  have "\<not> stripe_offset ?c ?n (q + k) < length (chunks (pattern_ids p ! stripe_index ?c ?n (q + k)))"
    using assms(3) unfolding same by (simp add: file_present_def stripe_present_def)
  moreover have "byte_at f (q + k) = byte_at (chunks (pattern_ids p ! stripe_index ?c ?n (q + k))) (stripe_offset ?c ?n (q + k))"
    using assms(2) by (simp add: file_of_def striped_def)
  ultimately show ?thesis by (simp add: byte_at_def)
qed

text \<open>One step of the zero filling read: the piece of a chunk, filled up with zeros.\<close>

lemma fill_piece:
  assumes "pattern_ok p" "file_of p chunks f" "arrived p chunks f q dest n r buf buf'"
    and "q mod pattern_chunk p + n \<le> pattern_chunk p" "dest + n \<le> length buf"
  shows "filled f q dest n buf (pwrite (dest + r) (replicate (n - r) 0) buf')"
proof -
  have len: "r \<le> n" "length buf' = length buf" using assms(3) by (simp_all add: arrived_def filled_def)
  have "q mod pattern_chunk p + r < pattern_chunk p" if "r < n" using that assms(4) by linarith
  then have mod: "(q + r) mod pattern_chunk p = q mod pattern_chunk p + r" if "r < n"
    using that mod_add_left_eq [of q "pattern_chunk p" r] by simp
  have zero: "byte_at f (q + i) = 0" if "r \<le> i" "i < n" for i
  proof -
    have "byte_at f (q + r + (i - r)) = 0"
      using assms(3,4) that mod by (intro absent_zero [OF assms(1,2)]) (simp_all add: arrived_def filled_def)
    then show ?thesis using that by simp
  qed
  show ?thesis
    using assms(3,5) len zero by (auto simp: arrived_def filled_def length_pwrite nth_pwrite)
qed

lemma readOrClear_file:
  assumes "io_ok p" "bs_ok fwd" "file_of p chunks f" "\<And>j k. alloc j k 0" "\<And>j k ss. comm j k ss = map (servePiece chunks) ss"
  shows "unat off + sz < 2 ^ 63 \<Longrightarrow> sz < k \<Longrightarrow> pattern_chunk p < fuel \<Longrightarrow> pos + sz \<le> length buf \<Longrightarrow>
    \<exists>buf'. readOrClear k fuel alloc None comm p fwd m buf pos sz off = Some (0, buf', pos + sz) \<and>
      filled f (unat off) pos sz buf buf'"
proof (induction k arbitrary: off sz pos buf m)
  case (Suc k)
  have ok: "pattern_ok p" using assms(1) by (simp add: io_ok_def)
  show ?case
  proof (cases "sz = 0")
    case True
    then show ?thesis by (simp add: filled_def)
  next
    case False
    let ?rest = "unat (chunkRest (pattern_base p) off)"
    let ?n = "min ?rest sz"
    have off: "unat off < 2 ^ 63" using Suc.prems(1) by simp
    note rest = rest_of_chunk [OF assms(1) off]
    have "?n < fuel" "unat off + ?n < 2 ^ 63" "pos + ?n \<le> length buf" using rest(1) Suc.prems by simp_all
    then obtain r rr where rr: "FhgfsOpsRemoting_readfileVec fuel (alloc k) None (comm k) p fwd None m buf pos ?n off = Some rr"
      "rr_retVal rr = of_nat r" "rr_pos rr = pos + r" "arrived p chunks f (unat off) pos ?n r buf (rr_buf rr)"
      using readLoop_file [where alloc = "alloc k" and comm = "comm k", OF assms, of off ?n fuel pos buf None 0 0 m]
      by (auto simp: FhgfsOpsRemoting_readfileVec_def io_targetIDs [OF assms(1)])
    have r: "r \<le> ?n" "length (rr_buf rr) = length buf" using rr(4) by (simp_all add: arrived_def filled_def)
    have val: "unat (rr_retVal rr) = r" "0 \<le> sint (rr_retVal rr)"
    proof -
      show u: "unat (rr_retVal rr) = r" using rr(2) r(1) Suc.prems(1) by (simp add: unat_of_nat)
      have "unat (rr_retVal rr) < 2 ^ 63" using u r(1) Suc.prems(1) by simp
      then show "0 \<le> sint (rr_retVal rr)" by (simp add: sint_nonneg)
    qed
    let ?buf = "pwrite (pos + r) (replicate (?n - r) 0) (rr_buf rr)"
    have piece: "filled f (unat off) pos ?n buf ?buf"
      using rest(1) Suc.prems(4) mod_less_divisor [OF striping.chunk_pos [OF ok], of "unat off"]
      by (intro fill_piece [OF ok assms(3) rr(4)]) simp_all
    have clear: "(if r < ?n then ?n - r else 0) = ?n - r" using r(1) by (auto simp del: min_less_iff_conj min.bounded_iff)
    have all: "min (?n - r) (length (rr_buf rr) - (pos + r)) = ?n - r" "pos + r + (?n - r) = pos + ?n" using r Suc.prems(4) by simp_all
    have "\<not> sint (rr_retVal rr) < 0" using val(2) by simp
    then have run: "readOrClear (Suc k) fuel alloc None comm p fwd m buf pos sz off =
        readOrClear k fuel alloc None comm p fwd (rr_maxUsedTargetIndex rr) ?buf (pos + ?n) (sz - ?n) (off + of_nat ?n)"
      using False unfolding readOrClear.simps(2) Let_def rr(1)
      by (simp only: Option.bind.bind_lunit if_False rr(3) val(1) clear all not_False_eq_True simp_thms)
    have adv: "unat (off + of_nat ?n) = unat off + ?n" by (rule advance_offset [OF Suc.prems(1)]) simp
    have "unat (off + of_nat ?n) + (sz - ?n) < 2 ^ 63" "sz - ?n < k" "pos + ?n + (sz - ?n) \<le> length ?buf"
      using adv Suc.prems False rest(2) piece by (simp_all add: filled_def)
    from Suc.IH [OF this(1,2) Suc.prems(3) this(3), of "rr_maxUsedTargetIndex rr"] obtain buf' where rest':
      "readOrClear k fuel alloc None comm p fwd (rr_maxUsedTargetIndex rr) ?buf (pos + ?n) (sz - ?n) (off + of_nat ?n) =
         Some (0, buf', pos + ?n + (sz - ?n))" "filled f (unat off + ?n) (pos + ?n) (sz - ?n) ?buf buf'"
      using adv by auto
    have "pos + ?n + (sz - ?n) = pos + sz" "?n + (sz - ?n) = sz" by simp_all
    then show ?thesis using run rest'(1) filled_append [OF piece rest'(2)] by (simp only:) blast
  qed
qed simp

section \<open>Presence of what was written\<close>

lemma store_piece_present:
  assumes "pattern_ok p" "distinct (pattern_ids p)" "plan_ok p q [s]"
  shows "file_present p chunks x \<Longrightarrow> file_present p (store_piece s chunks) x"
    and "q \<le> x \<Longrightarrow> x < q + length (fos_data s) \<Longrightarrow> file_present p (store_piece s chunks) x"
proof -
  let ?n = "length (pattern_ids p)" and ?c = "pattern_chunk p"
  show "file_present p chunks x \<Longrightarrow> file_present p (store_piece s chunks) x"
    by (auto simp: file_present_def stripe_present_def store_piece_def length_pwrite)
  assume x: "q \<le> x" "x < q + length (fos_data s)"
  have "q mod ?c + (x - q) < ?c" using x assms(3) by auto
  from stripe_same_chunk [OF striping.chunk_pos [OF assms(1)] this, of ?n] x(1)
  have "stripe_index ?c ?n x = position_index p q" "stripe_offset ?c ?n x = position_offset p q + (x - q)"
    by (simp_all add: position_index_def position_offset_def)
  then show "file_present p (store_piece s chunks) x"
    using assms(3) x by (auto simp: file_present_def stripe_present_def store_piece_def length_pwrite)
qed

lemma store_plan_present:
  assumes "pattern_ok p" "distinct (pattern_ids p)"
  shows "plan_ok p q ss \<Longrightarrow> file_present p chunks x \<or> (q \<le> x \<and> x < q + length (plan_data ss)) \<Longrightarrow>
    file_present p (fold store_piece ss chunks) x"
proof (induction ss arbitrary: q chunks)
  case (Cons s ss)
  have s: "plan_ok p q [s]" and ss: "plan_ok p (q + length (fos_data s)) ss" using Cons.prems(1) by simp_all
  have "file_present p (store_piece s chunks) x \<or>
      (q + length (fos_data s) \<le> x \<and> x < q + length (fos_data s) + length (plan_data ss))"
    using Cons.prems(2) store_piece_present [OF assms s] by (cases "x < q + length (fos_data s)") auto
  from Cons.IH [OF ss this] show ?case by simp
qed auto

section \<open>Properties\<close>

text \<open>
  C8. When the storage servers answer with the contents of their chunk files, a read into a buffer
  with enough room returns a number of bytes and has put exactly that many bytes of the striped file
  into the buffer, in order, without touching what was before them. It returns fewer bytes than were
  asked for only if the next byte of the file is in no chunk file: at the end of the file or in a hole.
\<close>

theorem striped_read_functional:
  assumes "io_ok p" "bs_ok fwd" "file_of p chunks f" "unat offset + toBeRead < 2 ^ 63" "pos + toBeRead \<le> length buf"
    and "toBeRead < fuel" "\<And>k. alloc k 0" "\<And>k ss. comm k ss = map (servePiece chunks) ss"
  shows "\<exists>r rr. FhgfsOpsRemoting_readfileVec fuel alloc None comm p fwd ino m buf pos toBeRead offset = Some rr \<and>
    rr_retVal rr = of_nat r \<and> r \<le> toBeRead \<and> rr_pos rr = pos + r \<and>
    filled f (unat offset) pos r buf (rr_buf rr) \<and>
    (r < toBeRead \<longrightarrow> \<not> file_present p chunks (unat offset + r))"
  using readLoop_file [where alloc = alloc and comm = comm, OF assms(1-3,7,8,4,6,5), of ino 0 0 m]
  by (auto simp: FhgfsOpsRemoting_readfileVec_def io_targetIDs [OF assms(1)] arrived_def)

theorem striped_read_functional_witness:
  "\<exists>r rr. FhgfsOpsRemoting_readfileVec 3 (\<lambda>_ _. True) None (\<lambda>_. map (servePiece (\<lambda>_. []))) smallPattern zeroBits None (-1)
      [9, 9] 0 2 0 = Some rr \<and> rr_retVal rr = of_nat r \<and> r \<le> 2"
  using striped_read_functional [OF small_ok(1) zeroBits_ok small_ok(5), of 0 2 0 "[9, 9]" 3 "\<lambda>_ _. True"
      "\<lambda>_. map (servePiece (\<lambda>_. []))" None "-1"] by auto

text \<open>
  C26. A read ends whatever memory it gets, however few pages of a pipe the kernel maps, and whatever
  the storage servers answer: a number of rounds above the number of bytes is enough.
\<close>

theorem striped_read_terminates:
  assumes "io_ok p" "bs_ok fwd" "unat offset + toBeRead < 2 ^ 63" "toBeRead < fuel"
  shows "\<exists>rr. FhgfsOpsRemoting_readfileVec fuel alloc pipe comm p fwd ino m buf pos toBeRead offset = Some rr"
  using readLoop_ends [OF assms] by (simp add: FhgfsOpsRemoting_readfileVec_def io_targetIDs [OF assms(1)])

theorem striped_read_terminates_witness:
  "\<exists>rr. FhgfsOpsRemoting_readfileVec 5 (\<lambda>_ _. False) (Some (\<lambda>_. 1)) (\<lambda>_ _. []) smallPattern zeroBits None (-1) [] 0 4 0 = Some rr"
  using striped_read_terminates [OF small_ok(1) zeroBits_ok, of 0 4 5 "\<lambda>_ _. False" "Some (\<lambda>_. 1)" "\<lambda>_ _. []" None "-1" "[]" 0]
  by simp

text \<open>
  C9. The zero filling read of a sparse file fills the whole requested part of the buffer with the
  bytes of the file, with zeros for its holes and behind its end, and reports success.
\<close>

theorem sparse_read_functional:
  assumes "io_ok p" "bs_ok fwd" "file_of p chunks f" "unat offset + sz < 2 ^ 63" "pos + sz \<le> length buf"
    and "sz < k" "pattern_chunk p < fuel" "\<And>j k. alloc j k 0" "\<And>j k ss. comm j k ss = map (servePiece chunks) ss"
  shows "\<exists>buf'. readOrClear k fuel alloc None comm p fwd m buf pos sz offset = Some (0, buf', pos + sz) \<and>
    length buf' = length buf \<and> (\<forall>j < pos. buf' ! j = buf ! j) \<and> (\<forall>i < sz. buf' ! (pos + i) = byte_at f (unat offset + i))"
  using readOrClear_file [where alloc = alloc and comm = comm, OF assms(1-3,8,9,4,6,7,5), of m] by (simp add: filled_def)

theorem sparse_read_functional_witness:
  "\<exists>buf'. readOrClear 4 3 (\<lambda>_ _ _. True) None (\<lambda>_ _. map (servePiece (\<lambda>_. []))) smallPattern zeroBits (-1) [9, 9, 9] 0 3 0 =
     Some (0, buf', 3) \<and> buf' ! 2 = 0"
proof -
  have chunk: "pattern_chunk smallPattern < 3" by (simp add: smallPattern_def)
  show ?thesis
    using sparse_read_functional [OF small_ok(1) zeroBits_ok small_ok(5) _ _ _ chunk, of 0 3 0 "[9, 9, 9]" 4 "\<lambda>_ _ _. True"
        "\<lambda>_ _. map (servePiece (\<lambda>_. []))" "-1"] by (auto simp: byte_at_def)
qed

text \<open>
  C6. What was written is read back: after a write that every storage server confirmed and stored,
  a read of the same range returns the full number of bytes, and they are the bytes written.
\<close>

theorem write_read_round_trip:
  assumes "io_ok p" "distinct (pattern_ids p)" "file_of p chunks f" "bs_ok fwd"
    and "data \<noteq> []" "unat offset + length data < 2 ^ 63" "length data < fuel"
    and "\<And>k ss. comm k ss = map fos_expectedNodeResult ss"
    and "length buf = length data" "bs_ok fwd'" "\<And>k. alloc' k 0"
  shows "\<exists>r rr. FhgfsOpsRemoting_writefileVec fuel alloc comm p fwd m data offset sw = Some r \<and>
    FhgfsOpsRemoting_readfileVec fuel alloc' None (\<lambda>_. map (servePiece (fold store_piece (wr_sent r) chunks))) p fwd' ino m'
      buf 0 (length data) offset = Some rr \<and>
    rr_retVal rr = of_nat (length data) \<and> rr_buf rr = data"
proof -
  have ok: "pattern_ok p" using assms(1) by (simp add: io_ok_def)
  obtain r where r: "FhgfsOpsRemoting_writefileVec fuel alloc comm p fwd m data offset sw = Some r"
    "plan_ok p (unat offset) (wr_sent r)" "plan_data (wr_sent r) = data"
    using writeLoop_plan [OF assms(1,4,6,7), of alloc comm sw 0 "of_nat (length data)" m] assms(8)
    by (auto simp: FhgfsOpsRemoting_writefileVec_def io_targetIDs [OF assms(1)] write_post_def)
  let ?chunks = "fold store_piece (wr_sent r) chunks" and ?f = "pwrite (unat offset) data f"
  have "wr_sent r \<noteq> []" using r(3) assms(5) by auto
  then have stored: "file_of p ?chunks ?f"
    using store_plan_file [OF ok assms(2,3) r(2)] r(3) by simp
  have here: "file_present p ?chunks x" if "unat offset \<le> x" "x < unat offset + length data" for x
    using store_plan_present [OF ok assms(2) r(2), of chunks x] that r(3) by simp
  obtain n rr where rr: "FhgfsOpsRemoting_readfileVec fuel alloc' None (\<lambda>_. map (servePiece ?chunks)) p fwd' ino m'
      buf 0 (length data) offset = Some rr" "rr_retVal rr = of_nat n"
    "arrived p ?chunks ?f (unat offset) 0 (length data) n buf (rr_buf rr)"
    using readLoop_file [where alloc = alloc' and comm = "\<lambda>_. map (servePiece ?chunks)",
        OF assms(1,10) stored assms(11) refl assms(6,7), of 0 buf ino 0 0 m'] assms(9)
    by (auto simp: FhgfsOpsRemoting_readfileVec_def io_targetIDs [OF assms(1)])
  have n: "n = length data" using rr(3) here [of "unat offset + n"] by (auto simp: arrived_def)
  have "rr_buf rr = data"
  proof (rule nth_equalityI)
    show "length (rr_buf rr) = length data" using rr(3) assms(9) by (simp add: arrived_def filled_def)
    fix i assume "i < length (rr_buf rr)"
    then have i: "i < length data" using rr(3) assms(9) by (simp add: arrived_def filled_def)
    then have "rr_buf rr ! i = byte_at ?f (unat offset + i)" using rr(3) n by (simp add: arrived_def filled_def)
    then show "rr_buf rr ! i = data ! i" using i by (simp add: byte_at_pwrite)
  qed
  then show ?thesis using r(1) rr(1,2) n by blast
qed

theorem write_read_round_trip_witness:
  "\<exists>r rr. FhgfsOpsRemoting_writefileVec 4 (\<lambda>_ _. True) (\<lambda>_. map fos_expectedNodeResult) smallPattern zeroBits (-1)
      [7, 8, 9] 1 False = Some r \<and>
    FhgfsOpsRemoting_readfileVec 4 (\<lambda>_ _. True) None (\<lambda>_. map (servePiece (fold store_piece (wr_sent r) (\<lambda>_. []))))
      smallPattern zeroBits None (-1) [0, 0, 0] 0 3 1 = Some rr \<and> rr_buf rr = [7, 8, 9]"
  using write_read_round_trip [OF small_ok(1,2,5) zeroBits_ok, of "[7, 8, 9]" 1 4 "\<lambda>_. map fos_expectedNodeResult"
      "[0, 0, 0]" zeroBits "\<lambda>_ _. True" "\<lambda>_ _. True" "-1" False None "-1"] zeroBits_ok
  by (auto simp: numeral_3_eq_3)

text \<open>
  When the destination is a pipe and the kernel maps fewer bytes of it than the read asked for,
  the offset in the file still moves on by the bytes asked for: here the file holds the bytes one to
  four, the pipe takes one byte per round, and the read delivers the bytes one and three as its first two.
\<close>

theorem pipe_read_skips:
  "map_option (\<lambda>rr. (rr_retVal rr, rr_buf rr))
     (FhgfsOpsRemoting_readfileVec 5 (\<lambda>_ _. True) (Some (\<lambda>_. 1)) (\<lambda>_. map (servePiece (\<lambda>t. if t = 5 then [1, 2] else [3, 4])))
        smallPattern zeroBits None (-1) [0, 0, 0, 0] 0 4 0) = Some (2, [1, 3, 0, 0])"
  by code_simp

end
