(* ===== verification/Chunk_Sizes.thy ===== *)
theory Chunk_Sizes
  imports Chunk_Files
begin

text \<open>
  The sizes of the chunk files of a striped file: the size of each chunk file of a file without
  holes, the size of the file from the sizes of its chunk files, also with holes, and truncation.
\<close>

section \<open>From the file to the chunk files\<close>

definition local_size :: "nat \<Rightarrow> nat \<Rightarrow> nat \<Rightarrow> nat \<Rightarrow> nat" where
  "local_size c n s t = s div (c * n) * c + min c (s mod (c * n) - t * c)"

lemma local_size_iff:
  assumes "0 < c" "0 < n"
  shows "stripe_offset c n q < local_size c n s (stripe_index c n q) \<longleftrightarrow> q < s"
proof -
  define a t m A R where "a = q div (c * n)" and "t = stripe_index c n q" and "m = q mod c"
    and "A = s div (c * n)" and "R = s mod (c * n)"
  have m: "m < c" using assms by (simp add: m_def)
  have t: "t < n" using assms by (simp add: t_def stripe_index_less)
  have "q = stripe_position c n t (stripe_offset c n q)" by (simp add: t_def stripe_position_inverse)
  then have q: "q = a * (c * n) + (t * c + m)"
    using assms(1) m by (simp add: stripe_position_def stripe_offset_def a_def m_def)
  have R: "R < c * n" using assms by (simp add: R_def)
  have s: "s = A * (c * n) + R" unfolding A_def R_def by (rule div_mult_mod_eq [symmetric])
  have "t * c + m < c * n"
  proof -
    have "Suc t * c \<le> n * c" using t by (intro mult_le_mono1) simp
    then show ?thesis using m by (simp add: mult.commute)
  qed
  then have less: "q < Suc a * (c * n)" using q by simp
  have off: "stripe_offset c n q = a * c + m" by (simp add: stripe_offset_def a_def m_def)
  have loc: "local_size c n s t = A * c + min c (R - t * c)" by (simp add: local_size_def A_def R_def)
  consider "a < A" | "A < a" | "a = A" by linarith
  then have "a * c + m < A * c + min c (R - t * c) \<longleftrightarrow> q < s"
  proof cases
    case 1
    then have "Suc a * c \<le> A * c" "Suc a * (c * n) \<le> A * (c * n)" by (intro mult_le_mono1; simp)+
    then show ?thesis using m less s by simp
  next
    case 2
    then have "Suc A * c \<le> a * c" "Suc A * (c * n) \<le> a * (c * n)" by (intro mult_le_mono1; simp)+
    then show ?thesis using q R s by simp
  next
    case 3
    then show ?thesis using m q s by auto
  qed
  then show ?thesis unfolding off loc t_def [symmetric] .
qed

section \<open>Truncation\<close>

text \<open>The operating system cuts a file or extends it with zeros.\<close>

definition resize :: "nat \<Rightarrow> 'a :: zero list \<Rightarrow> 'a list" where
  "resize k f = take k f @ replicate (k - length f) 0"

lemma length_resize [simp]: "length (resize k f) = k"
  by (simp add: resize_def)

lemma byte_at_resize: "byte_at (resize k f) x = (if x < k then byte_at f x else 0)"
  by (auto simp: byte_at_def resize_def nth_append)

lemma striped_resize:
  assumes "0 < c" "0 < n" "striped c n ch f"
  shows "striped c n (\<lambda>t. resize (local_size c n s t) (ch t)) (resize s f)"
proof -
  have "byte_at (resize s f) q = byte_at (resize (local_size c n s (stripe_index c n q)) (ch (stripe_index c n q))) (stripe_offset c n q)" for q
    using assms(3) by (simp add: byte_at_resize local_size_iff [OF assms(1,2)] striped_def)
  moreover have "stripe_present c n (\<lambda>t. resize (local_size c n s t) (ch t)) q \<longleftrightarrow> q < s" for q
    by (simp add: stripe_present_def local_size_iff [OF assms(1,2)])
  moreover have "s - 1 < s" if "resize s f \<noteq> []" using that by (cases s) (simp_all add: resize_def)
  ultimately show ?thesis by (simp add: striped_def)
qed

section \<open>From the chunk files to the file\<close>

definition num_chunks :: "nat \<Rightarrow> nat \<Rightarrow> nat" where
  "num_chunks c s = s div c + (if s mod c \<noteq> 0 then 1 else 0)"

lemma num_chunks_0: "0 < c \<Longrightarrow> num_chunks c s = 0 \<longleftrightarrow> s = 0"
  using div_mult_mod_eq [of s c] by (cases "s = 0") (auto simp: num_chunks_def)

lemma num_chunks_last:
  assumes "0 < c" "0 < s"
  shows "num_chunks c s = Suc ((s - 1) div c)"
proof (cases "s mod c = 0")
  case True
  then obtain k where k: "s = c * k" by auto
  with assms(2) have "0 < k" by simp
  then obtain j where j: "k = Suc j" using gr0_implies_Suc by blast
  have "s - 1 = c * j + (c - 1)" using k j assms(1) by simp
  then have "c * j \<le> s - 1" "s - 1 < c * Suc j" using assms(1) by simp_all
  then have "(s - 1) div c = j" by (rule div_nat_eqI)
  then show ?thesis using k j assms(1) True by (simp add: num_chunks_def)
next
  case False
  have "s - 1 = c * (s div c) + (s mod c - 1)" using False by (metis Nat.add_diff_assoc One_nat_def Suc_leI mult_div_mod_eq neq0_conv)
  moreover have "s mod c - 1 < c" using assms(1) by (simp add: less_imp_diff_less)
  ultimately have "(s - 1) div c = s div c" using assms(1) by simp
  then show ?thesis using False by (simp add: num_chunks_def)
qed

text \<open>The target that decides: the last one with the most chunks.\<close>

definition last_max :: "nat \<Rightarrow> nat list \<Rightarrow> nat \<Rightarrow> bool" where
  "last_max c ss i \<longleftrightarrow> i < length ss \<and> (\<forall>j < length ss. num_chunks c (ss ! j) \<le> num_chunks c (ss ! i)) \<and>
     (\<forall>j < length ss. i < j \<longrightarrow> num_chunks c (ss ! j) < num_chunks c (ss ! i))"

definition total_size :: "nat \<Rightarrow> nat list \<Rightarrow> nat \<Rightarrow> nat" where
  "total_size c ss i = (let m = num_chunks c (ss ! i)
     in if m = 0 then 0 else i * m * c + (length ss - i - 1) * (m - 1) * c + ss ! i)"

lemma total_size_position:
  assumes "0 < c" "i < length ss" "0 < ss ! i"
  shows "total_size c ss i = Suc (stripe_position c (length ss) i (ss ! i - 1))"
proof -
  obtain k where n: "length ss = i + Suc k" using less_imp_Suc_add [OF assms(2)] by auto
  define l where "l = ss ! i - 1"
  have s: "ss ! i = Suc l" using assms(3) by (simp add: l_def)
  have m: "num_chunks c (ss ! i) = Suc (l div c)" using num_chunks_last [OF assms(1,3)] by (simp add: l_def)
  define d r where "d = l div c" and "r = l mod c"
  have l: "l = d * c + r" by (simp add: d_def r_def)
  have "total_size c ss i = i * Suc d * c + k * d * c + Suc l"
    by (simp add: total_size_def m n d_def [symmetric]) (simp add: s)
  also have "\<dots> = d * (c * length ss) + i * c + Suc r" unfolding l n by (simp add: algebra_simps)
  finally show ?thesis by (simp add: stripe_position_def d_def r_def l_def)
qed

lemma striped_size:
  assumes "0 < c" "striped c (length ss) ch f" "\<And>t. t < length ss \<Longrightarrow> ss ! t = length (ch t)" "last_max c ss i"
  shows "total_size c ss i = length f"
proof -
  let ?n = "length ss"
  have i: "i < ?n" and n: "0 < ?n" using assms(4) by (auto simp: last_max_def)
  have le: "num_chunks c (ss ! j) \<le> num_chunks c (ss ! i)" if "j < ?n" for j
    using assms(4) that by (simp add: last_max_def)
  have present: "stripe_present c ?n ch q \<longleftrightarrow> stripe_offset c ?n q < ss ! stripe_index c ?n q" for q
    using assms(3) [OF stripe_index_less [OF n]] by (simp add: stripe_present_def)
  show ?thesis
  proof (cases "ss ! i = 0")
    case True
    then have "num_chunks c (ss ! i) = 0" using num_chunks_0 [OF assms(1)] by simp
    then have "ss ! j = 0" if "j < ?n" for j using le [OF that] num_chunks_0 [OF assms(1), of "ss ! j"] by simp
    then have "\<not> stripe_present c ?n ch q" for q using present stripe_index_less [OF n] by simp
    then have "f = []" using assms(2) by (auto simp: striped_def)
    then show ?thesis using True num_chunks_0 [OF assms(1)] by (simp add: total_size_def)
  next
    case False
    let ?l = "ss ! i - 1"
    let ?q = "stripe_position c ?n i ?l"
    have at: "stripe_index c ?n ?q = i" "stripe_offset c ?n ?q = ?l"
      using stripe_index_position [OF assms(1) i] stripe_offset_position [OF assms(1) i] by simp_all
    have "stripe_present c ?n ch ?q" unfolding present at using False by simp
    then have q: "?q < length f" using assms(2) by (simp add: striped_def)
    let ?e = "length f - 1"
    have e: "stripe_present c ?n ch ?e" using assms(2) q by (auto simp: striped_def)
    define t k where "t = stripe_index c ?n ?e" and "k = stripe_offset c ?n ?e"
    have t: "t < ?n" "k < ss ! t" using e present [of ?e] by (simp_all add: t_def k_def stripe_index_less [OF n])
    have pe: "?e = stripe_position c ?n t k" by (simp add: t_def k_def stripe_position_inverse)
    have chunks: "num_chunks c (ss ! i) = Suc (?l div c)" "num_chunks c (ss ! t) = Suc ((ss ! t - 1) div c)"
      using num_chunks_last [OF assms(1)] False t(2) by simp_all
    have kt: "k div c \<le> (ss ! t - 1) div c" using t(2) by (intro div_le_mono) simp
    have "?e \<le> ?q"
    proof (cases "k div c = ?l div c")
      case eq: True
      then have same: "num_chunks c (ss ! t) = num_chunks c (ss ! i)" using le [OF t(1)] kt chunks by simp
      have "\<not> i < t" using assms(4) t(1) same by (auto simp: last_max_def)
      then consider "t = i" | "t < i" by linarith
      then show ?thesis
      proof cases
        case 1
        then show ?thesis unfolding pe using stripe_position_mono [OF assms(1) i, of k ?l] t(2) by simp
      next
        case 2
        then have "Suc t * c \<le> i * c" by (intro mult_le_mono1) simp
        moreover have "k mod c < c" using assms(1) by simp
        ultimately have "t * c + k mod c \<le> i * c + ?l mod c" by simp
        then show ?thesis unfolding pe stripe_position_def eq by linarith
      qed
    next
      case False
      have "k div c \<le> ?l div c" using le [OF t(1)] kt chunks by simp
      with False have "Suc (k div c) * (c * ?n) \<le> ?l div c * (c * ?n)" by (intro mult_le_mono1) simp
      moreover have "t * c + k mod c < c * ?n"
      proof -
        have "Suc t * c \<le> ?n * c" using t(1) by (intro mult_le_mono1) simp
        moreover have "k mod c < c" using assms(1) by simp
        ultimately show ?thesis by (simp add: mult.commute)
      qed
      ultimately show ?thesis unfolding pe stripe_position_def by simp
    qed
    then have "length f = Suc ?q" using q by simp
    then show ?thesis using total_size_position [OF assms(1) i] False by simp
  qed
qed

lemma total_size_bounds:
  assumes "0 < c" "i < length ss" "0 < ss ! i"
  shows "num_chunks c (ss ! i) * (c * length ss) \<le> total_size c ss i + c * length ss"
proof -
  have "num_chunks c (ss ! i) * (c * length ss) = (ss ! i - 1) div c * (c * length ss) + c * length ss"
    by (simp add: num_chunks_last [OF assms(1,3)])
  then show ?thesis unfolding total_size_position [OF assms] stripe_position_def by simp
qed

text \<open>The chunk files of a file without holes.\<close>

lemma striped_dense:
  assumes "0 < c" "0 < n"
  shows "striped c n (\<lambda>t. resize (local_size c n s t) []) (resize s ([] :: nat list))"
  by (rule striped_resize [OF assms striped_empty])

end
