(* ===== verification/Server_Patterns.thy ===== *)
theory Server_Patterns
  imports Striping
begin

text \<open>
  The stripe patterns of the servers and tools (\<^verbatim>\<open>StripePattern.h\<close>, \<^verbatim>\<open>Raid0Pattern\<close>,
  \<^verbatim>\<open>Raid10Pattern\<close>, \<^verbatim>\<open>BuddyMirrorPattern\<close> in
  \<^verbatim>\<open>common/source/common/storage/striping\<close>). They use plain divisions where the client has shifts
  and masks. The three classes are the constructors of a datatype; they share the header.
\<close>

section \<open>Operations\<close>

definition STRIPEPATTERN_DEFAULT_CHUNKSIZE :: u32 where "STRIPEPATTERN_DEFAULT_CHUNKSIZE = 524288"
definition RAID0PATTERN_DEFAULT_NUM_TARGETS :: u32 where "RAID0PATTERN_DEFAULT_NUM_TARGETS = 4"
definition RAID10PATTERN_DEFAULT_NUM_TARGETS :: u32 where "RAID10PATTERN_DEFAULT_NUM_TARGETS = 4"
definition BUDDYMIRRORPATTERN_DEFAULT_NUM_TARGETS :: u32 where "BUDDYMIRRORPATTERN_DEFAULT_NUM_TARGETS = 4"
definition DEFAULT_POOL_ID :: u16 where "DEFAULT_POOL_ID = 1"

record SrvPatternHeader =
  vh_length :: u32
  vh_type :: u32
  vh_chunkSize :: u32
  vh_storagePoolId :: u16
  vh_hasPoolId :: bool

datatype SrvPattern =
    SrvRaid0 SrvPatternHeader "u16 list" u32
  | SrvRaid10 SrvPatternHeader "u16 list" "u16 list" u32
  | SrvBuddyMirror SrvPatternHeader "u16 list" u32

definition SrvPattern_header :: "u32 \<Rightarrow> u32 \<Rightarrow> u16 option \<Rightarrow> SrvPatternHeader" where
  "SrvPattern_header type chunkSize storagePoolId =
     \<lparr>vh_length = 0, vh_type = type,
      vh_chunkSize = (if chunkSize \<noteq> 0 then chunkSize else STRIPEPATTERN_DEFAULT_CHUNKSIZE),
      vh_storagePoolId = (case storagePoolId of Some i \<Rightarrow> i | None \<Rightarrow> DEFAULT_POOL_ID),
      vh_hasPoolId = (storagePoolId \<noteq> None)\<rparr>"

definition Raid0Pattern_construct :: "u32 \<Rightarrow> u16 list \<Rightarrow> u32 \<Rightarrow> u16 \<Rightarrow> SrvPattern" where
  "Raid0Pattern_construct chunkSize ids defaultNumTargets storagePoolId =
     SrvRaid0 (SrvPattern_header STRIPEPATTERN_Raid0 chunkSize (Some storagePoolId)) ids
       (if defaultNumTargets \<noteq> 0 then defaultNumTargets else RAID0PATTERN_DEFAULT_NUM_TARGETS)"

definition Raid10Pattern_construct :: "u32 \<Rightarrow> u16 list \<Rightarrow> u16 list \<Rightarrow> u32 \<Rightarrow> u16 \<Rightarrow> SrvPattern" where
  "Raid10Pattern_construct chunkSize ids mirrorIDs defaultNumTargets storagePoolId =
     SrvRaid10 (SrvPattern_header STRIPEPATTERN_Raid10 chunkSize (Some storagePoolId)) ids mirrorIDs
       (if defaultNumTargets \<noteq> 0 then defaultNumTargets else RAID10PATTERN_DEFAULT_NUM_TARGETS)"

definition BuddyMirrorPattern_construct :: "u32 \<Rightarrow> u16 list \<Rightarrow> u32 \<Rightarrow> u16 \<Rightarrow> SrvPattern" where
  "BuddyMirrorPattern_construct chunkSize ids defaultNumTargets storagePoolId =
     SrvBuddyMirror (SrvPattern_header STRIPEPATTERN_BuddyMirror chunkSize (Some storagePoolId)) ids
       (if defaultNumTargets \<noteq> 0 then defaultNumTargets else BUDDYMIRRORPATTERN_DEFAULT_NUM_TARGETS)"

fun srv_header :: "SrvPattern \<Rightarrow> SrvPatternHeader" where
  "srv_header (SrvRaid0 h ids d) = h"
| "srv_header (SrvRaid10 h ids ms d) = h"
| "srv_header (SrvBuddyMirror h ids d) = h"

fun srv_getStripeTargetIDs :: "SrvPattern \<Rightarrow> u16 list" where
  "srv_getStripeTargetIDs (SrvRaid0 h ids d) = ids"
| "srv_getStripeTargetIDs (SrvRaid10 h ids ms d) = ids"
| "srv_getStripeTargetIDs (SrvBuddyMirror h ids d) = ids"

fun srv_getMirrorTargetIDs :: "SrvPattern \<Rightarrow> u16 list option" where
  "srv_getMirrorTargetIDs (SrvRaid10 h ids ms d) = Some ms"
| "srv_getMirrorTargetIDs p = None"

fun srv_getMinNumTargets :: "SrvPattern \<Rightarrow> u32" where
  "srv_getMinNumTargets (SrvRaid10 h ids ms d) = 2"
| "srv_getMinNumTargets p = 1"

fun srv_getDefaultNumTargets :: "SrvPattern \<Rightarrow> u32" where
  "srv_getDefaultNumTargets (SrvRaid0 h ids d) = d"
| "srv_getDefaultNumTargets (SrvRaid10 h ids ms d) = d"
| "srv_getDefaultNumTargets (SrvBuddyMirror h ids d) = d"

definition srv_getChunkSize :: "SrvPattern \<Rightarrow> u32" where
  "srv_getChunkSize this = vh_chunkSize (srv_header this)"

definition srv_getChunkStart :: "SrvPattern \<Rightarrow> u64 \<Rightarrow> u64" where
  "srv_getChunkStart this pos =
     (let posModChunkSize = ucast (pos AND ucast (srv_getChunkSize this - 1)) :: u32
      in pos - ucast posModChunkSize)"

definition srv_getNextChunkStart :: "SrvPattern \<Rightarrow> u64 \<Rightarrow> u64" where
  "srv_getNextChunkStart this pos = srv_getChunkStart this pos + ucast (srv_getChunkSize this)"

definition srv_getChunkEnd :: "SrvPattern \<Rightarrow> u64 \<Rightarrow> u64" where
  "srv_getChunkEnd this pos = srv_getNextChunkStart this pos - 1"

definition srv_getStripeTargetIndex :: "SrvPattern \<Rightarrow> u64 \<Rightarrow> u64 option" where
  "srv_getStripeTargetIndex this pos =
     (if srv_getChunkSize this = 0 \<or> srv_getStripeTargetIDs this = [] then None
      else Some (int64_div pos (ucast (srv_getChunkSize this)) mod of_nat (length (srv_getStripeTargetIDs this))))"

definition srv_getStripeTargetID :: "SrvPattern \<Rightarrow> u64 \<Rightarrow> u16 option" where
  "srv_getStripeTargetID this pos =
     Option.bind (srv_getStripeTargetIndex this pos) (UInt16Vec_at (srv_getStripeTargetIDs this))"

fun srv_clone :: "SrvPattern \<Rightarrow> SrvPattern" where
  "srv_clone (SrvRaid0 h ids d) = SrvRaid0 h ids d"
| "srv_clone (SrvRaid10 h ids ms d) = Raid10Pattern_construct (vh_chunkSize h) ids ms d DEFAULT_POOL_ID"
| "srv_clone (SrvBuddyMirror h ids d) = SrvBuddyMirror h ids d"

fun srv_patternEquals :: "SrvPattern \<Rightarrow> SrvPattern \<Rightarrow> bool" where
  "srv_patternEquals (SrvRaid0 h ids d) (SrvRaid0 h' ids' d') \<longleftrightarrow> d = d' \<and> ids = ids'"
| "srv_patternEquals (SrvRaid10 h ids ms d) (SrvRaid10 h' ids' ms' d') \<longleftrightarrow> d = d' \<and> ids = ids' \<and> ms = ms'"
| "srv_patternEquals (SrvBuddyMirror h ids d) (SrvBuddyMirror h' ids' d') \<longleftrightarrow> d = d' \<and> ids = ids'"
| "srv_patternEquals p q \<longleftrightarrow> False"

definition srv_stripePatternEquals :: "SrvPattern \<Rightarrow> SrvPattern \<Rightarrow> bool" where
  "srv_stripePatternEquals this second \<longleftrightarrow>
     vh_type (srv_header this) = vh_type (srv_header second) \<and> srv_getChunkSize this = srv_getChunkSize second \<and>
     vh_storagePoolId (srv_header this) = vh_storagePoolId (srv_header second) \<and> srv_patternEquals this second"

fun srv_setTargetIDs :: "SrvPattern \<Rightarrow> u16 list \<Rightarrow> SrvPattern" where
  "srv_setTargetIDs (SrvRaid0 h ids d) new = SrvRaid0 h new d"
| "srv_setTargetIDs (SrvRaid10 h ids ms d) new = SrvRaid10 h new ms d"
| "srv_setTargetIDs (SrvBuddyMirror h ids d) new = SrvBuddyMirror h new d"

definition srv_updateStripeTargetIDs :: "SrvPattern \<Rightarrow> SrvPattern option \<Rightarrow> bool \<times> SrvPattern" where
  "srv_updateStripeTargetIDs this updatedStripePattern =
     (case updatedStripePattern of
        None \<Rightarrow> (False, this)
      | Some upd \<Rightarrow>
          if length (srv_getStripeTargetIDs this) \<noteq> length (srv_getStripeTargetIDs upd) then (False, this)
          else (True, srv_setTargetIDs this
                  (map (\<lambda>i. srv_getStripeTargetIDs upd ! i) [0..<length (srv_getStripeTargetIDs this)])))"

section \<open>Placement\<close>

text \<open>An object of a class has the type number of that class.\<close>

fun srv_typed :: "SrvPattern \<Rightarrow> bool" where
  "srv_typed (SrvRaid0 h ids d) \<longleftrightarrow> vh_type h = STRIPEPATTERN_Raid0"
| "srv_typed (SrvRaid10 h ids ms d) \<longleftrightarrow> vh_type h = STRIPEPATTERN_Raid10"
| "srv_typed (SrvBuddyMirror h ids d) \<longleftrightarrow> vh_type h = STRIPEPATTERN_BuddyMirror"

definition srv_ok :: "SrvPattern \<Rightarrow> bool" where
  "srv_ok p \<longleftrightarrow> srv_getChunkSize p \<noteq> 0 \<and> srv_getStripeTargetIDs p \<noteq> [] \<and> length (srv_getStripeTargetIDs p) < 2 ^ 32"

definition srv_chunk :: "SrvPattern \<Rightarrow> nat" where
  "srv_chunk p = unat (srv_getChunkSize p)"

interpretation srv_striping: stripe_pattern srv_ok srv_chunk srv_getStripeTargetIDs
  srv_getStripeTargetIndex srv_getStripeTargetID
  by unfold_locales (auto simp: srv_ok_def srv_chunk_def srv_getStripeTargetIndex_def srv_getStripeTargetID_def
      plain_index_ref unat_gt_0)

text \<open>The chunk of a position is computed as in the client.\<close>

definition chunk_view :: "SrvPattern \<Rightarrow> StripePattern" where
  "chunk_view p = \<lparr>sp_patternType = vh_type (srv_header p), sp_chunkSize = srv_getChunkSize p,
     sp_storagePoolId = vh_storagePoolId (srv_header p), sp_serialPatternLength = 0\<rparr>"

lemma srv_chunk_client:
  "srv_getChunkStart p pos = StripePattern_getChunkStart (chunk_view p) pos"
  "srv_getNextChunkStart p pos = StripePattern_getNextChunkStart (chunk_view p) pos"
  "srv_getChunkEnd p pos = StripePattern_getChunkEnd (chunk_view p) pos"
  by (simp_all add: srv_getChunkStart_def StripePattern_getChunkStart_def srv_getNextChunkStart_def
      StripePattern_getNextChunkStart_def srv_getChunkEnd_def StripePattern_getChunkEnd_def chunk_view_def)

lemma srv_clone_equals:
  assumes "srv_typed p"
  shows "srv_stripePatternEquals (srv_clone p) p \<longleftrightarrow>
    (case p of SrvRaid10 h ids ms d \<Rightarrow> vh_chunkSize h \<noteq> 0 \<and> d \<noteq> 0 \<and> vh_storagePoolId h = DEFAULT_POOL_ID \<or>
                 vh_chunkSize h = STRIPEPATTERN_DEFAULT_CHUNKSIZE \<and> d \<noteq> 0 \<and> vh_storagePoolId h = DEFAULT_POOL_ID
     | _ \<Rightarrow> True)"
  using assms by (cases p) (auto simp: srv_stripePatternEquals_def srv_getChunkSize_def Raid10Pattern_construct_def
      SrvPattern_header_def RAID10PATTERN_DEFAULT_NUM_TARGETS_def STRIPEPATTERN_DEFAULT_CHUNKSIZE_def)

text \<open>
  Replacing the targets of a pattern succeeds exactly for a pattern with the same number of
  targets, then takes over its targets and nothing else, and leaves the pattern alone otherwise;
  comparing a pattern with its clone finds them equal, except that the clone of a Raid10 pattern has
  lost its storage pool.
\<close>

theorem server_pattern_update_clone:
  assumes "srv_typed p" "srv_getChunkSize p \<noteq> 0" "srv_getDefaultNumTargets p \<noteq> 0"
  shows "srv_updateStripeTargetIDs p (Some q) =
      (if length (srv_getStripeTargetIDs p) = length (srv_getStripeTargetIDs q)
       then (True, srv_setTargetIDs p (srv_getStripeTargetIDs q)) else (False, p)) \<and>
    (srv_stripePatternEquals (srv_clone p) p \<longleftrightarrow>
       srv_getMirrorTargetIDs p = None \<or> vh_storagePoolId (srv_header p) = DEFAULT_POOL_ID)"
proof
  have "map ((!) (srv_getStripeTargetIDs q)) [0..<length (srv_getStripeTargetIDs q)] = srv_getStripeTargetIDs q"
    by (rule map_nth)
  then show "srv_updateStripeTargetIDs p (Some q) =
      (if length (srv_getStripeTargetIDs p) = length (srv_getStripeTargetIDs q)
       then (True, srv_setTargetIDs p (srv_getStripeTargetIDs q)) else (False, p))"
    by (simp add: srv_updateStripeTargetIDs_def)
  show "srv_stripePatternEquals (srv_clone p) p \<longleftrightarrow>
      srv_getMirrorTargetIDs p = None \<or> vh_storagePoolId (srv_header p) = DEFAULT_POOL_ID"
    unfolding srv_clone_equals [OF assms(1)] using assms(2,3) by (cases p) (auto simp: srv_getChunkSize_def)
qed

theorem server_pattern_update_clone_witness:
  "\<not> srv_stripePatternEquals (srv_clone (Raid10Pattern_construct 65536 [1] [2] 0 7)) (Raid10Pattern_construct 65536 [1] [2] 0 7)"
  using server_pattern_update_clone [of "Raid10Pattern_construct 65536 [1] [2] 0 7" "Raid10Pattern_construct 65536 [3] [4] 0 7"]
  by (simp add: Raid10Pattern_construct_def SrvPattern_header_def srv_getChunkSize_def RAID10PATTERN_DEFAULT_NUM_TARGETS_def
      DEFAULT_POOL_ID_def)

end
