(* ===== verification/File_Sizes.thy ===== *)
theory File_Sizes
  imports Chunk_Sizes Server_Patterns
begin

text \<open>
  How the metadata server keeps the size of a file: the attributes that the storage servers report
  per chunk file (\<^verbatim>\<open>DynamicFileAttribs.h\<close>, \<^verbatim>\<open>ChunkFileInfo.h\<close>, \<^verbatim>\<open>ChunksBlocksVec.h\<close>), their
  combination into the attributes of the file (\<^verbatim>\<open>StatData::updateDynamicFileAttribs\<close>), the reverse
  direction when an inode is loaded (\<^verbatim>\<open>FileInode::initFileInfoVec\<close>), and the truncation positions of
  the chunk files (\<^verbatim>\<open>MsgHelperTrunc.cpp\<close>). Signed 64 bit numbers are words that are compared by
  \<^term>\<open>sint\<close>. The current time is the argument \<^term>\<open>now\<close>.
\<close>

section \<open>Operations\<close>

subsection \<open>Chunk files\<close>

record DynamicFileAttribs =
  da_storageVersion :: u64
  da_fileSize :: u64
  da_numBlocks :: u64
  da_modificationTimeSecs :: u64
  da_lastAccessTimeSecs :: u64

record ChunkFileInfo =
  ci_dynAttribs :: DynamicFileAttribs
  ci_chunkSize :: u32
  ci_chunkSizeLog2 :: u32
  ci_numCompleteChunks :: u64

definition ChunkFileInfo_construct :: "u32 \<Rightarrow> u32 \<Rightarrow> DynamicFileAttribs \<Rightarrow> ChunkFileInfo" where
  "ChunkFileInfo_construct chunkSize chunkSizeLog2 dynAttribs =
     \<lparr>ci_dynAttribs = dynAttribs, ci_chunkSize = chunkSize, ci_chunkSizeLog2 = chunkSizeLog2,
      ci_numCompleteChunks = int64_shr (da_fileSize dynAttribs) chunkSizeLog2\<rparr>"

definition ChunkFileInfo_updateDynAttribs :: "ChunkFileInfo \<Rightarrow> DynamicFileAttribs \<Rightarrow> bool \<times> ChunkFileInfo" where
  "ChunkFileInfo_updateDynAttribs this newAttribs =
     (if da_storageVersion newAttribs > da_storageVersion (ci_dynAttribs this)
      then (True, this\<lparr>ci_dynAttribs := newAttribs,
                       ci_numCompleteChunks := int64_shr (da_fileSize newAttribs) (ci_chunkSizeLog2 this)\<rparr>)
      else (False, this))"

definition ChunkFileInfo_getNumChunks :: "ChunkFileInfo \<Rightarrow> u64" where
  "ChunkFileInfo_getNumChunks this =
     (let incompleteChunk = (if da_fileSize (ci_dynAttribs this) AND ucast (ci_chunkSize this - 1) \<noteq> 0 then 1 else 0)
      in ci_numCompleteChunks this + incompleteChunk)"

definition ChunksBlocksVec_setNumBlocks :: "u64 list \<Rightarrow> nat \<Rightarrow> u64 \<Rightarrow> nat \<Rightarrow> u64 list" where
  "ChunksBlocksVec_setNumBlocks vec target numBlocks numStripeTargets =
     (let vec = (if vec = [] then replicate numStripeTargets 0 else vec)
      in if target \<ge> length vec then vec else vec[target := numBlocks])"

definition ChunksBlocksVec_getNumBlocks :: "u64 list \<Rightarrow> nat \<Rightarrow> u64" where
  "ChunksBlocksVec_getNumBlocks vec target = (if vec = [] \<or> target \<ge> length vec then 0 else vec ! target)"

definition ChunksBlocksVec_getBlockSum :: "u64 list \<Rightarrow> u64" where
  "ChunksBlocksVec_getBlockSum vec = foldl (+) 0 vec"

subsection \<open>Attributes of the file\<close>

record SettableFileAttribs =
  sa_mode :: u32
  sa_userID :: u32
  sa_groupID :: u32
  sa_modificationTimeSecs :: u64
  sa_lastAccessTimeSecs :: u64

record StatData =
  sd_flags :: u32
  sd_fileSize :: u64
  sd_creationTimeSecs :: u64
  sd_attribChangeTimeSecs :: u64
  sd_nlink :: u32
  sd_settableFileAttribs :: SettableFileAttribs
  sd_metaVersion :: u32
  sd_chunkBlocksVec :: "u64 list"

definition STATDATA_FEATURE_SPARSE_FILE :: u32 where "STATDATA_FEATURE_SPARSE_FILE = 1"
definition STATDATA_SPARSE_GRACEBLOCKS :: u64 where "STATDATA_SPARSE_GRACEBLOCKS = 8"
definition BLOCK_SIZE :: u64 where "BLOCK_SIZE = 512"
definition BLOCK_SHIFT :: u32 where "BLOCK_SHIFT = 9"

definition StatData_getIsSparseFile :: "StatData \<Rightarrow> bool" where
  "StatData_getIsSparseFile this = (sd_flags this AND STATDATA_FEATURE_SPARSE_FILE \<noteq> 0)"

definition StatData_setSparseFlag :: "StatData \<Rightarrow> StatData" where
  "StatData_setSparseFlag this = this\<lparr>sd_flags := sd_flags this OR STATDATA_FEATURE_SPARSE_FILE\<rparr>"

definition StatData_unsetSparseFlag :: "StatData \<Rightarrow> StatData" where
  "StatData_unsetSparseFlag this = this\<lparr>sd_flags := sd_flags this AND NOT STATDATA_FEATURE_SPARSE_FILE\<rparr>"

definition StatData_getNumBlocks :: "StatData \<Rightarrow> u64" where
  "StatData_getNumBlocks this =
     (if StatData_getIsSparseFile this then ChunksBlocksVec_getBlockSum (sd_chunkBlocksVec this)
      else int64_shr (sd_fileSize this + BLOCK_SIZE - 1) BLOCK_SHIFT)"

definition int64_max :: "u64 \<Rightarrow> u64 \<Rightarrow> u64" where
  "int64_max a b = (if sint a < sint b then b else a)"

text \<open>What the loop over the targets collects.\<close>

record Scan =
  sn_target :: u32
  sn_lastMaxNumChunksIndex :: u32
  sn_maxNumChunks :: u64
  sn_modificationTimeSecs :: u64
  sn_lastAccessTimeSecs :: u64
  sn_chunkBlocksVec :: "u64 list"

definition scanTarget :: "nat \<Rightarrow> Scan \<Rightarrow> ChunkFileInfo \<Rightarrow> Scan" where
  "scanTarget numStripeTargets s info =
     (let currentNumChunks = ChunkFileInfo_getNumChunks info;
          more = sint currentNumChunks \<ge> sint (sn_maxNumChunks s)
      in \<lparr>sn_target = sn_target s + 1,
          sn_lastMaxNumChunksIndex = (if more then sn_target s else sn_lastMaxNumChunksIndex s),
          sn_maxNumChunks = (if more then currentNumChunks else sn_maxNumChunks s),
          sn_modificationTimeSecs = int64_max (sn_modificationTimeSecs s) (da_modificationTimeSecs (ci_dynAttribs info)),
          sn_lastAccessTimeSecs = int64_max (sn_lastAccessTimeSecs s) (da_lastAccessTimeSecs (ci_dynAttribs info)),
          sn_chunkBlocksVec = ChunksBlocksVec_setNumBlocks (sn_chunkBlocksVec s) (unat (sn_target s))
            (da_numBlocks (ci_dynAttribs info)) numStripeTargets\<rparr>)"

definition totalLength :: "u32 \<Rightarrow> ChunkFileInfo list \<Rightarrow> Scan \<Rightarrow> u64" where
  "totalLength chunkSize fileInfoVec s =
     (let idx = ucast (sn_lastMaxNumChunksIndex s) :: u64;
          lengthBeforeLastMaxIndex = idx * sn_maxNumChunks s * ucast chunkSize;
          lengthAfterLastMaxIndex = (of_nat (length fileInfoVec) - idx - 1) * (sn_maxNumChunks s - 1) * ucast chunkSize;
          lengthLastMaxNode = da_fileSize (ci_dynAttribs (fileInfoVec ! unat (sn_lastMaxNumChunksIndex s)))
      in lengthBeforeLastMaxIndex + lengthAfterLastMaxIndex + lengthLastMaxNode)"

definition startScan :: "StatData \<Rightarrow> ChunkFileInfo \<Rightarrow> nat \<Rightarrow> nat \<Rightarrow> Scan" where
  "startScan this first numStripeTargets numValidDynAttribs =
     (let attrs = ci_dynAttribs first;
          allValid = numValidDynAttribs = numStripeTargets;
          old = sd_settableFileAttribs this
      in \<lparr>sn_target = 1, sn_lastMaxNumChunksIndex = 0, sn_maxNumChunks = ChunkFileInfo_getNumChunks first,
          sn_modificationTimeSecs = (if allValid then da_modificationTimeSecs attrs
            else int64_max (da_modificationTimeSecs attrs) (sa_modificationTimeSecs old)),
          sn_lastAccessTimeSecs = (if allValid then da_lastAccessTimeSecs attrs
            else int64_max (da_lastAccessTimeSecs attrs) (sa_lastAccessTimeSecs old)),
          sn_chunkBlocksVec = ChunksBlocksVec_setNumBlocks (sd_chunkBlocksVec this) 0 (da_numBlocks attrs) numStripeTargets\<rparr>)"

definition applyScan :: "u64 \<Rightarrow> StatData \<Rightarrow> ChunkFileInfo list \<Rightarrow> u32 \<Rightarrow> Scan \<Rightarrow> StatData" where
  "applyScan now this fileInfoVec chunkSize s =
     (let old = sd_settableFileAttribs this;
          this = this\<lparr>sd_chunkBlocksVec := sn_chunkBlocksVec s\<rparr>;
          newFileSize = (if sn_maxNumChunks s \<noteq> 0 then totalLength chunkSize fileInfoVec s else 0);
          this = (if sn_maxNumChunks s \<noteq> 0
                  then (if StatData_getNumBlocks this + STATDATA_SPARSE_GRACEBLOCKS < int64_shr newFileSize BLOCK_SHIFT
                        then StatData_setSparseFlag this else StatData_unsetSparseFlag this)
                  else this);
          changed = sn_modificationTimeSecs s \<noteq> sa_modificationTimeSecs old \<or> newFileSize \<noteq> sd_fileSize this
      in this\<lparr>sd_attribChangeTimeSecs := (if changed then now else sd_attribChangeTimeSecs this),
              sd_settableFileAttribs := old\<lparr>sa_modificationTimeSecs := sn_modificationTimeSecs s,
                                            sa_lastAccessTimeSecs := sn_lastAccessTimeSecs s\<rparr>,
              sd_fileSize := newFileSize\<rparr>)"

definition StatData_updateDynamicFileAttribs :: "u64 \<Rightarrow> StatData \<Rightarrow> ChunkFileInfo list \<Rightarrow> SrvPattern \<Rightarrow> StatData" where
  "StatData_updateDynamicFileAttribs now this fileInfoVec stripePattern =
     (let numStripeTargets = length (srv_getStripeTargetIDs stripePattern);
          numValidDynAttribs = length (filter (\<lambda>i. da_storageVersion (ci_dynAttribs i) \<noteq> 0) fileInfoVec)
      in if numValidDynAttribs = 0 then this
         else applyScan now this fileInfoVec (srv_getChunkSize stripePattern)
                (foldl (scanTarget numStripeTargets)
                   (startScan this (hd fileInfoVec) numStripeTargets numValidDynAttribs) (tl fileInfoVec)))"

subsection \<open>Inodes\<close>

record FileInode =
  fi_pattern :: SrvPattern
  fi_statData :: StatData
  fi_fileInfoVec :: "ChunkFileInfo list"

definition FileInode_updateDynamicAttribs :: "u64 \<Rightarrow> FileInode \<Rightarrow> FileInode" where
  "FileInode_updateDynamicAttribs now this =
     this\<lparr>fi_statData := StatData_updateDynamicFileAttribs now (fi_statData this) (fi_fileInfoVec this) (fi_pattern this)\<rparr>"

definition FileInode_setDynAttribs :: "FileInode \<Rightarrow> DynamicFileAttribs list \<Rightarrow> bool \<times> FileInode" where
  "FileInode_setDynAttribs this newAttribsVec =
     (if length newAttribsVec \<noteq> length (fi_fileInfoVec this) then (False, this)
      else (True, this\<lparr>fi_fileInfoVec :=
              map2 (\<lambda>info attrs. snd (ChunkFileInfo_updateDynAttribs info attrs)) (fi_fileInfoVec this) newAttribsVec\<rparr>))"

primrec initTargets :: "nat \<Rightarrow> StatData \<Rightarrow> u32 \<Rightarrow> u32 \<Rightarrow> u64 \<Rightarrow> nat \<Rightarrow> u64 \<Rightarrow> ChunkFileInfo list" where
  "initTargets 0 statData chunkSize chunkSizeLog2 fullLengthPerTarget target remainingLastSetSize = []"
| "initTargets (Suc k) statData chunkSize chunkSizeLog2 fullLengthPerTarget target remainingLastSetSize =
     (let chunk = ucast chunkSize :: u64;
          targetFileLength = (if sint remainingLastSetSize > 0
            then fullLengthPerTarget + (if sint remainingLastSetSize < sint chunk then remainingLastSetSize else chunk)
            else fullLengthPerTarget);
          usedBlocks = (if StatData_getIsSparseFile statData
            then ChunksBlocksVec_getNumBlocks (sd_chunkBlocksVec statData) target else int64_shr targetFileLength BLOCK_SHIFT);
          dynAttribs = \<lparr>da_storageVersion = 0, da_fileSize = targetFileLength, da_numBlocks = usedBlocks,
            da_modificationTimeSecs = sa_modificationTimeSecs (sd_settableFileAttribs statData),
            da_lastAccessTimeSecs = sa_lastAccessTimeSecs (sd_settableFileAttribs statData)\<rparr>
      in ChunkFileInfo_construct chunkSize chunkSizeLog2 dynAttribs #
         initTargets k statData chunkSize chunkSizeLog2 fullLengthPerTarget (target + 1) (remainingLastSetSize - chunk))"

text \<open>The logarithm of zero is not defined: no chunk size and no target is \<^term>\<open>None\<close>.\<close>

definition FileInode_initFileInfoVec :: "FileInode \<Rightarrow> FileInode option" where
  "FileInode_initFileInfoVec this =
     (let pattern = fi_pattern this;
          numTargets = length (srv_getStripeTargetIDs pattern);
          chunkSize = srv_getChunkSize pattern;
          statData = fi_statData this;
          fileSize = sd_fileSize statData;
          stripeSetSize = ucast chunkSize * of_nat numTargets :: u64
      in if chunkSize = 0 \<or> (of_nat numTargets :: u32) = 0 then None
         else
           let chunkSizeLog2 = MathTk_log2Int32 chunkSize;
               pow = MathTk_isPowerOfTwo (of_nat numTargets);
               lastStripeSetSize = (if pow then fileSize AND (stripeSetSize - 1) else fileSize mod stripeSetSize);
               stripeSetStart = fileSize - lastStripeSetSize;
               fullLengthPerTarget = (if pow then int64_shr stripeSetStart (MathTk_log2Int32 (of_nat numTargets))
                 else stripeSetStart div of_nat numTargets)
           in Some (this\<lparr>fi_fileInfoVec := fi_fileInfoVec this @
                initTargets numTargets statData chunkSize chunkSizeLog2 fullLengthPerTarget 0 lastStripeSetSize\<rparr>))"

subsection \<open>Truncation\<close>

definition MsgHelperTrunc_getNodeLocalOffset :: "u64 \<Rightarrow> u64 \<Rightarrow> u64 \<Rightarrow> u64 \<Rightarrow> u64 option" where
  "MsgHelperTrunc_getNodeLocalOffset pos chunkSize numNodes stripeNodeIndex =
     (let posModChunkSize = pos AND (chunkSize - 1);
          chunkStart = pos - posModChunkSize - stripeNodeIndex * chunkSize
      in if numNodes = 0 then None else Some (chunkStart div numNodes + posModChunkSize))"

definition MsgHelperTrunc_getNodeLocalTruncPos :: "u64 \<Rightarrow> SrvPattern \<Rightarrow> nat \<Rightarrow> u64 option" where
  "MsgHelperTrunc_getNodeLocalTruncPos pos pattern stripeNodeIndex =
     (let numTargets = length (srv_getStripeTargetIDs pattern)
      in Option.bind (srv_getStripeTargetIndex pattern pos) (\<lambda>mainNodeIndex.
         Option.bind (MsgHelperTrunc_getNodeLocalOffset pos (ucast (srv_getChunkSize pattern)) (of_nat numTargets) mainNodeIndex)
           (\<lambda>mainNodeLocalOffset.
         let truncPos = (if stripeNodeIndex < unat mainNodeIndex then srv_getNextChunkStart pattern mainNodeLocalOffset
                         else if stripeNodeIndex = unat mainNodeIndex then mainNodeLocalOffset
                         else srv_getChunkStart pattern mainNodeLocalOffset)
         in Some (int64_max truncPos 0))))"

end
