(* ===== verification/Size_Lemmas.thy ===== *)
theory Size_Lemmas
  imports File_Sizes
begin

text \<open>
  The word arithmetic of \<^verbatim>\<open>updateDynamicFileAttribs\<close>, \<^verbatim>\<open>initFileInfoVec\<close> and the truncation helper
  computes the sizes of the theory of chunk sizes.
\<close>

section \<open>The number of chunks\<close>

definition info_size :: "ChunkFileInfo \<Rightarrow> nat" where
  "info_size i = unat (da_fileSize (ci_dynAttribs i))"

definition info_ok :: "u32 \<Rightarrow> ChunkFileInfo \<Rightarrow> bool" where
  "info_ok c i \<longleftrightarrow> ci_chunkSize i = c \<and> ci_chunkSizeLog2 i = MathTk_log2Int32 c \<and> info_size i < 2 ^ 63 \<and>
     ci_numCompleteChunks i = int64_shr (da_fileSize (ci_dynAttribs i)) (ci_chunkSizeLog2 i)"

lemma num_chunks_le: "num_chunks c s \<le> s"
proof (cases "c = 0 \<or> s = 0")
  case False
  then have "num_chunks c s = Suc ((s - 1) div c)" by (intro num_chunks_last) simp_all
  also have "\<dots> \<le> Suc (s - 1)" by simp
  finally show ?thesis using False by simp
qed (auto simp: num_chunks_def)

lemma log2_div:
  assumes "c \<noteq> 0" "MathTk_isPowerOfTwo c" "unat x < 2 ^ 63"
  shows "unat (int64_shr x (MathTk_log2Int32 c)) = unat x div unat c"
proof -
  obtain k where k: "k < 32" "c = 2 ^ k" using assms(2,1) by (rule isPowerOfTwoE)
  then show ?thesis using assms(3) by (simp only: unat_int64_shr log2Int32_pow2 unat_pow2_32)
qed

lemma unat_getNumChunks:
  assumes "info_ok c i" "c \<noteq> 0" "MathTk_isPowerOfTwo c"
  shows "unat (ChunkFileInfo_getNumChunks i) = num_chunks (unat c) (info_size i)"
proof -
  let ?x = "da_fileSize (ci_dynAttribs i)"
  have i: "ci_chunkSize i = c" "ci_numCompleteChunks i = int64_shr ?x (MathTk_log2Int32 c)" "unat ?x < 2 ^ 63"
    using assms(1) by (simp_all add: info_ok_def info_size_def)
  have full: "unat (int64_shr ?x (MathTk_log2Int32 c)) = unat ?x div unat c" by (rule log2_div [OF assms(2,3) i(3)])
  have "unat (?x AND ucast (c - 1)) = unat ?x mod unat c" by (rule chunk_mod [OF assms(2,3)])
  then have rest: "?x AND ucast (c - 1) \<noteq> 0 \<longleftrightarrow> unat ?x mod unat c \<noteq> 0" by (metis unat_eq_zero)
  have "unat ?x div unat c < 2 ^ 63" by (rule le_less_trans [OF div_le_dividend i(3)])
  then have "unat ?x div unat c + 1 < 2 ^ 64" by simp
  then show ?thesis
    using full by (simp add: ChunkFileInfo_getNumChunks_def Let_def i(1,2) rest num_chunks_def info_size_def unat_word_ariths(1))
qed

section \<open>The scan over the targets\<close>

lemma last_max_snoc:
  assumes "last_max c ss i"
  shows "last_max c (ss @ [x]) (if num_chunks c (ss ! i) \<le> num_chunks c x then length ss else i)"
  using assms by (auto simp: last_max_def nth_append less_Suc_eq intro: le_less_trans order_trans)

definition scan_inv :: "u32 \<Rightarrow> ChunkFileInfo list \<Rightarrow> Scan \<Rightarrow> bool" where
  "scan_inv c xs s \<longleftrightarrow> unat (sn_target s) = length xs \<and>
     last_max (unat c) (map info_size xs) (unat (sn_lastMaxNumChunksIndex s)) \<and>
     unat (sn_maxNumChunks s) = num_chunks (unat c) (map info_size xs ! unat (sn_lastMaxNumChunksIndex s))"

lemma scanTarget_inv:
  assumes "c \<noteq> 0" "MathTk_isPowerOfTwo c" "info_ok c x" "list_all (info_ok c) xs" "scan_inv c xs s" "length xs + 1 < 2 ^ 32"
  shows "scan_inv c (xs @ [x]) (scanTarget n s x)"
proof -
  let ?i = "unat (sn_lastMaxNumChunksIndex s)" and ?ss = "map info_size xs"
  have s: "unat (sn_target s) = length xs" "last_max (unat c) ?ss ?i" "unat (sn_maxNumChunks s) = num_chunks (unat c) (?ss ! ?i)"
    using assms(5) by (simp_all add: scan_inv_def)
  have i: "?i < length xs" using s(2) by (simp add: last_max_def)
  have cur: "unat (ChunkFileInfo_getNumChunks x) = num_chunks (unat c) (info_size x)" by (rule unat_getNumChunks [OF assms(3,1,2)])
  have "info_size (xs ! ?i) < 2 ^ 63" "info_size x < 2 ^ 63" using assms(3,4) i by (auto simp: info_ok_def list_all_length)
  then have small: "unat (sn_maxNumChunks s) < 2 ^ 63" "unat (ChunkFileInfo_getNumChunks x) < 2 ^ 63"
    using s(3) cur i num_chunks_le [of "unat c"] by (auto intro: le_less_trans)
  then have more: "sint (sn_maxNumChunks s) \<le> sint (ChunkFileInfo_getNumChunks x) \<longleftrightarrow>
      num_chunks (unat c) (?ss ! ?i) \<le> num_chunks (unat c) (info_size x)"
    by (simp add: sint_nonneg s(3) cur)
  have "unat (sn_target s + 1) = length xs + 1" using s(1) assms(6) by (simp add: unat_word_ariths(1))
  then show ?thesis
    using last_max_snoc [OF s(2), of "info_size x"] s(1,3) cur i
    by (auto simp: scan_inv_def scanTarget_def Let_def more nth_append)
qed

lemma scan_targets:
  assumes "c \<noteq> 0" "MathTk_isPowerOfTwo c"
  shows "list_all (info_ok c) (xs @ ys) \<Longrightarrow> scan_inv c xs s \<Longrightarrow> length (xs @ ys) < 2 ^ 32 \<Longrightarrow>
    scan_inv c (xs @ ys) (foldl (scanTarget n) s ys)"
proof (induction ys arbitrary: xs s)
  case (Cons y ys)
  have "scan_inv c (xs @ [y]) (scanTarget n s y)"
    using Cons.prems by (intro scanTarget_inv [OF assms]) simp_all
  from Cons.IH [OF _ this] Cons.prems show ?case by simp
qed simp

lemma totalLength_ref:
  assumes "scan_inv c xs s" "sn_maxNumChunks s \<noteq> 0"
  shows "totalLength c xs s = of_nat (total_size (unat c) (map info_size xs) (unat (sn_lastMaxNumChunksIndex s)))"
proof -
  let ?i = "unat (sn_lastMaxNumChunksIndex s)" and ?ss = "map info_size xs"
  have i: "?i < length xs" using assms(1) by (simp add: scan_inv_def last_max_def)
  define m where "m = num_chunks (unat c) (?ss ! ?i)"
  have um: "unat (sn_maxNumChunks s) = m" using assms(1) by (simp add: scan_inv_def m_def)
  have m: "sn_maxNumChunks s = of_nat m" "0 < m"
    using um assms(2) unat_gt_0 [of "sn_maxNumChunks s"] by (auto simp flip: um)
  have idx: "(ucast (sn_lastMaxNumChunksIndex s) :: u64) = of_nat ?i" by simp
  have chunk: "(ucast c :: u64) = of_nat (unat c)" by simp
  have rest: "of_nat (length xs) - of_nat ?i - 1 = (of_nat (length xs - ?i - 1) :: u64)" using i by simp
  have m1: "of_nat m - 1 = (of_nat (m - 1) :: u64)" using m(2) by simp
  have last: "da_fileSize (ci_dynAttribs (xs ! ?i)) = of_nat (?ss ! ?i)" using i by (simp add: info_size_def)
  show ?thesis
    unfolding totalLength_def Let_def idx chunk m(1) rest m1 last total_size_def m_def [symmetric]
    using m(2) by simp
qed

section \<open>The size of the file\<close>

lemma applyScan_size:
  "sd_fileSize (applyScan now sd infos c s) = (if sn_maxNumChunks s \<noteq> 0 then totalLength c infos s else 0)"
  by (simp add: applyScan_def Let_def)

lemma update_size:
  fixes p :: SrvPattern
  defines "c \<equiv> srv_getChunkSize p"
  assumes c: "c \<noteq> 0" "MathTk_isPowerOfTwo c"
    and infos: "list_all (info_ok c) infos" "length infos < 2 ^ 32"
    and valid: "\<exists>i \<in> set infos. da_storageVersion (ci_dynAttribs i) \<noteq> 0"
    and chunks: "striped (unat c) (length infos) ch f" "\<And>t. t < length infos \<Longrightarrow> info_size (infos ! t) = length (ch t)"
  shows "sd_fileSize (StatData_updateDynamicFileAttribs now sd infos p) = of_nat (length f)"
proof -
  obtain x xs where xs: "infos = x # xs" using valid by (cases infos) auto
  let ?n = "length (srv_getStripeTargetIDs p)"
  have num: "length (filter (\<lambda>i. da_storageVersion (ci_dynAttribs i) \<noteq> 0) infos) \<noteq> 0" using valid by (simp add: filter_empty_conv)
  have x: "info_ok c x" using infos(1) xs by simp
  have "scan_inv c [x] (startScan sd x ?n v)" for v
    using unat_getNumChunks [OF x c] by (simp add: scan_inv_def last_max_def startScan_def Let_def)
  then have scan: "scan_inv c infos (foldl (scanTarget ?n) (startScan sd x ?n v) xs)" for v
    using scan_targets [OF c, of "[x]" xs _ ?n] infos xs by simp
  have size: "(if sn_maxNumChunks s \<noteq> 0 then totalLength c infos s else 0) = of_nat (length f)" if inv: "scan_inv c infos s" for s
  proof -
    let ?ss = "map info_size infos" and ?i = "unat (sn_lastMaxNumChunksIndex s)"
    have "0 < unat c" using c(1) by (simp add: unat_gt_0)
    then have total: "total_size (unat c) ?ss ?i = length f"
      by (rule striped_size [where ch = ch]) (use chunks inv in \<open>simp_all add: scan_inv_def\<close>)
    show ?thesis
    proof (cases "sn_maxNumChunks s = 0")
      case True
      then have "total_size (unat c) ?ss ?i = 0" using inv by (simp add: scan_inv_def total_size_def)
      then show ?thesis using True total by simp
    next
      case False
      then show ?thesis using totalLength_ref [OF inv] total by simp
    qed
  qed
  have parts: "hd infos = x" "tl infos = xs" using xs by simp_all
  show ?thesis
    unfolding StatData_updateDynamicFileAttribs_def Let_def if_not_P [OF num] applyScan_size parts c_def [symmetric]
    by (rule size [OF scan])
qed

section \<open>The sizes of the chunk files\<close>

lemma sint_nat_diff:
  assumes "a < 2 ^ 63" "b < 2 ^ 63"
  shows "sint (word_of_int (int a - int b) :: u64) = int a - int b"
proof -
  have "int a < 2 ^ 63" "int b < 2 ^ 63" using assms by simp_all
  then have "- (2 ^ 63) \<le> int a - int b" "int a - int b < 2 ^ 63" by simp_all
  then have "signed_take_bit (LENGTH(64) - 1) (int a - int b) = int a - int b" by (intro signed_take_bit_int_eq_self) simp_all
  then show ?thesis by (simp only: sint_sbintrunc')
qed

lemma initTargets_Suc:
  "map info_size (initTargets (Suc k) sd c lg full target w) =
    unat (if 0 < sint w then full + (if sint w < sint (ucast c :: u64) then w else ucast c) else full) #
    map info_size (initTargets k sd c lg full (target + 1) (w - ucast c))"
  by (simp add: Let_def ChunkFileInfo_construct_def info_size_def)

lemma initTargets_sizes:
  assumes "unat full + unat c < 2 ^ 63" "(target + k) * unat c < 2 ^ 63" "R < 2 ^ 63"
  shows "map info_size (initTargets k sd c lg full target (word_of_int (int R - int (target * unat c)))) =
    map (\<lambda>t. unat full + min (unat c) (R - t * unat c)) [target..<target + k]"
  using assms(2)
proof (induction k arbitrary: target)
  case (Suc k)
  let ?r = "int R - int (target * unat c)"
  let ?w = "word_of_int ?r :: u64"
  have bound: "target * unat c < 2 ^ 63" using Suc.prems by (simp add: add_mult_distrib)
  have r: "sint ?w = ?r" by (rule sint_nat_diff [OF assms(3) bound])
  have chunk: "sint (ucast c :: u64) = int (unat c)" using small_chunk(1) [of c] by (simp add: sint_nonneg)
  let ?len = "if 0 < sint ?w then full + (if sint ?w < sint (ucast c :: u64) then ?w else ucast c) else full"
  have len: "unat ?len = unat full + min (unat c) (R - target * unat c)"
  proof (cases "target * unat c < R")
    case True
    then have "?w = of_nat (R - target * unat c)" by simp
    then have w: "unat ?w = R - target * unat c" using assms(3) by (simp add: unat_of_nat)
    have cond: "0 < sint ?w" "sint ?w < sint (ucast c :: u64) \<longleftrightarrow> R - target * unat c < unat c" using True r chunk by linarith+
    show ?thesis
    proof (cases "R - target * unat c < unat c")
      case less: True
      have "unat full + unat ?w < 2 ^ 64" using w less assms(1) by simp
      then show ?thesis using cond less w by (simp add: unat_word_ariths(1))
    next
      case False
      have "unat full + unat (ucast c :: u64) < 2 ^ 64" using assms(1) by simp
      then show ?thesis using cond False by (simp add: unat_word_ariths(1))
    qed
  next
    case False
    then have "\<not> 0 < sint ?w" using r by linarith
    then show ?thesis using False by simp
  qed
  have step: "?w - ucast c = word_of_int (int R - int (Suc target * unat c))"
    by (simp add: algebra_simps)
  have "(Suc target + k) * unat c < 2 ^ 63" using Suc.prems by simp
  note ih = Suc.IH [OF this]
  have "[target..<target + Suc k] = target # [Suc target..<Suc target + k]" by (simp add: upt_conv_Cons)
  then show ?case unfolding initTargets_Suc len step Suc_eq_plus1 [symmetric] ih by (simp only: list.map)
qed simp

lemma initTargets_ok:
  assumes "unat full + unat c < 2 ^ 63"
  shows "lg = MathTk_log2Int32 c \<Longrightarrow>
    list_all (\<lambda>i. info_size i < 2 ^ 63 \<longrightarrow> info_ok c i) (initTargets k sd c lg full target w)"
  by (induction k arbitrary: target w) (simp_all add: Let_def ChunkFileInfo_construct_def info_ok_def info_size_def)

lemma length_initTargets: "length (initTargets k sd c lg full target w) = k"
  by (induction k arbitrary: target w) (simp_all add: Let_def)

lemma unat_and_mask:
  assumes "k < 64"
  shows "unat (x AND (2 ^ k - 1) :: u64) = unat x mod 2 ^ k"
proof -
  have "x AND (2 ^ k - 1) = take_bit k x" by (simp add: take_bit_eq_mask mask_eq_exp_minus_1)
  then have "unat (x AND (2 ^ k - 1)) = take_bit k (unat x)" by (simp only: unsigned_take_bit_eq)
  then show ?thesis by (simp only: take_bit_eq_mod)
qed

lemma stripe_full: "0 < (n :: nat) \<Longrightarrow> (s - s mod (c * n)) div n = s div (c * n) * c"
  by (simp add: minus_mod_eq_mult_div mult.commute mult.left_commute)

text \<open>The remainder in the last stripe set and the length that every target has at least.\<close>

lemma last_stripe_set:
  assumes "c \<noteq> 0" "MathTk_isPowerOfTwo c" "0 < n" "n < 2 ^ 32" "unat c * n < 2 ^ 63" "unat s < 2 ^ 63"
  defines "ssz \<equiv> ucast c * of_nat n :: u64" and "pow \<equiv> MathTk_isPowerOfTwo (of_nat n)"
  defines "lss \<equiv> if pow then s AND (ssz - 1) else s mod ssz"
  shows "unat lss = unat s mod (unat c * n)"
    and "unat (if pow then int64_shr (s - lss) (MathTk_log2Int32 (of_nat n)) else (s - lss) div of_nat n) =
      unat s div (unat c * n) * unat c"
proof -
  have n32: "unat (of_nat n :: u32) = n" "(of_nat n :: u32) \<noteq> 0" using assms(3,4) unat_of_nat_32 [of n] by auto
  have n64: "unat (of_nat n :: u64) = n" using assms(4) by (simp add: unat_of_nat)
  have ssz: "unat ssz = unat c * n" using assms(5) n64 by (simp add: ssz_def unat_word_ariths(2))
  show lss_eq: "unat lss = unat s mod (unat c * n)"
  proof (cases pow)
    case True
    obtain k where k: "k < 32" "c = 2 ^ k" using assms(2,1) by (rule isPowerOfTwoE)
    obtain j where j: "j < 32" "(of_nat n :: u32) = 2 ^ j" using True n32(2) unfolding pow_def by (rule isPowerOfTwoE)
    have eq: "unat c * n = 2 ^ (k + j)" using k j n32(1) by (simp add: unat_pow2_32 power_add)
    then have "k + j < 64" using k(1) j(1) by simp
    moreover have "ssz = of_nat (2 ^ (k + j))" using ssz eq by (metis of_nat_unat ucast_id)
    ultimately show ?thesis using True unat_and_mask [of "k + j" s] eq by (simp add: lss_def)
  next
    case False
    then show ?thesis using ssz by (simp add: lss_def unat_mod_distrib)
  qed
  have "unat (s - lss) = unat s - unat s mod (unat c * n)" using lss_eq by (subst unat_sub) (simp_all add: word_le_nat_alt)
  moreover from this have "unat (s - lss) < 2 ^ 63" using assms(6) by simp
  ultimately have "unat (if pow then int64_shr (s - lss) (MathTk_log2Int32 (of_nat n)) else (s - lss) div of_nat n) =
      (unat s - unat s mod (unat c * n)) div n"
    using log2_div [OF n32(2), of "s - lss"] n32(1) n64 unfolding pow_def by (auto simp: unat_div_distrib)
  then show "unat (if pow then int64_shr (s - lss) (MathTk_log2Int32 (of_nat n)) else (s - lss) div of_nat n) =
      unat s div (unat c * n) * unat c"
    using stripe_full [OF assms(3), of "unat s" "unat c"] by simp
qed

text \<open>Loading an inode.\<close>

definition inode_ok :: "FileInode \<Rightarrow> bool" where
  "inode_ok i \<longleftrightarrow>
     (let p = fi_pattern i; c = srv_getChunkSize p; n = length (srv_getStripeTargetIDs p)
      in srv_ok p \<and> MathTk_isPowerOfTwo c \<and> unat c * n < 2 ^ 63 \<and> unat (sd_fileSize (fi_statData i)) + unat c < 2 ^ 63)"

lemma local_size_le: "0 < n \<Longrightarrow> local_size c n s t \<le> s div (c * n) * c + c"
  by (simp add: local_size_def)

lemma init_infos:
  assumes "inode_ok i" "fi_fileInfoVec i = []"
  obtains infos where "FileInode_initFileInfoVec i = Some (i\<lparr>fi_fileInfoVec := infos\<rparr>)"
    "length infos = length (srv_getStripeTargetIDs (fi_pattern i))"
    "list_all (info_ok (srv_getChunkSize (fi_pattern i))) infos"
    "\<And>t. t < length infos \<Longrightarrow> info_size (infos ! t) =
       local_size (srv_chunk (fi_pattern i)) (length infos) (unat (sd_fileSize (fi_statData i))) t"
proof -
  let ?p = "fi_pattern i" and ?s = "sd_fileSize (fi_statData i)"
  let ?c = "srv_getChunkSize ?p" and ?n = "length (srv_getStripeTargetIDs ?p)"
  have c: "?c \<noteq> 0" "MathTk_isPowerOfTwo ?c" and n: "0 < ?n" "?n < 2 ^ 32"
    and prod: "unat ?c * ?n < 2 ^ 63" and size: "unat ?s + unat ?c < 2 ^ 63"
    using assms(1) by (simp_all add: inode_ok_def Let_def srv_ok_def)
  have n32: "(of_nat ?n :: u32) \<noteq> 0" using n unat_of_nat_32 [of ?n] by auto
  have s: "unat ?s < 2 ^ 63" using size by simp
  let ?pow = "MathTk_isPowerOfTwo (of_nat ?n)" and ?ssz = "ucast ?c * of_nat ?n :: u64"
  let ?last = "if ?pow then ?s AND (?ssz - 1) else ?s mod ?ssz"
  let ?full = "if ?pow then int64_shr (?s - ?last) (MathTk_log2Int32 (of_nat ?n)) else (?s - ?last) div of_nat ?n"
  let ?R = "unat ?s mod (unat ?c * ?n)"
  note set = last_stripe_set [OF c n prod s]
  have last: "?last = word_of_int (int ?R - int (0 * unat ?c))"
    using arg_cong [OF set(1), of "of_nat :: nat \<Rightarrow> u64"] by simp
  let ?infos = "initTargets ?n (fi_statData i) ?c (MathTk_log2Int32 ?c) ?full 0 ?last"
  have "unat ?s div (unat ?c * ?n) * unat ?c \<le> unat ?s"
    using stripe_offset_le [of "unat ?c" ?n "unat ?s"] by (simp add: stripe_offset_def)
  then have full: "unat ?full + unat ?c < 2 ^ 63" using set(2) size by linarith
  have "?R < 2 ^ 63" by (rule le_less_trans [OF mod_less_eq_dividend s])
  then have sizes: "map info_size ?infos = map (\<lambda>t. local_size (unat ?c) ?n (unat ?s) t) [0..<?n]"
    using initTargets_sizes [OF full, of 0 ?n ?R "fi_statData i" "MathTk_log2Int32 ?c"] prod set(2)
    unfolding last [symmetric] by (simp add: local_size_def mult.commute)
  have len: "length ?infos = ?n" by (rule length_initTargets)
  have at: "info_size (?infos ! t) = local_size (unat ?c) ?n (unat ?s) t" if "t < ?n" for t
    using arg_cong [OF sizes, of "\<lambda>xs. xs ! t"] that len by simp
  have small: "info_size (?infos ! t) < 2 ^ 63" if "t < ?n" for t
    unfolding at [OF that]
    by (rule le_less_trans [OF local_size_le [OF n(1)]]) (use full set(2) in simp)
  have ok: "list_all (info_ok ?c) ?infos"
    using initTargets_ok [OF full refl, where k = ?n and sd = "fi_statData i" and target = 0 and w = ?last] small len
    by (simp add: list_all_length)
  have run: "FileInode_initFileInfoVec i = Some (i\<lparr>fi_fileInfoVec := ?infos\<rparr>)"
    using c(1) n32 assms(2) by (simp add: FileInode_initFileInfoVec_def Let_def)
  show ?thesis by (rule that [OF run len ok]) (simp only: len at srv_chunk_def)
qed

section \<open>Truncation positions\<close>

lemma ucast_pow2: "k < 32 \<Longrightarrow> (ucast (2 ^ k :: u32) :: u64) = 2 ^ k"
  by (rule bit_word_eqI) (auto simp: bit_simps)

lemma localOffset_ref:
  assumes "c \<noteq> 0" "MathTk_isPowerOfTwo c" "0 < n" "n < 2 ^ 32" "unat pos < 2 ^ 63"
    and idx: "unat idx = stripe_index (unat c) n (unat pos)"
  shows "\<exists>l. MsgHelperTrunc_getNodeLocalOffset pos (ucast c) (of_nat n) idx = Some l \<and>
    unat l = stripe_offset (unat c) n (unat pos)"
proof -
  let ?P = "unat pos" and ?C = "unat c"
  let ?m = "pos AND (ucast c - 1)"
  let ?s = "pos - ?m - idx * ucast c"
  have C: "0 < ?C" using assms(1) by (simp add: unat_gt_0)
  obtain k where k: "k < 32" "c = 2 ^ k" using assms(2,1) by (rule isPowerOfTwoE)
  have m: "unat ?m = ?P mod ?C"
    unfolding k(2) ucast_pow2 [OF k(1)] using unat_and_mask [of k pos] k(1) by (simp add: unat_pow2_32)
  have s: "unat ?s = n * (?P div (?C * n) * ?C)"
    by (rule stripe_set_start [OF C m idx _ assms(5)]) simp
  have un: "unat (of_nat n :: u64) = n" using assms(4) by (simp add: unat_of_nat)
  then have ne: "(of_nat n :: u64) \<noteq> 0" using assms(3) by auto
  have q: "unat (?s div of_nat n) = ?P div (?C * n) * ?C" using s un assms(3) by (simp add: unat_div_distrib)
  have "?P div (?C * n) * ?C + ?P mod ?C < 2 ^ LENGTH(64)"
    using stripe_offset_le [of ?C n ?P] assms(5) unfolding stripe_offset_def by simp
  then have "unat (?s div of_nat n + ?m) = stripe_offset ?C n ?P"
    using q m by (simp only: unat_add_small stripe_offset_def)
  then show ?thesis using ne by (simp add: MsgHelperTrunc_getNodeLocalOffset_def Let_def)
qed

lemma local_size_cases:
  fixes P :: nat
  assumes "0 < c" "0 < n"
  defines "A \<equiv> P div (c * n) * c" and "i \<equiv> stripe_index c n P"
  shows "local_size c n P t = (if t < i then A + c else if t = i then A + P mod c else A)"
proof -
  have "P mod (c * n) = c * (P div c mod n) + P mod c" by (rule mod_mult2_eq)
  then have R: "P mod (c * n) = i * c + P mod c" by (simp add: i_def stripe_index_def mult.commute)
  have m: "P mod c < c" using assms(1) by simp
  consider "t < i" | "t = i" | "i < t" by linarith
  then show ?thesis
  proof cases
    case 1
    then have "Suc t * c \<le> i * c" by (intro mult_le_mono1) simp
    then show ?thesis using 1 by (simp add: local_size_def R A_def)
  next
    case 2
    then show ?thesis using m by (simp add: local_size_def R A_def)
  next
    case 3
    then have "Suc i * c \<le> t * c" by (intro mult_le_mono1) simp
    then show ?thesis using 3 m by (simp add: local_size_def R A_def)
  qed
qed

lemma truncPos_ref:
  assumes "srv_ok p" "MathTk_isPowerOfTwo (srv_getChunkSize p)" "unat pos + srv_chunk p < 2 ^ 63"
  shows "\<exists>l. MsgHelperTrunc_getNodeLocalTruncPos pos p t = Some l \<and>
    unat l = local_size (srv_chunk p) (length (srv_getStripeTargetIDs p)) (unat pos) t"
proof -
  let ?c = "srv_getChunkSize p" and ?n = "length (srv_getStripeTargetIDs p)"
  have c: "?c \<noteq> 0" and n: "0 < ?n" "?n < 2 ^ 32" using assms(1) by (simp_all add: srv_ok_def)
  have C: "0 < srv_chunk p" by (rule srv_striping.chunk_pos [OF assms(1)])
  have pos: "unat pos < 2 ^ 63" using assms(3) by simp
  obtain main where main: "srv_getStripeTargetIndex p pos = Some main" "unat main = stripe_index (srv_chunk p) ?n (unat pos)"
    using srv_striping.index_ref [OF assms(1) pos] by blast
  obtain l where l: "MsgHelperTrunc_getNodeLocalOffset pos (ucast ?c) (of_nat ?n) main = Some l"
    "unat l = stripe_offset (srv_chunk p) ?n (unat pos)"
    using localOffset_ref [OF c assms(2) n pos] main(2) by (auto simp: srv_chunk_def)
  let ?A = "unat pos div (srv_chunk p * ?n) * srv_chunk p"
  have lm: "unat l = ?A + unat pos mod srv_chunk p" using l(2) by (simp add: stripe_offset_def)
  have lpos: "unat l \<le> unat pos" using l(2) stripe_offset_le by simp
  then have l63: "unat l < 2 ^ 63" using pos by linarith
  have "unat l mod srv_chunk p = unat pos mod srv_chunk p" by (simp add: lm)
  then have start: "unat (srv_getChunkStart p l) = ?A" "unat (srv_getNextChunkStart p l) = ?A + srv_chunk p"
    using c assms(2) l63 lm
    by (simp_all add: srv_chunk_client unat_getChunkStart unat_getNextChunkStart chunk_view_def srv_chunk_def)
  let ?t = "if t < unat main then srv_getNextChunkStart p l else if t = unat main then l else srv_getChunkStart p l"
  have ut: "unat ?t = local_size (srv_chunk p) ?n (unat pos) t"
    using start lm main(2) by (simp add: local_size_cases [OF C n(1)])
  have "unat ?t < 2 ^ 63" using start lm lpos assms(3) by auto
  then have "int64_max ?t 0 = ?t" by (simp add: int64_max_def sint_nonneg)
  then show ?thesis using main(1) l(1) ut by (simp add: MsgHelperTrunc_getNodeLocalTruncPos_def Let_def)
qed

end
