(* ===== verification/File_Size_Results.thy ===== *)
theory File_Size_Results
  imports Size_Lemmas
begin

text \<open>
  What the metadata server knows of the size of a file: it is the size that the chunk files define,
  also with holes; it survives storing and loading the inode; truncation moves every chunk file to
  the right size; and reports of the storage servers lead to the same inode in every order.
\<close>

section \<open>Reports of the storage servers\<close>

lemma updated_info:
  "snd (ChunkFileInfo_updateDynAttribs info attrs) =
     (if da_storageVersion (ci_dynAttribs info) < da_storageVersion attrs
      then info\<lparr>ci_dynAttribs := attrs, ci_numCompleteChunks := int64_shr (da_fileSize attrs) (ci_chunkSizeLog2 info)\<rparr>
      else info)"
  by (simp add: ChunkFileInfo_updateDynAttribs_def)

lemma setDynAttribs_infos:
  assumes "length attrs = length (fi_fileInfoVec i)"
  shows "fi_fileInfoVec (snd (FileInode_setDynAttribs i attrs)) =
    map2 (\<lambda>info a. snd (ChunkFileInfo_updateDynAttribs info a)) (fi_fileInfoVec i) attrs"
  using assms by (simp add: FileInode_setDynAttribs_def)

text \<open>Several reports, one after the other.\<close>

definition receive :: "FileInode \<Rightarrow> DynamicFileAttribs list list \<Rightarrow> FileInode" where
  "receive i rs = fold (\<lambda>attrs i. snd (FileInode_setDynAttribs i attrs)) rs i"

abbreviation applyReport :: "DynamicFileAttribs \<Rightarrow> ChunkFileInfo \<Rightarrow> ChunkFileInfo" where
  "applyReport a info \<equiv> snd (ChunkFileInfo_updateDynAttribs info a)"

lemma receive_others: "fi_pattern (receive i rs) = fi_pattern i" "fi_statData (receive i rs) = fi_statData i"
  unfolding receive_def by (induction rs arbitrary: i) (auto simp: FileInode_setDynAttribs_def)

lemma receive_length: "length (fi_fileInfoVec (receive i rs)) = length (fi_fileInfoVec i)"
  unfolding receive_def by (induction rs arbitrary: i) (auto simp: FileInode_setDynAttribs_def)

lemma receive_target:
  "t < length (fi_fileInfoVec i) \<Longrightarrow>
   fi_fileInfoVec (receive i rs) ! t = fold applyReport (map (\<lambda>a. a ! t) (filter (\<lambda>a. length a = length (fi_fileInfoVec i)) rs)) (fi_fileInfoVec i ! t)"
  unfolding receive_def by (induction rs arbitrary: i) (auto simp: FileInode_setDynAttribs_def)

text \<open>One target: the newest report stays.\<close>

lemma applyReports_newest:
  "(fold applyReport as x = x \<or> (\<exists>a \<in> set as. da_storageVersion (ci_dynAttribs x) < da_storageVersion a \<and>
      fold applyReport as x = x\<lparr>ci_dynAttribs := a, ci_numCompleteChunks := int64_shr (da_fileSize a) (ci_chunkSizeLog2 x)\<rparr>)) \<and>
   (\<forall>a \<in> set as. da_storageVersion a \<le> da_storageVersion (ci_dynAttribs (fold applyReport as x)))"
proof (induction as rule: rev_induct)
  case (snoc a as)
  let ?y = "fold applyReport as x"
  have y: "fold applyReport (as @ [a]) x =
      (if da_storageVersion (ci_dynAttribs ?y) < da_storageVersion a
       then ?y\<lparr>ci_dynAttribs := a, ci_numCompleteChunks := int64_shr (da_fileSize a) (ci_chunkSizeLog2 ?y)\<rparr> else ?y)"
    using updated_info [of ?y a] by simp
  show ?case
  proof (cases "da_storageVersion (ci_dynAttribs ?y) < da_storageVersion a")
    case True
    then have "da_storageVersion (ci_dynAttribs x) < da_storageVersion a" "ci_chunkSizeLog2 ?y = ci_chunkSizeLog2 x" using snoc.IH by auto
    moreover have "?y\<lparr>ci_dynAttribs := a, ci_numCompleteChunks := n\<rparr> = x\<lparr>ci_dynAttribs := a, ci_numCompleteChunks := n\<rparr>" for n
      using snoc.IH by auto
    moreover have "\<forall>b \<in> set as. da_storageVersion b \<le> da_storageVersion a" using snoc.IH True by fastforce
    ultimately show ?thesis using True y by simp
  next
    case False
    then show ?thesis using snoc.IH y by auto
  qed
qed simp

lemma applyReports_order:
  assumes "set as' = set as" "\<forall>a \<in> set as. \<forall>b \<in> set as. da_storageVersion a = da_storageVersion b \<longrightarrow> a = b"
  shows "fold applyReport as' x = fold applyReport as x"
proof -
  let ?v = "\<lambda>as. da_storageVersion (ci_dynAttribs (fold applyReport as x))"
  have grows: "da_storageVersion (ci_dynAttribs x) \<le> ?v as" for as using applyReports_newest [of as x] by (elim conjE disjE bexE) simp_all
  have le: "?v as \<le> ?v as'" if "set as = set as'" for as as'
    using applyReports_newest [of as x] applyReports_newest [of as' x] grows [of as'] that by (elim conjE disjE bexE) simp_all
  have v: "?v as' = ?v as" using le [OF assms(1)] le [OF assms(1) [symmetric]] by simp
  consider "fold applyReport as x = x" "fold applyReport as' x = x" | a where "a \<in> set as" "da_storageVersion (ci_dynAttribs x) < da_storageVersion a"
      "fold applyReport as x = x\<lparr>ci_dynAttribs := a, ci_numCompleteChunks := int64_shr (da_fileSize a) (ci_chunkSizeLog2 x)\<rparr>"
    using applyReports_newest [of as x] applyReports_newest [of as' x] v by (elim conjE disjE bexE) simp_all
  then show ?thesis
  proof cases
    case (2 a)
    then have "?v as' = da_storageVersion a" "fold applyReport as' x \<noteq> x" using v by auto
    then show ?thesis using applyReports_newest [of as' x] 2 assms by auto
  qed simp
qed

lemma same_sizes_reported:
  assumes "length attrs = length infos" "list_all (info_ok c) infos"
    and "\<And>x. x \<in> set infos \<Longrightarrow> da_storageVersion (ci_dynAttribs x) = 0"
    and "\<And>t. t < length infos \<Longrightarrow> da_fileSize (attrs ! t) = da_fileSize (ci_dynAttribs (infos ! t))"
    and "\<exists>a \<in> set attrs. 0 < da_storageVersion a"
  defines "new \<equiv> map2 (\<lambda>info a. snd (ChunkFileInfo_updateDynAttribs info a)) infos attrs"
  shows "length new = length infos" "list_all (info_ok c) new"
    "\<And>t. t < length infos \<Longrightarrow> info_size (new ! t) = info_size (infos ! t)"
    "\<exists>x \<in> set new. da_storageVersion (ci_dynAttribs x) \<noteq> 0"
proof -
  have at: "new ! t = snd (ChunkFileInfo_updateDynAttribs (infos ! t) (attrs ! t))" if "t < length infos" for t
    using that assms(1) by (simp add: new_def)
  show len: "length new = length infos" using assms(1) by (simp add: new_def)
  show size: "info_size (new ! t) = info_size (infos ! t)" if "t < length infos" for t
    using at [OF that] assms(4) [OF that] by (simp add: updated_info info_size_def)
  have "info_ok c (new ! t)" if "t < length infos" for t
  proof -
    have "info_ok c (infos ! t)" using assms(2) that by (simp add: list_all_length)
    then show ?thesis using size [OF that] at [OF that] by (auto simp: info_ok_def updated_info)
  qed
  then show "list_all (info_ok c) new" using len by (simp add: list_all_length)
  obtain a where "a \<in> set attrs" "0 < da_storageVersion a" using assms(5) by blast
  then obtain t where t: "t < length infos" "0 < da_storageVersion (attrs ! t)"
    using assms(1) by (auto simp: in_set_conv_nth)
  have "da_storageVersion (ci_dynAttribs (infos ! t)) = 0" using assms(3) t(1) by simp
  then have "da_storageVersion (ci_dynAttribs (new ! t)) \<noteq> 0" using t at by (auto simp: updated_info)
  moreover have "new ! t \<in> set new" using t(1) len by simp
  ultimately show "\<exists>x \<in> set new. da_storageVersion (ci_dynAttribs x) \<noteq> 0" by blast
qed

lemma initTargets_version: "x \<in> set (initTargets k sd c lg full target w) \<Longrightarrow> da_storageVersion (ci_dynAttribs x) = 0"
  by (induction k arbitrary: target w) (auto simp: Let_def ChunkFileInfo_construct_def)

lemma initFileInfoVec_versions:
  "FileInode_initFileInfoVec i = Some j \<Longrightarrow> fi_fileInfoVec i = [] \<Longrightarrow> x \<in> set (fi_fileInfoVec j) \<Longrightarrow>
    da_storageVersion (ci_dynAttribs x) = 0"
  by (auto simp: FileInode_initFileInfoVec_def Let_def split: if_splits dest: initTargets_version)

section \<open>Properties\<close>

text \<open>
  C3. From attributes that report the sizes of the chunk files, the metadata server computes the size
  of the striped file: the position behind the last byte that any chunk file has, also if the file
  has holes and the chunk files before or behind the deciding one are too short or missing.
\<close>

theorem file_size_exact:
  assumes "srv_ok p" "MathTk_isPowerOfTwo (srv_getChunkSize p)"
    and "list_all (info_ok (srv_getChunkSize p)) infos" "length infos = length (srv_getStripeTargetIDs p)"
    and "\<exists>i \<in> set infos. da_storageVersion (ci_dynAttribs i) \<noteq> 0"
    and "striped (srv_chunk p) (length infos) ch f" "\<And>t. t < length infos \<Longrightarrow> info_size (infos ! t) = length (ch t)"
  shows "sd_fileSize (StatData_updateDynamicFileAttribs now sd infos p) = of_nat (length f)"
  using assms by (intro update_size [where ch = ch]) (simp_all add: srv_ok_def srv_chunk_def)

definition smallSrvPattern :: SrvPattern where
  "smallSrvPattern = Raid0Pattern_construct 2 [5, 6] 0 1"

definition attribsOf :: "u64 \<Rightarrow> DynamicFileAttribs" where
  "attribsOf s = \<lparr>da_storageVersion = 1, da_fileSize = s, da_numBlocks = 1, da_modificationTimeSecs = 7, da_lastAccessTimeSecs = 8\<rparr>"

definition zeroStat :: StatData where
  "zeroStat = \<lparr>sd_flags = 0, sd_fileSize = 0, sd_creationTimeSecs = 0, sd_attribChangeTimeSecs = 0, sd_nlink = 1,
     sd_settableFileAttribs = \<lparr>sa_mode = 0, sa_userID = 0, sa_groupID = 0, sa_modificationTimeSecs = 0, sa_lastAccessTimeSecs = 0\<rparr>,
     sd_metaVersion = 0, sd_chunkBlocksVec = []\<rparr>"

lemma small_srv:
  "srv_ok smallSrvPattern" "MathTk_isPowerOfTwo (srv_getChunkSize smallSrvPattern)" "srv_getChunkSize smallSrvPattern = 2"
  "srv_chunk smallSrvPattern = 2" "srv_getStripeTargetIDs smallSrvPattern = [5, 6]"
  by (simp_all add: smallSrvPattern_def Raid0Pattern_construct_def SrvPattern_header_def srv_ok_def srv_getChunkSize_def
      srv_chunk_def MathTk_isPowerOfTwo_def)

lemma constructed_ok:
  "unat (da_fileSize a) < 2 ^ 63 \<Longrightarrow> info_ok c (ChunkFileInfo_construct c (MathTk_log2Int32 c) a)"
  by (simp add: info_ok_def ChunkFileInfo_construct_def info_size_def)

theorem file_size_exact_witness:
  "sd_fileSize (StatData_updateDynamicFileAttribs 9 zeroStat
     [ChunkFileInfo_construct 2 (MathTk_log2Int32 2) (attribsOf 0), ChunkFileInfo_construct 2 (MathTk_log2Int32 2) (attribsOf 3)]
     smallSrvPattern) = 7"
proof -
  let ?infos = "[ChunkFileInfo_construct 2 (MathTk_log2Int32 2) (attribsOf 0), ChunkFileInfo_construct 2 (MathTk_log2Int32 2) (attribsOf 3)]"
  have ok: "list_all (info_ok (srv_getChunkSize smallSrvPattern)) ?infos"
    by (simp add: small_srv(3) constructed_ok attribsOf_def)
  have valid: "\<exists>i \<in> set ?infos. da_storageVersion (ci_dynAttribs i) \<noteq> 0"
    by (simp add: ChunkFileInfo_construct_def attribsOf_def)
  let ?ch = "(\<lambda>_. [])(1 := pwrite 2 [1 :: nat] [])"
  have "stripe_index 2 2 6 = 1" "stripe_offset 2 2 6 = 2" by (simp_all add: stripe_index_def stripe_offset_def)
  then have hole: "striped 2 2 ?ch (pwrite 6 [1] [])"
    using striped_write [OF _ _ striped_empty, of 2 2 "[1 :: nat]" 6] by simp
  have "sd_fileSize (StatData_updateDynamicFileAttribs 9 zeroStat ?infos smallSrvPattern) = of_nat (length (pwrite 6 [1 :: nat] []))"
  proof (rule file_size_exact [OF small_srv(1,2) ok _ valid])
    show "striped (srv_chunk smallSrvPattern) (length ?infos) ?ch (pwrite 6 [1] [])"
      using hole by (simp add: small_srv(4) numeral_2_eq_2)
    show "info_size (?infos ! t) = length (?ch t)" if "t < length ?infos" for t
      using that by (cases t) (simp_all add: info_size_def ChunkFileInfo_construct_def attribsOf_def length_pwrite)
  qed (simp add: small_srv(5))
  then show ?thesis by (simp add: length_pwrite)
qed

text \<open>
  C4. Loading an inode splits the size of the file into the sizes of its chunk files: when the
  storage servers later report exactly these sizes, the metadata server computes the size it had
  stored.
\<close>

theorem inode_size_round_trip:
  assumes "inode_ok i" "fi_fileInfoVec i = []"
  shows "\<exists>infos. FileInode_initFileInfoVec i = Some (i\<lparr>fi_fileInfoVec := infos\<rparr>) \<and>
    (\<forall>attrs. map da_fileSize attrs = map (\<lambda>x. da_fileSize (ci_dynAttribs x)) infos \<and> (\<exists>a \<in> set attrs. 0 < da_storageVersion a) \<longrightarrow>
       sd_fileSize (fi_statData (FileInode_updateDynamicAttribs now (snd (FileInode_setDynAttribs (i\<lparr>fi_fileInfoVec := infos\<rparr>) attrs)))) =
         sd_fileSize (fi_statData i))"
proof -
  let ?p = "fi_pattern i" and ?s = "sd_fileSize (fi_statData i)"
  let ?c = "srv_getChunkSize ?p"
  obtain infos where infos: "FileInode_initFileInfoVec i = Some (i\<lparr>fi_fileInfoVec := infos\<rparr>)"
    "length infos = length (srv_getStripeTargetIDs ?p)" "list_all (info_ok ?c) infos"
    "\<And>t. t < length infos \<Longrightarrow> info_size (infos ! t) = local_size (srv_chunk ?p) (length infos) (unat ?s) t"
    and version: "\<And>x. x \<in> set infos \<Longrightarrow> da_storageVersion (ci_dynAttribs x) = 0"
  proof (rule init_infos [OF assms])
    fix infos
    assume a: "FileInode_initFileInfoVec i = Some (i\<lparr>fi_fileInfoVec := infos\<rparr>)"
      "length infos = length (srv_getStripeTargetIDs ?p)" "list_all (info_ok ?c) infos"
      "\<And>t. t < length infos \<Longrightarrow> info_size (infos ! t) = local_size (srv_chunk ?p) (length infos) (unat ?s) t"
    show thesis by (rule that [OF a]) (use initFileInfoVec_versions [OF a(1) assms(2)] in simp_all)
  qed
  have p: "srv_ok ?p" "MathTk_isPowerOfTwo ?c" using assms(1) by (simp_all add: inode_ok_def Let_def)
  have n: "0 < length infos" using srv_striping.ids_pos [OF p(1)] infos(2) by simp
  have "sd_fileSize (fi_statData (FileInode_updateDynamicAttribs now (snd (FileInode_setDynAttribs (i\<lparr>fi_fileInfoVec := infos\<rparr>) attrs)))) = ?s"
    if sizes: "map da_fileSize attrs = map (\<lambda>x. da_fileSize (ci_dynAttribs x)) infos" and some: "\<exists>a \<in> set attrs. 0 < da_storageVersion a" for attrs
  proof -
    have len: "length attrs = length infos" using arg_cong [OF sizes, of length] by simp
    have at: "da_fileSize (attrs ! t) = da_fileSize (ci_dynAttribs (infos ! t))" if "t < length infos" for t
      using arg_cong [OF sizes, of "\<lambda>xs. xs ! t"] that len by simp
    let ?new = "map2 (\<lambda>info a. snd (ChunkFileInfo_updateDynAttribs info a)) infos attrs"
    note new = same_sizes_reported [OF len infos(3) version at some]
    have "striped (srv_chunk ?p) (length ?new) (\<lambda>t. resize (local_size (srv_chunk ?p) (length infos) (unat ?s) t) [])
        (resize (unat ?s) ([] :: nat list))"
      using striped_dense [OF srv_striping.chunk_pos [OF p(1)] n] len by simp
    then have "sd_fileSize (StatData_updateDynamicFileAttribs now (fi_statData i) ?new ?p) = of_nat (length (resize (unat ?s) ([] :: nat list)))"
      using new infos(2,4) len p
      by (intro update_size [where ch = "\<lambda>t. resize (local_size (srv_chunk ?p) (length infos) (unat ?s) t) []"])
         (simp_all add: srv_ok_def srv_chunk_def)
    then show ?thesis using len by (simp add: FileInode_updateDynamicAttribs_def FileInode_setDynAttribs_def)
  qed
  then show ?thesis using infos(1) by blast
qed

theorem inode_size_round_trip_witness:
  "\<exists>infos. FileInode_initFileInfoVec \<lparr>fi_pattern = smallSrvPattern, fi_statData = zeroStat\<lparr>sd_fileSize := 7\<rparr>, fi_fileInfoVec = []\<rparr> =
     Some \<lparr>fi_pattern = smallSrvPattern, fi_statData = zeroStat\<lparr>sd_fileSize := 7\<rparr>, fi_fileInfoVec = infos\<rparr>"
proof -
  let ?i = "\<lparr>fi_pattern = smallSrvPattern, fi_statData = zeroStat\<lparr>sd_fileSize := 7\<rparr>, fi_fileInfoVec = []\<rparr>"
  have "inode_ok ?i" using small_srv by (simp add: inode_ok_def Let_def)
  from inode_size_round_trip [OF this, of 9] show ?thesis by fastforce
qed

text \<open>
  C5. Truncating a file: the metadata server computes for every target a local position such that,
  after all chunk files are cut or extended to them, they hold the file that is cut or extended with
  zeros to the new size.
\<close>

theorem truncate_refines:
  assumes "srv_ok p" "MathTk_isPowerOfTwo (srv_getChunkSize p)" "unat pos + srv_chunk p < 2 ^ 63"
    and "striped (srv_chunk p) (length (srv_getStripeTargetIDs p)) ch f"
  shows "\<exists>truncPos. (\<forall>t. MsgHelperTrunc_getNodeLocalTruncPos pos p t = Some (truncPos t)) \<and>
    striped (srv_chunk p) (length (srv_getStripeTargetIDs p)) (\<lambda>t. resize (unat (truncPos t)) (ch t)) (resize (unat pos) f)"
proof -
  let ?n = "length (srv_getStripeTargetIDs p)"
  obtain truncPos where t: "\<And>t. MsgHelperTrunc_getNodeLocalTruncPos pos p t = Some (truncPos t)"
    "\<And>t. unat (truncPos t) = local_size (srv_chunk p) ?n (unat pos) t"
    using truncPos_ref [OF assms(1-3)] by metis
  then show ?thesis
    using striped_resize [OF srv_striping.chunk_pos [OF assms(1)] srv_striping.ids_pos [OF assms(1)] assms(4), of "unat pos"]
    by (intro exI [of _ truncPos]) simp
qed

theorem truncate_refines_witness:
  "\<exists>truncPos. (\<forall>t. MsgHelperTrunc_getNodeLocalTruncPos 3 smallSrvPattern t = Some (truncPos t)) \<and>
    striped 2 2 (\<lambda>t. resize (unat (truncPos t)) []) (resize 3 ([] :: nat list))"
proof -
  have n: "length (srv_getStripeTargetIDs smallSrvPattern) = 2" by code_simp
  have c: "srv_chunk smallSrvPattern = 2" by (simp add: small_srv)
  have u: "unat (3 :: u64) = 3" by simp
  show ?thesis
    using truncate_refines [OF small_srv(1,2), of 3 "\<lambda>_. []" "[] :: nat list", unfolded n c u, OF _ striped_empty] by simp
qed

text \<open>
  C27. The reports of the storage servers converge. They arrive late, out of order and repeatedly; a storage server does not use a version for two
  different reports. Whatever the order and the repetitions, the inode ends in the same state: for every target it has the newest of all
  reports that fit the number of targets, or what it had before if none of them is newer. Reports of another length have no effect.
\<close>

theorem reports_converge:
  assumes "set rs' = set rs"
    and "\<forall>a \<in> set rs. \<forall>b \<in> set rs. \<forall>t < length a. length a = length b \<and> da_storageVersion (a ! t) = da_storageVersion (b ! t) \<longrightarrow> a ! t = b ! t"
  shows "receive i rs' = receive i rs \<and>
    (\<forall>t < length (fi_fileInfoVec i). let old = fi_fileInfoVec i ! t; new = fi_fileInfoVec (receive i rs) ! t in
       (new = old \<or> (\<exists>a \<in> set rs. length a = length (fi_fileInfoVec i) \<and> da_storageVersion (ci_dynAttribs old) < da_storageVersion (a ! t) \<and>
          ci_dynAttribs new = a ! t)) \<and>
       (\<forall>a \<in> set rs. length a = length (fi_fileInfoVec i) \<longrightarrow> da_storageVersion (a ! t) \<le> da_storageVersion (ci_dynAttribs new)))"
proof -
  let ?n = "length (fi_fileInfoVec i)"
  let ?at = "\<lambda>rs t. map (\<lambda>a. a ! t) (filter (\<lambda>a. length a = ?n) rs)"
  have same: "fold applyReport (?at rs' t) (fi_fileInfoVec i ! t) = fold applyReport (?at rs t) (fi_fileInfoVec i ! t)" if "t < ?n" for t
    using that assms by (intro applyReports_order) auto
  have "fi_fileInfoVec (receive i rs') = fi_fileInfoVec (receive i rs)"
    by (rule nth_equalityI) (simp_all add: receive_length receive_target same)
  then have "receive i rs' = receive i rs" by (simp add: FileInode.equality receive_others)
  moreover have "(x = fi_fileInfoVec i ! t \<or> (\<exists>a \<in> set rs. length a = ?n \<and>
        da_storageVersion (ci_dynAttribs (fi_fileInfoVec i ! t)) < da_storageVersion (a ! t) \<and> ci_dynAttribs x = a ! t)) \<and>
      (\<forall>a \<in> set rs. length a = ?n \<longrightarrow> da_storageVersion (a ! t) \<le> da_storageVersion (ci_dynAttribs x))"
    if x: "x = fold applyReport (?at rs t) (fi_fileInfoVec i ! t)" for t x
    using applyReports_newest [of "?at rs t" "fi_fileInfoVec i ! t"] unfolding x [symmetric] by auto
  ultimately show ?thesis by (simp add: Let_def receive_target)
qed

text \<open>Two targets and three reports, of which the last one has the wrong length.\<close>

definition sampleReports :: "DynamicFileAttribs list list" where
  "sampleReports = [[(attribsOf 4)\<lparr>da_storageVersion := 3\<rparr>, (attribsOf 2)\<lparr>da_storageVersion := 2\<rparr>],
     [(attribsOf 1)\<lparr>da_storageVersion := 2\<rparr>, (attribsOf 7)\<lparr>da_storageVersion := 5\<rparr>], [attribsOf 9]]"

definition sampleInode :: FileInode where
  "sampleInode = \<lparr>fi_pattern = smallSrvPattern, fi_statData = zeroStat,
     fi_fileInfoVec = replicate 2 (ChunkFileInfo_construct 2 (MathTk_log2Int32 2) (attribsOf 0))\<rparr>"

theorem reports_converge_witness:
  "receive sampleInode (rev sampleReports @ sampleReports) = receive sampleInode sampleReports \<and>
   map (da_fileSize \<circ> ci_dynAttribs) (fi_fileInfoVec (receive sampleInode sampleReports)) = [4, 7]"
proof
  have "\<forall>a \<in> set sampleReports. \<forall>b \<in> set sampleReports. \<forall>t < length a. length a = length b \<and> da_storageVersion (a ! t) = da_storageVersion (b ! t) \<longrightarrow> a ! t = b ! t"
    by (auto simp: sampleReports_def attribsOf_def less_Suc_eq)
  from reports_converge [OF _ this, of "rev sampleReports @ sampleReports" sampleInode]
  show "receive sampleInode (rev sampleReports @ sampleReports) = receive sampleInode sampleReports" by simp
  show "map (da_fileSize \<circ> ci_dynAttribs) (fi_fileInfoVec (receive sampleInode sampleReports)) = [4, 7]" by code_simp
qed

text \<open>
  The decision whether a file is sparse compares the new size with the number of blocks of the
  old size: a file that grows from nothing to 8192 bytes, all of them in allocated blocks, is flagged
  as sparse, and a second update with the same reports removes the flag again.
\<close>

theorem sparse_flag_old_size:
  "let x = ChunkFileInfo_construct 65536 16 ((attribsOf 8192)\<lparr>da_numBlocks := 16\<rparr>);
       p = Raid0Pattern_construct 65536 [5] 0 1;
       once = StatData_updateDynamicFileAttribs 9 zeroStat [x] p
   in StatData_getIsSparseFile once \<and> \<not> StatData_getIsSparseFile (StatData_updateDynamicFileAttribs 9 once [x] p)"
  by code_simp

end
