(* ===== verification/Cpp_Serdes.thy ===== *)
theory Cpp_Serdes
  imports Serdes_Lists "HOL-Library.Monad_Syntax"
begin

text \<open>
  The wire format of the servers: the classes \<^verbatim>\<open>Serializer\<close> and \<^verbatim>\<open>Deserializer\<close> of
  \<^verbatim>\<open>common/source/common/toolkit/serialization/Serialization.h\<close>. Unlike the functions of the client
  they do not return at the first error: an error clears the buffer size, every later operation
  still moves the offset, and the caller looks at \<^verbatim>\<open>good()\<close> at the end.

  A serializer without a buffer counts the bytes. \<^verbatim>\<open>mark()\<close> gives a second serializer on the same
  buffer; writing through it is \<^term>\<open>at_mark\<close>. The bytes a deserializer reads are a separate argument,
  and a read outside of them is the result \<^const>\<open>None\<close>.
\<close>

section \<open>Serializer\<close>

record Serializer =
  sr_buffer :: "bytes option"
  sr_bufferSize :: u32
  sr_bufferOffset :: u32

definition Serializer_count :: Serializer where
  "Serializer_count = \<lparr>sr_buffer = None, sr_bufferSize = - 1, sr_bufferOffset = 0\<rparr>"

definition Serializer_construct :: "bytes \<Rightarrow> u32 \<Rightarrow> Serializer" where
  "Serializer_construct buffer bufferSize = \<lparr>sr_buffer = Some buffer, sr_bufferSize = bufferSize, sr_bufferOffset = 0\<rparr>"

definition Serializer_good :: "Serializer \<Rightarrow> bool" where
  "Serializer_good this \<longleftrightarrow> sr_bufferSize this \<noteq> 0 \<and> sr_bufferOffset this \<le> sr_bufferSize this"

definition Serializer_putBlock :: "bytes \<Rightarrow> Serializer \<Rightarrow> Serializer" where
  "Serializer_putBlock source this =
     (let off = ucast (sr_bufferOffset this) :: u64; after = off + of_nat (length source)
      in (case sr_buffer this of
            Some b \<Rightarrow> if after \<ge> off \<and> after \<le> ucast (sr_bufferSize this)
                      then this\<lparr>sr_buffer := Some (buf_write b (unat (sr_bufferOffset this)) source)\<rparr>
                      else this\<lparr>sr_bufferSize := 0\<rparr>
          | None \<Rightarrow> this\<lparr>sr_bufferSize := 0\<rparr>)
         \<lparr>sr_bufferOffset := sr_bufferOffset this + of_nat (length source)\<rparr>)"

fun Serializer_skip :: "nat \<Rightarrow> Serializer \<Rightarrow> Serializer" where
  "Serializer_skip n this =
     (if n = 0 then this
      else Serializer_skip (n - min n 8) (Serializer_putBlock (replicate (min n 8) 0) this))"

declare Serializer_skip.simps [simp del]

definition Serializer_putUInt8 :: "u8 \<Rightarrow> Serializer \<Rightarrow> Serializer" where
  "Serializer_putUInt8 value = Serializer_putBlock [value]"

definition Serializer_putBool :: "bool \<Rightarrow> Serializer \<Rightarrow> Serializer" where
  "Serializer_putBool value = Serializer_putUInt8 (if value then 1 else 0)"

definition Serializer_putUInt16 :: "u16 \<Rightarrow> Serializer \<Rightarrow> Serializer" where
  "Serializer_putUInt16 value = Serializer_putBlock (le_put 2 value)"

definition Serializer_putUInt32 :: "u32 \<Rightarrow> Serializer \<Rightarrow> Serializer" where
  "Serializer_putUInt32 value = Serializer_putBlock (le_put 4 value)"

definition Serializer_putUInt64 :: "u64 \<Rightarrow> Serializer \<Rightarrow> Serializer" where
  "Serializer_putUInt64 value = Serializer_putBlock (le_put 8 value)"

text \<open>Writes through a mark change the bytes that the serializer itself sees.\<close>

definition at_mark :: "Serializer \<Rightarrow> (Serializer \<Rightarrow> Serializer) \<Rightarrow> Serializer \<Rightarrow> Serializer" where
  "at_mark mark put this = this\<lparr>sr_buffer := sr_buffer (put (mark\<lparr>sr_buffer := sr_buffer this\<rparr>))\<rparr>"

definition Serializer_putCollection ::
    "bool \<Rightarrow> ('a \<Rightarrow> Serializer \<Rightarrow> Serializer) \<Rightarrow> 'a list \<Rightarrow> Serializer \<Rightarrow> Serializer" where
  "Serializer_putCollection hasLengthField put value this =
     (let atStart = this;
          offsetAtStart = sr_bufferOffset this;
          this = (if hasLengthField then Serializer_putUInt32 0 this else this);
          this = Serializer_putUInt32 0 this;
          (this, elements) = foldl (\<lambda>(s, n). \<lambda>x. (put x s, n + 1)) (this, 0 :: u32) value;
          totalLen = sr_bufferOffset this - offsetAtStart
      in at_mark atStart (\<lambda>s. Serializer_putUInt32 elements
           (if hasLengthField then Serializer_putUInt32 totalLen s else s)) this)"

text \<open>
  A first pass counts, a second one writes into a new buffer. \<^term>\<open>alloc\<close> gives the new
  memory, or nothing.
\<close>

definition serializeIntoNewBuffer ::
    "(nat \<Rightarrow> bytes option) \<Rightarrow> ('a \<Rightarrow> Serializer \<Rightarrow> Serializer) \<Rightarrow> 'a \<Rightarrow> (bytes \<times> u32) option" where
  "serializeIntoNewBuffer alloc put object =
     (let bufferLength = sr_bufferOffset (put object Serializer_count)
      in do {
        buffer \<leftarrow> alloc (unat bufferLength);
        let ser = put object (Serializer_construct buffer bufferLength);
        result \<leftarrow> (if Serializer_good ser then sr_buffer ser else None);
        Some (result, sr_bufferOffset ser)
      })"

section \<open>Deserializer\<close>

record Deserializer =
  ds_bufferSize :: u32
  ds_bufferOffset :: u32

type_synonym 'a des = "bytes \<Rightarrow> Deserializer \<Rightarrow> ('a \<times> Deserializer) option"

definition Deserializer_construct :: "u32 \<Rightarrow> Deserializer" where
  "Deserializer_construct bufferSize = \<lparr>ds_bufferSize = bufferSize, ds_bufferOffset = 0\<rparr>"

definition Deserializer_good :: "Deserializer \<Rightarrow> bool" where
  "Deserializer_good this \<longleftrightarrow> ds_bufferSize this \<noteq> 0 \<and> ds_bufferOffset this \<le> ds_bufferSize this"

definition Deserializer_setBad :: "Deserializer \<Rightarrow> Deserializer" where
  "Deserializer_setBad this = this\<lparr>ds_bufferSize := 0\<rparr>"

definition Deserializer_parseEof :: "Deserializer \<Rightarrow> Deserializer" where
  "Deserializer_parseEof this = (if ds_bufferOffset this \<noteq> ds_bufferSize this then Deserializer_setBad this else this)"

text \<open>The block is copied, or the destination keeps its old contents (the inner \<^const>\<open>None\<close>).\<close>

definition Deserializer_getBlock :: "nat \<Rightarrow> bytes option des" where
  "Deserializer_getBlock n buf this =
     (let off = ucast (ds_bufferOffset this) :: u64; after = off + of_nat n
      in if after \<ge> off \<and> after \<le> ucast (ds_bufferSize this)
         then do {
           block \<leftarrow> buf_read buf (unat (ds_bufferOffset this)) n;
           Some (Some block, this\<lparr>ds_bufferOffset := ds_bufferOffset this + of_nat n\<rparr>)
         }
         else Some (None, (Deserializer_setBad this)\<lparr>ds_bufferOffset := ds_bufferOffset this + of_nat n\<rparr>))"

definition Deserializer_skip :: "u64 \<Rightarrow> Deserializer \<Rightarrow> Deserializer" where
  "Deserializer_skip n this =
     (let off = ucast (ds_bufferOffset this) :: u64
      in (if off + n < off \<or> off + n > ucast (ds_bufferSize this) then Deserializer_setBad this else this)
         \<lparr>ds_bufferOffset := ds_bufferOffset this + ucast n\<rparr>)"

definition Deserializer_getRaw :: "nat \<Rightarrow> 'a::len word des" where
  "Deserializer_getRaw n buf this = do {
     (block, this) \<leftarrow> Deserializer_getBlock n buf this;
     Some (case block of Some bs \<Rightarrow> le_get bs | None \<Rightarrow> 0, this)
   }"

definition Deserializer_getUInt8 :: "u8 des" where "Deserializer_getUInt8 = Deserializer_getRaw 1"
definition Deserializer_getUInt16 :: "u16 des" where "Deserializer_getUInt16 = Deserializer_getRaw 2"
definition Deserializer_getUInt32 :: "u32 des" where "Deserializer_getUInt32 = Deserializer_getRaw 4"
definition Deserializer_getUInt64 :: "u64 des" where "Deserializer_getUInt64 = Deserializer_getRaw 8"

definition Deserializer_getBool :: "bool des" where
  "Deserializer_getBool buf this = do { (v, this) \<leftarrow> Deserializer_getUInt8 buf this; Some (v \<noteq> 0, this) }"

primrec getItems :: "nat \<Rightarrow> 'a des \<Rightarrow> 'a list \<Rightarrow> 'a list des" where
  "getItems 0 get value buf this = Some (value, this)"
| "getItems (Suc n) get value buf this = do {
     (item, this) \<leftarrow> get buf this;
     if \<not> Deserializer_good this then Some (value, this)
     else getItems n get (value @ [item]) buf this
   }"

definition Deserializer_getCollection :: "bool \<Rightarrow> 'a des \<Rightarrow> 'a list \<Rightarrow> 'a list des" where
  "Deserializer_getCollection hasLengthField get value buf this =
     (let offsetAtStart = ds_bufferOffset this
      in do {
        (totalLen, this) \<leftarrow> (if hasLengthField then Deserializer_getUInt32 buf this else Some (0, this));
        (size, this) \<leftarrow> Deserializer_getUInt32 buf this;
        if \<not> Deserializer_good this then Some (value, this)
        else do {
          (value, this) \<leftarrow> getItems (unat size) get [] buf this;
          if \<not> Deserializer_good this then Some (value, this)
          else if \<not> hasLengthField then Some (value, this)
          else if totalLen \<noteq> ds_bufferOffset this - offsetAtStart then Some (value, Deserializer_setBad this)
          else Some (value, this)
        }
      })"

section \<open>Contract of writers\<close>

definition ser_ok :: "Serializer \<Rightarrow> bool" where
  "ser_ok s \<longleftrightarrow> (case sr_buffer s of None \<Rightarrow> True | Some b \<Rightarrow> unat (sr_bufferSize s) \<le> length b) \<and>
     (sr_bufferSize s = 0 \<or> sr_bufferOffset s \<le> sr_bufferSize s)"

definition has_room :: "Serializer \<Rightarrow> nat \<Rightarrow> bool" where
  "has_room s n \<longleftrightarrow> sr_buffer s \<noteq> None \<and> sr_bufferSize s \<noteq> 0 \<and> unat (sr_bufferOffset s) + n \<le> unat (sr_bufferSize s)"

definition wrote :: "bytes \<Rightarrow> Serializer \<Rightarrow> Serializer" where
  "wrote bs s = s\<lparr>sr_buffer := map_option (\<lambda>b. buf_write b (unat (sr_bufferOffset s)) bs) (sr_buffer s),
     sr_bufferOffset := sr_bufferOffset s + of_nat (length bs)\<rparr>"

definition gave_up :: "nat \<Rightarrow> Serializer \<Rightarrow> Serializer \<Rightarrow> bool" where
  "gave_up n s s' \<longleftrightarrow> sr_bufferSize s' = 0 \<and> sr_bufferOffset s' = sr_bufferOffset s + of_nat n \<and>
     map_option length (sr_buffer s') = map_option length (sr_buffer s)"

text \<open>
  A writer of \<^term>\<open>bs\<close> writes these bytes where they fit, and otherwise leaves an error and the size of
  the buffer; in both cases the offset has moved by their number.
\<close>

definition puts :: "(Serializer \<Rightarrow> Serializer) \<Rightarrow> bytes \<Rightarrow> bool" where
  "puts f bs \<longleftrightarrow> (\<forall>s. ser_ok s \<longrightarrow>
     (if has_room s (length bs) then f s = wrote bs s else gave_up (length bs) s (f s) \<or> bs = [] \<and> f s = s))"

lemma putsI:
  assumes "\<And>s. ser_ok s \<Longrightarrow> has_room s (length bs) \<Longrightarrow> f s = wrote bs s"
    and "\<And>s. ser_ok s \<Longrightarrow> \<not> has_room s (length bs) \<Longrightarrow> gave_up (length bs) s (f s) \<or> bs = [] \<and> f s = s"
  shows "puts f bs"
  using assms by (simp add: puts_def)

lemma puts_cong: "puts f bs \<Longrightarrow> (\<And>s. ser_ok s \<Longrightarrow> g s = f s) \<Longrightarrow> puts g bs"
  by (simp add: puts_def)

lemma putsE:
  assumes "puts f bs" "ser_ok s"
  obtains (room) "has_room s (length bs)" "f s = wrote bs s" | (full) "\<not> has_room s (length bs)" "gave_up (length bs) s (f s)"
    | (nothing) "\<not> has_room s (length bs)" "bs = []" "f s = s"
proof -
  have "if has_room s (length bs) then f s = wrote bs s else gave_up (length bs) s (f s) \<or> bs = [] \<and> f s = s"
    using assms by (simp add: puts_def)
  then show thesis using that by (cases "has_room s (length bs)") auto
qed

lemma room_offset:
  assumes "has_room s n"
  shows "unat (sr_bufferOffset s + of_nat n) = unat (sr_bufferOffset s) + n"
proof -
  have "unat (sr_bufferOffset s) + n < 2 ^ 32" "n < 2 ^ 32"
    using assms unsigned_less [of "sr_bufferSize s", where ?'a = nat] by (auto simp: has_room_def)
  then show ?thesis by (simp add: unat_word_ariths unat_of_nat)
qed

lemma ser_ok_wrote: "ser_ok s \<Longrightarrow> has_room s (length bs) \<Longrightarrow> ser_ok (wrote bs s)"
  using room_offset [of s "length bs"]
  by (auto simp: ser_ok_def has_room_def wrote_def buf_write_length word_le_nat_alt)

lemma ser_ok_gave_up: "ser_ok s \<Longrightarrow> gave_up n s s' \<Longrightarrow> ser_ok s'"
  by (auto simp: ser_ok_def gave_up_def split: option.splits)

lemma puts_ok: "puts f bs \<Longrightarrow> ser_ok s \<Longrightarrow> ser_ok (f s)"
  unfolding puts_def by (metis ser_ok_wrote ser_ok_gave_up)

lemma puts_offset: "puts f bs \<Longrightarrow> ser_ok s \<Longrightarrow> sr_bufferOffset (f s) = sr_bufferOffset s + of_nat (length bs)"
  by (erule (1) putsE) (auto simp: gave_up_def wrote_def)

lemma puts_length: "puts f bs \<Longrightarrow> ser_ok s \<Longrightarrow> map_option length (sr_buffer (f s)) = map_option length (sr_buffer s)"
  by (erule (1) putsE) (auto simp: gave_up_def wrote_def ser_ok_def has_room_def buf_write_length)

lemma puts_id: "puts (\<lambda>s. s) []"
  by (auto intro!: putsI simp: wrote_def map_option.identity [unfolded id_def])

lemma puts_comp:
  assumes f: "puts f xs" and g: "puts g ys"
  shows "puts (\<lambda>s. g (f s)) (xs @ ys)"
proof (rule putsI)
  fix s assume ok: "ser_ok s"
  note ok' = puts_ok [OF f ok]
  {
    assume room: "has_room s (length (xs @ ys))"
    then have 1: "has_room s (length xs)" by (simp add: has_room_def)
    then have fs: "f s = wrote xs s" using f ok by (simp add: puts_def)
    have off: "unat (sr_bufferOffset s + of_nat (length xs)) = unat (sr_bufferOffset s) + length xs"
      using 1 by (rule room_offset)
    have "has_room (f s) (length ys)" using room by (auto simp: fs wrote_def has_room_def off)
    then have "g (f s) = wrote ys (wrote xs s)" using g ok' by (simp add: puts_def fs)
    also have "\<dots> = wrote (xs @ ys) s"
      using room ok by (auto simp: wrote_def off has_room_def ser_ok_def buf_write_append)
    finally show "g (f s) = wrote (xs @ ys) s" .
  }
  assume room: "\<not> has_room s (length (xs @ ys))"
  show "gave_up (length (xs @ ys)) s (g (f s)) \<or> xs @ ys = [] \<and> g (f s) = s"
  proof (cases "sr_bufferSize (f s) = 0")
    case True
    have "sr_bufferSize (g (f s)) = 0"
      by (rule putsE [OF g ok']) (use True in \<open>simp_all add: gave_up_def has_room_def\<close>)
    then show ?thesis
      using puts_offset [OF f ok] puts_offset [OF g ok'] puts_length [OF f ok] puts_length [OF g ok']
      by (simp add: gave_up_def)
  next
    case False
    then have fs: "f s = wrote xs s \<and> has_room s (length xs) \<or> f s = s \<and> xs = []"
      using f ok by (auto simp: puts_def gave_up_def split: if_splits)
    have "\<not> has_room (f s) (length ys)"
    proof
      assume r: "has_room (f s) (length ys)"
      from fs show False
      proof
        assume w: "f s = wrote xs s \<and> has_room s (length xs)"
        have "unat (sr_bufferOffset s + of_nat (length xs)) = unat (sr_bufferOffset s) + length xs"
          using w by (simp add: room_offset)
        then show False using r room w by (auto simp: has_room_def wrote_def)
      qed (use r room in simp)
    qed
    then have "gave_up (length ys) (f s) (g (f s)) \<or> ys = [] \<and> g (f s) = f s" using g ok' by (simp add: puts_def)
    then show ?thesis
      using puts_offset [OF f ok] puts_length [OF f ok] False fs room by (auto simp: gave_up_def)
  qed
qed

lemma unat_ucast_add_64:
  assumes "n < 2 ^ 63"
  shows "unat (ucast (x :: u32) + of_nat n :: u64) = unat x + n"
proof -
  have "unat x < 2 ^ 32" using unsigned_less [of x, where ?'a = nat] by simp
  with assms show ?thesis by (simp add: unat_word_ariths unat_of_nat)
qed

lemma putBlock_eq:
  assumes "length bs < 2 ^ 63"
  shows "Serializer_putBlock bs s =
    (if sr_buffer s \<noteq> None \<and> unat (sr_bufferOffset s) + length bs \<le> unat (sr_bufferSize s) then wrote bs s
     else s\<lparr>sr_bufferSize := 0, sr_bufferOffset := sr_bufferOffset s + of_nat (length bs)\<rparr>)"
  using unat_ucast_add_64 [OF assms, of "sr_bufferOffset s"]
  by (auto simp: Serializer_putBlock_def wrote_def Let_def word_le_nat_alt split: option.splits)

lemma puts_block: "length bs < 2 ^ 63 \<Longrightarrow> puts (Serializer_putBlock bs) bs"
  by (rule putsI)
     (auto simp: putBlock_eq has_room_def gave_up_def wrote_def ser_ok_def buf_write_length split: option.splits)

lemma puts_skip: "puts (Serializer_skip n) (replicate n 0)"
proof (induction n rule: less_induct)
  case (less n)
  show ?case
  proof (cases "n = 0")
    case False
    let ?k = "min n 8"
    have "puts (\<lambda>s. Serializer_skip (n - ?k) (Serializer_putBlock (replicate ?k 0) s)) (replicate ?k 0 @ replicate (n - ?k) 0)"
      using False by (intro puts_comp puts_block less) auto
    moreover have "replicate ?k 0 @ replicate (n - ?k) 0 = replicate n (0 :: u8)"
      by (simp flip: replicate_add)
    ultimately show ?thesis using False by (simp add: Serializer_skip.simps)
  qed (simp add: Serializer_skip.simps puts_id)
qed

text \<open>Writing through a mark overwrites the beginning of what was written since.\<close>

lemma puts_mark:
  assumes f: "puts f bs" and g: "puts g h" and len: "bs \<noteq> []" "length h \<le> length bs"
  shows "puts (\<lambda>s. at_mark s g (f s)) (h @ drop (length h) bs)"
proof (rule putsI)
  fix s assume ok: "ser_ok s"
  let ?m = "s\<lparr>sr_buffer := sr_buffer (f s)\<rparr>"
  have m: "ser_ok ?m" using ok puts_length [OF f ok] by (auto simp: ser_ok_def split: option.splits)
  {
    assume room: "has_room s (length (h @ drop (length h) bs))"
    then have room: "has_room s (length bs)" using len by simp
    then have fs: "f s = wrote bs s" using f ok by (simp add: puts_def)
    have "has_room ?m (length h)" using room len by (auto simp: fs wrote_def has_room_def)
    then have gm: "g ?m = wrote h ?m" using g m by (simp add: puts_def)
    obtain b where b: "sr_buffer s = Some b" using room by (auto simp: has_room_def)
    have fits: "unat (sr_bufferOffset s) + length bs \<le> length b" using ok room b by (auto simp: ser_ok_def has_room_def)
    have "buf_write (buf_write b (unat (sr_bufferOffset s)) bs) (unat (sr_bufferOffset s)) h =
        buf_write b (unat (sr_bufferOffset s)) (h @ drop (length h) bs)"
      using buf_write_over [of "unat (sr_bufferOffset s)" "take (length h) bs" "drop (length h) bs" b h] fits len by simp
    then show "at_mark s g (f s) = wrote (h @ drop (length h) bs) s"
      using len by (simp add: at_mark_def gm, simp add: fs wrote_def b)
  }
  assume "\<not> has_room s (length (h @ drop (length h) bs))"
  then have "\<not> has_room s (length bs)" using len by simp
  then have "gave_up (length bs) s (f s)" using f ok len by (auto simp: puts_def)
  then have "gave_up (length bs) s (at_mark s g (f s))"
    using puts_length [OF g m] by (simp add: gave_up_def at_mark_def)
  then show "gave_up (length (h @ drop (length h) bs)) s (at_mark s g (f s)) \<or>
      h @ drop (length h) bs = [] \<and> at_mark s g (f s) = s" using len by simp
qed

lemma puts_integral:
  "puts (Serializer_putUInt8 v1) [v1]" "puts (Serializer_putUInt16 v2) (le_put 2 v2)"
  "puts (Serializer_putUInt32 v4) (le_put 4 v4)" "puts (Serializer_putUInt64 v8) (le_put 8 v8)"
  by (simp_all add: Serializer_putUInt8_def Serializer_putUInt16_def Serializer_putUInt32_def Serializer_putUInt64_def
      puts_block)

lemma puts_foldl:
  "(\<And>x. x \<in> set xs \<Longrightarrow> puts (put x) (enc x)) \<Longrightarrow> puts (\<lambda>s. foldl (\<lambda>s x. put x s) s xs) (concat (map enc xs))"
proof (induction xs)
  case (Cons x xs)
  then have "puts (\<lambda>s. foldl (\<lambda>s x. put x s) (put x s) xs) (enc x @ concat (map enc xs))"
    by (intro puts_comp) simp_all
  then show ?case by simp
qed (simp add: puts_id)

lemma foldl_count:
  "foldl (\<lambda>(s, n). \<lambda>x. (put x s, n + 1)) (s, n :: u32) xs = (foldl (\<lambda>s x. put x s) s xs, n + of_nat (length xs))"
  by (induction xs arbitrary: s n) (simp_all add: ac_simps)

text \<open>The bytes of a collection, with or without its total length in front.\<close>

definition collection_bytes :: "bool \<Rightarrow> ('a \<Rightarrow> bytes) \<Rightarrow> 'a list \<Rightarrow> bytes" where
  "collection_bytes hasLengthField enc xs = (if hasLengthField then sized_bytes enc xs else counted_bytes enc xs)"

lemma puts_collection:
  assumes "\<And>x. x \<in> set xs \<Longrightarrow> puts (put x) (enc x)"
  shows "puts (Serializer_putCollection hasLengthField put xs) (collection_bytes hasLengthField enc xs)"
proof -
  note els = puts_foldl [where put = put and enc = enc and xs = xs, OF assms]
  let ?z = "le_put 4 (0 :: u32)"
  show ?thesis
  proof (cases hasLengthField)
    case True
    let ?f = "\<lambda>s. foldl (\<lambda>s x. put x s) (Serializer_putUInt32 0 (Serializer_putUInt32 0 s)) xs"
    let ?bs = "?z @ ?z @ concat (map enc xs)"
    have f: "puts ?f ?bs"
      using puts_comp [OF puts_integral(3) puts_comp [OF puts_integral(3) els]] by simp
    have g: "puts (\<lambda>s. Serializer_putUInt32 (of_nat (length xs)) (Serializer_putUInt32 (of_nat (length ?bs)) s))
        (le_put 4 (of_nat (length ?bs) :: u32) @ le_put 4 (of_nat (length xs) :: u32))"
      by (intro puts_comp puts_integral)
    have "puts (Serializer_putCollection hasLengthField put xs)
        ((le_put 4 (of_nat (length ?bs) :: u32) @ le_put 4 (of_nat (length xs) :: u32)) @ concat (map enc xs))"
      using puts_cong [OF puts_mark [OF f g]] puts_offset [OF f] True
      by (simp add: Serializer_putCollection_def foldl_count Let_def)
    then show ?thesis using True by (simp add: collection_bytes_def sized_bytes_def Let_def add.commute)
  next
    case False
    have f: "puts (\<lambda>s. foldl (\<lambda>s x. put x s) (Serializer_putUInt32 0 s) xs) (?z @ concat (map enc xs))"
      by (intro puts_comp puts_integral els)
    have "puts (Serializer_putCollection hasLengthField put xs) (le_put 4 (of_nat (length xs) :: u32) @ concat (map enc xs))"
      using puts_cong [OF puts_mark [OF f puts_integral(3)]] False
      by (simp add: Serializer_putCollection_def foldl_count Let_def)
    then show ?thesis using False by (simp add: collection_bytes_def counted_bytes_def)
  qed
qed

section \<open>Contract of readers\<close>

definition des_ok :: "bytes \<Rightarrow> Deserializer \<Rightarrow> bool" where
  "des_ok buf d \<longleftrightarrow> unat (ds_bufferSize d) \<le> length buf \<and> (ds_bufferSize d = 0 \<or> ds_bufferOffset d \<le> ds_bufferSize d)"

text \<open>A reader stays inside the message whatever the bytes are, keeps an error and never moves back.\<close>

definition des_step :: "bytes \<Rightarrow> Deserializer \<Rightarrow> Deserializer \<Rightarrow> bool" where
  "des_step buf d d' \<longleftrightarrow> des_ok buf d' \<and>
     (ds_bufferSize d' = 0 \<or> ds_bufferSize d' = ds_bufferSize d \<and> ds_bufferOffset d \<le> ds_bufferOffset d')"

definition bounded :: "'a des \<Rightarrow> bool" where
  "bounded get \<longleftrightarrow> (\<forall>buf d. des_ok buf d \<longrightarrow> (\<exists>v d'. get buf d = Some (v, d') \<and> des_step buf d d'))"

definition at_des :: "bytes \<Rightarrow> Deserializer \<Rightarrow> bytes \<Rightarrow> bool" where
  "at_des buf d bs \<longleftrightarrow> ds_bufferSize d \<noteq> 0 \<and> unat (ds_bufferOffset d) + length bs \<le> unat (ds_bufferSize d) \<and>
     take (length bs) (drop (unat (ds_bufferOffset d)) buf) = bs"

definition moved :: "nat \<Rightarrow> Deserializer \<Rightarrow> Deserializer" where
  "moved n d = d\<lparr>ds_bufferOffset := ds_bufferOffset d + of_nat n\<rparr>"

text \<open>A reader of \<^term>\<open>bs\<close> consumes these bytes and returns the value.\<close>

definition gets :: "'a des \<Rightarrow> bytes \<Rightarrow> 'a \<Rightarrow> bool" where
  "gets get bs v \<longleftrightarrow> (\<forall>buf d. des_ok buf d \<longrightarrow> at_des buf d bs \<longrightarrow> get buf d = Some (v, moved (length bs) d))"

lemma good_iff: "des_ok buf d \<Longrightarrow> Deserializer_good d \<longleftrightarrow> ds_bufferSize d \<noteq> 0"
  by (auto simp: des_ok_def Deserializer_good_def)

lemma des_step_refl: "des_ok buf d \<Longrightarrow> des_step buf d d"
  by (simp add: des_step_def)

lemma des_step_trans: "des_step buf d d' \<Longrightarrow> des_step buf d' d'' \<Longrightarrow> des_step buf d d''"
  by (auto simp: des_step_def)

lemma des_step_bad: "des_step buf d d' \<Longrightarrow> des_step buf d (Deserializer_setBad d')"
  by (simp add: des_step_def des_ok_def Deserializer_setBad_def)

lemma des_step_ok: "des_step buf d d' \<Longrightarrow> des_ok buf d'"
  by (simp add: des_step_def)

lemma boundedE:
  assumes "bounded get" "des_ok buf d"
  obtains v d' where "get buf d = Some (v, d')" "des_step buf d d'"
  using assms that unfolding bounded_def by blast

lemma bounded_return: "bounded (\<lambda>buf d. Some (v, d))"
  by (simp add: bounded_def des_step_refl)

lemma bounded_bind:
  assumes f: "bounded f" and g: "\<And>x. bounded (g x)"
  shows "bounded (\<lambda>buf d. do { (x, d) \<leftarrow> f buf d; g x buf d })"
  unfolding bounded_def
proof (intro allI impI)
  fix buf d assume ok: "des_ok buf d"
  obtain x d' where x: "f buf d = Some (x, d')" "des_step buf d d'" by (rule boundedE [OF f ok])
  obtain y d'' where y: "g x buf d' = Some (y, d'')" "des_step buf d' d''" by (rule boundedE [OF g des_step_ok [OF x(2)]])
  show "\<exists>v d'. (do { (x, d) \<leftarrow> f buf d; g x buf d }) = Some (v, d') \<and> des_step buf d d'"
    using des_step_trans [OF x(2) y(2)] by (simp add: x(1) y(1))
qed

lemma bounded_if: "(b \<Longrightarrow> bounded f) \<Longrightarrow> (\<not> b \<Longrightarrow> bounded g) \<Longrightarrow> bounded (\<lambda>buf d. if b then f buf d else g buf d)"
  by (cases b) simp_all

lemma bounded_if_state: "bounded f \<Longrightarrow> bounded g \<Longrightarrow> bounded (\<lambda>buf d. if b d then f buf d else g buf d)"
  by (auto simp: bounded_def)

lemma bounded_bad: "bounded (\<lambda>buf d. Some (v, Deserializer_setBad d))"
  by (simp add: bounded_def des_step_bad des_step_refl)

lemma moved_0 [simp]: "moved 0 d = d" by (simp add: moved_def)

lemma moved_moved [simp]: "moved m (moved n d) = moved (n + m) d"
  by (simp add: moved_def add.assoc)

lemma at_des_offset:
  assumes "at_des buf d bs" "n \<le> length bs"
  shows "unat (ds_bufferOffset (moved n d)) = unat (ds_bufferOffset d) + n"
proof -
  have "unat (ds_bufferOffset d) + n < 2 ^ 32" "n < 2 ^ 32"
    using assms unsigned_less [of "ds_bufferSize d", where ?'a = nat] by (auto simp: at_des_def)
  then show ?thesis by (simp add: moved_def unat_word_ariths unat_of_nat)
qed

lemma at_des_moved:
  assumes "des_ok buf d" "at_des buf d bs" "n \<le> length bs"
  shows "des_ok buf (moved n d)" "ds_bufferSize (moved n d) = ds_bufferSize d" "Deserializer_good (moved n d)"
  using at_des_offset [OF assms(2,3)] assms
  by (auto simp: at_des_def des_ok_def Deserializer_good_def word_le_nat_alt) (auto simp: moved_def)

lemma at_des_append:
  assumes "at_des buf d (xs @ ys)"
  shows "at_des buf d xs" "at_des buf (moved (length xs) d) ys"
proof -
  have t: "take (length xs) (drop (unat (ds_bufferOffset d)) buf) = xs"
    "take (length ys) (drop (unat (ds_bufferOffset d) + length xs) buf) = ys"
    using assms unfolding at_des_def take_append_eq by simp_all
  then show "at_des buf d xs" using assms by (simp add: at_des_def)
  have "unat (ds_bufferOffset (moved (length xs) d)) = unat (ds_bufferOffset d) + length xs"
    by (rule at_des_offset [OF assms]) simp
  then show "at_des buf (moved (length xs) d) ys" using assms t by (simp add: at_des_def) (simp add: moved_def)
qed

lemma gets_return: "gets (\<lambda>buf d. Some (v, d)) [] v"
  by (simp add: gets_def)

lemma gets_bind:
  assumes f: "gets f xs x" and g: "gets (g x) ys y"
  shows "gets (\<lambda>buf d. do { (x, d) \<leftarrow> f buf d; g x buf d }) (xs @ ys) y"
  unfolding gets_def
proof (intro allI impI)
  fix buf d assume ok: "des_ok buf d" and at: "at_des buf d (xs @ ys)"
  note at' = at_des_append [OF at]
  have "f buf d = Some (x, moved (length xs) d)" using f ok at' by (simp add: gets_def)
  moreover have "des_ok buf (moved (length xs) d)" by (rule at_des_moved(1) [OF ok at]) simp
  then have "g x buf (moved (length xs) d) = Some (y, moved (length ys) (moved (length xs) d))"
    using g at' by (simp add: gets_def)
  ultimately show "(do { (x, d) \<leftarrow> f buf d; g x buf d }) = Some (y, moved (length (xs @ ys)) d)" by simp
qed

lemma gets_map:
  assumes "gets f xs x"
  shows "gets (\<lambda>buf d. do { (x, d) \<leftarrow> f buf d; Some (h x, d) }) xs (h x)"
  using gets_bind [OF assms, where g = "\<lambda>x buf d. Some (h x, d)" and ys = "[]" and y = "h x"] by (simp add: gets_return)

text \<open>A check of \<^verbatim>\<open>good()\<close> behind a field passes when the bytes are there.\<close>

lemma gets_good:
  assumes f: "gets f xs x" and g: "gets (g x) ys y"
  shows "gets (\<lambda>buf d. do { (x, d) \<leftarrow> f buf d; if \<not> Deserializer_good d then r x buf d else g x buf d }) (xs @ ys) y"
  unfolding gets_def
proof (intro allI impI)
  fix buf d assume ok: "des_ok buf d" and at: "at_des buf d (xs @ ys)"
  have "f buf d = Some (x, moved (length xs) d)" using f ok at_des_append(1) [OF at] by (simp add: gets_def)
  moreover have "Deserializer_good (moved (length xs) d)" by (rule at_des_moved(3) [OF ok at]) simp
  moreover have "(do { (x, d) \<leftarrow> f buf d; g x buf d }) = Some (y, moved (length (xs @ ys)) d)"
    using gets_bind [OF f, where g = g, OF g] ok at by (simp add: gets_def)
  ultimately show "(do { (x, d) \<leftarrow> f buf d; if \<not> Deserializer_good d then r x buf d else g x buf d }) =
      Some (y, moved (length (xs @ ys)) d)" by simp
qed

lemma getBlock_eq:
  assumes "n < 2 ^ 63" "des_ok buf d"
  shows "Deserializer_getBlock n buf d =
    (if unat (ds_bufferOffset d) + n \<le> unat (ds_bufferSize d)
     then Some (Some (take n (drop (unat (ds_bufferOffset d)) buf)), moved n d)
     else Some (None, Deserializer_setBad (moved n d)))"
  using unat_ucast_add_64 [OF assms(1), of "ds_bufferOffset d"] assms(2)
  by (auto simp: Deserializer_getBlock_def Let_def word_le_nat_alt buf_read_def des_ok_def moved_def Deserializer_setBad_def)

lemma des_step_moved:
  assumes "des_ok buf d" "unat (ds_bufferOffset d) + n \<le> unat (ds_bufferSize d)"
  shows "des_step buf d (moved n d)"
proof -
  have "unat (ds_bufferOffset d) + n < 2 ^ 32" "n < 2 ^ 32"
    using assms unsigned_less [of "ds_bufferSize d", where ?'a = nat] by auto
  then have "unat (ds_bufferOffset (moved n d)) = unat (ds_bufferOffset d) + n"
    by (simp add: moved_def unat_word_ariths unat_of_nat)
  then show ?thesis using assms
    by (auto simp: des_step_def des_ok_def word_le_nat_alt) (auto simp: moved_def)
qed

lemma des_step_overrun: "des_ok buf d \<Longrightarrow> des_step buf d (Deserializer_setBad (moved n d))"
  by (simp add: des_step_def des_ok_def Deserializer_setBad_def moved_def)

lemma bounded_raw: "n < 2 ^ 63 \<Longrightarrow> bounded (Deserializer_getRaw n)"
  by (simp add: bounded_def Deserializer_getRaw_def getBlock_eq des_step_moved des_step_overrun)

lemma gets_raw: "n < 2 ^ 63 \<Longrightarrow> LENGTH('a) \<le> 8 * n \<Longrightarrow> gets (Deserializer_getRaw n) (le_put n v) (v :: 'a::len word)"
  by (simp add: gets_def Deserializer_getRaw_def getBlock_eq at_des_def le_get_put_full)

lemma skip_eq:
  assumes "n < 2 ^ 63"
  shows "Deserializer_skip (of_nat n) d =
    (if unat (ds_bufferOffset d) + n \<le> unat (ds_bufferSize d) then moved n d else Deserializer_setBad (moved n d))"
proof -
  have "ucast (of_nat n :: u64) = (of_nat n :: u32)" by (rule bit_word_eqI) (simp add: bit_simps)
  then show ?thesis
    using unat_ucast_add_64 [OF assms, of "ds_bufferOffset d"]
    by (auto simp: Deserializer_skip_def Let_def word_less_nat_alt moved_def Deserializer_setBad_def)
qed

section \<open>Codecs\<close>

text \<open>Serializing into a new buffer gives the bytes of the value.\<close>

lemma new_buffer_puts:
  assumes put: "puts (put v) bs" and "bs \<noteq> []" "length bs < 2 ^ 32" "alloc (length bs) = Some mem" "length mem = length bs"
  shows "serializeIntoNewBuffer alloc put v = Some (bs, of_nat (length bs))"
proof -
  let ?n = "length bs"
  have size: "sr_bufferOffset (put v Serializer_count) = of_nat ?n"
    using puts_offset [OF put, of Serializer_count] by (simp add: ser_ok_def Serializer_count_def)
  have u: "unat (of_nat ?n :: u32) = ?n" using assms(3) by (simp add: unat_of_nat)
  let ?s = "Serializer_construct mem (of_nat ?n)"
  have "unat (of_nat ?n :: u32) \<noteq> 0" using assms(2) by (simp add: u)
  then have n: "(of_nat ?n :: u32) \<noteq> 0" by (metis unat_0)
  have "ser_ok ?s" "has_room ?s ?n"
    using n by (auto simp: ser_ok_def has_room_def Serializer_construct_def u assms(5))
  then have "put v ?s = wrote bs ?s" using put by (simp add: puts_def)
  then show ?thesis
    using n assms(4,5)
    by (simp add: serializeIntoNewBuffer_def size u wrote_def Serializer_construct_def Serializer_good_def buf_write_def)
qed

text \<open>Reading the bytes of a value from the start of a message gives the value, and no error.\<close>

lemma gets_message:
  assumes get: "gets get bs v" and "bs \<noteq> []" "length (bs @ rest) < 2 ^ 32"
  shows "get (bs @ rest) (Deserializer_construct (of_nat (length (bs @ rest)))) =
      Some (v, moved (length bs) (Deserializer_construct (of_nat (length (bs @ rest)))))"
    "Deserializer_good (moved (length bs) (Deserializer_construct (of_nat (length (bs @ rest)))))"
proof -
  let ?n = "length (bs @ rest)"
  let ?d = "Deserializer_construct (of_nat ?n)"
  have u: "unat (of_nat ?n :: u32) = ?n" using assms(3) by (simp add: unat_of_nat del: of_nat_add length_append)
  have "unat (of_nat ?n :: u32) \<noteq> 0" using assms(2) unfolding u by simp
  then have n: "(of_nat ?n :: u32) \<noteq> 0" by (metis unat_0)
  have ok: "des_ok (bs @ rest) ?d" using u by (simp add: des_ok_def Deserializer_construct_def del: of_nat_add)
  have at: "at_des (bs @ rest) ?d bs"
    using n u by (simp add: at_des_def Deserializer_construct_def del: of_nat_add)
  show "get (bs @ rest) ?d = Some (v, moved (length bs) ?d)" using get ok at by (simp add: gets_def)
  show "Deserializer_good (moved (length bs) ?d)" by (rule at_des_moved(3) [OF ok at]) simp
qed

text \<open>
  A wire format is written by the serializer and read back by the deserializer; a codec moreover
  never leaves a message, whatever its bytes are.
\<close>

locale cpp_wire =
  fixes put :: "'a \<Rightarrow> Serializer \<Rightarrow> Serializer" and get :: "'a des" and enc :: "'a \<Rightarrow> bytes" and valid :: "'a \<Rightarrow> bool"
  assumes put_puts: "valid v \<Longrightarrow> puts (put v) (enc v)"
    and get_gets: "valid v \<Longrightarrow> gets get (enc v) v"
begin

lemma new_buffer:
  assumes "valid v" "enc v \<noteq> []" "length (enc v) < 2 ^ 32" "alloc (length (enc v)) = Some mem" "length mem = length (enc v)"
  shows "serializeIntoNewBuffer alloc put v = Some (enc v, of_nat (length (enc v)))"
  using assms(2-) by (rule new_buffer_puts [where put = put and alloc = alloc, OF put_puts [OF assms(1)]])

lemma read_back:
  assumes "valid v" "enc v \<noteq> []" "length (enc v @ rest) < 2 ^ 32"
  shows "get (enc v @ rest) (Deserializer_construct (of_nat (length (enc v @ rest)))) =
      Some (v, moved (length (enc v)) (Deserializer_construct (of_nat (length (enc v @ rest)))))"
    "Deserializer_good (moved (length (enc v)) (Deserializer_construct (of_nat (length (enc v @ rest)))))"
  by (rule gets_message [OF get_gets [OF assms(1)] assms(2,3)])+

end

locale cpp_codec = cpp_wire +
  assumes get_bounded: "bounded get"

interpretation cpp_u8: cpp_codec Serializer_putUInt8 Deserializer_getUInt8 "\<lambda>v. [v]" "\<lambda>_. True"
proof
  fix v :: u8
  show "gets Deserializer_getUInt8 [v] v"
    using gets_raw [of "Suc 0" v] by (simp add: Deserializer_getUInt8_def)
qed (simp_all add: puts_integral Deserializer_getUInt8_def bounded_raw)

interpretation cpp_u16: cpp_codec Serializer_putUInt16 Deserializer_getUInt16 "le_put 2" "\<lambda>_. True"
  by unfold_locales (simp_all add: puts_integral Deserializer_getUInt16_def bounded_raw gets_raw)

interpretation cpp_u32: cpp_codec Serializer_putUInt32 Deserializer_getUInt32 "le_put 4" "\<lambda>_. True"
  by unfold_locales (simp_all add: puts_integral Deserializer_getUInt32_def bounded_raw gets_raw)

interpretation cpp_u64: cpp_codec Serializer_putUInt64 Deserializer_getUInt64 "le_put 8" "\<lambda>_. True"
  by unfold_locales (simp_all add: puts_integral Deserializer_getUInt64_def bounded_raw gets_raw)

interpretation cpp_bool: cpp_codec Serializer_putBool Deserializer_getBool "\<lambda>v. [if v then 1 else 0]" "\<lambda>_. True"
proof
  show "puts (Serializer_putBool v) [if v then 1 else 0]" for v by (simp add: Serializer_putBool_def puts_integral)
  show "gets Deserializer_getBool [if v then 1 else 0] v" for v
    using gets_map [OF cpp_u8.get_gets [OF TrueI, of "if v then 1 else 0"], where h = "\<lambda>v. v \<noteq> 0"] by (cases v) (simp_all add: Deserializer_getBool_def [abs_def])
  show "bounded Deserializer_getBool"
    unfolding Deserializer_getBool_def [abs_def] by (intro bounded_bind cpp_u8.get_bounded bounded_return)
qed

section \<open>Collections\<close>

lemma bounded_items: "bounded get \<Longrightarrow> bounded (getItems n get vs)"
proof (induction n arbitrary: vs)
  case (Suc n)
  show ?case unfolding getItems.simps [abs_def]
    by (intro bounded_bind [OF Suc.prems] bounded_if_state bounded_return Suc)
qed (simp add: bounded_def des_step_refl)

lemma gets_items:
  assumes "\<And>x. x \<in> set xs \<Longrightarrow> gets get (enc x) x"
  shows "gets (getItems (length xs) get vs) (concat (map enc xs)) (vs @ xs)"
  using assms
proof (induction xs arbitrary: vs)
  case (Cons x xs)
  have "gets (getItems (length xs) get (vs @ [x])) (concat (map enc xs)) ((vs @ [x]) @ xs)"
    by (rule Cons.IH) (simp add: Cons.prems)
  with Cons.prems have "gets (\<lambda>buf d. do { (x, d) \<leftarrow> get buf d;
      if \<not> Deserializer_good d then Some (vs, d) else getItems (length xs) get (vs @ [x]) buf d })
      (enc x @ concat (map enc xs)) ((vs @ [x]) @ xs)"
    by (intro gets_good) simp_all
  then show ?case by simp
qed (simp add: gets_def)

lemma bounded_collection:
  assumes get: "bounded get"
  shows "bounded (Deserializer_getCollection h get vs)"
proof -
  let ?check = "\<lambda>n totalLen xs (buf :: bytes) d. if \<not> Deserializer_good d then Some (xs, d) else if \<not> h then Some (xs, d)
      else if totalLen \<noteq> ds_bufferOffset d - n then Some (xs, Deserializer_setBad d) else Some (xs, d)"
  let ?body = "\<lambda>n totalLen size buf d. if \<not> Deserializer_good d then Some (vs, d)
      else do { (xs, d) \<leftarrow> getItems (unat size) get [] buf d; ?check n totalLen xs buf d }"
  let ?len = "\<lambda>buf d. if h then Deserializer_getUInt32 buf d else Some (0, d)"
  have check: "bounded (?check n totalLen xs)" for n totalLen and xs :: "'a list"
    by (rule bounded_if_state [OF bounded_return bounded_if [OF bounded_return bounded_if_state [OF bounded_bad bounded_return]]])
  have body: "bounded (?body n totalLen size)" for n totalLen size
    by (rule bounded_if_state [OF bounded_return bounded_bind [OF bounded_items [OF get] check]])
  have "bounded (\<lambda>buf d. do { (size, d) \<leftarrow> Deserializer_getUInt32 buf d; ?body n totalLen size buf d })" for n totalLen
    by (rule bounded_bind [OF cpp_u32.get_bounded body])
  then have "bounded (\<lambda>buf d. do { (totalLen, d) \<leftarrow> ?len buf d; (size, d) \<leftarrow> Deserializer_getUInt32 buf d;
      ?body n totalLen size buf d })" for n
    by (rule bounded_bind [OF bounded_if [OF cpp_u32.get_bounded bounded_return]])
  then show ?thesis by (simp add: bounded_def Deserializer_getCollection_def Let_def)
qed

lemma gets_collection:
  assumes els: "\<And>x. x \<in> set xs \<Longrightarrow> gets get (enc x) x" and len: "length xs < 2 ^ 32"
  shows "gets (Deserializer_getCollection h get vs) (collection_bytes h enc xs) xs"
  unfolding gets_def
proof (intro allI impI)
  fix buf d assume ok: "des_ok buf d" and at: "at_des buf d (collection_bytes h enc xs)"
  let ?els = "concat (map enc xs)"
  let ?cnt = "le_put 4 (of_nat (length xs) :: u32)"
  have n: "unat (of_nat (length xs) :: u32) = length xs" using len by (simp add: unat_of_nat)
  have items: "getItems (length xs) get [] buf e = Some (xs, moved (length ?els) e)"
    if "des_ok buf e" "at_des buf e ?els" for e
    using gets_items [where get = get and enc = enc and xs = xs and vs = "[]", OF els] that by (simp add: gets_def)
  have counted: "(do { (size, d) \<leftarrow> Deserializer_getUInt32 buf e;
        if \<not> Deserializer_good d then r d else do { (xs, d) \<leftarrow> getItems (unat size) get [] buf d; k xs d } }) =
      k xs (moved (4 + length ?els) e) \<and> Deserializer_good (moved (4 + length ?els) e)"
    if e: "des_ok buf e" "at_des buf e (?cnt @ ?els)" for e r and k :: "'a list \<Rightarrow> Deserializer \<Rightarrow> ('a list \<times> Deserializer) option"
  proof -
    have "Deserializer_getUInt32 buf e = Some (of_nat (length xs), moved 4 e)"
      using cpp_u32.get_gets [OF TrueI] e(1) at_des_append(1) [OF e(2)] by (simp add: gets_def)
    moreover have "Deserializer_good (moved 4 e)" "des_ok buf (moved 4 e)" using at_des_moved [OF e, of 4] by simp_all
    moreover have "at_des buf (moved 4 e) ?els" using at_des_append(2) [OF e(2)] by simp
    moreover have "Deserializer_good (moved (4 + length ?els) e)" using at_des_moved(3) [OF e] by simp
    ultimately show ?thesis using items [of "moved 4 e"] by (simp add: n)
  qed
  show "Deserializer_getCollection h get vs buf d = Some (xs, moved (length (collection_bytes h enc xs)) d)"
  proof (cases h)
    case True
    let ?len = "of_nat (8 + length ?els) :: u32"
    have bs: "collection_bytes h enc xs = le_put 4 ?len @ ?cnt @ ?els"
      using True by (simp add: collection_bytes_def sized_bytes_def Let_def)
    note at = at [unfolded bs]
    have "Deserializer_getUInt32 buf d = Some (?len, moved 4 d)"
      using cpp_u32.get_gets [OF TrueI] ok at_des_append(1) [OF at] by (simp add: gets_def)
    moreover have "des_ok buf (moved 4 d)" using at_des_moved(1) [OF ok at, of 4] by simp
    moreover have "at_des buf (moved 4 d) (?cnt @ ?els)" using at_des_append(2) [OF at] by simp
    moreover have "ds_bufferOffset (moved (8 + length ?els) d) - ds_bufferOffset d = ?len" by (simp add: moved_def)
    ultimately show ?thesis
      unfolding bs using counted [of "moved 4 d"] True by (simp add: Deserializer_getCollection_def add.assoc)
  next
    case False
    have bs: "collection_bytes h enc xs = ?cnt @ ?els" using False by (simp add: collection_bytes_def counted_bytes_def)
    note at = at [unfolded bs]
    show ?thesis unfolding bs using counted [OF ok at] False by (simp add: Deserializer_getCollection_def)
  qed
qed

text \<open>The elements of a collection have a codec; then the collection has one, too.\<close>

locale cpp_elem = cpp_codec
begin

lemma collection_codec:
  "cpp_codec (Serializer_putCollection h put) (Deserializer_getCollection h get []) (collection_bytes h enc)
     (\<lambda>xs. (\<forall>x \<in> set xs. valid x) \<and> length xs < 2 ^ 32)"
  by unfold_locales (auto intro!: puts_collection gets_collection bounded_collection put_puts get_gets get_bounded)

end

sublocale cpp_elem \<subseteq> sized: cpp_codec "Serializer_putCollection True put" "Deserializer_getCollection True get []"
  "sized_bytes enc" "\<lambda>xs. (\<forall>x \<in> set xs. valid x) \<and> length xs < 2 ^ 32"
  using collection_codec [of True] by (simp add: collection_bytes_def [abs_def])

sublocale cpp_elem \<subseteq> counted: cpp_codec "Serializer_putCollection False put" "Deserializer_getCollection False get []"
  "counted_bytes enc" "\<lambda>xs. (\<forall>x \<in> set xs. valid x) \<and> length xs < 2 ^ 32"
  using collection_codec [of False] by (simp add: collection_bytes_def [abs_def])

interpretation cpp_u8_elem: cpp_elem Serializer_putUInt8 Deserializer_getUInt8 "\<lambda>v. [v]" "\<lambda>_. True" ..
interpretation cpp_u16_elem: cpp_elem Serializer_putUInt16 Deserializer_getUInt16 "le_put 2" "\<lambda>_. True" ..
interpretation cpp_u32_elem: cpp_elem Serializer_putUInt32 Deserializer_getUInt32 "le_put 4" "\<lambda>_. True" ..
interpretation cpp_u64_elem: cpp_elem Serializer_putUInt64 Deserializer_getUInt64 "le_put 8" "\<lambda>_. True" ..

end
