(* ===== verification/Cpp_Strings.thy ===== *)
theory Cpp_Strings
  imports Cpp_Serdes Serdes_String_Lists
begin

text \<open>
  Strings of the servers' wire format: \<^verbatim>\<open>PadFieldTo\<close>, \<^verbatim>\<open>RawStringSer\<close>, \<^verbatim>\<open>RawStringDes\<close> and
  \<^verbatim>\<open>StdString\<close> in \<^verbatim>\<open>Serialization.h\<close>, and the collections of strings in \<^verbatim>\<open>SerializeStr.cpp\<close>.
\<close>

section \<open>Operations\<close>

text \<open>The destructor of the padding object runs on every way out of a field.\<close>

definition PadFieldTo_ser :: "u32 \<Rightarrow> u32 \<Rightarrow> Serializer \<Rightarrow> Serializer" where
  "PadFieldTo_ser padding offsetAtStart target =
     (let rangeSize = sr_bufferOffset target - offsetAtStart
      in if rangeSize mod padding \<noteq> 0 then Serializer_skip (unat (padding - rangeSize mod padding)) target else target)"

definition PadFieldTo_des :: "u32 \<Rightarrow> u32 \<Rightarrow> Deserializer \<Rightarrow> Deserializer" where
  "PadFieldTo_des padding offsetAtStart target =
     (let rangeSize = ds_bufferOffset target - offsetAtStart
      in if rangeSize mod padding \<noteq> 0 then Deserializer_skip (ucast (padding - rangeSize mod padding)) target else target)"

definition RawStringSer :: "u32 \<Rightarrow> bytes \<Rightarrow> Serializer \<Rightarrow> Serializer" where
  "RawStringSer align data ser =
     (let n = of_nat (length data) :: u32; offsetAtStart = sr_bufferOffset ser
      in PadFieldTo_ser align offsetAtStart
           (Serializer_putUInt8 0 (Serializer_putBlock (take (unat n) data) (Serializer_putUInt32 n ser))))"

text \<open>
  The result is the position and length of the string; nothing is assigned when there is no length.
\<close>

definition RawStringDes :: "u32 \<Rightarrow> (nat \<times> u32) option des" where
  "RawStringDes align buf des =
     (let offsetAtStart = ds_bufferOffset des
      in do {
        (n, des) \<leftarrow> Deserializer_getUInt32 buf des;
        (str, des) \<leftarrow>
          (if \<not> Deserializer_good des then Some (None, des)
           else
             let data = unat (ds_bufferOffset des); des = Deserializer_skip (ucast (n + 1)) des
             in if \<not> Deserializer_good des then Some (Some (data, n), des)
                else do {
                  last \<leftarrow> buf_read buf (data + unat n) 1;
                  Some (Some (data, n), if hd last \<noteq> 0 then Deserializer_setBad des else des)
                });
        Some (str, PadFieldTo_des align offsetAtStart des)
      })"

definition StdString_get :: "u32 \<Rightarrow> bytes des" where
  "StdString_get align buf des = do {
     (str, des) \<leftarrow> RawStringDes align buf des;
     if Deserializer_good des
     then (case str of
             Some (data, n) \<Rightarrow> do { s \<leftarrow> buf_read buf data (unat n); Some (s, des) }
           | None \<Rightarrow> Some ([], des))
     else Some ([], des)
   }"

definition serializeStringCollection :: "bytes list \<Rightarrow> Serializer \<Rightarrow> Serializer" where
  "serializeStringCollection strs ser =
     (let atStart = ser; sizeAtStart = sr_bufferOffset ser;
          ser = Serializer_putUInt32 0 (Serializer_putUInt32 0 ser);
          (ser, elements) = foldl (\<lambda>(s, n). \<lambda>str. (Serializer_putUInt8 0 (Serializer_putBlock str s), n + 1)) (ser, 0 :: u32) strs
      in at_mark atStart (\<lambda>s. Serializer_putUInt32 elements (Serializer_putUInt32 (sr_bufferOffset ser - sizeAtStart) s)) ser)"

primrec splitStrings :: "nat \<Rightarrow> bytes \<Rightarrow> nat \<Rightarrow> u32 \<Rightarrow> bytes list \<Rightarrow> (bytes list \<times> nat \<times> u32) option" where
  "splitStrings 0 buf rawStringArray lengthRemaining strs = Some (strs, 0, lengthRemaining)"
| "splitStrings (Suc n) buf rawStringArray lengthRemaining strs =
     (if lengthRemaining = 0 then Some (strs, Suc n, lengthRemaining)
      else do {
        len \<leftarrow> c_strlen buf rawStringArray;
        splitStrings n buf (rawStringArray + (len + 1)) (lengthRemaining - of_nat (len + 1))
          (strs @ [take len (drop rawStringArray buf)])
      })"

definition stringArray :: "nat \<Rightarrow> u32 \<Rightarrow> bytes list des" where
  "stringArray n lengthRemaining buf des =
     (let rawStringArray = unat (ds_bufferOffset des);
          des = (if lengthRemaining \<noteq> 0 then Deserializer_skip (ucast lengthRemaining) des else des)
      in if lengthRemaining \<noteq> 0 \<and> \<not> Deserializer_good des then Some ([], des)
         else do {
           last \<leftarrow> (if lengthRemaining \<noteq> 0 then buf_read buf (rawStringArray + unat lengthRemaining - 1) 1 else Some [0]);
           if hd last \<noteq> 0 then Some ([], Deserializer_setBad des)
           else do {
             (strs, rest, lengthRemaining) \<leftarrow> splitStrings n buf rawStringArray lengthRemaining [];
             Some (strs, if rest > 0 \<or> lengthRemaining > 0 then Deserializer_setBad des else des)
           }
         })"

definition deserializeStringCollection :: "bytes list \<Rightarrow> bytes list des" where
  "deserializeStringCollection old buf des =
     (let sizeAtStart = ds_bufferOffset des
      in do {
        (totalLen, des) \<leftarrow> Deserializer_getUInt32 buf des;
        (n, des) \<leftarrow> Deserializer_getUInt32 buf des;
        if \<not> Deserializer_good des then Some (old, des)
        else stringArray (unat n) (totalLen - (ds_bufferOffset des - sizeAtStart)) buf des
      })"

section \<open>Padding\<close>

definition pad_len :: "nat \<Rightarrow> nat \<Rightarrow> nat" where
  "pad_len align n = (if n mod align = 0 then 0 else align - n mod align)"

definition padded :: "u32 \<Rightarrow> bytes \<Rightarrow> bytes" where
  "padded align bs = bs @ replicate (pad_len (unat align) (length bs)) 0"

lemma pad_word:
  assumes "n < 2 ^ 32" "align \<noteq> 0"
  shows "unat ((of_nat n :: u32) mod align) = n mod unat align"
    "unat (align - (of_nat n :: u32) mod align) = unat align - n mod unat align"
    "(of_nat n :: u32) mod align = 0 \<longleftrightarrow> n mod unat align = 0"
proof -
  show m: "unat ((of_nat n :: u32) mod align) = n mod unat align" using assms(1) by (simp add: unat_mod unat_of_nat)
  have "(of_nat n :: u32) mod align \<le> align" using assms(2)
    by (simp add: word_le_nat_alt m) (simp add: less_imp_le unat_gt_0)
  then show "unat (align - (of_nat n :: u32) mod align) = unat align - n mod unat align" by (simp add: unat_sub m)
  show "(of_nat n :: u32) mod align = 0 \<longleftrightarrow> n mod unat align = 0" unfolding m [symmetric] by (simp add: unat_eq_0)
qed

lemma puts_padded:
  assumes f: "puts f bs" and "length bs < 2 ^ 32" "align \<noteq> 0"
  shows "puts (\<lambda>s. PadFieldTo_ser align (sr_bufferOffset s) (f s)) (padded align bs)"
proof -
  note w = pad_word [OF assms(2,3)]
  let ?skip = "\<lambda>s. if length bs mod unat align = 0 then s else Serializer_skip (unat align - length bs mod unat align) s"
  have "puts ?skip (replicate (pad_len (unat align) (length bs)) 0)"
    by (simp add: pad_len_def puts_skip puts_id)
  then have "puts (\<lambda>s. ?skip (f s)) (padded align bs)" unfolding padded_def by (rule puts_comp [OF f])
  then show ?thesis
  proof (rule puts_cong)
    fix s assume "ser_ok s"
    then have "sr_bufferOffset (f s) - sr_bufferOffset s = of_nat (length bs)" by (simp add: puts_offset [OF f])
    then show "PadFieldTo_ser align (sr_bufferOffset s) (f s) = ?skip (f s)"
      using w by (simp add: PadFieldTo_ser_def)
  qed
qed

lemma skip_u32:
  "Deserializer_skip (ucast (n :: u32)) d =
     (if unat (ds_bufferOffset d) + unat n \<le> unat (ds_bufferSize d) then moved (unat n) d else Deserializer_setBad (moved (unat n) d))"
proof -
  have "unat n < 2 ^ 32" using unsigned_less [of n, where ?'a = nat] by simp
  then have "unat n < 2 ^ 63" by simp
  from skip_eq [OF this] show ?thesis by (simp add: of_nat_unat_32_64)
qed

lemma skip_step: "des_ok buf d \<Longrightarrow> des_step buf d (Deserializer_skip (ucast (n :: u32)) d)"
  by (simp add: skip_u32 des_step_moved des_step_overrun)

lemma pad_step: "des_step buf d d' \<Longrightarrow> des_step buf d (PadFieldTo_des align n d')"
  by (auto simp: PadFieldTo_des_def Let_def intro: des_step_trans skip_step des_step_ok)

lemma pad_moved:
  assumes at: "at_des buf d (padded align bs)" and "align \<noteq> 0"
  shows "PadFieldTo_des align (ds_bufferOffset d) (moved (length bs) d) = moved (length (padded align bs)) d"
proof -
  have "length bs < 2 ^ 32"
    using at unsigned_less [of "ds_bufferSize d", where ?'a = nat] by (auto simp: at_des_def padded_def)
  note w = pad_word [OF this assms(2)]
  have "unat (ds_bufferOffset (moved (length bs) d)) = unat (ds_bufferOffset d) + length bs"
    by (rule at_des_offset [OF at]) (simp add: padded_def)
  moreover have "ds_bufferOffset (moved (length bs) d) - ds_bufferOffset d = of_nat (length bs)"
    "ds_bufferSize (moved (length bs) d) = ds_bufferSize d" by (simp_all add: moved_def)
  moreover have "unat (ds_bufferOffset d) + length bs + pad_len (unat align) (length bs) \<le> unat (ds_bufferSize d)"
    using at by (simp add: at_des_def padded_def)
  ultimately show ?thesis
    using w by (auto simp: PadFieldTo_des_def Let_def skip_u32 padded_def pad_len_def)
qed

section \<open>Strings\<close>

lemma puts_string:
  assumes "length str + 5 < 2 ^ 32" "align \<noteq> 0"
  shows "puts (RawStringSer align str) (padded align (str_bytes str))"
proof -
  have n: "unat (of_nat (length str) :: u32) = length str" using assms(1) by (simp add: unat_of_nat)
  have "puts (\<lambda>s. Serializer_putUInt8 0 (Serializer_putBlock str (Serializer_putUInt32 (of_nat (length str)) s)))
      (le_put 4 (of_nat (length str) :: u32) @ str @ [0])"
    using puts_comp [OF puts_integral(3) puts_comp [OF puts_block puts_integral(1)]] assms(1) by simp
  from puts_padded [OF this _ assms(2)] assms(1) show ?thesis
    by (simp add: RawStringSer_def [abs_def] Let_def n str_bytes_def)
qed

lemma gets_string:
  assumes "align \<noteq> 0"
  shows "gets (StdString_get align) (padded align (str_bytes str)) str"
  unfolding gets_def
proof (intro allI impI)
  fix buf d assume ok: "des_ok buf d" and at: "at_des buf d (padded align (str_bytes str))"
  let ?n = "length str"
  have at': "at_des buf d (str_bytes str)" using at_des_append(1) at unfolding padded_def .
  have small: "?n + 5 < 2 ^ 32"
    using at' unsigned_less [of "ds_bufferSize d", where ?'a = nat] by (auto simp: at_des_def str_bytes_def)
  then have n: "unat (of_nat ?n :: u32) = ?n" "unat (of_nat ?n + 1 :: u32) = ?n + 1"
    by (simp_all add: unat_of_nat unat_word_ariths)
  have len: "Deserializer_getUInt32 buf d = Some (of_nat ?n, moved 4 d)"
    using cpp_u32.get_gets [OF TrueI] ok at_des_append(1) [OF at' [unfolded str_bytes_def]] by (simp add: gets_def)
  have body: "at_des buf (moved 4 d) (str @ [0])" using at_des_append(2) [OF at' [unfolded str_bytes_def]] by simp
  have four: "Deserializer_good (moved 4 d)" "des_ok buf (moved 4 d)" "unat (ds_bufferOffset (moved 4 d)) = unat (ds_bufferOffset d) + 4"
    using at_des_moved [OF ok at', of 4] at_des_offset [OF at', of 4] by (simp_all add: str_bytes_def)
  have skip: "Deserializer_skip (ucast (of_nat ?n + 1 :: u32)) (moved 4 d) = moved (length (str_bytes str)) d"
    using body by (simp add: skip_u32 n at_des_def str_bytes_def)
  have good: "Deserializer_good (moved (length (str_bytes str)) d)" by (rule at_des_moved(3) [OF ok at']) simp
  have bytes: "take (Suc ?n) (drop (unat (ds_bufferOffset d) + 4) buf) = str @ [0]"
    "unat (ds_bufferOffset d) + 4 + Suc ?n \<le> length buf"
    using body ok four(2) by (auto simp: at_des_def four(3) des_ok_def)
  have parts: "take ?n (drop (unat (ds_bufferOffset d) + 4) buf) = str"
    "take 1 (drop (unat (ds_bufferOffset d) + 4 + ?n) buf) = [0]"
    using take_append_eq [of str "[0]" "unat (ds_bufferOffset d) + 4" buf] bytes(1) by simp_all
  then have zero: "buf_read buf (unat (ds_bufferOffset d) + 4 + ?n) 1 = Some [0]"
    and read: "buf_read buf (unat (ds_bufferOffset d) + 4) ?n = Some str"
    using bytes(2) by (simp_all add: buf_read_def)
  have "RawStringDes align buf d = Some (Some (unat (ds_bufferOffset d) + 4, of_nat ?n), moved (length (padded align (str_bytes str))) d)"
    by (simp add: RawStringDes_def Let_def len four skip good n zero [simplified] pad_moved [OF at assms])
  moreover have "Deserializer_good (moved (length (padded align (str_bytes str))) d)" by (rule at_des_moved(3) [OF ok at]) simp
  ultimately show "StdString_get align buf d = Some (str, moved (length (padded align (str_bytes str))) d)"
    by (simp add: StdString_get_def read n)
qed

interpretation cpp_string: cpp_wire "RawStringSer 1" "StdString_get 1" str_bytes "\<lambda>str. length str + 5 < 2 ^ 32"
  using puts_string [of _ 1] gets_string [of 1] by unfold_locales (simp_all add: padded_def pad_len_def)

lemma strAlign4_padded: "padded 4 (str_bytes str) = strAlign4_bytes str"
proof -
  have "length (str_bytes str) mod 4 = (length str + 1) mod 4" 
    by (simp add: str_bytes_def) presburger
  then show ?thesis
    by (auto simp: padded_def strAlign4_bytes_def pad_len_def str_padding_def)
qed

interpretation cpp_string4: cpp_wire "RawStringSer 4" "StdString_get 4" strAlign4_bytes "\<lambda>str. length str + 5 < 2 ^ 32"
  using puts_string [of _ 4] gets_string [of 4] by unfold_locales (simp_all add: strAlign4_padded)

text \<open>The length of a string, when the message still has four bytes for it.\<close>

lemma length_field:
  assumes ok: "des_ok buf d"
  obtains (short) d' where "Deserializer_getUInt32 buf d = Some (0, d')" "\<not> Deserializer_good d'" "des_step buf d d'"
      "\<And>v :: u32. \<not> at_des buf d (le_put 4 v)"
    | (there) n where "Deserializer_getUInt32 buf d = Some (n, moved 4 d)" "Deserializer_good (moved 4 d)"
      "des_step buf d (moved 4 d)" "at_des buf d (le_put 4 n)"
proof (cases "ds_bufferSize d \<noteq> 0 \<and> unat (ds_bufferOffset d) + 4 \<le> unat (ds_bufferSize d)")
  case True
  let ?bs = "take 4 (drop (unat (ds_bufferOffset d)) buf)"
  have "length ?bs = 4" using True ok by (auto simp: des_ok_def)
  then have put: "le_put 4 (le_get ?bs :: u32) = ?bs" using le_put_get [of ?bs, where 'a = 32] by simp
  have at: "at_des buf d (le_put 4 (le_get ?bs :: u32))" using True put [symmetric] unfolding at_des_def length_le_put by simp
  have "Deserializer_getUInt32 buf d = Some (le_get ?bs, moved 4 d)"
    using cpp_u32.get_gets [OF TrueI] ok at by (simp add: gets_def)
  moreover have "Deserializer_good (moved 4 d)" using at_des_moved(3) [OF ok at] by simp
  ultimately show thesis using that(2) at des_step_moved [OF ok] True by blast
next
  case False
  show thesis
  proof (rule that(1))
    show "Deserializer_getUInt32 buf d = Some (0, Deserializer_setBad (moved 4 d))"
      using False ok by (auto simp: Deserializer_getUInt32_def Deserializer_getRaw_def getBlock_eq)
    show "\<not> at_des buf d (le_put 4 v)" for v :: u32 using False by (auto simp: at_des_def)
    show "\<not> Deserializer_good (Deserializer_setBad (moved 4 d))" by (simp add: Deserializer_good_def Deserializer_setBad_def)
    show "des_step buf d (Deserializer_setBad (moved 4 d))" by (rule des_step_overrun [OF ok])
  qed
qed

lemma le_put_inj: "le_put 4 (v :: u32) = le_put 4 w \<longleftrightarrow> v = w"
proof
  assume "le_put 4 v = le_put 4 w"
  then have "(le_get (le_put 4 v) :: u32) = le_get (le_put 4 w)" by (rule arg_cong)
  then show "v = w" by (simp add: le_get_put_full)
qed simp

lemma string_outside_iff:
  assumes ok: "des_ok buf d" and whole: "length buf = unat (ds_bufferSize d)"
  shows "StdString_get align buf d = None \<longleftrightarrow> at_des buf d (le_put 4 (- 1 :: u32))"
  using ok
proof (cases rule: length_field)
  case (short d')
  have "RawStringDes align buf d = Some (None, PadFieldTo_des align (ds_bufferOffset d) d')"
    using short by (simp add: RawStringDes_def Let_def)
  then show ?thesis using short(4) by (simp add: StdString_get_def)
next
  case (there n)
  have at_n: "at_des buf d (le_put 4 (- 1 :: u32)) \<longleftrightarrow> n = - 1"
    using there(4) by (auto simp: at_des_def le_put_inj)
  let ?data = "unat (ds_bufferOffset (moved 4 d))"
  let ?d = "Deserializer_skip (ucast (n + 1)) (moved 4 d)"
  have size: "ds_bufferSize (moved 4 d) = ds_bufferSize d" by (simp add: moved_def)
  have off: "?data = unat (ds_bufferOffset d) + 4" using at_des_offset [OF there(4), of 4] by simp
  show ?thesis
  proof (cases "n = - 1")
    case True
    have "?d = moved 4 d" using there(2) size by (simp add: True skip_u32 [of 0, simplified] Deserializer_good_def word_le_nat_alt)
    moreover have "buf_read buf (?data + unat n) 1 = None"
      using unsigned_less [of "ds_bufferSize d", where ?'a = nat] whole by (simp add: buf_read_def off True unat_max_32)
    ultimately have "RawStringDes align buf d = None" using there by (simp add: RawStringDes_def Let_def)
    then show ?thesis using True at_n by (simp add: StdString_get_def)
  next
    case False
    then have "n < - 1" by (simp add: order_less_le)
    then have n: "unat (n + 1) = unat n + 1" by (rule unat_plus_one_less)
    have d: "?d = (if ?data + (unat n + 1) \<le> unat (ds_bufferSize d) then moved (unat n + 1) (moved 4 d)
        else Deserializer_setBad (moved (unat n + 1) (moved 4 d)))"
      unfolding skip_u32 n size ..
    have bad: "\<not> Deserializer_good (Deserializer_setBad e)" "\<not> Deserializer_good (PadFieldTo_des align k (Deserializer_setBad e))" for e k
      by (auto simp: Deserializer_good_def PadFieldTo_des_def Let_def Deserializer_skip_def Deserializer_setBad_def)
    have "StdString_get align buf d \<noteq> None"
      using there whole
      by (auto simp: StdString_get_def RawStringDes_def Let_def d bad buf_read_def)
    then show ?thesis using False at_n by simp
  qed
qed

section \<open>Collections of strings\<close>

abbreviation string_bytes :: "bytes list \<Rightarrow> bytes" where
  "string_bytes strs \<equiv> concat (map (\<lambda>s. s @ [0]) strs)"

lemma puts_strings:
  assumes "\<forall>s \<in> set strs. length s < 2 ^ 63"
  shows "puts (serializeStringCollection strs) (sized_bytes (\<lambda>s. s @ [0]) strs)"
proof -
  have "puts (Serializer_putCollection True (\<lambda>str s. Serializer_putUInt8 0 (Serializer_putBlock str s)) strs)
      (collection_bytes True (\<lambda>s. s @ [0]) strs)"
    using assms by (intro puts_collection puts_comp puts_block puts_integral) blast
  then show ?thesis
    by (simp add: serializeStringCollection_def [abs_def] Serializer_putCollection_def [abs_def] collection_bytes_def)
qed

lemma splitStrings_total:
  "list_closed buf start (unat len) \<Longrightarrow> \<exists>r. splitStrings n buf start len strs = Some r"
proof (induction n arbitrary: start len strs)
  case (Suc n)
  show ?case
  proof (cases "len = 0")
    case False
    then have "len > 0" by (simp add: word_neq_0_conv)
    obtain l where l: "c_strlen buf start = Some l" "list_closed buf (start + (l + 1)) (unat (len - of_nat (l + 1)))"
      by (rule list_closed_step [OF Suc.prems \<open>len > 0\<close>])
    from Suc.IH [OF l(2)] False l(1) show ?thesis by simp
  qed simp
qed simp

lemma splitStrings_reads:
  assumes "\<forall>s \<in> set xs. 0 \<notin> set s" "length (string_bytes xs) < 2 ^ 32"
    and "take (length (string_bytes xs)) (drop start buf) = string_bytes xs"
  shows "splitStrings (length xs) buf start (of_nat (length (string_bytes xs))) strs = Some (strs @ xs, 0, 0)"
  using assms
proof (induction xs arbitrary: start strs)
  case (Cons s xs)
  let ?e = "string_bytes xs"
  have "0 \<notin> set s" "length ((s @ [0]) @ ?e) < 2 ^ 32" "take (length ((s @ [0]) @ ?e)) (drop start buf) = (s @ [0]) @ ?e"
    using Cons.prems by simp_all
  note first = first_string_at [OF this]
  have "splitStrings (length xs) buf (start + (length s + 1)) (of_nat (length ?e)) (strs @ [s]) = Some ((strs @ [s]) @ xs, 0, 0)"
    using Cons.IH [of "start + (length s + 1)"] Cons.prems(1,2) first(3) by simp
  then show ?case using first by (simp add: word_neq_0_conv)
qed simp

lemma skip_rest:
  fixes len :: u32
  assumes ok: "des_ok buf d" and good: "Deserializer_good d"
  defines "d' \<equiv> if len \<noteq> 0 then Deserializer_skip (ucast len) d else d"
  shows "des_step buf d d'" "Deserializer_good d' \<longleftrightarrow> unat (ds_bufferOffset d) + unat len \<le> unat (ds_bufferSize d)"
    "Deserializer_good d' \<Longrightarrow> d' = moved (unat len) d"
proof -
  have d': "d' = (if unat (ds_bufferOffset d) + unat len \<le> unat (ds_bufferSize d) then moved (unat len) d
      else Deserializer_setBad (moved (unat len) d))"
    using good by (auto simp: d'_def skip_u32 Deserializer_good_def word_le_nat_alt)
  show "des_step buf d d'" unfolding d' using des_step_moved [OF ok] des_step_overrun [OF ok] by simp
  have "Deserializer_good (moved (unat len) d)" if "unat (ds_bufferOffset d) + unat len \<le> unat (ds_bufferSize d)"
    using des_step_moved [OF ok that] good_iff good_iff [OF ok] good by (auto simp: des_step_def moved_def)
  then show "Deserializer_good d' \<longleftrightarrow> unat (ds_bufferOffset d) + unat len \<le> unat (ds_bufferSize d)"
    unfolding d' by (auto simp: Deserializer_good_def Deserializer_setBad_def)
  then show "Deserializer_good d' \<Longrightarrow> d' = moved (unat len) d" unfolding d' by simp
qed

lemma read_last_byte:
  assumes "start + unat (len :: u32) \<le> length buf" "len \<noteq> 0"
  shows "buf_read buf (start + unat len - 1) 1 = Some [buf ! (start + unat len - 1)]"
proof -
  have "0 < unat len" using assms(2) by (simp add: unat_gt_0)
  then have "start + unat len - 1 < length buf" using assms(1) by linarith
  then show ?thesis by (simp add: buf_read_def take_Suc_conv_app_nth)
qed

lemma stringArray_step:
  assumes ok: "des_ok buf d" and good: "Deserializer_good d"
  shows "\<exists>v d'. stringArray n len buf d = Some (v, d') \<and> des_step buf d d'"
proof -
  let ?raw = "unat (ds_bufferOffset d)"
  let ?d = "if len \<noteq> 0 then Deserializer_skip (ucast len) d else d"
  note rest = skip_rest [OF ok good, of len]
  note bad = des_step_bad [OF rest(1)]
  show ?thesis
  proof (cases "Deserializer_good ?d")
    case True
    then have fits: "?raw + unat len \<le> length buf" using rest(2) ok by (simp add: des_ok_def)
    show ?thesis
    proof (cases "len = 0 \<or> buf ! (?raw + unat len - 1) = 0")
      case zero: True
      then have "list_closed buf ?raw (unat len)" using fits by (auto simp: list_closed_def)
      then obtain strs r l where "splitStrings n buf ?raw len [] = Some (strs, r, l)"
        using splitStrings_total [of buf ?raw len n "[]"] by auto
      moreover have "(if len \<noteq> 0 then buf_read buf (?raw + unat len - 1) 1 else Some [0]) = Some [0]"
        using zero read_last_byte [OF fits] by auto
      ultimately have "stringArray n len buf d = Some (strs, if r > 0 \<or> l > 0 then Deserializer_setBad ?d else ?d)"
        using True unfolding stringArray_def Let_def by (simp del: One_nat_def)
      then show ?thesis using rest(1) bad by (cases "r > 0 \<or> l > 0") (simp_all only: if_True if_False, blast+)
    next
      case False
      then have "stringArray n len buf d = Some ([], Deserializer_setBad ?d)"
        using True read_last_byte [OF fits] unfolding stringArray_def Let_def by (simp del: One_nat_def)
      then show ?thesis using bad by blast
    qed
  next
    case False
    then have "len \<noteq> 0" using good by (cases "len = 0") simp_all
    with False have "stringArray n len buf d = Some ([], ?d)" unfolding stringArray_def Let_def by simp
    then show ?thesis using rest(1) by blast
  qed
qed

lemma bounded_strings: "bounded (deserializeStringCollection old)"
  unfolding bounded_def
proof (intro allI impI)
  fix buf d assume ok: "des_ok buf d"
  obtain totalLen d1 where 1: "Deserializer_getUInt32 buf d = Some (totalLen, d1)" "des_step buf d d1"
    by (rule boundedE [OF cpp_u32.get_bounded ok])
  obtain n d2 where 2: "Deserializer_getUInt32 buf d1 = Some (n, d2)" "des_step buf d1 d2"
    by (rule boundedE [OF cpp_u32.get_bounded des_step_ok [OF 1(2)]])
  note step = des_step_trans [OF 1(2) 2(2)]
  show "\<exists>v d'. deserializeStringCollection old buf d = Some (v, d') \<and> des_step buf d d'"
  proof (cases "Deserializer_good d2")
    case True
    obtain v d3 where "stringArray (unat n) (totalLen - (ds_bufferOffset d2 - ds_bufferOffset d)) buf d2 = Some (v, d3)"
      "des_step buf d2 d3" using stringArray_step [OF des_step_ok [OF step] True] by blast
    then show ?thesis using des_step_trans [OF step] True by (simp add: deserializeStringCollection_def Let_def 1(1) 2(1))
  next
    case False
    then show ?thesis using step by (simp add: deserializeStringCollection_def Let_def 1(1) 2(1))
  qed
qed

lemma gets_stringArray:
  assumes xs: "\<forall>s \<in> set xs. 0 \<notin> set s" and ok: "des_ok buf d" and at: "at_des buf d (string_bytes xs)"
  shows "stringArray (length xs) (of_nat (length (string_bytes xs))) buf d = Some (xs, moved (length (string_bytes xs)) d)"
proof -
  let ?n = "length (string_bytes xs)"
  have small: "?n < 2 ^ 32" using at unsigned_less [of "ds_bufferSize d", where ?'a = nat] by (auto simp: at_des_def)
  then have n: "unat (of_nat ?n :: u32) = ?n" by (simp add: unat_of_nat)
  have good: "Deserializer_good d" using ok at good_iff by (auto simp: at_des_def)
  note rest = skip_rest [OF ok good, of "of_nat ?n", unfolded n]
  have fits: "unat (ds_bufferOffset d) + ?n \<le> unat (ds_bufferSize d)" "unat (ds_bufferOffset d) + ?n \<le> length buf"
    using at ok by (auto simp: at_des_def des_ok_def)
  have split: "splitStrings (length xs) buf (unat (ds_bufferOffset d)) (of_nat ?n) [] = Some (xs, 0, 0)"
    using splitStrings_reads [OF xs small, of "unat (ds_bufferOffset d)" buf "[]"] at by (simp add: at_des_def)
  have zero: "buf ! (unat (ds_bufferOffset d) + ?n - 1) = 0" if ne: "xs \<noteq> []"
  proof -
    obtain ys s where "xs = ys @ [s]" using ne rev_exhaust by blast
    then have last: "last (string_bytes xs) = 0" "string_bytes xs \<noteq> []" by simp_all
    then have "take ?n (drop (unat (ds_bufferOffset d)) buf) ! (?n - 1) = 0"
      using at by (simp add: at_des_def last_conv_nth)
    moreover have "0 < ?n" using last(2) length_greater_0_conv by blast
    then have "unat (ds_bufferOffset d) + ?n - 1 = unat (ds_bufferOffset d) + (?n - 1)" by linarith
    ultimately show ?thesis using fits(2) \<open>0 < ?n\<close> by simp
  qed
  show ?thesis
  proof (cases "xs = []")
    case True
    then show ?thesis by (simp add: stringArray_def Let_def)
  next
    case False
    then have "unat (of_nat ?n :: u32) \<noteq> 0" unfolding n by (cases xs) auto
    then have ne: "(of_nat ?n :: u32) \<noteq> 0" by (intro notI) (simp only: unat_0 refl not_True_eq_False)
    have "buf_read buf (unat (ds_bufferOffset d) + ?n - 1) 1 = Some [0]"
      using read_last_byte [of "unat (ds_bufferOffset d)" "of_nat ?n" buf] ne fits(2) zero [OF False] unfolding n by simp
    then show ?thesis
      using ne rest(2,3) fits(1) split unfolding stringArray_def Let_def by (simp add: n del: One_nat_def)
  qed
qed

interpretation cpp_strings: cpp_codec serializeStringCollection "deserializeStringCollection []"
  "sized_bytes (\<lambda>s. s @ [0])" "\<lambda>xs. (\<forall>s \<in> set xs. 0 \<notin> set s \<and> length s < 2 ^ 63) \<and> length xs < 2 ^ 32"
proof unfold_locales
  fix xs :: "bytes list"
  assume valid: "(\<forall>s \<in> set xs. 0 \<notin> set s \<and> length s < 2 ^ 63) \<and> length xs < 2 ^ 32"
  then show "puts (serializeStringCollection xs) (sized_bytes (\<lambda>s. s @ [0]) xs)" by (intro puts_strings) simp
  show "gets (deserializeStringCollection []) (sized_bytes (\<lambda>s. s @ [0]) xs) xs"
    unfolding gets_def
  proof (intro allI impI)
    fix buf d assume ok: "des_ok buf d" and at: "at_des buf d (sized_bytes (\<lambda>s. s @ [0]) xs)"
    let ?e = "string_bytes xs"
    let ?len = "of_nat (8 + length ?e) :: u32" and ?cnt = "of_nat (length xs) :: u32"
    have bs: "sized_bytes (\<lambda>s. s @ [0]) xs = le_put 4 ?len @ le_put 4 ?cnt @ ?e" by (simp add: sized_bytes_def Let_def)
    note at = at [unfolded bs]
    have cnt: "unat ?cnt = length xs" using valid by (simp add: unat_of_nat)
    have 1: "Deserializer_getUInt32 buf d = Some (?len, moved 4 d)"
      using cpp_u32.get_gets [OF TrueI] ok at_des_append(1) [OF at] by (simp add: gets_def)
    have at4: "at_des buf (moved 4 d) (le_put 4 ?cnt @ ?e)" using at_des_append(2) [OF at] by simp
    have ok4: "des_ok buf (moved 4 d)" using at_des_moved(1) [OF ok at, of 4] by simp
    have 2: "Deserializer_getUInt32 buf (moved 4 d) = Some (?cnt, moved 8 d)"
      using cpp_u32.get_gets [OF TrueI] ok4 at_des_append(1) [OF at4] by (simp add: gets_def)
    have at8: "at_des buf (moved 8 d) ?e" using at_des_append(2) [OF at4] by simp
    have ok8: "des_ok buf (moved 8 d)" "Deserializer_good (moved 8 d)" using at_des_moved(1,3) [OF ok at, of 8] by simp_all
    have rest: "?len - (ds_bufferOffset (moved 8 d) - ds_bufferOffset d) = of_nat (length ?e)" by (simp add: moved_def)
    have "stringArray (length xs) (of_nat (length ?e)) buf (moved 8 d) = Some (xs, moved (length ?e) (moved 8 d))"
      using valid by (intro gets_stringArray ok8 at8) simp
    then show "deserializeStringCollection [] buf d = Some (xs, moved (length (sized_bytes (\<lambda>s. s @ [0]) xs)) d)"
      unfolding bs deserializeStringCollection_def Let_def
      by (simp only: 1 2 bind.bind_lunit case_prod_conv rest cnt ok8 not_True_eq_False if_False) (simp add: add.assoc)
  qed
qed (rule bounded_strings)

section \<open>Properties\<close>

text \<open>
  C29. Reading a string on a server: a string is read back from its bytes wherever they stand in a
  message, with and without alignment. The reader leaves the message in exactly one case: the length
  field is \<^verbatim>\<open>0xFFFFFFFF\<close>, because \<^verbatim>\<open>length + 1\<close> is then zero for the check, and the terminating zero
  is looked for four gigabytes further on.
\<close>

theorem cpp_string_out_of_bounds_iff:
  assumes "des_ok msg d" "length msg = unat (ds_bufferSize d)" "align = 1 \<or> align = 4"
  shows "(StdString_get align msg d = None \<longleftrightarrow> at_des msg d (le_put 4 (- 1 :: u32))) \<and>
    (\<forall>str. at_des msg d (padded align (str_bytes str)) \<longrightarrow>
       StdString_get align msg d = Some (str, moved (length (padded align (str_bytes str))) d))"
  using string_outside_iff [OF assms(1,2)] gets_string [of align] assms(1,3) by (auto simp: gets_def)

theorem cpp_string_out_of_bounds_iff_witness:
  "StdString_get 4 [255, 255, 255, 255, 7] (Deserializer_construct 5) = None"
proof -
  have "des_ok [255, 255, 255, 255, 7] (Deserializer_construct 5)"
    "length [255, 255, 255, 255, 7 :: u8] = unat (ds_bufferSize (Deserializer_construct 5))"
    by (simp_all add: des_ok_def Deserializer_construct_def)
  from cpp_string_out_of_bounds_iff [OF this, of 4]
  have "StdString_get 4 [255, 255, 255, 255, 7] (Deserializer_construct 5) = None \<longleftrightarrow>
      at_des [255, 255, 255, 255, 7] (Deserializer_construct 5) (le_put 4 (- 1 :: u32))" by blast
  moreover have "at_des [255, 255, 255, 255, 7] (Deserializer_construct 5) (le_put 4 (- 1 :: u32))" by code_simp
  ultimately show ?thesis by blast
qed

end
