(* ===== verification/Wire_Formats.thy ===== *)
theory Wire_Formats
  imports Cpp_Strings Target_Stores
begin

text \<open>
  The two implementations of the wire format agree. The client (C) and the servers (C++) serialize
  the same types with separate code; a value that one side has serialized is read by the other.

  A \<^verbatim>\<open>std::map\<close> is serialized in the order of its keys, here a list of pairs with distinct keys; reading
  one assigns the values to the keys one after the other.
\<close>

section \<open>Pairs and maps\<close>

definition Serializer_putPair ::
    "('k \<Rightarrow> Serializer \<Rightarrow> Serializer) \<Rightarrow> ('v \<Rightarrow> Serializer \<Rightarrow> Serializer) \<Rightarrow> 'k \<times> 'v \<Rightarrow> Serializer \<Rightarrow> Serializer" where
  "Serializer_putPair putFirst putSecond pair this = putSecond (snd pair) (putFirst (fst pair) this)"

definition Serializer_putMap ::
    "bool \<Rightarrow> ('k \<Rightarrow> Serializer \<Rightarrow> Serializer) \<Rightarrow> ('v \<Rightarrow> Serializer \<Rightarrow> Serializer) \<Rightarrow> ('k \<times> 'v) list \<Rightarrow> Serializer \<Rightarrow> Serializer" where
  "Serializer_putMap hasLengthField putKey putValue =
     Serializer_putCollection hasLengthField (Serializer_putPair putKey putValue)"

primrec getMapItems :: "nat \<Rightarrow> 'k des \<Rightarrow> 'v des \<Rightarrow> ('k \<rightharpoonup> 'v) \<Rightarrow> ('k \<rightharpoonup> 'v) des" where
  "getMapItems 0 getKey getValue m buf this = Some (m, this)"
| "getMapItems (Suc n) getKey getValue m buf this = do {
     (key, this) \<leftarrow> getKey buf this;
     if \<not> Deserializer_good this then Some (m, this)
     else do {
       (v, this) \<leftarrow> getValue buf this;
       if \<not> Deserializer_good this then Some (m(key \<mapsto> v), this)
       else getMapItems n getKey getValue (m(key \<mapsto> v)) buf this
     }
   }"

definition Deserializer_getMap :: "bool \<Rightarrow> 'k des \<Rightarrow> 'v des \<Rightarrow> ('k \<rightharpoonup> 'v) \<Rightarrow> ('k \<rightharpoonup> 'v) des" where
  "Deserializer_getMap hasLengthField getKey getValue m buf this =
     (let offsetAtStart = ds_bufferOffset this
      in do {
        (totalLen, this) \<leftarrow> (if hasLengthField then Deserializer_getUInt32 buf this else Some (0, this));
        (n, this) \<leftarrow> Deserializer_getUInt32 buf this;
        if \<not> Deserializer_good this then Some (m, this)
        else do {
          (m, this) \<leftarrow> getMapItems (unat n) getKey getValue Map.empty buf this;
          if \<not> Deserializer_good this then Some (m, this)
          else if \<not> hasLengthField then Some (m, this)
          else if totalLen \<noteq> ds_bufferOffset this - offsetAtStart then Some (m, Deserializer_setBad this)
          else Some (m, this)
        }
      })"

lemma getMap_counted:
  "Deserializer_getMap False getKey getValue m buf this = do {
     (n, this) \<leftarrow> Deserializer_getUInt32 buf this;
     if \<not> Deserializer_good this then Some (m, this) else getMapItems (unat n) getKey getValue Map.empty buf this
   }"
  by (simp add: Deserializer_getMap_def case_prod_unfold cong: if_cong)

lemma puts_pair:
  "puts (putFirst (fst p)) xs \<Longrightarrow> puts (putSecond (snd p)) ys \<Longrightarrow> puts (Serializer_putPair putFirst putSecond p) (xs @ ys)"
  unfolding Serializer_putPair_def [abs_def] by (rule puts_comp)

lemma bounded_mapItems:
  assumes "bounded getKey" "bounded getValue"
  shows "bounded (getMapItems n getKey getValue m)"
proof (induction n arbitrary: m)
  case (Suc n)
  have "bounded (\<lambda>buf d. do { (v, d) \<leftarrow> getValue buf d;
      if \<not> Deserializer_good d then Some (m(key \<mapsto> v), d) else getMapItems n getKey getValue (m(key \<mapsto> v)) buf d })" for key
    by (intro bounded_bind [OF assms(2)] bounded_if_state bounded_return Suc)
  then show ?case unfolding getMapItems.simps [abs_def]
    by (intro bounded_bind [OF assms(1)] bounded_if_state bounded_return)
qed (simp add: bounded_def des_step_refl)

lemma gets_mapItems:
  assumes "\<And>k. gets getKey (encKey k) k" "\<And>v. gets getValue (encValue v) v"
  shows "gets (getMapItems (length xs) getKey getValue m) (concat (map (\<lambda>(k, v). encKey k @ encValue v) xs))
    (foldl (\<lambda>m p. m(fst p \<mapsto> snd p)) m xs)"
proof (induction xs arbitrary: m)
  case (Cons x xs)
  obtain k v where x: "x = (k, v)" by (cases x)
  let ?bs = "concat (map (\<lambda>(k, v). encKey k @ encValue v) xs)"
  have "gets (\<lambda>buf d. do { (v, d) \<leftarrow> getValue buf d;
      if \<not> Deserializer_good d then Some (m(k \<mapsto> v), d) else getMapItems (length xs) getKey getValue (m(k \<mapsto> v)) buf d })
      (encValue v @ ?bs) (foldl (\<lambda>m p. m(fst p \<mapsto> snd p)) (m(k \<mapsto> v)) xs)"
    by (rule gets_good [OF assms(2) Cons.IH])
  then have "gets (\<lambda>buf d. do { (key, d) \<leftarrow> getKey buf d;
      if \<not> Deserializer_good d then Some (m, d)
      else do { (v, d) \<leftarrow> getValue buf d;
        if \<not> Deserializer_good d then Some (m(key \<mapsto> v), d) else getMapItems (length xs) getKey getValue (m(key \<mapsto> v)) buf d } })
      (encKey k @ encValue v @ ?bs) (foldl (\<lambda>m p. m(fst p \<mapsto> snd p)) (m(k \<mapsto> v)) xs)"
    by (rule gets_good [OF assms(1)])
  then show ?case
    unfolding x by (simp only: length_Cons list.map concat.simps prod.case fst_conv snd_conv foldl.simps getMapItems.simps append_assoc cong: if_cong)
qed (simp add: gets_def)

lemma foldl_assign:
  "distinct (map fst xs) \<Longrightarrow> dom m \<inter> fst ` set xs = {} \<Longrightarrow> foldl (\<lambda>m p. m(fst p \<mapsto> snd p)) m xs = m ++ map_of xs"
proof (induction xs arbitrary: m)
  case (Cons x xs)
  obtain k v where x: "x = (k, v)" by (cases x)
  have "distinct (map fst xs)" "k \<notin> fst ` set xs" using Cons.prems(1) by (simp_all add: x)
  moreover from this have "dom (m(k \<mapsto> v)) \<inter> fst ` set xs = {}" using Cons.prems(2) by (simp add: x)
  ultimately have IH: "foldl (\<lambda>m p. m(fst p \<mapsto> snd p)) (m(k \<mapsto> v)) xs = m(k \<mapsto> v) ++ map_of xs"
    by (intro Cons.IH)
  have "k \<notin> dom (map_of xs)" using \<open>k \<notin> fst ` set xs\<close> by (simp add: dom_map_of_conv_image_fst)
  then have "m(k \<mapsto> v) ++ map_of xs = (m ++ map_of xs)(k \<mapsto> v)" by (rule map_add_upd_left)
  then show ?case unfolding x foldl.simps fst_conv snd_conv IH map_of.simps map_add_upd .
qed simp

lemma gets_map_of:
  assumes "\<And>k. gets getKey (encKey k) k" "\<And>v. gets getValue (encValue v) v" "distinct (map fst xs)" "length xs < 2 ^ 32"
  shows "gets (Deserializer_getMap False getKey getValue m) (counted_bytes (\<lambda>(k, v). encKey k @ encValue v) xs) (map_of xs)"
proof -
  have n: "unat (of_nat (length xs) :: u32) = length xs" using assms(4) by (simp add: unat_of_nat)
  have "gets (getMapItems (length xs) getKey getValue Map.empty) (concat (map (\<lambda>(k, v). encKey k @ encValue v) xs)) (map_of xs)"
    using gets_mapItems [OF assms(1,2), of xs Map.empty] foldl_assign [OF assms(3), of Map.empty] by simp
  then have "gets (getMapItems (unat (of_nat (length xs) :: u32)) getKey getValue Map.empty)
      (concat (map (\<lambda>(k, v). encKey k @ encValue v) xs)) (map_of xs)" by (simp add: n)
  then show ?thesis
    unfolding getMap_counted [abs_def] counted_bytes_def
    by (rule gets_good [OF cpp_u32.get_gets [OF TrueI], where g = "\<lambda>n. getMapItems (unat n) getKey getValue Map.empty"])
qed

section \<open>Both sides of a wire format\<close>

locale wire_format = client: codec ser des enc sendable + server: cpp_wire put get enc valid
  for ser :: "'a \<Rightarrow> SerializeCtx \<Rightarrow> SerializeCtx option" and des and put and get and enc and sendable and valid
begin

text \<open>What a server serialized, the client reads.\<close>

lemma server_to_client:
  assumes "valid v" "sendable v" "enc v \<noteq> []" "length (enc v) < 2 ^ 32"
    and "alloc (length (enc v)) = Some mem" "length mem = length (enc v)"
  shows "serializeIntoNewBuffer alloc put v = Some (enc v, of_nat (length (enc v))) \<and>
    des (enc v) \<lparr>dc_data = 0, dc_length = of_nat (length (enc v))\<rparr> = Ok (v, \<lparr>dc_data = length (enc v), dc_length = 0\<rparr>)"
proof -
  have "des (buf_write (enc v) 0 (enc v)) \<lparr>dc_data = 0, dc_length = of_nat (length (enc v) - 0)\<rparr> =
      Ok (v, advance (length (enc v)) \<lparr>dc_data = 0, dc_length = of_nat (length (enc v) - 0)\<rparr>)"
    using assms(2,4) by (intro client.read_back) simp_all
  then show ?thesis
    using server.new_buffer [where alloc = alloc, OF assms(1,3-6)] by (simp add: advance_def buf_write_def)
qed

text \<open>What the client serialized, a server reads.\<close>

lemma client_to_server:
  assumes "valid v" "sendable v" "enc v \<noteq> []" "length (enc v) < 2 ^ 32" "length mem = length (enc v)"
  shows "ser v \<lparr>sc_data = Some mem, sc_length = 0\<rparr> = Some \<lparr>sc_data = Some (enc v), sc_length = of_nat (length (enc v))\<rparr> \<and>
    get (enc v) (Deserializer_construct (of_nat (length (enc v)))) =
      Some (v, moved (length (enc v)) (Deserializer_construct (of_nat (length (enc v)))))"
proof
  show "ser v \<lparr>sc_data = Some mem, sc_length = 0\<rparr> = Some \<lparr>sc_data = Some (enc v), sc_length = of_nat (length (enc v))\<rparr>"
    using client.real_run [of v 0 mem] assms by (simp add: buf_write_def)
  show "get (enc v) (Deserializer_construct (of_nat (length (enc v)))) =
      Some (v, moved (length (enc v)) (Deserializer_construct (of_nat (length (enc v)))))"
    using server.read_back(1) [OF assms(1,3), of "[]"] assms(4) by simp
qed

end

interpretation string_wire: wire_format Serialization_serializeStr "viewed Serialization_deserializeStr"
  "RawStringSer 1" "StdString_get 1" str_bytes "\<lambda>str. length str < 2 ^ 32 - 1" "\<lambda>str. length str + 5 < 2 ^ 32" ..

interpretation strings_wire: wire_format Serialization_serializeStrCpyList
  "twoPass Serialization_deserializeStrCpyListPreprocess Serialization_deserializeStrCpyList"
  serializeStringCollection "deserializeStringCollection []" "sized_bytes (\<lambda>s. s @ [0])" strCpy_dom
  "\<lambda>xs. (\<forall>s \<in> set xs. 0 \<notin> set s \<and> length s < 2 ^ 63) \<and> length xs < 2 ^ 32" ..

interpretation uint16s_wire: wire_format "serializeSizedList Serialization_serializeUShort"
  "twoPass (listPreprocess (of_nat 2)) (rawListElems Serialization_deserializeUShort)"
  "Serializer_putCollection True Serializer_putUInt16" "Deserializer_getCollection True Deserializer_getUInt16 []"
  "sized_bytes (le_put 2)" "\<lambda>xs. (\<forall>x \<in> set xs. True) \<and> 8 + length xs * 2 < 2 ^ 32"
  "\<lambda>xs. (\<forall>x \<in> set xs. True) \<and> length xs < 2 ^ 32" ..

section \<open>Target mappings\<close>

abbreviation mapping_bytes :: "(u16 \<times> u32) list \<Rightarrow> bytes" where
  "mapping_bytes \<equiv> counted_bytes (\<lambda>(k, v). le_put 2 k @ le_put 4 v)"

lemma puts_mappings: "puts (Serializer_putMap False Serializer_putUInt16 Serializer_putUInt32 xs) (mapping_bytes xs)"
proof -
  have "puts (Serializer_putCollection False (Serializer_putPair Serializer_putUInt16 Serializer_putUInt32) xs)
      (collection_bytes False (\<lambda>(k, v). le_put 2 k @ le_put 4 v) xs)"
    by (rule puts_collection) (auto simp: puts_integral intro!: puts_pair)
  then show ?thesis by (simp add: Serializer_putMap_def collection_bytes_def)
qed

definition client_mapping :: "u16 \<times> u32 \<Rightarrow> TargetMapping" where
  "client_mapping p = \<lparr>tm_targetID = fst p, tm_nodeID = snd p\<rparr>"

lemma mapping_bytes_client: "mapping_bytes xs = counted_bytes TargetMapping_bytes (map client_mapping xs)"
  by (simp add: counted_bytes_def comp_def client_mapping_def TargetMapping_bytes_def case_prod_unfold)

lemma length_mapping_bytes: "length (mapping_bytes xs) = 4 + 6 * length xs"
  by (induction xs) (auto simp: counted_bytes_def)

lemma find_client_mapping:
  assumes "distinct (map fst xs)"
  shows "(case find (\<lambda>e. tm_targetID e = t) (rev (map client_mapping xs)) of Some e \<Rightarrow> tm_nodeID e | None \<Rightarrow> 0) =
    (case map_of xs t of Some n \<Rightarrow> n | None \<Rightarrow> 0)"
proof -
  have "find (\<lambda>e. tm_targetID e = t) (map client_mapping ys) = map_option (\<lambda>n. client_mapping (t, n)) (map_of ys t)" for ys
    by (induction ys) (auto simp: client_mapping_def)
  moreover have "map_of (rev xs) = map_of xs" using assms by (simp add: map_of_inject_set flip: rev_map)
  ultimately show ?thesis by (simp add: rev_map client_mapping_def split: option.split)
qed

section \<open>Properties\<close>

text \<open>
  C10. What a management server knows of the nodes of the targets arrives at a client and at the other
  servers: the map is serialized into exactly the bytes that were counted, the client reads the list
  of mappings and finds after the synchronisation for every target the node that the server has, and
  none for an unknown target; another server reads the same map without an error.
\<close>

theorem target_mappings_arrive:
  assumes "distinct (map fst xs)" "4 + 6 * length xs < 2 ^ 32"
    and "alloc (4 + 6 * length xs) = Some mem" "length mem = 4 + 6 * length xs"
  shows "\<exists>msg. serializeIntoNewBuffer alloc (Serializer_putMap False Serializer_putUInt16 Serializer_putUInt32) xs =
      Some (msg, of_nat (length msg)) \<and>
    (\<exists>mappings ctx. TargetMappingList_deserialize msg \<lparr>dc_data = 0, dc_length = of_nat (length msg)\<rparr> = Ok (mappings, ctx) \<and>
       dc_length ctx = 0 \<and>
       (\<forall>t. TargetMapper_getNodeID t (TargetMapper_syncTargets mappings mapper) = (case map_of xs t of Some n \<Rightarrow> n | None \<Rightarrow> 0))) \<and>
    (\<exists>d. Deserializer_getMap False Deserializer_getUInt16 Deserializer_getUInt32 old msg (Deserializer_construct (of_nat (length msg))) =
       Some (map_of xs, d) \<and> Deserializer_good d)"
proof (intro exI [of _ "mapping_bytes xs"] conjI)
  have ne: "mapping_bytes xs \<noteq> []" by (simp add: counted_bytes_def)
  note len = length_mapping_bytes [of xs]
  show "serializeIntoNewBuffer alloc (Serializer_putMap False Serializer_putUInt16 Serializer_putUInt32) xs =
      Some (mapping_bytes xs, of_nat (length (mapping_bytes xs)))"
    using assms by (intro new_buffer_puts puts_mappings ne) (simp_all only: len)
  have "TargetMappingList_deserialize (buf_write (mapping_bytes xs) 0 (counted_bytes TargetMapping_bytes (map client_mapping xs)))
      \<lparr>dc_data = 0, dc_length = of_nat (length (mapping_bytes xs) - 0)\<rparr> =
      Ok (map client_mapping xs, advance (length (counted_bytes TargetMapping_bytes (map client_mapping xs)))
        \<lparr>dc_data = 0, dc_length = of_nat (length (mapping_bytes xs) - 0)\<rparr>)"
    unfolding TargetMappingList_deserialize_def
    using assms(2) len by (intro targetMapping.counted.read_back) (simp_all flip: mapping_bytes_client)
  then show "\<exists>mappings ctx. TargetMappingList_deserialize (mapping_bytes xs) \<lparr>dc_data = 0, dc_length = of_nat (length (mapping_bytes xs))\<rparr> =
        Ok (mappings, ctx) \<and> dc_length ctx = 0 \<and>
      (\<forall>t. TargetMapper_getNodeID t (TargetMapper_syncTargets mappings mapper) = (case map_of xs t of Some n \<Rightarrow> n | None \<Rightarrow> 0))"
    using find_client_mapping [OF assms(1)]
    by (simp add: buf_write_def advance_def getNodeID_sync flip: mapping_bytes_client)
  have "gets (Deserializer_getMap False Deserializer_getUInt16 Deserializer_getUInt32 old) (mapping_bytes xs) (map_of xs)"
    using assms(1,2) by (intro gets_map_of cpp_u16.get_gets cpp_u32.get_gets TrueI) simp_all
  from gets_message [OF this ne, of "[]"]
  show "\<exists>d. Deserializer_getMap False Deserializer_getUInt16 Deserializer_getUInt32 old (mapping_bytes xs)
      (Deserializer_construct (of_nat (length (mapping_bytes xs)))) = Some (map_of xs, d) \<and> Deserializer_good d"
    using assms(2) len by simp
qed

theorem target_mappings_arrive_witness:
  "\<exists>msg mappings ctx. serializeIntoNewBuffer (\<lambda>n. Some (replicate n 0)) (Serializer_putMap False Serializer_putUInt16 Serializer_putUInt32)
       [(1, 7), (2, 9)] = Some (msg, of_nat (length msg)) \<and>
     TargetMappingList_deserialize msg \<lparr>dc_data = 0, dc_length = of_nat (length msg)\<rparr> = Ok (mappings, ctx) \<and>
     TargetMapper_getNodeID 2 (TargetMapper_syncTargets mappings TargetMapper_init) = 9 \<and>
     TargetMapper_getNodeID 3 (TargetMapper_syncTargets mappings TargetMapper_init) = 0"
proof -
  have "distinct (map fst [(1 :: u16, 7 :: u32), (2, 9)])" by simp
  from target_mappings_arrive [OF this, of "\<lambda>n. Some (replicate n 0)" "replicate 16 0" TargetMapper_init Map.empty]
  show ?thesis by fastforce
qed

end
