(* ===== verification/Server_Pattern_Messages.thy ===== *)
theory Server_Pattern_Messages
  imports Cpp_Strings Server_Patterns Striping_Messages
begin

text \<open>
  Stripe patterns between servers, tools and clients: serialization and deserialization of the C++
  classes (\<^verbatim>\<open>StripePatternHeader::serialize\<close>, \<^verbatim>\<open>StripePattern::deserialize\<close> and the
  \<^verbatim>\<open>serializeContent\<close> of the classes). The result \<^const>\<open>None\<close> of a reader is an access outside the message
  or through a null pointer; a pattern that is not there is the inner \<^const>\<open>None\<close>.
\<close>

section \<open>Operations\<close>

definition HasNoPoolFlag :: u32 where "HasNoPoolFlag = push_bit 24 1"

definition StripePatternHeader_forReading :: "bool \<Rightarrow> SrvPatternHeader" where
  "StripePatternHeader_forReading hasPoolId =
     \<lparr>vh_length = 0, vh_type = 0, vh_chunkSize = 0,
      vh_storagePoolId = (if hasPoolId then 0 else DEFAULT_POOL_ID), vh_hasPoolId = hasPoolId\<rparr>"

definition StripePatternHeader_put :: "SrvPatternHeader \<Rightarrow> Serializer \<Rightarrow> Serializer" where
  "StripePatternHeader_put obj ser =
     (let ser = Serializer_putUInt32 (vh_length obj) ser;
          typeWithFlags = vh_type obj OR (if vh_hasPoolId obj then 0 else HasNoPoolFlag);
          ser = Serializer_putUInt32 typeWithFlags ser;
          ser = Serializer_putUInt32 (vh_chunkSize obj) ser
      in if vh_hasPoolId obj then Serializer_putUInt16 (vh_storagePoolId obj) ser else ser)"

definition StripePatternHeader_get :: "SrvPatternHeader \<Rightarrow> SrvPatternHeader des" where
  "StripePatternHeader_get obj buf des = do {
     (len, des) \<leftarrow> Deserializer_getUInt32 buf des;
     (typeWithFlags, des) \<leftarrow> Deserializer_getUInt32 buf des;
     (chunkSize, des) \<leftarrow> Deserializer_getUInt32 buf des;
     (poolId, des) \<leftarrow> (if vh_hasPoolId obj \<and> typeWithFlags AND HasNoPoolFlag = 0
       then Deserializer_getUInt16 buf des else Some (vh_storagePoolId obj, des));
     Some (\<lparr>vh_length = len, vh_type = typeWithFlags AND NOT HasNoPoolFlag, vh_chunkSize = chunkSize,
            vh_storagePoolId = poolId, vh_hasPoolId = (vh_hasPoolId obj \<and> typeWithFlags AND HasNoPoolFlag = 0)\<rparr>, des)
   }"

definition UInt16Vector_put :: "u16 list \<Rightarrow> Serializer \<Rightarrow> Serializer" where
  "UInt16Vector_put = Serializer_putCollection True Serializer_putUInt16"

definition UInt16Vector_get :: "u16 list \<Rightarrow> u16 list des" where
  "UInt16Vector_get = Deserializer_getCollection True Deserializer_getUInt16"

fun serializeContent :: "SrvPattern \<Rightarrow> Serializer \<Rightarrow> Serializer" where
  "serializeContent (SrvRaid0 h ids d) ser = UInt16Vector_put ids (Serializer_putUInt32 d ser)"
| "serializeContent (SrvRaid10 h ids ms d) ser = UInt16Vector_put ms (UInt16Vector_put ids (Serializer_putUInt32 d ser))"
| "serializeContent (SrvBuddyMirror h ids d) ser = UInt16Vector_put ids (Serializer_putUInt32 d ser)"

fun deserializeContent :: "SrvPattern \<Rightarrow> SrvPattern des" where
  "deserializeContent (SrvRaid0 h ids d) buf des = do {
     (d, des) \<leftarrow> Deserializer_getUInt32 buf des;
     (ids, des) \<leftarrow> UInt16Vector_get ids buf des;
     Some (SrvRaid0 h ids d, des)
   }"
| "deserializeContent (SrvRaid10 h ids ms d) buf des = do {
     (d, des) \<leftarrow> Deserializer_getUInt32 buf des;
     (ids, des) \<leftarrow> UInt16Vector_get ids buf des;
     (ms, des) \<leftarrow> UInt16Vector_get ms buf des;
     Some (SrvRaid10 h ids ms d, des)
   }"
| "deserializeContent (SrvBuddyMirror h ids d) buf des = do {
     (d, des) \<leftarrow> Deserializer_getUInt32 buf des;
     (ids, des) \<leftarrow> UInt16Vector_get ids buf des;
     Some (SrvBuddyMirror h ids d, des)
   }"

definition SrvPattern_put :: "SrvPattern \<Rightarrow> Serializer \<Rightarrow> Serializer" where
  "SrvPattern_put pattern ser =
     (let lengthPos = ser; lengthAtStart = sr_bufferOffset ser;
          ser = StripePatternHeader_put (srv_header pattern) ser;
          ser = serializeContent pattern ser
      in at_mark lengthPos (Serializer_putUInt32 (sr_bufferOffset ser - lengthAtStart)) ser)"

definition newPattern :: "u32 \<Rightarrow> u32 \<Rightarrow> u16 option \<Rightarrow> SrvPattern option" where
  "newPattern type chunkSize poolId =
     (if type = STRIPEPATTERN_Raid0 then Some (SrvRaid0 (SrvPattern_header STRIPEPATTERN_Raid0 chunkSize poolId) [] 0)
      else if type = STRIPEPATTERN_Raid10 then Some (SrvRaid10 (SrvPattern_header STRIPEPATTERN_Raid10 chunkSize poolId) [] [] 0)
      else if type = STRIPEPATTERN_BuddyMirror
      then Some (SrvBuddyMirror (SrvPattern_header STRIPEPATTERN_BuddyMirror chunkSize poolId) [] 0)
      else None)"

definition SrvPattern_deserialize :: "bool \<Rightarrow> SrvPattern option des" where
  "SrvPattern_deserialize hasPoolId buf des = do {
     (header, des) \<leftarrow> StripePatternHeader_get (StripePatternHeader_forReading hasPoolId) buf des;
     if \<not> Deserializer_good des \<or> vh_chunkSize header = 0 then Some (None, Deserializer_setBad des)
     else if vh_type header = STRIPEPATTERN_Invalid then Some (None, Deserializer_setBad des)
     else do {
       pattern \<leftarrow> newPattern (vh_type header) (vh_chunkSize header)
         (if hasPoolId then Some (vh_storagePoolId header) else None);
       (pattern, des) \<leftarrow> deserializeContent pattern buf des;
       if \<not> Deserializer_good des then Some (None, Deserializer_setBad des) else Some (Some pattern, des)
     }
   }"

section \<open>The bytes of a pattern\<close>

lemma HasNoPoolFlag_client: "HasNoPoolFlag = HAS_NO_POOL_FLAG"
  by (simp add: HasNoPoolFlag_def HAS_NO_POOL_FLAG_def)

definition header_pool :: "SrvPatternHeader \<Rightarrow> u16 option" where
  "header_pool h = (if vh_hasPoolId h then Some (vh_storagePoolId h) else None)"

fun content_bytes :: "SrvPattern \<Rightarrow> bytes" where
  "content_bytes (SrvRaid0 h ids d) = le_put 4 d @ sized_bytes (le_put 2) ids"
| "content_bytes (SrvRaid10 h ids ms d) = le_put 4 d @ sized_bytes (le_put 2) ids @ sized_bytes (le_put 2) ms"
| "content_bytes (SrvBuddyMirror h ids d) = le_put 4 d @ sized_bytes (le_put 2) ids"

definition srv_length :: "SrvPattern \<Rightarrow> nat" where
  "srv_length p = (if vh_hasPoolId (srv_header p) then 14 else 12) + length (content_bytes p)"

definition srv_bytes :: "SrvPattern \<Rightarrow> bytes" where
  "srv_bytes p = header_bytes (of_nat (srv_length p)) (vh_type (srv_header p)) (vh_chunkSize (srv_header p))
     (header_pool (srv_header p)) @ content_bytes p"

lemma puts_header:
  "puts (StripePatternHeader_put h) (header_bytes (vh_length h) (vh_type h) (vh_chunkSize h) (header_pool h))"
proof -
  have "puts (\<lambda>s. Serializer_putUInt32 (vh_chunkSize h) (Serializer_putUInt32 (vh_type h OR (if vh_hasPoolId h then 0 else HasNoPoolFlag))
      (Serializer_putUInt32 (vh_length h) s)))
      (le_put 4 (vh_length h) @ le_put 4 (vh_type h OR (if vh_hasPoolId h then 0 else HasNoPoolFlag)) @ le_put 4 (vh_chunkSize h))"
    using puts_comp [OF puts_integral(3) puts_comp [OF puts_integral(3) puts_integral(3)]] by simp
  note fixed = this
  show ?thesis
  proof (cases "vh_hasPoolId h")
    case True
    from puts_comp [OF fixed puts_integral(2)] True show ?thesis
      by (simp add: StripePatternHeader_put_def [abs_def] Let_def header_bytes_def header_pool_def)
  next
    case False
    with fixed show ?thesis
      by (simp add: StripePatternHeader_put_def [abs_def] Let_def header_bytes_def header_pool_def HasNoPoolFlag_client)
  qed
qed

lemma puts_ids: "puts (UInt16Vector_put ids) (sized_bytes (le_put 2) ids)"
  using puts_collection [of ids Serializer_putUInt16 "le_put 2" True] puts_integral(2)
  by (simp add: UInt16Vector_put_def collection_bytes_def)

lemma puts_content: "puts (serializeContent p) (content_bytes p)"
  using puts_comp [OF puts_integral(3) puts_ids] puts_comp [OF puts_integral(3) puts_comp [OF puts_ids puts_ids]]
  by (cases p) (simp_all add: serializeContent.simps [abs_def])

lemma length_header_bytes [simp]: "length (header_bytes l t c pool) = (if pool = None then 12 else 14)"
  by (auto simp: header_bytes_def)

lemma length_srv_bytes: "length (srv_bytes p) = srv_length p"
  by (simp add: srv_bytes_def srv_length_def header_pool_def)

lemma puts_pattern: "puts (SrvPattern_put p) (srv_bytes p)"
proof -
  let ?h = "srv_header p"
  let ?bs = "header_bytes (vh_length ?h) (vh_type ?h) (vh_chunkSize ?h) (header_pool ?h) @ content_bytes p"
  have f: "puts (\<lambda>s. serializeContent p (StripePatternHeader_put ?h s)) ?bs" by (rule puts_comp [OF puts_header puts_content])
  have len: "length ?bs = srv_length p" by (simp add: srv_length_def header_pool_def)
  have ne: "?bs \<noteq> []" by (simp add: header_bytes_def)
  have "puts (\<lambda>s. at_mark s (Serializer_putUInt32 (of_nat (length ?bs))) (serializeContent p (StripePatternHeader_put ?h s)))
      (le_put 4 (of_nat (length ?bs) :: u32) @ drop (length (le_put 4 (of_nat (length ?bs) :: u32))) ?bs)"
    by (rule puts_mark [OF f puts_integral(3) ne]) simp
  moreover have "le_put 4 (of_nat (length ?bs) :: u32) @ drop (length (le_put 4 (of_nat (length ?bs) :: u32))) ?bs = srv_bytes p"
    unfolding len by (simp add: srv_bytes_def header_bytes_def)
  ultimately have "puts (\<lambda>s. at_mark s (Serializer_putUInt32 (of_nat (length ?bs))) (serializeContent p (StripePatternHeader_put ?h s)))
      (srv_bytes p)" by simp
  then show ?thesis
    by (rule puts_cong) (simp add: SrvPattern_put_def Let_def puts_offset [OF f])
qed

section \<open>Reading a pattern\<close>

lemma gets_header:
  assumes "type < 16" "hasPoolId \<or> pool = None"
  shows "gets (StripePatternHeader_get (StripePatternHeader_forReading hasPoolId)) (header_bytes len type chunkSize pool)
    \<lparr>vh_length = len, vh_type = type, vh_chunkSize = chunkSize,
     vh_storagePoolId = (case pool of Some v \<Rightarrow> v | None \<Rightarrow> if hasPoolId then 0 else DEFAULT_POOL_ID), vh_hasPoolId = (pool \<noteq> None)\<rparr>"
proof -
  let ?t = "type OR (if pool = None then HasNoPoolFlag else 0)"
  let ?obj = "StripePatternHeader_forReading hasPoolId"
  let ?h = "\<lambda>v. \<lparr>vh_length = len, vh_type = type, vh_chunkSize = chunkSize, vh_storagePoolId = v, vh_hasPoolId = (pool \<noteq> None)\<rparr>"
  have t: "?t AND NOT HasNoPoolFlag = type" "(hasPoolId \<and> ?t AND HasNoPoolFlag = 0) = (pool \<noteq> None)" "vh_hasPoolId ?obj = hasPoolId"
    using header_flag [OF assms(1)] assms(2) by (auto simp: HasNoPoolFlag_client StripePatternHeader_forReading_def)
  have pool: "gets (\<lambda>buf des. if vh_hasPoolId ?obj \<and> ?t AND HasNoPoolFlag = 0
        then Deserializer_getUInt16 buf des else Some (vh_storagePoolId ?obj, des))
      (case pool of Some v \<Rightarrow> le_put 2 v | None \<Rightarrow> []) (case pool of Some v \<Rightarrow> v | None \<Rightarrow> if hasPoolId then 0 else DEFAULT_POOL_ID)"
    unfolding t(2,3)
    by (cases pool) (simp_all add: gets_def StripePatternHeader_forReading_def cpp_u16.get_gets [unfolded gets_def])
  have last: "gets (\<lambda>buf des. do {
      (poolId, des) \<leftarrow> (if vh_hasPoolId ?obj \<and> ?t AND HasNoPoolFlag = 0 then Deserializer_getUInt16 buf des else Some (vh_storagePoolId ?obj, des));
      Some (\<lparr>vh_length = len, vh_type = ?t AND NOT HasNoPoolFlag, vh_chunkSize = chunkSize, vh_storagePoolId = poolId,
             vh_hasPoolId = (vh_hasPoolId ?obj \<and> ?t AND HasNoPoolFlag = 0)\<rparr>, des) })
      (case pool of Some v \<Rightarrow> le_put 2 v | None \<Rightarrow> []) (?h (case pool of Some v \<Rightarrow> v | None \<Rightarrow> if hasPoolId then 0 else DEFAULT_POOL_ID))"
    using gets_map [OF pool, where h = ?h] unfolding t .
  show ?thesis
    unfolding StripePatternHeader_get_def [abs_def] header_bytes_def HasNoPoolFlag_client [symmetric]
    by (intro gets_bind [OF cpp_u32.get_gets [OF TrueI]] last)
qed

lemma gets_ids: "length ids < 2 ^ 32 \<Longrightarrow> gets (UInt16Vector_get old) (sized_bytes (le_put 2) ids) ids"
  using gets_collection [of ids Deserializer_getUInt16 "le_put 2" True old] cpp_u16.get_gets
  by (simp add: UInt16Vector_get_def collection_bytes_def)

fun with_header :: "SrvPatternHeader \<Rightarrow> SrvPattern \<Rightarrow> SrvPattern" where
  "with_header h (SrvRaid0 _ ids d) = SrvRaid0 h ids d"
| "with_header h (SrvRaid10 _ ids ms d) = SrvRaid10 h ids ms d"
| "with_header h (SrvBuddyMirror _ ids d) = SrvBuddyMirror h ids d"

fun small_vectors :: "SrvPattern \<Rightarrow> bool" where
  "small_vectors (SrvRaid0 h ids d) \<longleftrightarrow> length ids < 2 ^ 32"
| "small_vectors (SrvRaid10 h ids ms d) \<longleftrightarrow> length ids < 2 ^ 32 \<and> length ms < 2 ^ 32"
| "small_vectors (SrvBuddyMirror h ids d) \<longleftrightarrow> length ids < 2 ^ 32"

definition received :: "bool \<Rightarrow> SrvPattern \<Rightarrow> SrvPattern" where
  "received hasPoolId p = with_header (SrvPattern_header (vh_type (srv_header p)) (vh_chunkSize (srv_header p))
     (if hasPoolId then Some (case header_pool (srv_header p) of Some v \<Rightarrow> v | None \<Rightarrow> 0) else None)) p"

lemmas type_defs = STRIPEPATTERN_Raid0_def STRIPEPATTERN_Raid10_def STRIPEPATTERN_BuddyMirror_def STRIPEPATTERN_Invalid_def

lemma gets_content:
  assumes "small_vectors p" "srv_typed p"
  shows "\<exists>q. newPattern (vh_type (srv_header p)) c pool = Some q \<and>
    gets (deserializeContent q) (content_bytes p) (with_header (SrvPattern_header (vh_type (srv_header p)) c pool) p)"
proof (cases p)
  case (SrvRaid0 h ids d)
  then show ?thesis using assms
    by (auto simp: newPattern_def deserializeContent.simps [abs_def]
        intro!: gets_bind [OF cpp_u32.get_gets [OF TrueI]] gets_map [OF gets_ids])
next
  case (SrvRaid10 h ids ms d)
  then show ?thesis using assms
    by (auto simp: newPattern_def deserializeContent.simps [abs_def] type_defs
        intro!: gets_bind [OF cpp_u32.get_gets [OF TrueI]] gets_bind [OF gets_ids] gets_map [OF gets_ids])
next
  case (SrvBuddyMirror h ids d)
  then show ?thesis using assms
    by (auto simp: newPattern_def deserializeContent.simps [abs_def] type_defs
        intro!: gets_bind [OF cpp_u32.get_gets [OF TrueI]] gets_map [OF gets_ids])
qed

lemma typed_small: "srv_typed p \<Longrightarrow> vh_type (srv_header p) < 16" "srv_typed p \<Longrightarrow> vh_type (srv_header p) \<noteq> STRIPEPATTERN_Invalid"
  by (cases p; simp add: type_defs)+

lemma gets_pattern:
  assumes "srv_typed p" "srv_getChunkSize p \<noteq> 0" "small_vectors p" "hasPoolId \<or> header_pool (srv_header p) = None"
  shows "gets (SrvPattern_deserialize hasPoolId) (srv_bytes p) (Some (received hasPoolId p))"
  unfolding gets_def
proof (intro allI impI)
  fix buf d assume ok: "des_ok buf d" and at: "at_des buf d (srv_bytes p)"
  let ?h = "srv_header p"
  let ?pool = "case header_pool ?h of Some v \<Rightarrow> v | None \<Rightarrow> if hasPoolId then 0 else DEFAULT_POOL_ID"
  let ?hb = "header_bytes (of_nat (srv_length p)) (vh_type ?h) (vh_chunkSize ?h) (header_pool ?h)"
  note at = at [unfolded srv_bytes_def]
  have hdr: "StripePatternHeader_get (StripePatternHeader_forReading hasPoolId) buf d =
      Some (\<lparr>vh_length = of_nat (srv_length p), vh_type = vh_type ?h, vh_chunkSize = vh_chunkSize ?h, vh_storagePoolId = ?pool,
              vh_hasPoolId = (header_pool ?h \<noteq> None)\<rparr>, moved (length ?hb) d)"
    using gets_header [OF typed_small(1) [OF assms(1)] assms(4)] ok at_des_append(1) [OF at] by (simp add: gets_def)
  have mid: "des_ok buf (moved (length ?hb) d)" "Deserializer_good (moved (length ?hb) d)"
    using at_des_moved(1,3) [OF ok at, of "length ?hb"] by simp_all
  obtain q where q: "newPattern (vh_type ?h) (vh_chunkSize ?h) (if hasPoolId then Some ?pool else None) = Some q"
    "gets (deserializeContent q) (content_bytes p)
       (with_header (SrvPattern_header (vh_type ?h) (vh_chunkSize ?h) (if hasPoolId then Some ?pool else None)) p)"
    using gets_content [OF assms(3,1)] by blast
  have rec: "with_header (SrvPattern_header (vh_type ?h) (vh_chunkSize ?h) (if hasPoolId then Some ?pool else None)) p = received hasPoolId p"
    by (simp add: received_def split: option.split)
  have content: "deserializeContent q buf (moved (length ?hb) d) =
      Some (received hasPoolId p, moved (length (content_bytes p)) (moved (length ?hb) d))"
    using q(2) mid(1) at_des_append(2) [OF at] unfolding rec by (simp add: gets_def)
  have "Deserializer_good (moved (length (?hb @ content_bytes p)) d)" by (rule at_des_moved(3) [OF ok at]) simp
  then show "SrvPattern_deserialize hasPoolId buf d = Some (Some (received hasPoolId p), moved (length (srv_bytes p)) d)"
    using assms(2) mid(2) typed_small(2) [OF assms(1)] q(1) content hdr
    by (cases hasPoolId) (simp_all add: SrvPattern_deserialize_def srv_getChunkSize_def srv_bytes_def del: length_header_bytes)
qed

section \<open>Reading a pattern on the client\<close>

lemma length_sized_ids [simp]: "length (sized_bytes (le_put 2) ids) = 8 + 2 * length (ids :: u16 list)"
proof -
  have "length (concat (map (le_put 2) ids)) = 2 * length ids" by (induction ids) simp_all
  then show ?thesis by (simp add: sized_bytes_def Let_def)
qed

lemma srv_length_small: "srv_length p < 2 ^ 32 \<Longrightarrow> small_vectors p"
  by (cases p) (simp_all add: srv_length_def)

definition client_ok :: "SrvPattern \<Rightarrow> bool" where
  "client_ok p \<longleftrightarrow> srv_ok p \<and> (srv_getMirrorTargetIDs p \<noteq> None \<longrightarrow>
     MathTk_isPowerOfTwo (srv_getChunkSize p) \<and> length (srv_getStripeTargetIDs p) * srv_chunk p < 2 ^ 32)"

lemma reads_client_content:
  assumes "srv_typed p" "srv_length p < 2 ^ 32"
  shows "\<exists>q. reads (createContent g \<lparr>ph_patternLength = len, ph_patternType = vh_type (srv_header p),
        ph_chunkSize = vh_chunkSize (srv_header p), ph_storagePoolId = pool\<rparr>) (content_bytes p) q \<and>
      pattern_ids q = srv_getStripeTargetIDs p \<and> pattern_chunk q = srv_chunk p \<and> (client_ok p \<longrightarrow> pattern_ok q)"
proof (cases p)
  case (SrvRaid0 h ids d)
  have "8 + length ids * 2 < 2 ^ 32" using assms(2) by (simp add: SrvRaid0 srv_length_def split: if_splits)
  from reads_last_field [where h = "\<lambda>p. Raid0 (p\<lparr>sp_storagePoolId := pool\<rparr>)", OF reads_raid0 [OF this]] show ?thesis
    using assms(1) by (auto simp: SrvRaid0 createContent_def [abs_def] fromChunkSize_defs srv_chunk_def srv_getChunkSize_def
        client_ok_def srv_ok_def raid0_ok_def intro!: exI)
next
  case (SrvRaid10 h ids ms d)
  have "8 + length ids * 2 < 2 ^ 32" "8 + length ms * 2 < 2 ^ 32"
    using assms(2) by (simp_all add: SrvRaid10 srv_length_def split: if_splits)
  note content = reads_last_field [where h = "\<lambda>p. Raid10 (p\<lparr>sp_storagePoolId := pool\<rparr>)", OF reads_raid10 [OF this]]
  have "unat (ucast (of_nat (length ids) * ucast (vh_chunkSize h) :: u64) :: u32) = length ids * unat (vh_chunkSize h)" if "client_ok p"
    using that by (simp add: stripeSetSize_mod client_ok_def SrvRaid10 srv_chunk_def srv_getChunkSize_def del: of_nat_mult)
  with content [of _ d] show ?thesis
    using assms(1) by (auto simp: SrvRaid10 createContent_def [abs_def] fromChunkSize_defs srv_chunk_def srv_getChunkSize_def
        client_ok_def srv_ok_def raid10_ok_def type_defs intro!: exI)
next
  case (SrvBuddyMirror h ids d)
  have "8 + length ids * 2 < 2 ^ 32" using assms(2) by (simp add: SrvBuddyMirror srv_length_def split: if_splits)
  from reads_last_field [where h = "\<lambda>p. BuddyMirror (p\<lparr>sp_storagePoolId := pool\<rparr>)", OF reads_buddyMirror [OF this]] show ?thesis
    using assms(1) by (auto simp: SrvBuddyMirror createContent_def [abs_def] fromChunkSize_defs srv_chunk_def srv_getChunkSize_def
        client_ok_def srv_ok_def buddy_ok_def type_defs intro!: exI)
qed

section \<open>Arbitrary messages\<close>

lemma bounded_header: "bounded (StripePatternHeader_get obj)"
  unfolding StripePatternHeader_get_def [abs_def]
  by (intro bounded_bind [OF cpp_u32.get_bounded] bounded_bind [OF bounded_if [OF cpp_u16.get_bounded bounded_return]] bounded_return)

lemma bounded_ids: "bounded (UInt16Vector_get old)"
  unfolding UInt16Vector_get_def by (rule bounded_collection [OF cpp_u16.get_bounded])

lemma bounded_content: "bounded (deserializeContent q)"
  by (cases q)
     (simp_all add: deserializeContent.simps [abs_def],
      (intro bounded_bind [OF cpp_u32.get_bounded] bounded_bind [OF bounded_ids] bounded_return)+)

lemma newPattern_None: "newPattern t c pool = None \<longleftrightarrow> t \<notin> {STRIPEPATTERN_Raid0, STRIPEPATTERN_Raid10, STRIPEPATTERN_BuddyMirror}"
  by (simp add: newPattern_def)

lemma deserialize_total:
  assumes ok: "des_ok buf d"
  obtains header d' where "StripePatternHeader_get (StripePatternHeader_forReading b) buf d = Some (header, d')" "des_step buf d d'"
    "SrvPattern_deserialize b buf d = None \<longleftrightarrow> Deserializer_good d' \<and> vh_chunkSize header \<noteq> 0 \<and>
       vh_type header \<notin> {STRIPEPATTERN_Invalid, STRIPEPATTERN_Raid0, STRIPEPATTERN_Raid10, STRIPEPATTERN_BuddyMirror}"
proof -
  obtain h d' where h: "StripePatternHeader_get (StripePatternHeader_forReading b) buf d = Some (h, d')" "des_step buf d d'"
    by (rule boundedE [OF bounded_header ok])
  define pool where "pool = (if b then Some (vh_storagePoolId h) else None)"
  have "SrvPattern_deserialize b buf d = None \<longleftrightarrow> Deserializer_good d' \<and> vh_chunkSize h \<noteq> 0 \<and> vh_type h \<noteq> STRIPEPATTERN_Invalid \<and>
      newPattern (vh_type h) (vh_chunkSize h) pool = None"
  proof (cases "newPattern (vh_type h) (vh_chunkSize h) pool")
    case (Some q)
    obtain p d'' where "deserializeContent q buf d' = Some (p, d'')"
      by (rule boundedE [OF bounded_content des_step_ok [OF h(2)]])
    with Some show ?thesis by (simp add: SrvPattern_deserialize_def h(1) flip: pool_def)
  qed (simp add: SrvPattern_deserialize_def h(1) flip: pool_def)
  then show thesis using that h unfolding newPattern_None by auto
qed

section \<open>Properties\<close>

text \<open>
  C30. A stripe pattern survives the way between servers: the pattern is serialized into exactly the
  bytes that were counted, and deserializing them gives its class, targets and sizes again. The
  storage pool arrives when the pattern has one; a pattern without a pool that is read where pools
  are expected comes out with the invalid pool 0 instead of the default pool.
\<close>

theorem server_pattern_round_trip:
  assumes "srv_typed p" "srv_getChunkSize p \<noteq> 0" "srv_length p < 2 ^ 32" "hasPoolId \<or> header_pool (srv_header p) = None"
    and "alloc (srv_length p) = Some mem" "length mem = srv_length p"
  shows "\<exists>msg d. serializeIntoNewBuffer alloc SrvPattern_put p = Some (msg, of_nat (srv_length p)) \<and>
    SrvPattern_deserialize hasPoolId msg (Deserializer_construct (of_nat (srv_length p))) = Some (Some (received hasPoolId p), d) \<and>
    Deserializer_good d \<and> srv_patternEquals (received hasPoolId p) p \<and>
    vh_type (srv_header (received hasPoolId p)) = vh_type (srv_header p) \<and> srv_getChunkSize (received hasPoolId p) = srv_getChunkSize p \<and>
    vh_storagePoolId (srv_header (received hasPoolId p)) =
      (case header_pool (srv_header p) of Some v \<Rightarrow> v | None \<Rightarrow> if hasPoolId then 0 else DEFAULT_POOL_ID)"
proof -
  note len = length_srv_bytes [of p]
  have ne: "srv_bytes p \<noteq> []" by (simp add: srv_bytes_def header_bytes_def)
  have "serializeIntoNewBuffer alloc SrvPattern_put p = Some (srv_bytes p, of_nat (length (srv_bytes p)))"
    using assms(3,5,6) by (intro new_buffer_puts puts_pattern ne) (simp_all add: len)
  moreover have g: "gets (SrvPattern_deserialize hasPoolId) (srv_bytes p) (Some (received hasPoolId p))"
    by (rule gets_pattern [OF assms(1,2) srv_length_small [OF assms(3)] assms(4)])
  have "length (srv_bytes p @ []) < 2 ^ 32" using assms(3) len by simp
  note gets_message [OF g ne this]
  moreover have "srv_patternEquals (received hasPoolId p) p" by (cases p) (simp_all add: received_def)
  ultimately show ?thesis
    using assms(2,4) len
    by (cases p) (auto simp: received_def srv_getChunkSize_def SrvPattern_header_def split: option.split)
qed

theorem server_pattern_round_trip_witness:
  "\<exists>msg d. serializeIntoNewBuffer (\<lambda>n. Some (replicate n 0)) SrvPattern_put (Raid10Pattern_construct 65536 [1] [2] 0 7) = Some (msg, 38) \<and>
     SrvPattern_deserialize True msg (Deserializer_construct 38) = Some (Some (Raid10Pattern_construct 65536 [1] [2] 0 7), d)"
proof -
  let ?p = "Raid10Pattern_construct 65536 [1] [2] 0 7"
  have p: "srv_typed ?p" "srv_getChunkSize ?p \<noteq> 0" "srv_length ?p = 38" "received True ?p = ?p"
    by (simp_all add: Raid10Pattern_construct_def SrvPattern_header_def srv_getChunkSize_def srv_length_def received_def header_pool_def)
  then have "srv_length ?p < 2 ^ 32" by simp
  from server_pattern_round_trip [OF p(1,2) this, of True "\<lambda>n. Some (replicate n 0)" "replicate 38 0"] show ?thesis
    using p(3,4) by auto
qed

lemma client_receives:
  assumes "srv_typed p" "srv_getChunkSize p \<noteq> 0" "srv_length p < 2 ^ 32"
    and "alloc (srv_length p) = Some mem" "length mem = srv_length p"
  shows "\<exists>msg q. serializeIntoNewBuffer alloc SrvPattern_put p = Some (msg, of_nat (srv_length p)) \<and>
    StripePattern_createFromBuf g msg 0 (of_nat (srv_length p)) = Ok q \<and>
    pattern_ids q = srv_getStripeTargetIDs p \<and> pattern_chunk q = srv_chunk p \<and>
    (client_ok p \<longrightarrow> pattern_ok q \<and> (\<forall>pos. unat pos < 2 ^ 63 \<longrightarrow> getStripeTargetID q pos = srv_getStripeTargetID p pos))"
proof -
  let ?h = "srv_header p" and ?n = "of_nat (srv_length p) :: u32"
  let ?hb = "header_bytes ?n (vh_type ?h) (vh_chunkSize ?h) (header_pool ?h)"
  let ?pool = "case header_pool ?h of Some v \<Rightarrow> v | None \<Rightarrow> g_poolId g"
  note len = length_srv_bytes [of p]
  have ne: "srv_bytes p \<noteq> []" by (simp add: srv_bytes_def header_bytes_def)
  have ser: "serializeIntoNewBuffer alloc SrvPattern_put p = Some (srv_bytes p, of_nat (length (srv_bytes p)))"
    using assms(3-5) by (intro new_buffer_puts puts_pattern ne) (simp_all add: len)
  have n: "unat ?n = srv_length p" using assms(3) by (simp add: unat_of_nat)
  have "STRIPEPATTERN_HEADER_LENGTH \<le> ?n" by (simp add: word_le_nat_alt n) (simp add: srv_length_def STRIPEPATTERN_HEADER_LENGTH_def)
  then have hdr: "reads (StripePattern_deserializeHeader g) ?hb
      \<lparr>ph_patternLength = ?n, ph_patternType = vh_type ?h, ph_chunkSize = vh_chunkSize ?h, ph_storagePoolId = ?pool\<rparr>"
    using assms(2) by (intro reads_header typed_small(1) [OF assms(1)]) (simp_all add: srv_getChunkSize_def)
  obtain q where q: "reads (createContent g \<lparr>ph_patternLength = ?n, ph_patternType = vh_type ?h, ph_chunkSize = vh_chunkSize ?h,
        ph_storagePoolId = ?pool\<rparr>) (content_bytes p) q"
      "pattern_ids q = srv_getStripeTargetIDs p" "pattern_chunk q = srv_chunk p" "client_ok p \<longrightarrow> pattern_ok q"
    using reads_client_content [OF assms(1,3)] by blast
  have "StripePattern_createFromBuf g (srv_bytes p) 0 ?n = Ok q"
    using len by (intro createFromBuf_reads [OF hdr q(1)]) (simp_all add: n srv_bytes_def)
  moreover have "getStripeTargetID q pos = srv_getStripeTargetID p pos" if "client_ok p" "unat pos < 2 ^ 63" for pos
    using striping.targetID_eq [of q pos] srv_striping.targetID_eq [of p pos] that q(2-4) by (simp add: client_ok_def)
  ultimately show ?thesis using ser q(2-4) len by auto
qed

text \<open>
  C11. Client and servers agree on where a file is stored: from the bytes of the stripe pattern of a
  server the client creates a pattern with the same targets and chunk size, and both compute the
  same target for every offset. For Raid10 the client needs a chunk size that is a power of two and a
  stripe set below \<^verbatim>\<open>2^32\<close> bytes.
\<close>

theorem pattern_reaches_client:
  assumes "srv_typed p" "srv_getChunkSize p \<noteq> 0" "srv_length p < 2 ^ 32"
    and "alloc (srv_length p) = Some mem" "length mem = srv_length p"
  shows "\<exists>msg q. serializeIntoNewBuffer alloc SrvPattern_put p = Some (msg, of_nat (srv_length p)) \<and>
    StripePattern_createFromBuf g msg 0 (of_nat (srv_length p)) = Ok q \<and>
    pattern_ids q = srv_getStripeTargetIDs p \<and> pattern_chunk q = srv_chunk p \<and>
    (client_ok p \<longrightarrow> pattern_ok q \<and> (\<forall>pos. unat pos < 2 ^ 63 \<longrightarrow> getStripeTargetID q pos = srv_getStripeTargetID p pos))"
  using assms by (rule client_receives)

theorem pattern_reaches_client_witness:
  "\<exists>q. StripePattern_createFromBuf \<lparr>g_uint = 3, g_poolId = 5\<rparr> (srv_bytes (Raid10Pattern_construct 65536 [11, 12, 13] [21, 22, 23] 0 1)) 0 46 = Ok q \<and>
     getStripeTargetID q 300000 = srv_getStripeTargetID (Raid10Pattern_construct 65536 [11, 12, 13] [21, 22, 23] 0 1) 300000"
proof -
  let ?g = "\<lparr>g_uint = 3, g_poolId = 5\<rparr>"
  let ?p = "Raid10Pattern_construct 65536 [11, 12, 13] [21, 22, 23] 0 1"
  have p: "srv_typed ?p" "srv_getChunkSize ?p \<noteq> 0" "srv_length ?p = 46" "client_ok ?p"
    by (simp_all add: Raid10Pattern_construct_def SrvPattern_header_def srv_getChunkSize_def srv_length_def client_ok_def srv_ok_def
        MathTk_isPowerOfTwo_def srv_chunk_def)
  then have "srv_length ?p < 2 ^ 32" by simp
  from pattern_reaches_client [OF p(1,2) this, of "\<lambda>n. Some (replicate n 0)" "replicate 46 0" ?g]
  obtain msg q where m: "serializeIntoNewBuffer (\<lambda>n. Some (replicate n 0)) SrvPattern_put ?p = Some (msg, 46)"
      "StripePattern_createFromBuf ?g msg 0 46 = Ok q" "\<forall>pos. unat pos < 2 ^ 63 \<longrightarrow> getStripeTargetID q pos = srv_getStripeTargetID ?p pos"
    using p(3,4) by auto
  have "length (srv_bytes ?p) = 46" using p(3) by (simp add: length_srv_bytes)
  then have "serializeIntoNewBuffer (\<lambda>n. Some (replicate n 0)) SrvPattern_put ?p = Some (srv_bytes ?p, of_nat (length (srv_bytes ?p)))"
    by (intro new_buffer_puts puts_pattern [of ?p]) (auto simp: srv_bytes_def header_bytes_def)
  with m show ?thesis by auto
qed

text \<open>
  C31. Deserializing a stripe pattern on a server never reads outside the message. It uses a null
  pointer in exactly one case: the header was read, has a chunk size, and a type number that is
  neither the invalid one nor that of a class.
\<close>

theorem pattern_null_iff:
  assumes "des_ok msg d"
  shows "\<exists>header d'. StripePatternHeader_get (StripePatternHeader_forReading hasPoolId) msg d = Some (header, d') \<and>
    (SrvPattern_deserialize hasPoolId msg d = None \<longleftrightarrow> Deserializer_good d' \<and> vh_chunkSize header \<noteq> 0 \<and>
       vh_type header \<notin> {STRIPEPATTERN_Invalid, STRIPEPATTERN_Raid0, STRIPEPATTERN_Raid10, STRIPEPATTERN_BuddyMirror})"
  by (rule deserialize_total [OF assms, of hasPoolId]) (intro exI conjI, assumption+)

theorem pattern_null_iff_witness:
  "SrvPattern_deserialize False [0, 0, 0, 0, 9, 0, 0, 0, 1, 0, 0, 0] (Deserializer_construct 12) = None"
proof -
  let ?msg = "[0, 0, 0, 0, 9, 0, 0, 0, 1, 0, 0, 0] :: bytes"
  have ok: "des_ok ?msg (Deserializer_construct 12)" by (simp add: des_ok_def Deserializer_construct_def)
  have "StripePatternHeader_get (StripePatternHeader_forReading False) ?msg (Deserializer_construct 12) =
      Some (\<lparr>vh_length = 0, vh_type = 9, vh_chunkSize = 1, vh_storagePoolId = 1, vh_hasPoolId = False\<rparr>,
            \<lparr>ds_bufferSize = 12, ds_bufferOffset = 12\<rparr>)" by code_simp
  with pattern_null_iff [OF ok, of False] show ?thesis by (auto simp: Deserializer_good_def type_defs)
qed

end
