(* ===== verification/Client_Rpc.thy ===== *)
theory Client_Rpc
  imports Buddy_Mapper
begin

text \<open>
  Requests of the client with retries (\<^verbatim>\<open>client_module/source/common/toolkit/MessagingTk.c\<close>): one
  communication with a server, the handling of control messages, and the loop that selects the
  primary of a buddy group, takes a sequence number for the request, waits for a usable target
  state, sends, and decides about the next attempt.

  What one pass of the loop finds outside (connection, memory, the message received, signals, the
  node store and the configuration) is the record \<^verbatim>\<open>surroundings\<close>; the passes of a call are a list of them. The
  sleeps between the passes are left out, and so are the log messages apart from the flag that is read
  again. The stores for the buddy groups and target states are those of the client; a pointer
  to a group is its identifier, and the group stays in the mapper during a call.
\<close>

section \<open>State\<close>

record MsgHeader =
  hd_hasSequenceNo :: bool
  hd_isSelectiveAck :: bool
  hd_msgSequence :: u64
  hd_msgSequenceDone :: u64

text \<open>
  The pointers to the stores of target states and buddy groups may be null. For a buddy group its store is used without
  a test.
\<close>

record RequestResponseNode =
  rr_isMirrorGroup :: bool
  rr_address :: u32
  rr_hasTargetStates :: bool
  rr_hasMirrorBuddies :: bool

record RequestResponseArgs =
  ra_nodeGiven :: bool
  ra_supportsSequenceNumbers :: bool
  ra_numRetries :: u32
  ra_allowStateSleep :: bool
  ra_kmalloc :: bool

text \<open>The defaults, and what the entry points set. \<^term>\<open>numRetries\<close> of the configuration is an argument.\<close>

definition RequestResponseArgs_prepare :: "bool \<Rightarrow> bool \<Rightarrow> RequestResponseArgs" where
  "RequestResponseArgs_prepare nodeGiven supportsSequenceNumbers =
     \<lparr>ra_nodeGiven = nodeGiven, ra_supportsSequenceNumbers = supportsSequenceNumbers, ra_numRetries = 1, ra_allowStateSleep = False,
      ra_kmalloc = False\<rparr>"

datatype 'r message = RespExpected 'r | RespAckNotify | RespGeneric int u64 | RespOther
datatype 'r recv = RecvFailed bool | Received "'r message"

record 'r surroundings =
  en_connected :: bool
  en_bufLargeEnough :: bool
  en_allocated :: bool
  en_sent :: bool
  en_recv :: "'r recv"
  en_recvSignal :: bool
  en_signal :: bool
  en_sleepSignal :: bool
  en_killed :: bool
  en_nodeKnown :: bool
  en_nodeActive :: bool
  en_retriesEnabled :: bool

text \<open>The variables of a call, and the stores of the client with the handle variables of all calls.\<close>

record 'r call =
  cl_header :: MsgHeader
  cl_group :: "u16 option"
  cl_wasIndirectCommErr :: bool
  cl_currentRetryNum :: u32
  cl_commErrLogged :: bool
  cl_outRespMsg :: "'r option"
  cl_waiting :: "u32 option"

record ClientStores =
  cs_mirrorBuddies :: MirrorBuddyGroupMapper
  cs_targetStates :: TargetStateStore
  cs_handles :: handles

abbreviation groupOf :: "u16 \<Rightarrow> ClientStores \<Rightarrow> MirrorBuddyGroup option" where
  "groupOf i stores \<equiv> rb_find bg_groupID i (mm_groups (cs_mirrorBuddies stores))"

definition setGroup :: "MirrorBuddyGroup \<Rightarrow> ClientStores \<Rightarrow> ClientStores" where
  "setGroup g stores = stores\<lparr>cs_mirrorBuddies := mm_update g (cs_mirrorBuddies stores)\<rparr>"

section \<open>One communication\<close>

definition GenericRespMsgCode_TRYAGAIN :: int where "GenericRespMsgCode_TRYAGAIN = 0"
definition GenericRespMsgCode_INDIRECTCOMMERR :: int where "GenericRespMsgCode_INDIRECTCOMMERR = 1"
definition GenericRespMsgCode_NEWSEQNOBASE :: int where "GenericRespMsgCode_NEWSEQNOBASE = 2"

definition MessagingTk_handleGenericResponse ::
    "int \<Rightarrow> u64 \<Rightarrow> u16 option \<Rightarrow> ClientStores \<Rightarrow> FhgfsOpsErr \<times> bool \<times> ClientStores" where
  "MessagingTk_handleGenericResponse controlCode msgSequence gid stores =
     (if controlCode = GenericRespMsgCode_TRYAGAIN then (FhgfsOpsErr_AGAIN, False, stores)
      else if controlCode = GenericRespMsgCode_INDIRECTCOMMERR then (FhgfsOpsErr_COMMUNICATION, True, stores)
      else if controlCode = GenericRespMsgCode_NEWSEQNOBASE then
        (case gid of
           Some i \<Rightarrow>
             (FhgfsOpsErr_COMMUNICATION, False,
              case groupOf i stores of Some g \<Rightarrow> setGroup (MirrorBuddyGroup_setSeqNoBase msgSequence g) stores | None \<Rightarrow> stores)
         | None \<Rightarrow> (FhgfsOpsErr_INTERNAL, False, stores))
      else (FhgfsOpsErr_INTERNAL, False, stores))"

definition MessagingTk_requestResponseWithRRArgsComm ::
    "'r surroundings \<Rightarrow> RequestResponseArgs \<Rightarrow> u16 option \<Rightarrow> 'r call \<Rightarrow> ClientStores \<Rightarrow> FhgfsOpsErr \<times> 'r call \<times> ClientStores" where
  "MessagingTk_requestResponseWithRRArgsComm env rrArgs gid call stores =
     (let call = call\<lparr>cl_outRespMsg := None\<rparr>
      in if \<not> en_connected env then (FhgfsOpsErr_COMMUNICATION, call, stores)
         else if \<not> ra_kmalloc rrArgs \<and> \<not> en_bufLargeEnough env then (FhgfsOpsErr_INTERNAL, call, stores)
         else if ra_kmalloc rrArgs \<and> \<not> en_allocated env then (FhgfsOpsErr_OUTOFMEM, call, stores)
         else if \<not> en_sent env then (FhgfsOpsErr_COMMUNICATION, call\<lparr>cl_commErrLogged := True\<rparr>, stores)
         else
           (case en_recv env of
              RecvFailed timedOut \<Rightarrow>
                (if \<not> cl_commErrLogged call \<and> \<not> en_recvSignal env \<and> timedOut then FhgfsOpsErr_COMMTIMEDOUT else FhgfsOpsErr_COMMUNICATION,
                 call, stores)
            | Received RespAckNotify \<Rightarrow> (FhgfsOpsErr_COMMUNICATION, call\<lparr>cl_wasIndirectCommErr := True\<rparr>, stores)
            | Received (RespGeneric controlCode msgSequence) \<Rightarrow>
                (let (retVal, wasIndirectCommErr, stores) = MessagingTk_handleGenericResponse controlCode msgSequence gid stores
                 in (retVal, call\<lparr>cl_wasIndirectCommErr := wasIndirectCommErr\<rparr>, stores))
            | Received RespOther \<Rightarrow> (FhgfsOpsErr_INTERNAL, call, stores)
            | Received (RespExpected r) \<Rightarrow> (FhgfsOpsErr_SUCCESS, call\<lparr>cl_outRespMsg := Some r\<rparr>, stores)))"

section \<open>The loop for nodes and buddy groups\<close>

text \<open>A part of a pass goes on with the selected node, ends the pass, or leaves the loop.\<close>

datatype progress = Proceed u32 | Again | Exit FhgfsOpsErr

fun numberAcquired :: "(u64 \<times> u64 \<times> bool) option \<Rightarrow> MsgHeader \<Rightarrow> MsgHeader" where
  "numberAcquired None header = header\<lparr>hd_msgSequence := 0\<rparr>"
| "numberAcquired (Some (seqNo, finishedSeqNo, isSelective)) header =
     header\<lparr>hd_msgSequence := seqNo, hd_msgSequenceDone := finishedSeqNo, hd_isSelectiveAck := hd_isSelectiveAck header \<or> isSelective\<rparr>"

definition selectNode ::
    "nat \<Rightarrow> RequestResponseNode \<Rightarrow> RequestResponseArgs \<Rightarrow> 'r call \<Rightarrow> ClientStores \<Rightarrow> progress \<times> 'r call \<times> ClientStores" where
  "selectNode handle rrNode rrArgs call stores =
     (if \<not> rr_isMirrorGroup rrNode then (Proceed (rr_address rrNode), call, stores)
      else
        let gid = ucast (rr_address rrNode) :: u16;
            nodeID = ucast (MirrorBuddyGroupMapper_getPrimaryTargetID gid (cs_mirrorBuddies stores)) :: u32
        in if nodeID = 0 then (Exit FhgfsOpsErr_UNKNOWNNODE, call, stores)
           else if \<not> ra_supportsSequenceNumbers rrArgs then (Proceed nodeID, call, stores)
           else
             let call = call\<lparr>cl_header := (cl_header call)\<lparr>hd_hasSequenceNo := True\<rparr>\<rparr>
             in if hd_msgSequence (cl_header call) \<noteq> 0 then (Proceed nodeID, call, stores)
                else
                  (case MirrorBuddyGroupMapper_acquireSequenceNumber gid handle (cs_mirrorBuddies stores) (cs_handles stores) of
                     NoGroup \<Rightarrow> (Exit FhgfsOpsErr_UNKNOWNNODE, call, stores)
                   | MapperAcquired number mapper hp \<Rightarrow>
                       (Proceed nodeID, call\<lparr>cl_header := numberAcquired number (cl_header call), cl_group := Some gid\<rparr>,
                        stores\<lparr>cs_mirrorBuddies := mapper, cs_handles := hp\<rparr>)
                   | MustWait mapper \<Rightarrow>
                       (Again, call\<lparr>cl_group := Some gid, cl_waiting := Some nodeID\<rparr>, stores\<lparr>cs_mirrorBuddies := mapper\<rparr>)))"

text \<open>While no slot is free the pass continues where it waits. The reference that was taken is dropped afterwards.\<close>

definition resumeWaiting ::
    "'r surroundings \<Rightarrow> nat \<Rightarrow> u32 \<Rightarrow> MirrorBuddyGroup \<Rightarrow> 'r call \<Rightarrow> ClientStores \<Rightarrow> progress \<times> 'r call \<times> ClientStores" where
  "resumeWaiting env handle nodeID buddyGroup call stores =
     (case acquireWaiting handle (en_killed env) buddyGroup (cs_handles stores) of
        StillWaiting \<Rightarrow> (Again, call, stores)
      | Interrupted g \<Rightarrow>
          (Exit FhgfsOpsErr_INTERRUPTED, call\<lparr>cl_waiting := None\<rparr>, case g of Some g \<Rightarrow> setGroup g stores | None \<Rightarrow> stores)
      | WaitDone number g hp \<Rightarrow>
          (Proceed nodeID, call\<lparr>cl_header := numberAcquired number (cl_header call), cl_waiting := None\<rparr>,
           (case g of Some g \<Rightarrow> setGroup g stores | None \<Rightarrow> stores)\<lparr>cs_handles := hp\<rparr>))"

definition checkState ::
    "'r surroundings \<Rightarrow> RequestResponseNode \<Rightarrow> RequestResponseArgs \<Rightarrow> u32 \<Rightarrow> 'r call \<Rightarrow> ClientStores \<Rightarrow> progress \<times> 'r call" where
  "checkState env rrNode rrArgs nodeID call stores =
     (let (getStateRes, state) = TargetStateStore_getState (ucast nodeID) (cs_targetStates stores)
      in if \<not> rr_hasTargetStates rrNode then (Proceed nodeID, call)
         else if \<not> getStateRes then
           if \<not> ra_allowStateSleep rrArgs then (Exit FhgfsOpsErr_COMMUNICATION, call)
           else if en_sleepSignal env then (Exit FhgfsOpsErr_INTERRUPTED, call)
           else (Again, call\<lparr>cl_currentRetryNum := 0\<rparr>)
         else if ct_reachabilityState state \<noteq> TargetReachabilityState_ONLINE \<or>
             rr_isMirrorGroup rrNode \<and> ct_consistencyState state \<noteq> TargetConsistencyState_GOOD then
           if ct_reachabilityState state = TargetReachabilityState_OFFLINE then (Exit FhgfsOpsErr_COMMUNICATION, call)
           else if \<not> ra_allowStateSleep rrArgs then (Exit FhgfsOpsErr_COMMUNICATION, call)
           else if \<not> rr_hasMirrorBuddies rrNode then (Proceed nodeID, call)
           else if en_sleepSignal env then (Exit FhgfsOpsErr_INTERRUPTED, call)
           else (Again, call\<lparr>cl_currentRetryNum := 0\<rparr>)
         else (Proceed nodeID, call))"

text \<open>The release of the number. The group is destroyed with its last reference, which cannot be that of the call while it is in the mapper.\<close>

definition releaseHandle :: "nat \<Rightarrow> 'r call \<Rightarrow> ClientStores \<Rightarrow> ClientStores" where
  "releaseHandle handle call stores =
     (case cl_group call of
        Some i \<Rightarrow>
          (case groupOf i stores of
             Some g \<Rightarrow>
               (let (released, hp) = MirrorBuddyGroup_releaseSequenceNumber handle g (cs_handles stores)
                in (case released of Some g \<Rightarrow> setGroup g stores | None \<Rightarrow> stores)\<lparr>cs_handles := hp\<rparr>)
           | None \<Rightarrow> stores)
      | None \<Rightarrow> stores)"

definition afterCommunication ::
    "'r surroundings \<Rightarrow> nat \<Rightarrow> RequestResponseArgs \<Rightarrow> FhgfsOpsErr \<Rightarrow> 'r call \<Rightarrow> ClientStores \<Rightarrow> progress \<times> 'r call \<times> ClientStores" where
  "afterCommunication env handle rrArgs commRes call stores =
     (if commRes = FhgfsOpsErr_SUCCESS then (Exit FhgfsOpsErr_SUCCESS, call, stores)
      else if en_signal env then (Exit FhgfsOpsErr_INTERRUPTED, call, stores)
      else if \<not> en_nodeActive env then (Exit FhgfsOpsErr_UNKNOWNNODE, call, stores)
      else if commRes = FhgfsOpsErr_WOULDBLOCK then (Exit FhgfsOpsErr_COMMUNICATION, call, stores)
      else if commRes = FhgfsOpsErr_AGAIN \<and> en_retriesEnabled env then (Again, call\<lparr>cl_currentRetryNum := 0\<rparr>, stores)
      else if commRes \<noteq> FhgfsOpsErr_COMMUNICATION \<and> commRes \<noteq> FhgfsOpsErr_COMMTIMEDOUT then (Exit commRes, call, stores)
      else if en_retriesEnabled env \<and> (ra_numRetries rrArgs = 0 \<or> cl_currentRetryNum call < ra_numRetries rrArgs) then
        let call = call\<lparr>cl_currentRetryNum := cl_currentRetryNum call + 1\<rparr>
        in if cl_wasIndirectCommErr call \<and> cs_handles stores handle \<noteq> None then
             let stores = releaseHandle handle call stores
             in (Again, call\<lparr>cl_header := (cl_header call)\<lparr>hd_msgSequence := 0\<rparr>, cl_wasIndirectCommErr := False\<rparr>,
                 stores\<lparr>cs_handles := (cs_handles stores)(handle := None)\<rparr>)
           else (Again, call, stores)
      else (Exit commRes, call, stores))"

text \<open>A pass up to the communication, and a whole pass.\<close>

definition selectOrResume ::
    "'r surroundings \<Rightarrow> nat \<Rightarrow> RequestResponseNode \<Rightarrow> RequestResponseArgs \<Rightarrow> 'r call \<Rightarrow> ClientStores \<Rightarrow> progress \<times> 'r call \<times> ClientStores" where
  "selectOrResume env handle rrNode rrArgs call stores =
     (case (cl_waiting call, Option.bind (cl_group call) (\<lambda>i. groupOf i stores)) of
        (Some nodeID, Some g) \<Rightarrow> resumeWaiting env handle nodeID g call stores
      | _ \<Rightarrow> selectNode handle rrNode rrArgs call stores)"

definition beforeCommunication ::
    "'r surroundings \<Rightarrow> nat \<Rightarrow> RequestResponseNode \<Rightarrow> RequestResponseArgs \<Rightarrow> 'r call \<Rightarrow> ClientStores \<Rightarrow> progress \<times> 'r call \<times> ClientStores" where
  "beforeCommunication env handle rrNode rrArgs call stores =
     (let (p, call, stores) = selectOrResume env handle rrNode rrArgs call stores
      in case p of
           Proceed nodeID \<Rightarrow>
             (case checkState env rrNode rrArgs nodeID call stores of
                (Proceed nodeID, call) \<Rightarrow>
                  if \<not> ra_nodeGiven rrArgs \<and> \<not> en_nodeKnown env then (Exit FhgfsOpsErr_UNKNOWNNODE, call, stores)
                  else (Proceed nodeID, call, stores)
              | (p, call) \<Rightarrow> (p, call, stores))
         | p \<Rightarrow> (p, call, stores))"

definition requestResponsePass ::
    "'r surroundings \<Rightarrow> nat \<Rightarrow> RequestResponseNode \<Rightarrow> RequestResponseArgs \<Rightarrow> 'r call \<Rightarrow> ClientStores \<Rightarrow> progress \<times> 'r call \<times> ClientStores" where
  "requestResponsePass env handle rrNode rrArgs call stores =
     (case beforeCommunication env handle rrNode rrArgs call stores of
        (Proceed nodeID, call, stores) \<Rightarrow>
          let (commRes, call, stores) = MessagingTk_requestResponseWithRRArgsComm env rrArgs (cl_group call) call stores
          in afterCommunication env handle rrArgs commRes call stores
      | other \<Rightarrow> other)"

fun retryLoop ::
    "nat \<Rightarrow> RequestResponseNode \<Rightarrow> RequestResponseArgs \<Rightarrow> 'r surroundings list \<Rightarrow> 'r call \<Rightarrow> ClientStores
       \<Rightarrow> (FhgfsOpsErr \<times> 'r call \<times> ClientStores) option" where
  "retryLoop handle rrNode rrArgs [] call stores = None"
| "retryLoop handle rrNode rrArgs (env # envs) call stores =
     (case requestResponsePass env handle rrNode rrArgs call stores of
        (Exit commRes, call, stores) \<Rightarrow>
          Some (commRes, call, if cs_handles stores handle \<noteq> None then releaseHandle handle call stores else stores)
      | (_, call, stores) \<Rightarrow> retryLoop handle rrNode rrArgs envs call stores)"

definition callStart :: "MsgHeader \<Rightarrow> 'r call" where
  "callStart header = \<lparr>cl_header = header, cl_group = None, cl_wasIndirectCommErr = False, cl_currentRetryNum = 0, cl_commErrLogged = False,
     cl_outRespMsg = None, cl_waiting = None\<rparr>"

definition MessagingTk_requestResponseNodeRetry ::
    "nat \<Rightarrow> RequestResponseNode \<Rightarrow> RequestResponseArgs \<Rightarrow> MsgHeader \<Rightarrow> 'r surroundings list \<Rightarrow> ClientStores
       \<Rightarrow> (FhgfsOpsErr \<times> 'r call \<times> ClientStores) option" where
  "MessagingTk_requestResponseNodeRetry handle rrNode rrArgs header envs stores =
     retryLoop handle rrNode rrArgs envs (callStart header) (stores\<lparr>cs_handles := (cs_handles stores)(handle := None)\<rparr>)"

definition MessagingTk_requestResponseNode ::
    "nat \<Rightarrow> RequestResponseNode \<Rightarrow> RequestResponseArgs \<Rightarrow> MsgHeader \<Rightarrow> 'r surroundings list \<Rightarrow> ClientStores
       \<Rightarrow> (FhgfsOpsErr \<times> 'r call \<times> ClientStores) option" where
  "MessagingTk_requestResponseNode handle rrNode rrArgs =
     MessagingTk_requestResponseNodeRetry handle rrNode (rrArgs\<lparr>ra_numRetries := 1, ra_allowStateSleep := False, ra_kmalloc := False\<rparr>)"

definition MessagingTk_requestResponseNodeRetryAutoIntr ::
    "u32 \<Rightarrow> nat \<Rightarrow> RequestResponseNode \<Rightarrow> RequestResponseArgs \<Rightarrow> MsgHeader \<Rightarrow> 'r surroundings list \<Rightarrow> ClientStores
       \<Rightarrow> (FhgfsOpsErr \<times> 'r call \<times> ClientStores) option" where
  "MessagingTk_requestResponseNodeRetryAutoIntr connNumCommRetries handle rrNode rrArgs =
     MessagingTk_requestResponseNodeRetry handle rrNode
       (rrArgs\<lparr>ra_numRetries := connNumCommRetries, ra_allowStateSleep := True, ra_kmalloc := False\<rparr>)"

section \<open>The loop for a given node\<close>

fun requestResponseWithRRArgsSock ::
    "RequestResponseArgs \<Rightarrow> 'r surroundings list \<Rightarrow> 'r call \<Rightarrow> ClientStores \<Rightarrow> (FhgfsOpsErr \<times> 'r call \<times> ClientStores) option" where
  "requestResponseWithRRArgsSock rrArgs [] call stores = None"
| "requestResponseWithRRArgsSock rrArgs (env # envs) call stores =
     (let (commRes, call, stores) = MessagingTk_requestResponseWithRRArgsComm env rrArgs None call stores
      in if commRes = FhgfsOpsErr_SUCCESS then Some (FhgfsOpsErr_SUCCESS, call, stores)
         else if en_signal env then Some (FhgfsOpsErr_INTERRUPTED, call, stores)
         else if \<not> en_nodeActive env then Some (FhgfsOpsErr_UNKNOWNNODE, call, stores)
         else if commRes = FhgfsOpsErr_WOULDBLOCK then Some (FhgfsOpsErr_COMMUNICATION, call, stores)
         else if commRes = FhgfsOpsErr_AGAIN \<and> en_retriesEnabled env then
           requestResponseWithRRArgsSock rrArgs envs (call\<lparr>cl_currentRetryNum := 0\<rparr>) stores
         else if commRes \<noteq> FhgfsOpsErr_COMMUNICATION then Some (commRes, call, stores)
         else if en_retriesEnabled env \<and> (ra_numRetries rrArgs = 0 \<or> cl_currentRetryNum call < ra_numRetries rrArgs) then
           requestResponseWithRRArgsSock rrArgs envs (call\<lparr>cl_currentRetryNum := cl_currentRetryNum call + 1\<rparr>) stores
         else Some (FhgfsOpsErr_COMMUNICATION, call, stores))"

definition MessagingTk_requestResponseWithRRArgs ::
    "RequestResponseArgs \<Rightarrow> MsgHeader \<Rightarrow> 'r surroundings list \<Rightarrow> ClientStores \<Rightarrow> (FhgfsOpsErr \<times> 'r call \<times> ClientStores) option" where
  "MessagingTk_requestResponseWithRRArgs rrArgs header envs stores = requestResponseWithRRArgsSock rrArgs envs (callStart header) stores"

text \<open>A given socket takes the place of one from the pool; whether there is one is part of the surroundings.\<close>

definition MessagingTk_requestResponseSock ::
    "bool \<Rightarrow> MsgHeader \<Rightarrow> 'r surroundings list \<Rightarrow> ClientStores \<Rightarrow> (FhgfsOpsErr \<times> 'r call \<times> ClientStores) option" where
  "MessagingTk_requestResponseSock supportsSequenceNumbers header envs stores =
     requestResponseWithRRArgsSock (RequestResponseArgs_prepare True supportsSequenceNumbers) envs (callStart header) stores"

definition MessagingTk_requestResponseKMalloc ::
    "bool \<Rightarrow> MsgHeader \<Rightarrow> 'r surroundings list \<Rightarrow> ClientStores \<Rightarrow> (FhgfsOpsErr \<times> 'r call \<times> ClientStores) option" where
  "MessagingTk_requestResponseKMalloc supportsSequenceNumbers =
     MessagingTk_requestResponseWithRRArgs ((RequestResponseArgs_prepare True supportsSequenceNumbers)\<lparr>ra_kmalloc := True\<rparr>)"

definition MessagingTk_requestResponseRetry ::
    "u32 \<Rightarrow> bool \<Rightarrow> MsgHeader \<Rightarrow> 'r surroundings list \<Rightarrow> ClientStores \<Rightarrow> (FhgfsOpsErr \<times> 'r call \<times> ClientStores) option" where
  "MessagingTk_requestResponseRetry connNumCommRetries supportsSequenceNumbers =
     MessagingTk_requestResponseWithRRArgs ((RequestResponseArgs_prepare True supportsSequenceNumbers)\<lparr>ra_numRetries := connNumCommRetries\<rparr>)"

text \<open>
  The length of a received message or an error. The arguments are the results of the two receives, with the number of bytes of the
  first one, and the length in the header.
\<close>

definition MessagingTk_recvMsgBuf :: "int \<Rightarrow> nat \<Rightarrow> nat \<Rightarrow> nat \<Rightarrow> int \<Rightarrow> int" where
  "MessagingTk_recvMsgBuf headerRes numReceived msgLength bufInLen payloadRes =
     (if headerRes \<le> 0 then headerRes
      else if msgLength \<le> numReceived then int msgLength
      else if bufInLen < msgLength then - 90
      else if payloadRes \<le> 0 then payloadRes
      else int msgLength)"

definition MessagingTk_getRetryWaitMS :: "u32 \<Rightarrow> int" where
  "MessagingTk_getRetryWaitMS currentNumRetry =
     (if currentNumRetry = 0 then 0 else if currentNumRetry \<le> 12 then 5000 else if currentNumRetry \<le> 24 then 20000 else 60000)"

end
