(* ===== verification/Client_Rpc_Results.thy ===== *)
theory Client_Rpc_Results
  imports Client_Rpc
begin

text \<open>
  Calls of the client give back their sequence numbers on every path and end after their retries.
\<close>

section \<open>Numbers of a call\<close>

lemma groupOf_id: "groupOf i stores = Some g \<Longrightarrow> bg_groupID g = i"
  by (auto simp: rb_find_def find_Some_iff)

lemma groupOf_update:
  assumes "rb_find bg_groupID i (mm_groups m) = Some g0" "bg_groupID g = i"
  shows "rb_find bg_groupID i (mm_groups (mm_update g m)) = Some g"
proof -
  have "find (\<lambda>e. bg_groupID e = i) gs = Some g0 \<Longrightarrow> find (\<lambda>e. bg_groupID e = i) (map (\<lambda>x. if bg_groupID x = bg_groupID g then g else x) gs) = Some g" for gs
    by (induction gs) (auto simp: assms(2) split: if_splits)
  then show ?thesis using assms(1) by (simp add: rb_find_def mm_update_def)
qed

lemma groupOf_setGroup [simp]: "groupOf i stores = Some g0 \<Longrightarrow> bg_groupID g = i \<Longrightarrow> groupOf i (setGroup g stores) = Some g"
  by (simp add: setGroup_def groupOf_update)

lemma setGroup_other [simp]: "cs_handles (setGroup g stores) = cs_handles stores" "cs_targetStates (setGroup g stores) = cs_targetStates stores"
  by (simp_all add: setGroup_def)

lemma acquired_group:
  assumes "MirrorBuddyGroup_acquireSequenceNumber h w k g hp = Acquired q a sel g' hp'"
  shows "bg_groupID g' = bg_groupID g" "hp' h \<noteq> None" "bg_refs g' = bg_refs g + 1" "bg_inFlightCapacity g' = bg_inFlightCapacity g"
  using assms by (auto simp: MirrorBuddyGroup_acquireSequenceNumber_def Let_def split: if_splits)

lemma released_group:
  assumes "MirrorBuddyGroup_releaseSequenceNumber h g hp = (Some g', hp')"
  shows "bg_groupID g' = bg_groupID g" "bg_inFlightCapacity g' = bg_inFlightCapacity g"
  using assms
  by (auto simp: MirrorBuddyGroup_releaseSequenceNumber_def MirrorBuddyGroup_put_def finishNumber_def Let_def split: if_splits prod.splits)

lemma acquire_NoBase:
  assumes "MirrorBuddyGroup_acquireSequenceNumber h w k g hp = NoBase g' hp'"
  shows "g' = g" "hp' = hp(h := None)"
  using assms by (auto simp: MirrorBuddyGroup_acquireSequenceNumber_def Let_def split: if_splits)

text \<open>The operations do not look at the reference count.\<close>

lemma acquire_refs:
  "MirrorBuddyGroup_acquireSequenceNumber h w k (g\<lparr>bg_refs := r\<rparr>) hp =
    (case MirrorBuddyGroup_acquireSequenceNumber h w k g hp of
       Acquired q a sel g' hp' \<Rightarrow> Acquired q a sel (g'\<lparr>bg_refs := r + 1\<rparr>) hp'
     | NoBase g' hp' \<Rightarrow> NoBase (g'\<lparr>bg_refs := r\<rparr>) hp'
     | other \<Rightarrow> other)"
  by (simp add: MirrorBuddyGroup_acquireSequenceNumber_def Let_def)

lemma unused_of_inFlight: "group_ok g hp \<Longrightarrow> \<forall>x \<in># inFlight g. bs_pSelf x \<noteq> h \<Longrightarrow> handle_unused h g"
  using in_inFlight [of g] by (fastforce simp: handle_unused_def group_ok_def)

lemma group_ok_unused: "group_ok g hp \<Longrightarrow> handle_unused h g \<Longrightarrow> group_ok g (hp(h := x))"
  by (auto simp: group_ok_def slots_ok_def handle_unused_def)

lemma inFlight_refs [simp]: "inFlight (g\<lparr>bg_refs := r\<rparr>) = inFlight g"
  by (simp add: inFlight_def)

text \<open>
  What holds between the passes: the call has no number and its handle is null, or its number is in flight with its handle, beside the
  numbers \<^term>\<open>F\<close> of the others. A call that waits for a slot has one more reference. The bound
  excludes that numbers wrap around.
\<close>

definition callOk :: "nat \<Rightarrow> u16 \<Rightarrow> nat \<Rightarrow> BuddySequenceNumber multiset \<Rightarrow> nat \<Rightarrow> 'r call \<Rightarrow> ClientStores \<Rightarrow> bool" where
  "callOk h gid cap F k call stores \<longleftrightarrow>
     cl_group call \<in> {None, Some gid} \<and> (cl_waiting call \<noteq> None \<longrightarrow> cl_group call = Some gid \<and> hd_msgSequence (cl_header call) = 0) \<and>
     (\<exists>g. groupOf gid stores = Some g \<and> unat (bg_sequence g) + k < 2 ^ 64 - 1 \<and> bg_inFlightCapacity g = cap \<and>
        group_ok (g\<lparr>bg_refs := bg_refs g - (if cl_waiting call = None then 0 else 1)\<rparr>) (cs_handles stores) \<and>
        (if hd_msgSequence (cl_header call) = 0 then cs_handles stores h = None \<and> inFlight g = F
         else cs_handles stores h \<noteq> None \<and> cl_group call = Some gid \<and>
           inFlight g = add_mset \<lparr>bs_pSelf = h, bs_value = hd_msgSequence (cl_header call)\<rparr> F))"

lemma acquired_ok:
  assumes "group_ok g hp" "\<forall>x \<in># F. bs_pSelf x \<noteq> h" "inFlight g = F" "unat (bg_sequence g) + Suc k < 2 ^ 64 - 1"
    and "MirrorBuddyGroup_acquireSequenceNumber h w kl g hp = Acquired q a sel g' hp'"
  shows "group_ok g' hp'" "q \<noteq> 0" "hp' h \<noteq> None" "inFlight g' = add_mset \<lparr>bs_pSelf = h, bs_value = q\<rparr> F"
    "unat (bg_sequence g') + k < 2 ^ 64 - 1" "bg_groupID g' = bg_groupID g" "bg_inFlightCapacity g' = bg_inFlightCapacity g"
proof -
  have "handle_unused h g" using unused_of_inFlight [OF assms(1)] assms(2,3) by simp
  note eff = acquire_effect [OF assms(1) this assms(5)]
  have "unat (bg_sequence g + 1) = unat (bg_sequence g) + 1"
    using assms(4) by (simp add: unat_word_ariths)
  then have seq: "unat q = unat (bg_sequence g) + 1" using eff(2) by simp
  then show "q \<noteq> 0" by auto
  show "group_ok g' hp'" "inFlight g' = add_mset \<lparr>bs_pSelf = h, bs_value = q\<rparr> F" using eff(1,4) assms(3) by simp_all
  show "unat (bg_sequence g') + k < 2 ^ 64 - 1" using seq eff(3) assms(4) by simp
  show "hp' h \<noteq> None" "bg_groupID g' = bg_groupID g" "bg_inFlightCapacity g' = bg_inFlightCapacity g" using acquired_group [OF assms(5)] by simp_all
qed

lemma callOk_mono: "callOk h gid cap F (Suc k) call stores \<Longrightarrow> callOk h gid cap F k call stores"
  by (auto simp: callOk_def)

lemma callOk_update [simp]:
  "callOk h gid cap F k (call\<lparr>cl_outRespMsg := r\<rparr>) stores = callOk h gid cap F k call stores"
  "callOk h gid cap F k (call\<lparr>cl_currentRetryNum := n\<rparr>) stores = callOk h gid cap F k call stores"
  "callOk h gid cap F k (call\<lparr>cl_commErrLogged := l\<rparr>) stores = callOk h gid cap F k call stores"
  "callOk h gid cap F k (call\<lparr>cl_wasIndirectCommErr := i\<rparr>) stores = callOk h gid cap F k call stores"
  "callOk h gid cap F k (call\<lparr>cl_header := (cl_header call)\<lparr>hd_hasSequenceNo := True\<rparr>\<rparr>) stores = callOk h gid cap F k call stores"
  by (simp_all add: callOk_def)

lemma mapperAcquire_ok:
  assumes ok: "callOk h gid cap F (Suc k) call stores" and idle: "cl_waiting call = None" "hd_msgSequence (cl_header call) = 0"
    and F: "\<forall>x \<in># F. bs_pSelf x \<noteq> h"
    and acq: "MirrorBuddyGroupMapper_acquireSequenceNumber gid h (cs_mirrorBuddies stores) (cs_handles stores) = r"
  shows "case r of NoGroup \<Rightarrow> False
    | MapperAcquired number mapper hp \<Rightarrow>
        callOk h gid cap F k (call\<lparr>cl_header := numberAcquired number (cl_header call), cl_group := Some gid\<rparr>) (stores\<lparr>cs_mirrorBuddies := mapper, cs_handles := hp\<rparr>)
    | MustWait mapper \<Rightarrow> callOk h gid cap F k (call\<lparr>cl_group := Some gid, cl_waiting := Some nodeID\<rparr>) (stores\<lparr>cs_mirrorBuddies := mapper\<rparr>)"
proof -
  obtain g where g: "groupOf gid stores = Some g" "unat (bg_sequence g) + Suc k < 2 ^ 64 - 1" "group_ok g (cs_handles stores)"
    "cs_handles stores h = None" "inFlight g = F" "bg_inFlightCapacity g = cap" using ok idle by (auto simp: callOk_def)
  note upd = groupOf_update [OF g(1)] and gid = groupOf_id [OF g(1)]
  show ?thesis
  proof (cases "MirrorBuddyGroup_acquireSequenceNumber h False False g (cs_handles stores)")
    case (Acquired q a sel g' hp')
    note n = acquired_ok [OF g(3) F g(5,2) Acquired]
    have "r = MapperAcquired (Some (q, a, sel)) (mm_update g' (cs_mirrorBuddies stores)) hp'"
      using acq Acquired g(1) by (simp add: MirrorBuddyGroupMapper_acquireSequenceNumber_def)
    then show ?thesis using n upd [of g'] gid idle g(6) by (simp add: callOk_def)
  next
    case (NoBase g' hp')
    note nb = acquire_NoBase [OF NoBase]
    have "hp' = cs_handles stores" using nb(2) g(4) by (simp add: fun_upd_idem)
    moreover have "r = MapperAcquired None (mm_update g' (cs_mirrorBuddies stores)) hp'"
      using acq NoBase g(1) by (simp add: MirrorBuddyGroupMapper_acquireSequenceNumber_def)
    ultimately show ?thesis using nb(1) upd [of g] gid idle g by (simp add: callOk_def)
  qed (use acq g upd [of "g\<lparr>bg_refs := bg_refs g + 1\<rparr>"] gid idle in \<open>auto simp: MirrorBuddyGroupMapper_acquireSequenceNumber_def callOk_def\<close>)
qed

lemma selectNode_ok:
  assumes ok: "callOk h gid cap F (Suc k) call stores" "cl_waiting call = None" and F: "\<forall>x \<in># F. bs_pSelf x \<noteq> h"
    and gid: "gid = ucast (rr_address rrNode)" and sel: "selectNode h rrNode rrArgs call stores = (p, call', stores')"
  shows "callOk h gid cap F k call' stores' \<and> (p \<noteq> Again \<longrightarrow> cl_waiting call' = None) \<and> cl_outRespMsg call' = cl_outRespMsg call"
proof -
  define c where "c = call\<lparr>cl_header := (cl_header call)\<lparr>hd_hasSequenceNo := True\<rparr>\<rparr>"
  let ?r = "MirrorBuddyGroupMapper_acquireSequenceNumber gid h (cs_mirrorBuddies stores) (cs_handles stores)"
  have c: "callOk h gid cap F (Suc k) c stores" "cl_waiting c = None" "cl_outRespMsg c = cl_outRespMsg call" using ok by (simp_all add: c_def)
  have acq: "hd_msgSequence (cl_header c) = 0 \<Longrightarrow> case ?r of NoGroup \<Rightarrow> False
    | MapperAcquired number mapper hp \<Rightarrow>
        callOk h gid cap F k (c\<lparr>cl_header := numberAcquired number (cl_header c), cl_group := Some gid\<rparr>) (stores\<lparr>cs_mirrorBuddies := mapper, cs_handles := hp\<rparr>)
    | MustWait mapper \<Rightarrow> callOk h gid cap F k (c\<lparr>cl_group := Some gid, cl_waiting := Some nodeID\<rparr>) (stores\<lparr>cs_mirrorBuddies := mapper\<rparr>)" for nodeID
    by (rule mapperAcquire_ok [OF c(1,2) _ F refl])
  show ?thesis
    using sel [unfolded selectNode_def Let_def, folded gid c_def] callOk_mono [OF ok(1)] ok(2) callOk_mono [OF c(1)] c(2,3) acq
    by (auto split: if_splits mapper_acquire.splits)
qed

lemma resumeWaiting_ok:
  assumes ok: "callOk h gid cap F (Suc k) call stores" "cl_waiting call = Some nodeID" and F: "\<forall>x \<in># F. bs_pSelf x \<noteq> h"
    and g: "groupOf gid stores = Some g" and res: "resumeWaiting env h nodeID g call stores = (p, call', stores')"
  shows "callOk h gid cap F k call' stores' \<and> (p \<noteq> Again \<longrightarrow> cl_waiting call' = None) \<and> cl_outRespMsg call' = cl_outRespMsg call"
proof -
  define g1 where "g1 = g\<lparr>bg_refs := bg_refs g - 1\<rparr>"
  have old: "unat (bg_sequence g1) + Suc k < 2 ^ 64 - 1" "group_ok g1 (cs_handles stores)" "cs_handles stores h = None" "inFlight g1 = F"
    "cl_group call = Some gid" "hd_msgSequence (cl_header call) = 0" "bg_inFlightCapacity g1 = cap" using ok g by (auto simp: callOk_def g1_def)
  have refs: "bg_refs g = bg_refs g1 + 1" "1 < bg_refs g" "g = g1\<lparr>bg_refs := bg_refs g\<rparr>"
    using old(2) by (auto simp: group_ok_def g1_def)
  then have put: "MirrorBuddyGroup_put g = Some g1" by (simp add: MirrorBuddyGroup_put_def g1_def)
  have gid: "bg_groupID g1 = gid" using groupOf_id [OF g] by (simp add: g1_def)
  show ?thesis
  proof (cases "MirrorBuddyGroup_acquireSequenceNumber h True (en_killed env) g1 (cs_handles stores)")
    case (Acquired q a sel g' hp')
    note n = acquired_ok [OF old(2) F old(4,1) Acquired]
    have "MirrorBuddyGroup_acquireSequenceNumber h True (en_killed env) g (cs_handles stores) = Acquired q a sel (g'\<lparr>bg_refs := bg_refs g + 1\<rparr>) hp'"
      by (subst refs(3)) (simp add: acquire_refs Acquired)
    moreover have "MirrorBuddyGroup_put (g'\<lparr>bg_refs := bg_refs g + 1\<rparr>) = Some g'"
      using refs(1) acquired_group(3) [OF Acquired] by (simp add: MirrorBuddyGroup_put_def)
    ultimately show ?thesis using res n old(5,7) groupOf_setGroup [OF g, of g'] gid by (auto simp: resumeWaiting_def acquireWaiting_def callOk_def)
  next
    case (NoBase g' hp')
    note nb = acquire_NoBase [OF NoBase]
    have "MirrorBuddyGroup_acquireSequenceNumber h True (en_killed env) g (cs_handles stores) = NoBase g (cs_handles stores)"
      by (subst refs(3)) (simp add: acquire_refs NoBase nb fun_upd_idem [of "cs_handles stores" h, OF old(3)], simp add: refs(3) [symmetric])
    then show ?thesis using res old groupOf_setGroup [OF g, of g1] gid put
      by (auto simp: resumeWaiting_def acquireWaiting_def callOk_def)
  next
    case Waiting
    then have "MirrorBuddyGroup_acquireSequenceNumber h True (en_killed env) g (cs_handles stores) = Waiting"
      by (subst refs(3)) (simp add: acquire_refs)
    then show ?thesis using res callOk_mono [OF ok(1)] by (auto simp: resumeWaiting_def acquireWaiting_def)
  next
    case (Failed e)
    then have "MirrorBuddyGroup_acquireSequenceNumber h True (en_killed env) g (cs_handles stores) = Failed e"
      by (subst refs(3)) (simp add: acquire_refs)
    then show ?thesis using res old groupOf_setGroup [OF g, of g1] gid put by (auto simp: resumeWaiting_def acquireWaiting_def callOk_def)
  qed
qed

lemma checkState_call:
  "checkState env rrNode rrArgs nodeID call stores = (p, call') \<Longrightarrow> \<exists>n. call' = call\<lparr>cl_currentRetryNum := n\<rparr>"
  unfolding checkState_def Let_def by (auto split: prod.splits if_splits intro: exI [of _ "cl_currentRetryNum call"])

lemma before_ok:
  assumes ok: "callOk h gid cap F (Suc k) call stores" and F: "\<forall>x \<in># F. bs_pSelf x \<noteq> h" and gid: "gid = ucast (rr_address rrNode)"
    and before: "beforeCommunication env h rrNode rrArgs call stores = (p, call', stores')"
  shows "callOk h gid cap F k call' stores' \<and> (p \<noteq> Again \<longrightarrow> cl_waiting call' = None) \<and> cl_outRespMsg call' = cl_outRespMsg call"
proof -
  obtain p1 c1 s1 where s: "selectOrResume env h rrNode rrArgs call stores = (p1, c1, s1)" by (metis prod_cases3)
  have 1: "callOk h gid cap F k c1 s1 \<and> (p1 \<noteq> Again \<longrightarrow> cl_waiting c1 = None) \<and> cl_outRespMsg c1 = cl_outRespMsg call"
  proof (cases "cl_waiting call")
    case None
    then show ?thesis using selectNode_ok [OF ok None F gid] s by (simp add: selectOrResume_def)
  next
    case (Some nodeID)
    then obtain g where g: "cl_group call = Some gid" "groupOf gid stores = Some g" using ok by (auto simp: callOk_def)
    then show ?thesis using resumeWaiting_ok [OF ok Some F g(2)] s Some by (simp add: selectOrResume_def)
  qed
  show ?thesis
  proof (cases p1)
    case (Proceed nodeID)
    obtain p2 c2 where c: "checkState env rrNode rrArgs nodeID c1 s1 = (p2, c2)" by force
    then obtain n where n: "c2 = c1\<lparr>cl_currentRetryNum := n\<rparr>" using checkState_call by blast
    have "call' = c2" "stores' = s1"
      using before c by (auto simp: beforeCommunication_def s Proceed split: progress.splits if_splits)
    then show ?thesis using 1 n Proceed by simp
  qed (use before 1 in \<open>auto simp: beforeCommunication_def s\<close>)
qed

lemma setSeqNoBase_ok:
  assumes "callOk h gid cap F k call stores" "cl_waiting call = None" "groupOf gid stores = Some g" "unat b + k < 2 ^ 64 - 1"
  shows "callOk h gid cap F k call (setGroup (MirrorBuddyGroup_setSeqNoBase b g) stores)"
proof -
  have "group_ok (MirrorBuddyGroup_setSeqNoBase b g) hp = group_ok g hp" "inFlight (MirrorBuddyGroup_setSeqNoBase b g) = inFlight g"
    "bg_groupID (MirrorBuddyGroup_setSeqNoBase b g) = bg_groupID g"
    "bg_inFlightCapacity (MirrorBuddyGroup_setSeqNoBase b g) = bg_inFlightCapacity g" for hp
    by (simp_all add: MirrorBuddyGroup_setSeqNoBase_def group_ok_def inFlight_def)
  moreover have "unat (bg_sequence (MirrorBuddyGroup_setSeqNoBase b g)) + k < 2 ^ 64 - 1"
    using assms by (auto simp: MirrorBuddyGroup_setSeqNoBase_def callOk_def)
  ultimately show ?thesis using assms groupOf_id [OF assms(3)] by (auto simp: callOk_def)
qed

text \<open>A base for the numbers that leaves room for this many more.\<close>

definition baseBelow :: "nat \<Rightarrow> 'r surroundings \<Rightarrow> bool" where
  "baseBelow k env \<longleftrightarrow> (case en_recv env of Received (RespGeneric c b) \<Rightarrow> unat b + k < 2 ^ 64 - 1 | _ \<Rightarrow> True)"

lemma comm_ok:
  assumes ok: "callOk h gid cap F k call stores" "cl_waiting call = None" and base: "baseBelow k env"
    and comm: "MessagingTk_requestResponseWithRRArgsComm env rrArgs (cl_group call) call stores = (res, call', stores')"
  shows "callOk h gid cap F k call' stores' \<and> cl_waiting call' = None \<and> (cl_outRespMsg call' \<noteq> None \<longleftrightarrow> res = FhgfsOpsErr_SUCCESS)"
proof -
  have gen: "callOk h gid cap F k call (snd (snd (MessagingTk_handleGenericResponse c b (cl_group call) stores))) \<and>
      fst (MessagingTk_handleGenericResponse c b (cl_group call) stores) \<noteq> FhgfsOpsErr_SUCCESS" if "en_recv env = Received (RespGeneric c b)" for c b
  proof (cases "cl_group call")
    case (Some i)
    obtain g where g: "groupOf gid stores = Some g" "i = gid" using ok(1) Some by (auto simp: callOk_def)
    have "unat b + k < 2 ^ 64 - 1" using base that by (simp add: baseBelow_def)
    from setSeqNoBase_ok [OF ok g(1) this] show ?thesis using ok(1) g Some by (simp add: MessagingTk_handleGenericResponse_def)
  qed (use ok in \<open>simp add: MessagingTk_handleGenericResponse_def\<close>)
  show ?thesis
  proof (cases "\<exists>c b. en_recv env = Received (RespGeneric c b)")
    case True
    then obtain c b where r: "en_recv env = Received (RespGeneric c b)" by blast
    obtain rv ind st where hg: "MessagingTk_handleGenericResponse c b (cl_group call) stores = (rv, ind, st)" by (metis prod_cases3)
    show ?thesis using comm gen [OF r] ok hg
      by (auto simp: MessagingTk_requestResponseWithRRArgsComm_def Let_def r split: if_splits)
  next
    case False
    then show ?thesis using comm ok
      by (auto simp: MessagingTk_requestResponseWithRRArgsComm_def Let_def split: if_splits recv.splits message.splits)
  qed
qed

lemma release_ok:
  assumes ok: "callOk h gid cap F k call stores" "cl_waiting call = None" "hd_msgSequence (cl_header call) \<noteq> 0" and F: "\<forall>x \<in># F. bs_pSelf x \<noteq> h"
  shows "\<exists>g. groupOf gid (releaseHandle h call stores) = Some g \<and> group_ok g (cs_handles (releaseHandle h call stores)) \<and> inFlight g = F \<and>
    handle_unused h g \<and> unat (bg_sequence g) + k < 2 ^ 64 - 1 \<and> bg_inFlightCapacity g = cap \<and>
    (\<exists>g0. groupOf gid stores = Some g0 \<and> bg_sequence g = bg_sequence g0 \<and> finished g = finished g0 @ [hd_msgSequence (cl_header call)])"
proof -
  let ?n = "hd_msgSequence (cl_header call)" and ?hp = "cs_handles stores"
  obtain g where g: "groupOf gid stores = Some g" "group_ok g ?hp" "cl_group call = Some gid"
    "inFlight g = add_mset \<lparr>bs_pSelf = h, bs_value = ?n\<rparr> F" "unat (bg_sequence g) + k < 2 ^ 64 - 1" "bg_inFlightCapacity g = cap" using ok by (auto simp: callOk_def)
  have "bg_inFlightSize g \<le> length (bg_seqNoInFlight g)" using g(2) by (simp add: group_ok_def)
  then obtain i where i: "i < bg_inFlightSize g" "bg_seqNoInFlight g ! i = \<lparr>bs_pSelf = h, bs_value = ?n\<rparr>"
    using in_inFlight [of g "\<lparr>bs_pSelf = h, bs_value = ?n\<rparr>"] g(4) by auto
  obtain g' hp' where rel: "MirrorBuddyGroup_releaseSequenceNumber h g ?hp = (Some g', hp')" "group_ok g' hp'"
    "inFlight g = add_mset (bg_seqNoInFlight g ! i) (inFlight g')" "bg_sequence g' = bg_sequence g"
    "finished g' = finished g @ [val (bg_seqNoInFlight g) i]"
  proof (rule release_effect [OF g(2) i(1), of h])
    show "h = bs_pSelf (bg_seqNoInFlight g ! i)" using i(2) by simp
  qed (rule that)
  have "inFlight g' = F" using rel(3) i(2) g(4) by simp
  moreover from this have "handle_unused h g'" using unused_of_inFlight [OF rel(2)] F by simp
  moreover have "bg_groupID g' = gid" "bg_inFlightCapacity g' = cap" using released_group [OF rel(1)] groupOf_id [OF g(1)] g(6) by simp_all
  ultimately show ?thesis using rel(1,2,4,5) i(2) g(1,3,5) groupOf_setGroup [OF g(1), of g'] by (simp add: releaseHandle_def)
qed

lemma afterCommunication_ok:
  assumes ok: "callOk h gid cap F k call stores" "cl_waiting call = None" and F: "\<forall>x \<in># F. bs_pSelf x \<noteq> h"
    and out: "cl_outRespMsg call \<noteq> None \<longleftrightarrow> res = FhgfsOpsErr_SUCCESS"
    and after: "afterCommunication env h rrArgs res call stores = (p, call', stores')"
  shows "callOk h gid cap F k call' stores' \<and> cl_waiting call' = None \<and> (\<exists>r. p = Exit r \<and> (cl_outRespMsg call' \<noteq> None \<longleftrightarrow> r = FhgfsOpsErr_SUCCESS) \<or> p = Again \<and> cl_outRespMsg call' = None)"
proof -
  define c where "c = call\<lparr>cl_currentRetryNum := cl_currentRetryNum call + 1\<rparr>"
  let ?s = "releaseHandle h c stores"
  have c: "callOk h gid cap F k c stores" "cl_waiting c = None" "cl_outRespMsg c = cl_outRespMsg call" using ok by (simp_all add: c_def)
  have fresh: "callOk h gid cap F k (c\<lparr>cl_header := (cl_header c)\<lparr>hd_msgSequence := 0\<rparr>, cl_wasIndirectCommErr := False\<rparr>)
      (?s\<lparr>cs_handles := (cs_handles ?s)(h := None)\<rparr>)" if "cs_handles stores h \<noteq> None"
  proof -
    have "hd_msgSequence (cl_header c) \<noteq> 0" using c(1) that by (auto simp: callOk_def)
    from release_ok [OF c(1,2) this F] obtain g where "groupOf gid ?s = Some g" "group_ok g (cs_handles ?s)" "inFlight g = F"
      "handle_unused h g" "unat (bg_sequence g) + k < 2 ^ 64 - 1" "bg_inFlightCapacity g = cap" by blast
    then show ?thesis using c(1,2) group_ok_unused [of g "cs_handles ?s" h None] by (auto simp: callOk_def)
  qed
  show ?thesis using after [unfolded afterCommunication_def Let_def, folded c_def] ok c out fresh by (auto split: if_splits)
qed

lemma before_exit: "beforeCommunication env h rrNode rrArgs call stores = (Exit r, call', stores') \<Longrightarrow> r \<noteq> FhgfsOpsErr_SUCCESS"
  unfolding beforeCommunication_def
  by (auto simp: selectOrResume_def selectNode_def resumeWaiting_def checkState_def Let_def
      split: prod.splits progress.splits option.splits if_splits mapper_acquire.splits mapper_wait.splits)

lemma pass_ok:
  assumes ok: "callOk h gid cap F (Suc k) call stores" "cl_outRespMsg call = None" and F: "\<forall>x \<in># F. bs_pSelf x \<noteq> h"
    and gid: "gid = ucast (rr_address rrNode)" and base: "baseBelow k env"
    and pass: "requestResponsePass env h rrNode rrArgs call stores = (p, call', stores')"
  shows "callOk h gid cap F k call' stores' \<and>
    (case p of Exit r \<Rightarrow> cl_waiting call' = None \<and> (cl_outRespMsg call' \<noteq> None \<longleftrightarrow> r = FhgfsOpsErr_SUCCESS) | Again \<Rightarrow> cl_outRespMsg call' = None | Proceed _ \<Rightarrow> False)"
proof -
  obtain p1 c1 s1 where b: "beforeCommunication env h rrNode rrArgs call stores = (p1, c1, s1)" by (metis prod_cases3)
  note 1 = before_ok [OF ok(1) F gid b]
  show ?thesis
  proof (cases p1)
    case (Proceed nodeID)
    obtain res c2 s2 where c: "MessagingTk_requestResponseWithRRArgsComm env rrArgs (cl_group c1) c1 s1 = (res, c2, s2)" by (metis prod_cases3)
    have "callOk h gid cap F k c1 s1" "cl_waiting c1 = None" using 1 Proceed by simp_all
    note 2 = comm_ok [OF this base c]
    have "afterCommunication env h rrArgs res c2 s2 = (p, call', stores')" using pass b c Proceed by (simp add: requestResponsePass_def)
    from afterCommunication_ok [OF conjunct1 [OF 2] _ F _ this] 2 show ?thesis by auto
  next
    case Again
    then show ?thesis using pass b 1 ok(2) by (auto simp: requestResponsePass_def)
  next
    case (Exit r)
    have "r \<noteq> FhgfsOpsErr_SUCCESS" using before_exit b Exit by blast
    then show ?thesis using pass b 1 ok(2) Exit by (auto simp: requestResponsePass_def)
  qed
qed

lemma retryLoop_ok:
  assumes "callOk h gid cap F (length envs) call stores" "cl_outRespMsg call = None" "\<forall>x \<in># F. bs_pSelf x \<noteq> h" "gid = ucast (rr_address rrNode)"
    and "list_all (baseBelow (length envs)) envs" "retryLoop h rrNode rrArgs envs call stores = Some (res, call', stores')"
  shows "(\<exists>g. groupOf gid stores' = Some g \<and> group_ok g (cs_handles stores') \<and> inFlight g = F) \<and>
    (cl_outRespMsg call' \<noteq> None \<longleftrightarrow> res = FhgfsOpsErr_SUCCESS)"
  using assms
proof (induction envs arbitrary: call stores)
  case (Cons env envs)
  obtain p c s where p: "requestResponsePass env h rrNode rrArgs call stores = (p, c, s)" by (metis prod_cases3)
  have base: "baseBelow (length envs) env" "list_all (baseBelow (length envs)) envs"
    using Cons.prems(5) by (auto simp: baseBelow_def list_all_iff split: recv.splits message.splits)
  note 1 = pass_ok [OF _ Cons.prems(2,3,4) base(1) p]
  show ?case
  proof (cases p)
    case (Exit r)
    have c: "callOk h gid cap F (length envs) c s" "cl_waiting c = None" "cl_outRespMsg c \<noteq> None \<longleftrightarrow> r = FhgfsOpsErr_SUCCESS"
      using 1 Cons.prems(1) Exit by simp_all
    have res: "res = r" "call' = c" "stores' = (if cs_handles s h \<noteq> None then releaseHandle h c s else s)"
      using Cons.prems(6) p Exit by simp_all
    show ?thesis
    proof (cases "cs_handles s h = None")
      case True
      then show ?thesis using c res by (auto simp: callOk_def split: if_splits)
    next
      case False
      then have "hd_msgSequence (cl_header c) \<noteq> 0" using c(1) by (auto simp: callOk_def)
      from release_ok [OF c(1,2) this Cons.prems(3)] show ?thesis using c(3) res False by auto
    qed
  next
    case Again
    have "callOk h gid cap F (length envs) c s" "cl_outRespMsg c = None" using 1 Cons.prems(1) Again by simp_all
    moreover have "retryLoop h rrNode rrArgs envs c s = Some (res, call', stores')" using Cons.prems(6) p Again by simp
    ultimately show ?thesis using Cons.IH Cons.prems(3,4) base(2) by blast
  next
    case (Proceed _)
    then show ?thesis using 1 Cons.prems(1) by auto
  qed
qed simp

section \<open>Number of passes\<close>

text \<open>The server that the call addresses is not in a state that the call waits for.\<close>

abbreviation primaryOf :: "u16 \<Rightarrow> ClientStores \<Rightarrow> u16" where
  "primaryOf i stores \<equiv> MirrorBuddyGroupMapper_getPrimaryTargetID i (cs_mirrorBuddies stores)"

definition addressee :: "RequestResponseNode \<Rightarrow> ClientStores \<Rightarrow> u32" where
  "addressee rrNode stores = (if rr_isMirrorGroup rrNode then ucast (primaryOf (ucast (rr_address rrNode)) stores) else rr_address rrNode)"

definition statesUsable :: "RequestResponseNode \<Rightarrow> RequestResponseArgs \<Rightarrow> ClientStores \<Rightarrow> bool" where
  "statesUsable rrNode rrArgs stores \<longleftrightarrow> \<not> ra_allowStateSleep rrArgs \<or>
     (case TargetStateStore_getState (ucast (addressee rrNode stores)) (cs_targetStates stores) of (found, state) \<Rightarrow>
        found \<and> (ct_reachabilityState state = TargetReachabilityState_OFFLINE \<or>
          ct_reachabilityState state = TargetReachabilityState_ONLINE \<and> (rr_isMirrorGroup rrNode \<longrightarrow> ct_consistencyState state = TargetConsistencyState_GOOD)))"

lemma checkState_usable:
  "statesUsable rrNode rrArgs stores \<Longrightarrow> nodeID = addressee rrNode stores \<Longrightarrow> checkState env rrNode rrArgs nodeID call stores = (p, call') \<Longrightarrow>
   p \<noteq> Again \<and> call' = call"
  by (auto simp: statesUsable_def checkState_def Let_def split: prod.splits if_splits)

lemma statesUsable_cong:
  "(\<And>j. primaryOf j stores' = primaryOf j stores) \<Longrightarrow> cs_targetStates stores' = cs_targetStates stores \<Longrightarrow>
   statesUsable rrNode rrArgs stores' = statesUsable rrNode rrArgs stores"
  by (simp add: statesUsable_def addressee_def)

text \<open>Sequence numbers do not change the primary of a group.\<close>

lemma primary_update:
  assumes "rb_find bg_groupID i (mm_groups m) = Some g0" "bg_groupID g = i" "bg_firstTargetID g = bg_firstTargetID g0"
  shows "MirrorBuddyGroupMapper_getPrimaryTargetID j (mm_update g m) = MirrorBuddyGroupMapper_getPrimaryTargetID j m"
proof (cases "j = i")
  case True
  then show ?thesis using groupOf_update [OF assms(1,2)] assms(1,3) by (simp add: MirrorBuddyGroupMapper_getPrimaryTargetID_def)
next
  case False
  have "find (\<lambda>e. bg_groupID e = j) (map (\<lambda>x. if bg_groupID x = bg_groupID g then g else x) gs) = find (\<lambda>e. bg_groupID e = j) gs" for gs
    using False assms(2) by (induction gs) auto
  then show ?thesis by (simp add: MirrorBuddyGroupMapper_getPrimaryTargetID_def rb_find_def mm_update_def)
qed

lemma primary_kept:
  "MirrorBuddyGroup_acquireSequenceNumber h w k g hp = Acquired q a sel g' hp' \<Longrightarrow> bg_firstTargetID g' = bg_firstTargetID g"
  "MirrorBuddyGroup_releaseSequenceNumber h g hp = (Some g', hp') \<Longrightarrow> bg_firstTargetID g' = bg_firstTargetID g"
  "bg_firstTargetID (MirrorBuddyGroup_setSeqNoBase n g) = bg_firstTargetID g"
  by (auto simp: MirrorBuddyGroup_acquireSequenceNumber_def MirrorBuddyGroup_releaseSequenceNumber_def MirrorBuddyGroup_put_def finishNumber_def
      MirrorBuddyGroup_setSeqNoBase_def Let_def split: if_splits prod.splits)

lemma primary_acquired:
  assumes "MirrorBuddyGroupMapper_acquireSequenceNumber i h m hp = MapperAcquired number m' hp'"
  shows "MirrorBuddyGroupMapper_getPrimaryTargetID j m' = MirrorBuddyGroupMapper_getPrimaryTargetID j m"
proof -
  obtain g where g: "rb_find bg_groupID i (mm_groups m) = Some g"
    using assms by (auto simp: MirrorBuddyGroupMapper_acquireSequenceNumber_def split: option.splits)
  have id: "bg_groupID g = i" using g by (auto simp: rb_find_def find_Some_iff)
  show ?thesis
  proof (cases "MirrorBuddyGroup_acquireSequenceNumber h False False g hp")
    case (Acquired q a sel g' hp'')
    have "MirrorBuddyGroupMapper_getPrimaryTargetID j (mm_update g' m) = MirrorBuddyGroupMapper_getPrimaryTargetID j m"
      using primary_update [OF g _ primary_kept(1) [OF Acquired]] acquired_group(1) [OF Acquired] id by simp
    then show ?thesis using assms g Acquired by (auto simp: MirrorBuddyGroupMapper_acquireSequenceNumber_def)
  next
    case (NoBase g' hp'')
    then show ?thesis using assms g primary_update [OF g id refl] acquire_NoBase(1) [OF NoBase]
      by (auto simp: MirrorBuddyGroupMapper_acquireSequenceNumber_def)
  qed (use assms g in \<open>simp_all add: MirrorBuddyGroupMapper_acquireSequenceNumber_def\<close>)
qed

lemma primary_setGroup:
  "groupOf i stores = Some g0 \<Longrightarrow> bg_groupID g = i \<Longrightarrow> bg_firstTargetID g = bg_firstTargetID g0 \<Longrightarrow> primaryOf j (setGroup g stores) = primaryOf j stores"
  by (simp add: setGroup_def primary_update)

lemma primary_released: "primaryOf j (releaseHandle h call stores) = primaryOf j stores"
proof (cases "Option.bind (cl_group call) (\<lambda>i. groupOf i stores)")
  case None
  then show ?thesis by (auto simp: releaseHandle_def split: option.split)
next
  case (Some g)
  then obtain i where i: "cl_group call = Some i" "groupOf i stores = Some g" by (auto simp: Option.bind_eq_Some_conv)
  obtain r hp where r: "MirrorBuddyGroup_releaseSequenceNumber h g (cs_handles stores) = (r, hp)" by (meson surj_pair)
  show ?thesis
  proof (cases r)
    case None
    then show ?thesis using r by (simp add: releaseHandle_def i)
  next
    case (Some g')
    note r' = r [unfolded Some]
    have "bg_groupID g' = i" using released_group(1) [OF r'] groupOf_id [OF i(2)] by simp
    from primary_setGroup [OF i(2) this primary_kept(2) [OF r']] show ?thesis by (simp add: releaseHandle_def i r')
  qed
qed

lemma acquire_free:
  assumes "0 < bg_slotsAvail g"
  shows "MirrorBuddyGroup_acquireSequenceNumber h w k g hp \<noteq> Waiting \<and> MirrorBuddyGroup_acquireSequenceNumber h w k g hp \<noteq> Failed e"
  using assms by (simp add: MirrorBuddyGroup_acquireSequenceNumber_def Let_def)

lemma selectNode_free:
  assumes ok: "callOk h gid cap F k call stores" "cl_waiting call = None" and free: "size F < cap" and gid: "gid = ucast (rr_address rrNode)"
    and sel: "selectNode h rrNode rrArgs call stores = (p, call', stores')"
  shows "p \<noteq> Again \<and> cl_currentRetryNum call' = cl_currentRetryNum call \<and> cs_targetStates stores' = cs_targetStates stores \<and>
    primaryOf j stores' = primaryOf j stores \<and> (\<forall>nodeID. p = Proceed nodeID \<longrightarrow> nodeID = addressee rrNode stores)"
proof -
  obtain g where g: "groupOf gid stores = Some g" "group_ok g (cs_handles stores)" "bg_inFlightCapacity g = cap"
    "hd_msgSequence (cl_header call) = 0 \<Longrightarrow> inFlight g = F" using ok by (auto simp: callOk_def split: if_splits)
  have "0 < bg_slotsAvail g" if "hd_msgSequence (cl_header call) = 0"
    using g(2,3) g(4) [OF that] free by (auto simp: group_ok_def inFlight_def)
  then have "MirrorBuddyGroupMapper_acquireSequenceNumber gid h (cs_mirrorBuddies stores) (cs_handles stores) \<noteq> MustWait m"
    if "hd_msgSequence (cl_header call) = 0" for m
    using that g(1) acquire_free [of g h False False "cs_handles stores"]
    by (simp add: MirrorBuddyGroupMapper_acquireSequenceNumber_def split: acquire_result.splits)
  then show ?thesis using sel by (auto simp: selectNode_def Let_def gid addressee_def primary_acquired split: if_splits mapper_acquire.splits)
qed

lemma setSeqNoBase_id: "bg_groupID (MirrorBuddyGroup_setSeqNoBase n g) = bg_groupID g"
  by (simp add: MirrorBuddyGroup_setSeqNoBase_def)

lemma comm_frame:
  assumes "MessagingTk_requestResponseWithRRArgsComm env rrArgs i call stores = (res, call', stores')"
  shows "cl_currentRetryNum call' = cl_currentRetryNum call \<and> cs_targetStates stores' = cs_targetStates stores \<and>
    primaryOf j stores' = primaryOf j stores \<and> (res = FhgfsOpsErr_AGAIN \<longrightarrow> (\<exists>b. en_recv env = Received (RespGeneric GenericRespMsgCode_TRYAGAIN b)))"
  using assms
  by (auto simp: MessagingTk_requestResponseWithRRArgsComm_def MessagingTk_handleGenericResponse_def Let_def primary_setGroup primary_kept(3) setSeqNoBase_id groupOf_id
      split: if_splits recv.splits message.splits option.splits)

lemma releaseHandle_states: "cs_targetStates (releaseHandle h call stores) = cs_targetStates stores"
  by (auto simp: releaseHandle_def split: option.splits prod.splits)

lemma after_counts:
  assumes "afterCommunication env h rrArgs res call stores = (Again, call', stores')" "\<not> (res = FhgfsOpsErr_AGAIN \<and> en_retriesEnabled env)"
    "ra_numRetries rrArgs \<noteq> 0"
  shows "cl_currentRetryNum call < ra_numRetries rrArgs \<and> cl_currentRetryNum call' = cl_currentRetryNum call + 1 \<and> cs_targetStates stores' = cs_targetStates stores \<and>
    primaryOf j stores' = primaryOf j stores"
  using assms by (auto simp: afterCommunication_def Let_def primary_released releaseHandle_states split: if_splits)

lemma pass_counts:
  assumes ok: "callOk h gid cap F (Suc k) call stores" "cl_waiting call = None" and F: "\<forall>x \<in># F. bs_pSelf x \<noteq> h" "size F < cap"
    and gid: "gid = ucast (rr_address rrNode)" and base: "baseBelow k env"
    and usable: "statesUsable rrNode rrArgs stores"
    and env: "\<forall>b. en_recv env \<noteq> Received (RespGeneric GenericRespMsgCode_TRYAGAIN b)" "ra_numRetries rrArgs \<noteq> 0"
    and pass: "requestResponsePass env h rrNode rrArgs call stores = (Again, call', stores')"
  shows "cl_waiting call' = None \<and> cl_currentRetryNum call < ra_numRetries rrArgs \<and> cl_currentRetryNum call' = cl_currentRetryNum call + 1 \<and>
    statesUsable rrNode rrArgs stores'"
proof -
  obtain p0 c0 s0 where s: "selectNode h rrNode rrArgs call stores = (p0, c0, s0)" by (metis prod_cases3)
  note 0 = selectNode_free [OF ok F(2) gid s]
  have sel: "selectOrResume env h rrNode rrArgs call stores = (p0, c0, s0)" using s ok(2) by (simp add: selectOrResume_def)
  obtain nodeID where p0: "p0 = Proceed nodeID" using pass sel 0 by (cases p0) (auto simp: requestResponsePass_def beforeCommunication_def)
  obtain p1 c1 where c: "checkState env rrNode rrArgs nodeID c0 s0 = (p1, c1)" by force
  have 1: "p1 \<noteq> Again" "c1 = c0" using checkState_usable [OF _ _ c] usable 0 p0 statesUsable_cong [of s0 stores] by (simp_all add: addressee_def)
  obtain n where b: "beforeCommunication env h rrNode rrArgs call stores = (Proceed n, c0, s0)"
    using pass sel p0 c 1 by (cases p1) (auto simp: requestResponsePass_def beforeCommunication_def split: if_splits)
  obtain res c2 s2 where comm: "MessagingTk_requestResponseWithRRArgsComm env rrArgs (cl_group c0) c0 s0 = (res, c2, s2)" by (metis prod_cases3)
  have after: "afterCommunication env h rrArgs res c2 s2 = (Again, call', stores')" using pass b comm by (simp add: requestResponsePass_def)
  have c0: "callOk h gid cap F k c0 s0" "cl_waiting c0 = None" using before_ok [OF ok(1) F(1) gid b] by simp_all
  note 2 = comm_ok [OF c0 base comm]
  have "cl_waiting call' = None" using afterCommunication_ok [OF conjunct1 [OF 2] _ F(1) _ after] 2 by simp
  moreover have "\<not> (res = FhgfsOpsErr_AGAIN \<and> en_retriesEnabled env)" using comm_frame [OF comm] env(1) by blast
  note 3 = after_counts [OF after this env(2)]
  moreover have "statesUsable rrNode rrArgs stores' = statesUsable rrNode rrArgs stores"
    using 0 comm_frame [OF comm] 3 by (intro statesUsable_cong) simp_all
  ultimately show ?thesis using 0 comm_frame [OF comm] 3 usable by simp
qed

lemma retryLoop_ends:
  assumes "callOk h gid cap F (length envs) call stores" "cl_waiting call = None" "cl_outRespMsg call = None" "\<forall>x \<in># F. bs_pSelf x \<noteq> h" "size F < cap"
    and "gid = ucast (rr_address rrNode)" "list_all (baseBelow (length envs)) envs" "statesUsable rrNode rrArgs stores"
    and "\<forall>env \<in> set envs. \<forall>b. en_recv env \<noteq> Received (RespGeneric GenericRespMsgCode_TRYAGAIN b)" "ra_numRetries rrArgs \<noteq> 0"
    and "unat (ra_numRetries rrArgs) < unat (cl_currentRetryNum call) + length envs" "cl_currentRetryNum call \<le> ra_numRetries rrArgs"
  shows "retryLoop h rrNode rrArgs envs call stores \<noteq> None"
  using assms
proof (induction envs arbitrary: call stores)
  case Nil
  then show ?case by (simp add: word_le_nat_alt)
next
  case (Cons env envs)
  obtain p c s where p: "requestResponsePass env h rrNode rrArgs call stores = (p, c, s)" by (metis prod_cases3)
  have base: "baseBelow (length envs) env" "list_all (baseBelow (length envs)) envs"
    using Cons.prems(7) by (auto simp: baseBelow_def list_all_iff split: recv.splits message.splits)
  have ok: "callOk h gid cap F (Suc (length envs)) call stores" using Cons.prems(1) by simp
  note 1 = pass_ok [OF ok Cons.prems(3,4,6) base(1) p]
  show ?case
  proof (cases p)
    case Again
    have env: "\<forall>b. en_recv env \<noteq> Received (RespGeneric GenericRespMsgCode_TRYAGAIN b)" using Cons.prems(9) by simp
    note 2 = pass_counts [OF ok Cons.prems(2,4,5,6) base(1) Cons.prems(8) env Cons.prems(10) p [unfolded Again]]
    have "unat (cl_currentRetryNum call) < unat (ra_numRetries rrArgs)" "unat (ra_numRetries rrArgs) < 2 ^ 32"
      using 2 unsigned_less [of "ra_numRetries rrArgs"] by (simp_all add: word_less_nat_alt)
    then have "unat (cl_currentRetryNum c) = unat (cl_currentRetryNum call) + 1" "cl_currentRetryNum c \<le> ra_numRetries rrArgs"
      using 2 by (simp_all add: unat_word_ariths word_le_nat_alt)
    moreover note 2
    ultimately have "retryLoop h rrNode rrArgs envs c s \<noteq> None"
      using Cons.IH [of c s] Cons.prems 1 2 base(2) Again by auto
    then show ?thesis using p Again by simp
  qed (use p 1 in auto)
qed

section \<open>Properties\<close>

text \<open>A call through group 1, whose primary is online: the connection fails, then the response is lost, then it arrives.\<close>

definition sampleStores :: ClientStores where
  "sampleStores = \<lparr>cs_mirrorBuddies = \<lparr>mm_groups = [ex_group]\<rparr>,
     cs_targetStates = TargetStateStore_syncStatesUnlocked
       [\<lparr>ts_targetID = 101, ts_reachabilityState = TargetReachabilityState_ONLINE, ts_consistencyState = TargetConsistencyState_GOOD\<rparr>] TargetStateStore_init,
     cs_handles = \<lambda>_. None\<rparr>"

definition sampleNode :: RequestResponseNode where
  "sampleNode = \<lparr>rr_isMirrorGroup = True, rr_address = 1, rr_hasTargetStates = True, rr_hasMirrorBuddies = True\<rparr>"

definition sampleHeader :: MsgHeader where
  "sampleHeader = \<lparr>hd_hasSequenceNo = False, hd_isSelectiveAck = False, hd_msgSequence = 0, hd_msgSequenceDone = 0\<rparr>"

definition sampleEnv :: "bool \<Rightarrow> nat recv \<Rightarrow> nat surroundings" where
  "sampleEnv connected r = \<lparr>en_connected = connected, en_bufLargeEnough = True, en_allocated = True, en_sent = True, en_recv = r,
     en_recvSignal = False, en_signal = False, en_sleepSignal = False, en_killed = False, en_nodeKnown = True, en_nodeActive = True,
     en_retriesEnabled = True\<rparr>"

definition sampleArgs :: RequestResponseArgs where
  "sampleArgs = (RequestResponseArgs_prepare False True)\<lparr>ra_numRetries := 2, ra_allowStateSleep := True\<rparr>"

definition sampleEnvs :: "nat surroundings list" where
  "sampleEnvs = [sampleEnv False (RecvFailed False), sampleEnv True (RecvFailed True), sampleEnv True (Received (RespExpected 5))]"

lemma ex_group_fields:
  "bg_groupID ex_group = 1" "bg_sequence ex_group = 1" "bg_inFlightSize ex_group = 0" "bg_slotsAvail ex_group = 8" "inFlight ex_group = {#}"
  by (simp_all add: ex_group_def MirrorBuddyGroup_setSeqNoBase_def MirrorBuddyGroup_constructFromTargetIDs_def inFlight_def)

lemma sampleStores_group:
  "groupOf (ucast (rr_address sampleNode)) sampleStores = Some ex_group" "group_ok ex_group (cs_handles sampleStores)" "handle_unused 0 ex_group"
  using reachable_ok [OF ex_group_reachable]
  by (simp_all add: sampleStores_def sampleNode_def rb_find_def ex_group_fields handle_unused_def)

lemma sampleEnvs_base: "list_all (baseBelow (length sampleEnvs)) sampleEnvs"
  by (simp add: sampleEnvs_def sampleEnv_def baseBelow_def)

lemma callStart_ok:
  assumes "groupOf gid stores = Some g" "group_ok g (cs_handles stores)" "handle_unused h g" "hd_msgSequence header = 0"
    and "unat (bg_sequence g) + k < 2 ^ 64 - 1"
  shows "callOk h gid (bg_inFlightCapacity g) (inFlight g) k (callStart header) (stores\<lparr>cs_handles := (cs_handles stores)(h := None)\<rparr>)"
    and "\<forall>x \<in># inFlight g. bs_pSelf x \<noteq> h"
proof -
  show "callOk h gid (bg_inFlightCapacity g) (inFlight g) k (callStart header) (stores\<lparr>cs_handles := (cs_handles stores)(h := None)\<rparr>)"
    using assms group_ok_unused [OF assms(2,3)] by (auto simp: callOk_def callStart_def)
  have "bg_inFlightSize g \<le> length (bg_seqNoInFlight g)" using assms(2) by (simp add: group_ok_def)
  then show "\<forall>x \<in># inFlight g. bs_pSelf x \<noteq> h" using assms(3) in_inFlight [of g] by (auto simp: handle_unused_def)
qed

text \<open>
  C17. A call of the client gives back what it takes: whatever happens in its passes (no connection, timeouts, control
  messages, unusable target states, signals, waiting for a slot), when it returns the buddy group is well formed and has exactly the numbers in
  flight that it had before; so no slot is lost. There is a response exactly if the call returns success.
\<close>

theorem rpc_releases_number:
  assumes "groupOf (ucast (rr_address rrNode)) stores = Some g" "group_ok g (cs_handles stores)" "handle_unused h g" "hd_msgSequence header = 0"
    and "unat (bg_sequence g) + length envs < 2 ^ 64 - 1" "list_all (baseBelow (length envs)) envs"
    and "MessagingTk_requestResponseNodeRetry h rrNode rrArgs header envs stores = Some (res, call, stores')"
  shows "\<exists>g'. groupOf (ucast (rr_address rrNode)) stores' = Some g' \<and> group_ok g' (cs_handles stores') \<and> inFlight g' = inFlight g \<and>
    (cl_outRespMsg call \<noteq> None \<longleftrightarrow> res = FhgfsOpsErr_SUCCESS)"
  using retryLoop_ok [OF callStart_ok(1) [OF assms(1-5)] _ callStart_ok(2) [OF assms(1-5)] refl assms(6)] assms(7)
  by (auto simp: MessagingTk_requestResponseNodeRetry_def callStart_def)

theorem rpc_releases_number_witness:
  "\<exists>call stores' g'. MessagingTk_requestResponseNodeRetry 0 sampleNode sampleArgs sampleHeader sampleEnvs sampleStores = Some (FhgfsOpsErr_SUCCESS, call, stores') \<and>
     cl_outRespMsg call = Some 5 \<and> hd_msgSequence (cl_header call) = 2 \<and> groupOf (ucast (rr_address sampleNode)) stores' = Some g' \<and> inFlight g' = {#}"
proof -
  have "case MessagingTk_requestResponseNodeRetry 0 sampleNode sampleArgs sampleHeader sampleEnvs sampleStores of
      None \<Rightarrow> False | Some (res, call, stores') \<Rightarrow> res = FhgfsOpsErr_SUCCESS \<and> cl_outRespMsg call = Some 5 \<and> hd_msgSequence (cl_header call) = 2" by code_simp
  then obtain call stores' where r: "MessagingTk_requestResponseNodeRetry 0 sampleNode sampleArgs sampleHeader sampleEnvs sampleStores = Some (FhgfsOpsErr_SUCCESS, call, stores')"
    "cl_outRespMsg call = Some 5" "hd_msgSequence (cl_header call) = 2" by (auto split: option.splits)
  have "hd_msgSequence sampleHeader = 0" "unat (bg_sequence ex_group) + length sampleEnvs < 2 ^ 64 - 1"
    by (simp_all add: sampleHeader_def ex_group_fields sampleEnvs_def)
  from rpc_releases_number [OF sampleStores_group this sampleEnvs_base r(1)] r show ?thesis by (auto simp: ex_group_fields)
qed

text \<open>
  C21. A call ends after its retries: with a free slot, a server in a state that is not waited for, and if it does not ask to come again, one more
  pass than the configured number of retries is enough for a result.
\<close>

theorem rpc_terminates:
  assumes "groupOf (ucast (rr_address rrNode)) stores = Some g" "group_ok g (cs_handles stores)" "handle_unused h g" "hd_msgSequence header = 0"
    and "unat (bg_sequence g) + length envs < 2 ^ 64 - 1" "list_all (baseBelow (length envs)) envs"
    and "0 < bg_slotsAvail g" "statesUsable rrNode rrArgs stores"
    and "\<forall>env \<in> set envs. \<forall>b. en_recv env \<noteq> Received (RespGeneric GenericRespMsgCode_TRYAGAIN b)"
    and "0 < ra_numRetries rrArgs" "unat (ra_numRetries rrArgs) < length envs"
  shows "\<exists>res call stores'. MessagingTk_requestResponseNodeRetry h rrNode rrArgs header envs stores = Some (res, call, stores')"
proof -
  have "size (inFlight g) < bg_inFlightCapacity g" using assms(2,7) by (auto simp: group_ok_def inFlight_def)
  moreover have "ra_numRetries rrArgs \<noteq> 0" using assms(10) by (simp add: word_gt_0)
  ultimately have "retryLoop h rrNode rrArgs envs (callStart header) (stores\<lparr>cs_handles := (cs_handles stores)(h := None)\<rparr>) \<noteq> None"
    by (intro retryLoop_ends [OF callStart_ok(1) [OF assms(1-5)] _ _ callStart_ok(2) [OF assms(1-5)] _ refl assms(6)])
       (use assms statesUsable_cong [of "stores\<lparr>cs_handles := (cs_handles stores)(h := None)\<rparr>" stores] in \<open>simp_all add: callStart_def\<close>)
  then show ?thesis by (auto simp: MessagingTk_requestResponseNodeRetry_def)
qed

theorem rpc_terminates_witness:
  "\<exists>res call stores'. MessagingTk_requestResponseNodeRetry 0 sampleNode sampleArgs sampleHeader sampleEnvs sampleStores = Some (res, call, stores')"
proof (rule rpc_terminates [OF sampleStores_group _ _ sampleEnvs_base])
  show "hd_msgSequence sampleHeader = 0" "unat (bg_sequence ex_group) + length sampleEnvs < 2 ^ 64 - 1" "0 < bg_slotsAvail ex_group"
    by (simp_all add: sampleHeader_def ex_group_fields sampleEnvs_def)
  show "\<forall>env \<in> set sampleEnvs. \<forall>b. en_recv env \<noteq> Received (RespGeneric GenericRespMsgCode_TRYAGAIN b)"
    by (simp add: sampleEnvs_def sampleEnv_def)
  show "statesUsable sampleNode sampleArgs sampleStores" by code_simp
qed (simp_all add: sampleArgs_def RequestResponseArgs_prepare_def sampleEnvs_def)

end
