(* ===== verification/Mirror_Sessions.thy ===== *)
theory Mirror_Sessions
  imports BG_Prelude
begin

text \<open>
  Sessions of the clients on a metadata server (\<^verbatim>\<open>meta/source/session/Session.h\<close> and
  \<^verbatim>\<open>SessionStore.cpp\<close>): the slots that keep the responses to numbered requests, and the store that
  keeps the sessions with their reference counts. A \<^verbatim>\<open>std::map\<close> is the list of its entries in the
  order of the keys. Slots are shared pointers: a slot is an index into the list of all slots that
  were ever allocated, so that a request can fill its slot after the map has dropped it. The open
  files of a session are a component of their own. Mutexes make every operation atomic.
\<close>

section \<open>Maps in the order of their keys\<close>

definition stdmap_ok :: "('k :: linorder \<times> 'v) list \<Rightarrow> bool" where
  "stdmap_ok m \<longleftrightarrow> sorted_wrt (<) (map fst m)"

definition stdmap_insert :: "'k :: linorder \<Rightarrow> 'v \<Rightarrow> ('k \<times> 'v) list \<Rightarrow> ('k \<times> 'v) list" where
  "stdmap_insert k v m =
     (case map_of m k of
        Some _ \<Rightarrow> m
      | None \<Rightarrow> takeWhile (\<lambda>e. fst e < k) m @ (k, v) # dropWhile (\<lambda>e. fst e < k) m)"

definition stdmap_erase :: "'k \<Rightarrow> ('k \<times> 'v) list \<Rightarrow> ('k \<times> 'v) list" where
  "stdmap_erase k m = filter (\<lambda>e. fst e \<noteq> k) m"

text \<open>Erases everything in front of the lower bound of a key.\<close>

definition stdmap_eraseBelow :: "'k :: linorder \<Rightarrow> ('k \<times> 'v) list \<Rightarrow> ('k \<times> 'v) list" where
  "stdmap_eraseBelow k m = dropWhile (\<lambda>e. fst e < k) m"

text \<open>The effect of changing a value through a pointer to it.\<close>

definition stdmap_update :: "'k \<Rightarrow> ('v \<Rightarrow> 'v) \<Rightarrow> ('k \<times> 'v) list \<Rightarrow> ('k \<times> 'v) list" where
  "stdmap_update k f m = map (\<lambda>e. if fst e = k then (k, f (snd e)) else e) m"

lemma stdmap_ok_Nil [simp]: "stdmap_ok []"
  by (simp add: stdmap_ok_def)

lemma stdmap_ok_Cons [simp]: "stdmap_ok (e # m) \<longleftrightarrow> (\<forall>x \<in> set m. fst e < fst x) \<and> stdmap_ok m"
  by (auto simp: stdmap_ok_def)

lemma stdmap_ok_distinct: "stdmap_ok m \<Longrightarrow> distinct (map fst m)"
  by (simp add: stdmap_ok_def strict_sorted_iff)

lemma map_of_update: "map_of (stdmap_update k f m) x = (if x = k then map_option f (map_of m k) else map_of m x)"
  by (induction m) (auto simp: stdmap_update_def)

lemma stdmap_update_keys [simp]: "map fst (stdmap_update k f m) = map fst m"
  by (induction m) (auto simp: stdmap_update_def)

lemma stdmap_ok_update [simp]: "stdmap_ok (stdmap_update k f m) = stdmap_ok m"
  by (simp add: stdmap_ok_def)

lemma map_of_erase: "map_of (stdmap_erase k m) x = (if x = k then None else map_of m x)"
  by (induction m) (auto simp: stdmap_erase_def)

lemma stdmap_ok_filter: "stdmap_ok m \<Longrightarrow> stdmap_ok (filter P m)"
  by (induction m) auto

lemma map_of_split: "map_of (takeWhile P m @ e # dropWhile P m) x =
    (case map_of (takeWhile P m) x of Some v \<Rightarrow> Some v | None \<Rightarrow> if x = fst e then Some (snd e) else map_of (dropWhile P m) x)"
  by (simp add: map_add_def split: option.split)

lemma map_of_insert: "map_of (stdmap_insert k v m) x = (if x = k \<and> map_of m k = None then Some v else map_of m x)"
proof (cases "map_of m k")
  case None
  have "map_of m x = (map_of (dropWhile (\<lambda>e. fst e < k) m) ++ map_of (takeWhile (\<lambda>e. fst e < k) m)) x"
    unfolding map_of_append [symmetric] takeWhile_dropWhile_id ..
  moreover have "map_of (takeWhile (\<lambda>e. fst e < k) m) k = None" by (induction m) auto
  ultimately show ?thesis
    using None by (auto simp: stdmap_insert_def map_add_def split: option.splits)
qed (auto simp: stdmap_insert_def)

lemma stdmap_ok_insert:
  assumes "stdmap_ok m"
  shows "stdmap_ok (stdmap_insert k v m)"
proof (cases "map_of m k")
  case None
  then have "k \<notin> fst ` set m" by (simp add: map_of_eq_None_iff)
  with assms have "stdmap_ok (takeWhile (\<lambda>e. fst e < k) m @ (k, v) # dropWhile (\<lambda>e. fst e < k) m)"
  proof (induction m)
    case (Cons e m)
    then show ?case by (cases "fst e < k") (force dest: set_takeWhileD set_dropWhileD)+
  qed simp
  then show ?thesis using None by (simp add: stdmap_insert_def)
qed (use assms in \<open>simp add: stdmap_insert_def\<close>)

lemma eraseBelow_filter: "stdmap_ok m \<Longrightarrow> stdmap_eraseBelow k m = filter (\<lambda>e. k \<le> fst e) m"
proof (induction m)
  case (Cons e m)
  then have "filter (\<lambda>x. k \<le> fst x) m = m" if "k \<le> fst e" using that by (force intro!: filter_True)
  with Cons show ?case by (auto simp: stdmap_eraseBelow_def not_less)
qed (simp add: stdmap_eraseBelow_def)

lemma map_of_filter_key: "map_of (filter (\<lambda>e. P (fst e)) m) x = (if P x then map_of m x else None)"
  by (induction m) auto

lemma map_of_eraseBelow:
  "stdmap_ok m \<Longrightarrow> map_of (stdmap_eraseBelow k m) x = (if k \<le> x then map_of m x else None)"
  by (simp add: eraseBelow_filter map_of_filter_key)

lemma stdmap_ok_last: "stdmap_ok m \<Longrightarrow> m \<noteq> [] \<Longrightarrow> map_of m x \<noteq> None \<Longrightarrow> x \<le> fst (last m)"
proof (induction m)
  case (Cons e m)
  then show ?case by (cases "m = []") (auto split: if_splits dest: less_imp_le last_in_set)
qed simp

section \<open>Response slots of a session\<close>

record 'r Session =
  ss_sessionID :: u32
  ss_mirrorProcessState :: "(u64 \<times> nat) list"
  ss_slots :: "'r option list"

definition Session_construct :: "u32 \<Rightarrow> 'r Session" where
  "Session_construct sessionID = \<lparr>ss_sessionID = sessionID, ss_mirrorProcessState = [], ss_slots = []\<rparr>"

text \<open>Inserting a new empty slot: the slot of the number, and whether it is the new one.\<close>

definition insertSlot :: "u64 \<Rightarrow> 'r Session \<Rightarrow> nat \<times> bool \<times> 'r Session" where
  "insertSlot thisSeqno this =
     (let newSlot = length (ss_slots this);
          this = this\<lparr>ss_slots := ss_slots this @ [None]\<rparr>
      in case map_of (ss_mirrorProcessState this) thisSeqno of
           Some slot \<Rightarrow> (slot, False, this)
         | None \<Rightarrow> (newSlot, True, this\<lparr>ss_mirrorProcessState := stdmap_insert thisSeqno newSlot (ss_mirrorProcessState this)\<rparr>))"

definition freeMirrorStateSlot :: "u64 \<Rightarrow> 'r Session \<Rightarrow> 'r Session" where
  "freeMirrorStateSlot seqNo this = this\<lparr>ss_mirrorProcessState := stdmap_erase seqNo (ss_mirrorProcessState this)\<rparr>"

definition acquireMirrorStateSlot :: "u64 \<Rightarrow> u64 \<Rightarrow> 'r Session \<Rightarrow> nat \<times> bool \<times> 'r Session" where
  "acquireMirrorStateSlot endSeqno thisSeqno this =
     insertSlot thisSeqno (this\<lparr>ss_mirrorProcessState := stdmap_eraseBelow (endSeqno + 1) (ss_mirrorProcessState this)\<rparr>)"

definition acquireMirrorStateSlotSelective :: "u64 \<Rightarrow> u64 \<Rightarrow> 'r Session \<Rightarrow> nat \<times> bool \<times> 'r Session" where
  "acquireMirrorStateSlotSelective finishedSeqno thisSeqno this =
     insertSlot thisSeqno (this\<lparr>ss_mirrorProcessState := stdmap_erase finishedSeqno (ss_mirrorProcessState this)\<rparr>)"

definition getSeqNoBase :: "'r Session \<Rightarrow> u64" where
  "getSeqNoBase this =
     (if ss_mirrorProcessState this \<noteq> [] then fst (last (ss_mirrorProcessState this)) + 1 else 1)"

definition dropEmptyStateSlots :: "'r Session \<Rightarrow> 'r Session" where
  "dropEmptyStateSlots this =
     this\<lparr>ss_mirrorProcessState := filter (\<lambda>(seqNo, slot). ss_slots this ! slot \<noteq> None) (ss_mirrorProcessState this)\<rparr>"

text \<open>
  A session is well formed if its map is in order and every number has an allocated slot of its own.
\<close>

definition session_ok :: "'r Session \<Rightarrow> bool" where
  "session_ok s \<longleftrightarrow> stdmap_ok (ss_mirrorProcessState s) \<and>
     (\<forall>n p. map_of (ss_mirrorProcessState s) n = Some p \<longrightarrow> p < length (ss_slots s)) \<and>
     (\<forall>n m p. map_of (ss_mirrorProcessState s) n = Some p \<longrightarrow> map_of (ss_mirrorProcessState s) m = Some p \<longrightarrow> n = m)"

text \<open>What is left of the map when the numbers with a property are acknowledged.\<close>

definition acked :: "bool \<Rightarrow> u64 \<Rightarrow> u64 \<Rightarrow> bool" where
  "acked selective done n \<longleftrightarrow> (if selective then n = done else n < done + 1)"

definition acquire :: "bool \<Rightarrow> u64 \<Rightarrow> u64 \<Rightarrow> 'r Session \<Rightarrow> nat \<times> bool \<times> 'r Session" where
  "acquire selective = (if selective then acquireMirrorStateSlotSelective else acquireMirrorStateSlot)"

lemma session_ok_construct: "session_ok (Session_construct i)"
  by (simp add: session_ok_def Session_construct_def)

lemma slot_acquired:
  fixes s :: "'r Session"
  assumes "session_ok s" "acquire sel done n s = (slot, isNew, s')"
  defines "old \<equiv> \<lambda>m. if acked sel done m then None else map_of (ss_mirrorProcessState s) m"
  shows "isNew \<longleftrightarrow> old n = None" "\<not> isNew \<Longrightarrow> old n = Some slot"
    "map_of (ss_mirrorProcessState s') = old(n \<mapsto> slot)" "ss_slots s' = ss_slots s @ [None]"
    "isNew \<Longrightarrow> slot = length (ss_slots s)" "session_ok s'" "ss_sessionID s' = ss_sessionID s"
proof -
  let ?m = "if sel then stdmap_erase done (ss_mirrorProcessState s) else stdmap_eraseBelow (done + 1) (ss_mirrorProcessState s)"
  let ?t = "s\<lparr>ss_mirrorProcessState := ?m\<rparr>"
  have ok: "stdmap_ok (ss_mirrorProcessState s)" using assms(1) by (simp add: session_ok_def)
  have m: "map_of ?m = old" using ok by (auto simp: old_def acked_def map_of_erase map_of_eraseBelow not_less)
  have mok: "stdmap_ok ?m" using ok by (simp add: stdmap_erase_def stdmap_ok_filter eraseBelow_filter)
  have ins: "insertSlot n ?t = (slot, isNew, s')"
    using assms(2) by (simp add: acquire_def acquireMirrorStateSlot_def acquireMirrorStateSlotSelective_def split: if_splits)
  note defs = insertSlot_def Let_def
  show new: "isNew \<longleftrightarrow> old n = None" "\<not> isNew \<Longrightarrow> old n = Some slot"
    using ins m by (auto simp: defs split: option.splits)
  show map': "map_of (ss_mirrorProcessState s') = old(n \<mapsto> slot)"
    using ins m by (auto simp: defs map_of_insert fun_eq_iff split: option.splits)
  show slots: "ss_slots s' = ss_slots s @ [None]" using ins by (auto simp: defs split: option.splits)
  show fresh: "isNew \<Longrightarrow> slot = length (ss_slots s)" using ins by (auto simp: defs split: option.splits)
  show "ss_sessionID s' = ss_sessionID s" using ins by (auto simp: defs split: option.splits)
  have small: "old x = Some p \<Longrightarrow> p < length (ss_slots s)" for x p
    using assms(1) by (auto simp: old_def session_ok_def split: if_splits)
  have inj: "old x = Some p \<Longrightarrow> old y = Some p \<Longrightarrow> x = y" for x y p
    using assms(1) by (auto simp: old_def session_ok_def split: if_splits)
  have "stdmap_ok (ss_mirrorProcessState s')"
    using ins mok by (auto simp: defs stdmap_ok_insert split: option.splits)
  moreover have "p < length (ss_slots s')" if "map_of (ss_mirrorProcessState s') x = Some p" for x p
    using that small fresh new by (cases isNew) (auto simp: map' slots split: if_splits intro: less_SucI)
  moreover have "x = y" if "map_of (ss_mirrorProcessState s') x = Some p" "map_of (ss_mirrorProcessState s') y = Some p" for x y p
    using that small [of x p] small [of y p] inj [of x p y] fresh new by (cases isNew) (auto simp: map' split: if_splits dest: inj)
  ultimately show "session_ok s'" unfolding session_ok_def by blast
qed

lemma seqNoBase_fresh:
  assumes "session_ok s" "map_of (ss_mirrorProcessState s) n \<noteq> None" "fst (last (ss_mirrorProcessState s)) \<noteq> - 1"
  shows "n < getSeqNoBase s"
proof -
  have ne: "ss_mirrorProcessState s \<noteq> []" using assms(2) by auto
  let ?l = "fst (last (ss_mirrorProcessState s))"
  have "n \<le> ?l" using assms(1,2) ne by (auto simp: session_ok_def intro!: stdmap_ok_last)
  also have "?l < ?l + 1" using assms(3) by (rule word_less_plus_one)
  finally show ?thesis using ne by (simp add: getSeqNoBase_def)
qed

lemma dropEmpty_responses:
  "map_of (ss_mirrorProcessState (dropEmptyStateSlots s)) n = Some p \<Longrightarrow> ss_slots (dropEmptyStateSlots s) ! p \<noteq> None"
  by (auto simp: dropEmptyStateSlots_def dest!: map_of_SomeD)

section \<open>The store of the sessions\<close>

text \<open>
  Sessions are kept with a reference counter (\<^verbatim>\<open>common/toolkit/ObjectReferencer.h\<close>). A pointer to a
  session is its number; \<^const>\<open>None\<close> is the null pointer.
\<close>

record 'a ObjectReferencer =
  or_refCount :: int
  or_referencedObject :: 'a

definition ObjectReferencer_construct :: "'a \<Rightarrow> 'a ObjectReferencer" where
  "ObjectReferencer_construct obj = \<lparr>or_refCount = 0, or_referencedObject = obj\<rparr>"

definition ObjectReferencer_reference :: "'a ObjectReferencer \<Rightarrow> 'a ObjectReferencer" where
  "ObjectReferencer_reference this = this\<lparr>or_refCount := or_refCount this + 1\<rparr>"

definition ObjectReferencer_release :: "'a ObjectReferencer \<Rightarrow> 'a ObjectReferencer" where
  "ObjectReferencer_release this = this\<lparr>or_refCount := or_refCount this - 1\<rparr>"

type_synonym 'r SessionStore = "(u32 \<times> 'r Session ObjectReferencer) list"

definition SessionStore_addSession :: "'r Session \<Rightarrow> 'r SessionStore \<Rightarrow> 'r SessionStore" where
  "SessionStore_addSession session this =
     (case map_of this (ss_sessionID session) of
        Some _ \<Rightarrow> this
      | None \<Rightarrow> stdmap_insert (ss_sessionID session) (ObjectReferencer_construct session) this)"

definition SessionStore_referenceSession :: "u32 \<Rightarrow> bool \<Rightarrow> 'r SessionStore \<Rightarrow> u32 option \<times> 'r SessionStore" where
  "SessionStore_referenceSession sessionID addIfNotExists this =
     (case map_of this sessionID of
        None \<Rightarrow>
          if \<not> addIfNotExists then (None, this)
          else (Some sessionID, stdmap_insert sessionID
                 (ObjectReferencer_reference (ObjectReferencer_construct (Session_construct sessionID))) this)
      | Some _ \<Rightarrow> (Some sessionID, stdmap_update sessionID ObjectReferencer_reference this))"

definition SessionStore_releaseSession :: "u32 \<Rightarrow> 'r SessionStore \<Rightarrow> 'r SessionStore" where
  "SessionStore_releaseSession sessionID this = stdmap_update sessionID ObjectReferencer_release this"

definition SessionStore_removeSession :: "u32 \<Rightarrow> 'r SessionStore \<Rightarrow> bool \<times> 'r SessionStore" where
  "SessionStore_removeSession sessionID this =
     (case map_of this sessionID of
        Some refer \<Rightarrow> if or_refCount refer \<noteq> 0 then (False, this) else (True, stdmap_erase sessionID this)
      | None \<Rightarrow> (False, this))"

definition SessionStore_removeSessionUnlocked :: "u32 \<Rightarrow> 'r SessionStore \<Rightarrow> 'r Session option \<times> 'r SessionStore" where
  "SessionStore_removeSessionUnlocked sessionID this =
     (case map_of this sessionID of
        Some refer \<Rightarrow>
          if or_refCount refer = 0 then (Some (or_referencedObject refer), stdmap_erase sessionID this) else (None, this)
      | None \<Rightarrow> (None, this))"

text \<open>
  The loops of \<^verbatim>\<open>syncSessions\<close>: the numbers in front of the session iterator, the rest of the
  master list, the store and the two lists of results.
\<close>

fun syncLoop ::
    "u32 list \<Rightarrow> u32 list \<Rightarrow> 'r SessionStore \<times> 'r Session list \<times> u32 list \<Rightarrow> 'r SessionStore \<times> 'r Session list \<times> u32 list" where
  "syncLoop [] masters st = st"
| "syncLoop (currentSession # sessions) [] (this, removed, unremovable) =
     (let (session, this) = SessionStore_removeSessionUnlocked currentSession this
      in case session of
           Some x \<Rightarrow> syncLoop sessions [] (this, removed @ [x], unremovable)
         | None \<Rightarrow> syncLoop sessions [] (this, removed, unremovable @ [currentSession]))"
| "syncLoop (currentSession # sessions) (currentMaster # masters) (this, removed, unremovable) =
     (if currentMaster < currentSession then syncLoop (currentSession # sessions) masters (this, removed, unremovable)
      else if currentSession < currentMaster then
        (let (session, this) = SessionStore_removeSessionUnlocked currentSession this
         in case session of
              Some x \<Rightarrow> syncLoop sessions (currentMaster # masters) (this, removed @ [x], unremovable)
            | None \<Rightarrow> syncLoop sessions (currentMaster # masters) (this, removed, unremovable @ [currentSession]))
      else syncLoop sessions masters (this, removed, unremovable))"

definition SessionStore_syncSessions ::
    "u32 list \<Rightarrow> 'r SessionStore \<Rightarrow> 'r Session list \<Rightarrow> u32 list \<Rightarrow> 'r SessionStore \<times> 'r Session list \<times> u32 list" where
  "SessionStore_syncSessions masterList this outRemovedSessions outUnremovableSessions =
     syncLoop (map fst this) masterList (this, outRemovedSessions, outUnremovableSessions)"

definition SessionStore_getAllSessionIDs :: "'r SessionStore \<Rightarrow> u32 list" where
  "SessionStore_getAllSessionIDs this = map fst this"

definition SessionStore_getSize :: "'r SessionStore \<Rightarrow> nat" where
  "SessionStore_getSize this = length this"

text \<open>\<^verbatim>\<open>clear\<close> without what it does to the open files of the sessions it removes.\<close>

definition SessionStore_clear :: "'r SessionStore \<Rightarrow> bool \<times> 'r SessionStore" where
  "SessionStore_clear this = (True, foldl (\<lambda>st i. snd (SessionStore_removeSessionUnlocked i st)) this (map fst this))"

subsection \<open>Synchronisation\<close>

text \<open>The entries behind the iterator do not matter for what is removed in front of it.\<close>

lemma removeUnlocked_mid:
  assumes "stdmap_ok (kept @ (i, r) # rest)"
  shows "SessionStore_removeSessionUnlocked i (kept @ (i, r) # rest) =
    (if or_refCount r = 0 then (Some (or_referencedObject r), kept @ rest) else (None, kept @ (i, r) # rest))"
proof -
  have d: "distinct (map fst (kept @ (i, r) # rest))" using assms by (rule stdmap_ok_distinct)
  then have "map_of (kept @ (i, r) # rest) i = Some r" by (intro map_of_is_SomeI) simp_all
  moreover have "filter (\<lambda>e. fst e \<noteq> i) kept = kept" "filter (\<lambda>e. fst e \<noteq> i) rest = rest"
    using d by (auto simp: filter_id_conv)
  then have "stdmap_erase i (kept @ (i, r) # rest) = kept @ rest" by (simp add: stdmap_erase_def)
  ultimately show ?thesis by (simp add: SessionStore_removeSessionUnlocked_def)
qed

definition stays :: "u32 list \<Rightarrow> u32 \<times> 'a ObjectReferencer \<Rightarrow> bool" where
  "stays masters e \<longleftrightarrow> fst e \<in> set masters \<or> or_refCount (snd e) \<noteq> 0"

definition busy :: "u32 list \<Rightarrow> u32 \<times> 'a ObjectReferencer \<Rightarrow> bool" where
  "busy masters e \<longleftrightarrow> fst e \<notin> set masters \<and> or_refCount (snd e) \<noteq> 0"

lemma syncLoop_exact:
  "stdmap_ok (kept @ rest) \<Longrightarrow> sorted_wrt (<) masters \<Longrightarrow>
   syncLoop (map fst rest) masters (kept @ rest, removed, unremovable) =
     (kept @ filter (stays masters) rest,
      removed @ map (or_referencedObject \<circ> snd) (filter (\<lambda>e. \<not> stays masters e) rest),
      unremovable @ map fst (filter (busy masters) rest))"
proof (induction "length rest + length masters" arbitrary: kept rest masters removed unremovable rule: less_induct)
  case less
  show ?case
  proof (cases rest)
    case (Cons e es)
    obtain i r where e: "e = (i, r)" by (cases e)
    have below: "\<And>x. x \<in> set es \<Longrightarrow> i < fst x"
      using less.prems(1) by (simp add: Cons e stdmap_ok_def sorted_wrt_append)
    have oks: "stdmap_ok ((kept @ [(i, r)]) @ es)" "stdmap_ok (kept @ es)"
      using less.prems(1) by (simp_all add: Cons e stdmap_ok_def sorted_wrt_append)
    note rem = removeUnlocked_mid [OF less.prems(1) [unfolded Cons e]]
    have out: "syncLoop (map fst es) masters (if or_refCount r = 0 then kept @ es else kept @ (i, r) # es,
          if or_refCount r = 0 then removed @ [or_referencedObject r] else removed,
          if or_refCount r = 0 then unremovable else unremovable @ [i]) =
        (kept @ filter (stays masters) ((i, r) # es),
         removed @ map (or_referencedObject \<circ> snd) (filter (\<lambda>e. \<not> stays masters e) ((i, r) # es)),
         unremovable @ map fst (filter (busy masters) ((i, r) # es)))" if "i \<notin> set masters"
      using less.hyps [OF _ oks(1) less.prems(2)] less.hyps [OF _ oks(2) less.prems(2)] that
      by (simp add: Cons stays_def busy_def)
    show ?thesis
    proof (cases masters)
      case Nil
      then show ?thesis using out rem by (cases "or_refCount r = 0") (simp_all add: Cons e)
    next
      case m: (Cons m ms)
      have ms: "sorted_wrt (<) ms" and above: "\<And>x. x \<in> set ms \<Longrightarrow> m < x" using less.prems(2) by (simp_all add: m)
      consider "m < i" | "i < m" | "i = m" by fastforce
      then show ?thesis
      proof cases
        case 1
        have "m \<noteq> fst x" if "x \<in> set ((i, r) # es)" for x using that 1 below [of x] by auto
        then have same: "filter (stays ms) ((i, r) # es) = filter (stays masters) ((i, r) # es)"
          "filter (busy ms) ((i, r) # es) = filter (busy masters) ((i, r) # es)"
          "filter (\<lambda>e. \<not> stays ms e) ((i, r) # es) = filter (\<lambda>e. \<not> stays masters e) ((i, r) # es)"
          by (intro filter_cong refl; auto simp: m stays_def busy_def)+
        have "syncLoop (map fst rest) masters (kept @ rest, removed, unremovable) = syncLoop (map fst rest) ms (kept @ rest, removed, unremovable)"
          using 1 by (simp add: Cons e m)
        then show ?thesis using less.hyps [OF _ less.prems(1) ms] same by (simp add: m Cons e)
      next
        case 2
        then have "i \<notin> set masters" using above by (auto simp: m dest: less_trans)
        moreover have "\<not> m < i" using 2 by simp
        ultimately show ?thesis using out rem 2 by (cases "or_refCount r = 0") (simp_all add: Cons e m)
      next
        case 3
        have "i \<noteq> fst x" if "x \<in> set es" for x using below [OF that] by auto
        then have same: "filter (stays ms) es = filter (stays masters) es" "filter (busy ms) es = filter (busy masters) es"
          "filter (\<lambda>e. \<not> stays ms e) es = filter (\<lambda>e. \<not> stays masters e) es"
          by (intro filter_cong refl; auto simp: m 3 stays_def busy_def)+
        show ?thesis
          using less.hyps [OF _ oks(1) ms] same by (simp add: Cons e m 3 stays_def busy_def)
      qed
    qed
  qed simp
qed

section \<open>Properties\<close>

text \<open>
  C35. Synchronising the sessions with the list of the nodes that exist, which is in order: exactly the
  sessions of other nodes that nobody uses are removed and handed to the caller, the sessions of
  other nodes that are in use stay and are reported, and all remaining sessions are untouched.
\<close>

theorem sync_sessions_exact:
  assumes "stdmap_ok store" "sorted_wrt (<) masterList"
  shows "SessionStore_syncSessions masterList store removed unremovable =
    (filter (\<lambda>(i, r). i \<in> set masterList \<or> or_refCount r \<noteq> 0) store,
     removed @ map (or_referencedObject \<circ> snd) (filter (\<lambda>(i, r). i \<notin> set masterList \<and> or_refCount r = 0) store),
     unremovable @ map fst (filter (\<lambda>(i, r). i \<notin> set masterList \<and> or_refCount r \<noteq> 0) store))"
  using syncLoop_exact [of "[]" store masterList removed unremovable] assms
  by (simp add: SessionStore_syncSessions_def stays_def [abs_def] busy_def [abs_def] case_prod_unfold)

definition exampleStore :: "nat SessionStore" where
  "exampleStore = snd (SessionStore_referenceSession 5 True (SessionStore_addSession (Session_construct 7)
     (SessionStore_addSession (Session_construct 3) [])))"

theorem sync_sessions_exact_witness:
  "let (store, removed, unremovable) = SessionStore_syncSessions [2, 7, 9] exampleStore [] []
   in map fst store = [5, 7] \<and> map ss_sessionID removed = [3] \<and> unremovable = [5]"
proof -
  have ex: "exampleStore = [(3, ObjectReferencer_construct (Session_construct 3)),
      (5, ObjectReferencer_reference (ObjectReferencer_construct (Session_construct 5))), (7, ObjectReferencer_construct (Session_construct 7))]"
    by (simp add: exampleStore_def SessionStore_addSession_def SessionStore_referenceSession_def stdmap_insert_def Session_construct_def)
  have "stdmap_ok exampleStore" unfolding ex by simp
  from sync_sessions_exact [OF this, of "[2, 7, 9]" "[]" "[]"] show ?thesis unfolding ex
    by (simp add: ObjectReferencer_construct_def ObjectReferencer_reference_def Session_construct_def)
qed

end
