(* ===== verification/Mirrored_Messages.thy ===== *)
theory Mirrored_Messages
  imports Mirror_Sessions Target_Stores Storage_Errors
begin

text \<open>
  Requests that change the metadata of a buddy group (\<^verbatim>\<open>meta/source/net/message/MirroredMessage.h\<close>).
  The primary executes a numbered request, forwards it to the secondary, keeps the response in the
  slot of its number and answers; the secondary executes it with the same number. A request that
  changed nothing is only acknowledged (\<^verbatim>\<open>AckNotifyMsgEx.h\<close>).

  The class is a template over the messages; what a message defines itself (\<^verbatim>\<open>executeLocally\<close>,
  \<^verbatim>\<open>changesObservableState\<close>, what \<^verbatim>\<open>forwardToSecondary\<close> puts into the message, and whether the result
  of \<^verbatim>\<open>processSecondaryResponse\<close> is the one expected after the own response) is the argument \<^term>\<open>h\<close>. Resync changesets,
  locks and failed allocations of memory while forwarding are left out.
\<close>

section \<open>Operations\<close>

datatype 'q request = AckNotify | Request 'q
datatype 'a answer = AckNotifyResp | Answer 'a
datatype 'a reply = NewSeqNoBase u64 | TryAgain | Response "'a answer"

record 'q MirroredMessage =
  mm_isMirrored :: bool
  mm_hasSequenceNumber :: bool
  mm_isSelectiveAck :: bool
  mm_buddyMirrorSecond :: bool
  mm_sequenceNumber :: u64
  mm_sequenceNumberDone :: u64
  mm_requestorID :: u32
  mm_body :: "'q request"

text \<open>
  A message returns its response with the new state, or it has called \<^verbatim>\<open>earlyComplete\<close> with the response, in the state at that time,
  and works on after the operation has been finished.
\<close>

datatype ('a, 's) execution = Returned 'a 's | CompletedEarly 'a 's "'s \<Rightarrow> 's"

record ('q, 's, 'a) handler =
  h_executeLocally :: "bool \<Rightarrow> 'q \<Rightarrow> 's \<Rightarrow> ('a, 's) execution"
  h_changesObservableState :: "'a \<Rightarrow> bool"
  h_forward :: "'q \<Rightarrow> 'a \<Rightarrow> 'q"
  h_asExpected :: "'a \<Rightarrow> 'a \<Rightarrow> bool"

record ('s, 'a) MetaServer =
  mv_storage :: 's
  mv_mirroredSessions :: "'a answer SessionStore"

fun executeLocally :: "('q, 's, 'a) handler \<Rightarrow> bool \<Rightarrow> 'q request \<Rightarrow> 's \<Rightarrow> ('a answer, 's) execution" where
  "executeLocally h isSecondary AckNotify storage = Returned AckNotifyResp storage"
| "executeLocally h isSecondary (Request q) storage =
     (case h_executeLocally h isSecondary q storage of
        Returned a storage \<Rightarrow> Returned (Answer a) storage
      | CompletedEarly a storage further \<Rightarrow> CompletedEarly (Answer a) storage further)"

fun changesObservableState :: "('q, 's, 'a) handler \<Rightarrow> 'a answer \<Rightarrow> bool" where
  "changesObservableState h AckNotifyResp = True"
| "changesObservableState h (Answer a) = h_changesObservableState h a"

text \<open>The session that a pointer refers to.\<close>

definition sessionAt :: "u32 \<Rightarrow> 'r SessionStore \<Rightarrow> 'r Session" where
  "sessionAt i store =
     (case map_of store i of Some refer \<Rightarrow> or_referencedObject refer | None \<Rightarrow> Session_construct i)"

definition setSession :: "u32 \<Rightarrow> 'r Session \<Rightarrow> 'r SessionStore \<Rightarrow> 'r SessionStore" where
  "setSession i session = stdmap_update i (\<lambda>refer. refer\<lparr>or_referencedObject := session\<rparr>)"

text \<open>
  The first part of \<^verbatim>\<open>processIncoming\<close>: the reply if there is nothing to execute, otherwise the slot
  for the response, if the request is numbered.
\<close>

definition processBegin :: "'q MirroredMessage \<Rightarrow> 'a answer SessionStore \<Rightarrow> ('a reply + nat option) \<times> 'a answer SessionStore" where
  "processBegin msg sessions =
     (if \<not> mm_isMirrored msg then (Inr None, sessions)
      else
        let i = mm_requestorID msg;
            sessions = snd (SessionStore_referenceSession i True sessions);
            session = sessionAt i sessions
        in if \<not> mm_hasSequenceNumber msg then (Inr None, sessions)
           else if mm_sequenceNumber msg = 0
           then (Inl (NewSeqNoBase (getSeqNoBase session)), SessionStore_releaseSession i sessions)
           else
             let (slot, isNewState, session) =
                   (if mm_isSelectiveAck msg
                    then acquireMirrorStateSlotSelective (mm_sequenceNumberDone msg) (mm_sequenceNumber msg) session
                    else acquireMirrorStateSlot (mm_sequenceNumberDone msg) (mm_sequenceNumber msg) session);
                 sessions = setSession i session sessions
             in if isNewState then (Inr (Some slot), sessions)
                else (Inl (case ss_slots session ! slot of Some r \<Rightarrow> Response r | None \<Rightarrow> TryAgain),
                      SessionStore_releaseSession i sessions))"

text \<open>
  \<^verbatim>\<open>finishOperation\<close>. \<^term>\<open>send\<close> is what \<^verbatim>\<open>sendToSecondary\<close> does, with the message and the own
  response, to the rest of the system.
\<close>

definition toSecondary :: "('q, 's, 'a) handler \<Rightarrow> 'q MirroredMessage \<Rightarrow> 'a answer \<Rightarrow> 'q MirroredMessage" where
  "toSecondary h msg r = msg\<lparr>mm_body :=
     (if changesObservableState h r
      then (case (mm_body msg, r) of (Request q, Answer a) \<Rightarrow> Request (h_forward h q a) | _ \<Rightarrow> mm_body msg)
      else AckNotify)\<rparr>"

definition fillSlot :: "'q MirroredMessage \<Rightarrow> nat option \<Rightarrow> 'a answer \<Rightarrow> 'a answer SessionStore \<Rightarrow> 'a answer SessionStore" where
  "fillSlot msg mirrorState r sessions =
     (case mirrorState of
        Some slot \<Rightarrow>
          (let i = mm_requestorID msg
           in setSession i ((sessionAt i sessions)\<lparr>ss_slots := (ss_slots (sessionAt i sessions))[slot := Some r]\<rparr>) sessions)
      | None \<Rightarrow> sessions)"

definition finishOperation ::
    "('q, 's, 'a) handler \<Rightarrow> ('q MirroredMessage \<Rightarrow> 'a answer \<Rightarrow> 'x \<Rightarrow> 'x) \<Rightarrow> 'q MirroredMessage \<Rightarrow> nat option \<Rightarrow> 'a answer
       \<Rightarrow> 'a answer SessionStore \<times> 'x \<Rightarrow> 'a reply \<times> 'a answer SessionStore \<times> 'x" where
  "finishOperation h send msg mirrorState r = (\<lambda>(sessions, rest).
     (Response r, fillSlot msg mirrorState r sessions,
      if mm_isMirrored msg \<and> \<not> mm_buddyMirrorSecond msg then send (toSecondary h msg r) r rest else rest))"

text \<open>The end of \<^verbatim>\<open>processIncoming\<close>.\<close>

definition leave :: "'q MirroredMessage \<Rightarrow> 'r SessionStore \<Rightarrow> 'r SessionStore" where
  "leave msg sessions = (if mm_isMirrored msg then SessionStore_releaseSession (mm_requestorID msg) sessions else sessions)"

text \<open>The whole handler. A message that completes early is answered before its further work.\<close>

definition processIncoming ::
    "('q, 's, 'a) handler \<Rightarrow> ('q MirroredMessage \<Rightarrow> 'a answer \<Rightarrow> 'x \<Rightarrow> 'x) \<Rightarrow> 'q MirroredMessage \<Rightarrow> ('s, 'a) MetaServer \<times> 'x
       \<Rightarrow> 'a reply \<times> ('s, 'a) MetaServer \<times> 'x" where
  "processIncoming h send msg = (\<lambda>(this, rest).
     case processBegin msg (mv_mirroredSessions this) of
       (Inl reply, sessions) \<Rightarrow> (reply, this\<lparr>mv_mirroredSessions := sessions\<rparr>, rest)
     | (Inr mirrorState, sessions) \<Rightarrow>
         (case executeLocally h (mm_isMirrored msg \<and> mm_buddyMirrorSecond msg) (mm_body msg) (mv_storage this) of
            Returned r storage \<Rightarrow>
              let (reply, sessions, rest) = finishOperation h send msg mirrorState r (sessions, rest)
              in (reply, this\<lparr>mv_storage := storage, mv_mirroredSessions := leave msg sessions\<rparr>, rest)
          | CompletedEarly r storage further \<Rightarrow>
              let (reply, sessions, rest) = finishOperation h send msg mirrorState r (sessions, rest)
              in (reply, this\<lparr>mv_storage := further storage, mv_mirroredSessions := leave msg sessions\<rparr>, rest)))"

text \<open>
  Forwarding: what the primary knows of the secondary, and what happens to the message and, if it is repeated, to its repetition on the
  way (\<^verbatim>\<open>common/toolkit/MessagingTk.cpp\<close>).
\<close>

datatype delivery = Lost | AnswerLost | Delivered

record link =
  ln_resyncInProgress :: bool
  ln_secondaryState :: "CombinedTargetState option"
  ln_resyncJob :: "(bool \<times> bool) option"
  ln_nodeKnown :: bool
  ln_delivery :: delivery
  ln_redelivery :: delivery

record ('s, 'a) Buddy =
  bd_secondary :: "('s, 'a) MetaServer"
  bd_needsResync :: bool

definition processSecondary ::
    "('q, 's, 'a) handler \<Rightarrow> 'q MirroredMessage \<Rightarrow> ('s, 'a) MetaServer \<Rightarrow> 'a reply \<times> ('s, 'a) MetaServer" where
  "processSecondary h msg this = (case processIncoming h (\<lambda>_ _ _. ()) msg (this, ()) of (reply, this, _) \<Rightarrow> (reply, this))"

text \<open>The type of the response that a message expects.\<close>

fun respMsgType :: "'q request \<Rightarrow> 'a answer \<Rightarrow> bool" where
  "respMsgType AckNotify r \<longleftrightarrow> r = AckNotifyResp"
| "respMsgType (Request q) r \<longleftrightarrow> r \<noteq> AckNotifyResp"

definition srv_requestResponseComm ::
    "('q, 's, 'a) handler \<Rightarrow> delivery \<Rightarrow> 'q MirroredMessage \<Rightarrow> ('s, 'a) MetaServer \<Rightarrow> FhgfsOpsErr \<times> 'a answer option \<times> ('s, 'a) MetaServer" where
  "srv_requestResponseComm h way msg peer =
     (if way = Lost then (FhgfsOpsErr_COMMUNICATION, None, peer)
      else
        let (reply, peer) = processSecondary h msg peer
        in if way = AnswerLost then (FhgfsOpsErr_COMMUNICATION, None, peer)
           else
             (case reply of
                TryAgain \<Rightarrow> (FhgfsOpsErr_AGAIN, None, peer)
              | NewSeqNoBase base \<Rightarrow> (FhgfsOpsErr_INTERNAL, None, peer)
              | Response r \<Rightarrow>
                  if respMsgType (mm_body msg) r then (FhgfsOpsErr_SUCCESS, Some r, peer) else (FhgfsOpsErr_COMMUNICATION, None, peer)))"

definition stateOnlineGood :: "CombinedTargetState option \<Rightarrow> bool" where
  "stateOnlineGood state \<longleftrightarrow>
     (case state of
        None \<Rightarrow> False
      | Some st \<Rightarrow> ct_reachabilityState st = TargetReachabilityState_ONLINE \<and> ct_consistencyState st = TargetConsistencyState_GOOD)"

text \<open>Whether \<^verbatim>\<open>requestResponseNode\<close> talks to the secondary in its state.\<close>

definition stateReachable :: "CombinedTargetState option \<Rightarrow> bool" where
  "stateReachable state \<longleftrightarrow> stateOnlineGood state \<or>
     (case state of
        None \<Rightarrow> False
      | Some st \<Rightarrow> ct_reachabilityState st \<noteq> TargetReachabilityState_OFFLINE \<and> ct_consistencyState st = TargetConsistencyState_NEEDS_RESYNC)"

definition srv_requestResponseNode ::
    "('q, 's, 'a) handler \<Rightarrow> link \<Rightarrow> 'q MirroredMessage \<Rightarrow> ('s, 'a) MetaServer \<Rightarrow> FhgfsOpsErr \<times> 'a answer option \<times> ('s, 'a) MetaServer" where
  "srv_requestResponseNode h ln msg peer =
     (if \<not> stateReachable (ln_secondaryState ln) then (FhgfsOpsErr_COMMUNICATION, None, peer)
      else if \<not> ln_nodeKnown ln then (FhgfsOpsErr_UNKNOWNNODE, None, peer)
      else
        let (commRes, resp, peer) = srv_requestResponseComm h (ln_delivery ln) msg peer
        in if commRes = FhgfsOpsErr_COMMUNICATION then srv_requestResponseComm h (ln_redelivery ln) msg peer else (commRes, resp, peer))"

text \<open>The result of \<^verbatim>\<open>processSecondaryResponse\<close> is the expected one.\<close>

fun secondaryOk :: "('q, 's, 'a) handler \<Rightarrow> 'a answer \<Rightarrow> 'a answer option \<Rightarrow> bool" where
  "secondaryOk h (Answer a) (Some (Answer b)) = h_asExpected h a b"
| "secondaryOk h own resp = True"

definition sendToSecondary ::
    "('q, 's, 'a) handler \<Rightarrow> link \<Rightarrow> 'q MirroredMessage \<Rightarrow> 'a answer \<Rightarrow> ('s, 'a) Buddy \<Rightarrow> ('s, 'a) Buddy" where
  "sendToSecondary h ln msg own this =
     (if ln_resyncInProgress ln then this
      else if \<not> stateOnlineGood (ln_secondaryState ln) \<and>
              (case ln_resyncJob ln of None \<Rightarrow> True | Some (running, success) \<Rightarrow> \<not> running \<and> \<not> success)
      then this\<lparr>bd_needsResync := True\<rparr>
      else
        let (commRes, resp, secondary) = srv_requestResponseNode h ln (msg\<lparr>mm_buddyMirrorSecond := True\<rparr>) (bd_secondary this);
            this = this\<lparr>bd_secondary := secondary\<rparr>
        in if commRes \<noteq> FhgfsOpsErr_SUCCESS then this\<lparr>bd_needsResync := True\<rparr>
           else if \<not> secondaryOk h own resp then this\<lparr>bd_needsResync := True\<rparr>
           else this)"

definition processPrimary ::
    "('q, 's, 'a) handler \<Rightarrow> link \<Rightarrow> 'q MirroredMessage \<Rightarrow> ('s, 'a) MetaServer \<times> ('s, 'a) Buddy
       \<Rightarrow> 'a reply \<times> ('s, 'a) MetaServer \<times> ('s, 'a) Buddy" where
  "processPrimary h ln = processIncoming h (sendToSecondary h ln)"

section \<open>Sessions of a store\<close>

definition known :: "u32 \<Rightarrow> 'r SessionStore \<Rightarrow> bool" where
  "known i store \<longleftrightarrow> map_of store i \<noteq> None"

lemma sessionAt_reference [simp]: "sessionAt j (snd (SessionStore_referenceSession i True store)) = sessionAt j store"
  by (auto simp: sessionAt_def SessionStore_referenceSession_def map_of_insert map_of_update ObjectReferencer_reference_def
      ObjectReferencer_construct_def split: option.split)

lemma reference_known [simp]: "known j (snd (SessionStore_referenceSession i True store)) \<longleftrightarrow> j = i \<or> known j store"
  by (auto simp: known_def SessionStore_referenceSession_def map_of_insert map_of_update split: option.split)

lemma sessionAt_release [simp]: "sessionAt j (SessionStore_releaseSession i store) = sessionAt j store"
  by (auto simp: sessionAt_def SessionStore_releaseSession_def map_of_update ObjectReferencer_release_def split: option.split)

lemma release_known [simp]: "known j (SessionStore_releaseSession i store) = known j store"
  by (simp add: known_def SessionStore_releaseSession_def map_of_update)

lemma sessionAt_set: "known i store \<Longrightarrow> sessionAt j (setSession i s store) = (if j = i then s else sessionAt j store)"
  by (auto simp: known_def sessionAt_def setSession_def map_of_update split: option.split)

lemma set_known [simp]: "known j (setSession i s store) = known j store"
  by (simp add: known_def setSession_def map_of_update)

text \<open>A message that takes part in the protocol of the numbers.\<close>

definition numbered :: "'q MirroredMessage \<Rightarrow> bool" where
  "numbered msg \<longleftrightarrow> mm_isMirrored msg \<and> mm_hasSequenceNumber msg \<and> mm_sequenceNumber msg \<noteq> 0"

abbreviation acquireFor :: "'q MirroredMessage \<Rightarrow> 'r Session \<Rightarrow> nat \<times> bool \<times> 'r Session" where
  "acquireFor msg \<equiv> acquire (mm_isSelectiveAck msg) (mm_sequenceNumberDone msg) (mm_sequenceNumber msg)"

lemma begin_numbered:
  assumes "numbered msg" "acquireFor msg (sessionAt (mm_requestorID msg) store) = (slot, isNew, s')"
  shows "fst (processBegin msg store) =
      (if isNew then Inr (Some slot) else Inl (case ss_slots s' ! slot of Some r \<Rightarrow> Response r | None \<Rightarrow> TryAgain))"
    "sessionAt j (snd (processBegin msg store)) = (if j = mm_requestorID msg then s' else sessionAt j store)"
    "known j (snd (processBegin msg store)) \<longleftrightarrow> j = mm_requestorID msg \<or> known j store"
proof -
  let ?i = "mm_requestorID msg"
  let ?store = "snd (SessionStore_referenceSession ?i True store)"
  have acq: "(if mm_isSelectiveAck msg
      then acquireMirrorStateSlotSelective (mm_sequenceNumberDone msg) (mm_sequenceNumber msg) (sessionAt ?i store)
      else acquireMirrorStateSlot (mm_sequenceNumberDone msg) (mm_sequenceNumber msg) (sessionAt ?i store)) = (slot, isNew, s')"
    using assms(2) by (simp add: acquire_def split: if_splits)
  have first: "processBegin msg store =
      (if isNew then (Inr (Some slot), setSession ?i s' ?store)
       else (Inl (case ss_slots s' ! slot of Some r \<Rightarrow> Response r | None \<Rightarrow> TryAgain), SessionStore_releaseSession ?i (setSession ?i s' ?store)))"
    using assms(1) acq by (cases "mm_isSelectiveAck msg") (simp_all add: processBegin_def Let_def numbered_def)
  have known: "known ?i ?store" by simp
  show "fst (processBegin msg store) =
      (if isNew then Inr (Some slot) else Inl (case ss_slots s' ! slot of Some r \<Rightarrow> Response r | None \<Rightarrow> TryAgain))"
    by (simp add: first)
  show "sessionAt j (snd (processBegin msg store)) = (if j = ?i then s' else sessionAt j store)"
    by (simp add: first sessionAt_set [OF known])
  show "known j (snd (processBegin msg store)) \<longleftrightarrow> j = ?i \<or> known j store" by (simp add: first)
qed

lemma begin_other:
  assumes "\<not> numbered msg"
  shows "sessionAt j (snd (processBegin msg store)) = sessionAt j store"
    "known j store \<Longrightarrow> known j (snd (processBegin msg store))"
    "fst (processBegin msg store) = Inr None \<or> (mm_isMirrored msg \<and> mm_hasSequenceNumber msg \<and> mm_sequenceNumber msg = 0 \<and>
       fst (processBegin msg store) = Inl (NewSeqNoBase (getSeqNoBase (sessionAt (mm_requestorID msg) store))))"
    "fst (processBegin msg store) = Inr None \<Longrightarrow> mm_isMirrored msg \<Longrightarrow> known (mm_requestorID msg) (snd (processBegin msg store))"
  using assms by (auto simp: processBegin_def Let_def numbered_def)

text \<open>Filling the slot and leaving.\<close>

lemma fill_effect:
  assumes "slot \<noteq> None \<longrightarrow> known (mm_requestorID msg) store"
  shows "sessionAt j (fillSlot msg slot r store) =
    (case slot of
       Some p \<Rightarrow> if j = mm_requestorID msg then (sessionAt j store)\<lparr>ss_slots := (ss_slots (sessionAt j store))[p := Some r]\<rparr> else sessionAt j store
     | None \<Rightarrow> sessionAt j store)"
    "known j (fillSlot msg slot r store) = known j store"
  using assms by (auto simp: fillSlot_def Let_def sessionAt_set split: option.split)

lemma leave_effect [simp]: "sessionAt j (leave msg store) = sessionAt j store" "known j (leave msg store) = known j store"
  by (simp_all add: leave_def)

text \<open>The response of an execution, and the state after all its work.\<close>

fun outcome :: "('a, 's) execution \<Rightarrow> 'a \<times> 's" where
  "outcome (Returned a s) = (a, s)"
| "outcome (CompletedEarly a s further) = (a, further s)"

lemma outcome_request:
  "outcome (executeLocally h second (Request q) s) = (case outcome (h_executeLocally h second q s) of (a, s') \<Rightarrow> (Answer a, s'))"
  by (auto split: execution.split)

lemma processIncoming_new:
  assumes "processBegin msg (mv_mirroredSessions this) = (Inr slot, sessions)"
    and "outcome (executeLocally h (mm_isMirrored msg \<and> mm_buddyMirrorSecond msg) (mm_body msg) (mv_storage this)) = (r, storage)"
  shows "processIncoming h send msg (this, rest) =
    (Response r, this\<lparr>mv_storage := storage, mv_mirroredSessions := leave msg (fillSlot msg slot r sessions)\<rparr>,
     if mm_isMirrored msg \<and> \<not> mm_buddyMirrorSecond msg then send (toSecondary h msg r) r rest else rest)"
  using assms by (auto simp: processIncoming_def finishOperation_def split: execution.splits)

end
