(* ===== verification/Mirror_Runs.thy ===== *)
theory Mirror_Runs
  imports Mirrored_Messages
begin

text \<open>
  Runs of a metadata server in which requests overlap: a request begins, and it is executed and
  answered at some later time, while other requests, among them retries with the same number,
  begin and end. A request that completes early is answered while it still works. A request that is not acknowledged by the client is executed at most once, and
  every retry is answered with the response of that execution or asked to come again.
\<close>

section \<open>Steps\<close>

record ('q, 's, 'a) run =
  rn_server :: "('s, 'a) MetaServer"
  rn_active :: "('q MirroredMessage \<times> nat option) list"
  rn_closing :: "('q MirroredMessage \<times> ('s \<Rightarrow> 's)) list"
  rn_begun :: "'q MirroredMessage list"
  rn_executed :: "'q MirroredMessage list"
  rn_replies :: "('q MirroredMessage \<times> 'a reply) list"

inductive mirror_step :: "('q, 's, 'a) handler \<Rightarrow> ('q, 's, 'a) run \<Rightarrow> ('q, 's, 'a) run \<Rightarrow> bool" for h where
  answer: "processBegin msg (mv_mirroredSessions (rn_server st)) = (Inl reply, sessions) \<Longrightarrow>
    mirror_step h st (st\<lparr>rn_server := (rn_server st)\<lparr>mv_mirroredSessions := sessions\<rparr>,
      rn_begun := msg # rn_begun st, rn_replies := (msg, reply) # rn_replies st\<rparr>)"
| start: "processBegin msg (mv_mirroredSessions (rn_server st)) = (Inr slot, sessions) \<Longrightarrow>
    mirror_step h st (st\<lparr>rn_server := (rn_server st)\<lparr>mv_mirroredSessions := sessions\<rparr>,
      rn_begun := msg # rn_begun st, rn_executed := msg # rn_executed st, rn_active := (msg, slot) # rn_active st\<rparr>)"
| finish: "rn_active st = before @ (msg, slot) # after \<Longrightarrow>
    executeLocally h (mm_isMirrored msg \<and> mm_buddyMirrorSecond msg) (mm_body msg) (mv_storage (rn_server st)) = Returned r storage \<Longrightarrow>
    mirror_step h st (st\<lparr>rn_server := (rn_server st)\<lparr>mv_storage := storage,
        mv_mirroredSessions := leave msg (fillSlot msg slot r (mv_mirroredSessions (rn_server st)))\<rparr>,
      rn_active := before @ after, rn_replies := (msg, Response r) # rn_replies st\<rparr>)"
| early: "rn_active st = before @ (msg, slot) # after \<Longrightarrow>
    executeLocally h (mm_isMirrored msg \<and> mm_buddyMirrorSecond msg) (mm_body msg) (mv_storage (rn_server st)) = CompletedEarly r storage further \<Longrightarrow>
    mirror_step h st (st\<lparr>rn_server := (rn_server st)\<lparr>mv_storage := storage,
        mv_mirroredSessions := fillSlot msg slot r (mv_mirroredSessions (rn_server st))\<rparr>,
      rn_active := before @ after, rn_closing := (msg, further) # rn_closing st, rn_replies := (msg, Response r) # rn_replies st\<rparr>)"
| close: "rn_closing st = before @ (msg, further) # after \<Longrightarrow>
    mirror_step h st (st\<lparr>rn_server := (rn_server st)\<lparr>mv_storage := further (mv_storage (rn_server st)),
        mv_mirroredSessions := leave msg (mv_mirroredSessions (rn_server st))\<rparr>, rn_closing := before @ after\<rparr>)"

inductive_cases mirror_stepE: "mirror_step h st st'"

inductive mirror_reachable :: "('q, 's, 'a) handler \<Rightarrow> ('q, 's, 'a) run \<Rightarrow> bool" for h where
  init: "mirror_reachable h \<lparr>rn_server = \<lparr>mv_storage = s, mv_mirroredSessions = []\<rparr>, rn_active = [], rn_closing = [], rn_begun = [], rn_executed = [], rn_replies = []\<rparr>"
| step: "mirror_reachable h st \<Longrightarrow> mirror_step h st st' \<Longrightarrow> mirror_reachable h st'"

abbreviation session :: "('q, 's, 'a) run \<Rightarrow> u32 \<Rightarrow> 'a answer Session" where
  "session st c \<equiv> sessionAt c (mv_mirroredSessions (rn_server st))"

section \<open>Well-formed runs\<close>

definition activeOk :: "'r SessionStore \<Rightarrow> 'q MirroredMessage \<times> nat option \<Rightarrow> bool" where
  "activeOk store a \<longleftrightarrow> (mm_isMirrored (fst a) \<longrightarrow> known (mm_requestorID (fst a)) store) \<and>
     (case snd a of
        None \<Rightarrow> \<not> numbered (fst a)
      | Some p \<Rightarrow> numbered (fst a) \<and> p < length (ss_slots (sessionAt (mm_requestorID (fst a)) store)) \<and>
          (\<forall>k. map_of (ss_mirrorProcessState (sessionAt (mm_requestorID (fst a)) store)) k = Some p \<longrightarrow> k = mm_sequenceNumber (fst a)))"

definition runOk :: "('q, 's, 'a) run \<Rightarrow> bool" where
  "runOk st \<longleftrightarrow> (\<forall>c. session_ok (session st c)) \<and> list_all (activeOk (mv_mirroredSessions (rn_server st))) (rn_active st)"

lemma activeOk_acquired:
  assumes "activeOk store a" "session_ok (sessionAt c store)"
    and "acquire sel done n (sessionAt c store) = (slot, isNew, s')"
    and "\<And>j. sessionAt j store' = (if j = c then s' else sessionAt j store)" "\<And>j. known j store \<Longrightarrow> known j store'"
  shows "activeOk store' a"
proof -
  note eff = slot_acquired [OF assms(2,3)]
  have "k = mm_sequenceNumber (fst a)"
    if p: "snd a = Some p" "mm_requestorID (fst a) = c" "map_of (ss_mirrorProcessState s') k = Some p" for k p
  proof -
    have small: "p < length (ss_slots (sessionAt c store))" and old: "\<And>k. map_of (ss_mirrorProcessState (sessionAt c store)) k = Some p \<Longrightarrow> k = mm_sequenceNumber (fst a)"
      using assms(1) p(1,2) by (auto simp: activeOk_def)
    show ?thesis
    proof (cases "k = n")
      case True
      then have "p = slot" using p(3) by (simp add: eff(3))
      then have "\<not> isNew" using small eff(5) by auto
      then show ?thesis using eff(2) old True \<open>p = slot\<close> by (auto split: if_splits)
    next
      case False
      then show ?thesis using p(3) old by (auto simp: eff(3) split: if_splits)
    qed
  qed
  moreover have "p < length (ss_slots s')" if "snd a = Some p" "mm_requestorID (fst a) = c" for p
    using assms(1) that by (auto simp: activeOk_def eff(4))
  ultimately show ?thesis using assms(1,4,5) by (auto simp: activeOk_def split: option.splits)
qed

lemma activeOk_leave [simp]: "activeOk (leave msg store) = activeOk store"
  by (simp add: activeOk_def fun_eq_iff split: option.split)

lemma runOk_begin:
  assumes "runOk st" and begin': "processBegin msg (mv_mirroredSessions (rn_server st)) = (result, sessions)"
  shows "(\<forall>c. session_ok (sessionAt c sessions)) \<and> list_all (activeOk sessions) (rn_active st) \<and>
    (\<forall>slot. result = Inr slot \<longrightarrow> activeOk sessions (msg, slot))"
proof (cases "numbered msg")
  case True
  let ?store = "mv_mirroredSessions (rn_server st)" and ?c = "mm_requestorID msg"
  obtain slot isNew s' where acq: "acquireFor msg (sessionAt ?c ?store) = (slot, isNew, s')" by (metis prod_cases3)
  have ok: "session_ok (sessionAt ?c ?store)" using assms(1) by (simp add: runOk_def)
  note first = begin_numbered [OF True acq, unfolded begin', simplified]
  note eff = slot_acquired [OF ok acq]
  have "list_all (activeOk sessions) (rn_active st)"
    using assms(1) activeOk_acquired [OF _ ok acq first(2)] first(3) unfolding runOk_def by (auto elim!: list.pred_mono_strong)
  moreover have "session_ok (sessionAt j sessions)" for j using assms(1) eff(6) by (simp add: first(2) runOk_def)
  moreover have "activeOk sessions (msg, x)" if "result = Inr x" for x
  proof -
    have x: "isNew" "x = Some slot" using that first(1) by (simp_all split: if_splits)
    have "k = mm_sequenceNumber msg" if "map_of (ss_mirrorProcessState s') k = Some slot" for k
      using that ok eff(5) [OF x(1)] by (fastforce simp: eff(3) session_ok_def split: if_splits)
    then show ?thesis using x True first eff(4,5) by (simp add: activeOk_def)
  qed
  ultimately show ?thesis by blast
next
  case False
  note first = begin_other [OF False, where store = "mv_mirroredSessions (rn_server st)", unfolded begin', simplified]
  have "activeOk sessions a" if "activeOk (mv_mirroredSessions (rn_server st)) a" for a
    using that first(1,2) by (auto simp: activeOk_def split: option.splits)
  then have "list_all (activeOk sessions) (rn_active st)" using assms(1) unfolding runOk_def by (auto elim!: list.pred_mono_strong)
  then show ?thesis using assms(1) first False by (auto simp: runOk_def activeOk_def)
qed

lemma fill_sessions:
  assumes "activeOk store (msg, slot)"
  shows "ss_mirrorProcessState (sessionAt c (fillSlot msg slot r store)) = ss_mirrorProcessState (sessionAt c store)"
    "length (ss_slots (sessionAt c (fillSlot msg slot r store))) = length (ss_slots (sessionAt c store))"
    "known c (fillSlot msg slot r store) = known c store"
proof -
  have "slot \<noteq> None \<longrightarrow> known (mm_requestorID msg) store" using assms by (auto simp: activeOk_def numbered_def)
  from fill_effect [OF this, of _ r]
  show "ss_mirrorProcessState (sessionAt c (fillSlot msg slot r store)) = ss_mirrorProcessState (sessionAt c store)"
    "length (ss_slots (sessionAt c (fillSlot msg slot r store))) = length (ss_slots (sessionAt c store))"
    "known c (fillSlot msg slot r store) = known c store"
    by (auto split: option.splits)
qed

lemma runOk_finish:
  assumes "runOk st" "rn_active st = before @ (msg, slot) # after"
    and "\<And>c. sessionAt c sessions = sessionAt c (fillSlot msg slot r (mv_mirroredSessions (rn_server st)))"
    and "\<And>c. known c sessions = known c (fillSlot msg slot r (mv_mirroredSessions (rn_server st)))"
  shows "(\<forall>c. session_ok (sessionAt c sessions)) \<and> list_all (activeOk sessions) (before @ after)"
proof -
  let ?store = "mv_mirroredSessions (rn_server st)"
  have a: "activeOk ?store (msg, slot)" using assms(1,2) by (simp add: runOk_def)
  note same = fill_sessions [OF a, of _ r]
  have "list_all (activeOk sessions) (before @ after) = list_all (activeOk ?store) (before @ after)"
    by (intro list.pred_cong refl) (simp add: activeOk_def assms(3,4) same split: option.split)
  then show ?thesis using assms(1,2) by (simp add: runOk_def session_ok_def assms(3) same)
qed

lemma runOk_step:
  assumes "runOk st" "mirror_step h st st'"
  shows "runOk st'"
  using assms(2)
proof cases
  case (answer msg reply sessions)
  then show ?thesis using runOk_begin [OF assms(1) answer(2)] by (simp add: runOk_def)
next
  case (start msg slot sessions)
  then show ?thesis using runOk_begin [OF assms(1) start(2)] by (simp add: runOk_def)
next
  case (finish before msg slot after r storage)
  then show ?thesis using runOk_finish [OF assms(1) finish(2), of "leave msg (fillSlot msg slot r (mv_mirroredSessions (rn_server st)))" r]
    by (simp add: runOk_def)
next
  case (early before msg slot after r storage further)
  then show ?thesis using runOk_finish [OF assms(1) early(2) refl refl, of r] by (simp add: runOk_def)
next
  case (close before msg further after)
  then show ?thesis using assms(1) by (simp add: runOk_def)
qed

lemma runOk_reachable: "mirror_reachable h st \<Longrightarrow> runOk st"
proof (induction rule: mirror_reachable.induct)
  case (init s)
  show ?case by (simp add: runOk_def sessionAt_def session_ok_construct)
qed (rule runOk_step)

section \<open>At most one execution\<close>

definition covers :: "u32 \<Rightarrow> u64 \<Rightarrow> 'q MirroredMessage \<Rightarrow> bool" where
  "covers c n msg \<longleftrightarrow> numbered msg \<and> mm_requestorID msg = c \<and> acked (mm_isSelectiveAck msg) (mm_sequenceNumberDone msg) n"

definition isRequest :: "u32 \<Rightarrow> u64 \<Rightarrow> 'q MirroredMessage \<Rightarrow> bool" where
  "isRequest c n msg \<longleftrightarrow> numbered msg \<and> mm_requestorID msg = c \<and> mm_sequenceNumber msg = n"

abbreviation executions :: "u32 \<Rightarrow> u64 \<Rightarrow> ('q, 's, 'a) run \<Rightarrow> 'q MirroredMessage list" where
  "executions c n st \<equiv> filter (isRequest c n) (rn_executed st)"

abbreviation working :: "u32 \<Rightarrow> u64 \<Rightarrow> ('q, 's, 'a) run \<Rightarrow> ('q MirroredMessage \<times> nat option) list" where
  "working c n st \<equiv> filter (\<lambda>a. isRequest c n (fst a)) (rn_active st)"

definition repliesTo :: "u32 \<Rightarrow> u64 \<Rightarrow> ('q, 's, 'a) run \<Rightarrow> 'a reply set" where
  "repliesTo c n st = {reply. \<exists>msg. (msg, reply) \<in> set (rn_replies st) \<and> isRequest c n msg}"

text \<open>
  The possible situations of a number: not seen yet; being executed, with an empty slot; executed,
  with the response in the slot.
\<close>

definition situation :: "u32 \<Rightarrow> u64 \<Rightarrow> ('q, 's, 'a) run \<Rightarrow> bool" where
  "situation c n st \<longleftrightarrow>
     (case map_of (ss_mirrorProcessState (session st c)) n of
        None \<Rightarrow> executions c n st = [] \<and> working c n st = [] \<and> repliesTo c n st = {}
      | Some p \<Rightarrow> length (executions c n st) = 1 \<and>
          ((\<exists>msg. working c n st = [(msg, Some p)] \<and> ss_slots (session st c) ! p = None \<and> repliesTo c n st \<subseteq> {TryAgain}) \<or>
           (working c n st = [] \<and>
            repliesTo c n st \<subseteq> insert TryAgain (Response ` set_option (ss_slots (session st c) ! p)))))"

lemma situation_keep:
  assumes "situation c n st"
    and "map_of (ss_mirrorProcessState (session st' c)) n = map_of (ss_mirrorProcessState (session st c)) n"
    and "\<And>p. map_of (ss_mirrorProcessState (session st c)) n = Some p \<Longrightarrow> ss_slots (session st' c) ! p = ss_slots (session st c) ! p"
    and "executions c n st' = executions c n st" "working c n st' = working c n st"
    and "repliesTo c n st' = repliesTo c n st \<or> (\<exists>p reply. map_of (ss_mirrorProcessState (session st c)) n = Some p \<and>
      repliesTo c n st' = insert reply (repliesTo c n st) \<and> reply \<in> insert TryAgain (Response ` set_option (ss_slots (session st c) ! p)))"
  shows "situation c n st'"
proof (cases "map_of (ss_mirrorProcessState (session st c)) n")
  case None
  then show ?thesis using assms by (simp add: situation_def)
next
  case (Some p)
  then show ?thesis using assms(1) assms(2,4,5,6) assms(3) [OF Some] by (auto simp: situation_def)
qed

lemma situation_answer:
  assumes "runOk st" "situation c n st" "processBegin msg (mv_mirroredSessions (rn_server st)) = (Inl reply, sessions)" "\<not> covers c n msg"
  shows "situation c n (st\<lparr>rn_server := (rn_server st)\<lparr>mv_mirroredSessions := sessions\<rparr>,
      rn_begun := msg # rn_begun st, rn_replies := (msg, reply) # rn_replies st\<rparr>)" (is "situation c n ?st")
proof (cases "isRequest c n msg \<or> numbered msg \<and> mm_requestorID msg = c")
  case False
  have "repliesTo c n ?st = repliesTo c n st" using False by (auto simp: repliesTo_def)
  moreover have "session ?st c = session st c"
  proof (cases "numbered msg")
    case True
    obtain slot isNew s' where "acquireFor msg (sessionAt (mm_requestorID msg) (mv_mirroredSessions (rn_server st))) = (slot, isNew, s')"
      by (metis prod_cases3)
    from begin_numbered(2) [OF True this, of c] show ?thesis using assms(3) True False by auto
  next
    case False
    from begin_other(1) [OF this, of c "mv_mirroredSessions (rn_server st)"] show ?thesis using assms(3) by simp
  qed
  ultimately show ?thesis by (intro situation_keep [OF assms(2)]) simp_all
next
  case True
  then have num: "numbered msg" and c: "mm_requestorID msg = c" by (auto simp: isRequest_def)
  obtain slot isNew s' where acq: "acquireFor msg (session st c) = (slot, isNew, s')" by (metis prod_cases3)
  have ok: "session_ok (session st c)" using assms(1) by (simp add: runOk_def)
  note first = begin_numbered [OF num acq [folded c], unfolded assms(3), simplified]
  note eff = slot_acquired [OF ok acq]
  have old: "\<not> isNew" "reply = (case ss_slots s' ! slot of Some r \<Rightarrow> Response r | None \<Rightarrow> TryAgain)"
    using first(1) by (simp_all split: if_splits)
  have keep: "map_of (ss_mirrorProcessState s') n = map_of (ss_mirrorProcessState (session st c)) n"
    using assms(4) num c eff(2) [OF old(1)] by (auto simp: eff(3) covers_def split: if_splits)
  have slots: "ss_slots s' ! p = ss_slots (session st c) ! p" if "map_of (ss_mirrorProcessState (session st c)) n = Some p" for p
    using ok that by (auto simp: eff(4) session_ok_def nth_append)
  have new: "session ?st c = s'" using first(2) [of c] c by simp
  have "repliesTo c n ?st = repliesTo c n st \<or> (\<exists>p reply. map_of (ss_mirrorProcessState (session st c)) n = Some p \<and>
      repliesTo c n ?st = insert reply (repliesTo c n st) \<and> reply \<in> insert TryAgain (Response ` set_option (ss_slots (session st c) ! p)))"
  proof (cases "mm_sequenceNumber msg = n")
    case n: True
    have at: "map_of (ss_mirrorProcessState (session st c)) n = Some slot" using eff(2) [OF old(1)] n by (auto split: if_splits)
    moreover have "repliesTo c n ?st = insert reply (repliesTo c n st)" using num c n by (auto simp: repliesTo_def isRequest_def)
    moreover have "reply \<in> insert TryAgain (Response ` set_option (ss_slots (session st c) ! slot))"
      using old(2) slots [OF at] by (simp split: option.split)
    ultimately show ?thesis by blast
  next
    case False
    then show ?thesis by (auto simp: repliesTo_def isRequest_def)
  qed
  then show ?thesis using keep slots new by (intro situation_keep [OF assms(2)]) simp_all
qed

lemma situation_start:
  assumes "runOk st" "situation c n st" "processBegin msg (mv_mirroredSessions (rn_server st)) = (Inr slot, sessions)" "\<not> covers c n msg"
  shows "situation c n (st\<lparr>rn_server := (rn_server st)\<lparr>mv_mirroredSessions := sessions\<rparr>,
      rn_begun := msg # rn_begun st, rn_executed := msg # rn_executed st, rn_active := (msg, slot) # rn_active st\<rparr>)" (is "situation c n ?st")
proof (cases "numbered msg \<and> mm_requestorID msg = c")
  case False
  have "session ?st c = session st c"
  proof (cases "numbered msg")
    case True
    obtain x isNew s' where "acquireFor msg (sessionAt (mm_requestorID msg) (mv_mirroredSessions (rn_server st))) = (x, isNew, s')"
      by (metis prod_cases3)
    from begin_numbered(2) [OF True this, of c] show ?thesis using assms(3) True False by auto
  next
    case False
    from begin_other(1) [OF this, of c "mv_mirroredSessions (rn_server st)"] show ?thesis using assms(3) by simp
  qed
  then show ?thesis using False by (intro situation_keep [OF assms(2)]) (auto simp: isRequest_def repliesTo_def)
next
  case True
  then have num: "numbered msg" and c: "mm_requestorID msg = c" by simp_all
  obtain p isNew s' where acq: "acquireFor msg (session st c) = (p, isNew, s')" by (metis prod_cases3)
  have ok: "session_ok (session st c)" using assms(1) by (simp add: runOk_def)
  note first = begin_numbered [OF num acq [folded c], unfolded assms(3), simplified]
  note eff = slot_acquired [OF ok acq]
  have new: "isNew" "slot = Some p" using first(1) by (simp_all split: if_splits)
  have s': "session ?st c = s'" using first(2) [of c] c by simp
  have reps: "repliesTo c n ?st = repliesTo c n st" by (simp add: repliesTo_def)
  have slots: "ss_slots s' ! q = ss_slots (session st c) ! q" if "map_of (ss_mirrorProcessState (session st c)) n = Some q" for q
    using ok that by (auto simp: eff(4) session_ok_def nth_append)
  show ?thesis
  proof (cases "mm_sequenceNumber msg = n")
    case n: True
    have "map_of (ss_mirrorProcessState (session st c)) n = None"
      using eff(1) new(1) n assms(4) num c by (simp add: covers_def split: if_splits)
    then have "executions c n st = []" "working c n st = []" "repliesTo c n st = {}" using assms(2) by (simp_all add: situation_def)
    moreover have "map_of (ss_mirrorProcessState s') n = Some p" "ss_slots s' ! p = None" using n eff(4,5) new(1) by (simp_all add: eff(3))
    moreover have "isRequest c n msg" using num c n by (simp add: isRequest_def)
    ultimately show ?thesis using s' new reps by (simp add: situation_def)
  next
    case False
    then have "map_of (ss_mirrorProcessState s') n = map_of (ss_mirrorProcessState (session st c)) n"
      using assms(4) num c by (auto simp: eff(3) covers_def)
    then show ?thesis using slots s' reps False by (intro situation_keep [OF assms(2)]) (simp_all add: isRequest_def)
  qed
qed

lemma situation_finish:
  assumes "runOk st" "situation c n st" "rn_active st = before @ (msg, slot) # after"
    and "session st' c = sessionAt c (fillSlot msg slot r (mv_mirroredSessions (rn_server st)))"
    and "rn_active st' = before @ after" "rn_replies st' = (msg, Response r) # rn_replies st" "rn_executed st' = rn_executed st"
  shows "situation c n st'"
proof -
  let ?store = "mv_mirroredSessions (rn_server st)"
  have a: "activeOk ?store (msg, slot)" using assms(1,3) by (simp add: runOk_def)
  then have known: "slot \<noteq> None \<longrightarrow> known (mm_requestorID msg) ?store" by (auto simp: activeOk_def numbered_def)
  note same = fill_sessions [OF a, of c r] and effect = fill_effect(1) [OF known, of c r]
  show ?thesis
  proof (cases "isRequest c n msg")
    case True
    then obtain p where p: "slot = Some p" using a by (cases slot) (simp_all add: activeOk_def isRequest_def)
    have c: "mm_requestorID msg = c" using True by (simp add: isRequest_def)
    have w: "working c n st \<noteq> []" using True assms(3) by simp
    then obtain q msg' where q: "map_of (ss_mirrorProcessState (session st c)) n = Some q" "working c n st = [(msg', Some q)]"
      "ss_slots (session st c) ! q = None" "repliesTo c n st \<subseteq> {TryAgain}" "length (executions c n st) = 1"
      using assms(2) by (auto simp: situation_def split: option.splits)
    have rest: "working c n st' = []" "q = p" using q(2) assms(3,5) True p by (auto simp: Cons_eq_append_conv append_eq_Cons_conv)
    have len: "p < length (ss_slots (session st c))" using a p c by (simp add: activeOk_def)
    have slots: "ss_slots (session st' c) ! p = Some r" using assms(4) effect p c len by simp
    have "repliesTo c n st' \<subseteq> insert TryAgain (Response ` set_option (Some r))"
      using q(4) assms(6) by (auto simp: repliesTo_def)
    then show ?thesis using same(1) q(1,5) rest slots assms(4,7) by (simp add: situation_def)
  next
    case False
    have "ss_slots (session st' c) ! q = ss_slots (session st c) ! q" if q: "map_of (ss_mirrorProcessState (session st c)) n = Some q" for q
    proof -
      have "q \<noteq> p" if "slot = Some p" "mm_requestorID msg = c" for p
        using a that q False by (auto simp: activeOk_def isRequest_def)
      then show ?thesis using effect assms(4) by (auto split: option.splits)
    qed
    then show ?thesis
      using same(1) False assms(3-7) by (intro situation_keep [OF assms(2)]) (auto simp: repliesTo_def)
  qed
qed

lemma situation_reachable:
  "mirror_reachable h st \<Longrightarrow> \<forall>msg \<in> set (rn_begun st). \<not> covers c n msg \<Longrightarrow> situation c n st"
proof (induction rule: mirror_reachable.induct)
  case (init s)
  show ?case by (simp add: situation_def sessionAt_def Session_construct_def repliesTo_def)
next
  case (step st st')
  note ok = runOk_reachable [OF step.hyps(1)]
  from step.hyps(2) show ?case
  proof cases
    case (answer msg reply sessions)
    then show ?thesis using step.IH step.prems situation_answer [OF ok _ answer(2), of c n] by simp
  next
    case (start msg slot sessions)
    then show ?thesis using step.IH step.prems situation_start [OF ok _ start(2), of c n] by simp
  next
    case (finish before msg slot after r storage)
    have "situation c n st" using step.IH step.prems finish(1) by simp
    then show ?thesis by (rule situation_finish [OF ok _ finish(2), where r = r]) (simp_all add: finish(1))
  next
    case (early before msg slot after r storage further)
    have "situation c n st" using step.IH step.prems early(1) by simp
    then show ?thesis by (rule situation_finish [OF ok _ early(2), where r = r]) (simp_all add: early(1))
  next
    case (close before msg further after)
    have "situation c n st" using step.IH step.prems close(1) by simp
    then show ?thesis by (rule situation_keep) (simp_all add: close(1) repliesTo_def)
  qed
qed

section \<open>Properties\<close>

text \<open>Runs that are given by the arrivals and completions.\<close>

datatype 'q mirror_op = Arrive "'q MirroredMessage" | Complete nat | Close nat

fun mirror_perform :: "('q, 's, 'a) handler \<Rightarrow> 'q mirror_op \<Rightarrow> ('q, 's, 'a) run \<Rightarrow> ('q, 's, 'a) run" where
  "mirror_perform h (Arrive msg) st =
     (case processBegin msg (mv_mirroredSessions (rn_server st)) of
        (Inl reply, sessions) \<Rightarrow> st\<lparr>rn_server := (rn_server st)\<lparr>mv_mirroredSessions := sessions\<rparr>,
          rn_begun := msg # rn_begun st, rn_replies := (msg, reply) # rn_replies st\<rparr>
      | (Inr slot, sessions) \<Rightarrow> st\<lparr>rn_server := (rn_server st)\<lparr>mv_mirroredSessions := sessions\<rparr>,
          rn_begun := msg # rn_begun st, rn_executed := msg # rn_executed st, rn_active := (msg, slot) # rn_active st\<rparr>)"
| "mirror_perform h (Complete i) st =
     (if i < length (rn_active st) then
        let (msg, slot) = rn_active st ! i;
            active = take i (rn_active st) @ drop (Suc i) (rn_active st);
            sessions = mv_mirroredSessions (rn_server st)
        in case executeLocally h (mm_isMirrored msg \<and> mm_buddyMirrorSecond msg) (mm_body msg) (mv_storage (rn_server st)) of
             Returned r storage \<Rightarrow>
               st\<lparr>rn_server := (rn_server st)\<lparr>mv_storage := storage, mv_mirroredSessions := leave msg (fillSlot msg slot r sessions)\<rparr>,
                 rn_active := active, rn_replies := (msg, Response r) # rn_replies st\<rparr>
           | CompletedEarly r storage further \<Rightarrow>
               st\<lparr>rn_server := (rn_server st)\<lparr>mv_storage := storage, mv_mirroredSessions := fillSlot msg slot r sessions\<rparr>,
                 rn_active := active, rn_closing := (msg, further) # rn_closing st, rn_replies := (msg, Response r) # rn_replies st\<rparr>
      else st)"
| "mirror_perform h (Close i) st =
     (if i < length (rn_closing st) then
        let (msg, further) = rn_closing st ! i
        in st\<lparr>rn_server := (rn_server st)\<lparr>mv_storage := further (mv_storage (rn_server st)),
               mv_mirroredSessions := leave msg (mv_mirroredSessions (rn_server st))\<rparr>,
             rn_closing := take i (rn_closing st) @ drop (Suc i) (rn_closing st)\<rparr>
      else st)"

definition mirror_init :: "'s \<Rightarrow> ('q, 's, 'a) run" where
  "mirror_init s = \<lparr>rn_server = \<lparr>mv_storage = s, mv_mirroredSessions = []\<rparr>, rn_active = [], rn_closing = [], rn_begun = [], rn_executed = [], rn_replies = []\<rparr>"

lemma perform_reachable: "mirror_reachable h st \<Longrightarrow> mirror_reachable h (mirror_perform h op st)"
proof (cases op)
  case (Arrive msg)
  assume r: "mirror_reachable h st"
  obtain result sessions where p: "processBegin msg (mv_mirroredSessions (rn_server st)) = (result, sessions)" by force
  then show ?thesis
    using mirror_reachable.step [OF r mirror_step.answer] mirror_reachable.step [OF r mirror_step.start]
    by (cases result) (simp_all add: Arrive)
next
  case (Complete i)
  assume r: "mirror_reachable h st"
  show ?thesis
  proof (cases "i < length (rn_active st)")
    case True
    obtain msg slot where a: "rn_active st ! i = (msg, slot)" by force
    have "rn_active st = take i (rn_active st) @ (msg, slot) # drop (Suc i) (rn_active st)" using id_take_nth_drop [OF True] a by simp
    moreover obtain e where e: "executeLocally h (mm_isMirrored msg \<and> mm_buddyMirrorSecond msg) (mm_body msg) (mv_storage (rn_server st)) = e" by simp
    ultimately show ?thesis
      using mirror_reachable.step [OF r mirror_step.finish] mirror_reachable.step [OF r mirror_step.early] a True
      by (cases e) (simp_all add: Complete)
  qed (use r in \<open>simp add: Complete\<close>)
next
  case (Close i)
  assume r: "mirror_reachable h st"
  show ?thesis
  proof (cases "i < length (rn_closing st)")
    case True
    obtain msg further where a: "rn_closing st ! i = (msg, further)" by force
    have "rn_closing st = take i (rn_closing st) @ (msg, further) # drop (Suc i) (rn_closing st)" using id_take_nth_drop [OF True] a by simp
    then show ?thesis using mirror_reachable.step [OF r mirror_step.close] a True by (simp add: Close)
  qed (use r in \<open>simp add: Close\<close>)
qed

lemma performs_reachable: "mirror_reachable h st \<Longrightarrow> mirror_reachable h (fold (mirror_perform h) ops st)"
  by (induction ops arbitrary: st) (simp_all add: perform_reachable)

text \<open>Requests that add to a counter, even numbers early and with one more afterwards, and the request with the given number of client 7.\<close>

definition counterHandler :: "(nat, nat, nat) handler" where
  "counterHandler = \<lparr>h_executeLocally = \<lambda>second q s. if odd q then Returned (s + q) (s + q) else CompletedEarly (s + q) (s + q) Suc, h_changesObservableState = \<lambda>_. True,
     h_forward = \<lambda>q a. q, h_asExpected = (=)\<rparr>"

definition counterRequest :: "u64 \<Rightarrow> u64 \<Rightarrow> bool \<Rightarrow> nat \<Rightarrow> nat MirroredMessage" where
  "counterRequest n done selective q = \<lparr>mm_isMirrored = True, mm_hasSequenceNumber = True, mm_isSelectiveAck = selective,
     mm_buddyMirrorSecond = False, mm_sequenceNumber = n, mm_sequenceNumberDone = done, mm_requestorID = 7, mm_body = Request q\<rparr>"

text \<open>
  C15. Requests to a mirrored metadata server are executed at most once, however retries and other
  requests overlap: as long as the client has not acknowledged a number, there is at most one
  execution of a request with this number, and all replies to such requests are the response of that
  execution or ask to come again.
\<close>

theorem mirrored_at_most_once:
  assumes "mirror_reachable h st" "\<forall>msg \<in> set (rn_begun st). \<not> covers c n msg"
  shows "length (filter (isRequest c n) (rn_executed st)) \<le> 1 \<and>
    (\<exists>r. \<forall>(msg, reply) \<in> set (rn_replies st). isRequest c n msg \<longrightarrow> reply = TryAgain \<or> reply = Response r)"
proof -
  note sit = situation_reachable [OF assms]
  have reps: "\<exists>r. repliesTo c n st \<subseteq> {TryAgain, Response r} \<Longrightarrow> ?thesis" if "length (executions c n st) \<le> 1"
    using that by (auto simp: repliesTo_def)
  show ?thesis
  proof (cases "map_of (ss_mirrorProcessState (session st c)) n")
    case None
    then show ?thesis using sit by (intro reps) (auto simp: situation_def)
  next
    case (Some p)
    have "\<exists>r. repliesTo c n st \<subseteq> {TryAgain, Response r}"
      using sit Some by (cases "ss_slots (session st c) ! p") (auto simp: situation_def)
    then show ?thesis using sit Some by (intro reps) (auto simp: situation_def)
  qed
qed

definition retriedRun :: "(nat, nat, nat) run" where
  "retriedRun = fold (mirror_perform counterHandler)
     [Arrive (counterRequest 5 2 False 4), Arrive (counterRequest 5 2 False 4), Complete 0, Arrive (counterRequest 5 4 True 4), Close 0,
      Arrive (counterRequest 6 4 False 3), Complete 0] (mirror_init 10)"

lemma retriedRun_reachable: "mirror_reachable counterHandler retriedRun"
  unfolding retriedRun_def mirror_init_def by (intro performs_reachable mirror_reachable.init)

lemma retriedRun_facts:
  "list_all (\<lambda>msg. \<not> covers 7 5 msg) (rn_begun retriedRun)"
  "map snd (rn_replies retriedRun) = [Response (Answer 18), Response (Answer 14), Response (Answer 14), TryAgain]"
  by code_simp+

theorem mirrored_at_most_once_witness:
  "length (filter (isRequest 7 5) (rn_executed retriedRun)) \<le> 1 \<and>
   map snd (rn_replies retriedRun) = [Response (Answer 18), Response (Answer 14), Response (Answer 14), TryAgain]"
  using mirrored_at_most_once [OF retriedRun_reachable, of 7 5] retriedRun_facts unfolding list_all_iff by blast

end
