(* ===== verification/Mirror_Agreement.thy ===== *)
theory Mirror_Agreement
  imports Mirror_Runs
begin

text \<open>
  Both servers of a buddy group: while every forwarded request is delivered at the first or second attempt, primary and secondary
  have the same metadata, and the secondary knows every request that a client may repeat after a
  failover. What a message has to fulfil for this is the contract of the locale.
\<close>

section \<open>Slots by number\<close>

definition slotOf :: "('s, 'a) MetaServer \<Rightarrow> u32 \<Rightarrow> u64 \<Rightarrow> 'a answer option option" where
  "slotOf sv c n = map_option (\<lambda>p. ss_slots (sessionAt c (mv_mirroredSessions sv)) ! p)
     (map_of (ss_mirrorProcessState (sessionAt c (mv_mirroredSessions sv))) n)"

definition serverOk :: "('s, 'a) MetaServer \<Rightarrow> bool" where
  "serverOk sv \<longleftrightarrow> (\<forall>c. session_ok (sessionAt c (mv_mirroredSessions sv)))"

lemma slotOf_init: "slotOf \<lparr>mv_storage = s, mv_mirroredSessions = []\<rparr> c n = None"
  by (simp add: slotOf_def sessionAt_def Session_construct_def)

lemma serverOk_init: "serverOk \<lparr>mv_storage = s, mv_mirroredSessions = []\<rparr>"
  by (simp add: serverOk_def sessionAt_def session_ok_construct)

text \<open>What a numbered message does to the server that processes it.\<close>

definition afterAck :: "('s, 'a) MetaServer \<Rightarrow> 'q MirroredMessage \<Rightarrow> u32 \<Rightarrow> u64 \<Rightarrow> 'a answer option option" where
  "afterAck sv msg c n = (if covers c n msg then None else slotOf sv c n)"

lemma process_known:
  assumes "serverOk sv" "numbered msg" "afterAck sv msg (mm_requestorID msg) (mm_sequenceNumber msg) = Some slot"
  shows "\<exists>sv'. processIncoming h send msg (sv, x) = (case slot of Some r \<Rightarrow> Response r | None \<Rightarrow> TryAgain, sv', x) \<and>
    mv_storage sv' = mv_storage sv \<and> serverOk sv' \<and> slotOf sv' = afterAck sv msg"
proof -
  let ?store = "mv_mirroredSessions sv" and ?i = "mm_requestorID msg"
  obtain p isNew s' where acq: "acquireFor msg (sessionAt ?i ?store) = (p, isNew, s')" by (metis prod_cases3)
  have ok: "session_ok (sessionAt ?i ?store)" using assms(1) by (simp add: serverOk_def)
  note first = begin_numbered [OF assms(2) acq] and eff = slot_acquired [OF ok acq]
  obtain q where at: "map_of (ss_mirrorProcessState (sessionAt ?i ?store)) (mm_sequenceNumber msg) = Some q"
    "\<not> acked (mm_isSelectiveAck msg) (mm_sequenceNumberDone msg) (mm_sequenceNumber msg)" "slot = ss_slots (sessionAt ?i ?store) ! q"
    using assms(2,3) by (auto simp: afterAck_def slotOf_def covers_def split: if_splits)
  have old: "\<not> isNew" "p = q" using eff(1,2) at by auto
  have small: "map_of (ss_mirrorProcessState (sessionAt ?i ?store)) n = Some r \<Longrightarrow> r < length (ss_slots (sessionAt ?i ?store))" for n r
    using ok by (auto simp: session_ok_def)
  obtain sessions where b: "processBegin msg ?store = (Inl (case slot of Some r \<Rightarrow> Response r | None \<Rightarrow> TryAgain), sessions)"
    using first(1) old at small [OF at(1)] by (cases "processBegin msg ?store") (simp add: eff(4) nth_append)
  note first = first [unfolded b snd_conv]
  let ?sv = "sv\<lparr>mv_mirroredSessions := sessions\<rparr>"
  from b have "processIncoming h send msg (sv, x) = (case slot of Some r \<Rightarrow> Response r | None \<Rightarrow> TryAgain, ?sv, x)"
    by (simp add: processIncoming_def)
  moreover have "slotOf ?sv c n = afterAck sv msg c n" for c n
    using at(1,2) assms(2) old small [of n]
    by (cases "map_of (ss_mirrorProcessState (sessionAt ?i ?store)) n")
       (auto simp: slotOf_def afterAck_def first(2) eff(3,4) covers_def nth_append)
  moreover have "serverOk ?sv" using assms(1) eff(6) by (simp add: serverOk_def first(2))
  ultimately show ?thesis by (intro exI [of _ ?sv]) auto
qed

lemma process_new:
  assumes "serverOk sv" "numbered msg" "afterAck sv msg (mm_requestorID msg) (mm_sequenceNumber msg) = None"
    and "outcome (executeLocally h (mm_buddyMirrorSecond msg) (mm_body msg) (mv_storage sv)) = (r, storage)"
  shows "\<exists>sv'. processIncoming h send msg (sv, x) =
      (Response r, sv', if mm_buddyMirrorSecond msg then x else send (toSecondary h msg r) r x) \<and>
    mv_storage sv' = storage \<and> serverOk sv' \<and>
    slotOf sv' = (\<lambda>c n. if isRequest c n msg then Some (Some r) else afterAck sv msg c n)"
proof -
  let ?store = "mv_mirroredSessions sv" and ?i = "mm_requestorID msg"
  obtain p isNew s' where acq: "acquireFor msg (sessionAt ?i ?store) = (p, isNew, s')" by (metis prod_cases3)
  have ok: "session_ok (sessionAt ?i ?store)" using assms(1) by (simp add: serverOk_def)
  note first = begin_numbered [OF assms(2) acq] and eff = slot_acquired [OF ok acq]
  have new: "isNew" using eff(1) assms(2,3) by (auto simp: afterAck_def slotOf_def covers_def split: if_splits)
  obtain sessions where b: "processBegin msg ?store = (Inr (Some p), sessions)" using first(1) new by (cases "processBegin msg ?store") simp
  note first = first [unfolded b snd_conv]
  let ?e = "leave msg (fillSlot msg (Some p) r sessions)"
  let ?sv = "sv\<lparr>mv_storage := storage, mv_mirroredSessions := ?e\<rparr>"
  have mir: "mm_isMirrored msg" using assms(2) by (simp add: numbered_def)
  have run: "processIncoming h send msg (sv, x) = (Response r, ?sv, if mm_buddyMirrorSecond msg then x else send (toSecondary h msg r) r x)"
    using processIncoming_new [OF b, of h r storage send x] assms(4) mir by simp
  have known: "Some p \<noteq> None \<longrightarrow> known ?i sessions" using first(3) by simp
  have e: "sessionAt c (fillSlot msg (Some p) r sessions) = (if c = ?i then s'\<lparr>ss_slots := (ss_slots s')[p := Some r]\<rparr> else sessionAt c ?store)" for c
    by (simp add: fill_effect(1) [OF known] first(2))
  have p: "p = length (ss_slots (sessionAt ?i ?store))" using eff(5) new by simp
  have small: "map_of (ss_mirrorProcessState (sessionAt ?i ?store)) n = Some q \<Longrightarrow> q < p" for n q
    using ok p by (auto simp: session_ok_def)
  have slots: "length (ss_slots s') = Suc p" "\<And>q. q < p \<Longrightarrow> ss_slots s' ! q = ss_slots (sessionAt ?i ?store) ! q"
    by (simp_all add: eff(4) p nth_append)
  have "slotOf ?sv c n = (if isRequest c n msg then Some (Some r) else afterAck sv msg c n)" for c n
    using assms(2) small [of n]
    by (cases "map_of (ss_mirrorProcessState (sessionAt ?i ?store)) n")
       (auto simp: slotOf_def afterAck_def e eff(3) slots covers_def isRequest_def)
  moreover have "serverOk ?sv" using assms(1) eff(6) by (auto simp: serverOk_def e session_ok_def)
  ultimately show ?thesis using run by (intro exI [of _ ?sv]) auto
qed

section \<open>Agreement of the buddies\<close>

text \<open>The secondary is in use, and the message or its repetition arrives and is answered.\<close>

definition goodLink :: "link \<Rightarrow> bool" where
  "goodLink ln \<longleftrightarrow> \<not> ln_resyncInProgress ln \<and> ln_nodeKnown ln \<and> (ln_delivery ln = Delivered \<or> ln_redelivery ln = Delivered) \<and>
     (stateOnlineGood (ln_secondaryState ln) \<or> stateReachable (ln_secondaryState ln) \<and>
       (case ln_resyncJob ln of None \<Rightarrow> False | Some (running, success) \<Rightarrow> running \<or> success))"

text \<open>What the slot on the secondary holds for a response of the primary.\<close>

definition secondaryAnswer :: "('q, 's, 'a) handler \<Rightarrow> 'a \<Rightarrow> 'a answer" where
  "secondaryAnswer h a = (if h_changesObservableState h a then Answer a else AckNotifyResp)"

definition slotsAgree :: "('q, 's, 'a) handler \<Rightarrow> 'a answer option option \<Rightarrow> 'a answer option option \<Rightarrow> bool" where
  "slotsAgree h x y \<longleftrightarrow>
     (case x of None \<Rightarrow> y = None | Some r \<Rightarrow> \<exists>a. r = Some (Answer a) \<and> y = Some (Some (secondaryAnswer h a)))"

definition replicas ::
    "('q, 's, 'a) handler \<Rightarrow> 'q MirroredMessage list \<Rightarrow> ('s, 'a) MetaServer \<Rightarrow> ('s, 'a) MetaServer \<Rightarrow> bool" where
  "replicas h ms P S \<longleftrightarrow> mv_storage P = mv_storage S \<and> serverOk P \<and> serverOk S \<and>
     (\<forall>c n. (\<forall>m \<in> set ms. \<not> covers c n m) \<longrightarrow> slotsAgree h (slotOf P c n) (slotOf S c n))"

text \<open>A client numbers its requests and does not acknowledge a number that it still uses.\<close>

definition disciplined :: "'q MirroredMessage list \<Rightarrow> 'q MirroredMessage \<Rightarrow> bool" where
  "disciplined ms msg \<longleftrightarrow> numbered msg \<and> \<not> mm_buddyMirrorSecond msg \<and>
     (\<forall>m \<in> set (msg # ms). \<not> covers (mm_requestorID msg) (mm_sequenceNumber msg) m)"

lemma covers_update [simp]:
  "covers c n (msg\<lparr>mm_body := b\<rparr>) = covers c n msg" "covers c n (msg\<lparr>mm_buddyMirrorSecond := v\<rparr>) = covers c n msg"
  "isRequest c n (msg\<lparr>mm_body := b\<rparr>) = isRequest c n msg" "isRequest c n (msg\<lparr>mm_buddyMirrorSecond := v\<rparr>) = isRequest c n msg"
  "numbered (msg\<lparr>mm_body := b\<rparr>) = numbered msg" "numbered (msg\<lparr>mm_buddyMirrorSecond := v\<rparr>) = numbered msg"
  by (simp_all add: covers_def isRequest_def numbered_def)

lemma send_good:
  assumes "goodLink ln" "srv_requestResponseNode h ln (msg\<lparr>mm_buddyMirrorSecond := True\<rparr>) (bd_secondary B) = (FhgfsOpsErr_SUCCESS, resp, S')"
    and "secondaryOk h own resp"
  shows "sendToSecondary h ln msg own B = B\<lparr>bd_secondary := S'\<rparr>"
proof -
  have "\<not> (\<not> stateOnlineGood (ln_secondaryState ln) \<and> (case ln_resyncJob ln of None \<Rightarrow> True | Some (running, success) \<Rightarrow> \<not> running \<and> \<not> success))"
    "\<not> ln_resyncInProgress ln"
    using assms(1) by (auto simp: goodLink_def split: option.splits)
  then show ?thesis using assms(2,3) unfolding sendToSecondary_def by (simp only: if_not_P if_False) simp
qed

text \<open>A message that is answered in the same way when it is repeated gets its answer over a good link.\<close>

lemma node_good:
  assumes "goodLink ln" "processSecondary h msg S = (Response r, S1)" "processSecondary h msg S1 = (Response r, S2)" "respMsgType (mm_body msg) r"
  shows "\<exists>S'. srv_requestResponseNode h ln msg S = (FhgfsOpsErr_SUCCESS, Some r, S') \<and> (S' = S1 \<or> S' = S2)"
proof -
  have "stateReachable (ln_secondaryState ln)" "ln_nodeKnown ln" and d: "ln_delivery ln = Delivered \<or> ln_redelivery ln = Delivered"
    using assms(1) by (auto simp: goodLink_def stateReachable_def)
  then show ?thesis using assms(2-4)
    by (cases "ln_delivery ln") (auto simp: srv_requestResponseNode_def srv_requestResponseComm_def)
qed

text \<open>A primary that processes requests one after the other, each with the state of its link.\<close>

fun serve ::
    "('q, 's, 'a) handler \<Rightarrow> (link \<times> 'q MirroredMessage) list \<Rightarrow> ('s, 'a) MetaServer \<times> ('s, 'a) Buddy
       \<Rightarrow> 'a reply list \<times> ('s, 'a) MetaServer \<times> ('s, 'a) Buddy" where
  "serve h [] st = ([], st)"
| "serve h ((ln, msg) # xs) st =
     (let (reply, st) = processPrimary h ln msg st; (replies, st) = serve h xs st in (reply # replies, st))"

fun disciplinedRun :: "'q MirroredMessage list \<Rightarrow> 'q MirroredMessage list \<Rightarrow> bool" where
  "disciplinedRun ms [] \<longleftrightarrow> True"
| "disciplinedRun ms (msg # rest) \<longleftrightarrow> disciplined ms msg \<and> disciplinedRun (msg # ms) rest"

fun carries :: "('q \<Rightarrow> bool) \<Rightarrow> 'q request \<Rightarrow> bool" where
  "carries fits (Request q) \<longleftrightarrow> fits q"
| "carries fits AckNotify \<longleftrightarrow> False"

text \<open>After a failover the former secondary answers what it has a slot for.\<close>

lemma failover_reply:
  assumes "replicas h ms P S" "disciplined ms msg" "slotOf P (mm_requestorID msg) (mm_sequenceNumber msg) = Some (Some (Answer a))"
  shows "\<exists>S'. processPrimary h ln msg (S, B) = (Response (secondaryAnswer h a), S', B) \<and> mv_storage S' = mv_storage S"
proof -
  let ?c = "mm_requestorID msg" and ?n = "mm_sequenceNumber msg"
  have m: "numbered msg" "\<not> covers ?c ?n msg" "\<forall>m \<in> set ms. \<not> covers ?c ?n m" using assms(2) by (simp_all add: disciplined_def)
  have S: "serverOk S" using assms(1) by (simp add: replicas_def)
  have "slotsAgree h (slotOf P ?c ?n) (slotOf S ?c ?n)" using assms(1) m(3) by (simp add: replicas_def)
  then have "afterAck S msg ?c ?n = Some (Some (secondaryAnswer h a))" using assms(3) m(2) by (simp add: slotsAgree_def afterAck_def)
  from process_known [OF S m(1) this, of h "sendToSecondary h ln" B] show ?thesis by (auto simp: processPrimary_def)
qed

text \<open>A primary and its secondary that start with the same metadata and no sessions.\<close>

definition freshPair :: "'s \<Rightarrow> ('s, 'a) MetaServer \<times> ('s, 'a) Buddy" where
  "freshPair s =
     (let server = \<lparr>mv_storage = s, mv_mirroredSessions = []\<rparr> in (server, \<lparr>bd_secondary = server, bd_needsResync = False\<rparr>))"

lemma replicas_init: "replicas h [] \<lparr>mv_storage = s, mv_mirroredSessions = []\<rparr> \<lparr>mv_storage = s, mv_mirroredSessions = []\<rparr>"
  by (simp add: replicas_def serverOk_def slotsAgree_def slotOf_def sessionAt_def session_ok_def Session_construct_def)

locale replicated_message =
  fixes h :: "('q, 's, 'a) handler" and inv :: "'s \<Rightarrow> bool" and fits :: "'q \<Rightarrow> bool"
  assumes responds: "inv s \<Longrightarrow> fits q \<Longrightarrow> \<exists>a s'. outcome (h_executeLocally h False q s) = (a, s') \<and> inv s'"
    and forwarded: "inv s \<Longrightarrow> fits q \<Longrightarrow> outcome (h_executeLocally h False q s) = (a, s') \<Longrightarrow> h_changesObservableState h a \<Longrightarrow>
      outcome (h_executeLocally h True (h_forward h q a) s) = (a, s') \<and> h_asExpected h a a"
    and unchanged: "inv s \<Longrightarrow> fits q \<Longrightarrow> outcome (h_executeLocally h False q s) = (a, s') \<Longrightarrow> \<not> h_changesObservableState h a \<Longrightarrow> s' = s"
begin

lemma secondary_follows:
  assumes "serverOk S" "numbered msg" "slotOf S (mm_requestorID msg) (mm_sequenceNumber msg) = None"
    and "inv (mv_storage S)" "fits q" "outcome (h_executeLocally h False q (mv_storage S)) = (a, s')" "goodLink ln" "bd_secondary B = S"
    and body: "body = (if h_changesObservableState h a then Request (h_forward h q a) else AckNotify)"
    and uncovered: "\<not> covers (mm_requestorID msg) (mm_sequenceNumber msg) msg"
  shows "\<exists>S'. sendToSecondary h ln (msg\<lparr>mm_body := body\<rparr>) (Answer a) B = B\<lparr>bd_secondary := S'\<rparr> \<and> mv_storage S' = s' \<and> serverOk S' \<and>
    slotOf S' = (\<lambda>c n. if isRequest c n msg then Some (Some (secondaryAnswer h a)) else afterAck S msg c n)"
proof -
  let ?msg = "msg\<lparr>mm_body := body, mm_buddyMirrorSecond := True\<rparr>" and ?r = "secondaryAnswer h a"
  let ?slots = "\<lambda>c n. if isRequest c n msg then Some (Some ?r) else afterAck S msg c n"
  have ex: "outcome (executeLocally h (mm_buddyMirrorSecond ?msg) (mm_body ?msg) (mv_storage S)) = (?r, s')"
    using forwarded [OF assms(4-6)] unchanged [OF assms(4-6)]
    by (cases "h_changesObservableState h a") (simp_all add: body secondaryAnswer_def outcome_request del: executeLocally.simps(2))
  have ack: "afterAck V ?msg = afterAck V msg" for V :: "('s, 'a) MetaServer" by (intro ext) (simp add: afterAck_def)
  have new: "afterAck S ?msg (mm_requestorID ?msg) (mm_sequenceNumber ?msg) = None" using assms(3) by (simp add: ack) (simp add: afterAck_def)
  have num: "numbered ?msg" using assms(2) by simp
  obtain S1 where S1: "processSecondary h ?msg S = (Response ?r, S1)" "mv_storage S1 = s'" "serverOk S1" "slotOf S1 = ?slots"
    using process_new [OF assms(1) num new ex, of "\<lambda>_ _ _. ()" "()"] unfolding ack by (auto simp: processSecondary_def)
  have same: "afterAck S1 msg = ?slots" using uncovered by (intro ext) (auto simp: afterAck_def S1(4) isRequest_def)
  have "afterAck S1 ?msg (mm_requestorID ?msg) (mm_sequenceNumber ?msg) = Some (Some ?r)"
    using assms(2) by (simp add: ack same) (simp add: isRequest_def)
  from process_known [OF S1(3) num this, of h "\<lambda>_ _ _. ()" "()"]
  obtain S2 where S2: "processSecondary h ?msg S1 = (Response ?r, S2)" "mv_storage S2 = s'" "serverOk S2" "slotOf S2 = ?slots"
    using S1(2) by (auto simp: ack same processSecondary_def)
  have "respMsgType (mm_body ?msg) ?r" by (simp add: body secondaryAnswer_def)
  from node_good [OF assms(7) S1(1) S2(1) this] obtain S' where
    S': "srv_requestResponseNode h ln ?msg S = (FhgfsOpsErr_SUCCESS, Some ?r, S')" "S' = S1 \<or> S' = S2" by blast
  have "secondaryOk h (Answer a) (Some ?r)" using forwarded [OF assms(4-6)] by (simp add: secondaryAnswer_def)
  from send_good [OF assms(7) _ this, of "msg\<lparr>mm_body := body\<rparr>" B S'] S'(1) assms(8)
  have "sendToSecondary h ln (msg\<lparr>mm_body := body\<rparr>) (Answer a) B = B\<lparr>bd_secondary := S'\<rparr>" by simp
  then show ?thesis using S1(2-4) S2(2-4) S'(2) by (intro exI [of _ S']) auto
qed

lemma primary_step:
  assumes "replicas h ms P (bd_secondary B)" "disciplined ms msg" "mm_body msg = Request q" "fits q" "inv (mv_storage P)" "goodLink ln"
  shows "\<exists>a P' B'. processPrimary h ln msg (P, B) = (Response (Answer a), P', B') \<and> replicas h (msg # ms) P' (bd_secondary B') \<and>
    bd_needsResync B' = bd_needsResync B \<and> inv (mv_storage P') \<and>
    slotOf P' (mm_requestorID msg) (mm_sequenceNumber msg) = Some (Some (Answer a)) \<and>
    (\<forall>c n v. slotOf P c n = Some v \<and> \<not> covers c n msg \<longrightarrow> slotOf P' c n = Some v) \<and>
    (\<forall>c n. slotOf P c n = None \<and> \<not> isRequest c n msg \<longrightarrow> slotOf P' c n = None) \<and>
    (case slotOf P (mm_requestorID msg) (mm_sequenceNumber msg) of
       None \<Rightarrow> outcome (h_executeLocally h False q (mv_storage P)) = (a, mv_storage P')
     | Some v \<Rightarrow> v = Some (Answer a) \<and> mv_storage P' = mv_storage P)"
proof -
  let ?S = "bd_secondary B" and ?c = "mm_requestorID msg" and ?n = "mm_sequenceNumber msg"
  have num: "numbered msg" "\<not> mm_buddyMirrorSecond msg" and un: "\<not> covers ?c ?n msg" "\<forall>m \<in> set ms. \<not> covers ?c ?n m"
    using assms(2) by (simp_all add: disciplined_def)
  have ok: "serverOk P" "serverOk ?S" "mv_storage P = mv_storage ?S"
    and agree: "\<And>c n. \<forall>m \<in> set ms. \<not> covers c n m \<Longrightarrow> slotsAgree h (slotOf P c n) (slotOf ?S c n)"
    using assms(1) by (simp_all add: replicas_def)
  have own: "afterAck P msg ?c ?n = slotOf P ?c ?n" using un(1) by (simp add: afterAck_def)
  show ?thesis
  proof (cases "slotOf P ?c ?n")
    case (Some slot)
    then obtain a where a: "slot = Some (Answer a)" using agree [OF un(2)] by (auto simp: slotsAgree_def)
    then obtain P' where P': "processPrimary h ln msg (P, B) = (Response (Answer a), P', B)" "mv_storage P' = mv_storage P" "serverOk P'"
      "slotOf P' = afterAck P msg"
      using process_known [OF ok(1) num(1), of slot h "sendToSecondary h ln" B] own Some by (auto simp: processPrimary_def)
    have "slotsAgree h (slotOf P' c n) (slotOf ?S c n)" if "\<forall>m \<in> set (msg # ms). \<not> covers c n m" for c n
      using agree [of c n] that P'(4) by (simp add: afterAck_def)
    then show ?thesis using P' ok assms(5) own Some a by (simp add: replicas_def) (simp add: afterAck_def)
  next
    case None
    then have none: "slotOf ?S ?c ?n = None" using agree [OF un(2)] by (simp add: slotsAgree_def)
    obtain a s' where ex: "outcome (h_executeLocally h False q (mv_storage P)) = (a, s')" and inv': "inv s'"
      using responds [OF assms(5,4)] by blast
    let ?body = "if h_changesObservableState h a then Request (h_forward h q a) else AckNotify"
    have run: "outcome (executeLocally h (mm_buddyMirrorSecond msg) (mm_body msg) (mv_storage P)) = (Answer a, s')"
      using ex num(2) assms(3) by (simp add: outcome_request del: executeLocally.simps(2))
    have to: "toSecondary h msg (Answer a) = msg\<lparr>mm_body := ?body\<rparr>" using assms(3) by (simp add: toSecondary_def)
    from process_new [OF ok(1) num(1) _ run, of "sendToSecondary h ln" B]
    obtain P' where P': "processPrimary h ln msg (P, B) = (Response (Answer a), P', sendToSecondary h ln (msg\<lparr>mm_body := ?body\<rparr>) (Answer a) B)"
      "mv_storage P' = s'" "serverOk P'" "slotOf P' = (\<lambda>c n. if isRequest c n msg then Some (Some (Answer a)) else afterAck P msg c n)"
      using own None num(2) to by (auto simp: processPrimary_def)
    obtain S' where S': "sendToSecondary h ln (msg\<lparr>mm_body := ?body\<rparr>) (Answer a) B = B\<lparr>bd_secondary := S'\<rparr>" "mv_storage S' = s'" "serverOk S'"
      "slotOf S' = (\<lambda>c n. if isRequest c n msg then Some (Some (secondaryAnswer h a)) else afterAck ?S msg c n)"
      using secondary_follows [OF ok(2) num(1) none _ assms(4) _ assms(6) refl refl un(1)] assms(5) ex ok(3) by auto
    have "slotsAgree h (slotOf P' c n) (slotOf S' c n)" if "\<forall>m \<in> set (msg # ms). \<not> covers c n m" for c n
      using agree [of c n] that P'(4) S'(4) by (simp add: afterAck_def) (simp add: slotsAgree_def)
    moreover have "isRequest ?c ?n msg" "\<And>c n. isRequest c n msg \<Longrightarrow> slotOf P c n = None" using num(1) None by (auto simp: isRequest_def)
    moreover from this(2) have "\<forall>c n v. slotOf P c n = Some v \<and> \<not> covers c n msg \<longrightarrow> slotOf P' c n = Some v"
      using P'(4) by (auto simp: afterAck_def)
    moreover have "\<forall>c n. slotOf P c n = None \<and> \<not> isRequest c n msg \<longrightarrow> slotOf P' c n = None" using P'(4) by (simp add: afterAck_def)
    ultimately show ?thesis using P' S' inv' ex None by (simp add: replicas_def)
  qed
qed

lemma serve_agree:
  "replicas h ms P (bd_secondary B) \<Longrightarrow> disciplinedRun ms (map snd xs) \<Longrightarrow>
   list_all (\<lambda>(ln, msg). goodLink ln \<and> carries fits (mm_body msg)) xs \<Longrightarrow> inv (mv_storage P) \<Longrightarrow>
   \<exists>as P' B'. serve h xs (P, B) = (map (\<lambda>a. Response (Answer a)) as, P', B') \<and> replicas h (rev (map snd xs) @ ms) P' (bd_secondary B') \<and>
     bd_needsResync B' = bd_needsResync B \<and> inv (mv_storage P') \<and> length as = length xs \<and>
     (\<forall>i < length xs. (\<forall>m \<in> set (map snd xs). \<not> covers (mm_requestorID (snd (xs ! i))) (mm_sequenceNumber (snd (xs ! i))) m) \<longrightarrow>
        slotOf P' (mm_requestorID (snd (xs ! i))) (mm_sequenceNumber (snd (xs ! i))) = Some (Some (Answer (as ! i)))) \<and>
     (\<forall>c n v. slotOf P c n = Some v \<and> (\<forall>m \<in> set (map snd xs). \<not> covers c n m) \<longrightarrow> slotOf P' c n = Some v)"
proof (induction xs arbitrary: ms P B)
  case Nil
  then show ?case by (intro exI [of _ "[]"]) simp
next
  case (Cons x xs)
  obtain ln msg where x: "x = (ln, msg)" by (cases x)
  let ?c = "mm_requestorID msg" and ?n = "mm_sequenceNumber msg"
  obtain q where q: "mm_body msg = Request q" "fits q" using Cons.prems(3) by (cases "mm_body msg") (simp_all add: x)
  obtain a P' B' where step: "processPrimary h ln msg (P, B) = (Response (Answer a), P', B')"
    "replicas h (msg # ms) P' (bd_secondary B')" "bd_needsResync B' = bd_needsResync B" "inv (mv_storage P')"
    "slotOf P' ?c ?n = Some (Some (Answer a))" "\<forall>c n v. slotOf P c n = Some v \<and> \<not> covers c n msg \<longrightarrow> slotOf P' c n = Some v"
    using primary_step [OF Cons.prems(1) _ q Cons.prems(4), of ln] Cons.prems(2,3) by (auto simp: x)
  obtain as P2 B2 where rest: "serve h xs (P', B') = (map (\<lambda>a. Response (Answer a)) as, P2, B2)"
    "replicas h (rev (map snd xs) @ msg # ms) P2 (bd_secondary B2)" "bd_needsResync B2 = bd_needsResync B'" "length as = length xs \<and> inv (mv_storage P2)"
    "\<forall>i < length xs. (\<forall>m \<in> set (map snd xs). \<not> covers (mm_requestorID (snd (xs ! i))) (mm_sequenceNumber (snd (xs ! i))) m) \<longrightarrow>
        slotOf P2 (mm_requestorID (snd (xs ! i))) (mm_sequenceNumber (snd (xs ! i))) = Some (Some (Answer (as ! i)))"
    "\<forall>c n v. slotOf P' c n = Some v \<and> (\<forall>m \<in> set (map snd xs). \<not> covers c n m) \<longrightarrow> slotOf P2 c n = Some v"
    using Cons.IH [OF step(2) _ _ step(4)] Cons.prems(2,3) by (auto simp: x)
  have keep: "slotOf P2 c n = Some v" if "slotOf P c n = Some v" "\<forall>m \<in> set (map snd (x # xs)). \<not> covers c n m" for c n v
    using that step(6) rest(6) by (simp add: x)
  have "slotOf P2 (mm_requestorID (snd ((x # xs) ! i))) (mm_sequenceNumber (snd ((x # xs) ! i))) = Some (Some (Answer ((a # as) ! i)))"
    if "i < length (x # xs)" "\<forall>m \<in> set (map snd (x # xs)). \<not> covers (mm_requestorID (snd ((x # xs) ! i))) (mm_sequenceNumber (snd ((x # xs) ! i))) m" for i
    using that step(5) rest(5,6) by (cases i) (simp_all add: x)
  with keep step rest show ?case by (intro exI [of _ "a # as"] exI [of _ P2] exI [of _ B2] conjI allI impI) (simp_all add: x)
qed

text \<open>
  The answers of the primary, the metadata on both servers, and what the former secondary answers
  after a failover when a request is sent again.
\<close>

lemma failover:
  assumes "disciplinedRun [] (map snd xs)" "list_all (\<lambda>(ln, msg). goodLink ln \<and> carries fits (mm_body msg)) xs" "inv s"
  shows "\<exists>as P B. serve h xs (freshPair s) = (map (\<lambda>a. Response (Answer a)) as, P, B) \<and> length as = length xs \<and>
    mv_storage (bd_secondary B) = mv_storage P \<and> inv (mv_storage P) \<and> \<not> bd_needsResync B \<and>
    (\<forall>i < length xs. disciplined (map snd xs) (snd (xs ! i)) \<longrightarrow>
      (\<forall>ln B0. \<exists>S'. processPrimary h ln (snd (xs ! i)) (bd_secondary B, B0) = (Response (secondaryAnswer h (as ! i)), S', B0) \<and>
        mv_storage S' = mv_storage P))"
proof -
  let ?S = "\<lparr>mv_storage = s, mv_mirroredSessions = []\<rparr>"
  obtain as P B where run: "serve h xs (freshPair s) = (map (\<lambda>a. Response (Answer a)) as, P, B)" "length as = length xs"
    and r: "replicas h (rev (map snd xs)) P (bd_secondary B)" "inv (mv_storage P)" "\<not> bd_needsResync B"
    and slots: "\<forall>i < length xs. (\<forall>m \<in> set (map snd xs). \<not> covers (mm_requestorID (snd (xs ! i))) (mm_sequenceNumber (snd (xs ! i))) m) \<longrightarrow>
        slotOf P (mm_requestorID (snd (xs ! i))) (mm_sequenceNumber (snd (xs ! i))) = Some (Some (Answer (as ! i)))"
    using serve_agree [OF _ assms(1,2), of ?S "\<lparr>bd_secondary = ?S, bd_needsResync = False\<rparr>"] replicas_init [of h s] assms(3)
    by (auto simp: freshPair_def Let_def)
  have same: "mv_storage (bd_secondary B) = mv_storage P" using r(1) by (simp add: replicas_def)
  have "\<exists>S'. processPrimary h ln (snd (xs ! i)) (bd_secondary B, B0) = (Response (secondaryAnswer h (as ! i)), S', B0) \<and>
      mv_storage S' = mv_storage P" if "i < length xs" "disciplined (map snd xs) (snd (xs ! i))" for i ln B0
  proof -
    have "disciplined (rev (map snd xs)) (snd (xs ! i))" using that(2) by (simp add: disciplined_def)
    moreover have "slotOf P (mm_requestorID (snd (xs ! i))) (mm_sequenceNumber (snd (xs ! i))) = Some (Some (Answer (as ! i)))"
      using slots that by (simp add: disciplined_def)
    ultimately show ?thesis using failover_reply [OF r(1)] same by metis
  qed
  with run r(2,3) same show ?thesis by blast
qed

end

end
