(* ===== verification/Lock_Messages.thy ===== *)
theory Lock_Messages
  imports Mirror_Agreement Range_Lock_Requests Entry_Locks Storage_Errors
begin

text \<open>
  The messages that lock and unlock a file (\<^verbatim>\<open>FLockRangeMsgEx.cpp\<close>, \<^verbatim>\<open>FLockEntryMsgEx.cpp\<close>,
  \<^verbatim>\<open>FLockAppendMsgEx.cpp\<close> and \<^verbatim>\<open>MsgHelperLocking.cpp\<close>) as mirrored messages, for one file. The state is
  the locks of its inode, its version, which clients have it open, and what the store of the
  metadata says: the result of opening the file, whether its inode can be referenced, and whether an
  updated inode can be written.
\<close>

section \<open>Operations\<close>

record 'l LockedFile =
  lk_sessionFiles :: "(u32 \<times> u32) list"
  lk_locks :: 'l
  lk_fileVersion :: u32
  lk_openRes :: FhgfsOpsErr
  lk_referenced :: bool
  lk_stored :: bool

definition ENTRYLOCKTYPE_LOCKOPS_REMOVE :: u32 where
  "ENTRYLOCKTYPE_LOCKOPS_REMOVE = ENTRYLOCKTYPE_UNLOCK OR ENTRYLOCKTYPE_CANCEL"

text \<open>Recovery of the session of an open file: it fails if the number is in use.\<close>

definition MsgHelperLocking_trySesssionRecovery :: "u32 \<Rightarrow> u32 \<Rightarrow> 'l LockedFile \<Rightarrow> FhgfsOpsErr \<times> 'l LockedFile" where
  "MsgHelperLocking_trySesssionRecovery clientID ownerFD this =
     (if lk_openRes this \<noteq> FhgfsOpsErr_SUCCESS then (lk_openRes this, this)
      else if (clientID, ownerFD) \<in> set (lk_sessionFiles this) then (FhgfsOpsErr_INTERNAL, this)
      else (FhgfsOpsErr_SUCCESS, this\<lparr>lk_sessionFiles := (clientID, ownerFD) # lk_sessionFiles this\<rparr>))"

definition FileInode_incrementFileVersion :: "'l LockedFile \<Rightarrow> bool \<times> 'l LockedFile" where
  "FileInode_incrementFileVersion this = (lk_stored this, this\<lparr>lk_fileVersion := lk_fileVersion this + 1\<rparr>)"

text \<open>
  The part that the three handlers share: the lock operation, the tests for a request that is
  ignored and for a cancel request when the file is not open, whether the version changes, and
  whether waiters are notified. The result: the code for the client, the waiters to notify, the
  state.
\<close>

definition flockMessage ::
    "('d \<Rightarrow> 'l \<Rightarrow> bool \<times> 'd list \<times> 'l) \<Rightarrow> bool \<Rightarrow> bool \<Rightarrow> bool \<Rightarrow> bool \<Rightarrow> u32 \<Rightarrow> u32 \<Rightarrow> 'd \<Rightarrow> 'l LockedFile
       \<Rightarrow> FhgfsOpsErr \<times> 'd list \<times> 'l LockedFile" where
  "flockMessage flock ignored cancel newVersion notify clientID ownerFD lockDetails this =
     (let found = (clientID, ownerFD) \<in> set (lk_sessionFiles this)
      in if \<not> found \<and> ignored then (FhgfsOpsErr_SUCCESS, [], this)
         else if \<not> found \<and> cancel then
           (FhgfsOpsErr_SUCCESS, [],
            if lk_referenced this then this\<lparr>lk_locks := snd (snd (flock lockDetails (lk_locks this)))\<rparr> else this)
         else
           let (recoverRes, this) =
                 (if found then (FhgfsOpsErr_SUCCESS, this) else MsgHelperLocking_trySesssionRecovery clientID ownerFD this)
           in if recoverRes \<noteq> FhgfsOpsErr_SUCCESS then (recoverRes, [], this)
              else
                let (granted, notifyList, locks) = flock lockDetails (lk_locks this);
                    this = this\<lparr>lk_locks := locks\<rparr>;
                    clientResult = (if granted then FhgfsOpsErr_SUCCESS else FhgfsOpsErr_WOULDBLOCK);
                    (bumped, this) = (if newVersion then FileInode_incrementFileVersion this else (True, this))
                in if \<not> bumped then (FhgfsOpsErr_INTERNAL, [], this)
                   else (clientResult, if notify then notifyList else [], this))"

definition FLockRangeMsgEx_executeLocally ::
    "bool \<Rightarrow> u32 \<Rightarrow> RangeLockDetails \<Rightarrow> RangeLockState LockedFile \<Rightarrow> FhgfsOpsErr \<times> RangeLockDetails list \<times> RangeLockState LockedFile" where
  "FLockRangeMsgEx_executeLocally isSecondary ownerFD lockDetails =
     flockMessage flockRange (rl_lockTypeFlags lockDetails AND ENTRYLOCKTYPE_LOCKOPS_REMOVE \<noteq> 0)
       (rl_lockTypeFlags lockDetails AND ENTRYLOCKTYPE_CANCEL \<noteq> 0) (rl_lockTypeFlags lockDetails AND ENTRYLOCKTYPE_UNLOCK \<noteq> 0)
       (\<not> isSecondary) (rl_clientNumID lockDetails) ownerFD lockDetails"

definition FLockEntryMsgEx_executeLocally ::
    "bool \<Rightarrow> u32 \<Rightarrow> EntryLockDetails \<Rightarrow> EntryLockQueues LockedFile \<Rightarrow> FhgfsOpsErr \<times> EntryLockDetails list \<times> EntryLockQueues LockedFile" where
  "FLockEntryMsgEx_executeLocally isSecondary ownerFD lockDetails =
     flockMessage flockEntry (el_lockTypeFlags lockDetails AND ENTRYLOCKTYPE_UNLOCK \<noteq> 0)
       (el_lockTypeFlags lockDetails AND ENTRYLOCKTYPE_CANCEL \<noteq> 0) (el_lockTypeFlags lockDetails AND ENTRYLOCKTYPE_UNLOCK \<noteq> 0)
       (\<not> isSecondary) (el_clientNumID lockDetails) ownerFD lockDetails"

definition MsgHelperLocking_flockAppend ::
    "u32 \<Rightarrow> EntryLockDetails \<Rightarrow> AppendLockState LockedFile \<Rightarrow> FhgfsOpsErr \<times> EntryLockDetails list \<times> AppendLockState LockedFile" where
  "MsgHelperLocking_flockAppend ownerFD lockDetails =
     flockMessage flockAppend (el_isUnlock lockDetails) (el_isCancel lockDetails) False True (el_clientNumID lockDetails) ownerFD lockDetails"

definition FLockAppendMsgEx_executeLocally ::
    "bool \<Rightarrow> u32 \<Rightarrow> EntryLockDetails \<Rightarrow> AppendLockState LockedFile \<Rightarrow> FhgfsOpsErr \<times> EntryLockDetails list \<times> AppendLockState LockedFile" where
  "FLockAppendMsgEx_executeLocally isSecondary ownerFD lockDetails = MsgHelperLocking_flockAppend ownerFD lockDetails"

text \<open>
  The responses are error codes (\<^verbatim>\<open>ErrorCodeResponseState\<close>): only success counts as a change. The secondary
  is expected to give the code of the primary.
\<close>

definition ErrorCodeResponseState_changesObservableState :: "FhgfsOpsErr \<Rightarrow> bool" where
  "ErrorCodeResponseState_changesObservableState result \<longleftrightarrow> result = FhgfsOpsErr_SUCCESS"

definition lockHandler ::
    "(bool \<Rightarrow> u32 \<Rightarrow> 'd \<Rightarrow> 'l LockedFile \<Rightarrow> FhgfsOpsErr \<times> 'd list \<times> 'l LockedFile) \<Rightarrow> (u32 \<times> 'd, 'l LockedFile, FhgfsOpsErr) handler" where
  "lockHandler execute =
     \<lparr>h_executeLocally = \<lambda>isSecondary (ownerFD, lockDetails) s.
        (case execute isSecondary ownerFD lockDetails s of (result, notifyList, s) \<Rightarrow> Returned result s),
      h_changesObservableState = ErrorCodeResponseState_changesObservableState,
      h_forward = \<lambda>q result. q, h_asExpected = (=)\<rparr>"

section \<open>Requests that do not wait\<close>

text \<open>Such a request is granted, or it leaves the locks as they are.\<close>

lemma range_refused:
  assumes "\<not> rl_allowsWaiting d \<or> rl_isUnlock d \<or> rl_isCancel d" "flockRange d q = (False, ns, q')"
  shows "q' = q \<and> \<not> rl_isUnlock d"
  using assms by (auto simp: flockRangeUnlocked_def flockRangeNewRequest_def flockRangeFinish_def Let_def split: if_splits prod.splits)

lemma entry_refused:
  assumes "\<not> el_allowsWaiting d \<or> el_isUnlock d \<or> el_isCancel d" "flockEntryUnlocked d q = (False, ns, q')"
  shows "q' = q \<and> \<not> el_isUnlock d"
  using assms by (auto simp: flockEntryUnlocked_def flockEntryNewRequest_def flockEntryFinish_def Let_def split: if_splits prod.splits)

lemma append_refused:
  assumes "\<not> el_allowsWaiting d \<or> el_isUnlock d \<or> el_isCancel d" "flockAppend d q = (False, ns, q')"
  shows "q' = q"
proof -
  obtain q1 where q1: "flockEntryUnlocked d (AppendLockQueuesContainer q) = (False, ns, q1)" "q' = append_state q1"
    using assms(2) by (auto simp: flockAppend_def Let_def split: prod.splits)
  have "q1 = AppendLockQueuesContainer q" using entry_refused [OF assms(1) q1(1)] by simp
  then show ?thesis using q1(2) by (simp add: append_state_def AppendLockQueuesContainer_def)
qed

text \<open>The clients in \<^term>\<open>files\<close> have the file open and the inode can be written.\<close>

definition openFor :: "(u32 \<times> u32) set \<Rightarrow> 'l LockedFile \<Rightarrow> bool" where
  "openFor files s \<longleftrightarrow> lk_stored s \<and> files \<subseteq> set (lk_sessionFiles s)"

lemma flockMessage_open:
  assumes "openFor files s" "(c, fd) \<in> files" "flock d (lk_locks s) = (granted, ns, locks)"
  shows "flockMessage flock ign can ver ntf c fd d s = (if granted then FhgfsOpsErr_SUCCESS else FhgfsOpsErr_WOULDBLOCK, if ntf then ns else [],
    s\<lparr>lk_locks := locks, lk_fileVersion := (if ver then lk_fileVersion s + 1 else lk_fileVersion s)\<rparr>)"
proof -
  have "(c, fd) \<in> set (lk_sessionFiles s)" "lk_stored s" using assms(1,2) by (auto simp: openFor_def)
  then show ?thesis using assms(3) by (simp add: flockMessage_def Let_def FileInode_incrementFileVersion_def)
qed

lemma lockHandler_simps [simp]:
  "h_changesObservableState (lockHandler execute) a \<longleftrightarrow> a = FhgfsOpsErr_SUCCESS"
  "h_forward (lockHandler execute) q a = q" "h_asExpected (lockHandler execute) = (=)"
  by (simp_all add: lockHandler_def ErrorCodeResponseState_changesObservableState_def)

lemma lock_replicated:
  fixes execute :: "bool \<Rightarrow> u32 \<Rightarrow> 'd \<Rightarrow> 'l LockedFile \<Rightarrow> FhgfsOpsErr \<times> 'd list \<times> 'l LockedFile"
  assumes execute: "\<And>sec fd d. execute sec fd d = flockMessage flock (ign d) (can d) (ver d) (ntf sec) (cl d) fd d"
    and refused: "\<And>d l ns l'. immediate d \<Longrightarrow> flock d l = (False, ns, l') \<Longrightarrow> l' = l \<and> \<not> ver d"
    and linv: "\<And>d l g ns l'. immediate d \<Longrightarrow> linv l \<Longrightarrow> flock d l = (g, ns, l') \<Longrightarrow> linv l'"
  shows "replicated_message (lockHandler execute) (\<lambda>s. openFor files s \<and> linv (lk_locks s)) (\<lambda>(fd, d). (cl d, fd) \<in> files \<and> immediate d)"
proof -
  have run: "h_executeLocally (lockHandler execute) sec (fd, d) s =
      Returned (if fst (flock d (lk_locks s)) then FhgfsOpsErr_SUCCESS else FhgfsOpsErr_WOULDBLOCK)
       (s\<lparr>lk_locks := snd (snd (flock d (lk_locks s))), lk_fileVersion := (if ver d then lk_fileVersion s + 1 else lk_fileVersion s)\<rparr>)"
    if "openFor files s" "(cl d, fd) \<in> files" for sec fd d s
    using flockMessage_open [where flock = flock, OF that, of d]
    by (cases "flock d (lk_locks s)") (auto simp: lockHandler_def execute)
  show ?thesis
  proof
    fix s :: "'l LockedFile" and q assume s: "openFor files s \<and> linv (lk_locks s)" and "case q of (fd, d) \<Rightarrow> (cl d, fd) \<in> files \<and> immediate d"
    then obtain fd d where q: "q = (fd, d)" "(cl d, fd) \<in> files" "immediate d" by (cases q) simp
    obtain g ns l where l: "flock d (lk_locks s) = (g, ns, l)" by (metis prod_cases3)
    have "linv l" using linv [OF q(3) _ l] s by simp
    with s show "\<exists>a s'. outcome (h_executeLocally (lockHandler execute) False q s) = (a, s') \<and> openFor files s' \<and> linv (lk_locks s')"
      using run [of s d fd False] q l by (simp add: openFor_def)
  next
    fix s :: "'l LockedFile" and q a s' assume "openFor files s \<and> linv (lk_locks s)" and *: "case q of (fd, d) \<Rightarrow> (cl d, fd) \<in> files \<and> immediate d"
      "outcome (h_executeLocally (lockHandler execute) False q s) = (a, s')"
    then have s: "openFor files s" by simp
    show "outcome (h_executeLocally (lockHandler execute) True (h_forward (lockHandler execute) q a) s) = (a, s') \<and>
        h_asExpected (lockHandler execute) a a"
      using s * by (cases q) (simp add: run)
    show "s' = s" if "\<not> h_changesObservableState (lockHandler execute) a"
    proof -
      obtain fd d where q: "q = (fd, d)" by (cases q)
      have f: "(cl d, fd) \<in> files" "immediate d" using *(1) by (simp_all add: q)
      obtain g ns l where l: "flock d (lk_locks s) = (g, ns, l)" by (metis prod_cases3)
      have "\<not> g" using that *(2) run [OF s f(1), of False] l by (auto simp: q split: if_splits)
      then have "l = lk_locks s" "\<not> ver d" using refused [OF f(2), of "lk_locks s" ns l] l by simp_all
      then show ?thesis using l *(2) run [OF s f(1), of False] by (auto simp: q)
    qed
  qed
qed

definition rangeFits :: "(u32 \<times> u32) set \<Rightarrow> u32 \<times> RangeLockDetails \<Rightarrow> bool" where
  "rangeFits files = (\<lambda>(fd, d). (rl_clientNumID d, fd) \<in> files \<and> rl_valid d \<and> (\<not> rl_allowsWaiting d \<or> rl_isUnlock d \<or> rl_isCancel d))"

definition entryFits :: "(u32 \<times> u32) set \<Rightarrow> u32 \<times> EntryLockDetails \<Rightarrow> bool" where
  "entryFits files = (\<lambda>(fd, d). (el_clientNumID d, fd) \<in> files \<and> (\<not> el_allowsWaiting d \<or> el_isUnlock d \<or> el_isCancel d))"

definition rangeLocked :: "(u32 \<times> u32) set \<Rightarrow> RangeLockState LockedFile \<Rightarrow> bool" where
  "rangeLocked files s \<longleftrightarrow> openFor files s \<and> range_reachable (lk_locks s)"

lemma range_message: "replicated_message (lockHandler FLockRangeMsgEx_executeLocally) (rangeLocked files) (rangeFits files)"
  unfolding rangeFits_def rangeLocked_def
proof (rule lock_replicated [OF FLockRangeMsgEx_executeLocally_def])
  fix d l ns l' assume "rl_valid d \<and> (\<not> rl_allowsWaiting d \<or> rl_isUnlock d \<or> rl_isCancel d)" "flockRange d l = (False, ns, l')"
  then show "l' = l \<and> \<not> (rl_lockTypeFlags d AND ENTRYLOCKTYPE_UNLOCK \<noteq> 0)" using range_refused by (auto simp: rl_isUnlock_def)
next
  fix d l g ns l' assume "rl_valid d \<and> (\<not> rl_allowsWaiting d \<or> rl_isUnlock d \<or> rl_isCancel d)" "range_reachable l" "flockRange d l = (g, ns, l')"
  then show "range_reachable l'" using range_reachable.step [of l "FlockRange d"] by (simp add: range_exec_def)
qed

interpretation range_msg: replicated_message "lockHandler FLockRangeMsgEx_executeLocally" "rangeLocked files" "rangeFits files" for files
  by (rule range_message)

interpretation entry_msg: replicated_message "lockHandler FLockEntryMsgEx_executeLocally" "\<lambda>s. openFor files s \<and> True" "entryFits files" for files
  unfolding entryFits_def
  by (rule lock_replicated [OF FLockEntryMsgEx_executeLocally_def]) (use entry_refused in \<open>auto simp: el_isUnlock_def\<close>)

interpretation append_msg: replicated_message "lockHandler FLockAppendMsgEx_executeLocally" "\<lambda>s. openFor files s \<and> True" "entryFits files" for files
  unfolding entryFits_def
  by (rule lock_replicated [where ntf = "\<lambda>_. True" and ver = "\<lambda>_. False"])
     (use append_refused in \<open>auto simp: FLockAppendMsgEx_executeLocally_def MsgHelperLocking_flockAppend_def\<close>)

section \<open>Sample requests\<close>

text \<open>A request of a process of a client, with its number and the last number the client is done with.\<close>

definition rangeRequest :: "u64 \<Rightarrow> u64 \<Rightarrow> u32 \<Rightarrow> RangeLockDetails \<Rightarrow> (u32 \<times> RangeLockDetails) MirroredMessage" where
  "rangeRequest n done fd d = \<lparr>mm_isMirrored = True, mm_hasSequenceNumber = True, mm_isSelectiveAck = False, mm_buddyMirrorSecond = False,
     mm_sequenceNumber = n, mm_sequenceNumberDone = done, mm_requestorID = rl_clientNumID d, mm_body = Request (fd, d)\<rparr>"

definition sampleLink :: link where
  "sampleLink = \<lparr>ln_resyncInProgress = False, ln_secondaryState = Some \<lparr>ct_reachabilityState = TargetReachabilityState_ONLINE,
     ct_consistencyState = TargetConsistencyState_GOOD\<rparr>, ln_resyncJob = None, ln_nodeKnown = True, ln_delivery = Delivered, ln_redelivery = Lost\<rparr>"

text \<open>The first answer of the secondary is lost and the message is repeated.\<close>

definition repeatLink :: link where
  "repeatLink = sampleLink\<lparr>ln_delivery := AnswerLost, ln_redelivery := Delivered\<rparr>"

definition openedFile :: "RangeLockState LockedFile" where
  "openedFile = \<lparr>lk_sessionFiles = [(1, 5), (2, 6), (3, 8)], lk_locks = range_init, lk_fileVersion = 0, lk_openRes = FhgfsOpsErr_SUCCESS,
     lk_referenced = True, lk_stored = True\<rparr>"

text \<open>Client 1 locks 0 to 99, client 2 asks for 50 to 149 without waiting, client 1 unlocks, client 2 asks again.\<close>

definition immediateRun :: "(link \<times> (u32 \<times> RangeLockDetails) MirroredMessage) list" where
  "immediateRun = map (Pair repeatLink)
     [rangeRequest 4 3 5 (sample_range 1 ''a'' 10 0 99), rangeRequest 9 8 6 (sample_range 2 ''b'' 10 50 149),
      rangeRequest 5 3 5 (sample_range 1 ''c'' 1 0 99), rangeRequest 10 8 6 (sample_range 2 ''d'' 10 50 149)]"

text \<open>The same with a client 2 that waits.\<close>

definition waitingRun :: "(link \<times> (u32 \<times> RangeLockDetails) MirroredMessage) list" where
  "waitingRun = map (Pair sampleLink)
     [rangeRequest 4 3 5 (sample_range 1 ''a'' 2 0 99), rangeRequest 9 8 6 (sample_range 2 ''b'' 2 50 149),
      rangeRequest 5 3 5 (sample_range 1 ''c'' 1 0 99)]"

section \<open>Properties\<close>

text \<open>
  C16. Failover of range locks: clients that have the file open send valid range lock requests that
  do not wait, and every message between the buddies arrives and is answered, at the first attempt or when it is repeated. Then all requests are answered, both servers have
  the same locks, on both no byte is locked by two processes of which one locks it exclusively, and no resync is needed. When the
  former secondary takes over and a request that is not acknowledged is sent again, it is not executed a second time;
  the answer is the first one if it was success, and the answer to an acknowledgement otherwise.
\<close>

theorem range_lock_failover:
  assumes "disciplinedRun [] (map snd xs)" "list_all (\<lambda>(ln, msg). goodLink ln \<and> carries (rangeFits files) (mm_body msg)) xs" "rangeLocked files s"
  shows "\<exists>as P B. serve (lockHandler FLockRangeMsgEx_executeLocally) xs (freshPair s) = (map (\<lambda>a. Response (Answer a)) as, P, B) \<and>
    length as = length xs \<and> mv_storage (bd_secondary B) = mv_storage P \<and> \<not> bd_needsResync B \<and>
    (\<forall>p p'. p \<noteq> p' \<longrightarrow> exclCov (lk_locks (mv_storage P)) p \<inter> lockedBytes (lk_locks (mv_storage P)) p' = {}) \<and>
    (\<forall>i < length xs. disciplined (map snd xs) (snd (xs ! i)) \<longrightarrow>
      (\<forall>ln B0. \<exists>S'. processPrimary (lockHandler FLockRangeMsgEx_executeLocally) ln (snd (xs ! i)) (bd_secondary B, B0) =
          (Response (if as ! i = FhgfsOpsErr_SUCCESS then Answer FhgfsOpsErr_SUCCESS else AckNotifyResp), S', B0) \<and>
        mv_storage S' = mv_storage P))"
proof -
  have "exclCov q p \<inter> lockedBytes q p' = {}" if "range_reachable q" "p \<noteq> p'" for q p p'
    using range_reachable_inv [OF that(1)] that(2) by (simp add: range_inv_def excl_disjoint)
  moreover have "secondaryAnswer (lockHandler e) a = (if a = FhgfsOpsErr_SUCCESS then Answer FhgfsOpsErr_SUCCESS else AckNotifyResp)"
    for e :: "bool \<Rightarrow> u32 \<Rightarrow> RangeLockDetails \<Rightarrow> RangeLockState LockedFile \<Rightarrow> FhgfsOpsErr \<times> RangeLockDetails list \<times> RangeLockState LockedFile" and a
    by (simp add: secondaryAnswer_def)
  ultimately show ?thesis using range_msg.failover [OF assms] unfolding rangeLocked_def by (elim exE conjE) (intro exI conjI; simp)
qed

theorem range_lock_failover_witness:
  "\<exists>P B. serve (lockHandler FLockRangeMsgEx_executeLocally) immediateRun (freshPair openedFile) =
      (map (\<lambda>a. Response (Answer a)) [FhgfsOpsErr_SUCCESS, FhgfsOpsErr_WOULDBLOCK, FhgfsOpsErr_SUCCESS, FhgfsOpsErr_SUCCESS], P, B) \<and>
    mv_storage (bd_secondary B) = mv_storage P \<and>
    (\<exists>S'. processPrimary (lockHandler FLockRangeMsgEx_executeLocally) sampleLink (snd (immediateRun ! 3)) (bd_secondary B, B) =
        (Response (Answer FhgfsOpsErr_SUCCESS), S', B) \<and> mv_storage S' = mv_storage P)"
proof -
  let ?h = "lockHandler FLockRangeMsgEx_executeLocally"
  have run: "disciplinedRun [] (map snd immediateRun)"
    "list_all (\<lambda>(ln, msg). goodLink ln \<and> carries (rangeFits {(1, 5), (2, 6)}) (mm_body msg)) immediateRun" by code_simp+
  have last: "length immediateRun = 4" "disciplined (map snd immediateRun) (snd (immediateRun ! 3))" by code_simp+
  have opened: "rangeLocked {(1, 5), (2, 6)} openedFile"
    by (simp add: rangeLocked_def openFor_def openedFile_def range_reachable.init)
  have replies: "fst (serve ?h immediateRun (freshPair openedFile)) =
      map (\<lambda>a. Response (Answer a)) [FhgfsOpsErr_SUCCESS, FhgfsOpsErr_WOULDBLOCK, FhgfsOpsErr_SUCCESS, FhgfsOpsErr_SUCCESS]" by code_simp
  from range_lock_failover [OF run opened] obtain as P B where
    "serve ?h immediateRun (freshPair openedFile) = (map (\<lambda>a. Response (Answer a)) as, P, B)" "length as = length immediateRun"
    "mv_storage (bd_secondary B) = mv_storage P"
    and again: "\<forall>i < length immediateRun. disciplined (map snd immediateRun) (snd (immediateRun ! i)) \<longrightarrow>
      (\<forall>ln B0. \<exists>S'. processPrimary ?h ln (snd (immediateRun ! i)) (bd_secondary B, B0) =
          (Response (if as ! i = FhgfsOpsErr_SUCCESS then Answer FhgfsOpsErr_SUCCESS else AckNotifyResp), S', B0) \<and>
        mv_storage S' = mv_storage P)" by blast
  moreover from this(1) replies have "as = [FhgfsOpsErr_SUCCESS, FhgfsOpsErr_WOULDBLOCK, FhgfsOpsErr_SUCCESS, FhgfsOpsErr_SUCCESS]"
    by (auto simp: map_eq_Cons_conv)
  moreover from this again [rule_format, of 3 sampleLink B] last have "\<exists>S'. processPrimary ?h sampleLink (snd (immediateRun ! 3)) (bd_secondary B, B) =
      (Response (Answer FhgfsOpsErr_SUCCESS), S', B) \<and> mv_storage S' = mv_storage P" by simp
  ultimately show ?thesis by blast
qed

text \<open>
  With requests that wait this fails. The request of client 2 in \<^term>\<open>waitingRun\<close> changes the locks, but its code says
  that nothing changed: it is not executed on the secondary. The unlock then grants the bytes to client 2 on the primary, and the secondary,
  which is not marked for a resync, would grant them to client 3 after a failover.
\<close>

theorem range_lock_replicas_diverge:
  "disciplinedRun [] (map snd waitingRun) \<and> list_all (\<lambda>(ln, msg). goodLink ln \<and> carries (\<lambda>(fd, d). rl_valid d) (mm_body msg)) waitingRun \<and>
   (case serve (lockHandler FLockRangeMsgEx_executeLocally) waitingRun (freshPair openedFile) of (replies, P, B) \<Rightarrow>
      replies = map (\<lambda>a. Response (Answer a)) [FhgfsOpsErr_SUCCESS, FhgfsOpsErr_WOULDBLOCK, FhgfsOpsErr_SUCCESS] \<and> \<not> bd_needsResync B \<and>
      exclRangeFLocks (lk_locks (mv_storage P)) = [sample_range 2 ''b'' 2 50 149] \<and>
      fst (processPrimary (lockHandler FLockRangeMsgEx_executeLocally) sampleLink (rangeRequest 7 6 8 (sample_range 3 ''e'' 10 50 149)) (bd_secondary B, B)) =
        Response (Answer FhgfsOpsErr_SUCCESS))"
  by code_simp

text \<open>
  A cancel request for a file that is not open on the server, for example because the client has closed it already, is ignored: the test for
  requests that remove locks includes it, so that the branch which cancels without a session is never
  taken for ranges. For locks on the whole file it is.
\<close>

theorem range_cancel_without_session:
  assumes "(rl_clientNumID d, fd) \<notin> set (lk_sessionFiles s)" "rl_isCancel d"
  shows "FLockRangeMsgEx_executeLocally isSecondary fd d s = (FhgfsOpsErr_SUCCESS, [], s)"
proof -
  have "rl_lockTypeFlags d AND ENTRYLOCKTYPE_LOCKOPS_REMOVE \<noteq> 0"
  proof
    assume "rl_lockTypeFlags d AND ENTRYLOCKTYPE_LOCKOPS_REMOVE = 0"
    then have "(rl_lockTypeFlags d AND ENTRYLOCKTYPE_LOCKOPS_REMOVE) AND ENTRYLOCKTYPE_CANCEL = 0" by simp
    moreover have "ENTRYLOCKTYPE_LOCKOPS_REMOVE AND ENTRYLOCKTYPE_CANCEL = ENTRYLOCKTYPE_CANCEL" by code_simp
    ultimately show False using assms(2) by (simp add: rl_isCancel_def and.assoc)
  qed
  with assms(1) show ?thesis by (simp add: FLockRangeMsgEx_executeLocally_def flockMessage_def)
qed

end
