(* ===== verification/Rpc_Delivery.thy ===== *)
theory Rpc_Delivery
  imports Client_Rpc_Results Lock_Messages
begin

text \<open>
  A call of the client together with the two metadata servers of its buddy group. In every pass of the loop the message may be lost,
  the response may be lost, and the secondary may take over before the message is sent. The client
  repeats the request with the same number, and takes a new number when the server that took over
  has only been told that the request is finished.
\<close>

section \<open>Client and servers\<close>

record 'a transfer =
  tr_env :: "'a surroundings"
  tr_failover :: bool
  tr_link :: link
  tr_delivered :: bool
  tr_answered :: bool

text \<open>The old primary becomes the secondary, which needs a resync.\<close>

definition takeover :: "('s, 'a) MetaServer \<times> ('s, 'a) Buddy \<Rightarrow> ('s, 'a) MetaServer \<times> ('s, 'a) Buddy" where
  "takeover sv = (bd_secondary (snd sv), \<lparr>bd_secondary = fst sv, bd_needsResync = True\<rparr>)"

definition requestMessage :: "u32 \<Rightarrow> 'q \<Rightarrow> MsgHeader \<Rightarrow> 'q MirroredMessage" where
  "requestMessage c q header = \<lparr>mm_isMirrored = True, mm_hasSequenceNumber = hd_hasSequenceNo header, mm_isSelectiveAck = hd_isSelectiveAck header,
     mm_buddyMirrorSecond = False, mm_sequenceNumber = hd_msgSequence header, mm_sequenceNumberDone = hd_msgSequenceDone header,
     mm_requestorID = c, mm_body = Request q\<rparr>"

fun asReceived :: "'a reply \<Rightarrow> 'a message" where
  "asReceived (NewSeqNoBase b) = RespGeneric GenericRespMsgCode_NEWSEQNOBASE b"
| "asReceived TryAgain = RespGeneric GenericRespMsgCode_TRYAGAIN 0"
| "asReceived (Response AckNotifyResp) = RespAckNotify"
| "asReceived (Response (Answer a)) = RespExpected a"

definition transmit ::
    "('q, 's, 'a) handler \<Rightarrow> 'a transfer \<Rightarrow> 'q MirroredMessage \<Rightarrow> ('s, 'a) MetaServer \<times> ('s, 'a) Buddy
       \<Rightarrow> 'a surroundings \<times> ('s, 'a) MetaServer \<times> ('s, 'a) Buddy" where
  "transmit h t msg sv =
     (let env = tr_env t
      in if tr_delivered t \<and> en_connected env \<and> en_bufLargeEnough env \<and> en_allocated env \<and> en_sent env then
           let (reply, sv) = processPrimary h (tr_link t) msg sv
           in (env\<lparr>en_recv := (if tr_answered t then Received (asReceived reply) else RecvFailed True)\<rparr>, sv)
         else (env\<lparr>en_recv := RecvFailed True\<rparr>, sv))"

text \<open>What a pass finds outside, and what it does to the servers.\<close>

definition attempt ::
    "('q, 's, 'a) handler \<Rightarrow> u32 \<Rightarrow> 'q \<Rightarrow> nat \<Rightarrow> RequestResponseNode \<Rightarrow> RequestResponseArgs \<Rightarrow> 'a transfer \<Rightarrow> 'a call \<Rightarrow> ClientStores
       \<Rightarrow> ('s, 'a) MetaServer \<times> ('s, 'a) Buddy \<Rightarrow> 'a surroundings \<times> ('s, 'a) MetaServer \<times> ('s, 'a) Buddy" where
  "attempt h c q handle rrNode rrArgs t call stores sv =
     (let sv = (if tr_failover t then takeover sv else sv)
      in case beforeCommunication (tr_env t) handle rrNode rrArgs call stores of
           (Proceed nodeID, call, stores) \<Rightarrow> transmit h t (requestMessage c q (cl_header call)) sv
         | _ \<Rightarrow> (tr_env t, sv))"

fun exchange ::
    "('q, 's, 'a) handler \<Rightarrow> u32 \<Rightarrow> 'q \<Rightarrow> nat \<Rightarrow> RequestResponseNode \<Rightarrow> RequestResponseArgs \<Rightarrow> 'a transfer list \<Rightarrow> 'a call \<Rightarrow> ClientStores
       \<Rightarrow> ('s, 'a) MetaServer \<times> ('s, 'a) Buddy \<Rightarrow> (FhgfsOpsErr \<times> 'a call \<times> ClientStores \<times> ('s, 'a) MetaServer \<times> ('s, 'a) Buddy) option" where
  "exchange h c q handle rrNode rrArgs [] call stores sv = None"
| "exchange h c q handle rrNode rrArgs (t # ts) call stores sv =
     (let (env, sv) = attempt h c q handle rrNode rrArgs t call stores sv
      in case requestResponsePass env handle rrNode rrArgs call stores of
           (Exit commRes, call, stores) \<Rightarrow>
             Some (commRes, call, if cs_handles stores handle \<noteq> None then releaseHandle handle call stores else stores, sv)
         | (_, call, stores) \<Rightarrow> exchange h c q handle rrNode rrArgs ts call stores sv)"

text \<open>Such a run is a call of the client with the responses that the servers give.\<close>

lemma exchange_call:
  "exchange h c q handle rrNode rrArgs ts call stores sv = Some (res, call', stores', sv') \<Longrightarrow>
   \<exists>envs. retryLoop handle rrNode rrArgs envs call stores = Some (res, call', stores')"
proof (induction ts arbitrary: call stores sv)
  case (Cons t ts)
  obtain env sv1 where e: "attempt h c q handle rrNode rrArgs t call stores sv = (env, sv1)" by (meson surj_pair)
  obtain p c1 s1 where p: "requestResponsePass env handle rrNode rrArgs call stores = (p, c1, s1)" by (metis prod_cases3)
  show ?case
  proof (cases p)
    case (Exit r)
    then show ?thesis using Cons.prems e p by (intro exI [of _ "[env]"]) (auto simp: Let_def)
  next
    case (Proceed n)
    then have "exchange h c q handle rrNode rrArgs ts c1 s1 sv1 = Some (res, call', stores', sv')" using Cons.prems e p by simp
    from Cons.IH [OF this] obtain envs where "retryLoop handle rrNode rrArgs envs c1 s1 = Some (res, call', stores')" by blast
    then show ?thesis using p Proceed by (intro exI [of _ "env # envs"]) simp
  next
    case Again
    then have "exchange h c q handle rrNode rrArgs ts c1 s1 sv1 = Some (res, call', stores', sv')" using Cons.prems e p by simp
    from Cons.IH [OF this] obtain envs where "retryLoop handle rrNode rrArgs envs c1 s1 = Some (res, call', stores')" by blast
    then show ?thesis using p Again by (intro exI [of _ "env # envs"]) simp
  qed
qed simp

section \<open>Numbers\<close>

text \<open>All numbers in flight and all finished ones have been given out.\<close>

definition belowOk :: "MirrorBuddyGroup \<Rightarrow> bool" where
  "belowOk g \<longleftrightarrow> (\<forall>x \<in># inFlight g. 0 < bs_value x \<and> bs_value x \<le> bg_sequence g) \<and> (\<forall>v \<in> set (finished g). v \<le> bg_sequence g)"

lemma acquire_below:
  assumes ok: "group_ok g hp" and h: "handle_unused h g" and below: "belowOk g" and seq: "bg_sequence g \<noteq> - 1"
    and acq: "MirrorBuddyGroup_acquireSequenceNumber h w k g hp = Acquired q a sel g' hp'"
  shows "belowOk g'" "a < q" "bg_sequence g' = q" "q = bg_sequence g + 1"
proof -
  note eff = acquire_effect [OF ok h acq]
  have less: "bg_sequence g < q" using word_less_plus_one [OF seq] eff(2) by simp
  show "bg_sequence g' = q" "q = bg_sequence g + 1" using eff(2,3) by simp_all
  have le: "0 < bs_value x \<and> bs_value x \<le> q" if "x \<in># inFlight g'" for x
    using that below less eff(4) by (fastforce simp: belowOk_def word_gt_0)
  have fin: "set (finished g') \<subseteq> set (finished g)" using eff(5,6) by (cases "finished g = []") auto
  then show "belowOk g'" using le below less eff(3) by (fastforce simp: belowOk_def)
  show "a < q"
  proof (cases "finished g = []")
    case True
    have len: "bg_inFlightSize g' \<le> length (bg_seqNoInFlight g')" "0 < bg_inFlightSize g'" using eff(1,8) by (simp_all add: group_ok_def)
    then have "bg_seqNoInFlight g' ! 0 \<in># inFlight g'" using in_inFlight [OF len(1)] by blast
    then have v: "0 < val (bg_seqNoInFlight g') 0" "val (bg_seqNoInFlight g') 0 \<le> q" using le by simp_all
    then have "val (bg_seqNoInFlight g') 0 - 1 < val (bg_seqNoInFlight g') 0"
      using unat_minus_one_less [of 0 "val (bg_seqNoInFlight g') 0"] by (simp add: word_less_nat_alt)
    then show ?thesis using eff(6) [OF True] v(2) by simp
  next
    case False
    then have "a \<in> set (finished g)" using eff(5) by (metis list.set_intros(1))
    then show ?thesis using below less by (fastforce simp: belowOk_def)
  qed
qed

lemma unacked: "a < n \<Longrightarrow> n \<le> m \<Longrightarrow> \<not> acked sel a m"
proof -
  assume "a < n" "n \<le> m"
  then have "a < m" by simp
  then have "a + 1 \<le> m" by (metis inc_le)
  with \<open>a < m\<close> show ?thesis by (auto simp: acked_def)
qed

text \<open>
  A call between its passes, when no one else uses the group: \<^term>\<open>N\<close> is the last number given out, and it is the one of the call
  if it has one.
\<close>

definition callNumbered :: "nat \<Rightarrow> u16 \<Rightarrow> nat \<Rightarrow> BuddySequenceNumber multiset \<Rightarrow> nat \<Rightarrow> u64 \<Rightarrow> 'r call \<Rightarrow> ClientStores \<Rightarrow> bool" where
  "callNumbered h gid cap F k N call stores \<longleftrightarrow>
     callOk h gid cap F k call stores \<and> cl_waiting call = None \<and> \<not> cl_wasIndirectCommErr call \<and> cl_outRespMsg call = None \<and>
     (\<exists>g. groupOf gid stores = Some g \<and> belowOk g \<and> bg_sequence g = N) \<and> N \<noteq> 0 \<and> unat N + k < 2 ^ 64 - 1 \<and>
     (hd_msgSequence (cl_header call) \<noteq> 0 \<longrightarrow>
        hd_msgSequence (cl_header call) = N \<and> hd_msgSequenceDone (cl_header call) < N \<and> hd_hasSequenceNo (cl_header call))"

lemma callNumbered_retry [simp]:
  "callNumbered h gid cap F k N (call\<lparr>cl_currentRetryNum := n\<rparr>) stores = callNumbered h gid cap F k N call stores"
  by (simp add: callNumbered_def)

definition nextNumber :: "u64 \<Rightarrow> 'r call \<Rightarrow> u64" where
  "nextNumber N call = (if hd_msgSequence (cl_header call) = 0 then N + 1 else N)"

lemma selectNode_numbered:
  assumes num: "callNumbered h gid cap F (Suc k) N call stores" and F: "\<forall>x \<in># F. bs_pSelf x \<noteq> h" "size F < cap"
    and node: "rr_isMirrorGroup rrNode" "gid = ucast (rr_address rrNode)" "ra_supportsSequenceNumbers rrArgs"
    and sel: "selectNode h rrNode rrArgs call stores = (Proceed nodeID, call', stores')"
  shows "callNumbered h gid cap F k (nextNumber N call) call' stores' \<and> hd_msgSequence (cl_header call') = nextNumber N call"
proof -
  have ok: "callOk h gid cap F (Suc k) call stores" "cl_waiting call = None" using num by (simp_all add: callNumbered_def)
  note 1 = selectNode_ok [OF ok F(1) node(2) sel]
  obtain g where g: "groupOf gid stores = Some g" "belowOk g" "bg_sequence g = N" "group_ok g (cs_handles stores)" "bg_inFlightCapacity g = cap"
    and F0: "hd_msgSequence (cl_header call) = 0 \<Longrightarrow> inFlight g = F"
    using num by (auto simp: callNumbered_def callOk_def split: if_splits)
  have N: "N \<noteq> 0" "unat N + Suc k < 2 ^ 64 - 1" using num by (simp_all add: callNumbered_def)
  show ?thesis
  proof (cases "hd_msgSequence (cl_header call) = 0")
    case False
    have "call' = call\<lparr>cl_header := (cl_header call)\<lparr>hd_hasSequenceNo := True\<rparr>\<rparr>" "stores' = stores"
      using sel node False by (auto simp: selectNode_def Let_def split: if_splits)
    then show ?thesis using num False 1 by (auto simp: callNumbered_def nextNumber_def)
  next
    case True
    have free: "0 < bg_slotsAvail g" using g(4,5) F0 [OF True] F(2) by (auto simp: group_ok_def inFlight_def)
    have h: "handle_unused h g" using unused_of_inFlight [OF g(4)] F0 [OF True] F(1) by simp
    obtain q a sl g' hp' where acq: "MirrorBuddyGroup_acquireSequenceNumber h False False g (cs_handles stores) = Acquired q a sl g' hp'"
      using free N(1) g(3)
      by (cases "MirrorBuddyGroup_acquireSequenceNumber h False False g (cs_handles stores)")
         (auto simp: MirrorBuddyGroup_acquireSequenceNumber_def Let_def split: if_splits)
    have "unat (- 1 :: u64) = 2 ^ 64 - 1" by (simp add: unsigned_minus_1_eq_mask mask_eq_exp_minus_1)
    then have seq: "bg_sequence g \<noteq> - 1" using N(2) g(3) by auto
    note b = acquire_below [OF g(4) h g(2) seq acq]
    have "MirrorBuddyGroupMapper_acquireSequenceNumber gid h (cs_mirrorBuddies stores) (cs_handles stores) =
        MapperAcquired (Some (q, a, sl)) (mm_update g' (cs_mirrorBuddies stores)) hp'"
      using acq g(1) by (simp add: MirrorBuddyGroupMapper_acquireSequenceNumber_def)
    then have res: "call' = call\<lparr>cl_header := numberAcquired (Some (q, a, sl)) ((cl_header call)\<lparr>hd_hasSequenceNo := True\<rparr>), cl_group := Some gid\<rparr>"
      "stores' = stores\<lparr>cs_mirrorBuddies := mm_update g' (cs_mirrorBuddies stores), cs_handles := hp'\<rparr>"
      using sel node True by (auto simp: selectNode_def Let_def split: if_splits)
    have g': "groupOf gid stores' = Some g'" using groupOf_update [OF g(1)] acquired_group(1) [OF acq] groupOf_id [OF g(1)] res(2) by simp
    have "unat (N + 1) = unat N + 1" using N(2) by (simp add: unat_word_ariths)
    then have "q \<noteq> 0" "unat q + k < 2 ^ 64 - 1" using b(4) g(3) N(2) by (auto simp: unat_eq_0 [symmetric])
    then show ?thesis using 1 num g' b g(3) True by (auto simp: callNumbered_def nextNumber_def res(1))
  qed
qed

lemma before_numbered:
  assumes num: "callNumbered h gid cap F (Suc k) N call stores" and F: "\<forall>x \<in># F. bs_pSelf x \<noteq> h" "size F < cap"
    and node: "rr_isMirrorGroup rrNode" "gid = ucast (rr_address rrNode)" "ra_supportsSequenceNumbers rrArgs"
    and before: "beforeCommunication env h rrNode rrArgs call stores = (p, call', stores')" "\<And>r. p \<noteq> Exit r"
  shows "callNumbered h gid cap F k (nextNumber N call) call' stores' \<and> hd_msgSequence (cl_header call') = nextNumber N call"
proof -
  have ok: "callOk h gid cap F (Suc k) call stores" "cl_waiting call = None" using num by (simp_all add: callNumbered_def)
  obtain p0 c0 s0 where s: "selectNode h rrNode rrArgs call stores = (p0, c0, s0)" by (metis prod_cases3)
  have sel: "selectOrResume env h rrNode rrArgs call stores = (p0, c0, s0)" using s ok(2) by (simp add: selectOrResume_def)
  obtain nodeID where p0: "p0 = Proceed nodeID"
    using selectNode_free [OF ok F(2) node(2) s] before sel by (cases p0) (auto simp: beforeCommunication_def)
  obtain p1 c1 where c: "checkState env rrNode rrArgs nodeID c0 s0 = (p1, c1)" by force
  then obtain n where n: "c1 = c0\<lparr>cl_currentRetryNum := n\<rparr>" using checkState_call by blast
  have "call' = c1" "stores' = s0" using before(1) sel p0 c by (auto simp: beforeCommunication_def split: progress.splits if_splits)
  then show ?thesis using selectNode_numbered [OF num F node s [unfolded p0]] n by simp
qed

lemma before_recv: "beforeCommunication (env\<lparr>en_recv := r\<rparr>) h rrNode rrArgs call stores = beforeCommunication env h rrNode rrArgs call stores"
proof -
  have "resumeWaiting (env\<lparr>en_recv := r\<rparr>) = resumeWaiting env" by (intro ext) (simp add: resumeWaiting_def)
  moreover have "checkState (env\<lparr>en_recv := r\<rparr>) = checkState env" by (intro ext) (simp add: checkState_def)
  moreover have "en_nodeKnown (env\<lparr>en_recv := r\<rparr>) = en_nodeKnown env" by simp
  ultimately show ?thesis unfolding beforeCommunication_def selectOrResume_def by (simp only:)
qed

lemma comm_plain:
  assumes "(\<exists>b. en_recv env = RecvFailed b) \<or> en_recv env = Received RespAckNotify \<or> (\<exists>a. en_recv env = Received (RespExpected a))"
    and "MessagingTk_requestResponseWithRRArgsComm env rrArgs i call stores = (res, call', stores')" "\<not> cl_wasIndirectCommErr call"
  shows "stores' = stores \<and>
    call' = call\<lparr>cl_outRespMsg := cl_outRespMsg call', cl_commErrLogged := cl_commErrLogged call', cl_wasIndirectCommErr := cl_wasIndirectCommErr call'\<rparr> \<and>
    (cl_wasIndirectCommErr call' \<longrightarrow> en_recv env = Received RespAckNotify) \<and>
    (\<forall>a. cl_outRespMsg call' = Some a \<longrightarrow> en_recv env = Received (RespExpected a)) \<and> (res = FhgfsOpsErr_SUCCESS \<longleftrightarrow> cl_outRespMsg call' \<noteq> None) \<and> res \<noteq> FhgfsOpsErr_AGAIN"
  using assms by (auto simp: MessagingTk_requestResponseWithRRArgsComm_def Let_def split: if_splits)

lemma pass_numbered:
  assumes num: "callNumbered h gid cap F k N call1 stores1" "hd_msgSequence (cl_header call1) = N" and F: "\<forall>x \<in># F. bs_pSelf x \<noteq> h"
    and before: "beforeCommunication env h rrNode rrArgs call stores = (Proceed nodeID, call1, stores1)"
    and recv: "(\<exists>b. en_recv env = RecvFailed b) \<or> en_recv env = Received RespAckNotify \<or> (\<exists>a. en_recv env = Received (RespExpected a))"
    and pass: "requestResponsePass env h rrNode rrArgs call stores = (p, call2, stores2)"
  shows "(p = Again \<longrightarrow> callNumbered h gid cap F k N call2 stores2 \<and>
      (hd_msgSequence (cl_header call2) = N \<or> hd_msgSequence (cl_header call2) = 0 \<and> en_recv env = Received RespAckNotify)) \<and>
    (p = Exit FhgfsOpsErr_SUCCESS \<longrightarrow> (\<exists>a. en_recv env = Received (RespExpected a) \<and> cl_outRespMsg call2 = Some a)) \<and> p \<noteq> Proceed n"
proof -
  obtain res c2 s2 where comm: "MessagingTk_requestResponseWithRRArgsComm env rrArgs (cl_group call1) call1 stores1 = (res, c2, s2)" by (metis prod_cases3)
  have "\<not> cl_wasIndirectCommErr call1" using num(1) by (simp add: callNumbered_def)
  note plain = comm_plain [OF recv comm this]
  define l i out where "l = cl_commErrLogged c2" and "i = cl_wasIndirectCommErr c2" and "out = cl_outRespMsg c2"
  have c2: "c2 = call1\<lparr>cl_outRespMsg := out, cl_commErrLogged := l, cl_wasIndirectCommErr := i\<rparr>" "s2 = stores1"
    "i \<Longrightarrow> en_recv env = Received RespAckNotify" "\<And>a. out = Some a \<Longrightarrow> en_recv env = Received (RespExpected a)" "res = FhgfsOpsErr_SUCCESS \<longleftrightarrow> out \<noteq> None"
    "res \<noteq> FhgfsOpsErr_AGAIN" using plain by (simp_all add: l_def i_def out_def)
  have after: "afterCommunication env h rrArgs res c2 stores1 = (p, call2, stores2)" using pass before comm c2(2) by (simp add: requestResponsePass_def)
  define c3 where "c3 = c2\<lparr>cl_currentRetryNum := cl_currentRetryNum c2 + 1\<rparr>"
  have c3: "callOk h gid cap F k c3 stores1" "cl_waiting c3 = None" "hd_msgSequence (cl_header c3) \<noteq> 0"
    using num by (simp_all add: c3_def c2(1) callNumbered_def)
  let ?s = "releaseHandle h c3 stores1"
  have fresh: "callNumbered h gid cap F k N (c3\<lparr>cl_header := (cl_header c3)\<lparr>hd_msgSequence := 0\<rparr>, cl_wasIndirectCommErr := False\<rparr>)
      (?s\<lparr>cs_handles := (cs_handles ?s)(h := None)\<rparr>)" if "res \<noteq> FhgfsOpsErr_SUCCESS"
  proof -
    obtain g g0 where g: "groupOf gid ?s = Some g" "group_ok g (cs_handles ?s)" "inFlight g = F" "handle_unused h g"
      "unat (bg_sequence g) + k < 2 ^ 64 - 1" "bg_inFlightCapacity g = cap" "groupOf gid stores1 = Some g0" "bg_sequence g = bg_sequence g0"
      "finished g = finished g0 @ [N]" using release_ok [OF c3 F] num(2) by (auto simp: c3_def c2(1))
    have g0: "belowOk g0" "bg_sequence g0 = N" "inFlight g0 = add_mset \<lparr>bs_pSelf = h, bs_value = N\<rparr> F"
      using num g(7) by (auto simp: callNumbered_def callOk_def)
    then have "belowOk g" using g(3,8,9) by (auto simp: belowOk_def)
    then show ?thesis using num(1) c2(5) that g g0(2) group_ok_unused [OF g(2,4), of None]
      by (auto simp: callNumbered_def callOk_def c3_def c2(1))
  qed
  have same: "callNumbered h gid cap F k N (c2\<lparr>cl_currentRetryNum := x\<rparr>) stores1" if "res \<noteq> FhgfsOpsErr_SUCCESS" "\<not> i" for x
    using num(1) that c2(5) by (auto simp: callNumbered_def c2(1))
  have handle: "cs_handles stores1 h \<noteq> None" using num by (auto simp: callNumbered_def callOk_def)
  show ?thesis
    using after [unfolded afterCommunication_def Let_def, folded c3_def] handle fresh same c2 num(2)
    by (cases i) (auto simp: c3_def split: if_splits)
qed

section \<open>Servers\<close>

text \<open>
  The servers before and after the takeover, for a request of client \<^term>\<open>c\<close> with number \<^term>\<open>n\<close> that gives the response \<^term>\<open>a\<close> and turns the
  metadata \<^term>\<open>s0\<close> into \<^term>\<open>s1\<close>: it has been executed once, or not at all.
\<close>

definition beforeTakeover ::
    "('q, 's, 'a) handler \<Rightarrow> u32 \<Rightarrow> u64 \<Rightarrow> 's \<Rightarrow> 's \<Rightarrow> 'a \<Rightarrow> ('s, 'a) MetaServer \<times> ('s, 'a) Buddy \<Rightarrow> bool" where
  "beforeTakeover h c n s0 s1 a sv \<longleftrightarrow>
     (\<exists>ms. replicas h ms (fst sv) (bd_secondary (snd sv)) \<and> (\<forall>m \<in> set ms. \<forall>k \<ge> n. \<not> covers c k m)) \<and> (\<forall>k > n. slotOf (fst sv) c k = None) \<and>
     (slotOf (fst sv) c n = None \<and> mv_storage (fst sv) = s0 \<or> slotOf (fst sv) c n = Some (Some (Answer a)) \<and> mv_storage (fst sv) = s1)"

definition afterTakeover :: "u32 \<Rightarrow> u64 \<Rightarrow> 's \<Rightarrow> 's \<Rightarrow> 'a \<Rightarrow> ('s, 'a) MetaServer \<times> ('s, 'a) Buddy \<Rightarrow> bool" where
  "afterTakeover c n s0 s1 a sv \<longleftrightarrow> serverOk (fst sv) \<and> (\<forall>k > n. slotOf (fst sv) c k = None) \<and>
     (slotOf (fst sv) c n = None \<and> mv_storage (fst sv) = s0 \<or> slotOf (fst sv) c n = Some (Some (Answer a)) \<and> mv_storage (fst sv) = s1 \<or>
      slotOf (fst sv) c n = Some (Some AckNotifyResp) \<and> mv_storage (fst sv) = s0 \<and> s1 = s0)"

definition numberedHeader :: "u64 \<Rightarrow> MsgHeader \<Rightarrow> bool" where
  "numberedHeader n hdr \<longleftrightarrow> hd_msgSequence hdr = n \<and> hd_msgSequenceDone hdr < n \<and> hd_hasSequenceNo hdr"

lemma requestMessage_props:
  assumes "numberedHeader n hdr"
  shows "numbered (requestMessage c q hdr)" "\<And>k. n \<le> k \<Longrightarrow> \<not> covers c' k (requestMessage c q hdr)"
    and "isRequest c' k (requestMessage c q hdr) \<longleftrightarrow> c' = c \<and> k = n"
  using assms unacked [of "hd_msgSequenceDone hdr" n] by (auto simp: numberedHeader_def requestMessage_def numbered_def covers_def isRequest_def)

lemma requestMessage_fields [simp]:
  "mm_requestorID (requestMessage c q hdr) = c" "mm_body (requestMessage c q hdr) = Request q" "\<not> mm_buddyMirrorSecond (requestMessage c q hdr)"
  by (simp_all add: requestMessage_def)

lemma transmit_cases:
  assumes "transmit h t msg sv = (env, sv')"
  obtains "sv' = sv" "env = (tr_env t)\<lparr>en_recv := RecvFailed True\<rparr>"
  | reply where "processPrimary h (tr_link t) msg sv = (reply, sv')"
      "env = (tr_env t)\<lparr>en_recv := RecvFailed True\<rparr> \<or> env = (tr_env t)\<lparr>en_recv := Received (asReceived reply)\<rparr>"
  using assms by (auto simp: transmit_def Let_def split: if_splits prod.splits)

lemma next_number:
  assumes "afterTakeover c n s0 s1 a sv" "n < n + 1" "mv_storage (fst sv) = s0"
  shows "afterTakeover c (n + 1) s0 s1 a sv"
proof -
  have "n < k" if "n + 1 < k" for k using assms(2) that by (rule less_trans)
  then show ?thesis using assms by (simp add: afterTakeover_def)
qed

context replicated_message
begin

lemma takeover_ok:
  assumes "beforeTakeover h c n s0 s1 a sv" "inv s0" "fits q" "outcome (h_executeLocally h False q s0) = (a, s1)"
  shows "afterTakeover c n s0 s1 a (takeover sv)"
proof -
  let ?P = "fst sv" and ?S = "bd_secondary (snd sv)"
  obtain ms where ms: "replicas h ms ?P ?S" "\<forall>m \<in> set ms. \<forall>k \<ge> n. \<not> covers c k m" using assms(1) by (auto simp: beforeTakeover_def)
  have agree: "slotsAgree h (slotOf ?P c k) (slotOf ?S c k)" if "n \<le> k" for k using ms that by (simp add: replicas_def)
  have S: "serverOk ?S" "mv_storage ?S = mv_storage ?P" using ms(1) by (simp_all add: replicas_def)
  have "slotOf ?S c k = None" if "n < k" for k using assms(1) that agree [of k] by (simp add: beforeTakeover_def slotsAgree_def)
  moreover have "\<not> h_changesObservableState h a \<Longrightarrow> s1 = s0" using unchanged [OF assms(2-4)] by blast
  ultimately show ?thesis using assms(1) agree [of n] S
    by (auto simp: afterTakeover_def beforeTakeover_def takeover_def slotsAgree_def secondaryAnswer_def split: if_splits)
qed

lemma transmit_before:
  assumes sv: "beforeTakeover h c n s0 s1 a sv" and inv: "inv s0" "fits q" "outcome (h_executeLocally h False q s0) = (a, s1)"
    and hdr: "numberedHeader n hdr" and link: "goodLink (tr_link t)" and tr: "transmit h t (requestMessage c q hdr) sv = (env, sv')"
  shows "beforeTakeover h c n s0 s1 a sv' \<and>
    ((\<exists>b. env = (tr_env t)\<lparr>en_recv := RecvFailed b\<rparr>) \<or> env = (tr_env t)\<lparr>en_recv := Received (RespExpected a)\<rparr> \<and> mv_storage (fst sv') = s1)"
  using tr
proof (cases rule: transmit_cases)
  case 1
  then show ?thesis using sv by blast
next
  case (2 reply)
  let ?msg = "requestMessage c q hdr" and ?P = "fst sv"
  note m = requestMessage_props [OF hdr, where c = c and q = q]
  obtain ms where ms: "replicas h ms ?P (bd_secondary (snd sv))" "\<forall>m \<in> set ms. \<forall>k \<ge> n. \<not> covers c k m" using sv by (auto simp: beforeTakeover_def)
  have n: "mm_sequenceNumber ?msg = n" using hdr by (simp add: requestMessage_def numberedHeader_def)
  have "disciplined ms ?msg" using ms(2) m by (simp add: disciplined_def n)
  moreover have "inv (mv_storage ?P)" using sv inv responds [OF inv(1,2)] by (auto simp: beforeTakeover_def)
  ultimately obtain b P' B' where p: "processPrimary h (tr_link t) ?msg (?P, snd sv) = (Response (Answer b), P', B')"
    "replicas h (?msg # ms) P' (bd_secondary B')" "slotOf P' c n = Some (Some (Answer b))"
    "\<forall>c' k. slotOf ?P c' k = None \<and> \<not> isRequest c' k ?msg \<longrightarrow> slotOf P' c' k = None"
    "case slotOf ?P c n of None \<Rightarrow> outcome (h_executeLocally h False q (mv_storage ?P)) = (b, mv_storage P')
       | Some v \<Rightarrow> v = Some (Answer b) \<and> mv_storage P' = mv_storage ?P"
    using primary_step [OF ms(1) _ _ inv(2) _ link, of ?msg] n by auto
  have "b = a" "mv_storage P' = s1" using p(5) sv inv(3) by (auto simp: beforeTakeover_def)
  moreover have "sv' = (P', B')" "reply = Response (Answer b)" using 2(1) p(1) by simp_all
  moreover have "\<forall>k > n. slotOf P' c k = None" using p(4) sv m(3) by (simp add: beforeTakeover_def)
  moreover have "\<forall>m \<in> set (?msg # ms). \<forall>k \<ge> n. \<not> covers c k m" using ms(2) m(2) by simp
  ultimately show ?thesis using p(2,3) 2(2) by (auto simp: beforeTakeover_def simp del: set_simps)
qed

lemma transmit_after:
  assumes sv: "afterTakeover c n s0 s1 a sv" and inv: "inv s0" "fits q" "outcome (h_executeLocally h False q s0) = (a, s1)"
    and hdr: "numberedHeader n hdr" and tr: "transmit h t (requestMessage c q hdr) sv = (env, sv')"
  shows "afterTakeover c n s0 s1 a sv' \<and>
    ((\<exists>b. env = (tr_env t)\<lparr>en_recv := RecvFailed b\<rparr>) \<or> env = (tr_env t)\<lparr>en_recv := Received (RespExpected a)\<rparr> \<and> mv_storage (fst sv') = s1 \<or>
     env = (tr_env t)\<lparr>en_recv := Received RespAckNotify\<rparr> \<and> mv_storage (fst sv') = s0)"
  using tr
proof (cases rule: transmit_cases)
  case 1
  then show ?thesis using sv by blast
next
  case (2 reply)
  let ?msg = "requestMessage c q hdr" and ?P = "fst sv"
  note m = requestMessage_props [OF hdr, where c = c and q = q]
  have ok: "serverOk ?P" and n: "mm_sequenceNumber ?msg = n" "mm_requestorID ?msg = c"
    using sv hdr by (simp_all add: afterTakeover_def requestMessage_def numberedHeader_def)
  have ack: "afterAck ?P ?msg c k = slotOf ?P c k" if "n \<le> k" for k using m(2) [OF that] by (simp add: afterAck_def)
  show ?thesis
  proof (cases "slotOf ?P c n")
    case (Some slot)
    then obtain P' where p: "processPrimary h (tr_link t) ?msg (?P, snd sv) = (case slot of Some r \<Rightarrow> Response r | None \<Rightarrow> TryAgain, P', snd sv)"
      "mv_storage P' = mv_storage ?P" "serverOk P'" "slotOf P' = afterAck ?P ?msg"
      using process_known [OF ok m(1), of slot h "sendToSecondary h (tr_link t)" "snd sv"] ack n by (auto simp: processPrimary_def)
    have "afterTakeover c n s0 s1 a (P', snd sv)" using sv p(2-4) ack by (simp add: afterTakeover_def)
    then show ?thesis using p 2 sv Some by (auto simp: afterTakeover_def)
  next
    case None
    then have s0: "mv_storage ?P = s0" using sv by (auto simp: afterTakeover_def)
    have "outcome (executeLocally h (mm_buddyMirrorSecond ?msg) (mm_body ?msg) (mv_storage ?P)) = (Answer a, s1)"
      using inv(3) s0 by (simp add: outcome_request del: executeLocally.simps(2))
    from process_new [OF ok m(1) _ this, of "sendToSecondary h (tr_link t)" "snd sv"] None ack [of n] n
    obtain P' x where p: "processPrimary h (tr_link t) ?msg (?P, snd sv) = (Response (Answer a), P', x)" "mv_storage P' = s1" "serverOk P'"
      "slotOf P' = (\<lambda>c' k. if isRequest c' k ?msg then Some (Some (Answer a)) else afterAck ?P ?msg c' k)"
      by (auto simp: processPrimary_def)
    have "afterTakeover c n s0 s1 a (P', x)" using sv p(2-4) ack m(3) by (auto simp: afterTakeover_def)
    then show ?thesis using p 2 by auto
  qed
qed

lemma exchange_once:
  assumes exec: "inv s0" "fits q" "outcome (h_executeLocally h False q s0) = (a, s1)"
    and F: "\<forall>x \<in># F. bs_pSelf x \<noteq> hv" "size F < cap"
    and node: "rr_isMirrorGroup rrNode" "gid = ucast (rr_address rrNode)" "ra_supportsSequenceNumbers rrArgs"
  shows "callNumbered hv gid cap F (length ts) N call stores \<Longrightarrow>
    beforeTakeover h c (nextNumber N call) s0 s1 a sv \<and> length (filter tr_failover ts) \<le> 1 \<and>
      list_all (\<lambda>t. goodLink (tr_link t)) (takeWhile (\<lambda>t. \<not> tr_failover t) ts) \<or>
    afterTakeover c (nextNumber N call) s0 s1 a sv \<and> list_all (\<lambda>t. \<not> tr_failover t) ts \<Longrightarrow>
    exchange h c q hv rrNode rrArgs ts call stores sv = Some (res, call', stores', sv') \<Longrightarrow>
    (mv_storage (fst sv') = s0 \<or> mv_storage (fst sv') = s1) \<and>
    (res = FhgfsOpsErr_SUCCESS \<longrightarrow> cl_outRespMsg call' = Some a \<and> mv_storage (fst sv') = s1)"
proof (induction ts arbitrary: N call stores sv)
  case (Cons t ts)
  let ?N = "nextNumber N call" and ?sv = "if tr_failover t then takeover sv else sv"
  have num: "callNumbered hv gid cap F (Suc (length ts)) N call stores" using Cons.prems(1) by simp
  have sv: "beforeTakeover h c ?N s0 s1 a ?sv \<and> length (filter tr_failover ts) \<le> 1 \<and>
        list_all (\<lambda>t. goodLink (tr_link t)) (takeWhile (\<lambda>t. \<not> tr_failover t) ts) \<and> goodLink (tr_link t) \<or>
      afterTakeover c ?N s0 s1 a ?sv \<and> list_all (\<lambda>t. \<not> tr_failover t) ts"
    using Cons.prems(2) takeover_ok [OF _ exec, of c ?N sv] by (auto simp: list_all_iff filter_empty_conv)
  have stored: "beforeTakeover h c n s0 s1 a x \<or> afterTakeover c n s0 s1 a x \<Longrightarrow> mv_storage (fst x) = s0 \<or> mv_storage (fst x) = s1" for n x
    by (auto simp: beforeTakeover_def afterTakeover_def)
  obtain p1 c1 st1 where b: "beforeCommunication (tr_env t) hv rrNode rrArgs call stores = (p1, c1, st1)" by (metis prod_cases3)
  show ?case
  proof (cases p1)
    case (Exit r)
    have "res = r" "sv' = ?sv" using Cons.prems(3) b Exit by (simp_all add: attempt_def requestResponsePass_def)
    then show ?thesis using before_exit [OF b [unfolded Exit]] stored [of ?N ?sv] sv by auto
  next
    case Again
    have n1: "callNumbered hv gid cap F (length ts) ?N c1 st1" "hd_msgSequence (cl_header c1) = ?N"
      using before_numbered [OF num F node b] Again by simp_all
    then have "nextNumber ?N c1 = ?N" by (simp add: nextNumber_def callNumbered_def)
    moreover have "exchange h c q hv rrNode rrArgs ts c1 st1 ?sv = Some (res, call', stores', sv')"
      using Cons.prems(3) b Again by (simp add: attempt_def requestResponsePass_def)
    ultimately show ?thesis using Cons.IH [OF n1(1), of ?sv] sv by auto
  next
    case (Proceed nodeID)
    have n1: "callNumbered hv gid cap F (length ts) ?N c1 st1" "hd_msgSequence (cl_header c1) = ?N"
      using before_numbered [OF num F node b] Proceed by simp_all
    then have hdr: "numberedHeader ?N (cl_header c1)" by (simp add: numberedHeader_def callNumbered_def)
    obtain env sv2 where tr: "transmit h t (requestMessage c q (cl_header c1)) ?sv = (env, sv2)" by (meson surj_pair)
    have at: "attempt h c q hv rrNode rrArgs t call stores sv = (env, sv2)" using b tr Proceed by (simp add: attempt_def)
    define got where "got = en_recv env"
    have step: "env = (tr_env t)\<lparr>en_recv := got\<rparr> \<and> ((\<exists>b. got = RecvFailed b) \<or> got = Received (RespExpected a) \<and> mv_storage (fst sv2) = s1 \<or>
        got = Received RespAckNotify \<and> mv_storage (fst sv2) = s0 \<and> afterTakeover c ?N s0 s1 a sv2) \<and>
      (beforeTakeover h c ?N s0 s1 a sv2 \<and> length (filter tr_failover ts) \<le> 1 \<and>
        list_all (\<lambda>t. goodLink (tr_link t)) (takeWhile (\<lambda>t. \<not> tr_failover t) ts) \<and> got \<noteq> Received RespAckNotify \<or>
       afterTakeover c ?N s0 s1 a sv2 \<and> list_all (\<lambda>t. \<not> tr_failover t) ts)"
      using sv
    proof (elim disjE conjE)
      assume *: "beforeTakeover h c ?N s0 s1 a ?sv" "goodLink (tr_link t)" "length (filter tr_failover ts) \<le> 1"
        "list_all (\<lambda>t. goodLink (tr_link t)) (takeWhile (\<lambda>t. \<not> tr_failover t) ts)"
      from transmit_before [OF *(1) exec hdr *(2) tr] *(3,4) show ?thesis unfolding got_def by (elim conjE disjE exE) simp_all
    next
      assume *: "afterTakeover c ?N s0 s1 a ?sv" "list_all (\<lambda>t. \<not> tr_failover t) ts"
      from transmit_after [OF *(1) exec hdr tr] *(2) show ?thesis unfolding got_def by (elim conjE disjE exE) simp_all
    qed
    have b': "beforeCommunication env hv rrNode rrArgs call stores = (Proceed nodeID, c1, st1)"
      using before_recv [where env = "tr_env t" and r = got] step b Proceed by simp
    obtain p c2 st2 where p: "requestResponsePass env hv rrNode rrArgs call stores = (p, c2, st2)" by (metis prod_cases3)
    have "(\<exists>b. en_recv env = RecvFailed b) \<or> en_recv env = Received RespAckNotify \<or> (\<exists>a. en_recv env = Received (RespExpected a))"
      using step by (auto simp: got_def)
    note pn = pass_numbered [OF n1 F(1) b' this p, folded got_def]
    show ?thesis
    proof (cases p)
      case (Exit r)
      have "res = r" "sv' = sv2" "call' = c2" using Cons.prems(3) at p Exit by simp_all
      then show ?thesis using pn Exit step stored [of ?N sv2] by auto
    next
      case Again
      have ex: "exchange h c q hv rrNode rrArgs ts c2 st2 sv2 = Some (res, call', stores', sv')" using Cons.prems(3) at p Again by simp
      have n2: "callNumbered hv gid cap F (length ts) ?N c2 st2" using pn Again by simp
      show ?thesis
      proof (cases "hd_msgSequence (cl_header c2) = 0")
        case False
        then have "nextNumber ?N c2 = ?N" by (simp add: nextNumber_def)
        then show ?thesis using Cons.IH [OF n2 _ ex] step by auto
      next
        case True
        have ack: "got = Received RespAckNotify" using pn Again True n1 by (auto simp: callNumbered_def)
        have "unat (- 1 :: u64) = 2 ^ 64 - 1" by (simp add: unsigned_minus_1_eq_mask mask_eq_exp_minus_1)
        then have "?N \<noteq> - 1" using n2 by (auto simp: callNumbered_def)
        then have "?N < ?N + 1" by (rule word_less_plus_one)
        moreover have "afterTakeover c ?N s0 s1 a sv2" "mv_storage (fst sv2) = s0" using step ack by auto
        ultimately have "afterTakeover c (?N + 1) s0 s1 a sv2" by (intro next_number)
        moreover have "nextNumber ?N c2 = ?N + 1" using True by (simp add: nextNumber_def)
        ultimately show ?thesis using Cons.IH [OF n2 _ ex] step ack by auto
      qed
    qed (use pn in simp)
  qed
qed simp

end

section \<open>Properties\<close>

text \<open>
  C14. End to end: a client sends a range lock request that does not wait to the buddy group of the file and repeats it as its retry loop does.
  Messages and responses may be lost at every attempt, and once the secondary may take over. When the loop returns, the request
  has taken effect on the server in charge exactly once or not at all; if the loop returns success, exactly once, and the response is the one
  of that execution. The client's part of the run is a call of its retry loop.
\<close>

theorem range_lock_exactly_once:
  defines "h \<equiv> lockHandler FLockRangeMsgEx_executeLocally"
  assumes client: "groupOf (ucast (rr_address rrNode)) stores = Some g" "group_ok g (cs_handles stores)" "handle_unused hv g" "belowOk g"
      "0 < bg_slotsAvail g" "bg_sequence g \<noteq> 0" "unat (bg_sequence g) + length ts < 2 ^ 64 - 1" "hd_msgSequence header = 0"
      "rr_isMirrorGroup rrNode" "ra_supportsSequenceNumbers rrArgs"
    and servers: "replicas h [] P (bd_secondary B)" "\<forall>n > bg_sequence g. slotOf P c n = None" "rangeLocked files (mv_storage P)" "rangeFits files (fd, d)"
    and network: "length (filter tr_failover ts) \<le> 1" "list_all (\<lambda>t. goodLink (tr_link t)) (takeWhile (\<lambda>t. \<not> tr_failover t) ts)"
    and run: "exchange h c (fd, d) hv rrNode rrArgs ts (callStart header) (stores\<lparr>cs_handles := (cs_handles stores)(hv := None)\<rparr>) (P, B) = Some (res, call, stores', P', B')"
    and exec: "FLockRangeMsgEx_executeLocally False fd d (mv_storage P) = (a, ns, s1)"
  shows "mv_storage P' \<in> {mv_storage P, s1} \<and> (res = FhgfsOpsErr_SUCCESS \<longrightarrow> cl_outRespMsg call = Some a \<and> mv_storage P' = s1) \<and>
    (\<exists>envs. MessagingTk_requestResponseNodeRetry hv rrNode rrArgs header envs stores = Some (res, call, stores'))"
proof -
  let ?stores = "stores\<lparr>cs_handles := (cs_handles stores)(hv := None)\<rparr>" and ?gid = "ucast (rr_address rrNode)" and ?N = "bg_sequence g"
  note start = callStart_ok [OF client(1-3,8,7)]
  have num: "callNumbered hv ?gid (bg_inFlightCapacity g) (inFlight g) (length ts) ?N (callStart header) ?stores"
    using start client by (simp add: callNumbered_def callStart_def)
  have nextN: "nextNumber ?N (callStart header :: FhgfsOpsErr call) = ?N + 1" using client(8) by (simp add: nextNumber_def callStart_def)
  have "unat (- 1 :: u64) = 2 ^ 64 - 1" by (simp add: unsigned_minus_1_eq_mask mask_eq_exp_minus_1)
  then have "?N < ?N + 1" using client(7) by (intro word_less_plus_one) auto
  then have "beforeTakeover h c (?N + 1) (mv_storage P) s1 a (P, B)"
    using servers(1,2) unfolding beforeTakeover_def by (auto intro!: exI [of _ "[]"] dest: less_trans)
  moreover have "outcome (h_executeLocally h False (fd, d) (mv_storage P)) = (a, s1)" using exec by (simp add: h_def lockHandler_def)
  moreover have "size (inFlight g) < bg_inFlightCapacity g" using client(2,5) by (auto simp: group_ok_def inFlight_def)
  ultimately have "(mv_storage P' = mv_storage P \<or> mv_storage P' = s1) \<and> (res = FhgfsOpsErr_SUCCESS \<longrightarrow> cl_outRespMsg call = Some a \<and> mv_storage P' = s1)"
    using range_msg.exchange_once [OF servers(3,4) _ start(2) _ client(9) refl client(10) num, folded h_def, of a s1 c "(P, B)" res call stores' "(P', B')"]
      nextN network run by simp
  moreover have "\<exists>envs. MessagingTk_requestResponseNodeRetry hv rrNode rrArgs header envs stores = Some (res, call, stores')"
    using exchange_call [OF run] by (simp add: MessagingTk_requestResponseNodeRetry_def)
  ultimately show ?thesis by simp
qed

text \<open>The primary executes the request but its response is lost, the secondary takes over and answers the same number.\<close>

definition lostResponse :: "FhgfsOpsErr transfer list" where
  "lostResponse =
     (let env = \<lparr>en_connected = True, en_bufLargeEnough = True, en_allocated = True, en_sent = True, en_recv = RecvFailed True,
        en_recvSignal = False, en_signal = False, en_sleepSignal = False, en_killed = False, en_nodeKnown = True, en_nodeActive = True,
        en_retriesEnabled = True\<rparr>
      in [\<lparr>tr_env = env, tr_failover = False, tr_link = sampleLink, tr_delivered = True, tr_answered = False\<rparr>,
          \<lparr>tr_env = env, tr_failover = True, tr_link = sampleLink, tr_delivered = True, tr_answered = True\<rparr>])"

lemma ex_group_finished: "finished ex_group = []"
  by (simp add: ex_group_def MirrorBuddyGroup_setSeqNoBase_def MirrorBuddyGroup_constructFromTargetIDs_def finished_def)

theorem range_lock_exactly_once_witness:
  "\<exists>call stores' P' B'. exchange (lockHandler FLockRangeMsgEx_executeLocally) 7 (5, sample_range 1 ''a'' 10 0 99) 0 sampleNode sampleArgs lostResponse
      (callStart sampleHeader) (sampleStores\<lparr>cs_handles := (cs_handles sampleStores)(0 := None)\<rparr>) (freshPair openedFile) =
        Some (FhgfsOpsErr_SUCCESS, call, stores', P', B') \<and>
    cl_outRespMsg call = Some FhgfsOpsErr_SUCCESS \<and>
    mv_storage P' = snd (snd (FLockRangeMsgEx_executeLocally False 5 (sample_range 1 ''a'' 10 0 99) openedFile)) \<and>
    exclRangeFLocks (lk_locks (mv_storage P')) = [sample_range 1 ''a'' 10 0 99]"
proof -
  let ?h = "lockHandler FLockRangeMsgEx_executeLocally" and ?d = "sample_range 1 ''a'' 10 0 99"
  let ?stores = "sampleStores\<lparr>cs_handles := (cs_handles sampleStores)(0 := None)\<rparr>"
  have "case exchange ?h 7 (5, ?d) 0 sampleNode sampleArgs lostResponse (callStart sampleHeader) ?stores (freshPair openedFile) of
      None \<Rightarrow> False | Some (res, call, stores', sv) \<Rightarrow> res = FhgfsOpsErr_SUCCESS \<and> exclRangeFLocks (lk_locks (mv_storage (fst sv))) = [?d]" by code_simp
  then obtain call stores' P' B' where run: "exchange ?h 7 (5, ?d) 0 sampleNode sampleArgs lostResponse (callStart sampleHeader) ?stores (freshPair openedFile) =
      Some (FhgfsOpsErr_SUCCESS, call, stores', P', B')" "exclRangeFLocks (lk_locks (mv_storage P')) = [?d]" by (auto split: option.splits)
  obtain a ns s1 where exec: "FLockRangeMsgEx_executeLocally False 5 ?d openedFile = (a, ns, s1)" by (metis prod_cases3)
  have "fst (FLockRangeMsgEx_executeLocally False 5 ?d openedFile) = FhgfsOpsErr_SUCCESS" by code_simp
  with exec have a: "a = FhgfsOpsErr_SUCCESS" by simp
  have client: "belowOk ex_group" "0 < bg_slotsAvail ex_group" "bg_sequence ex_group \<noteq> 0"
    "unat (bg_sequence ex_group) + length lostResponse < 2 ^ 64 - 1" "hd_msgSequence sampleHeader = 0" "rr_isMirrorGroup sampleNode"
    "ra_supportsSequenceNumbers sampleArgs"
    by (simp_all add: belowOk_def ex_group_fields ex_group_finished sampleHeader_def sampleNode_def sampleArgs_def RequestResponseArgs_prepare_def lostResponse_def Let_def)
  have servers: "replicas ?h [] (fst (freshPair openedFile)) (bd_secondary (snd (freshPair openedFile)))"
    "\<forall>n > bg_sequence ex_group. slotOf (fst (freshPair openedFile)) 7 n = None" "rangeLocked {(1, 5)} openedFile"
    by (simp_all add: freshPair_def Let_def replicas_init slotOf_init rangeLocked_def openFor_def openedFile_def range_reachable.init)
  have "rangeFits {(1, 5)} (5, ?d)" "length (filter tr_failover lostResponse) \<le> 1"
    "list_all (\<lambda>t. goodLink (tr_link t)) (takeWhile (\<lambda>t. \<not> tr_failover t) lostResponse)" by code_simp+
  note all = range_lock_exactly_once [OF sampleStores_group client servers(1,2) _ this]
  have fresh: "mv_storage (fst (freshPair openedFile)) = openedFile" by (simp add: freshPair_def Let_def)
  from all [unfolded fresh prod.collapse, OF servers(3) run(1) exec] show ?thesis using run exec a by auto
qed

end
