(* ===== verification/Rb_Walks.thy ===== *)
theory Rb_Walks
  imports Rb_Trees
begin

text \<open>
  The walks of \<^verbatim>\<open>BEEGFS_RBTREE_FUNCTIONS\<close> (\<^verbatim>\<open>client_module/source/common/Common.h\<close>) over the nodes of a tree, and that they
  implement the operations on lists in key order that the stores are modelled with. What the kernel does with a
  tree is an argument: \<^verbatim>\<open>rb_insert_color\<close> balances it after a node has been linked, \<^verbatim>\<open>rb_replace_node\<close> puts a node in the place of another
  one, \<^verbatim>\<open>rb_erase\<close> takes a node out. All three are documented to keep the order of the other nodes.
\<close>

section \<open>Operations\<close>

datatype 'a rb_node = rb_null | rb_node (rb_left: "'a rb_node") 'a (rb_right: "'a rb_node")

definition rb_keycmp :: "u16 \<Rightarrow> u16 \<Rightarrow> int" where
  "rb_keycmp lhs rhs = (if lhs < rhs then - 1 else if lhs = rhs then 0 else 1)"

fun walk_find :: "('a \<Rightarrow> u16) \<Rightarrow> u16 \<Rightarrow> 'a rb_node \<Rightarrow> 'a option" where
  "walk_find key k rb_null = None"
| "walk_find key k (rb_node l e r) =
     (let cmp = rb_keycmp k (key e)
      in if cmp < 0 then walk_find key k l else if cmp > 0 then walk_find key k r else Some e)"

text \<open>The walk to the null pointer where the new node is linked, unless an element has the key.\<close>

fun walk_link :: "('a \<Rightarrow> u16) \<Rightarrow> 'a \<Rightarrow> 'a rb_node \<Rightarrow> 'a rb_node option" where
  "walk_link key data rb_null = Some (rb_node rb_null data rb_null)"
| "walk_link key data (rb_node l e r) =
     (let cmp = rb_keycmp (key data) (key e)
      in if cmp < 0 then map_option (\<lambda>l. rb_node l e r) (walk_link key data l)
         else if cmp > 0 then map_option (\<lambda>r. rb_node l e r) (walk_link key data r)
         else None)"

definition walk_insert :: "('a \<Rightarrow> 'a rb_node \<Rightarrow> 'a rb_node) \<Rightarrow> ('a \<Rightarrow> u16) \<Rightarrow> 'a \<Rightarrow> 'a rb_node \<Rightarrow> bool \<times> 'a rb_node" where
  "walk_insert rb_insert_color key data root =
     (case walk_link key data root of None \<Rightarrow> (False, root) | Some linked \<Rightarrow> (True, rb_insert_color data linked))"

definition walk_insertOrReplace ::
    "('a \<Rightarrow> 'a rb_node \<Rightarrow> 'a rb_node) \<Rightarrow> ('a \<Rightarrow> 'a \<Rightarrow> 'a rb_node \<Rightarrow> 'a rb_node) \<Rightarrow> ('a \<Rightarrow> u16) \<Rightarrow> 'a \<Rightarrow> 'a rb_node \<Rightarrow> 'a option \<times> 'a rb_node" where
  "walk_insertOrReplace rb_insert_color rb_replace_node key data root =
     (let (inserted, root) = walk_insert rb_insert_color key data root
      in if inserted then (None, root)
         else
           (case walk_find key (key data) root of
              Some existing \<Rightarrow> (Some existing, rb_replace_node existing data root)
            | None \<Rightarrow> (None, root)))"

text \<open>The elements in the order of \<^verbatim>\<open>rb_first\<close> and \<^verbatim>\<open>rb_next\<close>.\<close>

fun rb_elements :: "'a rb_node \<Rightarrow> 'a list" where
  "rb_elements rb_null = []"
| "rb_elements (rb_node l e r) = rb_elements l @ e # rb_elements r"

section \<open>Walks and lists\<close>

lemma keycmp_simps [simp]: "rb_keycmp a b < 0 \<longleftrightarrow> a < b" "rb_keycmp a b > 0 \<longleftrightarrow> b < a"
  by (auto simp: rb_keycmp_def)

lemma find_append: "find P (xs @ ys) = (case find P xs of Some x \<Rightarrow> Some x | None \<Rightarrow> find P ys)"
  by (induction xs) auto

lemma find_none: "\<forall>x \<in> set xs. \<not> P x \<Longrightarrow> find P xs = None"
  by (induction xs) auto

lemma rb_tree_node:
  assumes "rb_tree key (rb_elements (rb_node l e r))"
  shows "rb_tree key (rb_elements l)" "rb_tree key (rb_elements r)"
    "\<forall>x \<in> set (rb_elements l). key x < key e" "\<forall>x \<in> set (rb_elements r). key e < key x"
  using assms by (simp_all add: sorted_wrt_append rb_lt_def [abs_def])

lemma walk_find_list: "rb_tree key (rb_elements t) \<Longrightarrow> walk_find key k t = rb_find key k (rb_elements t)"
proof (induction t)
  case (rb_node l e r)
  note order = rb_tree_node [OF rb_node.prems]
  have "k \<le> key e \<Longrightarrow> find (\<lambda>x. key x = k) (rb_elements r) = None" "key e \<le> k \<Longrightarrow> find (\<lambda>x. key x = k) (rb_elements l) = None"
    using order(3,4) by (auto intro!: find_none)
  then show ?case
    using rb_node.IH order(1,2) by (cases k "key e" rule: linorder_cases) (auto simp: rb_find_def find_append Let_def split: option.split)
qed (simp add: rb_find_def)

lemma oset_insert_left: "rb_lt key d e \<Longrightarrow> oset_insert (rb_lt key) d (xs @ e # ys) = oset_insert (rb_lt key) d xs @ e # ys"
  by (induction xs) simp_all

lemma oset_insert_right:
  "rb_lt key e d \<Longrightarrow> \<forall>x \<in> set xs. rb_lt key x e \<Longrightarrow> oset_insert (rb_lt key) d (xs @ e # ys) = xs @ e # oset_insert (rb_lt key) d ys"
  by (induction xs) (auto simp: rb_lt_def)

lemma walk_link_list:
  "rb_tree key (rb_elements t) \<Longrightarrow>
   map_option rb_elements (walk_link key d t) =
     (if \<exists>x \<in> set (rb_elements t). key x = key d then None else Some (oset_insert (rb_lt key) d (rb_elements t)))"
proof (induction t)
  case (rb_node l e r)
  note order = rb_tree_node [OF rb_node.prems] and IH = rb_node.IH(1) [OF rb_tree_node(1) [OF rb_node.prems]] rb_node.IH(2) [OF rb_tree_node(2) [OF rb_node.prems]]
  show ?case
  proof (cases "key d" "key e" rule: linorder_cases)
    case less
    then have "\<forall>x \<in> set (rb_elements r). key x \<noteq> key d" using order(4) by auto
    moreover have "rb_lt key d e" using less by (simp add: rb_lt_def)
    ultimately show ?thesis using less IH(1) by (cases "walk_link key d l") (auto simp: Let_def oset_insert_left split: if_splits)
  next
    case greater
    then have "\<forall>x \<in> set (rb_elements l). key x \<noteq> key d" using order(3) by auto
    moreover have "rb_lt key e d" "\<forall>x \<in> set (rb_elements l). rb_lt key x e" using greater order(3) by (simp_all add: rb_lt_def)
    ultimately show ?thesis using greater IH(2) by (cases "walk_link key d r") (auto simp: Let_def oset_insert_right split: if_splits)
  qed (simp add: rb_keycmp_def)
qed simp

section \<open>Refinement\<close>

text \<open>
  The functions that the macro generates are those on ordered lists: looking up, inserting and replacing find the same element, give the same
  result and leave the same elements in the same order, if the kernel keeps the order.
\<close>

theorem walks_refine_lists:
  fixes key :: "'a \<Rightarrow> u16"
  assumes color: "\<And>e t. rb_elements (rb_insert_color e t) = rb_elements t"
    and replace: "\<And>e e' t. rb_elements (rb_replace_node e e' t) = map (\<lambda>x. if x = e then e' else x) (rb_elements t)"
    and order: "rb_tree key (rb_elements t)"
  shows "walk_find key k t = rb_find key k (rb_elements t)"
    and "apsnd rb_elements (walk_insert rb_insert_color key d t) = rb_insert key d (rb_elements t)"
    and "apsnd rb_elements (walk_insertOrReplace rb_insert_color rb_replace_node key d t) = rb_insertOrReplace key d (rb_elements t)"
proof -
  show find: "walk_find key k t = rb_find key k (rb_elements t)" for k using order by (rule walk_find_list)
  show ins: "apsnd rb_elements (walk_insert rb_insert_color key d t) = rb_insert key d (rb_elements t)"
    using walk_link_list [OF order, of d] color by (auto simp: walk_insert_def rb_insert_def rb_mem split: option.splits if_splits)
  show "apsnd rb_elements (walk_insertOrReplace rb_insert_color rb_replace_node key d t) = rb_insertOrReplace key d (rb_elements t)"
  proof (cases "\<exists>x \<in> set (rb_elements t). key x = key d")
    case True
    then obtain x where x: "rb_find key (key d) (rb_elements t) = Some x" "x \<in> set (rb_elements t)" "key x = key d"
      using rb_find_Some [OF order] by auto
    have "walk_insert rb_insert_color key d t = (False, t)"
      using walk_link_list [OF order, of d] True by (auto simp: walk_insert_def split: option.splits)
    moreover have "map (\<lambda>y. if y = x then d else y) (rb_elements t) = map (\<lambda>y. if key y = key d then d else y) (rb_elements t)"
      using rb_tree_inj [OF order] x(2,3) by auto
    ultimately show ?thesis using x(1) True by (simp add: walk_insertOrReplace_def rb_insertOrReplace_def rb_insert_present find replace)
  next
    case False
    then obtain t' where "walk_insert rb_insert_color key d t = (True, t')"
      using walk_link_list [OF order, of d] by (auto simp: walk_insert_def split: option.splits)
    then show ?thesis using ins False by (auto simp: walk_insertOrReplace_def rb_insertOrReplace_def rb_insert_def rb_mem split: if_splits)
  qed
qed

end
