(* ===== verification/Spec2Isabelle.thy ===== *)
theory Spec2Isabelle
  imports Entry_Locks Range_Lock_Requests Serdes_String_Lists Buddy_Mapper Stripe_Read_Results File_Size_Results Wire_Formats Server_Pattern_Messages
    Rpc_Delivery Rb_Walks
begin

text \<open>
  BeeGFS is a parallel file system. The repository holds the kernel client (\<^verbatim>\<open>client_module\<close>), the
  metadata servers (\<^verbatim>\<open>meta\<close>), the storage servers (\<^verbatim>\<open>storage\<close>), what the servers share (\<^verbatim>\<open>common\<close>), the
  file system check (\<^verbatim>\<open>fsck\<close>), monitoring (\<^verbatim>\<open>mon\<close>), the event listener and scripts. A client asks a
  metadata server for the stripe pattern of a file and reads and writes the chunk files on the
  storage servers directly. Metadata is mirrored between the two servers of a buddy group; the
  client numbers its requests, so that one that is repeated after a fault is not executed twice.
  The servers tell the clients which targets and groups there are and in which state they are.

  The theories, with the sources they translate. Definitions have the names of the functions, with
  the class in front where the name alone is ambiguous; records and datatypes have the fields and
  constructors of the classes, fields with a prefix. Integers are words of their width.

  \<^item> \<^verbatim>\<open>BG_Prelude\<close>: integer types, \<^verbatim>\<open>std::set\<close> with a comparator, shared lemmas.
  \<^item> Locks of a file (\<^verbatim>\<open>meta/source/storage/Locking.h\<close>, \<^verbatim>\<open>FileInode.cpp\<close>). \<^verbatim>\<open>Locking_Details\<close>: requests and
    their order. \<^verbatim>\<open>Entry_Locks\<close>: flock and append locks. \<^verbatim>\<open>Range_Locks\<close>: the operations on POSIX locks;
    \<^verbatim>\<open>Range_Coverage\<close> and \<^verbatim>\<open>Range_Lock_Effects\<close>: their effect on the locked bytes; \<^verbatim>\<open>Range_Lock_Requests\<close>:
    sequences of requests, with mutual exclusion, no lost wakeup, and what unlocking does.
  \<^item> Wire format of the client (\<^verbatim>\<open>common/toolkit/Serialization.c\<close>, \<^verbatim>\<open>.h\<close>). \<^verbatim>\<open>Serdes\<close>, \<^verbatim>\<open>Serdes_Strings\<close>,
    \<^verbatim>\<open>Serdes_Lists\<close>, \<^verbatim>\<open>Serdes_String_Lists\<close>, \<^verbatim>\<open>Serdes_Mappings\<close>: round trips, rejection of short input, and
    accesses outside the buffer as results of their own.
  \<^item> Wire format of the servers (\<^verbatim>\<open>common/toolkit/serialization\<close>). \<^verbatim>\<open>Cpp_Serdes\<close>, \<^verbatim>\<open>Cpp_Strings\<close>;
    \<^verbatim>\<open>Wire_Formats\<close>: both sides understand each other.
  \<^item> Stores of the client (\<^verbatim>\<open>Common.h\<close>, \<^verbatim>\<open>TargetMapper.c\<close>, \<^verbatim>\<open>TargetStateStore.c\<close>,
    \<^verbatim>\<open>MirrorBuddyGroupMapper.c\<close>). \<^verbatim>\<open>Rb_Trees\<close>: the generated tree functions on the sequence of the elements;
    \<^verbatim>\<open>Rb_Walks\<close>: the walks over the nodes refine them, for any rebalancing that keeps the sequence.
    \<^verbatim>\<open>Target_Stores\<close>, \<^verbatim>\<open>Buddy_Mapper\<close>: the stores and their synchronisation.
  \<^item> Sequence numbers (\<^verbatim>\<open>MirrorBuddyGroup.c\<close>). \<^verbatim>\<open>Buddy_Sequence\<close>: heap with back links and ring; it refines
    a multiset of numbers in flight and a queue of finished ones.
  \<^item> Striping (\<^verbatim>\<open>StripePattern\<close>, \<^verbatim>\<open>Raid0Pattern\<close>, \<^verbatim>\<open>Raid10Pattern\<close>, \<^verbatim>\<open>BuddyMirrorPattern\<close> of client and
    servers, \<^verbatim>\<open>MathTk.h\<close>). \<^verbatim>\<open>Math_Tk\<close>, \<^verbatim>\<open>Stripe_Placement\<close>, \<^verbatim>\<open>Striping\<close>, \<^verbatim>\<open>Striping_Messages\<close>, \<^verbatim>\<open>Server_Patterns\<close>,
    \<^verbatim>\<open>Server_Pattern_Messages\<close>: offsets, targets and messages.
  \<^item> Reading and writing (\<^verbatim>\<open>FhgfsOpsRemoting.c\<close>, \<^verbatim>\<open>BitStore.c\<close>, \<^verbatim>\<open>iov_iter.c\<close>, \<^verbatim>\<open>FhgfsOpsHelper.c\<close>).
    \<^verbatim>\<open>Bit_Store\<close>, \<^verbatim>\<open>Stripe_Plans\<close>, \<^verbatim>\<open>Stripe_Write\<close>, \<^verbatim>\<open>Stripe_Read\<close> and their \<^verbatim>\<open>_Results\<close>. The specification is
    \<^verbatim>\<open>Chunk_Files\<close>: a striped file is one flat file.
  \<^item> File sizes (\<^verbatim>\<open>ChunkFileInfo.h\<close>, \<^verbatim>\<open>StatData.cpp\<close>, \<^verbatim>\<open>FileInode.cpp\<close>). \<^verbatim>\<open>Chunk_Sizes\<close>, \<^verbatim>\<open>File_Sizes\<close>,
    \<^verbatim>\<open>Size_Lemmas\<close>, \<^verbatim>\<open>File_Size_Results\<close>: the size from the reports, truncation, order of reports.
  \<^item> Mirrored requests (\<^verbatim>\<open>Session.h\<close>, \<^verbatim>\<open>SessionStore.cpp\<close>, \<^verbatim>\<open>MirroredMessage.h\<close>, \<^verbatim>\<open>MessagingTk.cpp\<close>, the
    \<^verbatim>\<open>FLock\<close> messages). \<^verbatim>\<open>Mirror_Sessions\<close>, \<^verbatim>\<open>Mirrored_Messages\<close>: slots, execution, forwarding.
    \<^verbatim>\<open>Mirror_Runs\<close>: overlapping requests as a step relation. \<^verbatim>\<open>Mirror_Agreement\<close>: primary and secondary
    agree, as a locale that \<^verbatim>\<open>Lock_Messages\<close> interprets for the three lock messages.
  \<^item> Requests of the client (\<^verbatim>\<open>MessagingTk.c\<close>). \<^verbatim>\<open>Client_Rpc\<close>, \<^verbatim>\<open>Client_Rpc_Results\<close>: the retry loop gives
    back its number and ends. \<^verbatim>\<open>Rpc_Delivery\<close>: the loop with both servers, lost messages and a failover.
  \<^item> \<^verbatim>\<open>Storage_Errors\<close>: error codes of both sides.
  \<^item> This theory: a write, from the pattern message to the size that the metadata server computes.

  Interfaces are locales: the order of a set, the codecs of both wire formats and their agreement,
  the keyed store, the bit vector, the stripe pattern, the set of range locks, the replicated message.
  Each is interpreted on the definitions of the model.

  Bounds. The loops of write and read have fuel; more fuel than bytes is enough, because every round
  that goes on transfers at least one byte, and this is proved for every behaviour of servers and
  memory. The retry loop of the client runs over a list of passes; one more pass than retries is
  enough with a free slot, usable target states and no server that asks to come again, without which
  the loop of the code may go on. Range locks do not end at the largest offset in the properties,
  because the code adds one to the end; file offsets and sizes are below 2 to the 63, as in
  \<^verbatim>\<open>loff_t\<close>. Sequence numbers do not reach the end of 64 bits.

  Arguments of the model are what the sources do not define: the results of communications, memory,
  signals, the rebalancing of the kernel's trees, and the system calls of the storage servers, whose
  documented effect on a file is the specification in \<^verbatim>\<open>Chunk_Files\<close>. The operations of an object
  that holds a lock while it works are atomic.

  Not modelled: the namespace of the metadata server and its other messages, the storage server and
  its chunk store, the page cache and the inode operations of the client, connections and RDMA,
  resync and balancing, the event queue, invalidation of client caches, access control lists, \<^verbatim>\<open>fsck\<close>,
  \<^verbatim>\<open>mon\<close>, the event listener, scripts. Most of them are system calls, kernel interfaces, sockets or
  threads around a small core; the invalidation queues, the event queue, the access control lists and
  the check have logic of their own that this development does not cover.
\<close>

section \<open>A write and the size of the file\<close>

text \<open>
  The storage servers report their chunk files to the metadata server: every report is newer than
  what the inode has, and holds the size of the chunk file.
\<close>

definition reports :: "FileInode \<Rightarrow> (u16 \<Rightarrow> bytes) \<Rightarrow> DynamicFileAttribs list \<Rightarrow> bool" where
  "reports i chunks attrs \<longleftrightarrow> length attrs = length (fi_fileInfoVec i) \<and>
     (\<forall>t < length attrs. da_storageVersion (ci_dynAttribs (fi_fileInfoVec i ! t)) < da_storageVersion (attrs ! t) \<and>
        da_fileSize (attrs ! t) = of_nat (length (chunks (srv_getStripeTargetIDs (fi_pattern i) ! t))))"

definition inode_open :: "FileInode \<Rightarrow> bool" where
  "inode_open i \<longleftrightarrow> srv_typed (fi_pattern i) \<and> client_ok (fi_pattern i) \<and> srv_length (fi_pattern i) < 2 ^ 32 \<and>
     MathTk_isPowerOfTwo (srv_getChunkSize (fi_pattern i)) \<and> distinct (srv_getStripeTargetIDs (fi_pattern i)) \<and>
     length (fi_fileInfoVec i) = length (srv_getStripeTargetIDs (fi_pattern i)) \<and>
     list_all (info_ok (srv_getChunkSize (fi_pattern i))) (fi_fileInfoVec i)"

lemma reported_infos:
  assumes "inode_open i" "reports i chunks attrs" "0 < length attrs"
    and "\<And>t. t < length attrs \<Longrightarrow> length (chunks (srv_getStripeTargetIDs (fi_pattern i) ! t)) < 2 ^ 63"
  defines "new \<equiv> map2 (\<lambda>info a. snd (ChunkFileInfo_updateDynAttribs info a)) (fi_fileInfoVec i) attrs"
  shows "length new = length (fi_fileInfoVec i)" "list_all (info_ok (srv_getChunkSize (fi_pattern i))) new"
    "\<And>t. t < length new \<Longrightarrow> info_size (new ! t) = length (chunks (srv_getStripeTargetIDs (fi_pattern i) ! t))"
    "\<exists>x \<in> set new. da_storageVersion (ci_dynAttribs x) \<noteq> 0"
proof -
  let ?ids = "srv_getStripeTargetIDs (fi_pattern i)" and ?infos = "fi_fileInfoVec i"
  have len: "length attrs = length ?infos" using assms(2) by (simp add: reports_def)
  show newlen: "length new = length ?infos" using len by (simp add: new_def)
  have at: "ci_dynAttribs (new ! t) = attrs ! t \<and> info_size (new ! t) = length (chunks (?ids ! t)) \<and>
      info_ok (srv_getChunkSize (fi_pattern i)) (new ! t)" if "t < length ?infos" for t
  proof -
    have "info_ok (srv_getChunkSize (fi_pattern i)) (?infos ! t)" using assms(1) that by (simp add: inode_open_def list_all_length)
    moreover have "da_storageVersion (ci_dynAttribs (?infos ! t)) < da_storageVersion (attrs ! t)"
      "da_fileSize (attrs ! t) = of_nat (length (chunks (?ids ! t)))" using assms(2) that len by (simp_all add: reports_def)
    moreover have "length (chunks (?ids ! t)) < 2 ^ 63" using assms(4) that len by simp
    ultimately show ?thesis using that len by (simp add: new_def updated_info info_ok_def info_size_def unat_of_nat)
  qed
  show "list_all (info_ok (srv_getChunkSize (fi_pattern i))) new" using at newlen by (simp add: list_all_length)
  show "info_size (new ! t) = length (chunks (?ids ! t))" if "t < length new" for t using at that newlen by simp
  have z: "0 < length ?infos" using assms(3) len by simp
  then have "da_storageVersion (ci_dynAttribs (?infos ! 0)) < da_storageVersion (attrs ! 0)" using assms(2) len by (simp add: reports_def)
  then have "da_storageVersion (ci_dynAttribs (new ! 0)) \<noteq> 0" using at [OF z] by auto
  then show "\<exists>x \<in> set new. da_storageVersion (ci_dynAttribs x) \<noteq> 0" using z newlen by (metis nth_mem)
qed

lemma reported_size:
  assumes "inode_open i" "reports i chunks attrs" "length f < 2 ^ 63"
    and "striped (srv_chunk (fi_pattern i)) (length (srv_getStripeTargetIDs (fi_pattern i))) (\<lambda>t. chunks (srv_getStripeTargetIDs (fi_pattern i) ! t)) f"
  shows "sd_fileSize (fi_statData (FileInode_updateDynamicAttribs now (snd (FileInode_setDynAttribs i attrs)))) = of_nat (length f)"
proof -
  let ?p = "fi_pattern i"
  have ok: "srv_ok ?p" "MathTk_isPowerOfTwo (srv_getChunkSize ?p)" using assms(1) by (simp_all add: inode_open_def client_ok_def)
  have len: "length attrs = length (fi_fileInfoVec i)" "length (fi_fileInfoVec i) = length (srv_getStripeTargetIDs ?p)"
    using assms(1,2) by (simp_all add: reports_def inode_open_def)
  have small: "length (chunks (srv_getStripeTargetIDs ?p ! t)) < 2 ^ 63" if "t < length attrs" for t
    using striped_chunk_small [OF srv_striping.chunk_pos [OF ok(1)] _ assms(4), of t] that len assms(3) by simp
  have "0 < length attrs" using srv_striping.ids_pos [OF ok(1)] len by simp
  note new = reported_infos [OF assms(1,2) this small]
  have "sd_fileSize (StatData_updateDynamicFileAttribs now (fi_statData i)
      (map2 (\<lambda>info a. snd (ChunkFileInfo_updateDynAttribs info a)) (fi_fileInfoVec i) attrs) ?p) = of_nat (length f)"
    using new len ok assms(4)
    by (intro update_size [where ch = "\<lambda>t. chunks (srv_getStripeTargetIDs ?p ! t)"]) (simp_all add: srv_ok_def srv_chunk_def)
  then show ?thesis using len by (simp add: FileInode_updateDynamicAttribs_def FileInode_setDynAttribs_def)
qed

text \<open>
  C1. From the write of a client to the size that \<^verbatim>\<open>stat\<close> shows: the metadata server sends the
  stripe pattern of the inode, the client creates its own pattern from these bytes and writes with
  it, the storage servers store the pieces and report the sizes of their chunk files, and the
  metadata server computes from the reports the size of the file after the write, which is the
  old size or the end of the written range, whichever is larger.
\<close>

theorem write_updates_size:
  assumes "inode_open i" "alloc (srv_length (fi_pattern i)) = Some mem" "length mem = srv_length (fi_pattern i)"
    and "striped (srv_chunk (fi_pattern i)) (length (srv_getStripeTargetIDs (fi_pattern i)))
           (\<lambda>t. chunks (srv_getStripeTargetIDs (fi_pattern i) ! t)) f"
    and "bs_ok fwd" "length (srv_getStripeTargetIDs (fi_pattern i)) \<le> unat (bs_numBits fwd)"
    and "data \<noteq> []" "unat offset + length data < 2 ^ 63" "length f < 2 ^ 63" "length data < fuel"
    and "\<And>k ss. comm k ss = map fos_expectedNodeResult ss"
  shows "\<exists>msg len q r. serializeIntoNewBuffer alloc SrvPattern_put (fi_pattern i) = Some (msg, len) \<and>
    StripePattern_createFromBuf g msg 0 len = Ok q \<and>
    FhgfsOpsRemoting_writefileVec fuel mem_ok comm q fwd m data offset sw = Some r \<and> wr_retVal r = of_nat (length data) \<and>
    (\<forall>attrs. reports i (fold store_piece (wr_sent r) chunks) attrs \<longrightarrow>
       sd_fileSize (fi_statData (FileInode_updateDynamicAttribs now (snd (FileInode_setDynAttribs i attrs)))) =
         of_nat (max (length f) (unat offset + length data)))"
proof -
  let ?p = "fi_pattern i"
  have p: "srv_typed ?p" "srv_getChunkSize ?p \<noteq> 0" "srv_length ?p < 2 ^ 32" "client_ok ?p"
    using assms(1) by (auto simp: inode_open_def client_ok_def srv_ok_def)
  obtain msg q where q: "serializeIntoNewBuffer alloc SrvPattern_put ?p = Some (msg, of_nat (srv_length ?p))"
      "StripePattern_createFromBuf g msg 0 (of_nat (srv_length ?p)) = Ok q"
      "pattern_ids q = srv_getStripeTargetIDs ?p" "pattern_chunk q = srv_chunk ?p" "pattern_ok q"
    using client_receives [where alloc = alloc, OF p(1-3) assms(2,3), of g] p(4) by blast
  have "unat (sp_chunkSize (pattern_base q)) = unat (srv_getChunkSize ?p)" using q(4) by (simp add: pattern_chunk_def srv_chunk_def)
  then have "sp_chunkSize (pattern_base q) = srv_getChunkSize ?p" by (rule word_unat_eq_iff [THEN iffD2])
  then have io: "io_ok q" using q(5) assms(1) by (simp add: io_ok_def inode_open_def)
  have ids: "distinct (pattern_ids q)" "file_of q chunks f" "length (pattern_ids q) \<le> unat (bs_numBits fwd)"
    using assms(1,4,6) q(3,4) by (simp_all add: inode_open_def file_of_def)
  obtain r where r: "FhgfsOpsRemoting_writefileVec fuel mem_ok comm q fwd m data offset sw = Some r"
      "wr_retVal r = of_nat (length data)" "file_of q (fold store_piece (wr_sent r) chunks) (pwrite (unat offset) data f)"
    using write_stores [where alloc = mem_ok and m = m and sw = sw and comm = comm, OF io ids(1,2) assms(5) ids(3) assms(7,8,10,11)] by blast
  have "striped (srv_chunk ?p) (length (srv_getStripeTargetIDs ?p))
      (\<lambda>t. fold store_piece (wr_sent r) chunks (srv_getStripeTargetIDs ?p ! t)) (pwrite (unat offset) data f)"
    using r(3) q(3,4) by (simp add: file_of_def)
  then have "sd_fileSize (fi_statData (FileInode_updateDynamicAttribs now (snd (FileInode_setDynAttribs i attrs)))) =
      of_nat (max (length f) (unat offset + length data))" if "reports i (fold store_piece (wr_sent r) chunks) attrs" for attrs
    using reported_size [OF assms(1) that, of "pwrite (unat offset) data f" now] assms(8,9) by (simp add: length_pwrite)
  with q(1,2) r(1,2) show ?thesis by blast
qed

definition smallInode :: FileInode where
  "smallInode = \<lparr>fi_pattern = smallSrvPattern, fi_statData = zeroStat, fi_fileInfoVec =
     [ChunkFileInfo_construct 2 (MathTk_log2Int32 2) (attribsOf 0), ChunkFileInfo_construct 2 (MathTk_log2Int32 2) (attribsOf 0)]\<rparr>"

lemma small_reports: "\<exists>attrs. reports smallInode chunks attrs"
proof -
  let ?a = "\<lambda>x. (attribsOf (of_nat (length (chunks x :: bytes))))\<lparr>da_storageVersion := 2\<rparr>"
  have "reports smallInode chunks [?a 5, ?a 6]"
    by (auto simp: reports_def smallInode_def small_srv(5) ChunkFileInfo_construct_def attribsOf_def less_Suc_eq numeral_2_eq_2)
  then show ?thesis ..
qed

theorem write_updates_size_witness:
  "\<exists>msg len q r attrs. serializeIntoNewBuffer (\<lambda>n. Some (replicate n 0)) SrvPattern_put smallSrvPattern = Some (msg, len) \<and>
    StripePattern_createFromBuf \<lparr>g_uint = 3, g_poolId = 5\<rparr> msg 0 len = Ok q \<and>
    FhgfsOpsRemoting_writefileVec 6 (\<lambda>_ _. True) (\<lambda>_. map fos_expectedNodeResult) q zeroBits (-1) [1, 2, 3, 4, 5] 3 False = Some r \<and>
    wr_retVal r = 5 \<and>
    reports smallInode (fold store_piece (wr_sent r) (\<lambda>_. [])) attrs \<and>
    sd_fileSize (fi_statData (FileInode_updateDynamicAttribs 9 (snd (FileInode_setDynAttribs smallInode attrs)))) = 8"
proof -
  have "srv_typed smallSrvPattern" "srv_length smallSrvPattern = 30" "srv_getMirrorTargetIDs smallSrvPattern = None"
    by (simp_all add: smallSrvPattern_def Raid0Pattern_construct_def SrvPattern_header_def srv_length_def)
  then have i: "inode_open smallInode"
    using small_srv by (simp add: inode_open_def smallInode_def client_ok_def constructed_ok attribsOf_def)
  have i': "fi_pattern smallInode = smallSrvPattern" by (simp add: smallInode_def)
  have empty: "striped 2 (length [5, 6 :: u16]) (\<lambda>t. (\<lambda>_ :: u16. [] :: bytes) ([5, 6] ! t)) []" by (rule striped_empty)
  from write_updates_size [OF i, of "\<lambda>n. Some (replicate n 0)" "replicate (srv_length smallSrvPattern) 0" "\<lambda>_. []" "[]" zeroBits
      "[1, 2, 3, 4, 5]" 3 6 "\<lambda>_. map fos_expectedNodeResult" "\<lparr>g_uint = 3, g_poolId = 5\<rparr>" "\<lambda>_ _. True" "-1" False 9]
  show ?thesis using empty zeroBits_ok small_ok(4) small_reports by (simp add: i' small_srv) blast
qed

end
